(* ===== verification/Prelude.thy ===== *)
theory Prelude
  imports Main "HOL-Library.Word" "HOL-Library.AList" "HOL-Library.Multiset"
    "HOL-Library.Product_Lexorder" "HOL-Library.List_Lexorder" "HOL-Library.Char_ord"
begin

text \<open>
  Shared vocabulary of the development: bytes and little-endian integers, Python exceptions
  as values, insertion-ordered dictionaries, stable sorting and minimum, random draws as an
  explicit source, and the string operations of the standard library the code uses.
  Nothing here models a line of the repository by itself; every component theory imports it.
\<close>

named_theorems codec_simps \<open>cursor and byte-string facts that drive round-trip proofs\<close>
named_theorems dict_simps \<open>lookups, keys and well-formedness of insertion-ordered dictionaries\<close>

section \<open>Exceptions as values\<close>

text \<open>
  The exception classes the package raises or catches, with the constant part of the message.
  \<^verbatim>\<open>except ValueError\<close> also catches the subclasses, which \<^term>\<open>is_value_error\<close> lists.
\<close>

datatype exn =
    ValueError string | TypeError string | KeyError string | IndexError string
  | OverflowError string | RuntimeError string | AssertionError string
  | BlobError string | UnknownBlobVersion | HeaderError string | ShareError string
  | ProtocolError string | ConnectionError string | StructError string | AttributeError string

type_synonym 'a result = "exn + 'a"

fun is_value_error :: "exn \<Rightarrow> bool" where
  "is_value_error (ValueError m) = True"
| "is_value_error (BlobError m) = True"
| "is_value_error UnknownBlobVersion = True"
| "is_value_error (HeaderError m) = True"
| "is_value_error (ShareError m) = True"
| "is_value_error (ProtocolError m) = True"
| "is_value_error e = False"

definition bindR :: "'a result \<Rightarrow> ('a \<Rightarrow> 'b result) \<Rightarrow> 'b result" where
  "bindR r f = (case r of Inl e \<Rightarrow> Inl e | Inr x \<Rightarrow> f x)"

definition guardR :: "bool \<Rightarrow> exn \<Rightarrow> unit result" where
  "guardR ok e = (if ok then Inr () else Inl e)"

lemma bindR_simps [simp]: "bindR (Inr x) f = f x" "bindR (Inl e) f = Inl e"
  by (simp_all add: bindR_def)

lemma bindR_Inr_conv: "bindR r f = Inr y \<longleftrightarrow> (\<exists>x. r = Inr x \<and> f x = Inr y)"
  by (cases r) auto

lemma bindR_Inl_conv: "bindR r f = Inl e \<longleftrightarrow> r = Inl e \<or> (\<exists>x. r = Inr x \<and> f x = Inl e)"
  by (cases r) auto

lemma guardR_Inr [simp]: "guardR ok e = Inr u \<longleftrightarrow> ok"
  by (simp add: guardR_def)

lemma guardR_bind [simp]: "bindR (guardR ok e) f = (if ok then f () else Inl e)"
  by (simp add: guardR_def)

lemma bindR_cong [fundef_cong]:
  assumes "r = r'" "\<And>x. r' = Inr x \<Longrightarrow> f x = g x"
  shows "bindR r f = bindR r' g"
  using assms by (cases r') (auto simp: bindR_def)

fun mapR :: "('a \<Rightarrow> 'b result) \<Rightarrow> 'a list \<Rightarrow> 'b list result" where
  "mapR f [] = Inr []"
| "mapR f (x # xs) = bindR (f x) (\<lambda>y. bindR (mapR f xs) (\<lambda>ys. Inr (y # ys)))"

lemma mapR_map: "(\<And>x. x \<in> set xs \<Longrightarrow> f x = Inr (g x)) \<Longrightarrow> mapR f xs = Inr (map g xs)"
  by (induction xs) auto

lemma mapR_length: "mapR f xs = Inr ys \<Longrightarrow> length ys = length xs"
  by (induction xs arbitrary: ys) (auto simp: bindR_Inr_conv)

section \<open>Bytes\<close>

type_synonym byte = "8 word"
type_synonym bytes = "byte list"

text \<open>\<^verbatim>\<open>int.from_bytes(b, "little")\<close> and \<^verbatim>\<open>v.to_bytes(n, "little")\<close> (modulo \<^term>\<open>(256::nat) ^ n\<close>;
  Python raises \<^verbatim>\<open>OverflowError\<close> where the value does not fit, see \<^verbatim>\<open>to_bytes_le\<close>).\<close>

primrec le_val :: "bytes \<Rightarrow> nat" where
  "le_val [] = 0"
| "le_val (b # bs) = unat b + 256 * le_val bs"

primrec le_bytes :: "nat \<Rightarrow> nat \<Rightarrow> bytes" where
  "le_bytes 0 v = []"
| "le_bytes (Suc n) v = word_of_nat v # le_bytes n (v div 256)"

definition be_val :: "bytes \<Rightarrow> nat" where
  "be_val bs = le_val (rev bs)"

definition be_bytes :: "nat \<Rightarrow> nat \<Rightarrow> bytes" where
  "be_bytes n v = rev (le_bytes n v)"

definition to_bytes_le :: "nat \<Rightarrow> nat \<Rightarrow> bytes result" where
  "to_bytes_le n v = (if v < 256 ^ n then Inr (le_bytes n v) else Inl (OverflowError ''int too big to convert''))"

lemma length_le_bytes [simp, codec_simps]: "length (le_bytes n v) = n"
  by (induction n arbitrary: v) auto

lemma length_be_bytes [simp, codec_simps]: "length (be_bytes n v) = n"
  by (simp add: be_bytes_def)

lemma unat_lt_256 [simp]: "unat (b :: byte) < 256"
  using unsigned_less [of b] by simp

lemma le_val_le_bytes: "le_val (le_bytes n v) = v mod 256 ^ n"
proof (induction n arbitrary: v)
  case (Suc n)
  have "le_val (le_bytes (Suc n) v) = v mod 256 + 256 * (v div 256 mod 256 ^ n)"
    using Suc by (simp add: unat_of_nat)
  also have "\<dots> = v mod (256 * 256 ^ n)"
    by (simp add: mod_mult2_eq)
  finally show ?case by simp
qed simp

lemma le_val_le_bytes_id [simp, codec_simps]: "v < 256 ^ n \<Longrightarrow> le_val (le_bytes n v) = v"
  by (simp add: le_val_le_bytes)

lemma le_val_bound: "le_val bs < 256 ^ length bs"
proof (induction bs)
  case (Cons b bs)
  have "unat b + 256 * le_val bs < 256 + 256 * le_val bs" by simp
  also have "\<dots> \<le> 256 * 256 ^ length bs"
    using Cons by (metis Suc_leI mult_Suc_right mult_le_mono2)
  finally show ?case by simp
qed simp

lemma le_bytes_le_val [simp, codec_simps]: "length bs = n \<Longrightarrow> le_bytes n (le_val bs) = bs"
proof (induction bs arbitrary: n)
  case (Cons b bs)
  have "unat (word_of_nat (unat b + 256 * le_val bs) :: byte) = unat b"
    by (simp only: unat_of_nat) simp
  then have "word_of_nat (unat b + 256 * le_val bs) = (b :: byte)"
    by (simp only: word_unat_eq_iff)
  moreover have "(unat b + 256 * le_val bs) div 256 = le_val bs"
    by simp
  ultimately show ?case using Cons by auto
qed simp

lemma be_val_be_bytes [simp, codec_simps]: "v < 256 ^ n \<Longrightarrow> be_val (be_bytes n v) = v"
  by (simp add: be_val_def be_bytes_def)

lemma be_bytes_be_val [simp, codec_simps]: "length bs = n \<Longrightarrow> be_bytes n (be_val bs) = bs"
  by (simp add: be_val_def be_bytes_def)

lemma be_val_bound: "be_val bs < 256 ^ length bs"
  using le_val_bound [of "rev bs"] by (simp add: be_val_def)

text \<open>Python's \<^verbatim>\<open>data[a:b]\<close> for non-negative bounds: never raises, clamps to the data.\<close>

definition slice :: "'a list \<Rightarrow> nat \<Rightarrow> nat \<Rightarrow> 'a list" where
  "slice xs a b = take (b - a) (drop a xs)"

lemma length_slice: "length (slice xs a b) = min (b - a) (length xs - a)"
  by (simp add: slice_def)

lemma slice_append_mid [codec_simps]:
  "length xs = a \<Longrightarrow> b = a + length ys \<Longrightarrow> slice (xs @ ys @ zs) a b = ys"
  by (simp add: slice_def)

lemma drop_cursor [codec_simps]: "drop p xs = ys @ zs \<Longrightarrow> drop (p + length ys) xs = zs"
  by (metis append_eq_conv_conj drop_drop add.commute)

lemma cursor_length: "drop p xs = ys @ zs \<Longrightarrow> ys \<noteq> [] \<Longrightarrow> p + length ys \<le> length xs"
  by (metis Nat.le_diff_conv2 add.commute append_is_Nil_conv drop_eq_Nil2 le_add1
      length_append length_drop nat_le_linear)

section \<open>Insertion-ordered dictionaries\<close>

text \<open>
  A Python \<^verbatim>\<open>dict\<close> iterates in insertion order; overwriting a key keeps its place and a new
  key goes last. \<^verbatim>\<open>AList.update\<close> and \<^verbatim>\<open>AList.delete\<close> have exactly this behaviour.
\<close>

type_synonym ('k, 'v) dict = "('k \<times> 'v) list"

abbreviation dget :: "('k, 'v) dict \<Rightarrow> 'k \<Rightarrow> 'v option" where
  "dget d k \<equiv> map_of d k"

abbreviation dput :: "'k \<Rightarrow> 'v \<Rightarrow> ('k, 'v) dict \<Rightarrow> ('k, 'v) dict" where
  "dput \<equiv> AList.update"

abbreviation ddel :: "'k \<Rightarrow> ('k, 'v) dict \<Rightarrow> ('k, 'v) dict" where
  "ddel \<equiv> AList.delete"

abbreviation dvals :: "('k, 'v) dict \<Rightarrow> 'v list" where
  "dvals d \<equiv> map snd d"

abbreviation dkeys :: "('k, 'v) dict \<Rightarrow> 'k list" where
  "dkeys d \<equiv> map fst d"

definition dict_ok :: "('k, 'v) dict \<Rightarrow> bool" where
  "dict_ok d \<longleftrightarrow> distinct (dkeys d)"

definition ddel_all :: "'k list \<Rightarrow> ('k, 'v) dict \<Rightarrow> ('k, 'v) dict" where
  "ddel_all ks d = filter (\<lambda>(k, v). k \<notin> set ks) d"

lemma dget_dput [dict_simps, simp]: "dget (dput k v d) k' = (if k' = k then Some v else dget d k')"
  by (simp add: update_conv')

lemma dget_ddel [dict_simps, simp]: "dget (ddel k d) k' = (if k' = k then None else dget d k')"
  by (simp add: delete_conv')

lemma dict_ok_Nil [dict_simps, simp]: "dict_ok []"
  by (simp add: dict_ok_def)

lemma dict_ok_dput [dict_simps, simp, intro]: "dict_ok d \<Longrightarrow> dict_ok (dput k v d)"
  by (simp add: dict_ok_def distinct_update)

lemma dict_ok_ddel [dict_simps, simp, intro]: "dict_ok d \<Longrightarrow> dict_ok (ddel k d)"
  by (simp add: dict_ok_def distinct_delete)

lemma dict_ok_filter [dict_simps, simp, intro]: "dict_ok d \<Longrightarrow> dict_ok (filter P d)"
  by (simp add: dict_ok_def distinct_map_filter)

lemma dput_in: "x \<in> set (dput k v d) \<Longrightarrow> x = (k, v) \<or> x \<in> set d"
  by (induction d) (auto split: if_splits)

lemma dict_ok_dget: "dict_ok d \<Longrightarrow> dget d k = Some v \<longleftrightarrow> (k, v) \<in> set d"
  by (simp add: dict_ok_def)

lemma dput_new: "dget d k = None \<Longrightarrow> dput k v d = d @ [(k, v)]"
  by (induction d) (auto split: if_splits)

lemma length_dput: "length (dput k v d) = (if dget d k = None then Suc (length d) else length d)"
  by (induction d) auto

lemma length_ddel: "dict_ok d \<Longrightarrow> dget d k \<noteq> None \<Longrightarrow> Suc (length (ddel k d)) = length d"
proof (induction d)
  case (Cons p d)
  show ?case
  proof (cases "fst p = k")
    case True
    with Cons.prems have "k \<notin> fst ` set d" by (auto simp: dict_ok_def)
    with True show ?thesis by (cases p) simp
  next
    case False
    with Cons show ?thesis by (cases p) (auto simp: dict_ok_def)
  qed
qed simp

lemma set_ddel: "set (ddel k d) = {p \<in> set d. fst p \<noteq> k}"
  by (auto simp: AList.delete_eq)

lemma set_dput_ok:
  assumes "dict_ok d"
  shows "set (dput k v d) = insert (k, v) {p \<in> set d. fst p \<noteq> k}"
  using assms by (induction d) (auto simp: dict_ok_def image_iff)

lemma dget_ddel_all: "dget (ddel_all ks d) k = (if k \<in> set ks then None else dget d k)"
  by (induction d) (auto simp: ddel_all_def)

lemma dict_ok_ddel_all [dict_simps, simp, intro]: "dict_ok d \<Longrightarrow> dict_ok (ddel_all ks d)"
  by (simp add: ddel_all_def)

lemma set_ddel_all: "set (ddel_all ks d) = {p \<in> set d. fst p \<notin> set ks}"
  by (auto simp: ddel_all_def)

lemma filter_dput_other: "\<not> P (k, v) \<Longrightarrow> (\<And>w. dget d k = Some w \<Longrightarrow> \<not> P (k, w)) \<Longrightarrow>
    filter P (dput k v d) = filter P d"
  by (induction d) auto

lemma filter_length_ddel_le: "length (filter P (ddel k d)) \<le> length (filter P d)"
  by (induction d) auto

lemma dvals_ddel_subset: "set (dvals (ddel k d)) \<subseteq> set (dvals d)"
  by (auto simp: set_ddel)

text \<open>
  The interface a component relies on when it keeps records in a dictionary: what a lookup
  returns after a write or a delete, and what well-formedness every operation keeps.
  \<^verbatim>\<open>put_all\<close>-style lemmas are proved once here.
\<close>

locale keyed_store =
  fixes lookup :: "'m \<Rightarrow> 'k \<Rightarrow> 'v option"
    and put :: "'k \<Rightarrow> 'v \<Rightarrow> 'm \<Rightarrow> 'm"
    and remove :: "'k \<Rightarrow> 'm \<Rightarrow> 'm"
    and ok :: "'m \<Rightarrow> bool"
  assumes lookup_put: "lookup (put k v m) k' = (if k' = k then Some v else lookup m k')"
    and lookup_remove: "lookup (remove k m) k' = (if k' = k then None else lookup m k')"
    and ok_put: "ok m \<Longrightarrow> ok (put k v m)"
    and ok_remove: "ok m \<Longrightarrow> ok (remove k m)"
begin

lemma lookup_put_same: "lookup (put k v m) k = Some v"
  by (simp add: lookup_put)

lemma lookup_fold_put:
  "lookup (fold (\<lambda>(k, v). put k v) kvs m) k =
     (case map_of (rev kvs) k of Some v \<Rightarrow> Some v | None \<Rightarrow> lookup m k)"
  by (induction kvs arbitrary: m)
    (auto simp: lookup_put map_add_def split: option.splits)

lemma lookup_fold_remove:
  "lookup (fold remove ks m) k = (if k \<in> set ks then None else lookup m k)"
  by (induction ks arbitrary: m) (auto simp: lookup_remove)

lemma ok_fold_put: "ok m \<Longrightarrow> ok (fold (\<lambda>(k, v). put k v) kvs m)"
  by (induction kvs arbitrary: m) (auto simp: ok_put)

lemma ok_fold_remove: "ok m \<Longrightarrow> ok (fold remove ks m)"
  by (induction ks arbitrary: m) (auto simp: ok_remove)

end

interpretation dict: keyed_store map_of AList.update AList.delete dict_ok
  by unfold_locales auto

section \<open>Sorting and minimum\<close>

text \<open>
  \<^verbatim>\<open>min(xs, key=f)\<close> returns the first element with the least key. \<^verbatim>\<open>sorted(xs, key=f)\<close> is the
  stable \<^verbatim>\<open>sort_key\<close>; with \<^verbatim>\<open>reverse=True\<close> equal elements keep their order, so it is
  \<^verbatim>\<open>sort_key\<close> on the negated key.
\<close>

fun min_by :: "('a \<Rightarrow> 'b::linorder) \<Rightarrow> 'a list \<Rightarrow> 'a option" where
  "min_by f [] = None"
| "min_by f (x # xs) = (case min_by f xs of None \<Rightarrow> Some x | Some y \<Rightarrow> if f x \<le> f y then Some x else Some y)"

lemma min_by_in: "min_by f xs = Some x \<Longrightarrow> x \<in> set xs"
  by (induction xs arbitrary: x) (auto split: option.splits if_splits)

lemma min_by_least: "min_by f xs = Some x \<Longrightarrow> y \<in> set xs \<Longrightarrow> f x \<le> f y"
proof (induction xs arbitrary: x)
  case (Cons a xs)
  show ?case
  proof (cases "min_by f xs")
    case None
    then have "xs = []" by (cases xs) (auto split: option.splits if_splits)
    with Cons show ?thesis by auto
  next
    case (Some b)
    with Cons show ?thesis by (fastforce split: if_splits)
  qed
qed simp

lemma min_by_None [simp]: "min_by f xs = None \<longleftrightarrow> xs = []"
  by (cases xs) (auto split: option.splits)

section \<open>Random draws\<close>

text \<open>
  Every use of \<^verbatim>\<open>random\<close> takes its outcomes from an explicit list of numbers: a draw below
  \<open>n\<close> is the next number modulo \<open>n\<close>, and 0 once the list is used up. Every sequence of
  outcomes is produced by some list, so a lemma for all lists holds for all outcomes.
\<close>

type_synonym rand = "nat list"

fun draw :: "nat \<Rightarrow> rand \<Rightarrow> nat \<times> rand" where
  "draw n [] = (0, [])"
| "draw n (r # rs) = (r mod n, rs)"

lemma draw_lt: "0 < n \<Longrightarrow> fst (draw n rs) < n"
  by (cases rs) auto

text \<open>\<^verbatim>\<open>random.shuffle\<close>: for \<open>i = len - 1, \<dots>, 1\<close> swap position \<open>i\<close> with a draw below \<open>i + 1\<close>.\<close>

definition swap :: "'a list \<Rightarrow> nat \<Rightarrow> nat \<Rightarrow> 'a list" where
  "swap xs i j = xs[i := xs ! j, j := xs ! i]"

primrec shuffle_from :: "nat \<Rightarrow> 'a list \<Rightarrow> rand \<Rightarrow> 'a list \<times> rand" where
  "shuffle_from 0 xs rs = (xs, rs)"
| "shuffle_from (Suc i) xs rs =
     (case draw (Suc (Suc i)) rs of (j, rs') \<Rightarrow> shuffle_from i (swap xs (Suc i) j) rs')"

definition shuffle :: "'a list \<Rightarrow> rand \<Rightarrow> 'a list \<times> rand" where
  "shuffle xs rs = shuffle_from (length xs - 1) xs rs"

lemma mset_swap_positions: "i < length xs \<Longrightarrow> j < length xs \<Longrightarrow> mset (swap xs i j) = mset xs"
  by (simp add: swap_def mset_swap)

lemma length_swap [simp]: "length (swap xs i j) = length xs"
  by (simp add: swap_def)

lemma mset_shuffle_from: "i < length xs \<or> i = 0 \<Longrightarrow> mset (fst (shuffle_from i xs rs)) = mset xs"
proof (induction i arbitrary: xs rs)
  case (Suc i)
  obtain j rs' where d: "draw (Suc (Suc i)) rs = (j, rs')" by fastforce
  then have j: "j < Suc (Suc i)" using draw_lt [of "Suc (Suc i)" rs] by simp
  from Suc.prems have i: "Suc i < length xs" by simp
  have "mset (fst (shuffle_from i (swap xs (Suc i) j) rs')) = mset (swap xs (Suc i) j)"
    by (rule Suc.IH) (use i in simp)
  with d i j show ?case by (simp add: mset_swap_positions)
qed simp

lemma mset_shuffle [simp]: "mset (fst (shuffle xs rs)) = mset xs"
proof -
  have "length xs - 1 < length xs \<or> length xs - 1 = 0" by (cases xs) auto
  then show ?thesis unfolding shuffle_def by (rule mset_shuffle_from)
qed

lemma set_shuffle [simp]: "set (fst (shuffle xs rs)) = set xs"
  by (rule mset_eq_setD) simp

lemma distinct_shuffle [simp]: "distinct (fst (shuffle xs rs)) = distinct xs"
  by (rule mset_eq_imp_distinct_iff) simp

lemma length_shuffle [simp]: "length (fst (shuffle xs rs)) = length xs"
  by (rule mset_eq_length) simp

text \<open>\<^verbatim>\<open>random.choice(xs)\<close> on a non-empty list.\<close>

definition choice :: "'a list \<Rightarrow> rand \<Rightarrow> 'a \<times> rand" where
  "choice xs rs = (case draw (length xs) rs of (j, rs') \<Rightarrow> (xs ! j, rs'))"

lemma choice_in: "xs \<noteq> [] \<Longrightarrow> fst (choice xs rs) \<in> set xs"
  using draw_lt [of "length xs" rs] by (auto simp: choice_def split: prod.splits)

section \<open>Decimal strings and splitting\<close>

definition digit_char :: "nat \<Rightarrow> char" where
  "digit_char d = char_of (48 + d)"

fun str_nat :: "nat \<Rightarrow> string" where
  "str_nat n = (if n < 10 then [digit_char n] else str_nat (n div 10) @ [digit_char (n mod 10)])"

declare str_nat.simps [simp del]

definition str_int :: "int \<Rightarrow> string" where
  "str_int i = (if i < 0 then CHR ''-'' # str_nat (nat (- i)) else str_nat (nat i))"

definition is_digit :: "char \<Rightarrow> bool" where
  "is_digit c \<longleftrightarrow> 48 \<le> (of_char c :: nat) \<and> (of_char c :: nat) \<le> 57"

definition digit_val :: "char \<Rightarrow> nat" where
  "digit_val c = of_char c - 48"

definition digits_val :: "string \<Rightarrow> nat" where
  "digits_val s = foldl (\<lambda>a c. 10 * a + digit_val c) 0 s"

lemma digit_char_val [simp]: "d < 10 \<Longrightarrow> digit_val (digit_char d) = d"
  by (simp add: digit_val_def digit_char_def)

lemma digit_char_is_digit [simp]: "d < 10 \<Longrightarrow> is_digit (digit_char d)"
  by (simp add: is_digit_def digit_char_def)

lemma str_nat_digits: "list_all is_digit (str_nat n)"
proof (induction n rule: str_nat.induct)
  case (1 n)
  then show ?case by (subst str_nat.simps) auto
qed

lemma str_nat_nonempty [simp]: "str_nat n \<noteq> []"
  by (subst str_nat.simps) simp

lemma digits_val_str_nat [simp]: "digits_val (str_nat n) = n"
proof (induction n rule: str_nat.induct)
  case (1 n)
  then show ?case
    by (subst str_nat.simps) (auto simp: digits_val_def)
qed

lemma str_nat_inject [simp]: "str_nat m = str_nat n \<longleftrightarrow> m = n"
  by (metis digits_val_str_nat)

lemma str_nat_no_char: "\<not> is_digit c \<Longrightarrow> c \<notin> set (str_nat n)"
  using str_nat_digits [of n] by (auto simp: list_all_iff)

lemma is_digit_special [simp]:
  "\<not> is_digit CHR '':''" "\<not> is_digit CHR ''.''" "\<not> is_digit CHR ''-''" "\<not> is_digit CHR ''/''"
  by (simp_all add: is_digit_def)

lemma str_int_inject [simp]: "str_int i = str_int j \<longleftrightarrow> i = j"
proof
  assume eq: "str_int i = str_int j"
  have neg: "CHR ''-'' # s \<noteq> str_nat n" for s n
    using str_nat_no_char [of "CHR ''-''" n] by (metis is_digit_special(3) list.set_intros(1))
  show "i = j"
    using eq neg neg [symmetric] by (auto simp: str_int_def split: if_splits)
qed simp

lemma str_int_no_char: "\<not> is_digit c \<Longrightarrow> c \<noteq> CHR ''-'' \<Longrightarrow> c \<notin> set (str_int i)"
  by (auto simp: str_int_def str_nat_no_char)

text \<open>\<^verbatim>\<open>s.split(c)\<close> and \<^verbatim>\<open>c.join(parts)\<close>.\<close>

fun split_on :: "char \<Rightarrow> string \<Rightarrow> string list" where
  "split_on c [] = [[]]"
| "split_on c (x # xs) =
     (if x = c then [] # split_on c xs
      else (case split_on c xs of [] \<Rightarrow> [[x]] | p # ps \<Rightarrow> (x # p) # ps))"

fun join_with :: "char \<Rightarrow> string list \<Rightarrow> string" where
  "join_with c [] = []"
| "join_with c [p] = p"
| "join_with c (p # q # ps) = p @ c # join_with c (q # ps)"

lemma split_on_nonempty [simp]: "split_on c s \<noteq> []"
  by (cases s) (auto split: list.splits)

lemma join_split [simp]: "join_with c (split_on c s) = s"
proof (induction s)
  case (Cons x s)
  then show ?case
    by (cases "split_on c s"; cases "tl (split_on c s)") auto
qed simp

lemma split_on_no_char: "c \<notin> set s \<Longrightarrow> split_on c s = [s]"
  by (induction s) auto

lemma split_on_append: "c \<notin> set p \<Longrightarrow> split_on c (p @ c # s) = p # split_on c s"
  by (induction p) auto

section \<open>Histories\<close>

text \<open>
  A component whose every operation keeps an invariant keeps it over every history of
  operations. \<^verbatim>\<open>ok\<close> is what the callers guarantee of each operation.
\<close>

locale history =
  fixes step :: "'o \<Rightarrow> 's \<Rightarrow> 's" and ok :: "'o \<Rightarrow> bool" and inv :: "'s \<Rightarrow> bool"
  assumes inv_step: "ok x \<Longrightarrow> inv s \<Longrightarrow> inv (step x s)"
begin

lemma inv_run: "list_all ok xs \<Longrightarrow> inv s \<Longrightarrow> inv (fold step xs s)"
  by (induction xs arbitrary: s) (simp_all add: inv_step)

lemma inv_prefix: "list_all ok (xs @ ys) \<Longrightarrow> inv s \<Longrightarrow> inv (fold step xs s)"
  by (simp add: inv_run)

end

end
