(* ===== verification/IpAddr.thy ===== *)
theory IpAddr
  imports Prelude
begin

text \<open>
  IPv4 literals and ranges: the parts of Python's \<^verbatim>\<open>ipaddress\<close> the code calls, the module
  \<^verbatim>\<open>transpeer/ipranges.py\<close>, and the address arithmetic of \<^verbatim>\<open>transpeer/scanner.py\<close>
  (blind-scan exclusions, random targets). Addresses are numbers below \<^term>\<open>(2::nat) ^ 32\<close>;
  strings are ASCII.
\<close>

section \<open>The standard library's IPv4 literals\<close>

text \<open>\<^verbatim>\<open>IPv4Address._parse_octet\<close>: digits only, at most three, no leading zero, at most 255.\<close>

definition parse_octet :: "string \<Rightarrow> nat option" where
  "parse_octet s =
     (if s = [] then None
      else if \<not> list_all is_digit s then None
      else if 3 < length s then None
      else if s \<noteq> ''0'' \<and> hd s = CHR ''0'' then None
      else if 255 < digits_val s then None
      else Some (digits_val s))"

definition ipv4_of_string :: "string \<Rightarrow> nat option" where
  "ipv4_of_string s =
     (case map parse_octet (split_on CHR ''.'' s) of
        [Some a, Some b, Some c, Some d] \<Rightarrow> Some (((a * 256 + b) * 256 + c) * 256 + d)
      | _ \<Rightarrow> None)"

definition ipv4_to_string :: "nat \<Rightarrow> string" where
  "ipv4_to_string n = join_with CHR ''.''
     [str_nat (n div 2 ^ 24), str_nat (n div 2 ^ 16 mod 256), str_nat (n div 2 ^ 8 mod 256),
      str_nat (n mod 256)]"

lemma digits_val_snoc [simp]: "digits_val (s @ [c]) = 10 * digits_val s + digit_val c"
  by (simp add: digits_val_def)

lemma digit_char_digit_val [simp]: "is_digit c \<Longrightarrow> digit_char (digit_val c) = c"
  by (simp add: is_digit_def digit_char_def digit_val_def)

lemma digit_val_lt [simp]: "is_digit c \<Longrightarrow> digit_val c < 10"
  unfolding is_digit_def digit_val_def by linarith

lemma digit_char_0: "digit_char 0 = CHR ''0''"
  by code_simp

lemma str_nat_digits_val:
  "s \<noteq> [] \<Longrightarrow> list_all is_digit s \<Longrightarrow> s = ''0'' \<or> hd s \<noteq> CHR ''0'' \<Longrightarrow>
     str_nat (digits_val s) = s"
proof (induction s rule: rev_induct)
  case (snoc c s)
  from snoc.prems have c: "is_digit c" by simp
  show ?case
  proof (cases "s = []")
    case True
    with c show ?thesis by (subst str_nat.simps) (simp add: digits_val_def)
  next
    case False
    with snoc.prems have s: "list_all is_digit s" "hd s \<noteq> CHR ''0''"
      by (auto simp: Cons_eq_append_conv)
    with False snoc.IH have IH: "str_nat (digits_val s) = s" by simp
    have "digits_val s \<noteq> 0"
    proof
      assume "digits_val s = 0"
      with IH have "s = str_nat 0" by simp
      then have "s = [CHR ''0'']"
        by (subst (asm) str_nat.simps) (simp add: digit_char_0)
      with s show False by simp
    qed
    with IH c show ?thesis by (subst str_nat.simps) simp
  qed
qed simp

lemma parse_octet_str_nat: "v < 256 \<Longrightarrow> parse_octet (str_nat v) = Some v"
proof -
  assume v: "v < 256"
  have len: "length (str_nat v) \<le> 3"
    using v by (subst str_nat.simps, subst str_nat.simps, subst str_nat.simps) simp
  have zero: "hd (str_nat v) = CHR ''0'' \<Longrightarrow> str_nat v = ''0''" for v
  proof (induction v rule: str_nat.induct)
    case (1 n)
    show ?case
    proof (cases "n < 10")
      case True
      with 1 show ?thesis by (subst str_nat.simps, subst (asm) (2) str_nat.simps) simp
    next
      case False
      have "hd (str_nat n) = hd (str_nat (n div 10))"
        using False by (subst str_nat.simps) simp
      with 1 False have "str_nat (n div 10) = ''0''" by simp
      then have "n div 10 = 0"
        using digits_val_str_nat [of "n div 10"] by (simp add: digits_val_def digit_val_def)
      with False show ?thesis by simp
    qed
  qed
  show ?thesis
    using v len zero [of v] str_nat_digits [of v] by (auto simp: parse_octet_def)
qed

lemma parse_octet_Some: "parse_octet s = Some v \<Longrightarrow> v < 256 \<and> str_nat v = s"
  by (auto simp: parse_octet_def str_nat_digits_val split: if_splits)

lemma no_dot_str_nat [simp]: "CHR ''.'' \<notin> set (str_nat n)"
  by (rule str_nat_no_char) simp

lemma split_on_join4:
  assumes "\<forall>p \<in> {a, b, c, d}. x \<notin> set p"
  shows "split_on x (join_with x [a, b, c, d]) = [a, b, c, d]"
  using assms by (simp add: split_on_append split_on_no_char)

lemma ipv4_parse_format: "n < 2 ^ 32 \<Longrightarrow> ipv4_of_string (ipv4_to_string n) = Some n"
proof -
  assume n: "n < 2 ^ 32"
  then have top: "n div 2 ^ 24 < 256" by (simp add: less_mult_imp_div_less)
  have step: "n div (k * 256) * 256 + n div k mod 256 = n div k" for k
    by (simp add: div_mult2_eq)
  have "((n div 2 ^ 24 * 256 + n div 2 ^ 16 mod 256) * 256 + n div 2 ^ 8 mod 256) * 256 + n mod 256 = n"
    using step [of "2 ^ 16"] step [of "2 ^ 8"] step [of 1] by simp
  with top show ?thesis
    unfolding ipv4_of_string_def ipv4_to_string_def
    by (subst split_on_join4) (simp_all add: parse_octet_str_nat)
qed

lemma ipv4_of_string_Some:
  assumes "ipv4_of_string s = Some n"
  shows "n < 2 ^ 32 \<and> ipv4_to_string n = s"
proof -
  obtain a b c d A B C D where sp: "split_on CHR ''.'' s = [A, B, C, D]"
    and oct: "parse_octet A = Some a" "parse_octet B = Some b" "parse_octet C = Some c"
      "parse_octet D = Some d"
    and n: "n = ((a * 256 + b) * 256 + c) * 256 + d"
    using assms by (auto simp: ipv4_of_string_def split: list.splits option.splits)
  have lt: "a < 256" "b < 256" "c < 256" "d < 256"
    and str: "str_nat a = A" "str_nat b = B" "str_nat c = C" "str_nat d = D"
    using oct by (auto dest: parse_octet_Some)
  have d1: "n div 256 = (a * 256 + b) * 256 + c" "n mod 256 = d"
    using lt by (simp add: n, simp only: n mod_mult_self3 mod_less)
  have hi: "(X * 256 + y) div 256 = X" if "y < 256" for X y :: nat
    using that by simp
  have d2: "n div 2 ^ 16 = a * 256 + b"
    using div_mult2_eq [of n 256 256] by (simp only: d1(1) hi [OF lt(3)]) simp
  have d3: "n div 2 ^ 24 = a"
    using div_mult2_eq [of n "2 ^ 16" 256] by (simp only: d2 hi [OF lt(2)]) simp
  have "n div 2 ^ 24 = a" "n div 2 ^ 16 mod 256 = b" "n div 2 ^ 8 mod 256 = c" "n mod 256 = d"
    using lt d1(2) d2 d3 mod_mult_self3 [of "a * 256 + b" 256 c] by (simp_all add: d1(1))
  moreover have "n < 2 ^ 32" using lt by (simp add: n)
  ultimately show ?thesis
    using join_split [of "CHR ''.''" s] sp str by (simp add: ipv4_to_string_def)
qed

lemma ipv4_of_string_inject:
  "ipv4_of_string s = Some n \<Longrightarrow> ipv4_of_string t = Some n \<Longrightarrow> s = t"
  using ipv4_of_string_Some by metis

lemma no_colon_ipv4: "ipv4_of_string s = Some n \<Longrightarrow> CHR '':'' \<notin> set s"
  using ipv4_of_string_Some [of s n] str_nat_no_char [of "CHR '':''"]
  by (auto simp: ipv4_to_string_def)

end
