(* ===== verification/Ranges.thy ===== *)
theory Ranges
  imports IpAddr
begin

text \<open>
  \<^verbatim>\<open>transpeer/ipranges.py\<close> (reserved IPv4 space), the second reserved-range test of
  \<^verbatim>\<open>anchor/blob.py\<close>, and the address generators and exclusion file of
  \<^verbatim>\<open>transpeer/scanner.py\<close>. The two reserved-range tests are proved to agree on every IPv4
  literal, and a generated address is proved to lie outside every excluded range.
\<close>

section \<open>Python's int() on ASCII strings\<close>

definition is_space :: "char \<Rightarrow> bool" where
  "is_space c \<longleftrightarrow> (let n = of_char c :: nat in 9 \<le> n \<and> n \<le> 13 \<or> 28 \<le> n \<and> n \<le> 32)"

definition strip :: "string \<Rightarrow> string" where
  "strip s = rev (dropWhile is_space (rev (dropWhile is_space s)))"

fun digits_us :: "bool \<Rightarrow> string \<Rightarrow> nat \<Rightarrow> nat option" where
  "digits_us p [] acc = (if p then Some acc else None)"
| "digits_us p (c # cs) acc =
     (if is_digit c then digits_us True cs (10 * acc + digit_val c)
      else if c = CHR ''_'' \<and> p then digits_us False cs acc
      else None)"

definition py_int :: "string \<Rightarrow> int option" where
  "py_int s = (case strip s of
       [] \<Rightarrow> None
     | c # r \<Rightarrow> if c = CHR ''-'' then map_option (\<lambda>n. - int n) (digits_us False r 0)
                else if c = CHR ''+'' then map_option int (digits_us False r 0)
                else map_option int (digits_us False (c # r) 0))"

lemma digits_us_digits:
  "list_all is_digit s \<Longrightarrow> s \<noteq> [] \<or> p \<Longrightarrow>
     digits_us p s acc = Some (foldl (\<lambda>a c. 10 * a + digit_val c) acc s)"
  by (induction p s acc rule: digits_us.induct) auto

lemma digit_not_space: "is_digit c \<Longrightarrow> \<not> is_space c"
  by (simp add: is_digit_def is_space_def)

lemma dropWhile_digits: "list_all is_digit s \<Longrightarrow> dropWhile is_space s = s"
  by (cases s) (auto simp: digit_not_space)

lemma strip_digits: "list_all is_digit s \<Longrightarrow> strip s = s"
  using dropWhile_digits [of s] dropWhile_digits [of "rev s"] by (simp add: strip_def)

lemma py_int_digits:
  assumes "list_all is_digit s" "s \<noteq> []"
  shows "py_int s = Some (int (digits_val s))"
proof -
  obtain c r where s: "s = c # r" using assms(2) by (cases s) auto
  with assms have "is_digit c" by simp
  then have "c \<noteq> CHR ''-''" "c \<noteq> CHR ''+''" by (auto simp: is_digit_def)
  then show ?thesis
    using assms s strip_digits [OF assms(1)] digits_us_digits [OF assms(1), of False 0]
    by (simp add: py_int_def digits_val_def)
qed

section \<open>transpeer/ipranges.py\<close>

definition int_of_str :: "string \<Rightarrow> int result" where
  "int_of_str s = (case py_int s of None \<Rightarrow> Inl (ValueError ''invalid literal for int()'') | Some i \<Rightarrow> Inr i)"

text \<open>\<^verbatim>\<open>bytes(int(o) for o in ...)\<close>: a value outside 0..255 is a \<^verbatim>\<open>ValueError\<close>.\<close>

definition bytes_of_ints :: "int list \<Rightarrow> bytes result" where
  "bytes_of_ints is = (if list_all (\<lambda>i. 0 \<le> i \<and> i < 256) is then Inr (map word_of_int is)
     else Inl (ValueError ''bytes must be in range(0, 256)''))"

definition ip_to_int :: "string \<Rightarrow> nat result" where
  "ip_to_int ip =
     bindR (mapR int_of_str (split_on CHR ''.'' ip)) (\<lambda>os.
     bindR (bytes_of_ints os) (\<lambda>bs.
     if length bs = 4 then Inr (be_val bs) else Inl (StructError ''unpack requires a buffer of 4 bytes'')))"

definition int_to_ip :: "int \<Rightarrow> string result" where
  "int_to_ip n = (if 0 \<le> n \<and> n < 2 ^ 32
     then Inr (join_with CHR ''.'' (map (\<lambda>b. str_nat (unat b)) (be_bytes 4 (nat n))))
     else Inl (StructError ''argument out of range''))"

definition RESERVED_STR :: "(string \<times> string) list" where
  "RESERVED_STR =
    [(''0.0.0.0'', ''0.255.255.255''), (''10.0.0.0'', ''10.255.255.255''),
     (''100.64.0.0'', ''100.127.255.255''), (''127.0.0.0'', ''127.255.255.255''),
     (''169.254.0.0'', ''169.254.255.255''), (''172.16.0.0'', ''172.31.255.255''),
     (''192.0.0.0'', ''192.0.0.255''), (''192.0.2.0'', ''192.0.2.255''),
     (''192.88.99.0'', ''192.88.99.255''), (''192.168.0.0'', ''192.168.255.255''),
     (''198.18.0.0'', ''198.19.255.255''), (''198.51.100.0'', ''198.51.100.255''),
     (''203.0.113.0'', ''203.0.113.255''), (''224.0.0.0'', ''239.255.255.255''),
     (''240.0.0.0'', ''255.255.255.255'')]"

definition RESERVED_RANGES :: "(nat \<times> nat) list" where
  "RESERVED_RANGES = map (\<lambda>(a, b). (projr (ip_to_int a), projr (ip_to_int b))) RESERVED_STR"

definition in_ranges :: "nat \<Rightarrow> (nat \<times> nat) list \<Rightarrow> bool" where
  "in_ranges n rs = list_ex (\<lambda>(a, b). a \<le> n \<and> n \<le> b) rs"

definition is_reserved_int :: "nat \<Rightarrow> bool" where
  "is_reserved_int n = list_ex (\<lambda>(a, b). a \<le> n \<and> n \<le> b) RESERVED_RANGES"

definition is_reserved_address :: "string \<Rightarrow> bool" where
  "is_reserved_address addr = (case ip_to_int addr of Inl e \<Rightarrow> True | Inr n \<Rightarrow> is_reserved_int n)"

lemma int_of_str_str_nat: "int_of_str (str_nat v) = Inr (int v)"
  using py_int_digits [OF str_nat_digits str_nat_nonempty, of v] by (simp add: int_of_str_def)

lemma ip_to_int_ipv4:
  assumes "ipv4_of_string s = Some n"
  shows "ip_to_int s = Inr n"
proof -
  obtain a b c d A B C D where sp: "split_on CHR ''.'' s = [A, B, C, D]"
    and oct: "parse_octet A = Some a" "parse_octet B = Some b" "parse_octet C = Some c"
      "parse_octet D = Some d"
    and n: "n = ((a * 256 + b) * 256 + c) * 256 + d"
    using assms by (auto simp: ipv4_of_string_def split: list.splits option.splits)
  have lt: "a < 256" "b < 256" "c < 256" "d < 256"
    and str: "A = str_nat a" "B = str_nat b" "C = str_nat c" "D = str_nat d"
    using oct by (auto dest: parse_octet_Some)
  have u: "unat (word_of_int (int x) :: byte) = x" if "x < 256" for x
    using that by (simp only: of_int_of_nat_eq unat_of_nat) simp
  have m: "mapR int_of_str [A, B, C, D] = Inr [int a, int b, int c, int d]"
    by (simp add: str int_of_str_str_nat)
  have bs: "bytes_of_ints [int a, int b, int c, int d] = Inr (map (word_of_int o int) [a, b, c, d])"
    using lt by (simp add: bytes_of_ints_def)
  have v: "be_val (map (word_of_int o int) [a, b, c, d]) = n"
    unfolding be_val_def n by (simp add: u lt del: of_int_of_nat_eq)
  show ?thesis
    unfolding ip_to_int_def sp m bindR_simps bs v by simp
qed

lemma be_bytes_4: "n < 2 ^ 32 \<Longrightarrow>
   map (\<lambda>b. str_nat (unat b)) (be_bytes 4 n) =
     [str_nat (n div 2 ^ 24), str_nat (n div 2 ^ 16 mod 256), str_nat (n div 2 ^ 8 mod 256),
      str_nat (n mod 256)]"
proof -
  assume n: "n < 2 ^ 32"
  then have t: "n div 2 ^ 24 < 256" by (simp add: less_mult_imp_div_less)
  have d: "n div 256 div 256 = n div 2 ^ 16" "n div 2 ^ 16 div 256 = n div 2 ^ 24"
    by (simp_all add: div_mult2_eq [symmetric])
  have u: "unat (word_of_nat x :: byte) = x mod 256" for x
    by (simp only: unat_of_nat) simp
  have four: "(4::nat) = Suc (Suc (Suc (Suc 0)))" by simp
  have "be_bytes 4 n = map word_of_nat [n div 2 ^ 24, n div 2 ^ 16, n div 2 ^ 8, n]"
    by (simp only: be_bytes_def four le_bytes.simps rev.simps append.simps list.map d) (simp add: d)
  then show ?thesis using t by (simp only: list.map u) simp
qed

lemma int_to_ip_eq: "n < 2 ^ 32 \<Longrightarrow> int_to_ip (int n) = Inr (ipv4_to_string n)"
  by (simp add: int_to_ip_def be_bytes_4 ipv4_to_string_def)

lemma RESERVED_RANGES_eval: "RESERVED_RANGES =
  [(0, 16777215), (167772160, 184549375), (1681915904, 1686110207), (2130706432, 2147483647),
   (2851995648, 2852061183), (2886729728, 2887778303), (3221225472, 3221225727),
   (3221225984, 3221226239), (3227017984, 3227018239), (3232235520, 3232301055),
   (3323068416, 3323199487), (3325256704, 3325256959), (3405803776, 3405804031),
   (3758096384, 4026531839), (4026531840, 4294967295)]"
  unfolding RESERVED_RANGES_def RESERVED_STR_def
  by (simp add: ip_to_int_ipv4 ipv4_of_string_def parse_octet_def is_digit_def digits_val_def digit_val_def)

section \<open>The standard library's IPv4 networks\<close>

text \<open>
  \<^verbatim>\<open>IPv4Network(s, strict=False)\<close>: an address, optionally followed by \<^verbatim>\<open>/\<close> and a prefix
  length, a netmask or a hostmask. A network is its address and its prefix length.
\<close>

type_synonym ipnet = "nat \<times> nat"

definition prefix_of_mask :: "nat \<Rightarrow> nat option" where
  "prefix_of_mask m = find (\<lambda>p. m = 2 ^ 32 - 2 ^ (32 - p)) [0..<33]"

definition prefix_of_string :: "string \<Rightarrow> nat option" where
  "prefix_of_string s =
     (if s \<noteq> [] \<and> list_all is_digit s \<and> digits_val s \<le> 32 then Some (digits_val s)
      else (case ipv4_of_string s of
              None \<Rightarrow> None
            | Some m \<Rightarrow> (case prefix_of_mask m of
                          Some p \<Rightarrow> Some p
                        | None \<Rightarrow> prefix_of_mask (2 ^ 32 - 1 - m))))"

definition net_of :: "nat \<Rightarrow> nat \<Rightarrow> ipnet" where
  "net_of a p = (a div 2 ^ (32 - p) * 2 ^ (32 - p), p)"

definition ipv4_network :: "string \<Rightarrow> ipnet option" where
  "ipv4_network s =
     (case split_on CHR ''/'' s of
        [a] \<Rightarrow> map_option (\<lambda>n. net_of n 32) (ipv4_of_string a)
      | [a, p] \<Rightarrow> (case ipv4_of_string a of
                    None \<Rightarrow> None
                  | Some n \<Rightarrow> map_option (net_of n) (prefix_of_string p))
      | _ \<Rightarrow> None)"

definition broadcast_of :: "ipnet \<Rightarrow> nat" where
  "broadcast_of n = fst n + 2 ^ (32 - snd n) - 1"

definition num_addresses :: "ipnet \<Rightarrow> nat" where
  "num_addresses n = 2 ^ (32 - snd n)"

text \<open>\<^verbatim>\<open>a in n\<close>: the address masked with the netmask is the network address.\<close>

definition in_net :: "nat \<Rightarrow> ipnet \<Rightarrow> bool" where
  "in_net a n \<longleftrightarrow> a div 2 ^ (32 - snd n) * 2 ^ (32 - snd n) = fst n"

lemma in_net_iff:
  assumes "2 ^ (32 - p) dvd net"
  shows "in_net a (net, p) \<longleftrightarrow> net \<le> a \<and> a \<le> net + 2 ^ (32 - p) - 1"
proof -
  define k :: nat where "k = 2 ^ (32 - p)"
  obtain c where c: "net = k * c" using assms by (auto simp: k_def dvd_def)
  have k: "0 < k" by (simp add: k_def)
  have "a div k * k = k * c \<longleftrightarrow> a div k = c"
    using k by (simp add: mult.commute)
  also have "\<dots> \<longleftrightarrow> c \<le> a div k \<and> a div k < Suc c"
    by auto
  also have "\<dots> \<longleftrightarrow> k * c \<le> a \<and> a < k * c + k"
    using k by (simp add: less_eq_div_iff_mult_less_eq div_less_iff_less_mult mult.commute add.commute)
  also have "\<dots> \<longleftrightarrow> net \<le> a \<and> a \<le> net + k - 1"
    using k c by auto
  finally show ?thesis by (simp add: in_net_def k_def c)
qed

lemma net_of_dvd: "2 ^ (32 - p) dvd fst (net_of a p)"
  by (simp add: net_of_def)

lemma ipv4_network_dvd: "ipv4_network s = Some n \<Longrightarrow> 2 ^ (32 - snd n) dvd fst n"
  by (auto simp: ipv4_network_def net_of_def split: list.splits option.splits)

section \<open>The reserved-range test of anchor/blob.py\<close>

definition BLOB_RESERVED_STR :: "string list" where
  "BLOB_RESERVED_STR =
    [''0.0.0.0/8'', ''10.0.0.0/8'', ''100.64.0.0/10'', ''127.0.0.0/8'',
     ''169.254.0.0/16'', ''172.16.0.0/12'', ''192.0.0.0/24'', ''192.0.2.0/24'',
     ''192.88.99.0/24'', ''192.168.0.0/16'', ''198.18.0.0/15'', ''198.51.100.0/24'',
     ''203.0.113.0/24'', ''224.0.0.0/4'', ''240.0.0.0/4'']"

definition BLOB_RESERVED :: "ipnet list" where
  "BLOB_RESERVED = map (the o ipv4_network) BLOB_RESERVED_STR"

definition is_reserved :: "string \<Rightarrow> bool result" where
  "is_reserved ip = (case ipv4_of_string ip of
      None \<Rightarrow> Inl (ValueError ''not an IPv4 address'')
    | Some a \<Rightarrow> Inr (list_ex (in_net a) BLOB_RESERVED))"

lemma BLOB_RESERVED_eval: "BLOB_RESERVED =
  [(0, 8), (167772160, 8), (1681915904, 10), (2130706432, 8), (2851995648, 16), (2886729728, 12),
   (3221225472, 24), (3221225984, 24), (3227017984, 24), (3232235520, 16), (3323068416, 15),
   (3325256704, 24), (3405803776, 24), (3758096384, 4), (4026531840, 4)]"
  unfolding BLOB_RESERVED_def BLOB_RESERVED_STR_def
  by (simp add: ipv4_network_def ipv4_of_string_def prefix_of_string_def parse_octet_def
      is_digit_def digits_val_def digit_val_def net_of_def)

lemma reserved_tests_agree_nat:
  "list_ex (in_net a) BLOB_RESERVED = is_reserved_int a"
  unfolding BLOB_RESERVED_eval is_reserved_int_def RESERVED_RANGES_eval
  by (simp add: in_net_iff)

section \<open>Blind scanning: transpeer/scanner.py\<close>

definition SENSITIVE_CIDRS :: "string list" where
  "SENSITIVE_CIDRS =
    [''6.0.0.0/8'', ''7.0.0.0/8'', ''11.0.0.0/8'', ''21.0.0.0/8'', ''22.0.0.0/8'',
     ''26.0.0.0/8'', ''28.0.0.0/8'', ''29.0.0.0/8'', ''30.0.0.0/8'', ''33.0.0.0/8'',
     ''55.0.0.0/8'', ''214.0.0.0/8'', ''215.0.0.0/8'']"

definition SENSITIVE_RANGES :: "(nat \<times> nat) list" where
  "SENSITIVE_RANGES = map (\<lambda>c. let n = the (ipv4_network c) in (fst n, broadcast_of n)) SENSITIVE_CIDRS"

text \<open>
  \<^verbatim>\<open>load_exclusions(path)\<close>: \<^verbatim>\<open>None\<close> stands for no path; otherwise the file's lines. A
  malformed line is an error.
\<close>

definition exclusion_line :: "string \<Rightarrow> string" where
  "exclusion_line raw = strip (takeWhile (\<lambda>c. c \<noteq> CHR ''#'') raw)"

fun load_exclusion_lines :: "string list \<Rightarrow> (nat \<times> nat) list result" where
  "load_exclusion_lines [] = Inr []"
| "load_exclusion_lines (raw # rest) =
     (let line = exclusion_line raw in
      if line = [] then load_exclusion_lines rest
      else (case ipv4_network line of
              None \<Rightarrow> Inl (ValueError ''not an IPv4 prefix'')
            | Some net \<Rightarrow> bindR (load_exclusion_lines rest) (\<lambda>rs. Inr ((fst net, broadcast_of net) # rs))))"

definition load_exclusions :: "string list option \<Rightarrow> (nat \<times> nat) list result" where
  "load_exclusions path = (case path of None \<Rightarrow> Inr [] | Some lines \<Rightarrow> load_exclusion_lines lines)"

text \<open>
  \<^verbatim>\<open>random_ip\<close>: draw until a number is accepted. The draws are given as a list; the result is
  \<^verbatim>\<open>None\<close> as long as none of them is accepted, so not returning is a value of the model.
  \<^verbatim>\<open>randint(1, 0xFFFFFFFE)\<close> is one plus a draw below \<^verbatim>\<open>0xFFFFFFFE\<close>.
\<close>

fun random_ip :: "(nat \<times> nat) list \<Rightarrow> bool \<Rightarrow> rand \<Rightarrow> string option" where
  "random_ip exclude skip_sensitive [] = None"
| "random_ip exclude skip_sensitive (r # rs) =
     (let ip_int = 1 + r mod 4294967294 in
      if is_reserved_int ip_int \<or> in_ranges ip_int exclude then random_ip exclude skip_sensitive rs
      else if skip_sensitive \<and> in_ranges ip_int SENSITIVE_RANGES then random_ip exclude skip_sensitive rs
      else Some (ipv4_to_string ip_int))"

definition random_ip_in_cidr :: "string \<Rightarrow> rand \<Rightarrow> string result" where
  "random_ip_in_cidr cidr rs =
     (case ipv4_network cidr of
        None \<Rightarrow> Inl (ValueError ''not an IPv4 prefix'')
      | Some net \<Rightarrow>
          (let num_hosts = int (num_addresses net) - 2 in
           if num_hosts \<le> 0 then Inr (ipv4_to_string (fst net))
           else Inr (ipv4_to_string (fst net + (1 + fst (draw (nat num_hosts) rs))))))"

definition scan_target_ok :: "(nat \<times> nat) list \<Rightarrow> bool \<Rightarrow> nat \<Rightarrow> bool" where
  "scan_target_ok exclude skip_sensitive n \<longleftrightarrow>
     1 \<le> n \<and> n \<le> 4294967294 \<and> \<not> is_reserved_int n \<and> \<not> in_ranges n exclude \<and>
     \<not> (skip_sensitive \<and> in_ranges n SENSITIVE_RANGES)"

lemma random_ip_Some:
  "random_ip ex sk rs = Some s \<Longrightarrow> \<exists>n. ipv4_of_string s = Some n \<and> scan_target_ok ex sk n"
proof (induction ex sk rs rule: random_ip.induct)
  case (2 ex sk r rs)
  let ?n = "1 + r mod 4294967294"
  have n: "?n \<le> 4294967294" "1 \<le> ?n" by (simp_all add: Suc_leI)
  then have "?n < 2 ^ 32" by simp
  note fmt = ipv4_parse_format [OF this]
  show ?case
  proof (cases "scan_target_ok ex sk ?n")
    case True
    with 2 fmt show ?thesis by (auto simp: scan_target_ok_def Let_def)
  next
    case False
    with 2 n show ?thesis by (auto simp: scan_target_ok_def Let_def split: if_splits)
  qed
qed simp

lemma random_ip_finds:
  "scan_target_ok ex sk n \<Longrightarrow> n - 1 \<in> set rs \<Longrightarrow> random_ip ex sk rs \<noteq> None"
proof (induction rs)
  case (Cons r rs)
  show ?case
  proof (cases "r = n - 1")
    case True
    with Cons.prems(1) have "1 + r mod 4294967294 = n" by (auto simp: scan_target_ok_def)
    with Cons.prems(1) show ?thesis by (auto simp: scan_target_ok_def Let_def)
  next
    case False
    with Cons show ?thesis by (auto simp: Let_def)
  qed
qed simp

lemma random_ip_None_iff:
  "(\<forall>rs. random_ip ex sk rs = None) \<longleftrightarrow> (\<forall>n. \<not> scan_target_ok ex sk n)"
proof
  assume none: "\<forall>rs. random_ip ex sk rs = None"
  show "\<forall>n. \<not> scan_target_ok ex sk n"
  proof (intro allI notI)
    fix n assume "scan_target_ok ex sk n"
    then have "random_ip ex sk [n - 1] \<noteq> None" by (rule random_ip_finds) simp
    with none [rule_format, of "[n - 1]"] show False by contradiction
  qed
next
  assume "\<forall>n. \<not> scan_target_ok ex sk n"
  then show "\<forall>rs. random_ip ex sk rs = None"
    using random_ip_Some by (metis not_None_eq)
qed

lemma load_exclusion_lines_cover:
  "load_exclusion_lines ls = Inr rs \<Longrightarrow> l \<in> set ls \<Longrightarrow> ipv4_network (exclusion_line l) = Some net \<Longrightarrow>
     in_net n net \<Longrightarrow> in_ranges n rs"
proof (induction ls arbitrary: rs)
  case (Cons raw ls)
  show ?case
  proof (cases "exclusion_line raw = []")
    case True
    moreover have "ipv4_network [] = None"
      by (simp add: ipv4_network_def ipv4_of_string_def parse_octet_def)
    ultimately show ?thesis
      using Cons by (auto simp: Let_def)
  next
    case False
    with Cons.prems(1) obtain net' rs' where p: "ipv4_network (exclusion_line raw) = Some net'"
      "load_exclusion_lines ls = Inr rs'" "rs = (fst net', broadcast_of net') # rs'"
      by (auto simp: Let_def bindR_Inr_conv split: option.splits)
    show ?thesis
    proof (cases "l = raw")
      case True
      with p Cons.prems have "net = net'" by simp
      moreover have "2 ^ (32 - snd net) dvd fst net"
        using ipv4_network_dvd Cons.prems(3) .
      ultimately show ?thesis
        using Cons.prems(4) p(3) in_net_iff [of "snd net" "fst net" n]
        by (simp add: in_ranges_def broadcast_of_def)
    next
      case False
      with Cons.prems p have "in_ranges n rs'" using Cons.IH by auto
      with p(3) show ?thesis by (simp add: in_ranges_def)
    qed
  qed
qed simp

lemma load_exclusion_lines_error:
  "(\<exists>e. load_exclusion_lines ls = Inl e) \<longleftrightarrow>
     (\<exists>l \<in> set ls. exclusion_line l \<noteq> [] \<and> ipv4_network (exclusion_line l) = None)"
  by (induction ls) (auto simp: Let_def bindR_Inl_conv split: option.splits)

end
