(* ===== verification/Floats.thy ===== *)
theory Floats
  imports Complex_Main "HOL-Library.Log_Nat"
begin

text \<open>
  Python floats where a decision of the code depends on one: a quotient of two integers and a
  product with a constant are correctly rounded to 53 significant bits, ties to even. \<^term>\<open>fl\<close>
  is that rounding on rational numbers (no overflow or underflow: every value the code forms
  lies between \<^term>\<open>2 powi (-60) :: rat\<close> and \<^term>\<open>2 powi 60 :: rat\<close> or is zero).
\<close>

definition flog2 :: "rat \<Rightarrow> int" where
  "flog2 x = (case quotient_of x of (a, b) \<Rightarrow>
     let k = bitlen a - bitlen b in if 2 powi k \<le> x then k else k - 1)"

definition round_even :: "rat \<Rightarrow> int" where
  "round_even x = (let f = \<lfloor>x\<rfloor>; d = x - of_int f in
     if d < 1 / 2 then f else if 1 / 2 < d then f + 1 else if even f then f else f + 1)"

definition fl_pos :: "rat \<Rightarrow> rat" where
  "fl_pos x = (let s = 52 - flog2 x in of_int (round_even (x * 2 powi s)) * 2 powi (- s))"

definition fl :: "rat \<Rightarrow> rat" where
  "fl x = (if x = 0 then 0 else if x < 0 then - fl_pos (- x) else fl_pos x)"

text \<open>\<^verbatim>\<open>a / b\<close> on integers, \<^verbatim>\<open>a * b\<close> on floats, and \<^verbatim>\<open>int(x)\<close> on a float.\<close>

definition fdiv :: "int \<Rightarrow> int \<Rightarrow> rat" where
  "fdiv a b = fl (of_int a / of_int b)"

definition fmul :: "rat \<Rightarrow> rat \<Rightarrow> rat" where
  "fmul a b = fl (a * b)"

definition trunc :: "rat \<Rightarrow> int" where
  "trunc x = (if x < 0 then - \<lfloor>- x\<rfloor> else \<lfloor>x\<rfloor>)"

lemma powi_mono: "(a::int) \<le> b \<Longrightarrow> (2::rat) powi a \<le> 2 powi b"
  by (simp add: power_int_increasing)

lemma flog2_bounds:
  assumes "0 < x"
  shows "2 powi (flog2 x) \<le> x" "x < 2 powi (flog2 x + 1)"
proof -
  obtain a b where q: "quotient_of x = (a, b)" by fastforce
  have b: "0 < b" and x: "x = of_int a / of_int b"
    using quotient_of_denom_pos [OF q] quotient_of_div [OF q] by auto
  with assms have a: "0 < a" by (simp add: zero_less_divide_iff)
  have bl: "(2::rat) powi (bitlen n - 1) \<le> of_int n \<and> (of_int n::rat) < 2 powi bitlen n" if "0 < n" for n
  proof -
    have g: "0 < bitlen n" using that bitlen_nonneg [of n] bitlen_eq_zero_iff [of n] by linarith
    have "2 ^ nat (bitlen n - 1) \<le> n \<and> n < 2 ^ nat (bitlen n)"
      using that by (rule bitlen_bounds)
    then have "of_int (2 ^ nat (bitlen n - 1)) \<le> (of_int n :: rat) \<and> (of_int n :: rat) < of_int (2 ^ nat (bitlen n))"
      by (simp only: of_int_le_iff of_int_less_iff)
    with g show ?thesis by (simp add: power_int_def)
  qed
  define k where "k = bitlen a - bitlen b"
  have up: "x < 2 powi (k + 1)"
  proof -
    have "x < 2 powi bitlen a / 2 powi (bitlen b - 1)"
      unfolding x using bl [OF a] bl [OF b] a b by (intro frac_less) auto
    also have "\<dots> = 2 powi (k + 1)" by (simp add: k_def power_int_diff [symmetric] algebra_simps)
    finally show ?thesis .
  qed
  have lo: "2 powi (k - 1) \<le> x"
  proof -
    have "2 powi (k - 1) = (2 powi (bitlen a - 1)) / (2 powi bitlen b :: rat)"
      by (simp add: k_def power_int_diff [symmetric] algebra_simps)
    also have "\<dots> \<le> x"
      unfolding x using bl [OF a] bl [OF b] a b by (intro frac_le) auto
    finally show ?thesis .
  qed
  have f: "flog2 x = (if 2 powi k \<le> x then k else k - 1)"
    by (simp add: flog2_def q k_def Let_def)
  show "2 powi (flog2 x) \<le> x" "x < 2 powi (flog2 x + 1)"
    using up lo by (auto simp: f)
qed

lemma round_even_of_int [simp]: "round_even (of_int i) = i"
  by (simp add: round_even_def Let_def)

lemma round_even_bounds: "\<lfloor>x\<rfloor> \<le> round_even x" "round_even x \<le> \<lfloor>x\<rfloor> + 1"
  by (auto simp: round_even_def Let_def)

lemma round_even_mono: "x \<le> y \<Longrightarrow> round_even x \<le> round_even y"
proof -
  assume le: "x \<le> y"
  then have fl: "\<lfloor>x\<rfloor> \<le> \<lfloor>y\<rfloor>" by (rule floor_mono)
  show ?thesis
  proof (cases "\<lfloor>x\<rfloor> = \<lfloor>y\<rfloor>")
    case True
    with le show ?thesis by (auto simp: round_even_def Let_def)
  next
    case False
    with fl show ?thesis using round_even_bounds [of x] round_even_bounds [of y] by linarith
  qed
qed

lemma fl_pos_range:
  assumes "0 < x"
  shows "2 powi (flog2 x) \<le> fl_pos x" "fl_pos x \<le> 2 powi (flog2 x + 1)"
proof -
  define e where "e = flog2 x"
  have lo: "2 powi e \<le> x" and hi: "x < 2 powi (e + 1)"
    using flog2_bounds [OF assms] by (simp_all add: e_def)
  have p: "0 < (2::rat) powi (52 - e)" by simp
  have "2 powi e * 2 powi (52 - e) \<le> x * 2 powi (52 - e)"
    using lo p by (intro mult_right_mono) auto
  then have l: "of_int (2 ^ 52) \<le> x * 2 powi (52 - e)"
    by (simp add: power_int_add [symmetric])
  have "x * 2 powi (52 - e) \<le> 2 powi (e + 1) * 2 powi (52 - e)"
    using hi p by (intro mult_right_mono) auto
  then have h: "x * 2 powi (52 - e) \<le> of_int (2 ^ 53)"
    by (simp add: power_int_add [symmetric])
  have r: "2 ^ 52 \<le> round_even (x * 2 powi (52 - e))" "round_even (x * 2 powi (52 - e)) \<le> 2 ^ 53"
    using round_even_mono [OF l] round_even_mono [OF h] by (simp_all only: round_even_of_int)
  have q: "0 \<le> (2::rat) powi (e - 52)" by simp
  have f: "fl_pos x = of_int (round_even (x * 2 powi (52 - e))) * 2 powi (e - 52)"
    by (simp add: fl_pos_def e_def)
  have "of_int (2 ^ 52) * 2 powi (e - 52) \<le> fl_pos x"
    unfolding f using r(1) q by (intro mult_right_mono) (simp_all only: of_int_le_iff)
  then show "2 powi (flog2 x) \<le> fl_pos x"
    by (simp add: e_def [symmetric] power_int_add [symmetric] power_int_diff)
  have "fl_pos x \<le> of_int (2 ^ 53) * 2 powi (e - 52)"
    unfolding f using r(2) q by (intro mult_right_mono) (simp_all only: of_int_le_iff)
  then show "fl_pos x \<le> 2 powi (flog2 x + 1)"
    by (simp add: e_def [symmetric] power_int_add power_int_diff)
qed

lemma fl_pos_mono:
  assumes "0 < x" "x \<le> y"
  shows "fl_pos x \<le> fl_pos y"
proof -
  have y: "0 < y" using assms by simp
  show ?thesis
  proof (cases "flog2 x < flog2 y")
    case True
    have "fl_pos x \<le> 2 powi (flog2 x + 1)" by (rule fl_pos_range [OF assms(1)])
    also have "\<dots> \<le> 2 powi (flog2 y)" using True by (intro powi_mono) simp
    also have "\<dots> \<le> fl_pos y" by (rule fl_pos_range [OF y])
    finally show ?thesis .
  next
    case False
    have "\<not> flog2 y < flog2 x"
    proof
      assume "flog2 y < flog2 x"
      then have "(2::rat) powi (flog2 y + 1) \<le> 2 powi (flog2 x)" by (intro powi_mono) simp
      with flog2_bounds [OF assms(1)] flog2_bounds [OF y] assms(2) show False by linarith
    qed
    with False have e: "flog2 x = flog2 y" by simp
    have "round_even (x * 2 powi (52 - flog2 y)) \<le> round_even (y * 2 powi (52 - flog2 y))"
      using assms(2) by (intro round_even_mono mult_right_mono) auto
    then show ?thesis
      by (simp add: fl_pos_def e Let_def mult_right_mono)
  qed
qed

lemma fl_0 [simp]: "fl 0 = 0"
  by (simp add: fl_def)

lemma fl_pos_positive: "0 < x \<Longrightarrow> 0 < fl_pos x"
  using fl_pos_range(1) [of x] by (meson less_le_trans zero_less_power_int zero_less_numeral)

lemma fl_mono: "0 \<le> x \<Longrightarrow> x \<le> y \<Longrightarrow> fl x \<le> fl y"
  using fl_pos_mono [of x y] fl_pos_positive [of y] by (auto simp: fl_def less_eq_rat_def)

lemma fl_nonneg: "0 \<le> x \<Longrightarrow> 0 \<le> fl x"
  using fl_mono [of 0 x] by simp

lemma fl_four_fifths: "fl (4 / 5) = 7205759403792794 / 9007199254740992"
  by code_simp

lemma fl_below_four_fifths: "fl (36028797018963967 / 45035996273704960) = 7205759403792793 / 9007199254740992"
  by code_simp

lemma fl_half: "fl (1 / 2) = 1 / 2"
  by code_simp

lemma fl_below_half: "fl (9007199254740991 / 18014398509481984) = 9007199254740991 / 18014398509481984"
  by code_simp

text \<open>
  A rounded quotient is at least the double nearest 4/5 exactly when the true quotient is at
  least 4/5, for denominators below \<^term>\<open>(2::int) ^ 50\<close>; likewise for 1/2.
\<close>

lemma fdiv_ge_four_fifths:
  assumes "0 \<le> a" "0 < t" "t < 2 ^ 50"
  shows "fl (4 / 5) \<le> fdiv a t \<longleftrightarrow> 4 * t \<le> 5 * a"
proof
  assume "4 * t \<le> 5 * a"
  then have "rat_of_int (4 * t) \<le> of_int (5 * a)" by (simp only: of_int_le_iff)
  then have "(4 / 5 :: rat) \<le> of_int a / of_int t" using assms by (simp add: field_simps)
  then show "fl (4 / 5) \<le> fdiv a t" unfolding fdiv_def by (intro fl_mono) auto
next
  assume ge: "fl (4 / 5) \<le> fdiv a t"
  show "4 * t \<le> 5 * a"
  proof (rule ccontr)
    assume "\<not> 4 * t \<le> 5 * a"
    then have "45035996273704960 * a \<le> 36028797018963967 * t" using assms by simp
    then have "rat_of_int (45035996273704960 * a) \<le> of_int (36028797018963967 * t)"
      by (simp only: of_int_le_iff)
    then have "of_int a / of_int t \<le> (36028797018963967 / 45035996273704960 :: rat)"
      using assms by (simp add: field_simps)
    moreover have "(0 :: rat) \<le> of_int a / of_int t" using assms by simp
    ultimately have "fdiv a t \<le> fl (36028797018963967 / 45035996273704960)"
      unfolding fdiv_def by (intro fl_mono)
    with ge show False by (simp add: fl_below_four_fifths fl_four_fifths)
  qed
qed

lemma fdiv_ge_half:
  assumes "0 \<le> a" "0 < t" "t < 2 ^ 50"
  shows "1 / 2 \<le> fdiv a t \<longleftrightarrow> t \<le> 2 * a"
proof
  assume "t \<le> 2 * a"
  then have "rat_of_int t \<le> of_int (2 * a)" by (simp only: of_int_le_iff)
  then have "(1 / 2 :: rat) \<le> of_int a / of_int t" using assms by (simp add: field_simps)
  then have "fl (1 / 2) \<le> fdiv a t" unfolding fdiv_def by (intro fl_mono) auto
  then show "1 / 2 \<le> fdiv a t" by (simp add: fl_half)
next
  assume ge: "1 / 2 \<le> fdiv a t"
  show "t \<le> 2 * a"
  proof (rule ccontr)
    assume "\<not> t \<le> 2 * a"
    then have "18014398509481984 * a \<le> 9007199254740991 * t" using assms by simp
    then have "rat_of_int (18014398509481984 * a) \<le> of_int (9007199254740991 * t)"
      by (simp only: of_int_le_iff)
    then have "of_int a / of_int t \<le> (9007199254740991 / 18014398509481984 :: rat)"
      using assms by (simp add: field_simps)
    moreover have "(0 :: rat) \<le> of_int a / of_int t" using assms by simp
    ultimately have "fdiv a t \<le> fl (9007199254740991 / 18014398509481984)"
      unfolding fdiv_def by (intro fl_mono)
    with ge show False by (simp add: fl_below_half)
  qed
qed

end
