(* ===== verification/Config.thy ===== *)
theory Config
  imports Ranges Floats
begin

text \<open>
  \<^verbatim>\<open>transpeer/config.py\<close>: the constants, the \<^verbatim>\<open>Config\<close> dataclass with its defaults, the
  User-Agent string and the \<^verbatim>\<open>--static-peers\<close> parser. The command line that fills
  it is in theory \<open>Cli\<close>. Float fields are rational numbers.
\<close>

section \<open>Constants\<close>

definition TRANSPEER_PORT :: int where "TRANSPEER_PORT = 7337"
definition PROTOCOL_VERSION :: string where "PROTOCOL_VERSION = ''transpeer/1''"
definition PROJECT_URL :: string where "PROJECT_URL = ''https://github.com/Fountain5405/transpeer''"
definition SCAN_CONCURRENCY :: int where "SCAN_CONCURRENCY = 500"
definition PEER_PRUNE_AGE :: int where "PEER_PRUNE_AGE = 86400 * 7"
definition TRANSPEER_PRUNE_AGE :: int where "TRANSPEER_PRUNE_AGE = 86400 * 3"
definition SCAN_INTERVAL :: int where "SCAN_INTERVAL = 10"
definition MAX_TRANSPEERS_TRACKED :: nat where "MAX_TRANSPEERS_TRACKED = 500"
definition GOSSIP_SAMPLE_SIZE :: nat where "GOSSIP_SAMPLE_SIZE = 50"
definition QUERY_BATCH_SIZE :: nat where "QUERY_BATCH_SIZE = 20"
definition MAX_PEERS_PER_NETWORK :: nat where "MAX_PEERS_PER_NETWORK = 2000"
definition RATE_LIMIT_REQUESTS :: nat where "RATE_LIMIT_REQUESTS = 60"
definition RATE_LIMIT_WINDOW :: rat where "RATE_LIMIT_WINDOW = 60"
definition HANDSHAKE_MAX_EFFORT :: int where "HANDSHAKE_MAX_EFFORT = 1000"
definition TIMESTAMP_BUCKET_SECS :: int where "TIMESTAMP_BUCKET_SECS = 21600"
definition DEFAULT_DIFFICULTY :: int where "DEFAULT_DIFFICULTY = 100"

definition user_agent :: "string \<Rightarrow> string" where
  "user_agent contact =
     PROTOCOL_VERSION @ '' (+'' @ PROJECT_URL @ ''; peer discovery'' @
     (if contact \<noteq> [] then ''; opt-out: '' @ contact else []) @ '')''"

section \<open>The Config dataclass\<close>

record config =
  c_port :: int
  c_bind :: string
  c_difficulty :: int
  c_networks :: "string list"
  c_scan_range :: "string option"
  c_in_memory :: bool
  c_no_pow :: bool
  c_sim_pow :: bool
  c_share_white_list :: bool
  c_static_peers :: "(string, (string \<times> int) list) dict option"
  c_no_verify :: bool
  c_subnet_prefix :: int
  c_bucketed :: bool
  c_vouchers :: bool
  c_tried_table :: bool
  c_snapshot_interval :: int
  c_handoff_reserve :: int
  c_native_vouchers :: bool
  c_sim_daemon_listen :: bool
  c_native_ports :: "(string, int) dict"
  c_scan_rate :: rat
  c_scan_idle_rate :: rat
  c_scan_target_known :: int
  c_scan_exclude :: "string list option"
  c_scan_legacy :: bool
  c_contact :: string
  c_anchor_publish :: bool
  c_anchor_chain :: string
  c_aux_rpc_bind :: string
  c_aux_rpc_port :: int
  c_aux_diff :: int
  c_anchor_min_age :: rat
  c_anchor_max_new :: rat
  c_anchor_sim_pow :: bool
  c_anchor_read :: bool
  c_anchor_checkpoint :: string
  c_anchor_venues :: string
  c_anchor_window_days :: rat
  c_anchor_monerod :: string
  c_anchor_observe :: string

definition default_config :: config where
  "default_config = \<lparr>
     c_port = TRANSPEER_PORT, c_bind = ''0.0.0.0'', c_difficulty = DEFAULT_DIFFICULTY,
     c_networks = [''monero'', ''wownero'', ''aeon''], c_scan_range = None, c_in_memory = False,
     c_no_pow = False, c_sim_pow = False, c_share_white_list = False, c_static_peers = None,
     c_no_verify = False, c_subnet_prefix = 16, c_bucketed = False, c_vouchers = False,
     c_tried_table = False, c_snapshot_interval = 0, c_handoff_reserve = 0,
     c_native_vouchers = False, c_sim_daemon_listen = False, c_native_ports = [],
     c_scan_rate = 4, c_scan_idle_rate = 0, c_scan_target_known = 3, c_scan_exclude = None,
     c_scan_legacy = False, c_contact = [], c_anchor_publish = False,
     c_anchor_chain = ''monero'', c_aux_rpc_bind = ''127.0.0.1'', c_aux_rpc_port = 7338,
     c_aux_diff = 100000, c_anchor_min_age = 14, c_anchor_max_new = 1 / 4,
     c_anchor_sim_pow = False, c_anchor_read = False, c_anchor_checkpoint = [],
     c_anchor_venues = [], c_anchor_window_days = 7, c_anchor_monerod = [],
     c_anchor_observe = [] \<rparr>"

section \<open>Static peers\<close>

text \<open>\<^verbatim>\<open>s.rpartition(":")\<close>: what precedes and follows the last separator.\<close>

definition rpartition :: "char \<Rightarrow> string \<Rightarrow> string \<times> string" where
  "rpartition c s = (let ps = split_on c s in
     if length ps = 1 then ([], s) else (join_with c (butlast ps), last ps))"

text \<open>\<^verbatim>\<open>s.split(":", 1)\<close>.\<close>

definition split1 :: "char \<Rightarrow> string \<Rightarrow> string list" where
  "split1 c s = (if c \<in> set s then [takeWhile (\<lambda>x. x \<noteq> c) s, tl (dropWhile (\<lambda>x. x \<noteq> c) s)] else [s])"

fun parse_peer_list :: "string list \<Rightarrow> (string \<times> int) list result" where
  "parse_peer_list [] = Inr []"
| "parse_peer_list (peer # rest) =
     (let p = strip peer in
      if p = [] then parse_peer_list rest
      else (case rpartition CHR '':'' p of (addr, port) \<Rightarrow>
        if addr \<noteq> [] \<and> port \<noteq> [] then
          bindR (int_of_str port) (\<lambda>n. bindR (parse_peer_list rest) (\<lambda>ps. Inr ((addr, n) # ps)))
        else parse_peer_list rest))"

fun parse_net_specs :: "string list \<Rightarrow> (string, (string \<times> int) list) dict \<Rightarrow>
    (string, (string \<times> int) list) dict result" where
  "parse_net_specs [] result = Inr result"
| "parse_net_specs (spec # rest) result =
     (if spec = [] then parse_net_specs rest result
      else (case split1 CHR '':'' spec of
        [network, peers_str] \<Rightarrow>
          bindR (parse_peer_list (split_on CHR '','' peers_str)) (\<lambda>peers.
            parse_net_specs rest (if peers \<noteq> [] then dput network peers result else result))
      | _ \<Rightarrow> parse_net_specs rest result))"

definition parse_static_peers :: "string option \<Rightarrow> (string, (string \<times> int) list) dict option result" where
  "parse_static_peers spec =
     (case spec of None \<Rightarrow> Inr None
      | Some s \<Rightarrow> if s = [] then Inr None
                 else bindR (parse_net_specs (split_on CHR '';'' s) []) (\<lambda>r. Inr (Some r)))"

end
