(* ===== verification/PeerTypes.thy ===== *)
theory PeerTypes
  imports Config "HOL-Library.FSet"
begin

text \<open>
  The data of \<^verbatim>\<open>transpeer/peerstore.py\<close>: peers, transpeer entries, per-source trust, the
  store and its SQLite tables, and the diversity bucket of an address.
\<close>

section \<open>Records\<close>

record peer =
  p_network :: string
  p_addr :: string
  p_port :: int
  p_last_seen :: int
  p_sources :: int
  p_verified :: bool
  p_source_addr :: string
  p_vouchers :: "string fset"
  p_native_vouchers :: "string fset"
  p_published_vouchers :: "string fset"
  p_nonce :: bytes
  p_effort :: int
  p_solution :: bytes
  p_timestamp_bucket :: int

definition new_peer :: "string \<Rightarrow> string \<Rightarrow> int \<Rightarrow> peer" where
  "new_peer network addr port = \<lparr> p_network = network, p_addr = addr, p_port = port,
     p_last_seen = 0, p_sources = 1, p_verified = False, p_source_addr = [],
     p_vouchers = {||}, p_native_vouchers = {||}, p_published_vouchers = {||},
     p_nonce = [], p_effort = 0, p_solution = [], p_timestamp_bucket = 0 \<rparr>"

definition key_of :: "string \<Rightarrow> string \<Rightarrow> int \<Rightarrow> string" where
  "key_of network addr port = network @ '':'' @ addr @ '':'' @ str_int port"

definition peer_key :: "peer \<Rightarrow> string" where
  "peer_key p = key_of (p_network p) (p_addr p) (p_port p)"

record tentry =
  t_addr :: string
  t_port :: int
  t_networks :: "string list"
  t_last_seen :: int
  t_node_id :: string
  t_last_queried :: int
  t_answered :: int
  t_alive :: bool
  t_native :: "(string, bool) dict"
  t_first_seen :: int
  t_published :: bool
  t_unfaithful :: bool
  t_uptime :: int

definition new_tentry :: "string \<Rightarrow> int \<Rightarrow> tentry" where
  "new_tentry addr port = \<lparr> t_addr = addr, t_port = port, t_networks = [], t_last_seen = 0,
     t_node_id = [], t_last_queried = 0, t_answered = 0, t_alive = False, t_native = [],
     t_first_seen = 0, t_published = False, t_unfaithful = False, t_uptime = 0 \<rparr>"

definition tkey_of :: "string \<Rightarrow> int \<Rightarrow> string" where
  "tkey_of addr port = addr @ '':'' @ str_int port"

definition tentry_key :: "tentry \<Rightarrow> string" where
  "tentry_key t = tkey_of (t_addr t) (t_port t)"

section \<open>Limits\<close>

definition BASE_PEERS_PER_SOURCE :: int where "BASE_PEERS_PER_SOURCE = 50"
definition DEAD_PEER_MAX_AGE :: int where "DEAD_PEER_MAX_AGE = 3600"
definition DEAD_PEER_COOLDOWN :: int where "DEAD_PEER_COOLDOWN = 1800"
definition MAX_TRANSPEERS_PER_SUBNET :: nat where "MAX_TRANSPEERS_PER_SUBNET = 3"
definition TRIED_THRESHOLD :: int where "TRIED_THRESHOLD = 2"
definition RESERVE_MIN_VOUCHERS :: nat where "RESERVE_MIN_VOUCHERS = 2"

text \<open>The float literal \<^verbatim>\<open>0.8\<close> is the double nearest to four fifths.\<close>

definition VERIFY_THRESHOLD :: rat where "VERIFY_THRESHOLD = fl (4 / 5)"

section \<open>SourceTrust\<close>

record trust =
  tr_cap :: int
  tr_accepted :: int
  tr_alive :: int
  tr_dead :: int

definition new_trust :: trust where
  "new_trust = \<lparr> tr_cap = BASE_PEERS_PER_SOURCE, tr_accepted = 0, tr_alive = 0, tr_dead = 0 \<rparr>"

definition total_verified :: "trust \<Rightarrow> int" where
  "total_verified t = tr_alive t + tr_dead t"

definition alive_rate :: "trust \<Rightarrow> rat" where
  "alive_rate t = (if total_verified t = 0 then 0 else fdiv (tr_alive t) (total_verified t))"

definition record_verification :: "bool \<Rightarrow> trust \<Rightarrow> trust" where
  "record_verification alive t =
     (if alive then t\<lparr>tr_alive := tr_alive t + 1\<rparr> else t\<lparr>tr_dead := tr_dead t + 1\<rparr>)"

definition maybe_expand :: "trust \<Rightarrow> trust" where
  "maybe_expand t =
     (if total_verified t \<ge> 10 \<and> alive_rate t \<ge> VERIFY_THRESHOLD
      then t\<lparr>tr_cap := tr_cap t + BASE_PEERS_PER_SOURCE, tr_alive := 0, tr_dead := 0\<rparr> else t)"

definition maybe_contract :: "trust \<Rightarrow> trust" where
  "maybe_contract t =
     (if total_verified t \<ge> 10 \<and> alive_rate t < VERIFY_THRESHOLD
      then t\<lparr>tr_cap := BASE_PEERS_PER_SOURCE, tr_alive := 0, tr_dead := 0\<rparr> else t)"

section \<open>SQLite tables and the store\<close>

text \<open>A row holds the persisted fields only; \<^verbatim>\<open>INSERT OR REPLACE\<close> deletes the old row and
  appends a new one, so iteration order follows the last write.\<close>

record peer_row =
  r_network :: string
  r_addr :: string
  r_port :: int
  r_last_seen :: int
  r_sources :: int
  r_verified :: bool
  r_nonce :: bytes
  r_effort :: int
  r_solution :: bytes
  r_bucket :: int

record tp_row =
  tr_addr :: string
  tr_port :: int
  tr_networks :: string
  tr_last_seen :: int
  tr_first_seen :: int
  tr_published :: bool
  tr_unfaithful :: bool

record database =
  db_peers :: "(string \<times> string \<times> int, peer_row) dict"
  db_transpeers :: "(string \<times> int, tp_row) dict"

definition replace_row :: "'k \<Rightarrow> 'v \<Rightarrow> ('k, 'v) dict \<Rightarrow> ('k, 'v) dict" where
  "replace_row k v d = ddel k d @ [(k, v)]"

record store =
  s_peers :: "(string, peer) dict"
  s_transpeers :: "(string, tentry) dict"
  s_candidates :: "(string, int) dict"
  s_dead :: "(string, int) dict"
  s_trust :: "(string, trust) dict"
  s_db :: "database option"

definition empty_store :: "config \<Rightarrow> store" where
  "empty_store cfg = \<lparr> s_peers = [], s_transpeers = [], s_candidates = [], s_dead = [], s_trust = [],
     s_db = (if c_in_memory cfg then None else Some \<lparr> db_peers = [], db_transpeers = [] \<rparr>) \<rparr>"

section \<open>Diversity buckets\<close>

text \<open>
  \<^verbatim>\<open>_bucket_of\<close>: the \<^verbatim>\<open>/N\<close> prefix of an address. For \<open>N > 32\<close> the shift count is negative and
  Python raises, outside the \<^verbatim>\<open>try\<close>; the store operations below are modelled for
  \<open>N \<le> 32\<close>, where \<^verbatim>\<open>bucket_of\<close> is the value (lemma \<^verbatim>\<open>bucket_of_raises_iff\<close>).
\<close>

definition bucket_of_checked :: "config \<Rightarrow> string \<Rightarrow> string result" where
  "bucket_of_checked cfg addr =
     (case ipv4_of_string addr of
        None \<Rightarrow> Inr addr
      | Some n \<Rightarrow>
          if c_subnet_prefix cfg \<le> 0 then Inr ''0''
          else if 32 < c_subnet_prefix cfg then Inl (ValueError ''negative shift count'')
          else (let k = 32 - nat (c_subnet_prefix cfg) in
                Inr (ipv4_to_string (n div 2 ^ k * 2 ^ k) @ ''/'' @ str_int (c_subnet_prefix cfg))))"

definition bucket_of :: "config \<Rightarrow> string \<Rightarrow> string" where
  "bucket_of cfg addr = (case bucket_of_checked cfg addr of Inr b \<Rightarrow> b | Inl e \<Rightarrow> addr)"

lemma bucket_of_raises_iff:
  "(\<exists>e. bucket_of_checked cfg addr = Inl e) \<longleftrightarrow> ipv4_of_string addr \<noteq> None \<and> 32 < c_subnet_prefix cfg"
  by (auto simp: bucket_of_checked_def Let_def split: option.splits)

text \<open>
  Two literals share a bucket exactly when their addresses agree on the prefix.
\<close>

lemma bucket_of_eq_iff:
  assumes "ipv4_of_string a = Some m" "ipv4_of_string b = Some n"
    and "0 < c_subnet_prefix cfg" "c_subnet_prefix cfg \<le> 32"
  shows "bucket_of cfg a = bucket_of cfg b \<longleftrightarrow>
     m div 2 ^ (32 - nat (c_subnet_prefix cfg)) = n div 2 ^ (32 - nat (c_subnet_prefix cfg))"
proof -
  define k where "k = 32 - nat (c_subnet_prefix cfg)"
  define M where "M = m div 2 ^ k * 2 ^ k"
  define N where "N = n div 2 ^ k * 2 ^ k"
  have lt: "m < 2 ^ 32" "n < 2 ^ 32" using assms(1,2) ipv4_of_string_Some by blast+
  have "M \<le> m" "N \<le> n" by (simp_all add: M_def N_def)
  with lt have MN: "M < 2 ^ 32" "N < 2 ^ 32" by linarith+
  have fmt: "ipv4_to_string M = ipv4_to_string N \<longleftrightarrow> M = N"
    using ipv4_parse_format [OF MN(1)] ipv4_parse_format [OF MN(2)] by (metis option.inject)
  define suf where "suf = ''/'' @ str_int (c_subnet_prefix cfg)"
  have "bucket_of cfg a = ipv4_to_string M @ suf" "bucket_of cfg b = ipv4_to_string N @ suf"
    using assms by (simp_all add: bucket_of_def bucket_of_checked_def Let_def k_def M_def N_def suf_def)
  then have "bucket_of cfg a = bucket_of cfg b \<longleftrightarrow> M = N"
    by (simp add: fmt)
  then show ?thesis by (simp add: M_def N_def k_def)
qed

section \<open>Keys are injective on valid endpoints\<close>

lemma key_of_inject:
  assumes "CHR '':'' \<notin> set a" "CHR '':'' \<notin> set b"
  shows "key_of n a p = key_of m b q \<longleftrightarrow> n = m \<and> a = b \<and> p = q"
proof
  assume eq: "key_of n a p = key_of m b q"
  have colon: "CHR '':'' \<notin> set (str_int i)" for i by (rule str_int_no_char) simp_all
  have last: "x = y \<and> s = t" if "x @ CHR '':'' # s = y @ CHR '':'' # t" "CHR '':'' \<notin> set s" "CHR '':'' \<notin> set t"
    for x y s t :: string
  proof -
    have "rev s @ CHR '':'' # rev x = rev t @ CHR '':'' # rev y"
      using arg_cong [OF that(1), of rev] by simp
    then have "split_on CHR '':'' (rev s @ CHR '':'' # rev x) = split_on CHR '':'' (rev t @ CHR '':'' # rev y)"
      by simp
    then have "rev s = rev t"
      using that(2,3) by (simp add: split_on_append)
    with that(1) show ?thesis by simp
  qed
  have "(n @ CHR '':'' # a) @ CHR '':'' # str_int p = (m @ CHR '':'' # b) @ CHR '':'' # str_int q"
    using eq by (simp add: key_of_def)
  then have "n @ CHR '':'' # a = m @ CHR '':'' # b" "str_int p = str_int q"
    using last colon by blast+
  then show "n = m \<and> a = b \<and> p = q" using last [of n a m b] assms by auto
qed simp

lemma tkey_of_inject:
  assumes "CHR '':'' \<notin> set a" "CHR '':'' \<notin> set b"
  shows "tkey_of a p = tkey_of b q \<longleftrightarrow> a = b \<and> p = q"
  using key_of_inject [OF assms, of "[]" p "[]" q] by (simp add: key_of_def tkey_of_def)

end
