(* ===== verification/PeerStore.thy ===== *)
theory PeerStore
  imports PeerTypes
begin

text \<open>
  The peer side of \<^verbatim>\<open>PeerStore\<close> (\<^verbatim>\<open>transpeer/peerstore.py\<close>): admission with the dead-peer
  cooldown, the per-source and per-network caps and the voucher bookkeeping, verification
  results, pruning and persistence. Each coroutine runs under the store's lock, so it is one
  step from a store to a store; \<open>now\<close> is \<^verbatim>\<open>int(time.time())\<close>.
\<close>

section \<open>Persistence\<close>

definition row_of_peer :: "peer \<Rightarrow> peer_row" where
  "row_of_peer p = \<lparr> r_network = p_network p, r_addr = p_addr p, r_port = p_port p,
     r_last_seen = p_last_seen p, r_sources = p_sources p, r_verified = p_verified p,
     r_nonce = p_nonce p, r_effort = p_effort p, r_solution = p_solution p,
     r_bucket = p_timestamp_bucket p \<rparr>"

definition peer_of_row :: "peer_row \<Rightarrow> peer" where
  "peer_of_row r = (new_peer (r_network r) (r_addr r) (r_port r))
     \<lparr> p_last_seen := r_last_seen r, p_sources := r_sources r, p_verified := r_verified r,
       p_nonce := r_nonce r, p_effort := r_effort r, p_solution := r_solution r,
       p_timestamp_bucket := r_bucket r \<rparr>"

definition row_key :: "peer \<Rightarrow> string \<times> string \<times> int" where
  "row_key p = (p_network p, p_addr p, p_port p)"

definition save_peer :: "peer \<Rightarrow> store \<Rightarrow> store" where
  "save_peer p st = (case s_db st of None \<Rightarrow> st
     | Some db \<Rightarrow> st\<lparr>s_db := Some (db\<lparr>db_peers := replace_row (row_key p) (row_of_peer p) (db_peers db)\<rparr>)\<rparr>)"

definition delete_peer_row :: "string \<times> string \<times> int \<Rightarrow> store \<Rightarrow> store" where
  "delete_peer_row k st = (case s_db st of None \<Rightarrow> st
     | Some db \<Rightarrow> st\<lparr>s_db := Some (db\<lparr>db_peers := ddel k (db_peers db)\<rparr>)\<rparr>)"

definition entry_of_row :: "tp_row \<Rightarrow> tentry" where
  "entry_of_row r = (new_tentry (tr_addr r) (tr_port r))
     \<lparr> t_networks := (if tr_networks r \<noteq> [] then split_on CHR '','' (tr_networks r) else []),
       t_last_seen := tr_last_seen r,
       t_first_seen := (if tr_first_seen r \<noteq> 0 then tr_first_seen r else tr_last_seen r),
       t_published := tr_published r, t_unfaithful := tr_unfaithful r \<rparr>"

text \<open>\<^verbatim>\<open>_load\<close> on a store that starts empty.\<close>

definition load_db :: "store \<Rightarrow> store" where
  "load_db st = (case s_db st of None \<Rightarrow> st
     | Some db \<Rightarrow> st\<lparr>
         s_peers := fold (\<lambda>(k, r). dput (peer_key (peer_of_row r)) (peer_of_row r)) (db_peers db) (s_peers st),
         s_transpeers := fold (\<lambda>(k, r). dput (tentry_key (entry_of_row r)) (entry_of_row r))
           (db_transpeers db) (s_transpeers st)\<rparr>)"

section \<open>Per-source trust\<close>

definition trust_key :: "config \<Rightarrow> string \<Rightarrow> string" where
  "trust_key cfg source_addr = (if c_vouchers cfg then bucket_of cfg source_addr else source_addr)"

text \<open>\<^verbatim>\<open>get_source_trust\<close> creates the record on first use.\<close>

definition get_source_trust :: "config \<Rightarrow> string \<Rightarrow> store \<Rightarrow> trust \<times> store" where
  "get_source_trust cfg source_addr st =
     (let key = trust_key cfg source_addr in
      case dget (s_trust st) key of
        Some t \<Rightarrow> (t, st)
      | None \<Rightarrow> (new_trust, st\<lparr>s_trust := dput key new_trust (s_trust st)\<rparr>))"

definition update_trust :: "config \<Rightarrow> string \<Rightarrow> (trust \<Rightarrow> trust) \<Rightarrow> store \<Rightarrow> store" where
  "update_trust cfg source_addr f st =
     (case get_source_trust cfg source_addr st of (t, st') \<Rightarrow>
        st'\<lparr>s_trust := dput (trust_key cfg source_addr) (f t) (s_trust st')\<rparr>)"

section \<open>Admission\<close>

definition source_is_native :: "config \<Rightarrow> store \<Rightarrow> string \<Rightarrow> string \<Rightarrow> bool" where
  "source_is_native cfg st source_addr network =
     (c_native_vouchers cfg \<and>
      list_ex (\<lambda>t. t_addr t = source_addr \<and> dget (t_native t) network = Some True)
        (dvals (s_transpeers st)))"

definition source_is_published :: "store \<Rightarrow> string \<Rightarrow> bool" where
  "source_is_published st source_addr =
     list_ex (\<lambda>t. t_addr t = source_addr \<and> t_published t) (dvals (s_transpeers st))"

definition on_cooldown :: "int \<Rightarrow> string \<Rightarrow> store \<Rightarrow> bool" where
  "on_cooldown now key st = (case dget (s_dead st) key of
     None \<Rightarrow> False | Some death \<Rightarrow> death \<noteq> 0 \<and> now - death < DEAD_PEER_COOLDOWN)"

definition net_count :: "string \<Rightarrow> store \<Rightarrow> nat" where
  "net_count network st = length (filter (\<lambda>p. p_network p = network) (dvals (s_peers st)))"

text \<open>The update of an entry already stored (\<^verbatim>\<open>existing\<close>) by a new report.\<close>

definition merge_vouchers :: "config \<Rightarrow> store \<Rightarrow> string \<Rightarrow> peer \<Rightarrow> peer \<Rightarrow> peer" where
  "merge_vouchers cfg st source_addr peer ex =
     (let b = bucket_of cfg source_addr;
          ex1 = (if source_addr \<noteq> [] then
            (let e1 = ex\<lparr>p_vouchers := finsert b (p_vouchers ex)\<rparr>;
                 e2 = (if source_is_native cfg st source_addr (p_network peer)
                       then e1\<lparr>p_native_vouchers := finsert b (p_native_vouchers e1)\<rparr> else e1);
                 e3 = (if c_anchor_read cfg then
                         (if source_is_published st source_addr
                          then e2\<lparr>p_published_vouchers := finsert b (p_published_vouchers e2)\<rparr>
                          else e2\<lparr>p_published_vouchers := p_published_vouchers e2 |-| {|b|}\<rparr>)
                       else e2)
             in e3) else ex)
      in ex1\<lparr>p_sources := max 1 (int (fcard (p_vouchers ex1)))\<rparr>)"

definition merge_peer :: "config \<Rightarrow> store \<Rightarrow> string \<Rightarrow> peer \<Rightarrow> peer \<Rightarrow> peer" where
  "merge_peer cfg st source_addr peer ex =
     (let ex1 = (if c_vouchers cfg then merge_vouchers cfg st source_addr peer ex
                 else ex\<lparr>p_sources := max (p_sources ex) (p_sources peer)\<rparr>)
      in if p_last_seen peer > p_last_seen ex1
         then ex1\<lparr>p_last_seen := p_last_seen peer, p_nonce := p_nonce peer,
                  p_effort := p_effort peer, p_solution := p_solution peer,
                  p_timestamp_bucket := p_timestamp_bucket peer\<rparr>
         else ex1)"

definition fresh_peer :: "config \<Rightarrow> store \<Rightarrow> string \<Rightarrow> peer \<Rightarrow> peer" where
  "fresh_peer cfg st source_addr peer =
     (let b = bucket_of cfg source_addr;
          p1 = (if source_addr \<noteq> [] then peer\<lparr>p_source_addr := source_addr\<rparr> else peer)
      in if c_vouchers cfg then
           (let p2 = p1\<lparr>p_vouchers := (if source_addr \<noteq> [] then {|b|} else {|''local''|})\<rparr>;
                p3 = (if source_addr = [] then p2\<lparr>p_native_vouchers := {|''local''|}\<rparr>
                      else if source_is_native cfg st source_addr (p_network peer)
                           then p2\<lparr>p_native_vouchers := {|b|}\<rparr> else p2);
                p4 = (if c_anchor_read cfg \<and> source_addr \<noteq> [] \<and> source_is_published st source_addr
                      then p3\<lparr>p_published_vouchers := {|b|}\<rparr> else p3)
            in p4\<lparr>p_sources := 1\<rparr>)
         else p1)"

definition put_peer :: "peer \<Rightarrow> store \<Rightarrow> store" where
  "put_peer p st = st\<lparr>s_peers := dput (peer_key p) p (s_peers st)\<rparr>"

definition add_peer :: "config \<Rightarrow> int \<Rightarrow> peer \<Rightarrow> string \<Rightarrow> store \<Rightarrow> bool \<times> store" where
  "add_peer cfg now peer source_addr st =
     (let key = peer_key peer in
      if on_cooldown now key st then (False, st)
      else
        (let trust = fst (get_source_trust cfg source_addr st);
             st1 = (if source_addr \<noteq> [] then snd (get_source_trust cfg source_addr st) else st) in
         if source_addr \<noteq> [] \<and> dget (s_peers st1) key = None \<and> tr_accepted trust \<ge> tr_cap trust
         then (False, st1)
         else if dget (s_peers st1) key = None \<and>
                 net_count (p_network peer) st1 \<ge> MAX_PEERS_PER_NETWORK
         then (False, st1)
         else (case dget (s_peers st1) key of
             Some existing \<Rightarrow>
               (let ex = merge_peer cfg st1 source_addr peer existing in
                (False, save_peer ex (st1\<lparr>s_peers := dput key ex (s_peers st1)\<rparr>)))
           | None \<Rightarrow>
               (let p = fresh_peer cfg st1 source_addr peer;
                    st2 = save_peer p (put_peer p st1);
                    st3 = (if source_addr \<noteq> [] then
                             update_trust cfg source_addr (\<lambda>t. t\<lparr>tr_accepted := tr_accepted t + 1\<rparr>) st2
                           else st2)
                in (True, st3)))))"

section \<open>Verification results\<close>

definition mark_verified :: "config \<Rightarrow> int \<Rightarrow> string \<Rightarrow> string \<Rightarrow> int \<Rightarrow> store \<Rightarrow> store" where
  "mark_verified cfg now network addr port st =
     (let key = key_of network addr port in
      case dget (s_peers st) key of
        None \<Rightarrow> st
      | Some peer \<Rightarrow>
          (let p = peer\<lparr>p_verified := True, p_last_seen := now\<rparr>;
               st1 = save_peer p (st\<lparr>s_peers := dput key p (s_peers st)\<rparr>)
           in if p_source_addr p \<noteq> [] then
                update_trust cfg (p_source_addr p) (maybe_expand o record_verification True) st1
              else st1))"

definition mark_dead :: "config \<Rightarrow> int \<Rightarrow> string \<Rightarrow> string \<Rightarrow> int \<Rightarrow> store \<Rightarrow> store" where
  "mark_dead cfg now network addr port st =
     (let key = key_of network addr port in
      case dget (s_peers st) key of
        None \<Rightarrow> st
      | Some peer \<Rightarrow>
          (let st1 = (if p_source_addr peer \<noteq> [] then
                        update_trust cfg (p_source_addr peer) (maybe_contract o record_verification False) st
                      else st)
           in if p_verified peer then
                (let p = peer\<lparr>p_sources := max 0 (p_sources peer - 1), p_verified := False\<rparr>
                 in save_peer p (st1\<lparr>s_peers := dput key p (s_peers st1)\<rparr>))
              else
                delete_peer_row (network, addr, port)
                  (st1\<lparr>s_peers := ddel key (s_peers st1), s_dead := dput key now (s_dead st1)\<rparr>)))"

section \<open>Pruning\<close>

definition peer_stale :: "int \<Rightarrow> peer \<Rightarrow> bool" where
  "peer_stale now p \<longleftrightarrow>
     (now - p_last_seen p > PEER_PRUNE_AGE \<and> p_sources p \<le> 0) \<or>
     (\<not> p_verified p \<and> now - p_last_seen p > DEAD_PEER_MAX_AGE)"

definition stale_peer_keys :: "int \<Rightarrow> store \<Rightarrow> string list" where
  "stale_peer_keys now st = map fst (filter (\<lambda>(k, p). peer_stale now p) (s_peers st))"

definition stale_transpeer_keys :: "int \<Rightarrow> store \<Rightarrow> string list" where
  "stale_transpeer_keys now st =
     map fst (filter (\<lambda>(k, t). now - t_last_seen t > TRANSPEER_PRUNE_AGE) (s_transpeers st))"

definition expired_dead_keys :: "int \<Rightarrow> store \<Rightarrow> string list" where
  "expired_dead_keys now st =
     map fst (filter (\<lambda>(k, ts). now - ts > DEAD_PEER_COOLDOWN) (s_dead st))"

text \<open>
  The database side splits each key on \<^verbatim>\<open>:\<close> and reads the parts by position, which raises
  when a part is missing or is not a number. Rows deleted before the exception stay deleted.
\<close>

definition part :: "nat \<Rightarrow> string list \<Rightarrow> string result" where
  "part i ps = (if i < length ps then Inr (ps ! i) else Inl (IndexError ''list index out of range''))"

fun delete_peer_rows :: "string list \<Rightarrow> store \<Rightarrow> exn option \<times> store" where
  "delete_peer_rows [] st = (None, st)"
| "delete_peer_rows (key # rest) st =
     (let parts = split_on CHR '':'' key in
      case bindR (part 1 parts) (\<lambda>a. bindR (bindR (part 2 parts) int_of_str) (\<lambda>p. Inr (parts ! 0, a, p))) of
        Inl e \<Rightarrow> (Some e, st)
      | Inr k \<Rightarrow> delete_peer_rows rest (delete_peer_row k st))"

definition delete_transpeer_row :: "string \<times> int \<Rightarrow> store \<Rightarrow> store" where
  "delete_transpeer_row k st = (case s_db st of None \<Rightarrow> st
     | Some db \<Rightarrow> st\<lparr>s_db := Some (db\<lparr>db_transpeers := ddel k (db_transpeers db)\<rparr>)\<rparr>)"

fun delete_transpeer_rows :: "string list \<Rightarrow> store \<Rightarrow> exn option \<times> store" where
  "delete_transpeer_rows [] st = (None, st)"
| "delete_transpeer_rows (key # rest) st =
     (let parts = split_on CHR '':'' key in
      case bindR (bindR (part 1 parts) int_of_str) (\<lambda>p. Inr (parts ! 0, p)) of
        Inl e \<Rightarrow> (Some e, st)
      | Inr k \<Rightarrow> delete_transpeer_rows rest (delete_transpeer_row k st))"

definition prune_memory :: "int \<Rightarrow> store \<Rightarrow> store" where
  "prune_memory now st = st\<lparr>
     s_peers := ddel_all (stale_peer_keys now st) (s_peers st),
     s_transpeers := ddel_all (stale_transpeer_keys now st) (s_transpeers st),
     s_dead := ddel_all (expired_dead_keys now st) (s_dead st)\<rparr>"

definition prune_stale :: "int \<Rightarrow> store \<Rightarrow> exn option \<times> store" where
  "prune_stale now st =
     (let st1 = prune_memory now st in
      if s_db st \<noteq> None then
        (case delete_peer_rows (stale_peer_keys now st) st1 of
           (Some e, st2) \<Rightarrow> (Some e, st2)
         | (None, st2) \<Rightarrow> delete_transpeer_rows (stale_transpeer_keys now st) st2)
      else (None, st1))"

section \<open>Queries\<close>

definition peer_count :: "string \<Rightarrow> store \<Rightarrow> nat" where
  "peer_count network st =
     length (filter (\<lambda>p. p_network p = network \<and> p_verified p) (dvals (s_peers st)))"

definition get_all_networks :: "store \<Rightarrow> string list" where
  "get_all_networks st = remdups (map p_network (dvals (s_peers st)))"

end
