(* ===== verification/TranspeerTable.thy ===== *)
theory TranspeerTable
  imports PeerStore
begin

text \<open>
  The transpeer side of \<^verbatim>\<open>PeerStore\<close> (\<^verbatim>\<open>transpeer/peerstore.py\<close>): admission with the
  per-bucket limit and the total cap, eviction, the query batch, the gossip sample, and the
  flags other components set. Random choices take their draws from a list.
\<close>

section \<open>Buckets of the table\<close>

definition group_step :: "('a \<Rightarrow> string) \<Rightarrow> 'a \<Rightarrow> (string, 'a list) dict \<Rightarrow> (string, 'a list) dict" where
  "group_step f t d = dput (f t) (case dget d (f t) of None \<Rightarrow> [t] | Some ms \<Rightarrow> ms @ [t]) d"

text \<open>\<^verbatim>\<open>buckets.setdefault(bucket, []).append(t)\<close> over a list of entries.\<close>

definition group_by :: "('a \<Rightarrow> string) \<Rightarrow> 'a list \<Rightarrow> (string, 'a list) dict" where
  "group_by f ts = fold (group_step f) ts []"

definition transpeers_by_bucket :: "config \<Rightarrow> store \<Rightarrow> (string, tentry list) dict" where
  "transpeers_by_bucket cfg st = group_by (\<lambda>t. bucket_of cfg (t_addr t)) (dvals (s_transpeers st))"

definition count_in_bucket :: "config \<Rightarrow> string \<Rightarrow> store \<Rightarrow> nat" where
  "count_in_bucket cfg b st =
     length (filter (\<lambda>t. bucket_of cfg (t_addr t) = b) (dvals (s_transpeers st)))"

definition transpeer_bucket_count :: "config \<Rightarrow> store \<Rightarrow> nat" where
  "transpeer_bucket_count cfg st =
     length (remdups (map (\<lambda>t. bucket_of cfg (t_addr t)) (dvals (s_transpeers st))))"

section \<open>Admission and eviction\<close>

definition row_of_entry :: "tentry \<Rightarrow> tp_row" where
  "row_of_entry t = \<lparr> tr_addr = t_addr t, tr_port = t_port t,
     tr_networks = join_with CHR '','' (t_networks t), tr_last_seen = t_last_seen t,
     tr_first_seen = t_first_seen t, tr_published = t_published t, tr_unfaithful = t_unfaithful t \<rparr>"

definition save_transpeer :: "tentry \<Rightarrow> store \<Rightarrow> store" where
  "save_transpeer t st = (case s_db st of None \<Rightarrow> st
     | Some db \<Rightarrow> st\<lparr>s_db := Some (db\<lparr>db_transpeers :=
         replace_row (t_addr t, t_port t) (row_of_entry t) (db_transpeers db)\<rparr>)\<rparr>)"

definition is_tried :: "config \<Rightarrow> tentry \<Rightarrow> bool" where
  "is_tried cfg t \<longleftrightarrow> c_tried_table cfg \<and> t_answered t \<ge> TRIED_THRESHOLD"

definition eviction_pool :: "config \<Rightarrow> store \<Rightarrow> (string, tentry) dict" where
  "eviction_pool cfg st =
     (let pool = filter (\<lambda>(k, t). \<not> is_tried cfg t) (s_transpeers st) in
      if pool = [] then s_transpeers st else pool)"

definition fullest_buckets :: "config \<Rightarrow> string \<Rightarrow> (string, tentry list) dict \<Rightarrow> string list" where
  "fullest_buckets cfg incoming_bucket buckets =
     (let max_size = Max (set (map (length o snd) buckets)) in
      map fst (filter (\<lambda>(b, m). length m = max_size \<and> b \<noteq> incoming_bucket) buckets))"

text \<open>
  \<^verbatim>\<open>_pick_eviction\<close>; the pool is never empty where the code calls it (the table is full).
  \<^verbatim>\<open>None\<close> means the newcomer is refused.
\<close>

definition pick_eviction :: "config \<Rightarrow> string \<Rightarrow> rand \<Rightarrow> store \<Rightarrow> string option" where
  "pick_eviction cfg incoming_bucket rs st =
     (let pool = eviction_pool cfg st;
          unfaithful = filter t_unfaithful (dvals pool) in
      if c_anchor_read cfg \<and> unfaithful \<noteq> [] then
        (let elsewhere = filter (\<lambda>t. bucket_of cfg (t_addr t) \<noteq> incoming_bucket) unfaithful;
             pick_from = (if elsewhere \<noteq> [] then elsewhere else unfaithful)
         in map_option tentry_key (min_by t_last_seen pick_from))
      else if \<not> c_bucketed cfg then map_option fst (min_by (\<lambda>(k, t). t_last_seen t) pool)
      else
        (let buckets = group_by (\<lambda>t. bucket_of cfg (t_addr t)) (dvals pool);
             fullest = fullest_buckets cfg incoming_bucket buckets in
         if fullest = [] then None
         else (case dget buckets (fst (choice fullest rs)) of
                 None \<Rightarrow> None
               | Some members \<Rightarrow> map_option tentry_key (min_by t_last_seen members))))"

definition evict :: "string \<Rightarrow> store \<Rightarrow> exn option \<times> store" where
  "evict evict_key st =
     delete_transpeer_rows (if s_db st = None then [] else [evict_key])
       (st\<lparr>s_transpeers := ddel evict_key (s_transpeers st)\<rparr>)"

definition refresh_entry :: "tentry \<Rightarrow> bool \<Rightarrow> tentry \<Rightarrow> tentry" where
  "refresh_entry entry gossiped existing =
     (let e1 = existing\<lparr>t_last_seen := max (t_last_seen existing) (t_last_seen entry)\<rparr>;
          e2 = (if \<not> gossiped then e1\<lparr>t_uptime := t_uptime entry\<rparr> else e1)
      in if t_networks entry \<noteq> [] then e2\<lparr>t_networks := t_networks entry\<rparr> else e2)"

definition store_new_transpeer :: "tentry \<Rightarrow> store \<Rightarrow> store" where
  "store_new_transpeer entry st =
     save_transpeer entry (st\<lparr>s_transpeers := dput (tentry_key entry) entry (s_transpeers st)\<rparr>)"

definition add_transpeer :: "config \<Rightarrow> int \<Rightarrow> tentry \<Rightarrow> bool \<Rightarrow> rand \<Rightarrow> store \<Rightarrow> bool result \<times> store" where
  "add_transpeer cfg now entry gossiped rs st =
     (case dget (s_transpeers st) (tentry_key entry) of
        Some existing \<Rightarrow>
          (let e = refresh_entry entry gossiped existing in
           (Inr False, save_transpeer e (st\<lparr>s_transpeers := dput (tentry_key entry) e (s_transpeers st)\<rparr>)))
      | None \<Rightarrow>
          (let entry1 = entry\<lparr>t_first_seen := (if t_last_seen entry \<noteq> 0 then t_last_seen entry else now)\<rparr>;
               bucket = bucket_of cfg (t_addr entry1) in
           if (gossiped \<or> c_bucketed cfg) \<and> count_in_bucket cfg bucket st \<ge> MAX_TRANSPEERS_PER_SUBNET
           then (Inr False, st)
           else if length (s_transpeers st) \<ge> MAX_TRANSPEERS_TRACKED then
             (case pick_eviction cfg bucket rs st of
                None \<Rightarrow> (Inr False, st)
              | Some k \<Rightarrow> (case evict k st of
                    (Some e, st1) \<Rightarrow> (Inl e, st1)
                  | (None, st1) \<Rightarrow> (Inr True, store_new_transpeer entry1 st1)))
           else (Inr True, store_new_transpeer entry1 st)))"

section \<open>Reads\<close>

definition get_transpeer :: "string \<Rightarrow> int \<Rightarrow> store \<Rightarrow> tentry option" where
  "get_transpeer addr port st = dget (s_transpeers st) (tkey_of addr port)"

definition live_transpeer_count :: "store \<Rightarrow> nat" where
  "live_transpeer_count st = length (filter t_alive (dvals (s_transpeers st)))"

definition native_transpeer_count :: "store \<Rightarrow> nat" where
  "native_transpeer_count st =
     length (filter (\<lambda>t. list_ex (\<lambda>b. b) (dvals (t_native t))) (dvals (s_transpeers st)))"

section \<open>The query batch\<close>

text \<open>
  One pass over the queues takes the head of each until the budget is reached; the queues
  that still hold something go on to the next pass. No queue is ever empty.
\<close>

definition reached :: "nat option \<Rightarrow> 'a list \<Rightarrow> bool" where
  "reached budget picked = (case budget of None \<Rightarrow> False | Some n \<Rightarrow> n \<le> length picked)"

fun rr_round :: "nat option \<Rightarrow> 'a list list \<Rightarrow> 'a list \<Rightarrow> 'a list list \<Rightarrow> 'a list \<times> 'a list list" where
  "rr_round budget [] picked remaining = (picked, remaining)"
| "rr_round budget ([] # qs) picked remaining =
     (if reached budget picked then (picked, remaining) else rr_round budget qs picked remaining)"
| "rr_round budget ((x # q) # qs) picked remaining =
     (if reached budget picked then (picked, remaining)
      else rr_round budget qs (picked @ [x]) (if q \<noteq> [] then remaining @ [q] else remaining))"

definition rr_size :: "'a list list \<Rightarrow> nat" where
  "rr_size qs = sum_list (map (\<lambda>q. Suc (length q)) qs)"

lemma rr_round_size:
  "rr_size (snd (rr_round budget qs picked remaining)) \<le> rr_size remaining + rr_size qs"
  by (induction budget qs picked remaining rule: rr_round.induct) (auto simp: rr_size_def)

lemma rr_round_decreases:
  "qs \<noteq> [] \<Longrightarrow> \<not> reached budget picked \<Longrightarrow> rr_size (snd (rr_round budget qs picked [])) < rr_size qs"
proof (induction budget qs picked "[] :: 'a list list" rule: rr_round.induct)
  case (2 budget qs picked)
  show ?case using rr_round_size [of budget qs picked "[]"] 2(3) by (simp add: rr_size_def)
next
  case (3 budget x q qs picked)
  show ?case
    using rr_round_size [of budget qs "picked @ [x]" "if q \<noteq> [] then [q] else []"] 3(3)
    by (auto simp: rr_size_def)
qed simp

function rr_loop :: "nat option \<Rightarrow> 'a list list \<Rightarrow> 'a list \<Rightarrow> 'a list" where
  "rr_loop budget queues picked =
     (if queues \<noteq> [] \<and> \<not> reached budget picked
      then rr_loop budget (snd (rr_round budget queues picked [])) (fst (rr_round budget queues picked []))
      else picked)"
  by pat_completeness auto
termination
  by (relation "measure (\<lambda>(b, qs, p). rr_size qs)") (auto simp: rr_round_decreases)

declare rr_loop.simps [simp del]

definition get_transpeers_for_query :: "config \<Rightarrow> nat \<Rightarrow> rand \<Rightarrow> store \<Rightarrow> tentry list" where
  "get_transpeers_for_query cfg limit rs st =
     (if \<not> c_bucketed cfg then
        (let ordered = sort_key t_last_queried (dvals (s_transpeers st));
             ordered' = (if c_anchor_read cfg then sort_key t_unfaithful ordered else ordered)
         in take limit ordered')
      else
        (let queues = map (\<lambda>(b, members). sort_key t_last_queried members) (transpeers_by_bucket cfg st);
             shuffled = fst (shuffle queues rs);
             budget = (if c_anchor_read cfg then None else Some limit);
             picked = rr_loop budget shuffled [];
             picked' = (if c_anchor_read cfg then sort_key t_unfaithful picked else picked)
         in take limit picked'))"

section \<open>The gossip sample\<close>

definition recency :: "int \<Rightarrow> tentry \<Rightarrow> nat" where
  "recency now t = nat (max 1 (86400 - (now - t_last_seen t)))"

text \<open>
  \<^verbatim>\<open>random.choices(members, weights, k=1)[0]\<close>: a draw below the total weight, and the first
  member whose cumulative weight exceeds it.
\<close>

fun pick_weighted :: "('a \<Rightarrow> nat) \<Rightarrow> 'a list \<Rightarrow> nat \<Rightarrow> 'a option" where
  "pick_weighted w [] x = None"
| "pick_weighted w [a] x = Some a"
| "pick_weighted w (a # b # as) x = (if x < w a then Some a else pick_weighted w (b # as) (x - w a))"

text \<open>
  The weighted sample without replacement sorts by \<^verbatim>\<open>random() ** (1 / recency)\<close>, one draw per
  candidate, largest first. The float power is not computed: the sort keys are the draws
  themselves, so every order the code can produce is produced by some draws.
\<close>

definition sample_order :: "'a list \<Rightarrow> rand \<Rightarrow> 'a list" where
  "sample_order xs rs =
     map fst (sort_key (\<lambda>(x, r). - int r) (zip xs (rs @ replicate (length xs) 0)))"

fun gossip_draws :: "int \<Rightarrow> (string, tentry list) dict \<Rightarrow> nat \<Rightarrow> nat \<Rightarrow> tentry list \<Rightarrow> rand \<Rightarrow> tentry list" where
  "gossip_draws now buckets limit 0 picked rs = picked"
| "gossip_draws now buckets limit (Suc attempts) picked rs =
     (if limit \<le> length picked then picked
      else
        (let (b, rs1) = choice (dkeys buckets) rs;
             members = the (dget buckets b);
             (x, rs2) = draw (sum_list (map (recency now) members)) rs1 in
         case pick_weighted (recency now) members x of
           None \<Rightarrow> picked
         | Some t \<Rightarrow> gossip_draws now buckets limit attempts
             (if tentry_key t \<in> set (map tentry_key picked) then picked else picked @ [t]) rs2))"

definition get_transpeers_for_gossip :: "config \<Rightarrow> int \<Rightarrow> nat \<Rightarrow> string \<Rightarrow> rand \<Rightarrow> store \<Rightarrow> tentry list" where
  "get_transpeers_for_gossip cfg now limit exclude_addr rs st =
     (let candidates = filter (\<lambda>t. t_addr t \<noteq> exclude_addr) (dvals (s_transpeers st));
          faithful_first = (\<lambda>ts. if c_anchor_read cfg then sort_key t_unfaithful ts else ts) in
      if length candidates \<le> limit then faithful_first candidates
      else if \<not> c_bucketed cfg then faithful_first (take limit (sample_order candidates rs))
      else faithful_first (gossip_draws now
             (group_by (\<lambda>t. bucket_of cfg (t_addr t)) candidates) limit (limit * 4) [] rs))"

section \<open>Marks set by other components\<close>

definition update_entry :: "string \<Rightarrow> int \<Rightarrow> (tentry \<Rightarrow> tentry) \<Rightarrow> store \<Rightarrow> store" where
  "update_entry addr port f st = (case dget (s_transpeers st) (tkey_of addr port) of
     None \<Rightarrow> st
   | Some t \<Rightarrow> st\<lparr>s_transpeers := dput (tkey_of addr port) (f t) (s_transpeers st)\<rparr>)"

definition update_saved_entry :: "string \<Rightarrow> int \<Rightarrow> (tentry \<Rightarrow> tentry) \<Rightarrow> store \<Rightarrow> store" where
  "update_saved_entry addr port f st = (case dget (s_transpeers st) (tkey_of addr port) of
     None \<Rightarrow> st
   | Some t \<Rightarrow> save_transpeer (f t) (update_entry addr port f st))"

definition set_native :: "string \<Rightarrow> int \<Rightarrow> string \<Rightarrow> bool \<Rightarrow> store \<Rightarrow> store" where
  "set_native addr port network ok =
     update_entry addr port (\<lambda>t. t\<lparr>t_native := dput network ok (t_native t)\<rparr>)"

definition mark_queried :: "int \<Rightarrow> string \<Rightarrow> int \<Rightarrow> bool \<Rightarrow> store \<Rightarrow> store" where
  "mark_queried now addr port answered =
     update_entry addr port (\<lambda>t.
       let t1 = t\<lparr>t_last_queried := now, t_alive := answered\<rparr> in
       if answered then t1\<lparr>t_answered := t_answered t1 + 1\<rparr> else t1)"

definition set_published :: "string \<Rightarrow> int \<Rightarrow> bool \<Rightarrow> store \<Rightarrow> store" where
  "set_published addr port flag = update_saved_entry addr port (\<lambda>t. t\<lparr>t_published := flag\<rparr>)"

definition set_unfaithful :: "string \<Rightarrow> int \<Rightarrow> bool \<Rightarrow> store \<Rightarrow> store" where
  "set_unfaithful addr port flag = update_saved_entry addr port (\<lambda>t. t\<lparr>t_unfaithful := flag\<rparr>)"

section \<open>Candidates\<close>

definition add_candidate :: "int \<Rightarrow> string \<Rightarrow> store \<Rightarrow> store" where
  "add_candidate now addr st = st\<lparr>s_candidates := dput addr now (s_candidates st)\<rparr>"

definition pop_candidates :: "nat \<Rightarrow> store \<Rightarrow> string list \<times> store" where
  "pop_candidates max_count st =
     (let addrs = take max_count (dkeys (s_candidates st)) in
      (addrs, st\<lparr>s_candidates := fold ddel addrs (s_candidates st)\<rparr>))"

end
