(* ===== verification/Handoff.thy ===== *)
theory Handoff
  imports TranspeerTable
begin

text \<open>
  What the daemon is handed (\<^verbatim>\<open>transpeer/peerstore.py\<close>): ranking by corroboration, the
  reserve that gives slots to reporter buckets absent from the ranked head, and the snapshot
  that logs the composition of the store.
\<close>

section \<open>Ranking\<close>

text \<open>The sort key, a tuple of numbers compared lexicographically; all keys of one
  configuration have the same length.\<close>

definition rank_key :: "config \<Rightarrow> peer \<Rightarrow> int list" where
  "rank_key cfg p =
     (let base = [int (fcard (p_vouchers p)), of_bool (p_verified p), p_last_seen p];
          key = (if c_native_vouchers cfg then int (fcard (p_native_vouchers p)) # base else base)
      in if c_anchor_read cfg then int (fcard (p_published_vouchers p)) # key else key)"

definition rank_sort :: "config \<Rightarrow> peer list \<Rightarrow> peer list" where
  "rank_sort cfg = sort_key (\<lambda>p. map uminus (rank_key cfg p))"

section \<open>The reserve\<close>

definition vouchers_of :: "peer list \<Rightarrow> string fset" where
  "vouchers_of ps = fold (\<lambda>p acc. acc |\<union>| p_vouchers p) ps {||}"

definition unrepresented :: "peer list \<Rightarrow> peer list \<Rightarrow> string list" where
  "unrepresented head ranked =
     sorted_list_of_fset ((vouchers_of ranked |-| {|''local''|}) |-| vouchers_of head)"

definition candidate_for :: "string \<Rightarrow> string list \<Rightarrow> peer list \<Rightarrow> peer option" where
  "candidate_for b chosen ranked =
     find (\<lambda>p. b |\<in>| p_vouchers p \<and> peer_key p \<notin> set chosen \<and>
               fcard (p_vouchers p) \<ge> RESERVE_MIN_VOUCHERS) ranked"

fun reserve_picks :: "nat \<Rightarrow> peer list \<Rightarrow> string list \<Rightarrow> string fset \<Rightarrow> string list \<Rightarrow> peer list \<Rightarrow> peer list" where
  "reserve_picks reserve ranked [] represented chosen picks = picks"
| "reserve_picks reserve ranked (b # bs) represented chosen picks =
     (if length picks \<ge> reserve then picks
      else if b |\<in>| represented then reserve_picks reserve ranked bs represented chosen picks
      else (case candidate_for b chosen ranked of
              None \<Rightarrow> reserve_picks reserve ranked bs represented chosen picks
            | Some cand \<Rightarrow> reserve_picks reserve ranked bs (represented |\<union>| p_vouchers cand)
                             (chosen @ [peer_key cand]) (picks @ [cand])))"

definition published_buckets :: "config \<Rightarrow> store \<Rightarrow> string list" where
  "published_buckets cfg st =
     map (\<lambda>t. bucket_of cfg (t_addr t)) (filter t_published (dvals (s_transpeers st)))"

definition shuffle_buckets :: "config \<Rightarrow> store \<Rightarrow> string list \<Rightarrow> rand \<Rightarrow> string list \<times> rand" where
  "shuffle_buckets cfg st unrep rs =
     (if c_anchor_read cfg then
        (let pub = filter (\<lambda>b. b \<in> set (published_buckets cfg st)) unrep;
             rest = filter (\<lambda>b. b \<notin> set (published_buckets cfg st)) unrep;
             (pub', rs1) = shuffle pub rs;
             (rest', rs2) = shuffle rest rs1
         in (pub' @ rest', rs2))
      else shuffle unrep rs)"

definition represent :: "config \<Rightarrow> store \<Rightarrow> peer list \<Rightarrow> int \<Rightarrow> int \<Rightarrow> rand \<Rightarrow> (peer list \<times> nat) \<times> rand" where
  "represent cfg st ranked topn reserve rs =
     (let head = take (nat (max 0 (topn - reserve))) ranked;
          unrep = unrepresented head ranked;
          (order, rs1) = shuffle_buckets cfg st unrep rs;
          picks = reserve_picks (nat reserve) ranked order (vouchers_of head) (map peer_key head) [];
          chosen = map peer_key head @ map peer_key picks;
          rest = filter (\<lambda>p. peer_key p \<notin> set chosen) ranked
      in ((head @ picks @ rest, length unrep), rs1))"

definition get_peers :: "config \<Rightarrow> string \<Rightarrow> bool \<Rightarrow> int option \<Rightarrow> rand \<Rightarrow> store \<Rightarrow> peer list \<times> rand" where
  "get_peers cfg network verified_only topn rs st =
     (let peers = filter (\<lambda>p. p_network p = network \<and> (\<not> verified_only \<or> p_verified p)) (dvals (s_peers st)) in
      if c_vouchers cfg then
        (let ranked = rank_sort cfg peers in
         case topn of
           None \<Rightarrow> (ranked, rs)
         | Some n \<Rightarrow> if n \<noteq> 0 \<and> c_handoff_reserve cfg > 0
                     then (let (r, rs1) = represent cfg st ranked n (c_handoff_reserve cfg) rs in (fst r, rs1))
                     else (ranked, rs))
      else (peers, rs))"

definition handoff_unrepresented :: "config \<Rightarrow> string \<Rightarrow> int \<Rightarrow> rand \<Rightarrow> store \<Rightarrow> nat \<times> rand" where
  "handoff_unrepresented cfg network topn rs st =
     (if \<not> (c_vouchers cfg \<and> c_handoff_reserve cfg > 0) then (0, rs)
      else (let ranked = rank_sort cfg (filter (\<lambda>p. p_network p = network) (dvals (s_peers st)));
                (r, rs1) = represent cfg st ranked topn (c_handoff_reserve cfg) rs
            in (snd r, rs1)))"

section \<open>Facts about the reserve pass\<close>

lemma fmember_vouchers_of_aux:
  "b |\<in>| fold (\<lambda>p acc. acc |\<union>| p_vouchers p) ps acc \<longleftrightarrow> b |\<in>| acc \<or> (\<exists>p \<in> set ps. b |\<in>| p_vouchers p)"
  by (induction ps arbitrary: acc) auto

lemma fmember_vouchers_of: "b |\<in>| vouchers_of ps \<longleftrightarrow> (\<exists>p \<in> set ps. b |\<in>| p_vouchers p)"
  by (simp add: vouchers_of_def fmember_vouchers_of_aux)

lemma set_unrepresented:
  "set (unrepresented head ranked) =
     {b. b \<noteq> ''local'' \<and> (\<exists>p \<in> set ranked. b |\<in>| p_vouchers p) \<and> (\<forall>p \<in> set head. b |\<notin>| p_vouchers p)}"
  by (auto simp: unrepresented_def fmember_vouchers_of sorted_list_of_fset.rep_eq)

lemma distinct_unrepresented: "distinct (unrepresented head ranked)"
  by (simp add: unrepresented_def sorted_list_of_fset.rep_eq)

lemma set_shuffle_buckets: "set (fst (shuffle_buckets cfg st unrep rs)) = set unrep"
proof -
  obtain a rs1 where a: "shuffle (filter (\<lambda>b. b \<in> set (published_buckets cfg st)) unrep) rs = (a, rs1)"
    by fastforce
  obtain c rs2 where c: "shuffle (filter (\<lambda>b. b \<notin> set (published_buckets cfg st)) unrep) rs1 = (c, rs2)"
    by fastforce
  have "set a = {b \<in> set unrep. b \<in> set (published_buckets cfg st)}"
    "set c = {b \<in> set unrep. b \<notin> set (published_buckets cfg st)}"
    using set_shuffle [of "filter (\<lambda>b. b \<in> set (published_buckets cfg st)) unrep" rs]
      set_shuffle [of "filter (\<lambda>b. b \<notin> set (published_buckets cfg st)) unrep" rs1]
    by (simp_all add: a c)
  then show ?thesis by (auto simp: shuffle_buckets_def a c Let_def)
qed

text \<open>
  What the picking loop keeps: each pick is a ranked peer with at least two vouchers that was
  not chosen before, there are at most \<^verbatim>\<open>reserve\<close> of them, and each brings a bucket that
  nothing before it represented.
\<close>

lemma candidate_for_Some:
  "candidate_for b chosen ranked = Some p \<Longrightarrow>
     p \<in> set ranked \<and> b |\<in>| p_vouchers p \<and> peer_key p \<notin> set chosen \<and> RESERVE_MIN_VOUCHERS \<le> fcard (p_vouchers p)"
  by (auto simp: candidate_for_def find_Some_iff)

lemma candidate_for_best:
  "candidate_for b chosen ranked = Some p \<Longrightarrow>
     \<exists>pre post. ranked = pre @ p # post \<and>
       (\<forall>q \<in> set pre. \<not> (b |\<in>| p_vouchers q \<and> peer_key q \<notin> set chosen \<and> RESERVE_MIN_VOUCHERS \<le> fcard (p_vouchers q)))"
proof -
  assume "candidate_for b chosen ranked = Some p"
  then obtain i where i: "i < length ranked" "p = ranked ! i"
    and before: "\<forall>j < i. \<not> (b |\<in>| p_vouchers (ranked ! j) \<and> peer_key (ranked ! j) \<notin> set chosen \<and>
        RESERVE_MIN_VOUCHERS \<le> fcard (p_vouchers (ranked ! j)))"
    by (auto simp: candidate_for_def find_Some_iff)
  have "ranked = take i ranked @ p # drop (Suc i) ranked"
    using i by (simp add: id_take_nth_drop [symmetric])
  then show ?thesis using before i(1) by (fastforce simp: in_set_conv_nth)
qed

lemma reserve_picks_extend:
  "\<exists>new. reserve_picks n ranked bs rep chosen picks = picks @ new \<and>
     length (picks @ new) \<le> max n (length picks) \<and>
     set new \<subseteq> set ranked \<and> distinct (map peer_key new) \<and>
     (\<forall>p \<in> set new. peer_key p \<notin> set chosen \<and> RESERVE_MIN_VOUCHERS \<le> fcard (p_vouchers p) \<and>
        (\<exists>b \<in> set bs. b |\<in>| p_vouchers p \<and> b |\<notin>| rep))"
proof (induction n ranked bs rep chosen picks rule: reserve_picks.induct)
  case (2 n ranked b bs rep chosen picks)
  show ?case
  proof (cases "length picks \<ge> n \<or> b |\<in>| rep")
    case True
    show ?thesis
    proof (cases "length picks \<ge> n")
      case full: True
      then show ?thesis by (intro exI [of _ "[]"]) simp
    next
      case False
      with True have b: "b |\<in>| rep" by simp
      from "2.IH"(1) [OF False b] show ?thesis
        using False b by auto
    qed
  next
    case False
    then have f: "\<not> length picks \<ge> n" "b |\<notin>| rep" by auto
    show ?thesis
    proof (cases "candidate_for b chosen ranked")
      case None
      from "2.IH"(2) [OF f None] show ?thesis using f None by auto
    next
      case (Some cand)
      note c = candidate_for_Some [OF Some]
      from "2.IH"(3) [OF f Some] obtain new where new:
        "reserve_picks n ranked bs (rep |\<union>| p_vouchers cand) (chosen @ [peer_key cand]) (picks @ [cand]) =
           (picks @ [cand]) @ new"
        "length ((picks @ [cand]) @ new) \<le> max n (length (picks @ [cand]))"
        "set new \<subseteq> set ranked" "distinct (map peer_key new)"
        "\<forall>p \<in> set new. peer_key p \<notin> set (chosen @ [peer_key cand]) \<and> RESERVE_MIN_VOUCHERS \<le> fcard (p_vouchers p) \<and>
           (\<exists>b \<in> set bs. b |\<in>| p_vouchers p \<and> b |\<notin>| rep |\<union>| p_vouchers cand)"
        by blast
      show ?thesis
      proof (intro exI [of _ "cand # new"] conjI)
        show "reserve_picks n ranked (b # bs) rep chosen picks = picks @ cand # new"
          using new(1) f Some by simp
        show "length (picks @ cand # new) \<le> max n (length picks)"
          using new(2) f by simp
        show "set (cand # new) \<subseteq> set ranked" using new(3) c by simp
        show "distinct (map peer_key (cand # new))" using new(4,5) by auto
        show "\<forall>p \<in> set (cand # new). peer_key p \<notin> set chosen \<and> RESERVE_MIN_VOUCHERS \<le> fcard (p_vouchers p) \<and>
          (\<exists>b' \<in> set (b # bs). b' |\<in>| p_vouchers p \<and> b' |\<notin>| rep)"
          using new(5) c f(2) by auto
      qed
    qed
  qed
qed (auto intro: exI [of _ "[]"])

end
