(* ===== verification/StoreInvariants.thy ===== *)
theory StoreInvariants
  imports Handoff
begin

text \<open>
  Invariants of the peer store over every operation that changes it: dictionaries keyed by
  their records' own keys, the capacity limits, the relation between the voucher sets, and the
  SQLite tables as a mirror of memory. An operation is a value, so a history is a list of
  operations with their clock readings and random draws.
\<close>

section \<open>Frames\<close>

lemma trust_frame [simp]:
  "s_peers (snd (get_source_trust cfg a st)) = s_peers st"
  "s_transpeers (snd (get_source_trust cfg a st)) = s_transpeers st"
  "s_dead (snd (get_source_trust cfg a st)) = s_dead st"
  "s_db (snd (get_source_trust cfg a st)) = s_db st"
  "s_candidates (snd (get_source_trust cfg a st)) = s_candidates st"
  by (auto simp: get_source_trust_def Let_def split: option.splits)

lemma update_trust_frame [simp]:
  "s_peers (update_trust cfg a f st) = s_peers st"
  "s_transpeers (update_trust cfg a f st) = s_transpeers st"
  "s_dead (update_trust cfg a f st) = s_dead st"
  "s_db (update_trust cfg a f st) = s_db st"
  "s_candidates (update_trust cfg a f st) = s_candidates st"
  by (auto simp: update_trust_def get_source_trust_def Let_def split: option.splits)

definition save_peer_db :: "peer \<Rightarrow> database \<Rightarrow> database" where
  "save_peer_db p db = db\<lparr>db_peers := replace_row (row_key p) (row_of_peer p) (db_peers db)\<rparr>"

definition save_entry_db :: "tentry \<Rightarrow> database \<Rightarrow> database" where
  "save_entry_db t db = db\<lparr>db_transpeers := replace_row (t_addr t, t_port t) (row_of_entry t) (db_transpeers db)\<rparr>"

lemma save_peer_frame [simp]:
  "s_peers (save_peer p st) = s_peers st" "s_transpeers (save_peer p st) = s_transpeers st"
  "s_dead (save_peer p st) = s_dead st" "s_trust (save_peer p st) = s_trust st"
  "s_db (save_peer p st) = map_option (save_peer_db p) (s_db st)"
  by (auto simp: save_peer_def save_peer_db_def split: option.splits)

lemma save_transpeer_frame [simp]:
  "s_peers (save_transpeer t st) = s_peers st" "s_transpeers (save_transpeer t st) = s_transpeers st"
  "s_dead (save_transpeer t st) = s_dead st" "s_trust (save_transpeer t st) = s_trust st"
  "s_db (save_transpeer t st) = map_option (save_entry_db t) (s_db st)"
  by (auto simp: save_transpeer_def save_entry_db_def split: option.splits)

lemma delete_row_frame [simp]:
  "s_peers (delete_peer_row k st) = s_peers st" "s_transpeers (delete_peer_row k st) = s_transpeers st"
  "s_dead (delete_peer_row k st) = s_dead st" "s_trust (delete_peer_row k st) = s_trust st"
  "s_db (delete_peer_row k st) = map_option (\<lambda>db. db\<lparr>db_peers := ddel k (db_peers db)\<rparr>) (s_db st)"
  "s_peers (delete_transpeer_row j st) = s_peers st"
  "s_transpeers (delete_transpeer_row j st) = s_transpeers st"
  "s_dead (delete_transpeer_row j st) = s_dead st" "s_trust (delete_transpeer_row j st) = s_trust st"
  "s_db (delete_transpeer_row j st) = map_option (\<lambda>db. db\<lparr>db_transpeers := ddel j (db_transpeers db)\<rparr>) (s_db st)"
  by (auto simp: delete_peer_row_def delete_transpeer_row_def split: option.splits)

lemma delete_rows_frame:
  "s_peers (snd (delete_peer_rows ks st)) = s_peers st"
  "s_transpeers (snd (delete_peer_rows ks st)) = s_transpeers st"
  "s_dead (snd (delete_peer_rows ks st)) = s_dead st"
  "s_peers (snd (delete_transpeer_rows ks st)) = s_peers st"
  "s_transpeers (snd (delete_transpeer_rows ks st)) = s_transpeers st"
  "s_dead (snd (delete_transpeer_rows ks st)) = s_dead st"
  by (induction ks arbitrary: st) (auto simp: Let_def split: sum.splits)

section \<open>Shape of the dictionaries\<close>

definition addr_ok :: "string \<Rightarrow> bool" where
  "addr_ok a \<longleftrightarrow> CHR '':'' \<notin> set a"

definition peers_ok :: "(string, peer) dict \<Rightarrow> bool" where
  "peers_ok d \<longleftrightarrow> dict_ok d \<and> (\<forall>(k, p) \<in> set d. k = peer_key p \<and> addr_ok (p_addr p))"

definition transpeers_ok :: "(string, tentry) dict \<Rightarrow> bool" where
  "transpeers_ok d \<longleftrightarrow> dict_ok d \<and> (\<forall>(k, t) \<in> set d. k = tentry_key t \<and> addr_ok (t_addr t))"

lemma peers_okD: "peers_ok d \<Longrightarrow> dget d k = Some p \<Longrightarrow> k = peer_key p \<and> addr_ok (p_addr p)"
  by (auto simp: peers_ok_def dest: map_of_SomeD)

lemma transpeers_okD: "transpeers_ok d \<Longrightarrow> dget d k = Some t \<Longrightarrow> k = tentry_key t \<and> addr_ok (t_addr t)"
  by (auto simp: transpeers_ok_def dest: map_of_SomeD)

lemma peers_ok_dput:
  "peers_ok d \<Longrightarrow> addr_ok (p_addr p) \<Longrightarrow> k = peer_key p \<Longrightarrow> peers_ok (dput k p d)"
  by (auto simp: peers_ok_def set_dput_ok)

lemma peers_ok_ddel: "peers_ok d \<Longrightarrow> peers_ok (ddel k d)"
  by (auto simp: peers_ok_def set_ddel)

lemma peers_ok_ddel_all: "peers_ok d \<Longrightarrow> peers_ok (ddel_all ks d)"
  by (auto simp: peers_ok_def set_ddel_all)

lemma transpeers_ok_dput:
  "transpeers_ok d \<Longrightarrow> addr_ok (t_addr t) \<Longrightarrow> k = tentry_key t \<Longrightarrow> transpeers_ok (dput k t d)"
  by (auto simp: transpeers_ok_def set_dput_ok)

lemma transpeers_ok_ddel: "transpeers_ok d \<Longrightarrow> transpeers_ok (ddel k d)"
  by (auto simp: transpeers_ok_def set_ddel)

lemma transpeers_ok_ddel_all: "transpeers_ok d \<Longrightarrow> transpeers_ok (ddel_all ks d)"
  by (auto simp: transpeers_ok_def set_ddel_all)

section \<open>The database mirrors memory\<close>

definition mirrors :: "(string, peer) dict \<Rightarrow> (string, tentry) dict \<Rightarrow> database \<Rightarrow> bool" where
  "mirrors ps ts db \<longleftrightarrow>
     dict_ok (db_peers db) \<and> dict_ok (db_transpeers db) \<and>
     (\<forall>n a q. dget (db_peers db) (n, a, q) =
        (if addr_ok a then map_option row_of_peer (dget ps (key_of n a q)) else None)) \<and>
     (\<forall>a q. dget (db_transpeers db) (a, q) =
        (if addr_ok a then map_option row_of_entry (dget ts (tkey_of a q)) else None))"

definition mirrored :: "(string, peer) dict \<Rightarrow> (string, tentry) dict \<Rightarrow> database option \<Rightarrow> bool" where
  "mirrored ps ts dbo \<longleftrightarrow> (case dbo of None \<Rightarrow> True | Some db \<Rightarrow> mirrors ps ts db)"

lemma dget_replace_row [simp]:
  "dget (replace_row k v d) k' = (if k' = k then Some v else dget d k')"
  by (auto simp: replace_row_def map_add_def split: option.splits)

lemma key_of_eq: "addr_ok a \<Longrightarrow> addr_ok b \<Longrightarrow> key_of n a p = key_of m b q \<longleftrightarrow> n = m \<and> a = b \<and> p = q"
  unfolding addr_ok_def by (rule key_of_inject)

lemma tkey_of_eq: "addr_ok a \<Longrightarrow> addr_ok b \<Longrightarrow> tkey_of a p = tkey_of b q \<longleftrightarrow> a = b \<and> p = q"
  unfolding addr_ok_def by (rule tkey_of_inject)

lemma dict_ok_replace_row [simp]: "dict_ok d \<Longrightarrow> dict_ok (replace_row k v d)"
  using dict_ok_ddel [of d k] by (auto simp: replace_row_def dict_ok_def set_ddel)

lemma mirrors_save_peer:
  "mirrors ps ts db \<Longrightarrow> addr_ok (p_addr p) \<Longrightarrow> mirrors (dput (peer_key p) p ps) ts (save_peer_db p db)"
  by (auto simp: mirrors_def save_peer_db_def row_key_def peer_key_def key_of_eq)

lemma mirrors_save_entry:
  "mirrors ps ts db \<Longrightarrow> addr_ok (t_addr t) \<Longrightarrow> mirrors ps (dput (tentry_key t) t ts) (save_entry_db t db)"
  by (auto simp: mirrors_def save_entry_db_def tentry_key_def tkey_of_eq)

lemma mirrors_delete_peer:
  "mirrors ps ts db \<Longrightarrow> addr_ok a \<Longrightarrow>
     mirrors (ddel (key_of n a q) ps) ts (db\<lparr>db_peers := ddel (n, a, q) (db_peers db)\<rparr>)"
  by (auto simp: mirrors_def key_of_eq)

lemma mirrors_delete_entry:
  "mirrors ps ts db \<Longrightarrow> addr_ok a \<Longrightarrow>
     mirrors ps (ddel (tkey_of a q) ts) (db\<lparr>db_transpeers := ddel (a, q) (db_transpeers db)\<rparr>)"
  by (auto simp: mirrors_def tkey_of_eq)

lemma mirrors_unsaved_entry:
  "mirrors ps ts db \<Longrightarrow> dget ts k = Some t \<Longrightarrow> row_of_entry t' = row_of_entry t \<Longrightarrow>
     mirrors ps (dput k t' ts) db"
  by (auto simp: mirrors_def)

section \<open>Deleting rows by splitting keys\<close>

lemma int_of_str_str_int [simp]: "int_of_str (str_int i) = Inr i"
proof (cases "i < 0")
  case True
  let ?s = "str_nat (nat (- i))"
  have d: "list_all is_digit ?s" by (rule str_nat_digits)
  have sp: "\<not> is_space CHR ''-''" by (simp add: is_space_def)
  have st: "strip (CHR ''-'' # ?s) = CHR ''-'' # ?s"
    using dropWhile_digits [of "rev ?s"] d sp str_nat_nonempty [of "nat (- i)"]
    by (cases "rev ?s") (auto simp: strip_def digit_not_space)
  have "digits_us False ?s 0 = Some (nat (- i))"
    using digits_us_digits [OF d, of False 0] digits_val_str_nat [of "nat (- i)"]
    by (simp add: digits_val_def)
  then show ?thesis using True st by (simp add: int_of_str_def py_int_def str_int_def)
next
  case False
  then show ?thesis using int_of_str_str_nat [of "nat i"] by (simp add: str_int_def)
qed

lemma split_key_of:
  "CHR '':'' \<notin> set n \<Longrightarrow> addr_ok a \<Longrightarrow> split_on CHR '':'' (key_of n a q) = [n, a, str_int q]"
  by (simp add: key_of_def addr_ok_def split_on_append split_on_no_char str_int_no_char)

lemma split_tkey_of: "addr_ok a \<Longrightarrow> split_on CHR '':'' (tkey_of a q) = [a, str_int q]"
  by (simp add: tkey_of_def addr_ok_def split_on_append split_on_no_char str_int_no_char)

lemma delete_peer_rows_key:
  "CHR '':'' \<notin> set n \<Longrightarrow> addr_ok a \<Longrightarrow>
     delete_peer_rows (key_of n a q # ks) st = delete_peer_rows ks (delete_peer_row (n, a, q) st)"
  by (simp add: split_key_of part_def)

lemma delete_transpeer_rows_key:
  "addr_ok a \<Longrightarrow> delete_transpeer_rows (tkey_of a q # ks) st = delete_transpeer_rows ks (delete_transpeer_row (a, q) st)"
  by (simp add: split_tkey_of part_def)

section \<open>Groups and eviction\<close>

lemma group_by_lookup:
  "dget (group_by f ts) b = (if filter (\<lambda>t. f t = b) ts = [] then None else Some (filter (\<lambda>t. f t = b) ts))"
proof (induction ts rule: rev_induct)
  case (snoc t ts)
  have "group_by f (ts @ [t]) = group_step f t (group_by f ts)" by (simp add: group_by_def)
  then show ?case using snoc by (auto simp: group_step_def split: option.splits if_splits)
qed (simp add: group_by_def)

lemma group_by_keys_set: "b \<in> set (dkeys (group_by f ts)) \<longleftrightarrow> (\<exists>t \<in> set ts. f t = b)"
proof -
  have "b \<in> set (dkeys (group_by f ts)) \<longleftrightarrow> dget (group_by f ts) b \<noteq> None"
    by (metis list.set_map map_of_eq_None_iff)
  then show ?thesis by (auto simp: group_by_lookup filter_empty_conv)
qed

lemma group_by_dict_ok: "dict_ok (group_by f ts)"
proof (induction ts rule: rev_induct)
  case (snoc t ts)
  then show ?case by (simp add: group_by_def group_step_def)
qed (simp add: group_by_def)

lemma group_by_in: "(b, m) \<in> set (group_by f ts) \<Longrightarrow> m = filter (\<lambda>t. f t = b) ts \<and> m \<noteq> []"
  using dict_ok_dget [OF group_by_dict_ok, of f ts b m] by (auto simp: group_by_lookup split: if_splits)

lemma eviction_pool_subset: "set (eviction_pool cfg st) \<subseteq> set (s_transpeers st)"
  by (auto simp: eviction_pool_def Let_def)

lemma eviction_pool_nonempty: "s_transpeers st \<noteq> [] \<Longrightarrow> eviction_pool cfg st \<noteq> []"
  by (auto simp: eviction_pool_def Let_def)

text \<open>The victim and why it was chosen, on each of the three ways the code picks it.\<close>

lemma fullest_in:
  assumes "b \<in> set (fullest_buckets cfg i (group_by f ts))"
  shows "\<exists>t \<in> set ts. f t = b" "b \<noteq> i"
    "\<And>c. length (filter (\<lambda>t. f t = c) ts) \<le> length (filter (\<lambda>t. f t = b) ts)"
proof -
  let ?g = "group_by f ts"
  obtain m where m: "(b, m) \<in> set ?g" "b \<noteq> i" "length m = Max (set (map (length o snd) ?g))"
    using assms by (auto simp: fullest_buckets_def Let_def)
  note g = group_by_in [OF m(1)]
  from g show "\<exists>t \<in> set ts. f t = b" by (auto simp: filter_empty_conv)
  show "b \<noteq> i" by (rule m(2))
  fix c
  show "length (filter (\<lambda>t. f t = c) ts) \<le> length (filter (\<lambda>t. f t = b) ts)"
  proof (cases "filter (\<lambda>t. f t = c) ts = []")
    case False
    then have "(c, filter (\<lambda>t. f t = c) ts) \<in> set ?g"
      by (intro dict_ok_dget [OF group_by_dict_ok, THEN iffD1])
        (simp add: group_by_lookup del: filter_empty_conv)
    then have "length (filter (\<lambda>t. f t = c) ts) \<le> Max (set (map (length o snd) ?g))"
      by (intro Max_ge) force+
    with m(3) g show ?thesis by simp
  qed simp
qed

lemma pick_eviction_victim:
  assumes "pick_eviction cfg i rs st = Some k" "transpeers_ok (s_transpeers st)"
  shows "\<exists>t. (k, t) \<in> set (eviction_pool cfg st) \<and> k = tentry_key t"
proof -
  have keys: "(k', t) \<in> set (eviction_pool cfg st) \<Longrightarrow> k' = tentry_key t" for k' t
    using eviction_pool_subset [of cfg st] assms(2) by (auto simp: transpeers_ok_def)
  have vals: "t \<in> set (dvals (eviction_pool cfg st)) \<Longrightarrow> (tentry_key t, t) \<in> set (eviction_pool cfg st)" for t
    using keys by fastforce
  let ?u = "filter t_unfaithful (dvals (eviction_pool cfg st))"
  consider (unf) "c_anchor_read cfg" "?u \<noteq> []" | (old) "\<not> (c_anchor_read cfg \<and> ?u \<noteq> [])" "\<not> c_bucketed cfg"
    | (bkt) "\<not> (c_anchor_read cfg \<and> ?u \<noteq> [])" "c_bucketed cfg" by blast
  then show ?thesis
  proof cases
    case unf
    then obtain t where "k = tentry_key t" "t \<in> set ?u"
      using assms(1) by (auto simp: pick_eviction_def Let_def dest!: min_by_in split: if_splits)
    then show ?thesis using vals by fastforce
  next
    case old
    then obtain t where "(k, t) \<in> set (eviction_pool cfg st)"
      using assms(1) by (auto simp: pick_eviction_def Let_def dest!: min_by_in simp del: filter_empty_conv)
    then show ?thesis using keys by blast
  next
    case bkt
    then obtain t where "k = tentry_key t" "t \<in> set (dvals (eviction_pool cfg st))"
      using assms(1)
      by (auto simp: pick_eviction_def Let_def group_by_lookup dest!: min_by_in split: if_splits option.splits)
    then show ?thesis using vals by blast
  qed
qed


section \<open>Operations as values\<close>

datatype store_op =
    AddPeer int peer string
  | MarkVerified int string string int
  | MarkDead int string string int
  | Prune int
  | AddTranspeer int tentry bool rand
  | MarkQueried int string int bool
  | SetNative string int string bool
  | SetPublished string int bool
  | SetUnfaithful string int bool
  | AddCandidate int string
  | PopCandidates nat

primrec apply_op :: "config \<Rightarrow> store_op \<Rightarrow> store \<Rightarrow> store" where
  "apply_op cfg (AddPeer now p src) st = snd (add_peer cfg now p src st)"
| "apply_op cfg (MarkVerified now n a q) st = mark_verified cfg now n a q st"
| "apply_op cfg (MarkDead now n a q) st = mark_dead cfg now n a q st"
| "apply_op cfg (Prune now) st = snd (prune_stale now st)"
| "apply_op cfg (AddTranspeer now t g rs) st = snd (add_transpeer cfg now t g rs st)"
| "apply_op cfg (MarkQueried now a q ok) st = mark_queried now a q ok st"
| "apply_op cfg (SetNative a q n ok) st = set_native a q n ok st"
| "apply_op cfg (SetPublished a q f) st = set_published a q f st"
| "apply_op cfg (SetUnfaithful a q f) st = set_unfaithful a q f st"
| "apply_op cfg (AddCandidate now a) st = add_candidate now a st"
| "apply_op cfg (PopCandidates k) st = snd (pop_candidates k st)"

definition run_ops :: "config \<Rightarrow> store_op list \<Rightarrow> store \<Rightarrow> store" where
  "run_ops cfg ops st = fold (apply_op cfg) ops st"

text \<open>
  What every caller guarantees: an address is a checked IPv4 literal, so it has no colon, and
  a new report carries no vouchers of its own. \<^verbatim>\<open>op_ok\<close> is what the daemon always
  ensures; \<^verbatim>\<open>op_plain\<close> adds that network names have no colon either, which the code
  does not check and the database needs.
\<close>

definition unvouched :: "peer \<Rightarrow> bool" where
  "unvouched p \<longleftrightarrow> p_vouchers p = {||} \<and> p_native_vouchers p = {||} \<and> p_published_vouchers p = {||}"

primrec op_ok :: "store_op \<Rightarrow> bool" where
  "op_ok (AddPeer now p src) = (addr_ok (p_addr p) \<and> unvouched p)"
| "op_ok (MarkVerified now n a q) = addr_ok a"
| "op_ok (MarkDead now n a q) = addr_ok a"
| "op_ok (Prune now) = True"
| "op_ok (AddTranspeer now t g rs) = addr_ok (t_addr t)"
| "op_ok (MarkQueried now a q ok) = addr_ok a"
| "op_ok (SetNative a q n ok) = addr_ok a"
| "op_ok (SetPublished a q f) = addr_ok a"
| "op_ok (SetUnfaithful a q f) = addr_ok a"
| "op_ok (AddCandidate now a) = True"
| "op_ok (PopCandidates k) = True"

definition plain_network :: "string \<Rightarrow> bool" where
  "plain_network n \<longleftrightarrow> CHR '':'' \<notin> set n"

fun op_plain :: "store_op \<Rightarrow> bool" where
  "op_plain (AddPeer now p src) = plain_network (p_network p)"
| "op_plain op = True"

section \<open>The peer dictionary\<close>

definition vouched :: "peer \<Rightarrow> bool" where
  "vouched p \<longleftrightarrow> p_native_vouchers p |\<subseteq>| p_vouchers p \<and> p_published_vouchers p |\<subseteq>| p_vouchers p"

definition net_vals :: "string \<Rightarrow> (string, peer) dict \<Rightarrow> nat" where
  "net_vals n d = length (filter (\<lambda>p. p_network p = n) (dvals d))"

definition peers_inv :: "(string, peer) dict \<Rightarrow> bool" where
  "peers_inv d \<longleftrightarrow> peers_ok d \<and> (\<forall>p \<in> set (dvals d). vouched p) \<and> (\<forall>n. net_vals n d \<le> MAX_PEERS_PER_NETWORK)"

lemma net_count_vals: "net_count n st = net_vals n (s_peers st)"
  by (simp add: net_count_def net_vals_def)

lemma filter_vals_dput_same:
  "dget d k = Some v \<Longrightarrow> P w = P v \<Longrightarrow> length (filter P (dvals (dput k w d))) = length (filter P (dvals d))"
  by (induction d) (auto split: if_splits)

lemma filter_vals_ddel_all: "length (filter P (dvals (ddel_all ks d))) \<le> length (filter P (dvals d))"
  by (induction d) (auto simp: ddel_all_def)

lemma filter_vals_ddel: "length (filter P (dvals (ddel k d))) \<le> length (filter P (dvals d))"
  by (induction d) auto

lemma dvals_dput_ok: "dict_ok d \<Longrightarrow> set (dvals (dput k v d)) \<subseteq> insert v (set (dvals d))"
  by (auto simp: set_dput_ok)

lemma peers_inv_update:
  assumes "peers_inv d" "dget d k = Some p" "p_network p' = p_network p" "p_addr p' = p_addr p"
    "p_port p' = p_port p" "vouched p'"
  shows "peers_inv (dput k p' d)"
proof -
  from assms have d: "peers_ok d" by (simp add: peers_inv_def)
  with assms(2) have k: "k = peer_key p" "addr_ok (p_addr p)" using peers_okD by blast+
  have "peers_ok (dput k p' d)"
    by (rule peers_ok_dput) (use d k assms in \<open>simp_all add: peer_key_def\<close>)
  moreover have "net_vals n (dput k p' d) = net_vals n d" for n
    unfolding net_vals_def by (rule filter_vals_dput_same [OF assms(2)]) (simp add: assms(3))
  moreover have "set (dvals (dput k p' d)) \<subseteq> insert p' (set (dvals d))"
    by (rule dvals_dput_ok) (use d in \<open>simp add: peers_ok_def\<close>)
  ultimately show ?thesis using assms(1,6) unfolding peers_inv_def by (metis insert_iff subsetD)
qed

lemma peers_inv_insert:
  assumes "peers_inv d" "dget d k = None" "k = peer_key p" "addr_ok (p_addr p)" "vouched p"
    "net_vals (p_network p) d < MAX_PEERS_PER_NETWORK"
  shows "peers_inv (dput k p d)"
proof -
  have "dput k p d = d @ [(k, p)]" by (rule dput_new) (rule assms(2))
  moreover have "peers_ok (dput k p d)"
    by (rule peers_ok_dput) (use assms in \<open>simp_all add: peers_inv_def\<close>)
  ultimately show ?thesis using assms by (auto simp: peers_inv_def net_vals_def)
qed

lemma peers_inv_ddel: "peers_inv d \<Longrightarrow> peers_inv (ddel k d)"
  unfolding peers_inv_def net_vals_def
  using peers_ok_ddel [of d k] dvals_ddel_subset [of k d] filter_vals_ddel [of _ k d]
  by (meson order_trans subsetD)

lemma peers_inv_ddel_all: "peers_inv d \<Longrightarrow> peers_inv (ddel_all ks d)"
proof -
  assume d: "peers_inv d"
  have "net_vals n (ddel_all ks d) \<le> MAX_PEERS_PER_NETWORK" for n
    using filter_vals_ddel_all [of "\<lambda>p. p_network p = n" ks d] d
    unfolding peers_inv_def net_vals_def by (meson order_trans)
  moreover have "set (dvals (ddel_all ks d)) \<subseteq> set (dvals d)" by (auto simp: set_ddel_all)
  ultimately show ?thesis using d peers_ok_ddel_all [of d ks] unfolding peers_inv_def by blast
qed

lemma fresh_peer_shape:
  "p_network (fresh_peer cfg st src p) = p_network p"
  "p_addr (fresh_peer cfg st src p) = p_addr p"
  "p_port (fresh_peer cfg st src p) = p_port p"
  "unvouched p \<Longrightarrow> vouched (fresh_peer cfg st src p)"
  by (auto simp: fresh_peer_def Let_def vouched_def unvouched_def)

lemma fresh_peer_key [simp]: "peer_key (fresh_peer cfg st src p) = peer_key p"
  by (simp add: peer_key_def fresh_peer_shape)

lemma merge_peer_shape:
  "p_network (merge_peer cfg st src p ex) = p_network ex"
  "p_addr (merge_peer cfg st src p ex) = p_addr ex"
  "p_port (merge_peer cfg st src p ex) = p_port ex"
  "vouched ex \<Longrightarrow> vouched (merge_peer cfg st src p ex)"
  by (auto simp: merge_peer_def merge_vouchers_def Let_def vouched_def)

lemma peers_inv_vouched: "peers_inv d \<Longrightarrow> dget d k = Some p \<Longrightarrow> vouched p"
  by (force simp: peers_inv_def dest: map_of_SomeD)

text \<open>The peer dictionary and the database after each operation on peers.\<close>

lemma add_peer_cases:
  obtains (refused) "s_peers (snd (add_peer cfg now p src st)) = s_peers st"
      "s_db (snd (add_peer cfg now p src st)) = s_db st"
      "fst (add_peer cfg now p src st) = False"
  | (merged) ex st1 where "dget (s_peers st) (peer_key p) = Some ex"
      "s_peers (snd (add_peer cfg now p src st)) =
         dput (peer_key p) (merge_peer cfg st1 src p ex) (s_peers st)"
      "s_db (snd (add_peer cfg now p src st)) =
         map_option (save_peer_db (merge_peer cfg st1 src p ex)) (s_db st)"
      "fst (add_peer cfg now p src st) = False"
  | (fresh) st1 where "dget (s_peers st) (peer_key p) = None"
      "net_vals (p_network p) (s_peers st) < MAX_PEERS_PER_NETWORK"
      "s_peers (snd (add_peer cfg now p src st)) = dput (peer_key p) (fresh_peer cfg st1 src p) (s_peers st)"
      "s_db (snd (add_peer cfg now p src st)) = map_option (save_peer_db (fresh_peer cfg st1 src p)) (s_db st)"
      "fst (add_peer cfg now p src st) = True"
proof -
  define st1 where "st1 = (if src \<noteq> [] then snd (get_source_trust cfg src st) else st)"
  have st1: "s_peers st1 = s_peers st" "s_db st1 = s_db st" by (auto simp: st1_def)
  have def: "add_peer cfg now p src st =
      (if on_cooldown now (peer_key p) st then (False, st)
       else if src \<noteq> [] \<and> dget (s_peers st) (peer_key p) = None \<and>
               tr_accepted (fst (get_source_trust cfg src st)) \<ge> tr_cap (fst (get_source_trust cfg src st))
            then (False, st1)
       else if dget (s_peers st) (peer_key p) = None \<and> net_count (p_network p) st1 \<ge> MAX_PEERS_PER_NETWORK
            then (False, st1)
       else (case dget (s_peers st) (peer_key p) of
           Some ex \<Rightarrow> (let ex = merge_peer cfg st1 src p ex in
                (False, save_peer ex (st1\<lparr>s_peers := dput (peer_key p) ex (s_peers st)\<rparr>)))
         | None \<Rightarrow> (let q = fresh_peer cfg st1 src p; st2 = save_peer q (put_peer q st1) in
                (True, if src \<noteq> [] then update_trust cfg src (\<lambda>t. t\<lparr>tr_accepted := tr_accepted t + 1\<rparr>) st2 else st2))))"
    unfolding add_peer_def Let_def st1_def [symmetric] st1 ..
  show thesis
  proof (cases "on_cooldown now (peer_key p) st \<or>
      (dget (s_peers st) (peer_key p) = None \<and>
       (src \<noteq> [] \<and> tr_accepted (fst (get_source_trust cfg src st)) \<ge> tr_cap (fst (get_source_trust cfg src st)) \<or>
        net_count (p_network p) st1 \<ge> MAX_PEERS_PER_NETWORK))")
    case True
    then have "snd (add_peer cfg now p src st) = st \<or> snd (add_peer cfg now p src st) = st1"
      "fst (add_peer cfg now p src st) = False"
      unfolding def by auto
    then show thesis using refused st1 by metis
  next
    case False
    show thesis
    proof (cases "dget (s_peers st) (peer_key p)")
      case None
      show thesis
        by (rule fresh [of st1]) (use None False st1 in \<open>auto simp: def Let_def put_peer_def net_count_vals\<close>)
    next
      case (Some ex)
      show thesis
        by (rule merged [of ex st1]) (use Some False st1 in \<open>auto simp: def Let_def\<close>)
    qed
  qed
qed


lemma peers_inv_add_peer:
  assumes "peers_inv (s_peers st)" "addr_ok (p_addr p)" "unvouched p"
  shows "peers_inv (s_peers (snd (add_peer cfg now p src st)))"
proof (cases rule: add_peer_cases [of cfg now p src st])
  case refused
  then show ?thesis using assms by simp
next
  case (merged ex st1)
  then show ?thesis
    using peers_inv_vouched [OF assms(1) merged(1)]
    by (simp add: peers_inv_update [OF assms(1) merged(1)] merge_peer_shape)
next
  case (fresh st1)
  then show ?thesis
    using assms by (simp add: peers_inv_insert fresh_peer_shape)
qed

lemma peers_inv_mark_verified:
  "peers_inv (s_peers st) \<Longrightarrow> peers_inv (s_peers (mark_verified cfg now n a q st))"
  by (auto simp: mark_verified_def Let_def vouched_def dest: peers_inv_vouched
      intro!: peers_inv_update split: option.splits)

lemma peers_inv_mark_dead:
  "peers_inv (s_peers st) \<Longrightarrow> peers_inv (s_peers (mark_dead cfg now n a q st))"
  by (auto simp: mark_dead_def Let_def vouched_def dest: peers_inv_vouched
      intro!: peers_inv_update peers_inv_ddel split: option.splits)

lemma prune_memory_frame:
  "s_peers (prune_memory now st) = ddel_all (stale_peer_keys now st) (s_peers st)"
  "s_transpeers (prune_memory now st) = ddel_all (stale_transpeer_keys now st) (s_transpeers st)"
  "s_dead (prune_memory now st) = ddel_all (expired_dead_keys now st) (s_dead st)"
  "s_db (prune_memory now st) = s_db st"
  by (simp_all add: prune_memory_def)

lemma prune_frame:
  "s_peers (snd (prune_stale now st)) = ddel_all (stale_peer_keys now st) (s_peers st)"
  "s_transpeers (snd (prune_stale now st)) = ddel_all (stale_transpeer_keys now st) (s_transpeers st)"
  "s_dead (snd (prune_stale now st)) = ddel_all (expired_dead_keys now st) (s_dead st)"
proof -
  obtain e st2 where d: "delete_peer_rows (stale_peer_keys now st) (prune_memory now st) = (e, st2)"
    by fastforce
  note f = delete_rows_frame(1,2,3) [of "stale_peer_keys now st" "prune_memory now st", unfolded d, simplified]
  show "s_peers (snd (prune_stale now st)) = ddel_all (stale_peer_keys now st) (s_peers st)"
    "s_transpeers (snd (prune_stale now st)) = ddel_all (stale_transpeer_keys now st) (s_transpeers st)"
    "s_dead (snd (prune_stale now st)) = ddel_all (expired_dead_keys now st) (s_dead st)"
    by (cases "s_db st"; cases e;
        simp add: prune_stale_def Let_def d delete_rows_frame prune_memory_frame f)+
qed

lemma peers_inv_prune: "peers_inv (s_peers st) \<Longrightarrow> peers_inv (s_peers (snd (prune_stale now st)))"
  by (simp add: prune_frame peers_inv_ddel_all)

section \<open>The transpeer table\<close>

definition bucket_vals :: "config \<Rightarrow> string \<Rightarrow> (string, tentry) dict \<Rightarrow> nat" where
  "bucket_vals cfg b d = length (filter (\<lambda>t. bucket_of cfg (t_addr t) = b) (dvals d))"

definition table_inv :: "config \<Rightarrow> (string, tentry) dict \<Rightarrow> bool" where
  "table_inv cfg d \<longleftrightarrow> transpeers_ok d \<and> length d \<le> MAX_TRANSPEERS_TRACKED \<and>
     (c_bucketed cfg \<longrightarrow> (\<forall>b. bucket_vals cfg b d \<le> MAX_TRANSPEERS_PER_SUBNET))"

lemma count_in_bucket_vals: "count_in_bucket cfg b st = bucket_vals cfg b (s_transpeers st)"
  by (simp add: count_in_bucket_def bucket_vals_def)

lemma table_inv_update:
  assumes "table_inv cfg d" "dget d k = Some t" "t_addr t' = t_addr t" "t_port t' = t_port t"
  shows "table_inv cfg (dput k t' d)"
proof -
  from assms have d: "transpeers_ok d" by (simp add: table_inv_def)
  with assms(2) have k: "k = tentry_key t" "addr_ok (t_addr t)" using transpeers_okD by blast+
  have "transpeers_ok (dput k t' d)"
    by (rule transpeers_ok_dput) (use d k assms in \<open>simp_all add: tentry_key_def\<close>)
  moreover have "bucket_vals cfg b (dput k t' d) = bucket_vals cfg b d" for b
    unfolding bucket_vals_def by (rule filter_vals_dput_same [OF assms(2)]) (simp add: assms(3))
  moreover have "length (dput k t' d) = length d" using assms(2) by (simp add: length_dput)
  ultimately show ?thesis using assms(1) by (simp add: table_inv_def)
qed

lemma table_inv_ddel: "table_inv cfg d \<Longrightarrow> table_inv cfg (ddel k d)"
  unfolding table_inv_def bucket_vals_def
  using transpeers_ok_ddel [of d k] filter_vals_ddel [of _ k d] filter_length_ddel_le [of "\<lambda>_. True" k d]
  by (simp; meson order_trans)

lemma table_inv_ddel_all: "table_inv cfg d \<Longrightarrow> table_inv cfg (ddel_all ks d)"
  unfolding table_inv_def bucket_vals_def
  using transpeers_ok_ddel_all [of d ks] filter_vals_ddel_all [of _ ks d] filter_vals_ddel_all [of "\<lambda>_. True" ks d]
  by (simp; meson order_trans)

lemma table_inv_insert:
  assumes "table_inv cfg d" "dget d (tentry_key t) = None" "addr_ok (t_addr t)"
    "length d < MAX_TRANSPEERS_TRACKED"
    "c_bucketed cfg \<Longrightarrow> bucket_vals cfg (bucket_of cfg (t_addr t)) d < MAX_TRANSPEERS_PER_SUBNET"
  shows "table_inv cfg (dput (tentry_key t) t d)"
proof -
  have d: "dput (tentry_key t) t d = d @ [(tentry_key t, t)]" by (rule dput_new) (rule assms(2))
  moreover have "transpeers_ok (dput (tentry_key t) t d)"
    by (rule transpeers_ok_dput) (use assms in \<open>simp_all add: table_inv_def\<close>)
  ultimately show ?thesis using assms by (auto simp: table_inv_def bucket_vals_def)
qed

lemma refresh_entry_shape [simp]:
  "t_addr (refresh_entry e g ex) = t_addr ex" "t_port (refresh_entry e g ex) = t_port ex"
  by (simp_all add: refresh_entry_def Let_def)

lemma evict_key_ok:
  assumes "addr_ok a"
  shows "evict (tkey_of a q) st =
     (None, (if s_db st = None then \<lambda>x. x else delete_transpeer_row (a, q))
              (st\<lparr>s_transpeers := ddel (tkey_of a q) (s_transpeers st)\<rparr>))"
  by (cases "s_db st")
    (simp_all add: evict_def delete_transpeer_rows_key [OF assms] del: delete_transpeer_rows.simps(2))

text \<open>The table and the database after an admission.\<close>

lemma add_transpeer_cases:
  assumes "transpeers_ok (s_transpeers st)"
  obtains (refused) "add_transpeer cfg now e g rs st = (Inr False, st)"
  | (refreshed) ex where "dget (s_transpeers st) (tentry_key e) = Some ex"
      "fst (add_transpeer cfg now e g rs st) = Inr False"
      "s_transpeers (snd (add_transpeer cfg now e g rs st)) =
         dput (tentry_key e) (refresh_entry e g ex) (s_transpeers st)"
      "s_db (snd (add_transpeer cfg now e g rs st)) = map_option (save_entry_db (refresh_entry e g ex)) (s_db st)"
  | (fresh) e1 where "dget (s_transpeers st) (tentry_key e) = None" "t_addr e1 = t_addr e" "t_port e1 = t_port e"
      "length (s_transpeers st) < MAX_TRANSPEERS_TRACKED"
      "c_bucketed cfg \<longrightarrow> bucket_vals cfg (bucket_of cfg (t_addr e)) (s_transpeers st) < MAX_TRANSPEERS_PER_SUBNET"
      "fst (add_transpeer cfg now e g rs st) = Inr True"
      "s_transpeers (snd (add_transpeer cfg now e g rs st)) = dput (tentry_key e) e1 (s_transpeers st)"
      "s_db (snd (add_transpeer cfg now e g rs st)) = map_option (save_entry_db e1) (s_db st)"
  | (evicted) e1 v where "dget (s_transpeers st) (tentry_key e) = None" "t_addr e1 = t_addr e" "t_port e1 = t_port e"
      "MAX_TRANSPEERS_TRACKED \<le> length (s_transpeers st)"
      "c_bucketed cfg \<longrightarrow> bucket_vals cfg (bucket_of cfg (t_addr e)) (s_transpeers st) < MAX_TRANSPEERS_PER_SUBNET"
      "pick_eviction cfg (bucket_of cfg (t_addr e)) rs st = Some (tentry_key v)"
      "(tentry_key v, v) \<in> set (eviction_pool cfg st)"
      "fst (add_transpeer cfg now e g rs st) = Inr True"
      "s_transpeers (snd (add_transpeer cfg now e g rs st)) =
         dput (tentry_key e) e1 (ddel (tentry_key v) (s_transpeers st))"
      "s_db (snd (add_transpeer cfg now e g rs st)) =
         map_option (save_entry_db e1 o (\<lambda>db. db\<lparr>db_transpeers := ddel (t_addr v, t_port v) (db_transpeers db)\<rparr>)) (s_db st)"
proof (cases "dget (s_transpeers st) (tentry_key e)")
  case (Some ex)
  show thesis by (rule refreshed [OF Some]) (simp_all add: add_transpeer_def Some Let_def)
next
  case None
  define e1 where "e1 = e\<lparr>t_first_seen := (if t_last_seen e \<noteq> 0 then t_last_seen e else now)\<rparr>"
  have e1: "t_addr e1 = t_addr e" "t_port e1 = t_port e" "tentry_key e1 = tentry_key e"
    by (simp_all add: e1_def tentry_key_def)
  define b where "b = bucket_of cfg (t_addr e)"
  have def: "add_transpeer cfg now e g rs st =
      (if (g \<or> c_bucketed cfg) \<and> bucket_vals cfg b (s_transpeers st) \<ge> MAX_TRANSPEERS_PER_SUBNET then (Inr False, st)
       else if length (s_transpeers st) \<ge> MAX_TRANSPEERS_TRACKED then
         (case pick_eviction cfg b rs st of None \<Rightarrow> (Inr False, st)
          | Some k \<Rightarrow> (case evict k st of (Some x, st1) \<Rightarrow> (Inl x, st1)
                | (None, st1) \<Rightarrow> (Inr True, store_new_transpeer e1 st1)))
       else (Inr True, store_new_transpeer e1 st))"
    unfolding add_transpeer_def None Let_def e1_def [symmetric] e1 count_in_bucket_vals b_def by simp
  consider (no) "(g \<or> c_bucketed cfg) \<and> bucket_vals cfg b (s_transpeers st) \<ge> MAX_TRANSPEERS_PER_SUBNET"
    | (ins) "\<not> ((g \<or> c_bucketed cfg) \<and> bucket_vals cfg b (s_transpeers st) \<ge> MAX_TRANSPEERS_PER_SUBNET)"
        "length (s_transpeers st) < MAX_TRANSPEERS_TRACKED"
    | (ev) "\<not> ((g \<or> c_bucketed cfg) \<and> bucket_vals cfg b (s_transpeers st) \<ge> MAX_TRANSPEERS_PER_SUBNET)"
        "MAX_TRANSPEERS_TRACKED \<le> length (s_transpeers st)" by linarith
  then show thesis
  proof cases
    case no
    then show thesis by (intro refused) (simp add: def)
  next
    case ins
    show thesis
      by (rule fresh [OF None e1(1,2)]) (use ins in \<open>auto simp: def store_new_transpeer_def e1 b_def\<close>)
  next
    case ev
    show thesis
    proof (cases "pick_eviction cfg b rs st")
      case None
      then show thesis using ev by (intro refused) (simp add: def)
    next
      case (Some k)
      from pick_eviction_victim [OF Some assms] obtain v where
        v: "(k, v) \<in> set (eviction_pool cfg st)" "k = tentry_key v" by blast
      then have "addr_ok (t_addr v)"
        using eviction_pool_subset [of cfg st] assms by (auto simp: transpeers_ok_def)
      note ek = evict_key_ok [OF this, of "t_port v" st]
      show thesis
        by (rule evicted [OF None e1(1,2)])
          (use ev Some v ek in \<open>auto simp: def store_new_transpeer_def e1 b_def tentry_key_def option.map_comp\<close>)
    qed
  qed
qed


lemma table_inv_add_transpeer:
  assumes "table_inv cfg (s_transpeers st)" "addr_ok (t_addr e)"
  shows "table_inv cfg (s_transpeers (snd (add_transpeer cfg now e g rs st)))"
proof -
  have ok: "transpeers_ok (s_transpeers st)" using assms by (simp add: table_inv_def)
  from ok show ?thesis
  proof (cases rule: add_transpeer_cases [where cfg = cfg and now = now and e = e and g = g and rs = rs])
    case refused
    then show ?thesis using assms by simp
  next
    case (refreshed ex)
    then show ?thesis using assms by (simp add: table_inv_update)
  next
    case (fresh e1)
    have k: "tentry_key e1 = tentry_key e" using fresh by (simp add: tentry_key_def)
    have "table_inv cfg (dput (tentry_key e1) e1 (s_transpeers st))"
      by (rule table_inv_insert) (use assms fresh k in simp_all)
    with fresh k show ?thesis by simp
  next
    case (evicted e1 v)
    let ?d = "ddel (tentry_key v) (s_transpeers st)"
    have k: "tentry_key e1 = tentry_key e" using evicted by (simp add: tentry_key_def)
    have "(tentry_key v, v) \<in> set (s_transpeers st)" using evicted eviction_pool_subset by blast
    then have "dget (s_transpeers st) (tentry_key v) \<noteq> None"
      using ok dict_ok_dget [of "s_transpeers st" "tentry_key v" v] by (simp add: transpeers_ok_def)
    then have "Suc (length ?d) = length (s_transpeers st)"
      using ok by (intro length_ddel) (simp_all add: transpeers_ok_def)
    moreover have "bucket_vals cfg b ?d \<le> bucket_vals cfg b (s_transpeers st)" for b
      unfolding bucket_vals_def by (rule filter_vals_ddel)
    moreover have d: "table_inv cfg ?d" by (rule table_inv_ddel) (rule assms(1))
    ultimately have "table_inv cfg (dput (tentry_key e1) e1 ?d)"
      using assms evicted k
      by (intro table_inv_insert) (auto simp: table_inv_def [of cfg "s_transpeers st"] intro: le_less_trans)
    with evicted k show ?thesis by simp
  qed
qed

lemma table_inv_update_entry:
  "table_inv cfg (s_transpeers st) \<Longrightarrow> (\<And>t. t_addr (f t) = t_addr t \<and> t_port (f t) = t_port t) \<Longrightarrow>
     table_inv cfg (s_transpeers (update_entry a q f st))"
  by (auto simp: update_entry_def intro!: table_inv_update split: option.splits)

lemma update_saved_frame:
  "s_transpeers (update_saved_entry a q f st) = s_transpeers (update_entry a q f st)"
  "s_peers (update_saved_entry a q f st) = s_peers st"
  "s_peers (update_entry a q f st) = s_peers st"
  "s_db (update_entry a q f st) = s_db st"
  by (auto simp: update_saved_entry_def update_entry_def split: option.splits)

section \<open>Capacity over every history\<close>

definition store_inv :: "config \<Rightarrow> store \<Rightarrow> bool" where
  "store_inv cfg st \<longleftrightarrow> peers_inv (s_peers st) \<and> table_inv cfg (s_transpeers st)"

lemma peer_side_frame [simp]:
  "s_transpeers (snd (add_peer cfg now p src st)) = s_transpeers st"
  "s_transpeers (mark_verified cfg now n a q st) = s_transpeers st"
  "s_transpeers (mark_dead cfg now n a q st) = s_transpeers st"
  by (auto simp: add_peer_def mark_verified_def mark_dead_def put_peer_def Let_def split: option.splits if_splits)

lemma evict_frame: "s_peers (snd (evict k st)) = s_peers st"
  by (simp add: evict_def delete_rows_frame)

lemma transpeer_side_frame [simp]:
  "s_peers (snd (add_transpeer cfg now e g rs st)) = s_peers st"
  "s_peers (snd (pop_candidates k st)) = s_peers st"
  "s_transpeers (snd (pop_candidates k st)) = s_transpeers st"
  "s_db (snd (pop_candidates k st)) = s_db st"
  using evict_frame [of _ st]
  by (auto simp: add_transpeer_def store_new_transpeer_def pop_candidates_def Let_def
      split: option.splits prod.splits if_splits dest!: arg_cong [of "evict _ _" _ "s_peers \<circ> snd"])

lemma store_inv_step:
  assumes "op_ok x" "store_inv cfg st"
  shows "store_inv cfg (apply_op cfg x st)"
proof -
  have p: "peers_inv (s_peers st)" and t: "table_inv cfg (s_transpeers st)"
    using assms(2) by (simp_all add: store_inv_def)
  show ?thesis
  proof (cases x)
    case (AddPeer now p' src)
    then show ?thesis using assms p t by (simp add: store_inv_def peers_inv_add_peer)
  next
    case (Prune now)
    then show ?thesis using p t by (simp add: store_inv_def prune_frame peers_inv_ddel_all table_inv_ddel_all)
  next
    case (AddTranspeer now e g rs)
    then show ?thesis using assms p t by (simp add: store_inv_def table_inv_add_transpeer)
  qed (use p t in \<open>simp_all add: store_inv_def peers_inv_mark_verified peers_inv_mark_dead mark_queried_def set_native_def
        set_published_def set_unfaithful_def update_saved_frame table_inv_update_entry Let_def
        add_candidate_def\<close>)
qed

interpretation store_caps: history "apply_op cfg" op_ok "store_inv cfg" for cfg
  by unfold_locales (rule store_inv_step)

section \<open>The database mirrors memory over every history\<close>

definition plain_peers :: "(string, peer) dict \<Rightarrow> bool" where
  "plain_peers d \<longleftrightarrow> (\<forall>p \<in> set (dvals d). plain_network (p_network p))"

definition mirror_inv :: "config \<Rightarrow> store \<Rightarrow> bool" where
  "mirror_inv cfg st \<longleftrightarrow> store_inv cfg st \<and> plain_peers (s_peers st) \<and>
     mirrored (s_peers st) (s_transpeers st) (s_db st)"

lemma plain_peersD: "plain_peers d \<Longrightarrow> dget d k = Some p \<Longrightarrow> plain_network (p_network p)"
  by (force simp: plain_peers_def dest: map_of_SomeD)

lemma plain_peers_dput: "dict_ok d \<Longrightarrow> plain_peers d \<Longrightarrow> plain_network (p_network p) \<Longrightarrow> plain_peers (dput k p d)"
  using dvals_dput_ok [of d k p] unfolding plain_peers_def by blast

lemma plain_peers_ddel: "plain_peers d \<Longrightarrow> plain_peers (ddel k d)"
  using dvals_ddel_subset [of k d] unfolding plain_peers_def by blast

lemma plain_peers_ddel_all: "plain_peers d \<Longrightarrow> plain_peers (ddel_all ks d)"
  by (auto simp: plain_peers_def set_ddel_all)

lemma mirrored_save_peer:
  "mirrored ps ts dbo \<Longrightarrow> addr_ok (p_addr p) \<Longrightarrow> k = peer_key p \<Longrightarrow>
     mirrored (dput k p ps) ts (map_option (save_peer_db p) dbo)"
  by (auto simp: mirrored_def mirrors_save_peer split: option.splits)

lemma mirrored_save_entry:
  "mirrored ps ts dbo \<Longrightarrow> addr_ok (t_addr t) \<Longrightarrow> k = tentry_key t \<Longrightarrow>
     mirrored ps (dput k t ts) (map_option (save_entry_db t) dbo)"
  by (auto simp: mirrored_def mirrors_save_entry split: option.splits)

lemma mirrored_delete_peer:
  "mirrored ps ts dbo \<Longrightarrow> addr_ok a \<Longrightarrow> mirrored (ddel (key_of n a q) ps) ts
     (map_option (\<lambda>db. db\<lparr>db_peers := ddel (n, a, q) (db_peers db)\<rparr>) dbo)"
  by (auto simp: mirrored_def mirrors_delete_peer split: option.splits)

lemma mirrored_delete_entry:
  "mirrored ps ts dbo \<Longrightarrow> addr_ok a \<Longrightarrow> mirrored ps (ddel (tkey_of a q) ts)
     (map_option (\<lambda>db. db\<lparr>db_transpeers := ddel (a, q) (db_transpeers db)\<rparr>) dbo)"
  by (auto simp: mirrored_def mirrors_delete_entry split: option.splits)

lemma mirrored_unsaved:
  "mirrored ps ts dbo \<Longrightarrow> dget ts k = Some t \<Longrightarrow> row_of_entry t' = row_of_entry t \<Longrightarrow>
     mirrored ps (dput k t' ts) dbo"
  by (auto simp: mirrored_def mirrors_unsaved_entry split: option.splits)


lemma table_inv_key:
  "table_inv cfg d \<Longrightarrow> dget d k = Some t \<Longrightarrow> k = tentry_key t \<and> addr_ok (t_addr t)"
  by (auto simp: table_inv_def dest: transpeers_okD)

lemma peers_inv_key:
  "peers_inv d \<Longrightarrow> dget d k = Some p \<Longrightarrow> k = peer_key p \<and> addr_ok (p_addr p)"
  by (auto simp: peers_inv_def dest: peers_okD)

lemma peers_inv_dict: "peers_inv d \<Longrightarrow> dict_ok d"
  by (simp add: peers_inv_def peers_ok_def)

text \<open>The mirror after each operation.\<close>

lemma mirror_add_peer:
  assumes "mirror_inv cfg st" "op_ok (AddPeer now p src)" "plain_network (p_network p)"
  shows "mirrored (s_peers (snd (add_peer cfg now p src st))) (s_transpeers st) (s_db (snd (add_peer cfg now p src st)))"
    and "plain_peers (s_peers (snd (add_peer cfg now p src st)))"
proof -
  have inv: "peers_inv (s_peers st)" "plain_peers (s_peers st)" "dict_ok (s_peers st)"
    "mirrored (s_peers st) (s_transpeers st) (s_db st)"
    using assms(1) by (simp_all add: mirror_inv_def store_inv_def peers_inv_dict)
  have "mirrored (s_peers (snd (add_peer cfg now p src st))) (s_transpeers st) (s_db (snd (add_peer cfg now p src st))) \<and>
    plain_peers (s_peers (snd (add_peer cfg now p src st)))"
  proof (cases rule: add_peer_cases [of cfg now p src st])
    case refused
    then show ?thesis using inv by simp
  next
    case (merged ex st1)
    with inv(1) have "peer_key p = peer_key ex" "addr_ok (p_addr ex)" "plain_network (p_network ex)"
      using peers_inv_key plain_peersD [OF inv(2)] by blast+
    then show ?thesis
      using merged inv
      by (simp add: plain_peers_dput merge_peer_shape mirrored_save_peer peer_key_def)
  next
    case (fresh st1)
    then show ?thesis
      using assms inv by (simp add: plain_peers_dput fresh_peer_shape mirrored_save_peer)
  qed
  then show "mirrored (s_peers (snd (add_peer cfg now p src st))) (s_transpeers st) (s_db (snd (add_peer cfg now p src st)))"
    "plain_peers (s_peers (snd (add_peer cfg now p src st)))" by simp_all
qed

lemma mirror_mark_verified:
  assumes "mirror_inv cfg st"
  shows "mirrored (s_peers (mark_verified cfg now n a q st)) (s_transpeers st) (s_db (mark_verified cfg now n a q st))
    \<and> plain_peers (s_peers (mark_verified cfg now n a q st))"
proof (cases "dget (s_peers st) (key_of n a q)")
  case (Some p)
  have inv: "peers_inv (s_peers st)" "plain_peers (s_peers st)" "dict_ok (s_peers st)"
    "mirrored (s_peers st) (s_transpeers st) (s_db st)"
    using assms by (simp_all add: mirror_inv_def store_inv_def peers_inv_dict)
  with Some have "key_of n a q = peer_key p" "addr_ok (p_addr p)" "plain_network (p_network p)"
    using peers_inv_key plain_peersD by blast+
  then show ?thesis
    using Some inv
    by (simp add: mark_verified_def Let_def plain_peers_dput mirrored_save_peer peer_key_def)
qed (use assms in \<open>simp add: mark_verified_def mirror_inv_def\<close>)

lemma mirror_mark_dead:
  assumes "mirror_inv cfg st" "addr_ok a"
  shows "mirrored (s_peers (mark_dead cfg now n a q st)) (s_transpeers st) (s_db (mark_dead cfg now n a q st))
    \<and> plain_peers (s_peers (mark_dead cfg now n a q st))"
proof (cases "dget (s_peers st) (key_of n a q)")
  case (Some p)
  have inv: "peers_inv (s_peers st)" "plain_peers (s_peers st)" "dict_ok (s_peers st)"
    "mirrored (s_peers st) (s_transpeers st) (s_db st)"
    using assms by (simp_all add: mirror_inv_def store_inv_def peers_inv_dict)
  with Some have "key_of n a q = peer_key p" "addr_ok (p_addr p)" "plain_network (p_network p)"
    using peers_inv_key plain_peersD by blast+
  moreover from this have "n = p_network p" "a = p_addr p" "q = p_port p"
    using key_of_eq [OF assms(2)] unfolding peer_key_def by blast+
  ultimately show ?thesis
    using Some inv assms(2)
    by (simp add: mark_dead_def Let_def plain_peers_dput plain_peers_ddel mirrored_save_peer peer_key_def mirrored_delete_peer)
qed (use assms in \<open>simp add: mark_dead_def mirror_inv_def\<close>)

lemma mirror_add_transpeer:
  assumes "mirror_inv cfg st" "addr_ok (t_addr e)"
  shows "mirrored (s_peers st) (s_transpeers (snd (add_transpeer cfg now e g rs st)))
    (s_db (snd (add_transpeer cfg now e g rs st)))"
proof -
  have inv: "table_inv cfg (s_transpeers st)" "mirrored (s_peers st) (s_transpeers st) (s_db st)"
    using assms(1) by (simp_all add: mirror_inv_def store_inv_def)
  then have ok: "transpeers_ok (s_transpeers st)" by (simp add: table_inv_def)
  then show ?thesis
  proof (cases rule: add_transpeer_cases [where cfg = cfg and now = now and e = e and g = g and rs = rs])
    case refused
    then show ?thesis using inv by simp
  next
    case (refreshed ex)
    with inv(1) have "tentry_key e = tentry_key ex" "addr_ok (t_addr ex)" using table_inv_key by blast+
    then show ?thesis using refreshed inv by (simp add: mirrored_save_entry tentry_key_def)
  next
    case (fresh e1)
    then show ?thesis using inv assms by (simp add: mirrored_save_entry tentry_key_def)
  next
    case (evicted e1 v)
    then have "addr_ok (t_addr v)"
      using eviction_pool_subset [of cfg st] ok by (auto simp: transpeers_ok_def)
    with evicted inv assms show ?thesis
      by (simp add: option.map_comp [symmetric] mirrored_save_entry mirrored_delete_entry tentry_key_def)
  qed
qed

lemma mirrored_update_entry:
  "mirrored (s_peers st) (s_transpeers st) (s_db st) \<Longrightarrow> (\<And>t. row_of_entry (f t) = row_of_entry t) \<Longrightarrow>
     mirrored (s_peers st) (s_transpeers (update_entry a q f st)) (s_db st)"
  by (auto simp: update_entry_def mirrored_unsaved split: option.splits)

lemma mirrored_update_saved:
  assumes "mirror_inv cfg st" "\<And>t. t_addr (f t) = t_addr t \<and> t_port (f t) = t_port t"
  shows "mirrored (s_peers st) (s_transpeers (update_saved_entry a q f st)) (s_db (update_saved_entry a q f st))"
proof (cases "dget (s_transpeers st) (tkey_of a q)")
  case (Some t)
  with assms have "tkey_of a q = tentry_key t" "addr_ok (t_addr t)"
    using table_inv_key by (auto simp: mirror_inv_def store_inv_def)
  with Some assms show ?thesis
    by (simp add: update_saved_entry_def update_entry_def mirrored_save_entry tentry_key_def mirror_inv_def)
qed (use assms in \<open>simp add: update_saved_entry_def update_entry_def mirror_inv_def\<close>)


text \<open>Pruning reads each deleted key back into the columns of its row.\<close>

lemma mirrored_cong:
  "mirrored ps ts dbo \<Longrightarrow> (\<And>k. dget ps' k = dget ps k) \<Longrightarrow> (\<And>k. dget ts' k = dget ts k) \<Longrightarrow> mirrored ps' ts' dbo"
  by (auto simp: mirrored_def mirrors_def split: option.splits)

lemma delete_peer_rows_mirror:
  "list_all (\<lambda>k. \<exists>p. k = peer_key p \<and> addr_ok (p_addr p) \<and> plain_network (p_network p)) ks \<Longrightarrow>
     mirrored ps ts (s_db st) \<Longrightarrow>
     fst (delete_peer_rows ks st) = None \<and> mirrored (fold ddel ks ps) ts (s_db (snd (delete_peer_rows ks st)))"
proof (induction ks arbitrary: ps st)
  case (Cons k ks)
  then have "\<exists>p. k = peer_key p \<and> addr_ok (p_addr p) \<and> plain_network (p_network p)" by simp
  then obtain p where "k = peer_key p" "addr_ok (p_addr p)" "plain_network (p_network p)" by blast
  then have p: "k = key_of (p_network p) (p_addr p) (p_port p)" "addr_ok (p_addr p)" "CHR '':'' \<notin> set (p_network p)"
    by (simp_all add: peer_key_def plain_network_def)
  have "mirrored (ddel k ps) ts (s_db (delete_peer_row (p_network p, p_addr p, p_port p) st))"
    using mirrored_delete_peer [OF Cons.prems(2) p(2)] p(1) by simp
  from Cons.IH [OF _ this] Cons.prems(1) show ?case
    by (simp add: p(1) delete_peer_rows_key [OF p(3,2)] del: delete_peer_rows.simps(2))
qed simp

lemma delete_transpeer_rows_mirror:
  "list_all (\<lambda>k. \<exists>t. k = tentry_key t \<and> addr_ok (t_addr t)) ks \<Longrightarrow>
     mirrored ps ts (s_db st) \<Longrightarrow>
     fst (delete_transpeer_rows ks st) = None \<and> mirrored ps (fold ddel ks ts) (s_db (snd (delete_transpeer_rows ks st)))"
proof (induction ks arbitrary: ts st)
  case (Cons k ks)
  then have "\<exists>t. k = tentry_key t \<and> addr_ok (t_addr t)" by simp
  then obtain t where "k = tentry_key t" "addr_ok (t_addr t)" by blast
  then have t: "k = tkey_of (t_addr t) (t_port t)" "addr_ok (t_addr t)"
    by (simp_all add: tentry_key_def)
  have "mirrored ps (ddel k ts) (s_db (delete_transpeer_row (t_addr t, t_port t) st))"
    using mirrored_delete_entry [OF Cons.prems(2) t(2)] t(1) by simp
  from Cons.IH [OF _ this] Cons.prems(1) show ?case
    by (simp add: t(1) delete_transpeer_rows_key [OF t(2)] del: delete_transpeer_rows.simps(2))
qed simp

lemma mirror_prune:
  assumes "mirror_inv cfg st"
  shows "fst (prune_stale now st) = None"
    and "mirrored (s_peers (snd (prune_stale now st))) (s_transpeers (snd (prune_stale now st))) (s_db (snd (prune_stale now st)))"
proof -
  let ?pk = "stale_peer_keys now st" and ?tk = "stale_transpeer_keys now st"
  have inv: "peers_ok (s_peers st)" "plain_peers (s_peers st)" "transpeers_ok (s_transpeers st)"
    "mirrored (s_peers st) (s_transpeers st) (s_db st)"
    using assms by (simp_all add: mirror_inv_def store_inv_def peers_inv_def table_inv_def)
  have pk: "list_all (\<lambda>k. \<exists>p. k = peer_key p \<and> addr_ok (p_addr p) \<and> plain_network (p_network p)) ?pk"
    using inv(1,2) by (fastforce simp: list_all_iff stale_peer_keys_def peers_ok_def plain_peers_def)
  have tk: "list_all (\<lambda>k. \<exists>t. k = tentry_key t \<and> addr_ok (t_addr t)) ?tk"
    using inv(3) by (fastforce simp: list_all_iff stale_transpeer_keys_def transpeers_ok_def)
  define st2 where "st2 = snd (delete_peer_rows ?pk (prune_memory now st))"
  have 2: "delete_peer_rows ?pk (prune_memory now st) = (None, st2)"
    "mirrored (fold ddel ?pk (s_peers st)) (s_transpeers st) (s_db st2)"
    using delete_peer_rows_mirror [OF pk, of "s_peers st" "s_transpeers st" "prune_memory now st"] inv(4)
    by (simp_all add: st2_def prune_memory_frame prod_eq_iff)
  note 3 = delete_transpeer_rows_mirror [OF tk 2(2)]
  have eq: "dget (ddel_all ?pk (s_peers st)) k = dget (fold ddel ?pk (s_peers st)) k"
    "dget (ddel_all ?tk (s_transpeers st)) k = dget (fold ddel ?tk (s_transpeers st)) k" for k
    by (simp_all add: dget_ddel_all dict.lookup_fold_remove)
  show "fst (prune_stale now st) = None"
    using 3 by (simp add: prune_stale_def Let_def 2(1))
  show "mirrored (s_peers (snd (prune_stale now st))) (s_transpeers (snd (prune_stale now st))) (s_db (snd (prune_stale now st)))"
  proof (cases "s_db st")
    case None
    then have "s_db (snd (prune_stale now st)) = None"
      by (simp add: prune_stale_def Let_def prune_memory_frame)
    then show ?thesis by (simp add: mirrored_def)
  next
    case (Some db)
    then have "s_db (snd (prune_stale now st)) = s_db (snd (delete_transpeer_rows ?tk st2))"
      by (simp add: prune_stale_def Let_def 2(1))
    with 3 show ?thesis unfolding prune_frame by (intro mirrored_cong [OF _ eq]) simp
  qed
qed

lemma mirror_inv_step:
  assumes "op_ok x \<and> op_plain x" "mirror_inv cfg st"
  shows "mirror_inv cfg (apply_op cfg x st)"
proof -
  have s: "store_inv cfg (apply_op cfg x st)"
    using assms by (simp add: store_inv_step mirror_inv_def)
  have m: "plain_peers (s_peers st)" "mirrored (s_peers st) (s_transpeers st) (s_db st)"
    using assms(2) by (simp_all add: mirror_inv_def)
  have "plain_peers (s_peers (apply_op cfg x st)) \<and>
    mirrored (s_peers (apply_op cfg x st)) (s_transpeers (apply_op cfg x st)) (s_db (apply_op cfg x st))"
  proof (cases x)
    case (AddPeer now p src)
    then show ?thesis using assms by (simp add: mirror_add_peer [OF assms(2)])
  next
    case (Prune now)
    then show ?thesis using mirror_prune(2) [OF assms(2)] m
      by (simp add: prune_frame plain_peers_ddel_all)
  qed (use assms m in \<open>simp_all add: mirror_mark_verified mirror_mark_dead mirror_add_transpeer mark_queried_def
      set_native_def set_published_def set_unfaithful_def update_saved_frame(2,3,4) mirrored_update_saved
      mirrored_update_entry add_candidate_def row_of_entry_def Let_def\<close>)
  with s show ?thesis by (simp add: mirror_inv_def)
qed

interpretation store_mirror: history "apply_op cfg" "\<lambda>x. op_ok x \<and> op_plain x" "mirror_inv cfg" for cfg
  by unfold_locales (rule mirror_inv_step)


section \<open>A history never closes the database\<close>

definition has_db :: "store \<Rightarrow> bool" where
  "has_db st \<longleftrightarrow> s_db st \<noteq> None"

lemma delete_rows_db:
  "s_db (snd (delete_peer_rows ks st)) = None \<longleftrightarrow> s_db st = None"
  "s_db (snd (delete_transpeer_rows ks st)) = None \<longleftrightarrow> s_db st = None"
  by (induction ks arbitrary: st) (auto simp: Let_def split: sum.splits)

lemma prune_db: "s_db (snd (prune_stale now st)) = None \<longleftrightarrow> s_db st = None"
proof -
  obtain e st2 where d: "delete_peer_rows (stale_peer_keys now st) (prune_memory now st) = (e, st2)"
    by fastforce
  then have "s_db st2 = None \<longleftrightarrow> s_db st = None"
    using delete_rows_db(1) [of "stale_peer_keys now st" "prune_memory now st"] by (simp add: prune_memory_frame)
  then show ?thesis
    by (cases "s_db st"; cases e; simp add: prune_stale_def Let_def d delete_rows_db prune_memory_frame)
qed

lemma evict_db: "s_db (snd (evict k st)) = None \<longleftrightarrow> s_db st = None"
  by (simp add: evict_def delete_rows_db)

lemma add_transpeer_db: "s_db (snd (add_transpeer cfg now e g rs st)) = None \<longleftrightarrow> s_db st = None"
proof -
  have "s_db (snd (case evict k st of (Some x, st1) \<Rightarrow> (Inl x, st1)
      | (None, st1) \<Rightarrow> (Inr True, store_new_transpeer e1 st1))) = None \<longleftrightarrow> s_db st = None" for k e1
  proof -
    obtain x st1 where ev: "evict k st = (x, st1)" by fastforce
    then have "s_db st1 = None \<longleftrightarrow> s_db st = None" using evict_db [of k st] by simp
    then show ?thesis by (cases x) (simp_all add: ev store_new_transpeer_def)
  qed
  then show ?thesis
    by (simp add: add_transpeer_def Let_def store_new_transpeer_def split: option.split)
qed

lemma has_db_step: "has_db st \<Longrightarrow> has_db (apply_op cfg x st)"
proof (cases x)
  case (AddPeer now p src)
  then show "has_db st \<Longrightarrow> ?thesis"
    by (cases rule: add_peer_cases [of cfg now p src st]) (simp_all add: has_db_def)
qed (auto simp: has_db_def mark_verified_def mark_dead_def prune_db add_transpeer_db mark_queried_def
      set_native_def set_published_def set_unfaithful_def update_saved_entry_def update_saved_frame(4)
      add_candidate_def Let_def split: option.splits)

interpretation store_open: history "apply_op cfg" "\<lambda>_. True" has_db for cfg
  by unfold_locales (rule has_db_step)

section \<open>Restart\<close>

text \<open>A process that stops and starts again on the same file: empty memory, then \<^verbatim>\<open>_load\<close>.\<close>

definition restart :: "store \<Rightarrow> store" where
  "restart st = load_db \<lparr> s_peers = [], s_transpeers = [], s_candidates = [], s_dead = [], s_trust = [],
     s_db = s_db st \<rparr>"

lemma map_of_functional: "(\<And>k v. (k, v) \<in> set xs \<longleftrightarrow> f k = Some v) \<Longrightarrow> map_of xs k = f k"
proof -
  assume a: "\<And>k v. (k, v) \<in> set xs \<longleftrightarrow> f k = Some v"
  show ?thesis
  proof (cases "map_of xs k")
    case None
    then have "\<And>v. (k, v) \<notin> set xs" by (metis image_eqI fst_conv map_of_eq_None_iff)
    with a None show ?thesis by (cases "f k") auto
  next
    case (Some v)
    with a show ?thesis using map_of_SomeD by metis
  qed
qed

lemma fold_put_lookup:
  assumes "\<And>k v. (\<exists>j r. (j, r) \<in> set xs \<and> k = f r \<and> v = g r) \<longleftrightarrow> F k = Some v"
  shows "dget (fold (\<lambda>(j, r). dput (f r) (g r)) xs []) k = F k"
proof -
  have "fold (\<lambda>(j, r). dput (f r) (g r)) xs [] = fold (\<lambda>(k, v). dput k v) (map (\<lambda>(j, r). (f r, g r)) xs) []"
    by (simp add: fold_map comp_def case_prod_unfold)
  moreover have "map_of (rev (map (\<lambda>(j, r). (f r, g r)) xs)) k = F k"
  proof (rule map_of_functional)
    fix k v
    show "(k, v) \<in> set (rev (map (\<lambda>(j, r). (f r, g r)) xs)) \<longleftrightarrow> F k = Some v"
      using assms [of k v] by force
  qed
  ultimately show ?thesis by (cases "F k") (simp_all add: dict.lookup_fold_put)
qed

lemma peer_of_row_key [simp]: "peer_key (peer_of_row (row_of_peer p)) = peer_key p"
  by (simp add: peer_key_def peer_of_row_def row_of_peer_def new_peer_def)

lemma entry_of_row_key [simp]: "tentry_key (entry_of_row (row_of_entry t)) = tentry_key t"
  by (simp add: tentry_key_def entry_of_row_def row_of_entry_def new_tentry_def)

lemma restart_lookup:
  assumes "mirror_inv cfg st" "s_db st = Some db"
  shows "dget (s_peers (restart st)) k = map_option (peer_of_row \<circ> row_of_peer) (dget (s_peers st) k)"
    and "dget (s_transpeers (restart st)) k = map_option (entry_of_row \<circ> row_of_entry) (dget (s_transpeers st) k)"
proof -
  have po: "peers_ok (s_peers st)" and tok: "transpeers_ok (s_transpeers st)"
    and m: "mirrors (s_peers st) (s_transpeers st) db"
    using assms by (simp_all add: mirror_inv_def store_inv_def peers_inv_def table_inv_def mirrored_def)
  have dk: "dict_ok (db_peers db)" "dict_ok (db_transpeers db)"
    and mp: "\<And>n a q. dget (db_peers db) (n, a, q) =
        (if addr_ok a then map_option row_of_peer (dget (s_peers st) (key_of n a q)) else None)"
    and mt: "\<And>a q. dget (db_transpeers db) (a, q) =
        (if addr_ok a then map_option row_of_entry (dget (s_transpeers st) (tkey_of a q)) else None)"
    using m by (simp_all add: mirrors_def)
  have P: "(\<exists>j r. (j, r) \<in> set (db_peers db) \<and> k = peer_key (peer_of_row r) \<and> v = peer_of_row r) \<longleftrightarrow>
      map_option (peer_of_row \<circ> row_of_peer) (dget (s_peers st) k) = Some v" for k v
  proof
    assume "\<exists>j r. (j, r) \<in> set (db_peers db) \<and> k = peer_key (peer_of_row r) \<and> v = peer_of_row r"
    then obtain n a q r where "dget (db_peers db) (n, a, q) = Some r" and kv: "k = peer_key (peer_of_row r)" "v = peer_of_row r"
      using dict_ok_dget [OF dk(1)] by (metis prod_cases3)
    with mp obtain p where "dget (s_peers st) (key_of n a q) = Some p" "r = row_of_peer p"
      by (auto split: if_splits)
    then show "map_option (peer_of_row \<circ> row_of_peer) (dget (s_peers st) k) = Some v"
      using kv peers_okD [OF po] by auto
  next
    assume "map_option (peer_of_row \<circ> row_of_peer) (dget (s_peers st) k) = Some v"
    then obtain p where p: "dget (s_peers st) k = Some p" "v = peer_of_row (row_of_peer p)" by auto
    with peers_okD [OF po p(1)] have "dget (db_peers db) (p_network p, p_addr p, p_port p) = Some (row_of_peer p)"
      by (simp add: mp peer_key_def)
    then show "\<exists>j r. (j, r) \<in> set (db_peers db) \<and> k = peer_key (peer_of_row r) \<and> v = peer_of_row r"
      using p peers_okD [OF po p(1)]
      by (intro exI [of _ "(p_network p, p_addr p, p_port p)"] exI [of _ "row_of_peer p"]) (auto dest!: map_of_SomeD)
  qed
  have T: "(\<exists>j r. (j, r) \<in> set (db_transpeers db) \<and> k = tentry_key (entry_of_row r) \<and> v = entry_of_row r) \<longleftrightarrow>
      map_option (entry_of_row \<circ> row_of_entry) (dget (s_transpeers st) k) = Some v" for k v
  proof
    assume "\<exists>j r. (j, r) \<in> set (db_transpeers db) \<and> k = tentry_key (entry_of_row r) \<and> v = entry_of_row r"
    then obtain a q r where "dget (db_transpeers db) (a, q) = Some r" and kv: "k = tentry_key (entry_of_row r)" "v = entry_of_row r"
      using dict_ok_dget [OF dk(2)] by (metis surj_pair)
    with mt obtain t where "dget (s_transpeers st) (tkey_of a q) = Some t" "r = row_of_entry t"
      by (auto split: if_splits)
    then show "map_option (entry_of_row \<circ> row_of_entry) (dget (s_transpeers st) k) = Some v"
      using kv transpeers_okD [OF tok] by auto
  next
    assume "map_option (entry_of_row \<circ> row_of_entry) (dget (s_transpeers st) k) = Some v"
    then obtain t where t: "dget (s_transpeers st) k = Some t" "v = entry_of_row (row_of_entry t)" by auto
    with transpeers_okD [OF tok t(1)] have "dget (db_transpeers db) (t_addr t, t_port t) = Some (row_of_entry t)"
      by (simp add: mt tentry_key_def)
    then show "\<exists>j r. (j, r) \<in> set (db_transpeers db) \<and> k = tentry_key (entry_of_row r) \<and> v = entry_of_row r"
      using t transpeers_okD [OF tok t(1)]
      by (intro exI [of _ "(t_addr t, t_port t)"] exI [of _ "row_of_entry t"]) (auto dest!: map_of_SomeD)
  qed
  show "dget (s_peers (restart st)) k = map_option (peer_of_row \<circ> row_of_peer) (dget (s_peers st) k)"
    using fold_put_lookup [of "db_peers db" "peer_key \<circ> peer_of_row" peer_of_row
        "\<lambda>k. map_option (peer_of_row \<circ> row_of_peer) (dget (s_peers st) k)" k] P
    by (simp add: restart_def load_db_def assms(2))
  show "dget (s_transpeers (restart st)) k = map_option (entry_of_row \<circ> row_of_entry) (dget (s_transpeers st) k)"
    using fold_put_lookup [of "db_transpeers db" "tentry_key \<circ> entry_of_row" entry_of_row
        "\<lambda>k. map_option (entry_of_row \<circ> row_of_entry) (dget (s_transpeers st) k)" k] T
    by (simp add: restart_def load_db_def assms(2))
qed

text \<open>The comma-joined network column is read back when no name has a comma or is empty.\<close>

lemma split_join: "ps \<noteq> [] \<Longrightarrow> list_all (\<lambda>p. c \<notin> set p) ps \<Longrightarrow> split_on c (join_with c ps) = ps"
  by (induction c ps rule: join_with.induct) (auto simp: split_on_no_char split_on_append)

lemma join_with_empty: "join_with c ps = [] \<longleftrightarrow> ps = [] \<or> ps = [[]]"
  by (cases "(c, ps)" rule: join_with.cases) auto

lemma networks_column:
  "list_all (\<lambda>n. CHR '','' \<notin> set n \<and> n \<noteq> []) (t_networks t) \<Longrightarrow>
     t_networks (entry_of_row (row_of_entry t)) = t_networks t"
  by (auto simp: entry_of_row_def row_of_entry_def join_with_empty split_join list_all_iff)

lemma store_inv_empty: "store_inv cfg (empty_store cfg)"
  by (simp add: store_inv_def empty_store_def peers_inv_def peers_ok_def net_vals_def table_inv_def
      transpeers_ok_def bucket_vals_def)

lemma mirror_inv_empty: "mirror_inv cfg (empty_store cfg)"
  using store_inv_empty [of cfg]
  by (auto simp: mirror_inv_def empty_store_def plain_peers_def mirrored_def mirrors_def)

lemmas store_history = store_caps.inv_run [OF _ store_inv_empty]
lemmas mirror_history = store_mirror.inv_run [OF _ mirror_inv_empty]

end
