(* ===== verification/StoreTheorems.thy ===== *)
theory StoreTheorems
  imports StoreInvariants
begin

text \<open>
  What the peer store guarantees: capacity and bucket limits over every history, recovery
  after a restart, the exact admission rule, the choice of an eviction victim, and the
  thresholds of the per-source trust.
\<close>

section \<open>Histories and restart\<close>

text \<open>C1. After every history of store operations on checked addresses, whatever the clock and the
  random draws, each dictionary is keyed by its records' own keys, a network holds at most
  \<^verbatim>\<open>MAX_PEERS_PER_NETWORK\<close> peers, the table at most \<^verbatim>\<open>MAX_TRANSPEERS_TRACKED\<close> transpeers and,
  in bucketed mode, at most \<^verbatim>\<open>MAX_TRANSPEERS_PER_SUBNET\<close> per bucket, and the native and published
  vouchers of a peer are among its vouchers.\<close>

theorem store_capacity:
  assumes "list_all op_ok ops"
  shows "let st = run_ops cfg ops (empty_store cfg) in
     (\<forall>(k, p) \<in> set (s_peers st). k = peer_key p) \<and> distinct (map fst (s_peers st)) \<and>
     (\<forall>(k, t) \<in> set (s_transpeers st). k = tentry_key t) \<and> distinct (map fst (s_transpeers st)) \<and>
     (\<forall>n. net_count n st \<le> 2000) \<and> length (s_transpeers st) \<le> 500 \<and>
     (c_bucketed cfg \<longrightarrow> (\<forall>b. count_in_bucket cfg b st \<le> 3)) \<and>
     (\<forall>p \<in> set (map snd (s_peers st)).
        p_native_vouchers p |\<subseteq>| p_vouchers p \<and> p_published_vouchers p |\<subseteq>| p_vouchers p)"
proof -
  have "store_inv cfg (run_ops cfg ops (empty_store cfg))"
    unfolding run_ops_def by (rule store_history [OF assms])
  then show ?thesis
    by (fastforce simp: Let_def store_inv_def peers_inv_def peers_ok_def table_inv_def transpeers_ok_def
        dict_ok_def vouched_def net_count_vals count_in_bucket_vals MAX_PEERS_PER_NETWORK_def
        MAX_TRANSPEERS_TRACKED_def MAX_TRANSPEERS_PER_SUBNET_def)
qed

lemma store_capacity_witness:
  "length (s_transpeers (run_ops default_config
     [AddTranspeer 9 (new_tentry ''1.1.1.1'' 7337) True [], Prune 90000000,
      AddPeer 9 (new_peer ''net'' ''1.2.3.4'' 18080) ''1.1.1.1''] (empty_store default_config))) \<le> 500"
proof -
  have "list_all op_ok [AddTranspeer 9 (new_tentry ''1.1.1.1'' 7337) True [], Prune 90000000,
      AddPeer 9 (new_peer ''net'' ''1.2.3.4'' 18080) ''1.1.1.1'']"
    by (simp add: addr_ok_def unvouched_def new_peer_def new_tentry_def)
  from store_capacity [OF this, of default_config] show ?thesis unfolding Let_def by blast
qed

text \<open>C4. When a store with a database stops after such a history (network names without a colon) and
  starts again on the same file, every peer and every transpeer comes back under its key with
  its persisted fields, and nothing else comes back.\<close>

theorem restart_recovers:
  assumes "list_all (\<lambda>x. op_ok x \<and> op_plain x) ops" "\<not> c_in_memory cfg"
  shows "let st = run_ops cfg ops (empty_store cfg) in
     dget (s_peers (restart st)) k = map_option (peer_of_row \<circ> row_of_peer) (dget (s_peers st) k) \<and>
     dget (s_transpeers (restart st)) k = map_option (entry_of_row \<circ> row_of_entry) (dget (s_transpeers st) k)"
proof -
  define st where "st = run_ops cfg ops (empty_store cfg)"
  have inv: "mirror_inv cfg st"
    unfolding st_def run_ops_def by (rule mirror_history [OF assms(1)])
  have "has_db st"
    unfolding st_def run_ops_def
    by (rule store_open.inv_run) (simp_all add: list_all_iff has_db_def empty_store_def assms(2))
  then obtain db where "s_db st = Some db" by (auto simp: has_db_def)
  then show ?thesis using restart_lookup [OF inv] by (simp add: Let_def st_def)
qed

lemma restart_recovers_witness:
  "let st = run_ops (default_config\<lparr>c_in_memory := False\<rparr>)
      [AddPeer 9 (new_peer ''net'' ''1.2.3.4'' 18080) ''1.1.1.1'', MarkVerified 10 ''net'' ''1.2.3.4'' 18080]
      (empty_store (default_config\<lparr>c_in_memory := False\<rparr>)) in
   dget (s_peers (restart st)) ''net:1.2.3.4:18080'' =
     map_option (peer_of_row \<circ> row_of_peer) (dget (s_peers st) ''net:1.2.3.4:18080'')"
  using restart_recovers [of "[AddPeer 9 (new_peer ''net'' ''1.2.3.4'' 18080) ''1.1.1.1'',
      MarkVerified 10 ''net'' ''1.2.3.4'' 18080]" "default_config\<lparr>c_in_memory := False\<rparr>" "''net:1.2.3.4:18080''"]
  by (simp add: addr_ok_def unvouched_def new_peer_def Let_def plain_network_def)



section \<open>Admission\<close>

text \<open>C6. \<^verbatim>\<open>add_peer\<close> reports an addition exactly when the peer is unknown, its endpoint is not on
  the dead-peer cooldown, its source (if any) is below its cap and its network is below the
  per-network limit; and only then does the number of stored peers change, by one.\<close>

theorem add_peer_admits_iff:
  "(fst (add_peer cfg now p src st) \<longleftrightarrow>
     \<not> on_cooldown now (peer_key p) st \<and> dget (s_peers st) (peer_key p) = None \<and>
     (src \<noteq> [] \<longrightarrow> tr_accepted (fst (get_source_trust cfg src st)) < tr_cap (fst (get_source_trust cfg src st))) \<and>
     net_count (p_network p) st < 2000) \<and>
   length (s_peers (snd (add_peer cfg now p src st))) =
     length (s_peers st) + (if fst (add_peer cfg now p src st) then 1 else 0)"
proof
  show "fst (add_peer cfg now p src st) \<longleftrightarrow>
     \<not> on_cooldown now (peer_key p) st \<and> dget (s_peers st) (peer_key p) = None \<and>
     (src \<noteq> [] \<longrightarrow> tr_accepted (fst (get_source_trust cfg src st)) < tr_cap (fst (get_source_trust cfg src st))) \<and>
     net_count (p_network p) st < 2000"
    by (auto simp: add_peer_def Let_def MAX_PEERS_PER_NETWORK_def net_count_def split: option.splits if_splits)
  show "length (s_peers (snd (add_peer cfg now p src st))) =
     length (s_peers st) + (if fst (add_peer cfg now p src st) then 1 else 0)"
    by (cases rule: add_peer_cases [of cfg now p src st]) (simp_all add: length_dput)
qed

lemma add_peer_admits_iff_witness:
  "fst (add_peer default_config 9 (new_peer ''net'' ''1.2.3.4'' 80) ''8.8.8.8'' (empty_store default_config))"
  by (subst add_peer_admits_iff [THEN conjunct1])
    (simp add: on_cooldown_def empty_store_def get_source_trust_def new_trust_def BASE_PEERS_PER_SOURCE_def net_count_def)

section \<open>Eviction\<close>

lemma pool_tried:
  assumes "(k, v) \<in> set (eviction_pool cfg st)" "is_tried cfg v" "(j, w) \<in> set (s_transpeers st)"
  shows "is_tried cfg w"
  using assms by (auto simp: eviction_pool_def Let_def filter_empty_conv split: if_splits)

lemma pick_eviction_diverse:
  assumes "pick_eviction cfg i rs st = Some (tentry_key v)" "(tentry_key v, v) \<in> set (eviction_pool cfg st)"
    "transpeers_ok (s_transpeers st)" "c_bucketed cfg" "\<not> (c_anchor_read cfg \<and> t_unfaithful v)"
  shows "bucket_of cfg (t_addr v) \<noteq> i \<and>
     (\<forall>c. bucket_vals cfg c (eviction_pool cfg st) \<le> bucket_vals cfg (bucket_of cfg (t_addr v)) (eviction_pool cfg st)) \<and>
     (\<forall>w \<in> set (dvals (eviction_pool cfg st)). bucket_of cfg (t_addr w) = bucket_of cfg (t_addr v) \<longrightarrow>
        t_last_seen v \<le> t_last_seen w)"
proof -
  let ?pool = "eviction_pool cfg st" and ?f = "\<lambda>t. bucket_of cfg (t_addr t)"
  let ?g = "group_by ?f (dvals ?pool)"
  have inj: "w = v" if "w \<in> set (dvals ?pool)" "tentry_key w = tentry_key v" for w
  proof -
    have sub: "set ?pool \<subseteq> set (s_transpeers st)" by (rule eviction_pool_subset)
    have d: "dict_ok (s_transpeers st)" using assms(3) by (simp add: transpeers_ok_def)
    from that sub obtain k where "(k, w) \<in> set (s_transpeers st)" by auto
    then have "(tentry_key v, w) \<in> set (s_transpeers st)"
      using assms(3) that(2) by (auto simp: transpeers_ok_def)
    with assms(2) sub show ?thesis using dict_ok_dget [OF d] by (metis option.inject subsetD)
  qed
  have unf: "w = v \<Longrightarrow> \<not> (c_anchor_read cfg \<and> t_unfaithful w)" for w using assms(5) by simp
  have no: "\<not> (c_anchor_read cfg \<and> filter t_unfaithful (dvals ?pool) \<noteq> [])"
  proof
    assume u: "c_anchor_read cfg \<and> filter t_unfaithful (dvals ?pool) \<noteq> []"
    then obtain t where "tentry_key t = tentry_key v" "t \<in> set (filter t_unfaithful (dvals ?pool))"
      using assms(1) by (auto simp: pick_eviction_def Let_def dest!: min_by_in split: if_splits)
    then show False using inj [of t] unf [of t] u by auto
  qed
  define b where "b = fst (choice (fullest_buckets cfg i ?g) rs)"
  have ne: "fullest_buckets cfg i ?g \<noteq> []"
    using assms(1,4) no by (auto simp: pick_eviction_def Let_def split: if_splits)
  then have b: "b \<in> set (fullest_buckets cfg i ?g)" unfolding b_def by (rule choice_in)
  have "map_option tentry_key (min_by t_last_seen (filter (\<lambda>t. ?f t = b) (dvals ?pool))) = Some (tentry_key v)"
    using assms(1,4) no ne fullest_in(1) [OF b]
    by (auto simp: pick_eviction_def Let_def b_def [symmetric] group_by_lookup filter_empty_conv split: if_splits)
  then obtain t where t: "min_by t_last_seen (filter (\<lambda>t. ?f t = b) (dvals ?pool)) = Some t" "tentry_key t = tentry_key v"
    by auto
  from min_by_in [OF t(1)] have "t \<in> set (dvals ?pool)" "?f t = b" by auto
  with inj [OF _ t(2)] have tv: "t = v" "?f v = b" by auto
  show ?thesis
    using fullest_in(2,3) [OF b] min_by_least [OF t(1)] tv
    by (auto simp: bucket_vals_def)
qed

text \<open>C7. Admission to a full transpeer table either changes nothing or exchanges exactly one
  stored entry for the newcomer. The victim is a tried entry only if every entry is tried; and
  in bucketed mode, unless it was picked for being unfaithful, it is not in the newcomer's
  bucket, its bucket is a fullest one of the eviction pool and it is the entry of that bucket seen
  longest ago.\<close>

theorem full_table_exchange:
  assumes "store_inv cfg st" "dget (s_transpeers st) (tentry_key e) = None" "length (s_transpeers st) = 500"
  shows "add_transpeer cfg now e g rs st = (Inr False, st) \<or>
    (\<exists>v e1. fst (add_transpeer cfg now e g rs st) = Inr True \<and> t_addr e1 = t_addr e \<and>
       s_transpeers (snd (add_transpeer cfg now e g rs st)) =
         ddel (tentry_key v) (s_transpeers st) @ [(tentry_key e, e1)] \<and>
       (tentry_key v, v) \<in> set (s_transpeers st) \<and>
       (is_tried cfg v \<longrightarrow> (\<forall>(j, w) \<in> set (s_transpeers st). is_tried cfg w)) \<and>
       (c_bucketed cfg \<and> \<not> (c_anchor_read cfg \<and> t_unfaithful v) \<longrightarrow>
          bucket_of cfg (t_addr v) \<noteq> bucket_of cfg (t_addr e) \<and>
          (\<forall>c. bucket_vals cfg c (eviction_pool cfg st) \<le>
               bucket_vals cfg (bucket_of cfg (t_addr v)) (eviction_pool cfg st)) \<and>
          (\<forall>(j, w) \<in> set (eviction_pool cfg st). bucket_of cfg (t_addr w) = bucket_of cfg (t_addr v) \<longrightarrow>
             t_last_seen v \<le> t_last_seen w)))"
proof -
  have ok: "transpeers_ok (s_transpeers st)" using assms(1) by (simp add: store_inv_def table_inv_def)
  then show ?thesis
  proof (cases rule: add_transpeer_cases [where cfg = cfg and now = now and e = e and g = g and rs = rs])
    case (evicted e1 v)
    have "(tentry_key v, v) \<in> set (s_transpeers st)" using evicted(7) eviction_pool_subset by blast
    moreover have "is_tried cfg v \<longrightarrow> (\<forall>(j, w) \<in> set (s_transpeers st). is_tried cfg w)"
      using pool_tried [OF evicted(7)] by blast
    moreover have "s_transpeers (snd (add_transpeer cfg now e g rs st)) =
         ddel (tentry_key v) (s_transpeers st) @ [(tentry_key e, e1)]"
      using evicted(1,9) by (simp add: dput_new)
    ultimately show ?thesis
      using evicted(2,8) pick_eviction_diverse [OF evicted(6,7) ok]
      by (intro disjI2 exI [of _ v] exI [of _ e1]) (fastforce)
  qed (use assms in \<open>simp_all add: MAX_TRANSPEERS_TRACKED_def\<close>)
qed


text \<open>A full table of entries in distinct buckets, at which the exchange applies.\<close>

definition sample_table :: "(string, tentry) dict" where
  "sample_table = map (\<lambda>i. (tkey_of (str_nat i) 7337, new_tentry (str_nat i) 7337)) [0..<500]"

lemma bucket_of_number: "bucket_of cfg (str_nat i) = str_nat i"
proof -
  have "split_on CHR ''.'' (str_nat i) = [str_nat i]"
    by (rule split_on_no_char) (simp add: str_nat_no_char)
  then have "ipv4_of_string (str_nat i) = None" by (simp add: ipv4_of_string_def split: option.split)
  then show ?thesis by (simp add: bucket_of_def bucket_of_checked_def)
qed

lemma sample_table_inv: "table_inv cfg sample_table"
proof -
  have ok: "addr_ok (str_nat i)" for i by (simp add: addr_ok_def str_nat_no_char)
  then have "distinct (map fst sample_table)"
    by (simp add: sample_table_def comp_def distinct_map inj_on_def tkey_of_eq)
  then have "transpeers_ok sample_table"
    by (auto simp: transpeers_ok_def dict_ok_def sample_table_def tentry_key_def new_tentry_def ok)
  moreover have "bucket_vals cfg b sample_table \<le> 1" for b
  proof -
    have "bucket_vals cfg b sample_table = length (filter (\<lambda>i. str_nat i = b) [0..<500])"
      by (simp add: bucket_vals_def sample_table_def filter_map comp_def new_tentry_def bucket_of_number)
    also have "\<dots> = card {i. i < 500 \<and> str_nat i = b}"
      by (subst distinct_card [symmetric]) (auto intro!: arg_cong [of _ _ card])
    also have "\<dots> \<le> 1" by (rule card_le_Suc0_iff_eq [THEN iffD2, folded One_nat_def]) auto
    finally show ?thesis .
  qed
  then have "bucket_vals cfg b sample_table \<le> 3" for b by (rule order_trans) simp
  moreover have "length sample_table = 500" by (simp add: sample_table_def)
  ultimately show ?thesis
    by (simp add: table_inv_def MAX_TRANSPEERS_TRACKED_def MAX_TRANSPEERS_PER_SUBNET_def)
qed

lemma full_table_exchange_witness:
  "let cfg = default_config\<lparr>c_bucketed := True\<rparr>;
       st = (empty_store cfg)\<lparr>s_transpeers := sample_table\<rparr>;
       e = new_tentry ''one'' 7337 in
   add_transpeer cfg 0 e True [] st = (Inr False, st) \<or>
   (\<exists>v \<in> set (dvals sample_table). fst (add_transpeer cfg 0 e True [] st) = Inr True \<and>
      bucket_of cfg (t_addr v) \<noteq> bucket_of cfg (t_addr e))"
proof -
  define cfg where "cfg = default_config\<lparr>c_bucketed := True\<rparr>"
  define st where "st = (empty_store cfg)\<lparr>s_transpeers := sample_table\<rparr>"
  define e where "e = new_tentry ''one'' 7337"
  have "''one'' \<noteq> str_nat i" for i
  proof
    assume "''one'' = str_nat i"
    then have "CHR ''o'' \<in> set (str_nat i)" by (metis list.set_intros(1))
    then show False using str_nat_no_char [of "CHR ''o''" i] by (simp add: is_digit_def)
  qed
  then have "dget sample_table (tentry_key e) = None"
    by (auto simp: map_of_eq_None_iff sample_table_def e_def tentry_key_def new_tentry_def
        tkey_of_eq [unfolded addr_ok_def] str_nat_no_char)
  then have h: "dget (s_transpeers st) (tentry_key e) = None" "length (s_transpeers st) = 500" "store_inv cfg st"
    using sample_table_inv store_inv_empty [of cfg] by (simp_all add: st_def store_inv_def sample_table_def)
  have c: "c_bucketed cfg" "\<not> c_anchor_read cfg" by (simp_all add: cfg_def default_config_def)
  show ?thesis
    using full_table_exchange [OF h(3,1,2), of 0 True "[]"] c
    unfolding Let_def cfg_def [symmetric] st_def [symmetric] e_def [symmetric]
    by (fastforce simp: st_def)
qed

section \<open>Trust\<close>

text \<open>A verification result moves a source's cap exactly at the documented threshold: with at
  least ten results of which at least four fifths (decided in binary64) were alive the cap grows
  by one base step, with fewer it falls back to the base, and both reset the counters; below ten
  results nothing but a counter changes.\<close>

theorem trust_thresholds:
  assumes "0 \<le> tr_alive t" "0 \<le> tr_dead t" "tr_alive t + tr_dead t < 2 ^ 49"
  shows "maybe_expand (record_verification True t) =
     (let a = tr_alive t + 1; n = a + tr_dead t in
      if n \<ge> 10 \<and> 5 * a \<ge> 4 * n then t\<lparr>tr_cap := tr_cap t + 50, tr_alive := 0, tr_dead := 0\<rparr>
      else t\<lparr>tr_alive := a\<rparr>) \<and>
   maybe_contract (record_verification False t) =
     (let d = tr_dead t + 1; n = tr_alive t + d in
      if n \<ge> 10 \<and> 5 * tr_alive t < 4 * n then t\<lparr>tr_cap := 50, tr_alive := 0, tr_dead := 0\<rparr>
      else t\<lparr>tr_dead := d\<rparr>)"
proof -
  have "fdiv a n \<ge> fl (4 / 5) \<longleftrightarrow> 5 * a \<ge> 4 * n" if "0 \<le> a" "0 < n" "n < 2 ^ 50" for a n
    using fdiv_ge_four_fifths that by auto
  then show ?thesis
    using assms
    by (auto simp: maybe_expand_def maybe_contract_def record_verification_def total_verified_def alive_rate_def
        VERIFY_THRESHOLD_def BASE_PEERS_PER_SOURCE_def Let_def not_le [symmetric])
qed

lemma trust_thresholds_witness:
  "maybe_expand (record_verification True \<lparr> tr_cap = 50, tr_accepted = 20, tr_alive = 7, tr_dead = 2 \<rparr>) =
     \<lparr> tr_cap = 100, tr_accepted = 20, tr_alive = 0, tr_dead = 0 \<rparr>"
  using trust_thresholds [of "\<lparr> tr_cap = 50, tr_accepted = 20, tr_alive = 7, tr_dead = 2 \<rparr>"] by simp

end
