(* ===== verification/HandoffTheorems.thy ===== *)
theory HandoffTheorems
  imports StoreInvariants
begin

text \<open>
  What a daemon is promised about its list: the reserve pass only reorders, keeps the ranked
  head, and an attacker's share of the reserve is bounded by the prefixes it controls; the
  query batch visits buckets in turn; gossip answers are short and free of repeats.
\<close>

section \<open>The reserve pass\<close>

lemma length_shuffle_buckets: "length (fst (shuffle_buckets cfg st unrep rs)) = length unrep"
proof -
  obtain a rs1 where a: "shuffle (filter (\<lambda>b. b \<in> set (published_buckets cfg st)) unrep) rs = (a, rs1)"
    by fastforce
  obtain c rs2 where c: "shuffle (filter (\<lambda>b. b \<notin> set (published_buckets cfg st)) unrep) rs1 = (c, rs2)"
    by fastforce
  have "length a = length (filter (\<lambda>b. b \<in> set (published_buckets cfg st)) unrep)"
    "length c = length (filter (\<lambda>b. b \<notin> set (published_buckets cfg st)) unrep)"
    using length_shuffle [of "filter (\<lambda>b. b \<in> set (published_buckets cfg st)) unrep" rs]
      length_shuffle [of "filter (\<lambda>b. b \<notin> set (published_buckets cfg st)) unrep" rs1]
    by (simp_all add: a c del: length_shuffle)
  then show ?thesis
    using sum_length_filter_compl [of "\<lambda>b. b \<in> set (published_buckets cfg st)" unrep]
    by (simp add: shuffle_buckets_def a c Let_def)
qed

lemma reserve_picks_new_buckets:
  "\<exists>new bl. reserve_picks n ranked bs rep chosen picks = picks @ new \<and>
     list_all2 (\<lambda>p b. b |\<in>| p_vouchers p \<and> b |\<notin>| rep \<and> b \<in> set bs) new bl \<and> distinct bl \<and>
     (\<forall>p \<in> set new. p \<in> set ranked \<and> RESERVE_MIN_VOUCHERS \<le> fcard (p_vouchers p))"
proof (induction n ranked bs rep chosen picks rule: reserve_picks.induct)
  case (2 n ranked b bs rep chosen picks)
  consider (full) "n \<le> length picks" | (rep) "\<not> n \<le> length picks" "b |\<in>| rep"
    | (none) "\<not> n \<le> length picks" "b |\<notin>| rep" "candidate_for b chosen ranked = None"
    | (pick) c where "\<not> n \<le> length picks" "b |\<notin>| rep" "candidate_for b chosen ranked = Some c"
    by fastforce
  then show ?case
  proof cases
    case full
    then show ?thesis by (intro exI [of _ "[]"]) simp
  next
    case rep
    with "2.IH"(1) [OF rep] show ?thesis by (fastforce elim!: list_all2_mono)
  next
    case none
    with "2.IH"(2) [OF none] show ?thesis by (fastforce elim!: list_all2_mono)
  next
    case pick
    note c = candidate_for_Some [OF pick(3)]
    from "2.IH"(3) [OF pick] obtain new bl where new:
      "reserve_picks n ranked bs (rep |\<union>| p_vouchers c) (chosen @ [peer_key c]) (picks @ [c]) = (picks @ [c]) @ new"
      "list_all2 (\<lambda>p b. b |\<in>| p_vouchers p \<and> b |\<notin>| rep |\<union>| p_vouchers c \<and> b \<in> set bs) new bl" "distinct bl"
      "\<forall>p \<in> set new. p \<in> set ranked \<and> RESERVE_MIN_VOUCHERS \<le> fcard (p_vouchers p)"
      by blast
    have "b \<notin> set bl"
      using new(2) c by (auto simp: list_all2_conv_all_nth in_set_conv_nth)
    moreover have "list_all2 (\<lambda>p b'. b' |\<in>| p_vouchers p \<and> b' |\<notin>| rep \<and> b' \<in> set (b # bs)) new bl"
      using new(2) by (rule list_all2_mono) auto
    ultimately show ?thesis
      using new(1,3,4) pick c
      by (intro exI [of _ "c # new"] exI [of _ "b # bl"]) auto
  qed
qed (auto intro: exI [of _ "[]"])

lemma distinct_witnesses_bound:
  "list_all2 (\<lambda>p b. b |\<in>| f p) xs bl \<Longrightarrow> distinct bl \<Longrightarrow> (\<And>b. b \<in> set bl \<Longrightarrow> b \<notin> R) \<Longrightarrow> finite A \<Longrightarrow>
     length (filter (\<lambda>p. fset (f p) \<subseteq> A) xs) \<le> card (A - R)"
proof -
  assume a: "list_all2 (\<lambda>p b. b |\<in>| f p) xs bl" "distinct bl" "\<And>b. b \<in> set bl \<Longrightarrow> b \<notin> R" "finite A"
  have "length (filter (\<lambda>p. fset (f p) \<subseteq> A) xs) = length (map snd (filter (\<lambda>(p, b). fset (f p) \<subseteq> A) (zip xs bl)))"
    using a(1) by (induction rule: list_all2_induct) auto
  also have "\<dots> = card (set (map snd (filter (\<lambda>(p, b). fset (f p) \<subseteq> A) (zip xs bl))))"
  proof -
    have "distinct (map snd (zip xs bl))" using a(1,2) by (simp add: list_all2_lengthD)
    then show ?thesis by (intro distinct_card [symmetric]) (rule distinct_map_filter)
  qed
  also have "\<dots> \<le> card (A - R)"
  proof (rule card_mono)
    show "finite (A - R)" using a(4) by simp
    show "set (map snd (filter (\<lambda>(p, b). fset (f p) \<subseteq> A) (zip xs bl))) \<subseteq> A - R"
      using a(1,3) by (fastforce simp: list_all2_iff dest: set_zip_rightD)
  qed
  finally show ?thesis .
qed

definition reserve_head :: "peer list \<Rightarrow> int \<Rightarrow> int \<Rightarrow> peer list" where
  "reserve_head ranked topn reserve = take (nat (max 0 (topn - reserve))) ranked"

lemma mset_split_chosen:
  assumes "distinct (map f xs)" "set ys \<subseteq> set xs" "distinct (map f ys)"
  shows "mset ys + mset (filter (\<lambda>x. f x \<notin> set (map f ys)) xs) = mset xs"
proof -
  have inj: "inj_on f (set xs)" and dx: "distinct xs" and dy: "distinct ys"
    using assms by (simp_all add: distinct_map)
  have "filter (\<lambda>x. f x \<notin> set (map f ys)) xs = filter (\<lambda>x. x \<notin> set ys) xs"
    using inj assms(2) by (intro filter_cong) (auto dest: inj_onD)
  moreover have "mset ys = mset (filter (\<lambda>x. x \<in> set ys) xs)"
    using assms(2) dx dy by (intro set_eq_iff_mset_eq_distinct [THEN iffD1]) auto
  ultimately show ?thesis
    using mset_filter [of "\<lambda>x. x \<in> set ys" xs] mset_filter [of "\<lambda>x. x \<notin> set ys" xs]
      multiset_partition [of "mset xs" "\<lambda>x. x \<in> set ys"] by simp
qed

text \<open>The shape of the reordered list, from which the properties follow.\<close>

lemma represent_shape:
  fixes topn reserve ranked
  defines "head \<equiv> reserve_head ranked topn reserve"
  assumes "distinct (map peer_key ranked)"
  obtains picks rest bl where "fst (fst (represent cfg st ranked topn reserve rs)) = head @ picks @ rest"
    "length picks \<le> nat reserve" "rest = filter (\<lambda>p. p \<notin> set (head @ picks)) ranked"
    "mset (head @ picks @ rest) = mset ranked"
    "list_all2 (\<lambda>p b. b |\<in>| p_vouchers p) picks bl" "distinct bl"
    "\<forall>b \<in> set bl. b \<noteq> ''local'' \<and> (\<forall>p \<in> set head. b |\<notin>| p_vouchers p)"
    "\<forall>p \<in> set picks. RESERVE_MIN_VOUCHERS \<le> fcard (p_vouchers p)"
proof -
  define un where "un = unrepresented head ranked"
  obtain order rs1 where sh: "shuffle_buckets cfg st un rs = (order, rs1)" by fastforce
  have order: "set order = set un" using set_shuffle_buckets [of cfg st un rs] sh by simp
  define picks where "picks = reserve_picks (nat reserve) ranked order (vouchers_of head) (map peer_key head) []"
  define rest where "rest = filter (\<lambda>p. peer_key p \<notin> set (map peer_key (head @ picks))) ranked"
  have r: "fst (fst (represent cfg st ranked topn reserve rs)) = head @ picks @ rest"
    using sh unfolding un_def
    by (simp add: represent_def Let_def head_def reserve_head_def picks_def rest_def)
  obtain new1 where n1: "picks = new1" "length new1 \<le> nat reserve" "set new1 \<subseteq> set ranked" "distinct (map peer_key new1)"
    "\<forall>p \<in> set new1. peer_key p \<notin> set (map peer_key head)"
    using reserve_picks_extend [of "nat reserve" ranked order "vouchers_of head" "map peer_key head" "[]"]
    by (auto simp: picks_def)
  obtain bl where n2: "list_all2 (\<lambda>p b. b |\<in>| p_vouchers p \<and> b |\<notin>| vouchers_of head \<and> b \<in> set order) picks bl"
    "distinct bl" "\<forall>p \<in> set picks. RESERVE_MIN_VOUCHERS \<le> fcard (p_vouchers p)"
    using reserve_picks_new_buckets [of "nat reserve" ranked order "vouchers_of head" "map peer_key head" "[]"]
    by (auto simp: picks_def)
  have hd: "set head \<subseteq> set ranked" "distinct (map peer_key head)"
    using assms(2) by (simp_all add: head_def reserve_head_def set_take_subset take_map [symmetric])
  have "set (map peer_key head) \<inter> set (map peer_key new1) = {}"
  proof (rule equals0I)
    fix x assume x: "x \<in> set (map peer_key head) \<inter> set (map peer_key new1)"
    then obtain p where "p \<in> set new1" "x = peer_key p" by auto
    with n1(5) x show False by simp
  qed
  then have d: "distinct (map peer_key (head @ picks))"
    using n1(1,4) hd(2) by (simp add: distinct_append)
  have sub: "set (head @ picks) \<subseteq> set ranked" using n1 hd by auto
  show thesis
  proof (rule that [OF r _ _ _ _ n2(2)])
    show "length picks \<le> nat reserve" using n1 by simp
    show "rest = filter (\<lambda>p. p \<notin> set (head @ picks)) ranked"
      unfolding rest_def using assms(2) sub by (intro filter_cong) (auto simp: distinct_map dest: inj_onD)
    show "mset (head @ picks @ rest) = mset ranked"
      using mset_split_chosen [OF assms(2) sub d] by (simp add: rest_def ac_simps)
    show "list_all2 (\<lambda>p b. b |\<in>| p_vouchers p) picks bl" using n2(1) by (rule list_all2_mono) simp
    show "\<forall>b \<in> set bl. b \<noteq> ''local'' \<and> (\<forall>p \<in> set head. b |\<notin>| p_vouchers p)"
    proof -
      have "set bl \<subseteq> set un" using n2(1) order by (auto simp: list_all2_conv_all_nth in_set_conv_nth)
      then show ?thesis unfolding un_def set_unrepresented by blast
    qed
    show "\<forall>p \<in> set picks. RESERVE_MIN_VOUCHERS \<le> fcard (p_vouchers p)" by (rule n2(3))
  qed
qed


lemma reserve_picks_complete:
  "distinct (map peer_key ranked) \<Longrightarrow> length picks + length bs \<le> n \<Longrightarrow>
     \<forall>p \<in> set ranked. peer_key p \<in> set chosen \<longrightarrow> p_vouchers p |\<subseteq>| rep \<Longrightarrow>
     b \<in> set bs \<Longrightarrow> p \<in> set ranked \<Longrightarrow> b |\<in>| p_vouchers p \<Longrightarrow> RESERVE_MIN_VOUCHERS \<le> fcard (p_vouchers p) \<Longrightarrow>
     b |\<notin>| rep \<Longrightarrow>
     \<exists>q new. reserve_picks n ranked bs rep chosen picks = picks @ new \<and> q \<in> set new \<and> b |\<in>| p_vouchers q"
proof (induction n ranked bs rep chosen picks rule: reserve_picks.induct)
  case (2 n ranked c bs rep chosen picks)
  have nfull: "\<not> n \<le> length picks" using "2.prems"(2) by simp
  consider (rep) "c |\<in>| rep" | (none) "c |\<notin>| rep" "candidate_for c chosen ranked = None"
    | (pick) d where "c |\<notin>| rep" "candidate_for c chosen ranked = Some d" by fastforce
  then show ?case
  proof cases
    case rep
    then have "b \<in> set bs" using "2.prems" by auto
    with "2.IH"(1) [OF nfull rep] "2.prems" rep nfull show ?thesis by simp
  next
    case none
    have "b \<noteq> c"
    proof
      assume "b = c"
      then have "peer_key p \<in> set chosen"
        using none(2) "2.prems" by (auto simp: candidate_for_def find_None_iff)
      with "2.prems" show False by blast
    qed
    then have "b \<in> set bs" using "2.prems" by simp
    with "2.IH"(2) [OF nfull none] "2.prems" none nfull show ?thesis by simp
  next
    case pick
    note c = candidate_for_Some [OF pick(2)]
    let ?rest = "reserve_picks n ranked bs (rep |\<union>| p_vouchers d) (chosen @ [peer_key d]) (picks @ [d])"
    obtain new where new: "?rest = (picks @ [d]) @ new" using reserve_picks_extend by blast
    show ?thesis
    proof (cases "b |\<in>| p_vouchers d")
      case True
      with new pick nfull show ?thesis by (intro exI [of _ d] exI [of _ "d # new"]) simp
    next
      case False
      then have b: "b \<in> set bs" "b |\<notin>| rep |\<union>| p_vouchers d" using "2.prems" c by auto
      have "\<forall>p \<in> set ranked. peer_key p \<in> set (chosen @ [peer_key d]) \<longrightarrow> p_vouchers p |\<subseteq>| rep |\<union>| p_vouchers d"
        using "2.prems"(1,3) c by (auto simp: distinct_map dest: inj_onD)
      with "2.IH"(3) [OF nfull pick "2.prems"(1) _ _ b(1) "2.prems"(5,6,7) b(2)] "2.prems"(2)
      obtain q where "q \<in> set new" "b |\<in>| p_vouchers q" using new by auto
      with new pick nfull show ?thesis by (intro exI [of _ q] exI [of _ "d # new"]) simp
    qed
  qed
qed simp


section \<open>The query batch\<close>

definition full_queues :: "'a list list \<Rightarrow> bool" where
  "full_queues qs \<longleftrightarrow> list_all (\<lambda>q. q \<noteq> []) qs"

lemma rr_round_all:
  "full_queues qs \<Longrightarrow> rr_round None qs p r = (p @ map hd qs, r @ filter (\<lambda>q. q \<noteq> []) (map tl qs))"
  by (induction "None :: nat option" qs p r rule: rr_round.induct) (auto simp: full_queues_def reached_def)

lemma rr_round_budget:
  "full_queues qs \<Longrightarrow> length p \<le> n \<Longrightarrow> fst (rr_round (Some n) qs p r) = take n (p @ map hd qs) \<and>
     (length p + length qs \<le> n \<longrightarrow> rr_round (Some n) qs p r = rr_round None qs p r)"
proof (induction "Some n" qs p r rule: rr_round.induct)
  case (3 x q qs p r)
  show ?case
  proof (cases "n \<le> length p")
    case True
    with 3(3) show ?thesis by (simp add: reached_def)
  next
    case False
    with 3 show ?thesis by (simp add: reached_def full_queues_def)
  qed
qed (auto simp: full_queues_def)

lemma full_queues_next: "full_queues (filter (\<lambda>q. q \<noteq> []) qs)"
  by (simp add: full_queues_def list_all_iff)

lemma rr_loop_Nil: "rr_loop budget [] p = p"
  by (subst rr_loop.simps) simp

lemma rr_loop_reached: "reached budget p \<Longrightarrow> rr_loop budget qs p = p"
  by (subst rr_loop.simps) simp

lemma rr_loop_none:
  "full_queues qs \<Longrightarrow> (\<exists>s. rr_loop None qs p = p @ s) \<and> mset (rr_loop None qs p) = mset p + mset (concat qs)"
proof (induction "None :: nat option" qs p rule: rr_loop.induct)
  case (1 qs p)
  show ?case
  proof (cases "qs = []")
    case False
    let ?qs = "filter (\<lambda>q. q \<noteq> []) (map tl qs)" and ?p = "p @ map hd qs"
    have step: "rr_loop None qs p = rr_loop None ?qs ?p"
      using False 1(2) by (subst rr_loop.simps) (simp add: reached_def rr_round_all)
    have IH: "(\<exists>s. rr_loop None ?qs ?p = ?p @ s) \<and> mset (rr_loop None ?qs ?p) = mset ?p + mset (concat ?qs)"
      using 1 False by (simp add: reached_def rr_round_all full_queues_next)
    have m: "mset (map hd qs) + mset (concat ?qs) = mset (concat qs)"
      using 1(2)
    proof (induction qs)
      case (Cons q qs)
      then show ?case by (cases q; cases "tl q") (auto simp: full_queues_def)
    qed simp
    show ?thesis using IH unfolding step m [symmetric] by auto
  qed (simp add: rr_loop_Nil)
qed

lemma rr_loop_budget:
  "full_queues qs \<Longrightarrow> length p \<le> n \<Longrightarrow> rr_loop (Some n) qs p = take n (rr_loop None qs p)"
proof (induction "None :: nat option" qs p rule: rr_loop.induct)
  case (1 qs p)
  show ?case
  proof (cases "qs = [] \<or> n = length p")
    case True
    then have "rr_loop (Some n) qs p = p" by (subst rr_loop.simps) (auto simp: reached_def)
    moreover from rr_loop_none [OF 1(2)] obtain s where "rr_loop None qs p = p @ s" by blast
    ultimately show ?thesis using True 1(3) rr_loop_Nil [of None p] by (cases "qs = []") simp_all
  next
    case False
    let ?qs = "filter (\<lambda>q. q \<noteq> []) (map tl qs)" and ?p = "p @ map hd qs"
    have go: "qs \<noteq> []" "\<not> reached (Some n) p" "\<not> reached None p" using False 1(3) by (auto simp: reached_def)
    have none: "rr_loop None qs p = rr_loop None ?qs ?p"
      using go 1(2) by (subst rr_loop.simps) (simp add: rr_round_all)
    have some: "rr_loop (Some n) qs p =
        rr_loop (Some n) (snd (rr_round (Some n) qs p [])) (fst (rr_round (Some n) qs p []))"
      using go by (subst rr_loop.simps) simp
    note b = rr_round_budget [OF 1(2,3), of "[]"]
    show ?thesis
    proof (cases "length p + length qs \<le> n")
      case True
      then have "rr_loop (Some n) qs p = rr_loop (Some n) ?qs ?p"
        using some b 1(2) by (simp add: rr_round_all)
      moreover have "rr_loop (Some n) ?qs ?p = take n (rr_loop None ?qs ?p)"
        using 1(1) go True by (simp add: rr_round_all [OF 1(2)] full_queues_next)
      ultimately show ?thesis using none by simp
    next
      case False
      then have "rr_loop (Some n) qs p = take n ?p"
        using some b by (simp add: rr_loop_reached reached_def)
      moreover obtain s where "rr_loop None ?qs ?p = ?p @ s"
        using rr_loop_none [OF full_queues_next] by blast
      ultimately show ?thesis using none False by simp
    qed
  qed
qed

lemma rr_loop_first_round:
  assumes "full_queues qs"
  shows "take (length qs) (rr_loop None qs []) = map hd qs"
proof (cases "qs = []")
  case False
  have "rr_loop None qs [] = rr_loop None (filter (\<lambda>q. q \<noteq> []) (map tl qs)) (map hd qs)"
    using False assms by (subst rr_loop.simps) (simp add: reached_def rr_round_all)
  moreover obtain s where "rr_loop None (filter (\<lambda>q. q \<noteq> []) (map tl qs)) (map hd qs) = map hd qs @ s"
    using rr_loop_none [OF full_queues_next] by blast
  ultimately show ?thesis by simp
qed (simp add: rr_loop_Nil)


section \<open>Groups of the table\<close>

lemma mset_concat_groups:
  "mset (concat (dvals (group_by f ts))) = mset ts"
proof (induction ts rule: rev_induct)
  case (snoc t ts)
  have step: "mset (concat (dvals (dput k (case dget d k of None \<Rightarrow> [t] | Some ms \<Rightarrow> ms @ [t]) d))) =
      mset (concat (dvals d)) + {#t#}" for k and d :: "(string, 'a list) dict"
    by (induction d) auto
  show ?case using snoc step by (simp add: group_by_def group_step_def)
qed (simp add: group_by_def)

lemma concat_mset_cong: "mset xs = mset ys \<Longrightarrow> mset (concat xs) = mset (concat ys)"
  by (simp add: mset_concat mset_map [symmetric] del: mset_map) (metis mset_map sum_mset_sum_list)


lemma length_group_by: "length (group_by f ts) = length (remdups (map f ts))"
proof -
  have "set (dkeys (group_by f ts)) = set (map f ts)"
    unfolding set_eq_iff group_by_keys_set by auto
  then have "card (set (dkeys (group_by f ts))) = card (set (map f ts))" by simp
  then show ?thesis
    using distinct_card [of "dkeys (group_by f ts)"] group_by_dict_ok [of f ts]
    by (simp add: dict_ok_def length_remdups_card_conv)
qed

lemma sort_key_hd:
  "m \<noteq> [] \<Longrightarrow> hd (sort_key f m) \<in> set m \<and> (\<forall>t \<in> set m. f (hd (sort_key f m)) \<le> f t)"
proof -
  assume "m \<noteq> []"
  then obtain x xs where x: "sort_key f m = x # xs"
    by (metis length_0_conv length_sort neq_Nil_conv)
  have "sorted (map f (sort_key f m))" by simp
  then have "\<forall>t \<in> set (sort_key f m). f x \<le> f t" unfolding x by auto
  moreover have "set (sort_key f m) = set m" by simp
  ultimately show ?thesis using x by (metis list.sel(1) list.set_intros(1))
qed

lemma queue_heads:
  fixes f :: "tentry \<Rightarrow> string" and ts :: "tentry list"
  defines "qs \<equiv> map (\<lambda>(b, m). sort_key t_last_queried m) (group_by f ts)"
  shows "full_queues qs" "distinct (map (f o hd) qs)" "mset (concat qs) = mset ts"
    "\<forall>q \<in> set qs. \<forall>u \<in> set ts. f u = f (hd q) \<longrightarrow> t_last_queried (hd q) \<le> t_last_queried u"
proof -
  have hd: "hd (sort_key t_last_queried m) \<in> set m \<and> f (hd (sort_key t_last_queried m)) = b \<and>
      (\<forall>u \<in> set ts. f u = b \<longrightarrow> t_last_queried (hd (sort_key t_last_queried m)) \<le> t_last_queried u)"
    if "(b, m) \<in> set (group_by f ts)" for b m
    using group_by_in [OF that] sort_key_hd [of m t_last_queried] by auto
  show "full_queues qs"
  proof -
    have "sort_key t_last_queried m \<noteq> []" if "(b, m) \<in> set (group_by f ts)" for b m
      using group_by_in [OF that] by (metis length_0_conv length_sort)
    then show ?thesis by (auto simp: qs_def full_queues_def list_all_iff)
  qed
  have "map (f o hd) qs = dkeys (group_by f ts)"
    using hd by (auto simp: qs_def comp_def)
  then show "distinct (map (f o hd) qs)"
    using group_by_dict_ok [of f ts] by (simp add: dict_ok_def)
  have "mset (concat (map (\<lambda>(b, m). sort_key t_last_queried m) d)) = mset (concat (dvals d))" for d :: "(string, tentry list) dict"
    by (induction d) auto
  then show "mset (concat qs) = mset ts"
    unfolding qs_def using mset_concat_groups [of f ts] by simp
  show "\<forall>q \<in> set qs. \<forall>u \<in> set ts. f u = f (hd q) \<longrightarrow> t_last_queried (hd q) \<le> t_last_queried u"
    using hd by (auto simp: qs_def)
qed

text \<open>In bucketed mode the query batch is the whole table or \<^verbatim>\<open>limit\<close> entries of it, each taken once, and
  its first picks come from pairwise different buckets, as many as there are buckets, each the
  entry of its bucket queried longest ago: a subnet with many entries gets no earlier turn.\<close>

theorem query_batch_fair:
  assumes "c_bucketed cfg" "\<not> c_anchor_read cfg"
  shows "let batch = get_transpeers_for_query cfg limit rs st;
             table = map snd (s_transpeers st);
             first = take (transpeer_bucket_count cfg st) batch in
     length batch = min limit (length table) \<and> mset batch \<subseteq># mset table \<and>
     distinct (map (\<lambda>t. bucket_of cfg (t_addr t)) first) \<and>
     (\<forall>t \<in> set first. \<forall>u \<in> set table.
        bucket_of cfg (t_addr u) = bucket_of cfg (t_addr t) \<longrightarrow> t_last_queried t \<le> t_last_queried u)"
proof -
  let ?f = "\<lambda>t. bucket_of cfg (t_addr t)" and ?ts = "dvals (s_transpeers st)"
  define qs where "qs = map (\<lambda>(b, m). sort_key t_last_queried m) (group_by ?f ?ts)"
  define sh where "sh = fst (shuffle qs rs)"
  note q = queue_heads [of ?f ?ts, folded qs_def]
  have set: "set sh = set qs" and ms: "mset sh = mset qs" by (simp_all add: sh_def)
  have full: "full_queues sh" using q(1) set by (simp add: full_queues_def list_all_iff)
  have heads: "distinct (map (?f o hd) sh)"
    using q(2) ms by (metis mset_map mset_eq_imp_distinct_iff)
  define all where "all = rr_loop None sh []"
  have batch: "get_transpeers_for_query cfg limit rs st = take limit all"
    using assms rr_loop_budget [OF full, of "[]" limit]
    by (simp add: get_transpeers_for_query_def Let_def transpeers_by_bucket_def qs_def sh_def all_def)
  have mall: "mset all = mset ?ts"
    using rr_loop_none [OF full, of "[]"] concat_mset_cong [OF ms] q(3) by (simp add: all_def)
  then have len: "length all = length ?ts" by (rule mset_eq_length)
  have "length sh = transpeer_bucket_count cfg st"
    by (simp add: sh_def qs_def transpeer_bucket_count_def length_group_by)
  then have first: "take (transpeer_bucket_count cfg st) (take limit all) = take limit (map hd sh)"
    using rr_loop_first_round [OF full] by (metis all_def take_take min.commute)
  have "distinct (map ?f (take limit (map hd sh)))"
    using heads by (simp add: take_map distinct_take comp_def flip: take_map)
  moreover have "\<forall>t \<in> set (take limit (map hd sh)). \<forall>u \<in> set ?ts. ?f u = ?f t \<longrightarrow> t_last_queried t \<le> t_last_queried u"
  proof (intro ballI impI)
    fix t u assume t: "t \<in> set (take limit (map hd sh))" and u: "u \<in> set ?ts" "?f u = ?f t"
    from in_set_takeD [OF t] set obtain q where "q \<in> set qs" "t = hd q" by auto
    with q(4) u show "t_last_queried t \<le> t_last_queried u" by blast
  qed
  moreover have "mset (take limit all) \<subseteq># mset ?ts"
    unfolding mall [symmetric] by (metis append_take_drop_id mset_append mset_subset_eq_add_left)
  ultimately show ?thesis
    by (simp only: Let_def batch first) (simp add: len min.commute)
qed


section \<open>What the daemon is handed\<close>

text \<open>C8. The reserve pass neither loses nor invents a peer: the list is a rearrangement of the
  ranked one that keeps the ranked head, continues with at most \<^verbatim>\<open>reserve\<close> picks, each with at
  least \<^verbatim>\<open>RESERVE_MIN_VOUCHERS\<close> vouchers, and ends with the remaining peers in ranked order. For
  every set of buckets \<^verbatim>\<open>A\<close>, the picks vouched for by buckets of \<^verbatim>\<open>A\<close> alone are at most as
  many as the buckets of \<^verbatim>\<open>A\<close> that vouch for nothing in the head.\<close>

theorem represent_reorders:
  assumes "distinct (map peer_key ranked)"
  shows "\<exists>head picks rest. fst (fst (represent cfg st ranked topn reserve rs)) = head @ picks @ rest \<and>
     mset (head @ picks @ rest) = mset ranked \<and>
     head = take (nat (max 0 (topn - reserve))) ranked \<and>
     rest = filter (\<lambda>p. p \<notin> set (head @ picks)) ranked \<and>
     length picks \<le> nat reserve \<and> (\<forall>p \<in> set picks. 2 \<le> fcard (p_vouchers p)) \<and>
     (\<forall>A. finite A \<longrightarrow> length (filter (\<lambda>p. fset (p_vouchers p) \<subseteq> A) picks) \<le>
        card (A - ({''local''} \<union> (\<Union>p \<in> set head. fset (p_vouchers p)))))"
proof -
  from represent_shape [OF assms, of cfg st topn reserve rs] obtain picks rest bl where
    r: "fst (fst (represent cfg st ranked topn reserve rs)) = reserve_head ranked topn reserve @ picks @ rest"
    "length picks \<le> nat reserve" "rest = filter (\<lambda>p. p \<notin> set (reserve_head ranked topn reserve @ picks)) ranked"
    "mset (reserve_head ranked topn reserve @ picks @ rest) = mset ranked"
    "list_all2 (\<lambda>p b. b |\<in>| p_vouchers p) picks bl" "distinct bl"
    "\<forall>b \<in> set bl. b \<noteq> ''local'' \<and> (\<forall>p \<in> set (reserve_head ranked topn reserve). b |\<notin>| p_vouchers p)"
    "\<forall>p \<in> set picks. RESERVE_MIN_VOUCHERS \<le> fcard (p_vouchers p)" by blast
  have "length (filter (\<lambda>p. fset (p_vouchers p) \<subseteq> A) picks) \<le>
        card (A - ({''local''} \<union> (\<Union>p \<in> set (reserve_head ranked topn reserve). fset (p_vouchers p))))"
    if "finite A" for A
    by (rule distinct_witnesses_bound [OF r(5,6) _ that]) (use r(7) in auto)
  with r show ?thesis
    by (intro exI [of _ "reserve_head ranked topn reserve"] exI [of _ picks] exI [of _ rest])
      (simp add: reserve_head_def RESERVE_MIN_VOUCHERS_def)
qed

definition sample_peer :: "string \<Rightarrow> string fset \<Rightarrow> peer" where
  "sample_peer addr vs = (new_peer ''net'' addr 80)\<lparr>p_vouchers := vs\<rparr>"

definition sample_ranked :: "peer list" where
  "sample_ranked = [sample_peer ''1.1.1.1'' {|''a'', ''b''|}, sample_peer ''2.2.2.2'' {|''a'', ''b''|},
     sample_peer ''3.3.3.3'' {|''c'', ''d''|}]"

lemma sample_ranked_keys: "distinct (map peer_key sample_ranked)"
  by (simp add: sample_ranked_def sample_peer_def new_peer_def peer_key_def key_of_eq addr_ok_def)

lemma represent_reorders_witness:
  "mset (fst (fst (represent default_config (empty_store default_config) sample_ranked 2 1 [5]))) = mset sample_ranked"
  using represent_reorders [OF sample_ranked_keys, of default_config "empty_store default_config" 2 1 "[5]"]
  by metis

text \<open>C9. When the reserve has a slot for every unrepresented bucket, every reporter bucket that
  vouches for some peer with enough vouchers is represented among the first \<^verbatim>\<open>top\<close> peers the daemon
  gets, whatever order the buckets are visited in.\<close>

theorem reserve_represents_all:
  assumes "distinct (map peer_key ranked)" "0 \<le> reserve" "reserve \<le> topn"
    and "snd (fst (represent cfg st ranked topn reserve rs)) \<le> nat reserve"
    and "p \<in> set ranked" "b |\<in>| p_vouchers p" "b \<noteq> ''local''" "2 \<le> fcard (p_vouchers p)"
  shows "\<exists>q \<in> set (take (nat topn) (fst (fst (represent cfg st ranked topn reserve rs)))). b |\<in>| p_vouchers q"
proof -
  define head where "head = take (nat (max 0 (topn - reserve))) ranked"
  define un where "un = unrepresented head ranked"
  obtain order rs1 where sh: "shuffle_buckets cfg st un rs = (order, rs1)" by fastforce
  define picks where "picks = reserve_picks (nat reserve) ranked order (vouchers_of head) (map peer_key head) []"
  obtain rest where r: "fst (fst (represent cfg st ranked topn reserve rs)) = head @ picks @ rest"
    using sh by (simp add: represent_def Let_def head_def un_def picks_def)
  have n: "snd (fst (represent cfg st ranked topn reserve rs)) = length un"
    using sh by (simp add: represent_def Let_def head_def un_def)
  have order: "set order = set un" "length order = length un"
    using set_shuffle_buckets [of cfg st un rs] length_shuffle_buckets [of cfg st un rs] sh by simp_all
  have "\<exists>q \<in> set (head @ picks). b |\<in>| p_vouchers q"
  proof (cases "\<exists>q \<in> set head. b |\<in>| p_vouchers q")
    case False
    then have b: "b \<in> set order" "b |\<notin>| vouchers_of head"
      using assms(5,6,7) by (auto simp: order un_def set_unrepresented fmember_vouchers_of)
    have "\<forall>p \<in> set ranked. peer_key p \<in> set (map peer_key head) \<longrightarrow> p_vouchers p |\<subseteq>| vouchers_of head"
    proof (intro ballI impI)
      fix p assume p: "p \<in> set ranked" "peer_key p \<in> set (map peer_key head)"
      then obtain q where q: "q \<in> set head" "peer_key p = peer_key q" by auto
      then have "q \<in> set ranked" unfolding head_def by (rule_tac in_set_takeD)
      then have "p = q" using p(1) q(2) assms(1) by (auto simp: distinct_map dest: inj_onD)
      with q show "p_vouchers p |\<subseteq>| vouchers_of head" by (auto simp: fmember_vouchers_of)
    qed
    from reserve_picks_complete [OF assms(1) _ this b(1) assms(5,6) _ b(2), of "[]" "nat reserve"] assms(4,8)
    obtain q where "q \<in> set picks" "b |\<in>| p_vouchers q"
      by (auto simp: n order RESERVE_MIN_VOUCHERS_def picks_def)
    then show ?thesis by auto
  qed auto
  moreover have "length (head @ picks) \<le> nat topn"
  proof -
    have "length picks \<le> nat reserve"
      using reserve_picks_extend [of "nat reserve" ranked order "vouchers_of head" "map peer_key head" "[]"]
      by (auto simp: picks_def)
    moreover have "length head \<le> nat (topn - reserve)" using assms(3) by (simp add: head_def)
    ultimately show ?thesis using assms(2,3) by simp
  qed
  then have "set (head @ picks) \<subseteq> set (take (nat topn) ((head @ picks) @ rest))" by auto
  ultimately show ?thesis unfolding r by auto
qed

lemma reserve_represents_all_witness:
  "\<exists>q \<in> set (take 3 (fst (fst (represent default_config (empty_store default_config) sample_ranked 3 2 [])))).
     ''c'' |\<in>| p_vouchers q"
proof -
  have "snd (fst (represent default_config (empty_store default_config) sample_ranked 3 2 [])) \<le> nat 2"
    by code_simp
  moreover have "sample_peer ''3.3.3.3'' {|''c'', ''d''|} \<in> set sample_ranked" by (simp add: sample_ranked_def)
  ultimately have "\<exists>q \<in> set (take (nat 3) (fst (fst (represent default_config (empty_store default_config) sample_ranked 3 2 [])))).
     ''c'' |\<in>| p_vouchers q"
    by (intro reserve_represents_all [OF sample_ranked_keys, of 2 3 _ _ _ "sample_peer ''3.3.3.3'' {|''c'', ''d''|}"])
      (simp_all add: sample_peer_def new_peer_def fcard_finsert_if)
  then show ?thesis by simp
qed


section \<open>Gossip\<close>

lemma mset_sample_order: "mset (sample_order xs rs) = mset xs"
proof -
  have "map fst (zip xs (rs @ replicate (length xs) 0)) = xs" by (simp add: map_fst_zip_take)
  then have "mset (map fst (zip xs (rs @ replicate (length xs) 0))) = mset xs" by (rule arg_cong)
  then show ?thesis by (simp add: sample_order_def)
qed

lemma gossip_draws_keys:
  "distinct (map tentry_key picked) \<Longrightarrow> length picked \<le> limit \<Longrightarrow>
     distinct (map tentry_key (gossip_draws now buckets limit n picked rs)) \<and>
     length (gossip_draws now buckets limit n picked rs) \<le> limit"
  by (induction now buckets limit n picked rs rule: gossip_draws.induct)
    (auto simp: Let_def split: prod.splits option.splits)

lemma pick_weighted_in: "pick_weighted w as x = Some a \<Longrightarrow> a \<in> set as"
  by (induction w as x rule: pick_weighted.induct) (auto split: if_splits)

lemma gossip_draws_members:
  "set picked \<subseteq> S \<Longrightarrow> (\<And>b m. dget buckets b = Some m \<Longrightarrow> set m \<subseteq> S) \<Longrightarrow> buckets \<noteq> [] \<Longrightarrow>
     set (gossip_draws now buckets limit n picked rs) \<subseteq> S"
proof (induction now buckets limit n picked rs rule: gossip_draws.induct)
  case (2 now buckets limit n picked rs)
  obtain b rs1 where b: "choice (dkeys buckets) rs = (b, rs1)" by fastforce
  define members where "members = the (dget buckets b)"
  obtain x rs2 where x: "draw (sum_list (map (recency now) members)) rs1 = (x, rs2)" by fastforce
  have "b \<in> set (dkeys buckets)" using choice_in [of "dkeys buckets" rs] b 2(4) by simp
  then obtain m where m: "dget buckets b = Some m" by (metis list.set_map map_of_eq_None_iff not_None_eq)
  show ?case
  proof (cases "limit \<le> length picked \<or> pick_weighted (recency now) members x = None")
    case True
    then show ?thesis using 2(2) b x by (auto simp: Let_def members_def)
  next
    case False
    then obtain t where t: "pick_weighted (recency now) members x = Some t" "\<not> limit \<le> length picked" by auto
    have "t \<in> S" using pick_weighted_in [OF t(1)] 2(3) [OF m] m by (auto simp: members_def)
    then show ?thesis
      using 2(1) [OF t(2) b [symmetric] _ members_def x [symmetric] _ t(1)] 2(2-4) t b x
      by (auto simp: Let_def members_def)
  qed
qed simp

text \<open>A gossip answer holds at most \<^verbatim>\<open>limit\<close> entries, all from the table, none for the requester's
  own address and none twice; when there are no more than \<^verbatim>\<open>limit\<close> candidates it holds all of them.\<close>

theorem gossip_answer:
  assumes "transpeers_ok (s_transpeers st)"
  shows "let ans = get_transpeers_for_gossip cfg now limit excl rs st;
             cands = filter (\<lambda>t. t_addr t \<noteq> excl) (map snd (s_transpeers st)) in
     length ans \<le> limit \<and> set ans \<subseteq> set cands \<and> distinct (map tentry_key ans) \<and>
     (length cands \<le> limit \<longrightarrow> mset ans = mset cands)"
proof -
  define cands where "cands = filter (\<lambda>t. t_addr t \<noteq> excl) (dvals (s_transpeers st))"
  define ff where "ff = (\<lambda>ts. if c_anchor_read cfg then sort_key t_unfaithful ts else ts :: tentry list)"
  have ff: "mset (ff ts) = mset ts" for ts by (simp add: ff_def)
  have "map tentry_key (dvals (s_transpeers st)) = dkeys (s_transpeers st)"
    using assms by (auto simp: transpeers_ok_def)
  then have "distinct (map tentry_key (dvals (s_transpeers st)))"
    using assms by (simp only: transpeers_ok_def dict_ok_def)
  then have dc: "distinct (map tentry_key cands)" unfolding cands_def by (rule distinct_map_filter)
  have ff_props: "length (ff ts) = length ts \<and> set (ff ts) = set ts \<and>
      (distinct (map tentry_key (ff ts)) \<longleftrightarrow> distinct (map tentry_key ts))" for ts
    using ff [of ts] by (metis mset_eq_length mset_eq_setD mset_map mset_eq_imp_distinct_iff)
  define draws where "draws = gossip_draws now (group_by (\<lambda>t. bucket_of cfg (t_addr t)) cands) limit (limit * 4) [] rs"
  define ans where "ans = get_transpeers_for_gossip cfg now limit excl rs st"
  have eq: "ans = (if length cands \<le> limit then ff cands
      else if \<not> c_bucketed cfg then ff (take limit (sample_order cands rs)) else ff draws)"
    by (simp add: get_transpeers_for_gossip_def Let_def cands_def ff_def draws_def ans_def)
  have so: "length (sample_order cands rs) = length cands" "set (sample_order cands rs) = set cands"
    "distinct (map tentry_key (sample_order cands rs))"
    using mset_sample_order [of cands rs] dc
    by (metis mset_eq_length, metis mset_eq_setD, metis mset_map mset_eq_imp_distinct_iff)
  have dr: "length draws \<le> limit" "distinct (map tentry_key draws)"
    using gossip_draws_keys [of "[]"] by (simp_all add: draws_def)
  have drs: "set draws \<subseteq> set cands" if "cands \<noteq> []"
    unfolding draws_def
  proof (rule gossip_draws_members)
    show "group_by (\<lambda>t. bucket_of cfg (t_addr t)) cands \<noteq> []"
      using length_group_by [of "\<lambda>t. bucket_of cfg (t_addr t)" cands] that by auto
  qed (auto simp: group_by_lookup split: if_splits)
  have "length ans \<le> limit \<and> set ans \<subseteq> set cands \<and> distinct (map tentry_key ans) \<and>
     (length cands \<le> limit \<longrightarrow> mset ans = mset cands)"
  proof (cases "length cands \<le> limit")
    case True
    then show ?thesis using ff_props [of cands] ff [of cands] dc by (simp add: eq)
  next
    case False
    then have ne: "cands \<noteq> []" by auto
    have st: "set (take limit (sample_order cands rs)) \<subseteq> set cands" "distinct (map tentry_key (take limit (sample_order cands rs)))"
      using so set_take_subset [of limit "sample_order cands rs"] by (auto simp: take_map [symmetric])
    show ?thesis
      using False ff_props [of draws] ff_props [of "take limit (sample_order cands rs)"] dr drs [OF ne] st
      by (simp add: eq)
  qed
  then show ?thesis by (simp add: Let_def ans_def cands_def)
qed

lemma gossip_answer_witness:
  "length (get_transpeers_for_gossip (default_config\<lparr>c_bucketed := True\<rparr>) 9 1 ''1.1.1.1'' [3, 5]
     ((empty_store default_config)\<lparr>s_transpeers := [(tkey_of ''1.1.1.1'' 7, new_tentry ''1.1.1.1'' 7),
        (tkey_of ''2.2.2.2'' 7, new_tentry ''2.2.2.2'' 7), (tkey_of ''3.3.3.3'' 7, new_tentry ''3.3.3.3'' 7)]\<rparr>)) \<le> 1"
proof -
  let ?st = "(empty_store default_config)\<lparr>s_transpeers := [(tkey_of ''1.1.1.1'' 7, new_tentry ''1.1.1.1'' 7),
        (tkey_of ''2.2.2.2'' 7, new_tentry ''2.2.2.2'' 7), (tkey_of ''3.3.3.3'' 7, new_tentry ''3.3.3.3'' 7)]\<rparr>"
  have "transpeers_ok (s_transpeers ?st)"
    by (simp add: transpeers_ok_def dict_ok_def tkey_of_eq addr_ok_def tentry_key_def new_tentry_def)
  from gossip_answer [OF this] show ?thesis unfolding Let_def by blast
qed

lemma query_batch_fair_witness:
  "length (get_transpeers_for_query (default_config\<lparr>c_bucketed := True\<rparr>) 1 [4]
     ((empty_store default_config)\<lparr>s_transpeers := [(tkey_of ''2.2.2.2'' 7, new_tentry ''2.2.2.2'' 7),
        (tkey_of ''3.3.3.3'' 7, new_tentry ''3.3.3.3'' 7)]\<rparr>)) = 1"
proof -
  let ?cfg = "default_config\<lparr>c_bucketed := True\<rparr>"
  let ?st = "(empty_store default_config)\<lparr>s_transpeers := [(tkey_of ''2.2.2.2'' 7, new_tentry ''2.2.2.2'' 7),
        (tkey_of ''3.3.3.3'' 7, new_tentry ''3.3.3.3'' 7)]\<rparr>"
  have "c_bucketed ?cfg" "\<not> c_anchor_read ?cfg" by (simp_all add: default_config_def)
  from query_batch_fair [OF this, of 1 "[4]" ?st] show ?thesis unfolding Let_def by simp
qed

end
