(* ===== verification/Keccak.thy ===== *)
theory Keccak
  imports Prelude
begin

text \<open>
  The two hash functions of the anchor code, executable: Keccak-256 as
  \<^verbatim>\<open>transpeer/anchor/keccak.py\<close> computes it (the padding byte 1, not the one of SHA-3), and
  SHA-256 as \<^verbatim>\<open>hashlib.sha256\<close> of the standard library computes it.
\<close>

unbundle bit_operations_syntax

section \<open>Keccak-256\<close>

type_synonym lane = "64 word"

definition KECCAK_RC :: "lane list" where
  "KECCAK_RC = [
     0x0000000000000001, 0x0000000000008082, 0x800000000000808A, 0x8000000080008000,
     0x000000000000808B, 0x0000000080000001, 0x8000000080008081, 0x8000000000008009,
     0x000000000000008A, 0x0000000000000088, 0x0000000080008009, 0x000000008000000A,
     0x000000008000808B, 0x800000000000008B, 0x8000000000008089, 0x8000000000008003,
     0x8000000000008002, 0x8000000000000080, 0x000000000000800A, 0x800000008000000A,
     0x8000000080008081, 0x8000000000008080, 0x0000000080000001, 0x8000000080008008]"

definition KECCAK_ROT :: "nat list list" where
  "KECCAK_ROT = [[0, 36, 3, 41, 18], [1, 44, 10, 45, 2], [62, 6, 43, 15, 61], [28, 55, 25, 21, 56], [27, 20, 39, 8, 14]]"

definition KECCAK_RATE :: nat where "KECCAK_RATE = 136"

definition rotl64 :: "lane \<Rightarrow> nat \<Rightarrow> lane" where
  "rotl64 v r = (if r \<noteq> 0 then push_bit r v OR drop_bit (64 - r) v else v)"

definition keccak_theta :: "lane list \<Rightarrow> lane list" where
  "keccak_theta s =
     (let c = map (\<lambda>x. s ! x XOR s ! (x + 5) XOR s ! (x + 10) XOR s ! (x + 15) XOR s ! (x + 20)) [0..<5];
          d = map (\<lambda>x. c ! ((x + 4) mod 5) XOR rotl64 (c ! ((x + 1) mod 5)) 1) [0..<5]
      in map (\<lambda>i. s ! i XOR d ! (i mod 5)) [0..<25])"

definition keccak_rho_pi :: "lane list \<Rightarrow> lane list" where
  "keccak_rho_pi s =
     fold (\<lambda>(x, y) b. b[y + 5 * ((2 * x + 3 * y) mod 5) := rotl64 (s ! (x + 5 * y)) (KECCAK_ROT ! x ! y)])
       (concat (map (\<lambda>x. map (\<lambda>y. (x, y)) [0..<5]) [0..<5])) (replicate 25 0)"

definition keccak_chi :: "lane list \<Rightarrow> lane list" where
  "keccak_chi b = map (\<lambda>i. b ! i XOR (NOT (b ! ((i mod 5 + 1) mod 5 + 5 * (i div 5))) AND
     b ! ((i mod 5 + 2) mod 5 + 5 * (i div 5)))) [0..<25]"

definition keccak_round :: "lane \<Rightarrow> lane list \<Rightarrow> lane list" where
  "keccak_round rc s = (let t = keccak_chi (keccak_rho_pi (keccak_theta s)) in t[0 := t ! 0 XOR rc])"

definition keccak_f :: "lane list \<Rightarrow> lane list" where
  "keccak_f s = fold keccak_round KECCAK_RC s"

definition keccak_pad :: "bytes \<Rightarrow> bytes" where
  "keccak_pad data =
     (let p = data @ [1]; z = p @ replicate ((KECCAK_RATE - length p mod KECCAK_RATE) mod KECCAK_RATE) 0
      in z[length z - 1 := last z OR 0x80])"

definition keccak_absorb_block :: "lane list \<Rightarrow> bytes \<Rightarrow> lane list" where
  "keccak_absorb_block s block =
     keccak_f (fold (\<lambda>i s. s[i := s ! i XOR word_of_nat (le_val (slice block (8 * i) (8 * i + 8)))]) [0..<17] s)"

function keccak_absorb :: "lane list \<Rightarrow> bytes \<Rightarrow> lane list" where
  "keccak_absorb s padded =
     (if padded = [] then s
      else keccak_absorb (keccak_absorb_block s (take KECCAK_RATE padded)) (drop KECCAK_RATE padded))"
  by pat_completeness auto
termination by (relation "measure (\<lambda>(s, p). length p)") (auto simp: KECCAK_RATE_def)

declare keccak_absorb.simps [simp del]

definition keccak256 :: "bytes \<Rightarrow> bytes" where
  "keccak256 data =
     concat (map (\<lambda>l. le_bytes 8 (unat l)) (take 4 (keccak_absorb (replicate 25 0) (keccak_pad data))))"

lemma length_keccak_round [simp]: "length (keccak_round rc s) = 25"
  by (simp add: keccak_round_def keccak_chi_def Let_def)

lemma length_keccak_f: "length (keccak_f s) = 25"
proof -
  have "rcs \<noteq> [] \<Longrightarrow> length (fold keccak_round rcs s) = 25" for rcs
    by (induction rcs rule: rev_induct) auto
  then show ?thesis by (simp add: keccak_f_def KECCAK_RC_def)
qed

lemma length_keccak_absorb: "length s = 25 \<Longrightarrow> length (keccak_absorb s padded) = 25"
proof (induction s padded rule: keccak_absorb.induct)
  case (1 s padded)
  then show ?case
    by (subst keccak_absorb.simps) (auto simp: keccak_absorb_block_def length_keccak_f)
qed

lemma length_concat_const: "(\<And>x. x \<in> set xs \<Longrightarrow> length x = n) \<Longrightarrow> length (concat xs) = n * length xs"
  by (induction xs) (simp_all add: algebra_simps)

lemma length_keccak256 [simp]: "length (keccak256 data) = 32"
proof -
  have "length (take 4 (keccak_absorb (replicate 25 0) (keccak_pad data))) = 4"
    using length_keccak_absorb [of "replicate 25 0" "keccak_pad data"] by simp
  then show ?thesis
    unfolding keccak256_def by (subst length_concat_const [where n = 8]) auto
qed

text \<open>The padded message fills whole blocks, so every block read is complete.\<close>

lemma keccak_pad_blocks: "length (keccak_pad data) mod KECCAK_RATE = 0 \<and> length data < length (keccak_pad data)"
proof -
  have pad: "(n + (136 - n mod 136) mod 136) mod 136 = 0" for n :: nat
  proof (cases "n mod 136 = 0")
    case False
    define q r where "q = n div 136" and "r = n mod 136"
    have n: "n = 136 * q + r" "r < 136" "0 < r" using False by (simp_all add: q_def r_def)
    have "(136 - r) mod 136 = 136 - r" using n by simp
    moreover have "n + (136 - r) = 136 * (q + 1)" using n by simp
    ultimately show ?thesis unfolding r_def [symmetric] by (metis mod_mult_self1_is_0)
  qed simp
  show ?thesis using pad [of "Suc (length data)"] by (simp add: keccak_pad_def Let_def KECCAK_RATE_def)
qed

section \<open>SHA-256\<close>

type_synonym word32 = "32 word"

definition SHA256_K :: "word32 list" where
  "SHA256_K = [
     0x428A2F98, 0x71374491, 0xB5C0FBCF, 0xE9B5DBA5, 0x3956C25B, 0x59F111F1, 0x923F82A4, 0xAB1C5ED5,
     0xD807AA98, 0x12835B01, 0x243185BE, 0x550C7DC3, 0x72BE5D74, 0x80DEB1FE, 0x9BDC06A7, 0xC19BF174,
     0xE49B69C1, 0xEFBE4786, 0x0FC19DC6, 0x240CA1CC, 0x2DE92C6F, 0x4A7484AA, 0x5CB0A9DC, 0x76F988DA,
     0x983E5152, 0xA831C66D, 0xB00327C8, 0xBF597FC7, 0xC6E00BF3, 0xD5A79147, 0x06CA6351, 0x14292967,
     0x27B70A85, 0x2E1B2138, 0x4D2C6DFC, 0x53380D13, 0x650A7354, 0x766A0ABB, 0x81C2C92E, 0x92722C85,
     0xA2BFE8A1, 0xA81A664B, 0xC24B8B70, 0xC76C51A3, 0xD192E819, 0xD6990624, 0xF40E3585, 0x106AA070,
     0x19A4C116, 0x1E376C08, 0x2748774C, 0x34B0BCB5, 0x391C0CB3, 0x4ED8AA4A, 0x5B9CCA4F, 0x682E6FF3,
     0x748F82EE, 0x78A5636F, 0x84C87814, 0x8CC70208, 0x90BEFFFA, 0xA4506CEB, 0xBEF9A3F7, 0xC67178F2]"

definition SHA256_INIT :: "word32 list" where
  "SHA256_INIT = [
     0x6A09E667, 0xBB67AE85, 0x3C6EF372, 0xA54FF53A, 0x510E527F, 0x9B05688C, 0x1F83D9AB, 0x5BE0CD19]"

definition rotr32 :: "nat \<Rightarrow> word32 \<Rightarrow> word32" where
  "rotr32 n v = drop_bit n v OR push_bit (32 - n) v"

definition sha_pad :: "bytes \<Rightarrow> bytes" where
  "sha_pad m = m @ [0x80] @ replicate ((119 - length m mod 64) mod 64) 0 @ be_bytes 8 (8 * length m)"

fun sha_schedule :: "nat \<Rightarrow> word32 list \<Rightarrow> word32 list" where
  "sha_schedule 0 ws = ws"
| "sha_schedule (Suc k) ws =
     (let n = length ws; w15 = ws ! (n - 15); w2 = ws ! (n - 2);
          s0 = rotr32 7 w15 XOR rotr32 18 w15 XOR drop_bit 3 w15;
          s1 = rotr32 17 w2 XOR rotr32 19 w2 XOR drop_bit 10 w2
      in sha_schedule k (ws @ [ws ! (n - 16) + s0 + ws ! (n - 7) + s1]))"

fun sha_step :: "word32 \<times> word32 \<Rightarrow> word32 list \<Rightarrow> word32 list" where
  "sha_step (k, w) [a, b, c, d, e, f, g, h] =
     (let s1 = rotr32 6 e XOR rotr32 11 e XOR rotr32 25 e;
          ch = (e AND f) XOR (NOT e AND g);
          t1 = h + s1 + ch + k + w;
          s0 = rotr32 2 a XOR rotr32 13 a XOR rotr32 22 a;
          maj = (a AND b) XOR (a AND c) XOR (b AND c)
      in [t1 + (s0 + maj), a, b, c, d + t1, e, f, g])"
| "sha_step kw s = s"

definition sha_block :: "word32 list \<Rightarrow> bytes \<Rightarrow> word32 list" where
  "sha_block st block =
     (let ws = sha_schedule 48 (map (\<lambda>i. word_of_nat (be_val (slice block (4 * i) (4 * i + 4)))) [0..<16])
      in map2 (+) st (fold sha_step (zip SHA256_K ws) st))"

fun sha_blocks :: "word32 list \<Rightarrow> bytes \<Rightarrow> word32 list" where
  "sha_blocks st m = (if m = [] then st else sha_blocks (sha_block st (take 64 m)) (drop 64 m))"

declare sha_blocks.simps [simp del]

definition sha256 :: "bytes \<Rightarrow> bytes" where
  "sha256 m = concat (map (\<lambda>w. be_bytes 4 (unat w)) (sha_blocks SHA256_INIT (sha_pad m)))"

lemma length_sha_step: "length (sha_step kw s) = length s"
  by (cases "(kw, s)" rule: sha_step.cases) (auto simp: Let_def)

lemma length_sha_block: "length (sha_block st block) = length st"
proof -
  have "length (fold sha_step kws s) = length s" for kws s
    by (induction kws arbitrary: s) (simp_all add: length_sha_step)
  then show ?thesis by (simp add: sha_block_def Let_def)
qed

lemma length_sha_blocks: "length (sha_blocks st m) = length st"
proof (induction st m rule: sha_blocks.induct)
  case (1 st m)
  then show ?case by (subst sha_blocks.simps) (auto simp: length_sha_block)
qed

lemma length_sha256 [simp]: "length (sha256 m) = 32"
  unfolding sha256_def by (subst length_concat_const [where n = 4]) (auto simp: length_sha_blocks SHA256_INIT_def)


end
