(* ===== verification/Varint.thy ===== *)
theory Varint
  imports Prelude
begin

text \<open>
  \<^verbatim>\<open>transpeer/anchor/varint.py\<close> and the interface of a byte codec: a writer and a cursor reader that
  takes the data and a position and returns the value with the position after it. The varint
  and the fixed-width fields of the anchor formats are its instances.
\<close>

section \<open>Byte codecs\<close>

locale byte_codec =
  fixes enc :: "'a \<Rightarrow> bytes" and dec :: "bytes \<Rightarrow> nat \<Rightarrow> ('a \<times> nat) result" and ok :: "'a \<Rightarrow> bool"
  assumes dec_enc: "ok v \<Longrightarrow> drop pos data = enc v @ rest \<Longrightarrow> dec data pos = Inr (v, pos + length (enc v))"
begin

lemma dec_whole: "ok v \<Longrightarrow> dec (enc v) 0 = Inr (v, length (enc v))"
  using dec_enc [of v 0 "enc v" "[]"] by simp

lemma enc_inject: "ok v \<Longrightarrow> ok w \<Longrightarrow> enc v = enc w \<Longrightarrow> v = w"
  by (metis dec_whole Inr_inject prod.inject)

lemma enc_prefix_free: "ok v \<Longrightarrow> ok w \<Longrightarrow> enc v @ r = enc w @ s \<Longrightarrow> v = w \<and> r = s"
proof -
  assume ok: "ok v" "ok w" and eq: "enc v @ r = enc w @ s"
  have "dec (enc v @ r) 0 = Inr (v, length (enc v))" using dec_enc [OF ok(1), of 0 "enc v @ r" r] by simp
  moreover have "dec (enc v @ r) 0 = Inr (w, length (enc w))" using dec_enc [OF ok(2), of 0 "enc v @ r" s] eq by simp
  ultimately have "v = w" by simp
  with eq show ?thesis by simp
qed

primrec dec_many :: "nat \<Rightarrow> bytes \<Rightarrow> nat \<Rightarrow> ('a list \<times> nat) result" where
  "dec_many 0 data pos = Inr ([], pos)"
| "dec_many (Suc n) data pos = bindR (dec data pos) (\<lambda>(v, p).
     bindR (dec_many n data p) (\<lambda>(vs, q). Inr (v # vs, q)))"

lemma dec_many_enc:
  "list_all ok vs \<Longrightarrow> drop pos data = concat (map enc vs) @ rest \<Longrightarrow>
     dec_many (length vs) data pos = Inr (vs, pos + length (concat (map enc vs)))"
proof (induction vs arbitrary: pos)
  case (Cons v vs)
  from Cons.prems have d: "drop pos data = enc v @ concat (map enc vs) @ rest" by simp
  have "drop (pos + length (enc v)) data = concat (map enc vs) @ rest"
    by (rule drop_cursor [OF d])
  with Cons dec_enc [OF _ d] show ?case by (simp add: add.assoc)
qed simp

end

section \<open>Fixed-width fields\<close>

definition read_bytes :: "nat \<Rightarrow> exn \<Rightarrow> bytes \<Rightarrow> nat \<Rightarrow> (bytes \<times> nat) result" where
  "read_bytes n e data pos = (if pos + n > length data then Inl e else Inr (slice data pos (pos + n), pos + n))"

definition read_le :: "nat \<Rightarrow> exn \<Rightarrow> bytes \<Rightarrow> nat \<Rightarrow> (nat \<times> nat) result" where
  "read_le n e data pos = (if pos + n > length data then Inl e else Inr (le_val (slice data pos (pos + n)), pos + n))"

lemma cursor_room: "drop p xs = ys @ zs \<Longrightarrow> p + length ys \<le> length xs \<or> ys = []"
  by (cases "ys = []") (auto dest: cursor_length)

lemma slice_cursor [codec_simps]: "drop p xs = ys @ zs \<Longrightarrow> slice xs p (p + length ys) = ys"
  by (simp add: slice_def)

lemma nth_cursor [codec_simps]: "drop p xs = y # zs \<Longrightarrow> xs ! p = y"
  by (metis drop_eq_Nil2 hd_drop_conv_nth leI list.distinct(1) list.sel(1))

lemma length_cursor [codec_simps]: "drop p xs = y # zs \<Longrightarrow> p < length xs"
  by (metis drop_eq_Nil2 leI list.distinct(1))

interpretation raw32: byte_codec "\<lambda>b. b" "read_bytes 32 e" "\<lambda>b. length b = 32" for e
proof
  fix v :: bytes and pos data rest
  assume a: "length v = 32" "drop pos data = v @ rest"
  then have "v \<noteq> []" by auto
  then have "pos + 32 \<le> length data" using cursor_length [OF a(2)] a(1) by simp
  with a slice_cursor [OF a(2)] show "read_bytes 32 e data pos = Inr (v, pos + length v)"
    by (simp add: read_bytes_def)
qed

interpretation le4: byte_codec "le_bytes 4" "read_le 4 e" "\<lambda>v. v < 2 ^ 32" for e
proof
  fix v :: nat and pos data rest
  assume a: "v < 2 ^ 32" "drop pos data = le_bytes 4 v @ rest"
  have "le_bytes 4 v \<noteq> []" by (metis length_le_bytes list.size(3) numeral_eq_iff zero_neq_numeral)
  then have "pos + 4 \<le> length data" using cursor_length [OF a(2)] by simp
  moreover have "slice data pos (pos + 4) = le_bytes 4 v" using slice_cursor [OF a(2)] by simp
  ultimately show "read_le 4 e data pos = Inr (v, pos + length (le_bytes 4 v))"
    using a(1) by (simp add: read_le_def)
qed

section \<open>Varints\<close>

fun write_varint :: "nat \<Rightarrow> bytes" where
  "write_varint v =
     (if v div 128 \<noteq> 0 then word_of_nat (v mod 128 + 128) # write_varint (v div 128)
      else [word_of_nat (v mod 128)])"

declare write_varint.simps [simp del]

text \<open>The entry point: Python integers are signed.\<close>

definition write_varint_checked :: "int \<Rightarrow> bytes result" where
  "write_varint_checked v = (if v < 0 then Inl (ValueError ''negative varint'') else Inr (write_varint (nat v)))"

text \<open>The loop over the ten positions; the bits of each group are above those read before, so
  the bitwise or of the code is a sum.\<close>

fun read_groups :: "nat \<Rightarrow> bytes \<Rightarrow> nat \<Rightarrow> nat \<Rightarrow> nat \<Rightarrow> (nat \<times> nat) result" where
  "read_groups 0 data pos shift v = Inl (ValueError ''varint too long'')"
| "read_groups (Suc k) data pos shift v =
     (if pos \<ge> length data then Inl (ValueError ''truncated varint'')
      else (let b = unat (data ! pos); v' = v + b mod 128 * 2 ^ shift in
            if b < 128 then Inr (v', pos + 1) else read_groups k data (pos + 1) (shift + 7) v'))"

definition read_varint :: "bytes \<Rightarrow> nat \<Rightarrow> (nat \<times> nat) result" where
  "read_varint data pos = read_groups 10 data pos 0 0"

lemma write_varint_nonempty [simp]: "write_varint v \<noteq> []"
  by (subst write_varint.simps) simp

lemma unat_small_byte: "n < 256 \<Longrightarrow> unat (word_of_nat n :: byte) = n"
  by (simp add: unat_of_nat)

lemma read_groups_write:
  "v < 2 ^ (7 * k) \<Longrightarrow> 0 < k \<Longrightarrow> drop pos data = write_varint v @ rest \<Longrightarrow>
     read_groups k data pos shift acc = Inr (acc + v * 2 ^ shift, pos + length (write_varint v))"
proof (induction k arbitrary: v pos shift acc)
  case (Suc k)
  show ?case
  proof (cases "v div 128 = 0")
    case True
    then have v: "v < 128" by auto
    then have w: "write_varint v = [word_of_nat v]" by (subst write_varint.simps) simp
    with Suc.prems(3) have d: "drop pos data = word_of_nat v # rest" by simp
    from v show ?thesis
      using length_cursor [OF d] nth_cursor [OF d] unat_small_byte [of v] by (simp add: w)
  next
    case False
    let ?b = "v mod 128 + 128"
    have w: "write_varint v = word_of_nat ?b # write_varint (v div 128)"
      using False by (subst write_varint.simps) simp
    with Suc.prems(3) have d: "drop pos data = word_of_nat ?b # write_varint (v div 128) @ rest" by simp
    have u: "unat (word_of_nat ?b :: byte) = ?b" by (rule unat_small_byte) simp
    have d': "drop (pos + 1) data = write_varint (v div 128) @ rest"
      using drop_cursor [of pos data "[word_of_nat ?b]" "write_varint (v div 128) @ rest"] d by simp
    have lt: "v div 128 < 2 ^ (7 * k)"
      using Suc.prems(1) by (simp add: power_add less_mult_imp_div_less mult.commute)
    have k: "0 < k"
    proof (rule ccontr)
      assume "\<not> 0 < k" then show False using lt False by simp
    qed
    have "read_groups (Suc k) data pos shift acc =
        read_groups k data (pos + 1) (shift + 7) (acc + v mod 128 * 2 ^ shift)"
      using length_cursor [OF d] nth_cursor [OF d] u by (simp add: Let_def)
    also have "\<dots> = Inr (acc + v mod 128 * 2 ^ shift + v div 128 * 2 ^ (shift + 7), pos + 1 + length (write_varint (v div 128)))"
      by (rule Suc.IH [OF lt k d'])
    also have "acc + v mod 128 * 2 ^ shift + v div 128 * 2 ^ (shift + 7) = acc + v * 2 ^ shift"
    proof -
      have "v * 2 ^ shift = (v mod 128 + v div 128 * 128) * 2 ^ shift"
        by (simp only: mod_div_mult_eq)
      also have "\<dots> = v mod 128 * 2 ^ shift + v div 128 * 2 ^ (shift + 7)"
        by (simp only: distrib_right power_add mult.assoc) simp
      finally show ?thesis by simp
    qed
    finally show ?thesis by (simp add: w)
  qed
qed simp

interpretation varint: byte_codec write_varint read_varint "\<lambda>v. v < 2 ^ 70"
proof
  fix v pos data rest
  assume "v < (2::nat) ^ 70" "drop pos data = write_varint v @ rest"
  then show "read_varint data pos = Inr (v, pos + length (write_varint v))"
    unfolding read_varint_def using read_groups_write [of v 10 pos data rest 0 0] by simp
qed

lemma read_groups_progress:
  "read_groups k data pos shift v = Inr (x, p) \<Longrightarrow> pos < p \<and> p \<le> length data \<and> p \<le> pos + k"
  by (induction k data pos shift v rule: read_groups.induct) (force simp: Let_def split: if_splits)+

lemma read_varint_progress: "read_varint data pos = Inr (x, p) \<Longrightarrow> pos < p \<and> p \<le> length data \<and> p \<le> pos + 10"
  unfolding read_varint_def by (rule read_groups_progress)

lemma read_groups_bound:
  "read_groups k data pos shift v = Inr (x, p) \<Longrightarrow> v < 2 ^ shift \<Longrightarrow> x < 2 ^ (shift + 7 * k)"
proof (induction k data pos shift v rule: read_groups.induct)
  case (2 k data pos shift v)
  let ?b = "unat (data ! pos)" and ?v = "v + unat (data ! pos) mod 128 * 2 ^ shift"
  have "?b mod 128 \<le> 127" by simp
  then have "?b mod 128 * 2 ^ shift \<le> 127 * 2 ^ shift" by (rule mult_le_mono1)
  moreover have "2 ^ (shift + 7) = 128 * (2::nat) ^ shift" by (simp add: power_add)
  ultimately have v: "?v < 2 ^ (shift + 7)" using 2(3) by linarith
  show ?case
  proof (cases "?b < 128")
    case True
    then have "x = ?v" using 2(2) by (auto simp: Let_def split: if_splits)
    moreover have "(2::nat) ^ (shift + 7) \<le> 2 ^ (shift + 7 * Suc k)" by (rule power_increasing) simp_all
    ultimately show ?thesis using v by linarith
  next
    case False
    then show ?thesis using 2(1) [OF _ refl refl False _ v] 2(2)
      by (auto simp: Let_def add.assoc split: if_splits)
  qed
qed simp

lemma read_varint_bound: "read_varint data pos = Inr (x, p) \<Longrightarrow> x < 2 ^ 70"
  unfolding read_varint_def using read_groups_bound [of 10 data pos 0 0 x p] by simp

lemma length_write_varint: "v < 2 ^ (7 * k) \<Longrightarrow> 0 < k \<Longrightarrow> length (write_varint v) \<le> k"
proof (induction k arbitrary: v)
  case (Suc k)
  show ?case
  proof (cases "v div 128 = 0")
    case True
    then show ?thesis by (subst write_varint.simps) simp
  next
    case False
    have lt: "v div 128 < 2 ^ (7 * k)"
      using Suc.prems(1) by (simp add: power_add less_mult_imp_div_less mult.commute)
    with False have "0 < k" by (cases k) auto
    with Suc.IH [OF lt] False show ?thesis by (subst write_varint.simps) simp
  qed
qed simp

lemma read_varint_error:
  "read_varint data pos = Inl e \<Longrightarrow>
     e = ValueError ''truncated varint'' \<or> e = ValueError ''varint too long''"
proof -
  have "read_groups k data pos shift v = Inl e \<Longrightarrow>
     e = ValueError ''truncated varint'' \<or> e = ValueError ''varint too long''" for k shift v
    by (induction k data pos shift v rule: read_groups.induct) (auto simp: Let_def split: if_splits)
  then show "read_varint data pos = Inl e \<Longrightarrow> ?thesis" by (simp add: read_varint_def)
qed

text \<open>Every value below $2^{70}$ written as a varint is read back, with the cursor right after it,
  from any position of any data that holds its bytes; nothing else is read from those bytes.\<close>

theorem varint_roundtrip:
  assumes "v < 2 ^ 70"
  shows "read_varint (pre @ write_varint v @ rest) (length pre) = Inr (v, length pre + length (write_varint v))
     \<and> length (write_varint v) \<le> 10"
  using assms varint.dec_enc [of v "length pre" "pre @ write_varint v @ rest" rest] length_write_varint [of v 10]
  by simp

lemma varint_roundtrip_witness:
  "read_varint ([1] @ write_varint 300 @ [9]) 1 = Inr (300, 3)"
proof -
  have "read_varint ([1] @ write_varint 300 @ [9]) (length [1::byte]) =
      Inr (300, length [1::byte] + length (write_varint 300))"
    using varint_roundtrip [of 300 "[1]" "[9]"] by simp
  moreover have "length (write_varint 300) = 2" by (simp add: write_varint.simps)
  ultimately show ?thesis by simp
qed

end
