(* ===== verification/Merkle.thy ===== *)
theory Merkle
  imports Keccak Varint
begin

text \<open>
  \<^verbatim>\<open>transpeer/anchor/merkle.py\<close>: P2Pool's merge-mining Merkle tree, its proofs, the auxiliary-chain
  slot rule and the merge-mining tag in \<^verbatim>\<open>tx_extra\<close>.
\<close>

section \<open>The tree\<close>

function pow2_above :: "nat \<Rightarrow> nat \<Rightarrow> nat" where
  "pow2_above cnt ct = (if 0 < cnt \<and> cnt \<le> ct then pow2_above (2 * cnt) ct else cnt)"
  by pat_completeness auto
termination by (relation "measure (\<lambda>(c, n). n + 1 - c)") auto

declare pow2_above.simps [simp del]

definition pow2_below :: "nat \<Rightarrow> nat" where
  "pow2_below ct = pow2_above 1 ct div 2"

definition pair_hash :: "bytes list \<Rightarrow> nat \<Rightarrow> bytes" where
  "pair_hash prev j = keccak256 (prev ! (2 * j) @ prev ! (2 * j + 1))"

text \<open>The levels above the first one, and the level that brings the leaves to a power of two.\<close>

function merkle_levels :: "nat \<Rightarrow> bytes list \<Rightarrow> bytes list list" where
  "merkle_levels cnt prev =
     (if cnt > 1 then (let level = map (pair_hash prev) [0..<cnt div 2] in level # merkle_levels (cnt div 2) level)
      else [])"
  by pat_completeness auto
termination by (relation "measure fst") auto

declare merkle_levels.simps [simp del]

definition first_level :: "nat \<Rightarrow> bytes list \<Rightarrow> bytes list" where
  "first_level k hashes =
     take k hashes @ map (\<lambda>j. keccak256 (hashes ! (k + 2 * j) @ hashes ! (k + 2 * j + 1))) [0..<(length hashes - k) div 2]"

definition merkle_tree :: "bytes list \<Rightarrow> bytes list list" where
  "merkle_tree hashes =
     (let ct = length hashes in
      if ct = 0 then []
      else if ct = 1 then [hashes]
      else if ct = 2 then [hashes, [keccak256 (hashes ! 0 @ hashes ! 1)]]
      else (let cnt = pow2_below ct; k = cnt * 2 - ct; level = first_level k hashes
            in hashes # level # merkle_levels cnt level))"

definition merkle_root :: "bytes list \<Rightarrow> bytes option" where
  "merkle_root hashes = (let tree = merkle_tree hashes in if tree \<noteq> [] then Some (last tree ! 0) else None)"

section \<open>Proofs\<close>

definition sibling_index :: "nat \<Rightarrow> nat" where
  "sibling_index i = (if even i then i + 1 else i - 1)"

function proof_loop :: "bytes list list \<Rightarrow> nat \<Rightarrow> nat \<Rightarrow> nat \<Rightarrow> bytes list \<Rightarrow> nat \<Rightarrow> (bytes list \<times> nat) option" where
  "proof_loop tree cnt i index acc path =
     (if cnt \<ge> 2 then
        (let j = sibling_index index in
         if i \<ge> length tree \<or> j \<ge> length (tree ! i) then None
         else proof_loop tree (cnt div 2) (i + 1) (index div 2) (acc @ [tree ! i ! j]) (2 * path + index mod 2))
      else Some (acc, path))"
  by pat_completeness auto
termination by (relation "measure (\<lambda>(t, c, r). c)") auto

declare proof_loop.simps [simp del]

definition index_of :: "'a \<Rightarrow> 'a list \<Rightarrow> nat option" where
  "index_of x xs = (case filter (\<lambda>i. xs ! i = x) [0..<length xs] of [] \<Rightarrow> None | i # _ \<Rightarrow> Some i)"

definition merkle_proof :: "bytes list list \<Rightarrow> bytes \<Rightarrow> (bytes list \<times> nat) option" where
  "merkle_proof tree leaf =
     (if tree = [] then None
      else (let hashes = tree ! 0; ct = length hashes in
        case index_of leaf hashes of
          None \<Rightarrow> None
        | Some index \<Rightarrow>
            if ct = 1 then Some ([], 0)
            else if ct = 2 then Some ([hashes ! sibling_index index], index)
            else (let cnt = pow2_below ct; k = cnt * 2 - ct in
              if index \<ge> k then
                (let i = index - k; j = sibling_index i + k in
                 if j \<ge> ct then None
                 else proof_loop tree cnt 1 (i div 2 + k) [hashes ! j] (i mod 2))
              else proof_loop tree cnt 1 index [] 0)))"

definition verify_step :: "nat \<Rightarrow> nat \<Rightarrow> nat \<times> bytes \<Rightarrow> bytes \<Rightarrow> bytes" where
  "verify_step depth path ds h =
     (case ds of (d, sibling) \<Rightarrow>
        if odd (path div 2 ^ (depth - d - 1)) then keccak256 (sibling @ h) else keccak256 (h @ sibling))"

definition proof_hash :: "bytes \<Rightarrow> bytes list \<Rightarrow> nat \<Rightarrow> bytes" where
  "proof_hash leaf pf path = fold (verify_step (length pf) path) (enumerate 0 pf) leaf"

definition verify_merkle_proof :: "bytes \<Rightarrow> bytes list \<Rightarrow> nat \<Rightarrow> bytes \<Rightarrow> bool" where
  "verify_merkle_proof leaf pf path root = (proof_hash leaf pf path = root)"

section \<open>Positions and slots\<close>

function depth_for :: "nat \<Rightarrow> nat \<Rightarrow> nat \<Rightarrow> nat \<times> nat" where
  "depth_for k depth ct = (if 0 < k \<and> k < ct then depth_for (2 * k) (depth + 1) ct else (k, depth))"
  by pat_completeness auto
termination by (relation "measure (\<lambda>(k, d, n). n - k)") auto

declare depth_for.simps [simp del]

primrec take_bits :: "nat \<Rightarrow> nat \<Rightarrow> nat \<Rightarrow> nat \<times> nat" where
  "take_bits 0 pos path = (pos, path)"
| "take_bits (Suc n) pos path = take_bits n (2 * pos + path mod 2) (path div 2)"

definition position_from_path :: "nat \<Rightarrow> nat \<Rightarrow> nat" where
  "position_from_path ct path =
     (if ct \<le> 1 then 0
      else (let (k2, depth) = depth_for 1 0 ct; k = k2 - ct;
                (pos, rest) = take_bits (depth - 1) 0 path
            in if pos < k then pos else 2 * (pos - k) + rest mod 2 + k))"

definition aux_slot :: "bytes \<Rightarrow> nat \<Rightarrow> nat \<Rightarrow> nat" where
  "aux_slot chain_id nonce n =
     (if n \<le> 1 then 0
      else le_val (take 4 (sha256 (chain_id @ le_bytes 4 nonce @ [0x6d]))) mod n)"

definition slots_distinct :: "bytes list \<Rightarrow> nat \<Rightarrow> bool" where
  "slots_distinct ids nonce = (card (set (map (\<lambda>c. aux_slot c nonce (length ids)) ids)) = length ids)"

function find_nonce_from :: "bytes list \<Rightarrow> nat \<Rightarrow> nat result" where
  "find_nonce_from ids nonce =
     (if nonce \<ge> 2 ^ 32 then Inl (ValueError ''no nonce found'')
      else if slots_distinct ids nonce then Inr nonce
      else find_nonce_from ids (nonce + 1))"
  by pat_completeness auto
termination by (relation "measure (\<lambda>(ids, n). 2 ^ 32 - n)") auto

declare find_nonce_from.simps [simp del]

definition find_aux_nonce :: "bytes list \<Rightarrow> nat result" where
  "find_aux_nonce ids = find_nonce_from ids 0"

section \<open>Tree parameters\<close>

primrec n_bits_from :: "nat \<Rightarrow> nat \<Rightarrow> nat \<Rightarrow> nat" where
  "n_bits_from 0 n_bits n = n_bits"
| "n_bits_from (Suc fuel) n_bits n = (if 2 ^ n_bits < n \<and> n_bits < 8 then n_bits_from fuel (n_bits + 1) n else n_bits)"

text \<open>Seven rounds are enough: the loop stops at eight bits.\<close>

definition n_bits_for :: "nat \<Rightarrow> nat" where
  "n_bits_for n = n_bits_from 7 1 n"

unbundle bit_operations_syntax

definition encode_tree_params :: "nat \<Rightarrow> nat \<Rightarrow> nat" where
  "encode_tree_params n_aux_chains nonce =
     (let n_bits = n_bits_for n_aux_chains in
      (n_bits - 1) OR push_bit 3 (n_aux_chains - 1) OR push_bit (3 + n_bits) nonce)"

definition decode_tree_params :: "nat \<Rightarrow> nat \<times> nat" where
  "decode_tree_params v =
     (let k = v mod 2 ^ 32; n = 1 + k mod 8;
          n_aux_chains = 1 + (k div 8) mod 2 ^ n;
          nonce = (v div 2 ^ (3 + n)) mod 2 ^ 32
      in (n_aux_chains, nonce))"


section \<open>The merge-mining tag\<close>

record mm_tag =
  mt_n_aux_chains :: nat
  mt_nonce :: nat
  mt_root :: bytes

definition MM_TAG :: byte where "MM_TAG = 3"

definition build_mm_tag :: "nat \<Rightarrow> nat \<Rightarrow> bytes \<Rightarrow> bytes" where
  "build_mm_tag n_aux_chains nonce root =
     (let params = write_varint (encode_tree_params n_aux_chains nonce) in
      [MM_TAG, word_of_nat (length params + 32)] @ params @ root)"

definition mm_field :: "bytes \<Rightarrow> nat \<Rightarrow> mm_tag option result" where
  "mm_field extra pos =
     bindR (read_varint extra pos) (\<lambda>(size, p0).
       let e = p0 + size in
       if e > length extra then Inr None
       else bindR (read_varint extra p0) (\<lambda>(params, p).
         if e \<noteq> p + 32 then Inr None
         else (let (n_aux, nonce) = decode_tree_params params in
               Inr (Some \<lparr> mt_n_aux_chains = n_aux, mt_nonce = nonce, mt_root = slice extra p e \<rparr>))))"

text \<open>One round of the walk, from the position after the type byte: either the walk goes on
  from a later position or it ends with a result.\<close>

definition walk_field :: "bytes \<Rightarrow> nat \<Rightarrow> byte \<Rightarrow> (nat + mm_tag option) result" where
  "walk_field extra pos t =
     (if t = 0 then Inr (Inl pos)
      else if t = 1 then Inr (if pos + 32 > length extra then Inr None else Inl (pos + 32))
      else if t = 2 then bindR (read_varint extra pos) (\<lambda>(n, p).
             Inr (if p + n > length extra then Inr None else Inl (p + n)))
      else if t = 4 then bindR (read_varint extra pos) (\<lambda>(n, p).
             Inr (if p + 32 * n > length extra then Inr None else Inl (p + 32 * n)))
      else if t = MM_TAG then bindR (mm_field extra pos) (\<lambda>r. Inr (Inr r))
      else Inr (Inr None))"

lemma walk_field_progress: "walk_field extra pos t = Inr (Inl p) \<Longrightarrow> pos \<le> p"
  by (auto simp: walk_field_def bindR_Inr_conv split: if_splits prod.splits dest!: read_varint_progress)

function walk_extra :: "bytes \<Rightarrow> nat \<Rightarrow> mm_tag option" where
  "walk_extra extra pos =
     (if pos \<ge> length extra then None
      else (case walk_field extra (pos + 1) (extra ! pos) of
              Inl e \<Rightarrow> None
            | Inr (Inl p) \<Rightarrow> walk_extra extra p
            | Inr (Inr r) \<Rightarrow> r))"
  by pat_completeness auto
termination by (relation "measure (\<lambda>(x, p). length x - p)") (auto dest: walk_field_progress)

declare walk_extra.simps [simp del]

definition parse_tx_extra_mm_tag :: "bytes \<Rightarrow> mm_tag option" where
  "parse_tx_extra_mm_tag extra = walk_extra extra 0"


section \<open>Powers of two\<close>

lemma pow2_above_spec:
  "2 ^ a \<le> 2 * n \<Longrightarrow> \<exists>e. pow2_above (2 ^ a) n = 2 ^ e \<and> n < 2 ^ e \<and> 2 ^ e \<le> 2 * n"
proof (induction "n + 1 - 2 ^ a" arbitrary: a rule: less_induct)
  case less
  show ?case
  proof (cases "2 ^ a \<le> n")
    case True
    have "\<exists>e. pow2_above (2 ^ Suc a) n = 2 ^ e \<and> n < 2 ^ e \<and> 2 ^ e \<le> 2 * n"
    proof (rule less.hyps)
      have "(0::nat) < 2 ^ a" by simp
      then show "n + 1 - 2 ^ Suc a < n + 1 - 2 ^ a" using True unfolding power_Suc by linarith
      show "2 ^ Suc a \<le> 2 * n" using True by simp
    qed
    then show ?thesis using True by (subst pow2_above.simps) simp
  next
    case False
    then show ?thesis using less.prems by (subst pow2_above.simps) auto
  qed
qed

lemma pow2_below_spec:
  assumes "1 \<le> n"
  obtains d where "pow2_below n = 2 ^ d" "2 ^ d \<le> n" "n < 2 ^ Suc d"
proof -
  obtain e where e: "pow2_above 1 n = 2 ^ e" "n < 2 ^ e" "2 ^ e \<le> 2 * n"
    using pow2_above_spec [of 0 n] assms by auto
  with assms obtain d where "e = Suc d" by (cases e) auto
  with e that [of d] show thesis by (simp add: pow2_below_def)
qed

lemma depth_for_spec:
  "2 ^ a < 2 * n \<Longrightarrow> \<exists>e. depth_for (2 ^ a) a n = (2 ^ e, e) \<and> n \<le> 2 ^ e \<and> 2 ^ e < 2 * n"
proof (induction "n - 2 ^ a" arbitrary: a rule: less_induct)
  case less
  show ?case
  proof (cases "2 ^ a < n")
    case True
    have "\<exists>e. depth_for (2 ^ Suc a) (Suc a) n = (2 ^ e, e) \<and> n \<le> 2 ^ e \<and> 2 ^ e < 2 * n"
    proof (rule less.hyps)
      have "(0::nat) < 2 ^ a" by simp
      then show "n - 2 ^ Suc a < n - 2 ^ a" using True unfolding power_Suc by linarith
      show "2 ^ Suc a < 2 * n" using True by simp
    qed
    then show ?thesis using True by (subst depth_for.simps) simp
  next
    case False
    then show ?thesis using less.prems by (subst depth_for.simps) auto
  qed
qed

section \<open>Complete trees\<close>

primrec tree_top :: "nat \<Rightarrow> bytes list \<Rightarrow> bytes" where
  "tree_top 0 L = L ! 0"
| "tree_top (Suc d) L = tree_top d (map (pair_hash L) [0..<2 ^ d])"

primrec siblings :: "nat \<Rightarrow> bytes list \<Rightarrow> nat \<Rightarrow> bytes list" where
  "siblings 0 L i = []"
| "siblings (Suc d) L i = L ! sibling_index i # siblings d (map (pair_hash L) [0..<2 ^ d]) (i div 2)"

primrec push_path :: "nat \<Rightarrow> nat \<Rightarrow> nat \<Rightarrow> nat" where
  "push_path 0 i p = p"
| "push_path (Suc d) i p = push_path d (i div 2) (2 * p + i mod 2)"

lemma merkle_levels_Suc:
  "merkle_levels (2 ^ Suc d) L = (let l = map (pair_hash L) [0..<2 ^ d] in l # merkle_levels (2 ^ d) l)"
proof -
  have "(1::nat) < 2 ^ Suc d" by (rule one_less_power) simp_all
  then show ?thesis by (subst merkle_levels.simps) (simp add: Let_def)
qed

lemma merkle_levels_one: "merkle_levels 1 L = []"
  by (subst merkle_levels.simps) simp

lemma last_levels: "last (L # merkle_levels (2 ^ d) L) ! 0 = tree_top d L"
proof (induction d arbitrary: L)
  case (Suc d)
  then show ?case using Suc [of "map (pair_hash L) [0..<2 ^ d]"]
    by (simp only: merkle_levels_Suc Let_def tree_top.simps last.simps list.distinct if_False)
qed (simp add: merkle_levels_one [unfolded One_nat_def])

lemma sibling_index_bound: "i < 2 * n \<Longrightarrow> sibling_index i < 2 * n"
  by (auto simp: sibling_index_def elim!: evenE oddE)

lemma proof_loop_complete:
  "drop i0 tree = L # merkle_levels (2 ^ d) L \<Longrightarrow> length L = 2 ^ d \<Longrightarrow> i < 2 ^ d \<Longrightarrow>
     proof_loop tree (2 ^ d) i0 i acc p = Some (acc @ siblings d L i, push_path d i p)"
proof (induction d arbitrary: i0 L i acc p)
  case 0
  then show ?case by (subst proof_loop.simps) simp
next
  case (Suc d)
  let ?L = "map (pair_hash L) [0..<2 ^ d]"
  have d: "drop i0 tree = L # ?L # merkle_levels (2 ^ d) ?L"
    using Suc.prems(1) unfolding merkle_levels_Suc Let_def .
  then have i0: "i0 < length tree" "tree ! i0 = L"
    using length_cursor [OF d] nth_cursor [OF d] by simp_all
  have d': "drop (i0 + 1) tree = ?L # merkle_levels (2 ^ d) ?L"
    using drop_cursor [of i0 tree "[L]" "?L # merkle_levels (2 ^ d) ?L"] d by simp
  have f: "sibling_index i < length L" using Suc.prems sibling_index_bound [of i "2 ^ d"] by simp
  have "proof_loop tree (2 ^ Suc d) i0 i acc p =
      proof_loop tree (2 ^ d) (i0 + 1) (i div 2) (acc @ [L ! sibling_index i]) (2 * p + i mod 2)"
    using i0 f by (subst proof_loop.simps) (simp add: Let_def not_le)
  also have "\<dots> = Some ((acc @ [L ! sibling_index i]) @ siblings d ?L (i div 2), push_path d (i div 2) (2 * p + i mod 2))"
    by (rule Suc.IH [OF d']) (use Suc.prems in auto)
  finally show ?case by simp
qed

lemma push_path_div: "push_path d i p div 2 ^ d = p"
proof (induction d arbitrary: i p)
  case (Suc d)
  have "push_path (Suc d) i p div 2 ^ Suc d = push_path d (i div 2) (2 * p + i mod 2) div 2 ^ d div 2"
    by (simp only: push_path.simps power_Suc2 div_mult2_eq)
  then show ?case by (simp add: Suc)
qed simp

lemma length_siblings [simp]: "length (siblings d L i) = d"
  by (induction d arbitrary: L i) simp_all

lemma proof_hash_Nil [simp]: "proof_hash h [] path = h"
  by (simp add: proof_hash_def)

lemma proof_hash_Cons:
  "proof_hash h (s # ss) path =
     proof_hash (if odd (path div 2 ^ length ss) then keccak256 (s @ h) else keccak256 (h @ s)) ss path"
proof -
  have "fold (verify_step (Suc m) path) (enumerate (Suc j) ss) h = fold (verify_step m path) (enumerate j ss) h"
    for m j and h :: bytes
    by (induction ss arbitrary: j h) (simp_all add: verify_step_def)
  then show ?thesis by (simp add: proof_hash_def verify_step_def)
qed

lemma pair_hash_step:
  "(if odd i then keccak256 (L ! sibling_index i @ L ! i) else keccak256 (L ! i @ L ! sibling_index i)) = pair_hash L (i div 2)"
proof (cases "even i")
  case True
  then obtain j where "i = 2 * j" by (rule evenE)
  then show ?thesis by (simp add: sibling_index_def pair_hash_def)
next
  case False
  then obtain j where "i = 2 * j + 1" by (rule oddE)
  then show ?thesis by (simp add: sibling_index_def pair_hash_def)
qed

lemma siblings_verify:
  "length L = 2 ^ d \<Longrightarrow> i < 2 ^ d \<Longrightarrow> proof_hash (L ! i) (siblings d L i) (push_path d i p) = tree_top d L"
proof (induction d arbitrary: L i p)
  case (Suc d)
  let ?L = "map (pair_hash L) [0..<2 ^ d]"
  have "odd (push_path (Suc d) i p div 2 ^ d) = odd i"
    by (simp add: push_path_div)
  then have "proof_hash (L ! i) (siblings (Suc d) L i) (push_path (Suc d) i p) =
      proof_hash (pair_hash L (i div 2)) (siblings d ?L (i div 2)) (push_path (Suc d) i p)"
    by (simp only: siblings.simps proof_hash_Cons length_siblings pair_hash_step)
  moreover have "i div 2 < 2 ^ d" using Suc.prems by auto
  ultimately show ?case using Suc.IH [of ?L "i div 2" "2 * p + i mod 2"] by simp
qed simp

section \<open>Proofs of the general tree\<close>

lemma index_of_Some: "index_of x xs = Some i \<Longrightarrow> i < length xs \<and> xs ! i = x"
proof -
  assume "index_of x xs = Some i"
  then obtain r where "filter (\<lambda>i. xs ! i = x) [0..<length xs] = i # r"
    by (auto simp: index_of_def split: list.splits)
  then have "i \<in> set (filter (\<lambda>i. xs ! i = x) [0..<length xs])" by simp
  then show ?thesis by simp
qed

lemma index_of_None: "index_of x xs = None \<longleftrightarrow> x \<notin> set xs"
proof -
  have "index_of x xs = None \<longleftrightarrow> filter (\<lambda>i. xs ! i = x) [0..<length xs] = []"
    by (simp add: index_of_def split: list.split)
  then show ?thesis by (auto simp: filter_empty_conv in_set_conv_nth)
qed

lemma first_level_facts:
  assumes "2 ^ d \<le> length hs" "length hs < 2 ^ Suc d"
  defines "k \<equiv> 2 ^ d * 2 - length hs"
  shows "length (first_level k hs) = 2 ^ d" "k \<le> 2 ^ d" "k \<le> length hs" "even (length hs - k)"
    "\<And>i. i < k \<Longrightarrow> first_level k hs ! i = hs ! i"
    "\<And>j. k + 2 * j + 1 < length hs \<Longrightarrow>
       first_level k hs ! (k + j) = keccak256 (hs ! (k + 2 * j) @ hs ! (k + 2 * j + 1)) \<and> k + j < 2 ^ d"
proof -
  have sum: "k + length hs = 2 * 2 ^ d" using assms by (simp add: k_def)
  show k: "k \<le> 2 ^ d" "k \<le> length hs" using assms(1) sum by simp_all
  have diff: "length hs - k = 2 * (length hs - 2 ^ d)" using sum assms(1) by simp
  then show "even (length hs - k)" by simp
  have half: "(length hs - k) div 2 = length hs - 2 ^ d" using diff by simp
  show "length (first_level k hs) = 2 ^ d" using k sum assms(1) by (simp add: first_level_def half)
  show "first_level k hs ! i = hs ! i" if "i < k" for i
    using that k by (simp add: first_level_def nth_append)
  show "first_level k hs ! (k + j) = keccak256 (hs ! (k + 2 * j) @ hs ! (k + 2 * j + 1)) \<and> k + j < 2 ^ d"
    if "k + 2 * j + 1 < length hs" for j
    using that k sum half by (auto simp: first_level_def nth_append)
qed

text \<open>What a proof of a listed leaf is, on each shape of tree.\<close>

lemma merkle_tree_big:
  assumes "2 < length hs"
  obtains d where "pow2_below (length hs) = 2 ^ d" "0 < d" "2 ^ d \<le> length hs" "length hs < 2 ^ Suc d"
    "merkle_tree hs = hs # first_level (2 ^ d * 2 - length hs) hs #
       merkle_levels (2 ^ d) (first_level (2 ^ d * 2 - length hs) hs)"
    "merkle_root hs = Some (tree_top d (first_level (2 ^ d * 2 - length hs) hs))"
proof -
  from assms have "1 \<le> length hs" by simp
  then obtain d where d: "pow2_below (length hs) = 2 ^ d" "2 ^ d \<le> length hs" "length hs < 2 ^ Suc d"
    by (rule pow2_below_spec)
  have "0 < d"
  proof (rule ccontr)
    assume "\<not> 0 < d" then show False using d(3) assms by simp
  qed
  let ?l = "first_level (2 ^ d * 2 - length hs) hs"
  have t: "merkle_tree hs = hs # ?l # merkle_levels (2 ^ d) ?l"
    using assms by (auto simp: merkle_tree_def Let_def d(1))
  have "merkle_root hs = Some (tree_top d ?l)"
    using last_levels [of ?l d] by (simp add: merkle_root_def t)
  with that d \<open>0 < d\<close> t show thesis by blast
qed

lemma siblings_parts:
  assumes "2 < length hs" "pow2_below (length hs) = 2 ^ d" "2 ^ d \<le> length hs" "length hs < 2 ^ Suc d"
  defines "k \<equiv> 2 ^ d * 2 - length hs"
  defines "L \<equiv> first_level k hs"
  assumes tree: "merkle_tree hs = hs # L # merkle_levels (2 ^ d) L" and i: "index_of leaf hs = Some i"
  shows "merkle_proof (merkle_tree hs) leaf =
     (if i < k then Some (siblings d L i, push_path d i 0)
      else Some (hs ! (sibling_index (i - k) + k) # siblings d L ((i - k) div 2 + k), push_path d ((i - k) div 2 + k) ((i - k) mod 2)))"
    and "i < k \<Longrightarrow> i < 2 ^ d"
    and "k \<le> i \<Longrightarrow> (i - k) div 2 + k < 2 ^ d \<and> sibling_index (i - k) + k < length hs \<and>
          L ! ((i - k) div 2 + k) =
            (if odd ((i - k) mod 2) then keccak256 (hs ! (sibling_index (i - k) + k) @ hs ! i)
             else keccak256 (hs ! i @ hs ! (sibling_index (i - k) + k)))"
proof -
  note F = first_level_facts [OF assms(3,4), folded k_def, folded L_def]
  have il: "i < length hs" "hs ! i = leaf" using index_of_Some [OF i] by simp_all
  show lt: "i < 2 ^ d" if "i < k" using F(2) that by simp
  show big: "(i - k) div 2 + k < 2 ^ d \<and> sibling_index (i - k) + k < length hs \<and>
          L ! ((i - k) div 2 + k) =
            (if odd ((i - k) mod 2) then keccak256 (hs ! (sibling_index (i - k) + k) @ hs ! i)
             else keccak256 (hs ! i @ hs ! (sibling_index (i - k) + k)))" if "k \<le> i"
  proof -
    obtain m where m: "length hs - k = 2 * m" using F(4) by (rule evenE)
    define j where "j = (i - k) div 2"
    have "i - k < 2 * m" using il(1) that m by simp
    then have jm: "j < m" by (simp add: j_def)
    then have room: "k + 2 * j + 1 < length hs" using m F(3) by simp
    note L = F(6) [OF room]
    show ?thesis
    proof (cases "even (i - k)")
      case True
      then have "i - k = 2 * j" by (simp add: j_def)
      then have e: "i = k + 2 * j" "sibling_index (i - k) + k = k + 2 * j + 1" using that True by (simp_all add: sibling_index_def)
      show ?thesis using L room True unfolding j_def [symmetric] e(2) by (simp add: e(1) add.commute)
    next
      case False
      then have o: "i - k = 2 * j + 1" unfolding j_def using odd_two_times_div_two_succ [of "i - k"] by simp
      then have e: "i = k + 2 * j + 1" "sibling_index (i - k) + k = k + 2 * j" using that by (simp_all add: sibling_index_def)
      show ?thesis using L room False o unfolding j_def [symmetric] e(2) by (simp add: e(1) add.commute)
    qed
  qed
  have loop: "proof_loop (merkle_tree hs) (2 ^ d) 1 j acc p = Some (acc @ siblings d L j, push_path d j p)"
    if "j < 2 ^ d" for j acc p
    by (rule proof_loop_complete) (use that F(1) in \<open>simp_all add: tree\<close>)
  show "merkle_proof (merkle_tree hs) leaf =
     (if i < k then Some (siblings d L i, push_path d i 0)
      else Some (hs ! (sibling_index (i - k) + k) # siblings d L ((i - k) div 2 + k), push_path d ((i - k) div 2 + k) ((i - k) mod 2)))"
  proof (cases "i < k")
    case True
    with loop [OF lt [OF True]] assms(1) i show ?thesis
      by (simp add: merkle_proof_def Let_def tree assms(2) k_def [symmetric])
  next
    case False
    then have b: "k \<le> i" by simp
    with loop [OF big [OF b, THEN conjunct1]] big [OF b] assms(1) i show ?thesis
      by (simp add: merkle_proof_def Let_def tree assms(2) k_def [symmetric])
  qed
qed

lemma merkle_proof_verifies:
  assumes "leaf \<in> set hs"
  shows "\<exists>pf path root. merkle_proof (merkle_tree hs) leaf = Some (pf, path) \<and> merkle_root hs = Some root \<and>
     proof_hash leaf pf path = root"
proof -
  obtain i where i: "index_of leaf hs = Some i" using assms index_of_None [of leaf hs] by fastforce
  then have il: "i < length hs" "hs ! i = leaf" using index_of_Some [OF i] by simp_all
  consider "length hs = 1" | "length hs = 2" | "2 < length hs" using il by linarith
  then show ?thesis
  proof cases
    case 1
    then have "i = 0" using il by simp
    with 1 i il show ?thesis by (simp add: merkle_proof_def merkle_tree_def merkle_root_def)
  next
    case 2
    then have "i = 0 \<or> i = 1" using il by auto
    with 2 i il show ?thesis
      by (auto simp: merkle_proof_def merkle_tree_def merkle_root_def proof_hash_Cons sibling_index_def)
  next
    case 3
    from merkle_tree_big [OF 3] obtain d where d: "pow2_below (length hs) = 2 ^ d" "2 ^ d \<le> length hs" "length hs < 2 ^ Suc d"
      and t: "merkle_tree hs = hs # first_level (2 ^ d * 2 - length hs) hs #
         merkle_levels (2 ^ d) (first_level (2 ^ d * 2 - length hs) hs)"
      and r: "merkle_root hs = Some (tree_top d (first_level (2 ^ d * 2 - length hs) hs))" by blast
    define k where "k = 2 ^ d * 2 - length hs"
    define L where "L = first_level k hs"
    note S = siblings_parts [OF 3 d t i, folded k_def, folded L_def]
    note F = first_level_facts [OF d(2,3), folded k_def, folded L_def]
    show ?thesis
    proof (cases "i < k")
      case True
      then show ?thesis
        using S(1) siblings_verify [OF F(1) S(2) [OF True], of 0] F(5) [OF True] il(2) r
        by (simp add: k_def [symmetric] L_def [symmetric])
    next
      case False
      then have b: "k \<le> i" by simp
      note B = S(3) [OF b]
      have "proof_hash leaf (hs ! (sibling_index (i - k) + k) # siblings d L ((i - k) div 2 + k))
              (push_path d ((i - k) div 2 + k) ((i - k) mod 2)) = tree_top d L"
        using siblings_verify [OF F(1), of "(i - k) div 2 + k" "(i - k) mod 2"] B
        by (auto simp: proof_hash_Cons push_path_div il(2))
      then show ?thesis using S(1) False r by (simp add: k_def [symmetric] L_def [symmetric])
    qed
  qed
qed

section \<open>Positions\<close>

lemma take_bits_snoc:
  "take_bits (Suc n) pos q = (let (a, b) = take_bits n pos q in (2 * a + b mod 2, b div 2))"
proof (induction n arbitrary: pos q)
  case (Suc n)
  have "take_bits (Suc (Suc n)) pos q = take_bits (Suc n) (2 * pos + q mod 2) (q div 2)" by (rule take_bits.simps)
  also have "\<dots> = (let (a, b) = take_bits n (2 * pos + q mod 2) (q div 2) in (2 * a + b mod 2, b div 2))" by (rule Suc)
  finally show ?case by (simp only: take_bits.simps(2) [of n])
qed simp

lemma take_bits_push: "i < 2 ^ d \<Longrightarrow> take_bits d pos (push_path d i p) = (pos * 2 ^ d + i, p)"
proof (induction d arbitrary: i p)
  case (Suc d)
  have "i div 2 < 2 ^ d" using Suc.prems by auto
  then show ?case
    using Suc.IH [of "i div 2" "2 * p + i mod 2"] by (simp add: take_bits_snoc del: take_bits.simps)
qed simp

lemma position_of_proof:
  assumes "merkle_proof (merkle_tree hs) leaf = Some (pf, path)" "index_of leaf hs = Some i"
  shows "position_from_path (length hs) path = i"
proof -
  have il: "i < length hs" using index_of_Some [OF assms(2)] by simp
  consider "length hs = 1" | "length hs = 2" | "2 < length hs" using il by linarith
  then show ?thesis
  proof cases
    case 1
    with il show ?thesis by (simp add: position_from_path_def)
  next
    case 2
    have "depth_for 1 0 2 = (2, 1)" by (simp add: depth_for.simps)
    moreover have "path = i" using assms 2 by (simp add: merkle_proof_def merkle_tree_def)
    ultimately show ?thesis using 2 il by (simp add: position_from_path_def)
  next
    case 3
    from merkle_tree_big [OF 3] obtain d where d: "pow2_below (length hs) = 2 ^ d" "2 ^ d \<le> length hs" "length hs < 2 ^ Suc d"
      and "0 < d" and t: "merkle_tree hs = hs # first_level (2 ^ d * 2 - length hs) hs #
         merkle_levels (2 ^ d) (first_level (2 ^ d * 2 - length hs) hs)" by blast
    define k where "k = 2 ^ d * 2 - length hs"
    note S = siblings_parts [OF 3 d t assms(2), folded k_def]
    obtain e where e: "depth_for 1 0 (length hs) = (2 ^ e, e)" "length hs \<le> 2 ^ e" "2 ^ e < 2 * length hs"
      using depth_for_spec [of 0 "length hs"] 3 by auto
    show ?thesis
    proof (cases "length hs = 2 ^ d")
      case True
      then have "2 ^ d \<le> (2::nat) ^ e" "(2::nat) ^ e < 2 ^ Suc d" using e(2,3) by simp_all
      then have "d \<le> e" "e < Suc d"
        using power_le_imp_le_exp [of 2 d e] power_less_imp_less_exp [of 2 e "Suc d"] by simp_all
      then have ed: "e = d" by simp
      have "k = length hs" using True by (simp add: k_def)
      then have "path = push_path d i 0" using S(1) assms(1) il by simp
      moreover obtain d' where d': "d = Suc d'" using \<open>0 < d\<close> by (cases d) auto
      ultimately have "path = push_path d' (i div 2) (i mod 2)" by simp
      moreover have "i div 2 < 2 ^ d'" using il True d' by auto
      ultimately have "take_bits (d - 1) 0 path = (i div 2, i mod 2)" using take_bits_push d' by simp
      then show ?thesis using 3 e(1) ed True by (simp add: position_from_path_def)
    next
      case False
      then have "2 ^ d < length hs" using d(2) by simp
      then have a: "(2::nat) ^ d < 2 ^ e" using e(2) by linarith
      have b: "(2::nat) ^ e < 2 ^ Suc (Suc d)" using e(3) d(3) by simp
      have "d < e" by (rule power_less_imp_less_exp [OF _ a]) simp
      moreover have "e < Suc (Suc d)" by (rule power_less_imp_less_exp [OF _ b]) simp
      ultimately have ed: "e = Suc d" by simp
      have k: "2 ^ e - length hs = k" by (simp add: ed k_def)
      show ?thesis
      proof (cases "i < k")
        case True
        then have "path = push_path d i 0" using S(1) assms(1) by simp
        then have "take_bits (e - 1) 0 path = (i, 0)" using take_bits_push [OF S(2) [OF True]] ed by simp
        then show ?thesis using 3 e(1) True k by (simp add: position_from_path_def)
      next
        case False
        then have b: "k \<le> i" by simp
        have "path = push_path d ((i - k) div 2 + k) ((i - k) mod 2)" using S(1) assms(1) False by simp
        then have "take_bits (e - 1) 0 path = ((i - k) div 2 + k, (i - k) mod 2)"
          using take_bits_push S(3) [OF b] ed by simp
        then show ?thesis using 3 e(1) k b by (simp add: position_from_path_def)
      qed
    qed
  qed
qed

section \<open>Binding\<close>

definition keccak_collision :: "bool" where
  "keccak_collision \<longleftrightarrow> (\<exists>x y. x \<noteq> y \<and> length x = length y \<and> keccak256 x = keccak256 y)"

lemma proof_hash_binds:
  "length pf = length pf' \<Longrightarrow> list_all (\<lambda>h. length h = 32) pf \<Longrightarrow> list_all (\<lambda>h. length h = 32) pf' \<Longrightarrow>
     length leaf = 32 \<Longrightarrow> length leaf' = 32 \<Longrightarrow> proof_hash leaf pf path = proof_hash leaf' pf' path \<Longrightarrow>
     leaf = leaf' \<or> keccak_collision"
proof (induction pf pf' arbitrary: leaf leaf' rule: list_induct2)
  case (Cons s ss s' ss')
  let ?o = "odd (path div 2 ^ length ss)"
  define x where "x = (if ?o then s @ leaf else leaf @ s)"
  define x' where "x' = (if ?o then s' @ leaf' else leaf' @ s')"
  have "proof_hash (keccak256 x) ss path = proof_hash (keccak256 x') ss' path"
    using Cons.prems(5) Cons.hyps by (simp add: proof_hash_Cons x_def x'_def split: if_splits)
  then have "keccak256 x = keccak256 x' \<or> keccak_collision"
    using Cons.IH [of "keccak256 x" "keccak256 x'"] Cons.prems by simp
  moreover have "x = x' \<Longrightarrow> leaf = leaf'" "length x = length x'"
    using Cons.prems by (auto simp: x_def x'_def split: if_splits)
  ultimately show ?case unfolding keccak_collision_def by blast
qed simp

section \<open>Tree parameters round trip\<close>

unbundle bit_operations_syntax

lemma or_shift: "a < 2 ^ k \<Longrightarrow> a OR push_bit k b = a + 2 ^ k * (b::nat)"
proof -
  assume a: "a < 2 ^ k"
  have "\<not> bit a n" if "k \<le> n" for n
  proof -
    have "a < 2 ^ n" using a that by (meson less_le_trans one_le_numeral power_increasing)
    then show ?thesis by (simp add: bit_iff_odd)
  qed
  then have "a + push_bit k b = a OR push_bit k b"
    by (intro disjunctive_add) (metis bit_push_bit_iff)
  then show ?thesis by (simp add: push_bit_eq_mult mult.commute)
qed

lemma n_bits_for_spec: "1 \<le> n \<Longrightarrow> n \<le> 256 \<Longrightarrow> 1 \<le> n_bits_for n \<and> n_bits_for n \<le> 8 \<and> n \<le> 2 ^ n_bits_for n"
  by (auto simp: n_bits_for_def numeral_eq_Suc)

lemma encode_tree_params_sum:
  assumes "1 \<le> n" "n \<le> 256"
  shows "encode_tree_params n nonce = (n_bits_for n - 1) + 8 * ((n - 1) + 2 ^ n_bits_for n * nonce)"
proof -
  define b where "b = n_bits_for n"
  have B: "1 \<le> b" "b \<le> 8" "n \<le> 2 ^ b" using n_bits_for_spec [OF assms] by (simp_all add: b_def)
  have b1: "b - 1 < 2 ^ 3" using B by simp
  have n1: "n - 1 < 2 ^ b" using B assms by linarith
  have s: "(b - 1) + 8 * (n - 1) < 2 ^ (3 + b)"
  proof -
    have "8 * (n - 1) \<le> 8 * (2 ^ b - 1)" using n1 by simp
    moreover have "8 * (2 ^ b - 1) + 8 = (2::nat) ^ (3 + b)" by (simp add: power_add diff_mult_distrib2)
    moreover have "b - 1 < 8" using b1 by simp
    ultimately show ?thesis by linarith
  qed
  have "encode_tree_params n nonce = ((b - 1) OR push_bit 3 (n - 1)) OR push_bit (3 + b) nonce"
    by (simp only: encode_tree_params_def Let_def b_def or.assoc)
  also have "\<dots> = ((b - 1) + 8 * (n - 1)) OR push_bit (3 + b) nonce"
    by (simp only: or_shift [OF b1]) simp
  also have "\<dots> = ((b - 1) + 8 * (n - 1)) + 2 ^ (3 + b) * nonce"
    by (rule or_shift [OF s])
  finally show ?thesis by (simp add: b_def power_add algebra_simps)
qed


lemma decode_encode_params:
  assumes "1 \<le> n" "n \<le> 256" "nonce < 2 ^ 32"
  shows "decode_tree_params (encode_tree_params n nonce) = (n, nonce)" "encode_tree_params n nonce < 2 ^ 43"
proof -
  define b where "b = n_bits_for n"
  have B: "1 \<le> b" "b \<le> 8" "n \<le> 2 ^ b" using n_bits_for_spec [OF assms(1,2)] by (simp_all add: b_def)
  define v where "v = encode_tree_params n nonce"
  define w where "w = (n - 1) + 2 ^ b * nonce"
  have v: "v = (b - 1) + 8 * w"
    unfolding v_def b_def w_def by (rule encode_tree_params_sum [OF assms(1,2)])
  define c where "c = b - 1"
  have "c < 8" using B by (simp add: c_def)
  then have v8: "v div 8 = w" "v mod 8 = b - 1" unfolding v c_def [symmetric] by simp_all
  have n1: "n - 1 < 2 ^ b" using B assms by linarith
  have m8: "v mod 2 ^ 32 mod 8 = b - 1"
  proof -
    have "v mod 2 ^ 32 mod 8 = v mod 8" by (rule mod_mod_cancel) simp
    then show ?thesis by (simp add: v8)
  qed
  have "(8::nat) * 2 ^ b dvd 2 ^ 32"
  proof -
    have "(8::nat) * 2 ^ b = 2 ^ (3 + b)" by (simp add: power_add)
    also have "\<dots> dvd 2 ^ 32" by (rule le_imp_power_dvd) (use B in simp)
    finally show ?thesis .
  qed
  then have "v mod 2 ^ 32 mod (8 * 2 ^ b) = v mod (8 * 2 ^ b)" by (rule mod_mod_cancel)
  then have d8: "v mod 2 ^ 32 div 8 mod 2 ^ b = n - 1"
  proof -
    have "v mod 2 ^ 32 div 8 mod 2 ^ b = v mod 2 ^ 32 mod (8 * 2 ^ b) div 8"
      by (simp add: mod_mult2_eq)
    also have "\<dots> = v mod (8 * 2 ^ b) div 8" using \<open>v mod 2 ^ 32 mod (8 * 2 ^ b) = v mod (8 * 2 ^ b)\<close> by simp
    also have "\<dots> = v div 8 mod 2 ^ b" by (simp add: mod_mult2_eq)
    also have "v div 8 = (n - 1) + 2 ^ b * nonce" by (simp only: v8 w_def)
    finally show ?thesis using n1 by simp
  qed
  have hi: "v div 2 ^ (3 + b) = nonce"
  proof -
    have "v div 2 ^ (3 + b) = v div 8 div 2 ^ b" by (simp add: power_add div_mult2_eq)
    also have "v div 8 = (n - 1) + 2 ^ b * nonce" by (simp only: v8 w_def)
    finally show ?thesis using n1 by simp
  qed
  have b: "1 + (v mod 2 ^ 32 mod 8) = b" using B m8 by simp
  show "decode_tree_params (encode_tree_params n nonce) = (n, nonce)"
    unfolding v_def [symmetric] decode_tree_params_def Let_def b d8 hi using assms by simp
  have "v < 2 ^ 43"
  proof (rule ccontr)
    assume "\<not> v < 2 ^ 43"
    then have "2 ^ 43 div 2 ^ (3 + b) \<le> v div 2 ^ (3 + b)" by (intro div_le_mono) simp
    moreover have "(2::nat) ^ 43 div 2 ^ (3 + b) = 2 ^ (43 - (3 + b))"
      using B by (subst power_diff) simp_all
    moreover have "(2::nat) ^ 32 \<le> 2 ^ (43 - (3 + b))" using B by (intro power_increasing) simp_all
    ultimately show False using hi assms(3) by simp
  qed
  then show "encode_tree_params n nonce < 2 ^ 43" by (simp add: v_def)
qed

section \<open>The tag round trip\<close>

lemma write_varint_small: "n < 128 \<Longrightarrow> write_varint n = [word_of_nat n]"
  by (subst write_varint.simps) simp

lemma mm_field_build:
  assumes "1 \<le> n" "n \<le> 256" "nonce < 2 ^ 32" "length root = 32"
    and d: "drop pos extra = build_mm_tag n nonce root @ rest"
  shows "mm_field extra (pos + 1) = Inr (Some \<lparr> mt_n_aux_chains = n, mt_nonce = nonce, mt_root = root \<rparr>)"
    "extra ! pos = MM_TAG" "pos < length extra"
proof -
  note P = decode_encode_params [OF assms(1-3)]
  define ps where "ps = write_varint (encode_tree_params n nonce)"
  have lp: "length ps \<le> 7"
    unfolding ps_def by (rule length_write_varint) (use P(2) in simp_all)
  have d: "drop pos extra = MM_TAG # write_varint (length ps + 32) @ ps @ root @ rest"
    using d lp by (simp add: build_mm_tag_def Let_def ps_def [symmetric] write_varint_small)
  show "extra ! pos = MM_TAG" "pos < length extra" using nth_cursor [OF d] length_cursor [OF d] .
  have d1: "drop (pos + 1) extra = write_varint (length ps + 32) @ ps @ root @ rest"
    using drop_cursor [of pos extra "[MM_TAG]"] d by simp
  have ok: "length ps + 32 < 2 ^ 70" using lp by simp
  have r1: "read_varint extra (pos + 1) = Inr (length ps + 32, pos + 2)"
    using varint.dec_enc [OF ok d1] lp by (simp add: write_varint_small)
  have d2: "drop (pos + 2) extra = ps @ root @ rest"
    using drop_cursor [OF d1] lp by (simp add: write_varint_small)
  have ok2: "encode_tree_params n nonce < 2 ^ 70" using P(2) by simp
  have r2: "read_varint extra (pos + 2) = Inr (encode_tree_params n nonce, pos + 2 + length ps)"
    using varint.dec_enc [OF ok2 d2 [unfolded ps_def]] by (simp add: ps_def)
  have d3: "drop (pos + 2 + length ps) extra = root @ rest" by (rule drop_cursor [OF d2])
  have "root \<noteq> []" using assms(4) by auto
  then have len: "pos + 2 + length ps + 32 \<le> length extra"
    using cursor_length [OF d3] assms(4) by simp
  have sl: "slice extra (pos + 2 + length ps) (pos + 2 + length ps + 32) = root"
    using slice_cursor [OF d3] assms(4) by simp
  show "mm_field extra (pos + 1) = Inr (Some \<lparr> mt_n_aux_chains = n, mt_nonce = nonce, mt_root = root \<rparr>)"
  proof -
    have e: "pos + 2 + (length ps + 32) = pos + 2 + length ps + 32" by simp
    show ?thesis
      unfolding mm_field_def r1 bindR_simps prod.case Let_def e r2 P(1) using len sl by simp
  qed
qed

lemma walk_extra_tag:
  assumes "1 \<le> n" "n \<le> 256" "nonce < 2 ^ 32" "length root = 32"
    and d: "drop pos extra = build_mm_tag n nonce root @ rest"
  shows "walk_extra extra pos = Some \<lparr> mt_n_aux_chains = n, mt_nonce = nonce, mt_root = root \<rparr>"
  using mm_field_build [OF assms] by (subst walk_extra.simps) (simp add: walk_field_def MM_TAG_def)

lemma walk_extra_pubkey:
  assumes "drop pos extra = 1 # key @ rest" "length key = 32" "rest \<noteq> []"
  shows "walk_extra extra pos = walk_extra extra (pos + 33)"
proof -
  have "drop pos extra = (1 # key) @ rest" using assms by simp
  from drop_cursor [OF this] assms have "drop (pos + 33) extra = rest" by simp
  then have "pos + 33 < length extra" using assms(3) by (metis drop_eq_Nil2 leI)
  then show ?thesis
    using nth_cursor [OF assms(1)] by (subst walk_extra.simps) (simp add: walk_field_def add.commute)
qed

lemma walk_extra_nonce:
  assumes d: "drop pos extra = 2 # write_varint (length xn) @ xn @ rest" and "length xn < 2 ^ 70" "rest \<noteq> []"
  shows "walk_extra extra pos = walk_extra extra (pos + 1 + length (write_varint (length xn)) + length xn)"
proof -
  have d1: "drop (pos + 1) extra = write_varint (length xn) @ xn @ rest"
    using drop_cursor [of pos extra "[2]"] d by simp
  note r = varint.dec_enc [OF assms(2) d1]
  have "drop (pos + 1 + length (write_varint (length xn)) + length xn) extra = rest"
    by (rule drop_cursor [OF drop_cursor [OF d1]])
  then have "pos + 1 + length (write_varint (length xn)) + length xn < length extra"
    using assms(3) by (metis drop_eq_Nil2 leI)
  then show ?thesis
    using nth_cursor [OF d] length_cursor [OF d] r by (subst walk_extra.simps) (simp add: walk_field_def)
qed

section \<open>Guarantees\<close>

text \<open>C10. For every non-empty list of leaves and every leaf of it, the tree yields a proof that verifies against
  the root, and from the proof's path the position of the leaf's first occurrence is recovered; a
  leaf that is not listed has no proof.\<close>

theorem merkle_proof_complete:
  assumes "leaf \<in> set hashes"
  shows "\<exists>pf path root i. merkle_proof (merkle_tree hashes) leaf = Some (pf, path) \<and>
     merkle_root hashes = Some root \<and> verify_merkle_proof leaf pf path root \<and>
     position_from_path (length hashes) path = i \<and> i < length hashes \<and> hashes ! i = leaf"
proof -
  obtain pf path root where p: "merkle_proof (merkle_tree hashes) leaf = Some (pf, path)" "merkle_root hashes = Some root"
    "proof_hash leaf pf path = root"
    using merkle_proof_verifies [OF assms] by blast
  obtain i where i: "index_of leaf hashes = Some i" using assms index_of_None [of leaf hashes] by fastforce
  show ?thesis
    using p position_of_proof [OF p(1) i] index_of_Some [OF i] by (auto simp: verify_merkle_proof_def)
qed

lemma merkle_proof_complete_witness:
  "let hs = [replicate 32 1, replicate 32 2, replicate 32 (3 :: byte)] in
   \<exists>pf path root i. merkle_proof (merkle_tree hs) (replicate 32 2) = Some (pf, path) \<and>
     merkle_root hs = Some root \<and> verify_merkle_proof (replicate 32 2) pf path root \<and>
     position_from_path (length hs) path = i \<and> i < length hs \<and> hs ! i = replicate 32 2"
  unfolding Let_def by (rule merkle_proof_complete) simp



text \<open>The merge-mining tag a miner writes is the one a reader finds: after the public key and the
  extra nonce that P2Pool puts first, and whatever follows, \<^verbatim>\<open>parse_tx_extra_mm_tag\<close> returns the chain
  count, nonce and root that \<^verbatim>\<open>build_mm_tag\<close> was given, for up to 256 chains and 32-bit nonces.\<close>

theorem mm_tag_roundtrip:
  assumes "1 \<le> n" "n \<le> 256" "nonce < 2 ^ 32" "length root = 32" "length key = 32" "length xn < 2 ^ 70"
  shows "parse_tx_extra_mm_tag (1 # key @ 2 # write_varint (length xn) @ xn @ build_mm_tag n nonce root @ rest) =
     Some \<lparr> mt_n_aux_chains = n, mt_nonce = nonce, mt_root = root \<rparr>"
proof -
  define tag where "tag = build_mm_tag n nonce root @ rest"
  define ex where "ex = 1 # key @ 2 # write_varint (length xn) @ xn @ tag"
  have ne: "tag \<noteq> []" by (simp add: tag_def build_mm_tag_def Let_def)
  have d0: "drop 0 ex = 1 # key @ (2 # write_varint (length xn) @ xn @ tag)" by (simp add: ex_def)
  have d1: "drop 33 ex = 2 # write_varint (length xn) @ xn @ tag"
    using assms(5) by (simp add: ex_def)
  have s1: "walk_extra ex 0 = walk_extra ex 33"
    using walk_extra_pubkey [OF d0 assms(5)] by simp
  let ?p = "33 + 1 + length (write_varint (length xn)) + length xn"
  have s2: "walk_extra ex 33 = walk_extra ex ?p" by (rule walk_extra_nonce [OF d1 assms(6) ne])
  have "drop 33 ex = (2 # write_varint (length xn) @ xn) @ tag" using d1 by simp
  from drop_cursor [OF this] have "drop ?p ex = build_mm_tag n nonce root @ rest"
    by (simp add: tag_def add.assoc)
  from walk_extra_tag [OF assms(1-4) this] s1 s2 show ?thesis
    by (simp add: parse_tx_extra_mm_tag_def ex_def tag_def)
qed

lemma mm_tag_roundtrip_witness:
  "parse_tx_extra_mm_tag (1 # replicate 32 9 @ 2 # write_varint 1 @ [7] @ build_mm_tag 3 77 (replicate 32 5)) =
     Some \<lparr> mt_n_aux_chains = 3, mt_nonce = 77, mt_root = replicate 32 5 \<rparr>"
  using mm_tag_roundtrip [of 3 77 "replicate 32 5" "replicate 32 9" "[7]" "[]"] by simp

end
