(* ===== verification/Monero.thy ===== *)
theory Monero
  imports Merkle
begin

text \<open>
  \<^verbatim>\<open>transpeer/anchor/monero.py\<close>: the block and hashing blobs, the transaction tree hash, the block id,
  the RandomX seed height and the difficulty rule.
\<close>

section \<open>Block blobs\<close>

definition TXIN_GEN :: byte where "TXIN_GEN = 0xFF"
definition TXOUT_KEY :: byte where "TXOUT_KEY = 2"
definition TXOUT_TAGGED_KEY :: byte where "TXOUT_TAGGED_KEY = 3"

record block_head =
  bh_major :: nat
  bh_minor :: nat
  bh_timestamp :: nat
  bh_prev_id :: bytes
  bh_nonce :: nat
  bh_height :: nat
  bh_tx_extra :: bytes
  bh_n_tx_hashes :: nat
  bh_miner_tx :: bytes
  bh_tx_hashes :: "bytes list"

definition need :: "bytes \<Rightarrow> nat \<Rightarrow> nat \<Rightarrow> unit result" where
  "need blob pos n = (if pos + n > length blob then Inl (ValueError ''truncated block blob'') else Inr ())"

fun skip_outputs :: "nat \<Rightarrow> bytes \<Rightarrow> nat \<Rightarrow> nat result" where
  "skip_outputs 0 blob pos = Inr pos"
| "skip_outputs (Suc n) blob pos =
     bindR (read_varint blob pos) (\<lambda>(amount, pos).
     bindR (need blob pos 1) (\<lambda>_.
       let t = blob ! pos; pos = pos + 1 in
       if t = TXOUT_KEY then bindR (need blob pos 32) (\<lambda>_. skip_outputs n blob (pos + 32))
       else if t = TXOUT_TAGGED_KEY then bindR (need blob pos 33) (\<lambda>_. skip_outputs n blob (pos + 33))
       else Inl (ValueError ''unknown output type'')))"

text \<open>The coinbase transaction: its height, its \<^verbatim>\<open>tx_extra\<close> and the position after it.\<close>

definition parse_miner_tx :: "bytes \<Rightarrow> nat \<Rightarrow> (nat \<times> bytes \<times> nat) result" where
  "parse_miner_tx blob pos =
     bindR (read_varint blob pos) (\<lambda>(version, pos).
     bindR (read_varint blob pos) (\<lambda>(unlock, pos).
     bindR (read_varint blob pos) (\<lambda>(n_in, pos).
       if n_in \<noteq> 1 then Inl (ValueError ''miner tx must have one input'') else
     bindR (need blob pos 1) (\<lambda>_.
       if blob ! pos \<noteq> TXIN_GEN then Inl (ValueError ''miner tx input is not txin_gen'') else
     bindR (read_varint blob (pos + 1)) (\<lambda>(height, pos).
     bindR (read_varint blob pos) (\<lambda>(n_out, pos).
     bindR (skip_outputs n_out blob pos) (\<lambda>pos.
     bindR (read_varint blob pos) (\<lambda>(extra_len, pos).
     bindR (need blob pos extra_len) (\<lambda>_.
       let tx_extra = slice blob pos (pos + extra_len); pos = pos + extra_len in
       if version \<ge> 2 then bindR (need blob pos 1) (\<lambda>_. Inr (height, tx_extra, pos + 1))
       else Inr (height, tx_extra, pos))))))))))"

definition read_header :: "bytes \<Rightarrow> (nat \<times> nat \<times> nat \<times> nat) result" where
  "read_header blob =
     bindR (read_varint blob 0) (\<lambda>(major, pos).
     bindR (read_varint blob pos) (\<lambda>(minor, pos).
     bindR (read_varint blob pos) (\<lambda>(timestamp, pos). Inr (major, minor, timestamp, pos))))"

definition parse_block_blob :: "bytes \<Rightarrow> block_head result" where
  "parse_block_blob blob =
     bindR (read_header blob) (\<lambda>(major, minor, timestamp, pos).
     bindR (need blob pos 36) (\<lambda>_.
       let prev_id = slice blob pos (pos + 32); nonce = le_val (slice blob (pos + 32) (pos + 36));
           miner_start = pos + 36 in
     bindR (parse_miner_tx blob miner_start) (\<lambda>(height, tx_extra, pos).
       let miner_tx = slice blob miner_start pos in
     bindR (read_varint blob pos) (\<lambda>(n_tx, pos).
     bindR (need blob pos (32 * n_tx)) (\<lambda>_.
       if pos + 32 * n_tx \<noteq> length blob then Inl (ValueError ''trailing bytes in block blob'')
       else Inr \<lparr> bh_major = major, bh_minor = minor, bh_timestamp = timestamp, bh_prev_id = prev_id,
            bh_nonce = nonce, bh_height = height, bh_tx_extra = tx_extra, bh_n_tx_hashes = n_tx,
            bh_miner_tx = miner_tx,
            bh_tx_hashes = map (\<lambda>i. slice blob (pos + 32 * i) (pos + 32 * (i + 1))) [0..<n_tx] \<rparr>)))))"

definition build_miner_tx :: "nat \<Rightarrow> bytes \<Rightarrow> bytes" where
  "build_miner_tx height tx_extra =
     write_varint 2 @ write_varint (height + 60) @ write_varint 1 @ [TXIN_GEN] @ write_varint height @
     write_varint 1 @ write_varint 1 @ [TXOUT_KEY] @ replicate 32 0 @
     write_varint (length tx_extra) @ tx_extra @ [0]"

definition build_block_blob ::
  "nat \<Rightarrow> nat \<Rightarrow> nat \<Rightarrow> bytes \<Rightarrow> nat \<Rightarrow> nat \<Rightarrow> bytes \<Rightarrow> bytes list \<Rightarrow> bytes result" where
  "build_block_blob major minor timestamp prev_id nonce height tx_extra tx_hashes =
     bindR (to_bytes_le 4 nonce) (\<lambda>nonce4.
       Inr (write_varint major @ write_varint minor @ write_varint timestamp @ prev_id @ nonce4 @
            build_miner_tx height tx_extra @ write_varint (length tx_hashes) @ concat tx_hashes))"

section \<open>Hashes\<close>

definition SEEDHASH_EPOCH_BLOCKS :: nat where "SEEDHASH_EPOCH_BLOCKS = 2048"
definition SEEDHASH_EPOCH_LAG :: nat where "SEEDHASH_EPOCH_LAG = 64"

definition seed_height :: "nat \<Rightarrow> nat" where
  "seed_height height =
     (if height \<le> SEEDHASH_EPOCH_BLOCKS + SEEDHASH_EPOCH_LAG then 0
      else (height - SEEDHASH_EPOCH_LAG - 1) div SEEDHASH_EPOCH_BLOCKS * SEEDHASH_EPOCH_BLOCKS)"

function pow2_reach :: "nat \<Rightarrow> nat \<Rightarrow> nat" where
  "pow2_reach pw n = (if 0 < pw \<and> pw < n then pow2_reach (2 * pw) n else pw)"
  by pat_completeness auto
termination by (relation "measure (\<lambda>(p, n). n - p)") auto

declare pow2_reach.simps [simp del]

function tree_reduce :: "nat \<Rightarrow> bytes list \<Rightarrow> bytes" where
  "tree_reduce cnt ints =
     (if cnt > 2 then tree_reduce (cnt div 2) (map (\<lambda>j. keccak256 (ints ! (2 * j) @ ints ! (2 * j + 1))) [0..<cnt div 2])
      else keccak256 (ints ! 0 @ ints ! 1))"
  by pat_completeness auto
termination by (relation "measure fst") auto

declare tree_reduce.simps [simp del]

definition tree_hash :: "bytes list \<Rightarrow> bytes result" where
  "tree_hash hashes =
     (let n = length hashes in
      if n = 0 then Inl (ValueError ''tree_hash of nothing'')
      else if n = 1 then Inr (hashes ! 0)
      else if n = 2 then Inr (keccak256 (hashes ! 0 @ hashes ! 1))
      else (let cnt = pow2_reach 2 n div 2; i = 2 * cnt - n;
                ints = take i hashes @
                  map (\<lambda>j. keccak256 (hashes ! (i + 2 * j) @ hashes ! (i + 2 * j + 1))) [0..<cnt - i]
            in Inr (tree_reduce cnt ints)))"

definition miner_tx_hash :: "bytes \<Rightarrow> bytes" where
  "miner_tx_hash miner_tx = keccak256 (keccak256 (butlast miner_tx) @ keccak256 [0] @ replicate 32 0)"

record hashing_head =
  hh_major :: nat
  hh_minor :: nat
  hh_timestamp :: nat
  hh_prev_id :: bytes
  hh_nonce :: nat
  hh_tx_root :: bytes
  hh_n_tx :: nat

definition header_bytes :: "bytes \<Rightarrow> bytes result" where
  "header_bytes blob =
     bindR (read_header blob) (\<lambda>(major, minor, timestamp, pos).
     bindR (need blob pos 36) (\<lambda>_. Inr (take (pos + 36) blob)))"

definition hashing_blob :: "bytes \<Rightarrow> bytes result" where
  "hashing_blob block_blob =
     bindR (parse_block_blob block_blob) (\<lambda>head.
     bindR (tree_hash (miner_tx_hash (bh_miner_tx head) # bh_tx_hashes head)) (\<lambda>root.
     bindR (header_bytes block_blob) (\<lambda>h.
       Inr (h @ root @ write_varint (1 + length (bh_tx_hashes head))))))"

definition parse_hashing_blob :: "bytes \<Rightarrow> hashing_head result" where
  "parse_hashing_blob blob =
     bindR (read_header blob) (\<lambda>(major, minor, timestamp, pos).
     bindR (need blob pos (36 + 32)) (\<lambda>_.
       let prev_id = slice blob pos (pos + 32); nonce = le_val (slice blob (pos + 32) (pos + 36));
           root = slice blob (pos + 36) (pos + 68) in
     bindR (read_varint blob (pos + 68)) (\<lambda>(n_tx, pos).
       if pos \<noteq> length blob then Inl (ValueError ''trailing bytes in hashing blob'')
       else Inr \<lparr> hh_major = major, hh_minor = minor, hh_timestamp = timestamp, hh_prev_id = prev_id,
            hh_nonce = nonce, hh_tx_root = root, hh_n_tx = n_tx \<rparr>)))"

definition block_id :: "bytes \<Rightarrow> bytes" where
  "block_id hb = keccak256 (write_varint (length hb) @ hb)"

definition check_hash :: "bytes \<Rightarrow> int \<Rightarrow> bool" where
  "check_hash pow_hash difficulty =
     (if length pow_hash \<noteq> 32 \<or> difficulty \<le> 0 then False
      else int (le_val pow_hash) * difficulty < 2 ^ 256)"

section \<open>Difficulty\<close>

definition DIFFICULTY_WINDOW :: nat where "DIFFICULTY_WINDOW = 720"
definition DIFFICULTY_LAG :: nat where "DIFFICULTY_LAG = 15"
definition DIFFICULTY_CUT :: nat where "DIFFICULTY_CUT = 60"
definition DIFFICULTY_BLOCKS_COUNT :: nat where "DIFFICULTY_BLOCKS_COUNT = DIFFICULTY_WINDOW + DIFFICULTY_LAG"
definition BLOCK_FUTURE_TIME_LIMIT :: int where "BLOCK_FUTURE_TIME_LIMIT = 7200"
definition MONERO_BLOCK_TIME :: int where "MONERO_BLOCK_TIME = 120"
definition MAX128 :: int where "MAX128 = 2 ^ 128 - 1"

definition difficulty_cut :: "nat \<Rightarrow> nat \<times> nat" where
  "difficulty_cut n =
     (let inner = DIFFICULTY_WINDOW - 2 * DIFFICULTY_CUT in
      if n \<le> inner then (0, n)
      else (let b = (n - inner + 1) div 2 in (b, b + inner)))"

definition next_difficulty :: "int list \<Rightarrow> int list \<Rightarrow> int \<Rightarrow> int result" where
  "next_difficulty timestamps0 cumulative0 target =
     (let timestamps = take DIFFICULTY_WINDOW timestamps0; cumulative = take DIFFICULTY_WINDOW cumulative0;
          n = length timestamps in
      if n \<noteq> length cumulative then Inl (ValueError ''timestamps and cumulative difficulties differ in length'')
      else if n \<le> 1 then Inr 1
      else (let ts = sort timestamps; (cut_begin, cut_end) = difficulty_cut n;
                time_span = max 1 (ts ! (cut_end - 1) - ts ! cut_begin);
                total_work = cumulative ! (cut_end - 1) - cumulative ! cut_begin in
            if total_work \<le> 0 then Inl (ValueError ''non-positive total work'')
            else (let res = (total_work * target + time_span - 1) div time_span in
                  Inr (if res > MAX128 then 0 else res))))"

section \<open>Reading what was written\<close>

lemma varint_at:
  "v < 2 ^ 70 \<Longrightarrow> drop pos data = write_varint v @ rest \<Longrightarrow>
     read_varint data pos = Inr (v, pos + length (write_varint v)) \<and>
     drop (pos + length (write_varint v)) data = rest"
  using varint.dec_enc drop_cursor by blast

lemma need_at: "drop pos data = xs @ rest \<Longrightarrow> length xs = n \<Longrightarrow> xs \<noteq> [] \<Longrightarrow> need data pos n = Inr ()"
  using cursor_length [of pos data xs rest] by (simp add: need_def)

lemma need_at0: "drop pos data = xs @ rest \<Longrightarrow> length xs = n \<Longrightarrow> pos \<le> length data \<Longrightarrow> need data pos n = Inr ()"
  using cursor_room [of pos data xs rest] by (auto simp: need_def)

lemma read_header_at:
  assumes "major < 2 ^ 70" "minor < 2 ^ 70" "ts < 2 ^ 70"
    and b: "blob = write_varint major @ write_varint minor @ write_varint ts @ rest"
  shows "read_header blob = Inr (major, minor, ts, length (write_varint major) + length (write_varint minor) + length (write_varint ts))"
    "drop (length (write_varint major) + length (write_varint minor) + length (write_varint ts)) blob = rest"
proof -
  have d0: "drop 0 blob = write_varint major @ write_varint minor @ write_varint ts @ rest" by (simp add: b)
  note 1 = varint_at [OF assms(1) d0]
  note 2 = varint_at [OF assms(2) 1 [THEN conjunct2]]
  note 3 = varint_at [OF assms(3) 2 [THEN conjunct2]]
  from 1 2 3 show "read_header blob = Inr (major, minor, ts, length (write_varint major) + length (write_varint minor) + length (write_varint ts))"
    by (simp add: read_header_def)
  from 3 show "drop (length (write_varint major) + length (write_varint minor) + length (write_varint ts)) blob = rest"
    by simp
qed

lemma parse_miner_tx_at:
  assumes d: "drop pos blob = build_miner_tx height extra @ rest" and "height + 60 < 2 ^ 70" "length extra < 2 ^ 70"
  shows "parse_miner_tx blob pos = Inr (height, extra, pos + length (build_miner_tx height extra))"
proof -
  have h: "height < 2 ^ 70" using assms(2) by simp
  note 1 = varint_at [OF _ d [unfolded build_miner_tx_def append_assoc]]
  define p1 where "p1 = pos + length (write_varint 2)"
  have d1: "read_varint blob pos = Inr (2, p1)" "drop p1 blob = write_varint (height + 60) @ write_varint 1 @ [TXIN_GEN] @
     write_varint height @ write_varint 1 @ write_varint 1 @ [TXOUT_KEY] @ replicate 32 0 @
     write_varint (length extra) @ extra @ [0] @ rest"
    using 1 by (simp_all add: p1_def)
  define p2 where "p2 = p1 + length (write_varint (height + 60))"
  have d2: "read_varint blob p1 = Inr (height + 60, p2)" "drop p2 blob = write_varint 1 @ [TXIN_GEN] @
     write_varint height @ write_varint 1 @ write_varint 1 @ [TXOUT_KEY] @ replicate 32 0 @
     write_varint (length extra) @ extra @ [0] @ rest"
    using varint_at [OF assms(2) d1(2)] by (simp_all add: p2_def)
  define p3 where "p3 = p2 + length (write_varint 1)"
  have d3: "read_varint blob p2 = Inr (1, p3)" "drop p3 blob = [TXIN_GEN] @
     write_varint height @ write_varint 1 @ write_varint 1 @ [TXOUT_KEY] @ replicate 32 0 @
     write_varint (length extra) @ extra @ [0] @ rest"
    using varint_at [OF _ d2(2)] by (simp_all add: p3_def)
  have n3: "need blob p3 1 = Inr ()" "blob ! p3 = TXIN_GEN"
    using need_at [OF d3(2)] nth_cursor [of p3 blob] d3(2) by simp_all
  have d4: "drop (p3 + 1) blob = write_varint height @ write_varint 1 @ write_varint 1 @ [TXOUT_KEY] @ replicate 32 0 @
     write_varint (length extra) @ extra @ [0] @ rest"
    using drop_cursor [OF d3(2)] by simp
  define p5 where "p5 = p3 + 1 + length (write_varint height)"
  have d5: "read_varint blob (p3 + 1) = Inr (height, p5)" "drop p5 blob = write_varint 1 @ write_varint 1 @ [TXOUT_KEY] @
     replicate 32 0 @ write_varint (length extra) @ extra @ [0] @ rest"
    using varint_at [OF h d4] by (simp_all add: p5_def)
  define p6 where "p6 = p5 + length (write_varint 1)"
  have d6: "read_varint blob p5 = Inr (1, p6)" "drop p6 blob = write_varint 1 @ [TXOUT_KEY] @
     replicate 32 0 @ write_varint (length extra) @ extra @ [0] @ rest"
    using varint_at [OF _ d5(2)] by (simp_all add: p6_def)
  define p7 where "p7 = p6 + length (write_varint 1)"
  have d7: "read_varint blob p6 = Inr (1, p7)" "drop p7 blob = [TXOUT_KEY] @
     replicate 32 0 @ write_varint (length extra) @ extra @ [0] @ rest"
    using varint_at [OF _ d6(2)] by (simp_all add: p7_def)
  have n7: "need blob p7 1 = Inr ()" "blob ! p7 = TXOUT_KEY"
    using need_at [OF d7(2)] nth_cursor [of p7 blob] d7(2) by simp_all
  have d8: "drop (p7 + 1) blob = replicate 32 0 @ write_varint (length extra) @ extra @ [0] @ rest"
    using drop_cursor [OF d7(2)] by simp
  have n8: "need blob (p7 + 1) 32 = Inr ()" using need_at [OF d8] by simp
  have out: "skip_outputs 1 blob p6 = Inr (p7 + 33)"
    using d7(1) n7 n8 by (simp add: One_nat_def Let_def)
  have d9: "drop (p7 + 33) blob = write_varint (length extra) @ extra @ [0] @ rest"
    using drop_cursor [OF d8] by (simp add: add.commute)
  define p10 where "p10 = p7 + 33 + length (write_varint (length extra))"
  have d10: "read_varint blob (p7 + 33) = Inr (length extra, p10)" "drop p10 blob = extra @ [0] @ rest"
    using varint_at [OF assms(3) d9] by (simp_all add: p10_def)
  have d11: "drop (p10 + length extra) blob = [0] @ rest" by (rule drop_cursor [OF d10(2)])
  have n11: "need blob (p10 + length extra) 1 = Inr ()" by (rule need_at [OF d11]) simp_all
  then have n10: "need blob p10 (length extra) = Inr ()" by (auto simp: need_def split: if_splits)
  have s: "slice blob p10 (p10 + length extra) = extra" by (rule slice_cursor [OF d10(2)])
  have "pos + length (build_miner_tx height extra) = p10 + length extra + 1"
    by (simp add: build_miner_tx_def p10_def p7_def p6_def p5_def p3_def p2_def p1_def)
  then show ?thesis
    unfolding parse_miner_tx_def d1(1) bindR_simps prod.case d2(1) d3(1) n3 d5(1) d6(1) out d10(1) n10 Let_def s n11 by simp
qed

lemma concat_slices:
  "list_all (\<lambda>h. length h = 32) hs \<Longrightarrow> drop pos data = concat hs \<Longrightarrow>
     map (\<lambda>i. slice data (pos + 32 * i) (pos + 32 * (i + 1))) [0..<length hs] = hs"
proof (induction hs arbitrary: pos)
  case (Cons h hs)
  then have l: "length h = 32" and d: "drop pos data = h @ concat hs" by simp_all
  have "drop (pos + 32) data = concat hs" using drop_cursor [OF d] l by simp
  then have "map (\<lambda>i. slice data (pos + 32 + 32 * i) (pos + 32 + 32 * (i + 1))) [0..<length hs] = hs"
    using Cons.IH [of "pos + 32"] Cons.prems(1) by (simp add: add.assoc)
  moreover have "slice data pos (pos + 32) = h" using slice_cursor [OF d] l by simp
  moreover have "map (\<lambda>i. slice data (pos + 32 * i) (pos + 32 * (i + 1))) [0..<length (h # hs)] =
      slice data pos (pos + 32) # map (\<lambda>i. slice data (pos + 32 + 32 * i) (pos + 32 + 32 * (i + 1))) [0..<length hs]"
    by (simp add: upt_conv_Cons map_Suc_upt [symmetric] add.assoc comp_def del: upt_Suc)
  ultimately show ?case by simp
qed simp

lemma length_concat32: "list_all (\<lambda>h. length h = 32) hs \<Longrightarrow> length (concat hs) = 32 * length hs"
  by (induction hs) simp_all

lemma parse_build:
  assumes "major < 2 ^ 70" "minor < 2 ^ 70" "ts < 2 ^ 70" "length prev = 32" "nonce < 2 ^ 32"
    "height + 60 < 2 ^ 70" "length extra < 2 ^ 70" "list_all (\<lambda>h. length h = 32) hs" "length hs < 2 ^ 70"
    and b: "build_block_blob major minor ts prev nonce height extra hs = Inr blob"
  shows "parse_block_blob blob = Inr \<lparr> bh_major = major, bh_minor = minor, bh_timestamp = ts, bh_prev_id = prev,
       bh_nonce = nonce, bh_height = height, bh_tx_extra = extra, bh_n_tx_hashes = length hs,
       bh_miner_tx = build_miner_tx height extra, bh_tx_hashes = hs \<rparr>"
    and "header_bytes blob = Inr (write_varint major @ write_varint minor @ write_varint ts @ prev @ le_bytes 4 nonce)"
proof -
  define rest where "rest = prev @ le_bytes 4 nonce @ build_miner_tx height extra @ write_varint (length hs) @ concat hs"
  have blob: "blob = write_varint major @ write_varint minor @ write_varint ts @ rest"
    using b assms(5) by (simp add: build_block_blob_def to_bytes_le_def rest_def)
  define p where "p = length (write_varint major) + length (write_varint minor) + length (write_varint ts)"
  note H = read_header_at [OF assms(1-3) blob, folded p_def]
  have d: "drop p blob = (prev @ le_bytes 4 nonce) @ build_miner_tx height extra @ write_varint (length hs) @ concat hs"
    using H(2) by (simp add: rest_def)
  have l36: "length (prev @ le_bytes 4 nonce) = 36" using assms(4) by simp
  have n: "need blob p 36 = Inr ()" by (rule need_at [OF d l36]) (use assms(4) in auto)
  have dp: "drop p blob = prev @ le_bytes 4 nonce @ build_miner_tx height extra @ write_varint (length hs) @ concat hs"
    using d by simp
  have prev: "slice blob p (p + 32) = prev" using slice_cursor [OF dp] assms(4) by simp
  have dn: "drop (p + 32) blob = le_bytes 4 nonce @ build_miner_tx height extra @ write_varint (length hs) @ concat hs"
    using drop_cursor [OF dp] assms(4) by simp
  have nonce: "slice blob (p + 32) (p + 36) = le_bytes 4 nonce" using slice_cursor [OF dn] by (simp add: add.commute)
  have dm: "drop (p + 36) blob = build_miner_tx height extra @ write_varint (length hs) @ concat hs"
    using drop_cursor [OF d] l36 by simp
  note M = parse_miner_tx_at [OF dm assms(6,7)]
  have m: "slice blob (p + 36) (p + 36 + length (build_miner_tx height extra)) = build_miner_tx height extra"
    by (rule slice_cursor [OF dm])
  note V = varint_at [OF assms(9) drop_cursor [OF dm]]
  define q where "q = p + 36 + length (build_miner_tx height extra) + length (write_varint (length hs))"
  have dq: "drop q blob = concat hs" using V by (simp add: q_def)
  have ql: "q \<le> length blob" by (simp add: q_def p_def blob rest_def assms(4))
  have "length blob - q = 32 * length hs" using length_concat32 [OF assms(8)] dq by (metis length_drop)
  then have len: "q + 32 * length hs = length blob" using ql by simp
  then have nq: "need blob q (32 * length hs) = Inr ()" by (simp add: need_def)
  show "parse_block_blob blob = Inr \<lparr> bh_major = major, bh_minor = minor, bh_timestamp = ts, bh_prev_id = prev,
       bh_nonce = nonce, bh_height = height, bh_tx_extra = extra, bh_n_tx_hashes = length hs,
       bh_miner_tx = build_miner_tx height extra, bh_tx_hashes = hs \<rparr>"
    unfolding parse_block_blob_def H(1) bindR_simps prod.case n Let_def M V [THEN conjunct1] q_def [symmetric] nq prev nonce m
      concat_slices [OF assms(8) dq]
    using len assms(5) by simp
  have "take (p + 36) blob = write_varint major @ write_varint minor @ write_varint ts @ prev @ le_bytes 4 nonce"
    by (simp add: blob rest_def p_def assms(4))
  then show "header_bytes blob = Inr (write_varint major @ write_varint minor @ write_varint ts @ prev @ le_bytes 4 nonce)"
    by (simp add: header_bytes_def H(1) n)
qed

section \<open>The tree hash is the Merkle root\<close>

lemma pow2_reach_spec:
  "2 ^ a < 2 * n \<Longrightarrow> \<exists>e. pow2_reach (2 ^ a) n = 2 ^ e \<and> n \<le> 2 ^ e \<and> 2 ^ e < 2 * n"
proof (induction "n - 2 ^ a" arbitrary: a rule: less_induct)
  case less
  show ?case
  proof (cases "2 ^ a < n")
    case True
    have "\<exists>e. pow2_reach (2 ^ Suc a) n = 2 ^ e \<and> n \<le> 2 ^ e \<and> 2 ^ e < 2 * n"
    proof (rule less.hyps)
      have "(0::nat) < 2 ^ a" by simp
      then show "n - 2 ^ Suc a < n - 2 ^ a" using True unfolding power_Suc by linarith
      show "2 ^ Suc a < 2 * n" using True by simp
    qed
    then show ?thesis using True by (subst pow2_reach.simps) simp
  next
    case False
    then show ?thesis using less.prems by (subst pow2_reach.simps) auto
  qed
qed

lemma tree_reduce_top: "tree_reduce (2 ^ Suc c) L = tree_top (Suc c) L"
proof (induction c arbitrary: L)
  case 0
  then show ?case by (subst tree_reduce.simps) (simp add: pair_hash_def)
next
  case (Suc c)
  have "(2::nat) < 2 ^ Suc (Suc c)" using one_less_power [of "2::nat" "Suc c"] by simp
  moreover have "map (\<lambda>j. keccak256 (L ! (2 * j) @ L ! (2 * j + 1))) [0..<2 ^ Suc c] = map (pair_hash L) [0..<2 ^ Suc c]"
    by (simp add: pair_hash_def [abs_def])
  ultimately have "tree_reduce (2 ^ Suc (Suc c)) L = tree_reduce (2 ^ Suc c) (map (pair_hash L) [0..<2 ^ Suc c])"
    by (subst tree_reduce.simps) (simp add: pair_hash_def [abs_def])
  then show ?case using Suc [of "map (pair_hash L) [0..<2 ^ Suc c]"] by (simp only: tree_top.simps)
qed

lemma first_level_all: "first_level (length hs) hs = hs"
  by (simp add: first_level_def)

lemma tree_hash_root: "hs \<noteq> [] \<Longrightarrow> tree_hash hs = Inr (the (merkle_root hs)) \<and> merkle_root hs \<noteq> None"
proof -
  assume "hs \<noteq> []"
  then consider "length hs = 1" | "length hs = 2" | "2 < length hs"
    by (cases hs; cases "tl hs"; cases "tl (tl hs)") auto
  then show ?thesis
  proof cases
    case 1
    then show ?thesis by (simp add: tree_hash_def merkle_root_def merkle_tree_def)
  next
    case 2
    then show ?thesis by (simp add: tree_hash_def merkle_root_def merkle_tree_def)
  next
    case 3
    let ?n = "length hs"
    obtain d where d: "2 ^ d \<le> ?n" "?n < 2 ^ Suc d"
      and r: "merkle_root hs = Some (tree_top d (first_level (2 ^ d * 2 - ?n) hs))"
      by (rule merkle_tree_big [OF 3])
    obtain e where e: "pow2_reach 2 ?n = 2 ^ e" "?n \<le> 2 ^ e" "2 ^ e < 2 * ?n"
      using pow2_reach_spec [of 1 ?n] 3 by auto
    have "2 < (2::nat) ^ e" using e(2) 3 by simp
    then have "1 < e" using power_less_imp_less_exp [of 2 1 e] by simp
    then obtain c where c: "e = Suc (Suc c)" by (metis One_nat_def Suc_lessD less_imp_Suc_add plus_1_eq_Suc add_Suc)
    have cnt: "pow2_reach 2 ?n div 2 = 2 ^ Suc c" by (simp add: e(1) c)
    let ?i = "2 * 2 ^ Suc c - ?n"
    have h: "tree_hash hs = Inr (tree_top (Suc c) (take ?i hs @
        map (\<lambda>j. keccak256 (hs ! (?i + 2 * j) @ hs ! (?i + 2 * j + 1))) [0..<2 ^ Suc c - ?i]))"
      unfolding tree_hash_def Let_def cnt tree_reduce_top using 3 by auto
    show ?thesis
    proof (cases "?n = 2 ^ Suc (Suc c)")
      case True
      have a: "(2::nat) ^ d \<le> 2 ^ Suc (Suc c)" "(2::nat) ^ Suc (Suc c) < 2 ^ Suc d" using d True by simp_all
      have "d \<le> Suc (Suc c)" by (rule power_le_imp_le_exp [OF _ a(1)]) simp
      moreover have "Suc (Suc c) < Suc d" by (rule power_less_imp_less_exp [OF _ a(2)]) simp
      ultimately have dc: "d = Suc (Suc c)" by simp
      have "2 ^ d * 2 - ?n = ?n" by (simp add: True dc)
      then have "merkle_root hs = Some (tree_top (Suc c) (map (pair_hash hs) [0..<2 ^ Suc c]))"
        using r by (simp only: first_level_all dc tree_top.simps)
      moreover have "?i = 0" using True by simp
      ultimately show ?thesis unfolding h by (simp add: pair_hash_def [abs_def])
    next
      case False
      then have n: "?n < 2 ^ Suc (Suc c)" "2 ^ Suc c < ?n" using e(2,3) c by simp_all
      have a: "(2::nat) ^ d < 2 ^ Suc (Suc c)" "(2::nat) ^ Suc c < 2 ^ Suc d" using d n by linarith+
      have "d < Suc (Suc c)" by (rule power_less_imp_less_exp [OF _ a(1)]) simp
      moreover have "Suc c < Suc d" by (rule power_less_imp_less_exp [OF _ a(2)]) simp
      ultimately have dc: "d = Suc c" by simp
      have "(?n - ?i) div 2 = 2 ^ Suc c - ?i" using n by simp
      then show ?thesis unfolding h r dc by (simp add: first_level_def mult.commute)
    qed
  qed
qed

lemma length_tree_reduce [simp]: "length (tree_reduce c L) = 32"
proof (induction c L rule: tree_reduce.induct)
  case (1 c L)
  then show ?case by (subst tree_reduce.simps) auto
qed

lemma length_tree_hash: "(\<And>h. h \<in> set hs \<Longrightarrow> length h = 32) \<Longrightarrow> tree_hash hs = Inr r \<Longrightarrow> length r = 32"
  by (auto simp: tree_hash_def Let_def split: if_splits)

section \<open>Guarantees\<close>

text \<open>A block blob built from its fields is parsed back to exactly those fields, with the coinbase
  bytes that enter the transaction hash, for every header, coinbase height and extra and every list of
  transaction hashes within the width of a varint.\<close>

theorem block_blob_roundtrip:
  assumes "major < 2 ^ 70" "minor < 2 ^ 70" "ts < 2 ^ 70" "length prev = 32" "nonce < 2 ^ 32"
    "height + 60 < 2 ^ 70" "length extra < 2 ^ 70" "list_all (\<lambda>h. length h = 32) hs" "length hs < 2 ^ 70"
  shows "bindR (build_block_blob major minor ts prev nonce height extra hs) parse_block_blob =
     Inr \<lparr> bh_major = major, bh_minor = minor, bh_timestamp = ts, bh_prev_id = prev,
       bh_nonce = nonce, bh_height = height, bh_tx_extra = extra, bh_n_tx_hashes = length hs,
       bh_miner_tx = build_miner_tx height extra, bh_tx_hashes = hs \<rparr>"
proof -
  obtain blob where b: "build_block_blob major minor ts prev nonce height extra hs = Inr blob"
    using assms(5) by (simp add: build_block_blob_def to_bytes_le_def)
  show ?thesis using parse_build(1) [OF assms b] by (simp add: b)
qed

lemma block_blob_roundtrip_witness:
  "map_sum (\<lambda>_. ()) bh_height (bindR (build_block_blob 16 16 1700000000 (replicate 32 7) 42 3000000 [1, 2, 3] [replicate 32 9])
     parse_block_blob) = Inr 3000000"
  using block_blob_roundtrip [of 16 16 1700000000 "replicate 32 7" 42 3000000 "[1, 2, 3]" "[replicate 32 9]"] by simp

lemma parse_hashing_blob_at:
  assumes "major < 2 ^ 70" "minor < 2 ^ 70" "ts < 2 ^ 70" "length prev = 32" "nonce < 2 ^ 32"
    "length root = 32" "nt < 2 ^ 70"
  shows "parse_hashing_blob (write_varint major @ write_varint minor @ write_varint ts @
       (prev @ le_bytes 4 nonce @ root @ write_varint nt)) =
     Inr \<lparr> hh_major = major, hh_minor = minor, hh_timestamp = ts, hh_prev_id = prev, hh_nonce = nonce,
       hh_tx_root = root, hh_n_tx = nt \<rparr>"
proof -
  define hb where "hb = write_varint major @ write_varint minor @ write_varint ts @
    (prev @ le_bytes 4 nonce @ root @ write_varint nt)"
  define p where "p = length (write_varint major) + length (write_varint minor) + length (write_varint ts)"
  note H = read_header_at [OF assms(1-3) hb_def, folded p_def]
  have d: "drop p hb = (prev @ le_bytes 4 nonce @ root) @ write_varint nt" using H(2) by simp
  have l68: "length (prev @ le_bytes 4 nonce @ root) = 68" using assms by simp
  have n: "need hb p (36 + 32) = Inr ()"
    by (rule need_at [OF d]) (use l68 assms(4) in auto)
  have s1: "slice hb p (p + 32) = prev" using slice_cursor [OF H(2)] assms(4) by simp
  have d2: "drop (p + 32) hb = le_bytes 4 nonce @ root @ write_varint nt"
    using drop_cursor [OF H(2)] assms(4) by simp
  have s2: "slice hb (p + 32) (p + 36) = le_bytes 4 nonce" using slice_cursor [OF d2] by (simp add: add.commute)
  have d3: "drop (p + 36) hb = root @ write_varint nt" using drop_cursor [OF d2] by (simp add: add.commute)
  have s3: "slice hb (p + 36) (p + 68) = root" using slice_cursor [OF d3] assms(6) by (simp add: add.commute)
  have d4: "drop (p + 68) hb = write_varint nt @ []" using drop_cursor [OF d] unfolding l68 by simp
  have v: "read_varint hb (p + 68) = Inr (nt, length hb)"
    using varint_at [OF assms(7) d4] by (simp add: hb_def p_def assms(4,6))
  show ?thesis
    unfolding hb_def [symmetric] parse_hashing_blob_def H(1) bindR_simps prod.case n Let_def s1 s2 s3 v
    using assms(5) by simp
qed

text \<open>C12. The hashing blob of a built block carries its header, the Merkle root of its transactions with
  the coinbase first, and the number of transactions, and is parsed back to them.\<close>

theorem hashing_blob_roundtrip:
  assumes "major < 2 ^ 70" "minor < 2 ^ 70" "ts < 2 ^ 70" "length prev = 32" "nonce < 2 ^ 32"
    "height + 60 < 2 ^ 70" "length extra < 2 ^ 70" "list_all (\<lambda>h. length h = 32) hs" "length hs < 2 ^ 69"
  shows "bindR (bindR (build_block_blob major minor ts prev nonce height extra hs) hashing_blob) parse_hashing_blob =
     Inr \<lparr> hh_major = major, hh_minor = minor, hh_timestamp = ts, hh_prev_id = prev, hh_nonce = nonce,
       hh_tx_root = the (merkle_root (miner_tx_hash (build_miner_tx height extra) # hs)), hh_n_tx = 1 + length hs \<rparr>"
proof -
  obtain blob where b: "build_block_blob major minor ts prev nonce height extra hs = Inr blob"
    using assms(5) by (simp add: build_block_blob_def to_bytes_le_def)
  have "length hs < 2 ^ 70" using assms(9) by simp
  note P = parse_build [OF assms(1-8) this b]
  define hs' where "hs' = miner_tx_hash (build_miner_tx height extra) # hs"
  define root where "root = the (merkle_root hs')"
  have t: "tree_hash hs' = Inr root" using tree_hash_root [of hs'] by (simp add: hs'_def root_def)
  have lroot: "length root = 32"
  proof -
    have "list_all (\<lambda>h. length h = 32) hs'" using assms(8) by (simp add: hs'_def miner_tx_hash_def)
    then show ?thesis using length_tree_hash [OF _ t] by (simp add: list_all_iff)
  qed
  define nt where "nt = 1 + length hs"
  have nt: "nt < 2 ^ 70" using assms(9) by (simp add: nt_def)
  have h: "hashing_blob blob = Inr (write_varint major @ write_varint minor @ write_varint ts @
      (prev @ le_bytes 4 nonce @ root @ write_varint nt))"
    using t by (simp add: hashing_blob_def P nt_def hs'_def)
  show ?thesis
    unfolding b bindR_simps h parse_hashing_blob_at [OF assms(1-5) lroot nt]
    by (simp add: nt_def root_def hs'_def)
qed

lemma hashing_blob_roundtrip_witness:
  "map_sum (\<lambda>_. ()) hh_n_tx (bindR (bindR (build_block_blob 16 16 1700000000 (replicate 32 7) 42 3000000 [1, 2, 3] [replicate 32 9])
     hashing_blob) parse_hashing_blob) = Inr 2"
  using hashing_blob_roundtrip [of 16 16 1700000000 "replicate 32 7" 42 3000000 "[1, 2, 3]" "[replicate 32 9]"] by simp

text \<open>Monero's transaction tree hash and P2Pool's merge-mining Merkle root are the same function: the two
  routines, written independently, agree on every non-empty list.\<close>

theorem tree_hash_is_merkle_root:
  assumes "hashes \<noteq> []"
  shows "\<exists>root. tree_hash hashes = Inr root \<and> merkle_root hashes = Some root"
  using tree_hash_root [OF assms] by auto

lemma tree_hash_is_merkle_root_witness:
  "\<exists>root. tree_hash (map (\<lambda>i. replicate 32 (word_of_nat i)) [0..<7]) = Inr root \<and>
     merkle_root (map (\<lambda>i. replicate 32 (word_of_nat i)) [0..<7]) = Some root"
  by (rule tree_hash_is_merkle_root) simp

section \<open>The difficulty rule\<close>

lemma difficulty_cut_inner:
  "2 \<le> n \<Longrightarrow> n \<le> 720 \<Longrightarrow> difficulty_cut n = (b, e) \<Longrightarrow> b + 1 < e \<and> e \<le> n"
  by (auto simp: difficulty_cut_def Let_def DIFFICULTY_WINDOW_def DIFFICULTY_CUT_def split: if_splits)

text \<open>On a chain that runs at its target, the rule keeps the difficulty: with timestamps spaced by the
  target and a constant difficulty \<^verbatim>\<open>D\<close>, however many blocks the window holds and whatever is cut, the next
  difficulty is \<^verbatim>\<open>D\<close>.\<close>

theorem difficulty_steady:
  assumes "0 < D" "D \<le> MAX128" "0 < target" "2 \<le> n"
  shows "next_difficulty (map (\<lambda>i. t0 + target * int i) [0..<n]) (map (\<lambda>i. c0 + D * int i) [0..<n]) target = Inr D"
proof -
  define m where "m = min 720 n"
  have m: "2 \<le> m" "m \<le> 720" using assms(4) by (simp_all add: m_def)
  have tk: "take DIFFICULTY_WINDOW (map f [0..<n]) = map f [0..<m]" for f :: "nat \<Rightarrow> int"
    by (simp add: take_map DIFFICULTY_WINDOW_def m_def take_upt min_def)
  have "sorted (map (\<lambda>i. t0 + target * int i) [0..<m])"
    using assms(3) by (auto simp: sorted_iff_nth_mono intro: mult_left_mono)
  then have st: "sort (map (\<lambda>i. t0 + target * int i) [0..<m]) = map (\<lambda>i. t0 + target * int i) [0..<m]"
    by (rule sorted_sort_id)
  obtain b e where be: "difficulty_cut m = (b, e)" by fastforce
  then have c: "b + 1 < e" "e \<le> m" using difficulty_cut_inner [OF m be] by simp_all
  define k where "k = int (e - 1) - int b"
  have k: "1 \<le> k" using c by (simp add: k_def)
  have span: "max 1 ((t0 + target * int (e - 1)) - (t0 + target * int b)) = target * k"
  proof -
    have "0 < target * k" using k assms(3) by simp
    then have "1 \<le> target * k" by linarith
    then show ?thesis by (simp add: k_def algebra_simps)
  qed
  have work: "(c0 + D * int (e - 1)) - (c0 + D * int b) = D * k" by (simp add: k_def algebra_simps)
  have pos: "0 < D * k" "0 < target * k" using k assms by simp_all
  have "D * k * target + target * k - 1 = D * (target * k) + (target * k - 1)" by (simp add: algebra_simps)
  moreover have "(D * A + (A - 1)) div A = D" if "0 < A" for A :: int
    using that div_mult_self3 [of A D "A - 1"] by (simp add: div_pos_pos_trivial)
  ultimately have div: "(D * k * target + target * k - 1) div (target * k) = D"
    using pos(2) by metis
  have nth: "map f [0..<m] ! b = f b" "map f [0..<m] ! (e - 1) = f (e - 1)" for f :: "nat \<Rightarrow> int"
    using c by simp_all
  show ?thesis
    unfolding next_difficulty_def tk Let_def st length_map length_upt diff_zero be prod.case nth span work div
    using m pos(1) assms(2) by simp
qed


lemma difficulty_steady_witness:
  "next_difficulty (map (\<lambda>i. 1000 + 120 * int i) [0..<2]) (map (\<lambda>i. 50 + 77 * int i) [0..<2]) 120 = Inr 77"
  using difficulty_steady [of 77 120 2 1000 50] by (simp add: MAX128_def)

text \<open>The RandomX seed of a height is the id of an epoch block that is at least 65 and at most 2112 blocks
  old, and the genesis block up to height 2112.\<close>

theorem seed_height_window:
  "seed_height h mod 2048 = 0 \<and> (if h \<le> 2112 then seed_height h = 0 else seed_height h + 65 \<le> h \<and> h \<le> seed_height h + 2112)"
proof (cases "h \<le> 2112")
  case True
  then show ?thesis by (simp add: seed_height_def SEEDHASH_EPOCH_BLOCKS_def SEEDHASH_EPOCH_LAG_def)
next
  case False
  define x where "x = h - 64 - 1"
  have s: "seed_height h = x div 2048 * 2048"
    using False by (simp add: seed_height_def SEEDHASH_EPOCH_BLOCKS_def SEEDHASH_EPOCH_LAG_def x_def)
  have h: "h = x + 65" using False by (simp add: x_def)
  have "x mod 2048 < 2048" by simp
  moreover have "x div 2048 * 2048 + x mod 2048 = x" by simp
  ultimately have "x div 2048 * 2048 \<le> x" "x \<le> x div 2048 * 2048 + 2047" by linarith+
  then show ?thesis unfolding s using False h by simp
qed

end
