(* ===== verification/Headers.thy ===== *)
theory Headers
  imports Monero Floats
begin

text \<open>
  \<^verbatim>\<open>transpeer/anchor/headers.py\<close>: verification of a run of hashing blobs against a checkpoint, and the
  extension of an already verified view. The proof-of-work backend is third-party code
  (RandomX): it is the parameter \<^verbatim>\<open>pow\<close>, from a blob, a height and a seed hash to a hash.
\<close>

type_synonym pow_backend = "bytes \<Rightarrow> int \<Rightarrow> bytes \<Rightarrow> bytes"

definition STALE_TIP :: int where "STALE_TIP = 1800"

definition HEADER_LOOKBACK :: int where
  "HEADER_LOOKBACK = int DIFFICULTY_BLOCKS_COUNT + int SEEDHASH_EPOCH_BLOCKS + int SEEDHASH_EPOCH_LAG + 1"

record header_row =
  hr_height :: int
  hr_blob :: bytes
  hr_difficulty :: int

record checkpoint =
  cp_height :: int
  cp_hash :: bytes

record chain_view =
  cv_first :: int
  cv_ids :: "bytes list"
  cv_timestamps :: "int list"
  cv_difficulties :: "int list"
  cv_cumulative :: "int list"
  cv_blobs :: "bytes list"
  cv_checkpoint_height :: int

definition tip_height :: "chain_view \<Rightarrow> int" where
  "tip_height v = cv_first v + int (length (cv_ids v)) - 1"

definition tip_id :: "chain_view \<Rightarrow> bytes" where
  "tip_id v = last (cv_ids v)"

definition chain_work :: "chain_view \<Rightarrow> int" where
  "chain_work v =
     (let idx = cv_checkpoint_height v - cv_first v;
          base = (if 0 \<le> idx \<and> idx < int (length (cv_cumulative v)) then cv_cumulative v ! nat idx else 0)
      in last (cv_cumulative v) - base)"

definition height_of :: "bytes \<Rightarrow> chain_view \<Rightarrow> int option" where
  "height_of ident v = map_option (\<lambda>i. cv_first v + int i) (index_of ident (cv_ids v))"

text \<open>\<^verbatim>\<open>xs[i]\<close> of a Python list: a negative index counts from the end, and an index outside raises.\<close>

definition py_index :: "'a list \<Rightarrow> int \<Rightarrow> 'a result" where
  "py_index xs i =
     (if 0 \<le> i \<and> i < int (length xs) then Inr (xs ! nat i)
      else if i < 0 \<and> - int (length xs) \<le> i then Inr (xs ! nat (int (length xs) + i))
      else Inl (IndexError ''list index out of range''))"

definition id_at :: "int \<Rightarrow> chain_view \<Rightarrow> bytes result" where
  "id_at height v = py_index (cv_ids v) (height - cv_first v)"

definition timestamp_at :: "int \<Rightarrow> chain_view \<Rightarrow> int result" where
  "timestamp_at height v = py_index (cv_timestamps v) (height - cv_first v)"

definition median :: "int list \<Rightarrow> int" where
  "median values =
     (let s = sort values; n = length s; mid = n div 2 in
      if odd n then s ! mid else (s ! (mid - 1) + s ! mid) div 2)"

section \<open>The checks\<close>

fun contiguous :: "header_row list \<Rightarrow> unit result" where
  "contiguous (a # b # rows) =
     (if hr_height b \<noteq> hr_height a + 1 then Inl (HeaderError ''non-contiguous heights'') else contiguous (b # rows))"
| "contiguous rows = Inr ()"

definition check_shape :: "header_row list \<Rightarrow> checkpoint \<Rightarrow> unit result" where
  "check_shape rows cp =
     (if rows = [] then Inl (HeaderError ''no header rows supplied'') else
      bindR (contiguous rows) (\<lambda>_.
        let first = hr_height (hd rows); last_h = hr_height (last rows);
            start = max 0 (cp_height cp - HEADER_LOOKBACK) in
        if \<not> (first \<le> cp_height cp \<and> cp_height cp \<le> last_h) then Inl (HeaderError ''checkpoint height outside rows'')
        else if first > start then Inl (HeaderError ''rows start past the lookback start'')
        else Inr ()))"

definition parse_row :: "header_row \<Rightarrow> hashing_head result" where
  "parse_row row = (case parse_hashing_blob (hr_blob row) of
     Inl e \<Rightarrow> Inl (if is_value_error e then HeaderError ''unparseable blob'' else e)
   | Inr head \<Rightarrow> Inr head)"

fun link_rows :: "header_row list \<Rightarrow> hashing_head list \<Rightarrow> bytes list \<Rightarrow> (hashing_head list \<times> bytes list) result" where
  "link_rows [] heads ids = Inr (heads, ids)"
| "link_rows (row # rows) heads ids =
     bindR (parse_row row) (\<lambda>head.
       if ids \<noteq> [] \<and> hh_prev_id head \<noteq> last ids then Inl (HeaderError ''broken linkage'')
       else link_rows rows (heads @ [head]) (ids @ [block_id (hr_blob row)]))"

definition check_linkage :: "header_row list \<Rightarrow> checkpoint \<Rightarrow> (hashing_head list \<times> bytes list) result" where
  "check_linkage rows cp =
     bindR (link_rows rows [] []) (\<lambda>(heads, ids).
       if ids ! nat (cp_height cp - hr_height (hd rows)) \<noteq> cp_hash cp then Inl (HeaderError ''checkpoint mismatch'')
       else Inr (heads, ids))"

definition last_n :: "nat \<Rightarrow> 'a list \<Rightarrow> 'a list" where
  "last_n n xs = drop (length xs - n) xs"

text \<open>Timestamps in order: \<^verbatim>\<open>seen\<close> holds those of the rows before.\<close>

fun ts_rows :: "int \<Rightarrow> int list \<Rightarrow> int list \<Rightarrow> unit result" where
  "ts_rows limit seen [] = Inr ()"
| "ts_rows limit seen (t # ts) =
     (if t > limit then Inl (HeaderError ''timestamp too far in the future'')
      else if 60 \<le> length seen \<and> t < median (last_n 60 seen) then Inl (HeaderError ''timestamp below median of previous 60'')
      else ts_rows limit (seen @ [t]) ts)"

definition head_time :: "hashing_head \<Rightarrow> int" where
  "head_time h = int (hh_timestamp h)"

definition check_timestamps :: "hashing_head list \<Rightarrow> int \<Rightarrow> unit result" where
  "check_timestamps heads now = ts_rows (now + BLOCK_FUTURE_TIME_LIMIT) [] (map head_time heads)"

text \<open>Difficulties in order: \<^verbatim>\<open>cum\<close> holds the cumulative difficulties of the rows before.\<close>

fun diff_rows :: "checkpoint \<Rightarrow> int list \<Rightarrow> header_row list \<Rightarrow> int \<Rightarrow> int list \<Rightarrow> int list result" where
  "diff_rows cp timestamps [] running cum = Inr cum"
| "diff_rows cp timestamps (row # rows) running cum =
     (let i = length cum; running' = running + hr_difficulty row in
      if hr_height row \<le> cp_height cp then
        (if hr_difficulty row < 1 then Inl (HeaderError ''non-positive difficulty'')
         else diff_rows cp timestamps rows running' (cum @ [running']))
      else bindR (next_difficulty (slice timestamps (i - DIFFICULTY_BLOCKS_COUNT) i)
                    (slice cum (i - DIFFICULTY_BLOCKS_COUNT) i) MONERO_BLOCK_TIME) (\<lambda>expected.
             if expected \<noteq> hr_difficulty row then Inl (HeaderError ''difficulty mismatch'')
             else diff_rows cp timestamps rows running' (cum @ [running'])))"

definition check_difficulty :: "header_row list \<Rightarrow> hashing_head list \<Rightarrow> checkpoint \<Rightarrow> int list result" where
  "check_difficulty rows heads cp = diff_rows cp (map head_time heads) rows 0 []"

definition seed_lookup :: "bytes list \<Rightarrow> int \<Rightarrow> int \<Rightarrow> bytes result" where
  "seed_lookup ids first height =
     (let i = int (seed_height (nat height)) - first in
      if \<not> (0 \<le> i \<and> i < int (length ids)) then Inl (HeaderError ''seed block is not in the view'')
      else Inr (ids ! nat i))"

text \<open>\<^verbatim>\<open>rng.random()\<close> takes the next of a list of draws from the unit interval, and 0 when it is used up.\<close>

definition draw_unit :: "rat list \<Rightarrow> rat \<times> rat list" where
  "draw_unit rs = (case rs of [] \<Rightarrow> (0, []) | r # rs' \<Rightarrow> (r, rs'))"

definition pow_required :: "header_row \<Rightarrow> nat \<Rightarrow> nat \<Rightarrow> checkpoint \<Rightarrow> rat list \<Rightarrow> rat \<Rightarrow> nat \<Rightarrow> bool \<times> rat list" where
  "pow_required row i n cp rs sample recent =
     (if hr_height row \<le> cp_height cp then (hr_height row > cp_height cp - int DIFFICULTY_BLOCKS_COUNT, rs)
      else if i + recent \<ge> n then (True, rs)
      else (let (r, rs') = draw_unit rs in (r < sample, rs')))"

definition pow_row :: "pow_backend \<Rightarrow> (int \<Rightarrow> bytes result) \<Rightarrow> header_row \<Rightarrow> unit result" where
  "pow_row pow seed row =
     bindR (seed (hr_height row)) (\<lambda>s.
       if \<not> check_hash (pow (hr_blob row) (hr_height row) s) (hr_difficulty row)
       then Inl (HeaderError ''proof-of-work invalid'') else Inr ())"

fun check_pow :: "pow_backend \<Rightarrow> (int \<Rightarrow> bytes result) \<Rightarrow> checkpoint \<Rightarrow> rat \<Rightarrow> nat \<Rightarrow> nat \<Rightarrow> header_row list \<Rightarrow> nat \<Rightarrow> rat list \<Rightarrow> unit result" where
  "check_pow pow seed cp sample recent n [] i rs = Inr ()"
| "check_pow pow seed cp sample recent n (row # rows) i rs =
     (let (req, rs') = pow_required row i n cp rs sample recent in
      if req then bindR (pow_row pow seed row) (\<lambda>_. check_pow pow seed cp sample recent n rows (i + 1) rs')
      else check_pow pow seed cp sample recent n rows (i + 1) rs')"

section \<open>Full verification and extension\<close>

definition verify_full ::
  "header_row list \<Rightarrow> checkpoint \<Rightarrow> pow_backend \<Rightarrow> int \<Rightarrow> rat list \<Rightarrow> rat \<Rightarrow> nat \<Rightarrow> chain_view result" where
  "verify_full rows cp pow now rs sample recent =
     bindR (check_shape rows cp) (\<lambda>_.
     bindR (check_linkage rows cp) (\<lambda>(heads, ids).
     bindR (check_timestamps heads now) (\<lambda>_.
     bindR (check_difficulty rows heads cp) (\<lambda>cumulative.
     bindR (check_pow pow (seed_lookup ids (hr_height (hd rows))) cp sample recent (length rows) rows 0 rs) (\<lambda>_.
       let timestamps = map head_time heads in
       if now - last timestamps > STALE_TIP then Inl (HeaderError ''stale tip'')
       else Inr \<lparr> cv_first = hr_height (hd rows), cv_ids = ids, cv_timestamps = timestamps,
            cv_difficulties = map hr_difficulty rows, cv_cumulative = cumulative,
            cv_blobs = map hr_blob rows, cv_checkpoint_height = cp_height cp \<rparr>)))))"

definition extend_row :: "checkpoint \<Rightarrow> pow_backend \<Rightarrow> int \<Rightarrow> header_row \<Rightarrow> chain_view \<Rightarrow> chain_view result" where
  "extend_row cp pow limit row v =
     bindR (parse_row row) (\<lambda>head.
       let t = head_time head in
       if hh_prev_id head \<noteq> last (cv_ids v) then Inl (HeaderError ''broken linkage'')
       else if t > limit then Inl (HeaderError ''timestamp too far in the future'')
       else if 60 \<le> length (cv_timestamps v) \<and> t < median (last_n 60 (cv_timestamps v))
            then Inl (HeaderError ''timestamp below median of previous 60'')
       else bindR (if hr_height row > cp_height cp then
                     bindR (next_difficulty (last_n DIFFICULTY_BLOCKS_COUNT (cv_timestamps v))
                        (last_n DIFFICULTY_BLOCKS_COUNT (cv_cumulative v)) MONERO_BLOCK_TIME) (\<lambda>expected.
                       if expected \<noteq> hr_difficulty row then Inl (HeaderError ''difficulty mismatch'') else Inr ())
                   else if hr_difficulty row < 1 then Inl (HeaderError ''non-positive difficulty'') else Inr ()) (\<lambda>_.
            bindR (pow_row pow (seed_lookup (cv_ids v) (cv_first v)) row) (\<lambda>_.
              Inr (v\<lparr> cv_ids := cv_ids v @ [block_id (hr_blob row)], cv_timestamps := cv_timestamps v @ [t],
                      cv_difficulties := cv_difficulties v @ [hr_difficulty row],
                      cv_cumulative := cv_cumulative v @ [last (cv_cumulative v) + hr_difficulty row],
                      cv_blobs := cv_blobs v @ [hr_blob row] \<rparr>))))"

fun extend_rows :: "checkpoint \<Rightarrow> pow_backend \<Rightarrow> int \<Rightarrow> header_row list \<Rightarrow> chain_view \<Rightarrow> chain_view result" where
  "extend_rows cp pow limit [] v = Inr v"
| "extend_rows cp pow limit (row # rows) v =
     bindR (extend_row cp pow limit row v) (\<lambda>v'. extend_rows cp pow limit rows v')"

definition extend_view :: "header_row list \<Rightarrow> chain_view \<Rightarrow> checkpoint \<Rightarrow> pow_backend \<Rightarrow> int \<Rightarrow> chain_view result" where
  "extend_view rows trusted cp pow now =
     (if hr_height (hd rows) \<noteq> tip_height trusted + 1 then Inl (HeaderError ''rows start not at the trusted tip + 1'') else
      bindR (contiguous rows) (\<lambda>_.
      bindR (extend_rows cp pow (now + BLOCK_FUTURE_TIME_LIMIT) rows trusted) (\<lambda>v.
        if now - last (cv_timestamps v) > STALE_TIP then Inl (HeaderError ''stale tip'')
        else Inr (v\<lparr>cv_checkpoint_height := cp_height cp\<rparr>))))"

definition verify_headers ::
  "header_row list \<Rightarrow> checkpoint \<Rightarrow> pow_backend \<Rightarrow> int \<Rightarrow> rat list \<Rightarrow> rat \<Rightarrow> nat \<Rightarrow> chain_view option \<Rightarrow> chain_view result" where
  "verify_headers rows cp pow now rs sample recent trusted =
     (if rows = [] then Inl (HeaderError ''no header rows supplied'')
      else (case trusted of
              Some v \<Rightarrow> extend_view rows v cp pow now
            | None \<Rightarrow> verify_full rows cp pow now rs sample recent))"

text \<open>\<^verbatim>\<open>best_view\<close>: most work, ties by the smaller tip id; byte strings compare as lists.\<close>

definition best_view :: "chain_view list \<Rightarrow> chain_view option" where
  "best_view views = min_by (\<lambda>v. (- chain_work v, map (unat :: byte \<Rightarrow> nat) (tip_id v))) views"

section \<open>Appending rows\<close>

lemma slice_append_left: "b \<le> length xs \<Longrightarrow> slice (xs @ ys) a b = slice xs a b"
  by (simp add: slice_def)

lemma slice_last_n: "i = length xs \<Longrightarrow> slice (xs @ ys) (i - n) i = last_n n xs"
  by (simp add: slice_def last_n_def)

lemma link_rows_append:
  "link_rows (xs @ ys) hs is = bindR (link_rows xs hs is) (\<lambda>(hs', is'). link_rows ys hs' is')"
  by (induction xs arbitrary: hs "is") (auto simp: bindR_def split: sum.splits)

lemma link_rows_shape:
  "link_rows xs hs is = Inr (hs', is') \<Longrightarrow>
     length hs' = length hs + length xs \<and> length is' = length is + length xs"
  by (induction xs arbitrary: hs "is") (auto simp: bindR_Inr_conv split: if_splits)

lemma ts_rows_append:
  "ts_rows limit seen (xs @ ys) = bindR (ts_rows limit seen xs) (\<lambda>_. ts_rows limit (seen @ xs) ys)"
  by (induction xs arbitrary: seen) auto

lemma ts_rows_later: "ts_rows l seen xs = Inr () \<Longrightarrow> l \<le> l' \<Longrightarrow> ts_rows l' seen xs = Inr ()"
  by (induction xs arbitrary: seen) (auto split: if_splits)

lemma diff_rows_prefix:
  "length cum + length rows \<le> length tss \<Longrightarrow> diff_rows cp (tss @ xtra) rows r cum = diff_rows cp tss rows r cum"
proof (induction rows arbitrary: r cum)
  case (Cons row rows)
  have "slice (tss @ xtra) (length cum - DIFFICULTY_BLOCKS_COUNT) (length cum) =
      slice tss (length cum - DIFFICULTY_BLOCKS_COUNT) (length cum)"
    by (rule slice_append_left) (use Cons.prems in simp)
  with Cons.prems Cons.IH [of "cum @ [r + hr_difficulty row]" "r + hr_difficulty row"] show ?case
    by (simp add: Let_def bindR_def split: sum.split)
qed simp

lemma diff_rows_append:
  "r = (if cum = [] then 0 else last cum) \<Longrightarrow>
   diff_rows cp tss (xs @ ys) r cum =
     bindR (diff_rows cp tss xs r cum) (\<lambda>cum'. diff_rows cp tss ys (if cum' = [] then 0 else last cum') cum')"
proof (induction xs arbitrary: r cum)
  case (Cons row xs)
  show ?case
    using Cons.IH [of "r + hr_difficulty row" "cum @ [r + hr_difficulty row]"]
    by (auto simp: Let_def bindR_def split: sum.splits)
qed simp

lemma diff_rows_length: "diff_rows cp tss rows r cum = Inr cum' \<Longrightarrow> length cum' = length cum + length rows"
  by (induction rows arbitrary: r cum) (auto simp: Let_def bindR_Inr_conv split: if_splits)

lemma contiguous_height:
  "contiguous rows = Inr () \<Longrightarrow> rows \<noteq> [] \<Longrightarrow> hr_height (last rows) = hr_height (hd rows) + int (length rows) - 1"
  by (induction rows rule: contiguous.induct) (auto split: if_splits)

lemma contiguous_append:
  "contiguous xs = Inr () \<Longrightarrow> contiguous ys = Inr () \<Longrightarrow> xs \<noteq> [] \<Longrightarrow> ys \<noteq> [] \<Longrightarrow>
     hr_height (hd ys) = hr_height (last xs) + 1 \<Longrightarrow> contiguous (xs @ ys) = Inr ()"
proof (induction xs)
  case (Cons x xs)
  then show ?case by (cases xs; cases ys) (auto split: if_splits)
qed simp

lemma seed_lookup_append: "seed_lookup ids first h = Inr s \<Longrightarrow> seed_lookup (ids @ xtra) first h = Inr s"
  by (auto simp: seed_lookup_def Let_def nth_append split: if_splits)

lemma pow_row_append:
  "pow_row pow (seed_lookup ids first) row = Inr () \<Longrightarrow> pow_row pow (seed_lookup (ids @ xtra) first) row = Inr ()"
  by (cases "seed_lookup ids first (hr_height row)")
    (auto simp: pow_row_def seed_lookup_append)

definition checked_height :: "checkpoint \<Rightarrow> header_row \<Rightarrow> bool" where
  "checked_height cp row \<longleftrightarrow> hr_height row > cp_height cp - int DIFFICULTY_BLOCKS_COUNT"

lemma check_pow_sufficient:
  "list_all (\<lambda>row. checked_height cp row \<longrightarrow> pow_row pow seed row = Inr ()) rows \<Longrightarrow>
     check_pow pow seed cp sample recent n rows i rs = Inr ()"
proof (induction rows arbitrary: i rs)
  case (Cons row rows)
  obtain req rs' where r: "pow_required row i n cp rs sample recent = (req, rs')" by fastforce
  then have "req \<Longrightarrow> checked_height cp row"
    by (auto simp: pow_required_def checked_height_def split: if_splits)
  with Cons r show ?case by (cases req) auto
qed simp

lemma check_pow_necessary:
  "check_pow pow seed cp sample recent n rows i rs = Inr () \<Longrightarrow> n \<le> i + recent \<Longrightarrow>
     list_all (\<lambda>row. checked_height cp row \<longrightarrow> pow_row pow seed row = Inr ()) rows"
proof (induction rows arbitrary: i rs)
  case (Cons row rows)
  obtain req rs' where r: "pow_required row i n cp rs sample recent = (req, rs')" by fastforce
  then have "checked_height cp row \<Longrightarrow> req"
    using Cons.prems(2) by (auto simp: pow_required_def checked_height_def split: if_splits)
  with Cons r show ?case by (cases req) (auto simp: bindR_Inr_conv)
qed simp

section \<open>Extension is full verification\<close>

lemma extend_row_parts:
  "extend_row cp pow limit row v = Inr v' \<Longrightarrow>
   \<exists>head. parse_row row = Inr head \<and> hh_prev_id head = last (cv_ids v) \<and> head_time head \<le> limit \<and>
     \<not> (60 \<le> length (cv_timestamps v) \<and> head_time head < median (last_n 60 (cv_timestamps v))) \<and>
     (if hr_height row > cp_height cp
      then next_difficulty (last_n DIFFICULTY_BLOCKS_COUNT (cv_timestamps v))
             (last_n DIFFICULTY_BLOCKS_COUNT (cv_cumulative v)) MONERO_BLOCK_TIME = Inr (hr_difficulty row)
      else 1 \<le> hr_difficulty row) \<and>
     pow_row pow (seed_lookup (cv_ids v) (cv_first v)) row = Inr () \<and>
     v' = v\<lparr> cv_ids := cv_ids v @ [block_id (hr_blob row)], cv_timestamps := cv_timestamps v @ [head_time head],
             cv_difficulties := cv_difficulties v @ [hr_difficulty row],
             cv_cumulative := cv_cumulative v @ [last (cv_cumulative v) + hr_difficulty row],
             cv_blobs := cv_blobs v @ [hr_blob row] \<rparr>"
  by (auto simp: extend_row_def bindR_Inr_conv Let_def split: if_splits)

definition view_wf :: "chain_view \<Rightarrow> bool" where
  "view_wf v \<longleftrightarrow> cv_ids v \<noteq> [] \<and> length (cv_timestamps v) = length (cv_ids v) \<and>
     length (cv_cumulative v) = length (cv_ids v)"

lemma view_wf_lists: "view_wf v \<Longrightarrow> cv_ids v \<noteq> [] \<and> cv_timestamps v \<noteq> [] \<and> cv_cumulative v \<noteq> []"
  by (auto simp: view_wf_def)

lemma extend_rows_checks:
  "extend_rows cp pow limit rows v = Inr v' \<Longrightarrow> view_wf v \<Longrightarrow>
   \<exists>hs ids. length hs = length rows \<and> link_rows rows heads (cv_ids v) = Inr (heads @ hs, cv_ids v') \<and>
     cv_ids v' = cv_ids v @ ids \<and>
     cv_timestamps v' = cv_timestamps v @ map head_time hs \<and>
     ts_rows limit (cv_timestamps v) (map head_time hs) = Inr () \<and>
     diff_rows cp (cv_timestamps v') rows (last (cv_cumulative v)) (cv_cumulative v) = Inr (cv_cumulative v') \<and>
     cv_difficulties v' = cv_difficulties v @ map hr_difficulty rows \<and>
     cv_blobs v' = cv_blobs v @ map hr_blob rows \<and> cv_first v' = cv_first v \<and> view_wf v' \<and>
     list_all (\<lambda>row. pow_row pow (seed_lookup (cv_ids v') (cv_first v)) row = Inr ()) rows"
proof (induction rows arbitrary: v heads)
  case (Cons row rows)
  then obtain w where w: "extend_row cp pow limit row v = Inr w" "extend_rows cp pow limit rows w = Inr v'"
    by (auto simp: bindR_Inr_conv)
  from extend_row_parts [OF w(1)] obtain head where h: "parse_row row = Inr head" "hh_prev_id head = last (cv_ids v)"
    "head_time head \<le> limit" "\<not> (60 \<le> length (cv_timestamps v) \<and> head_time head < median (last_n 60 (cv_timestamps v)))"
    and dif: "if hr_height row > cp_height cp
      then next_difficulty (last_n DIFFICULTY_BLOCKS_COUNT (cv_timestamps v))
             (last_n DIFFICULTY_BLOCKS_COUNT (cv_cumulative v)) MONERO_BLOCK_TIME = Inr (hr_difficulty row)
      else 1 \<le> hr_difficulty row"
    and p: "pow_row pow (seed_lookup (cv_ids v) (cv_first v)) row = Inr ()"
    and we: "w = v\<lparr> cv_ids := cv_ids v @ [block_id (hr_blob row)], cv_timestamps := cv_timestamps v @ [head_time head],
             cv_difficulties := cv_difficulties v @ [hr_difficulty row],
             cv_cumulative := cv_cumulative v @ [last (cv_cumulative v) + hr_difficulty row],
             cv_blobs := cv_blobs v @ [hr_blob row] \<rparr>" by blast
  have wf: "view_wf w" using Cons.prems(2) by (simp add: we view_wf_def)
  from Cons.IH [OF w(2) wf, of "heads @ [head]"] obtain hs ids where I: "length hs = length rows"
    "link_rows rows (heads @ [head]) (cv_ids w) = Inr ((heads @ [head]) @ hs, cv_ids v')" "cv_ids v' = cv_ids w @ ids"
    "cv_timestamps v' = cv_timestamps w @ map head_time hs" "ts_rows limit (cv_timestamps w) (map head_time hs) = Inr ()"
    "diff_rows cp (cv_timestamps v') rows (last (cv_cumulative w)) (cv_cumulative w) = Inr (cv_cumulative v')"
    "cv_difficulties v' = cv_difficulties w @ map hr_difficulty rows" "cv_blobs v' = cv_blobs w @ map hr_blob rows"
    "cv_first v' = cv_first w" "view_wf v'"
    "list_all (\<lambda>row. pow_row pow (seed_lookup (cv_ids v') (cv_first w)) row = Inr ()) rows" by blast
  let ?i = "length (cv_cumulative v)"
  have i: "?i = length (cv_timestamps v)" using Cons.prems(2) by (simp add: view_wf_def)
  have sl: "slice (cv_timestamps v') (?i - DIFFICULTY_BLOCKS_COUNT) ?i = last_n DIFFICULTY_BLOCKS_COUNT (cv_timestamps v)"
    unfolding I(4) we by (simp add: slice_last_n [OF i])
  have sc: "slice (cv_cumulative v) (?i - DIFFICULTY_BLOCKS_COUNT) ?i = last_n DIFFICULTY_BLOCKS_COUNT (cv_cumulative v)"
    using slice_last_n [of ?i "cv_cumulative v" "[]"] by simp
  have D: "diff_rows cp (cv_timestamps v') (row # rows) (last (cv_cumulative v)) (cv_cumulative v) = Inr (cv_cumulative v')"
    using dif I(6) by (simp add: Let_def sl sc we split: if_splits)
  show ?case
    using I h Cons.prems(2) D pow_row_append [OF p]
    by (intro exI [of _ "head # hs"] exI [of _ "block_id (hr_blob row) # ids"]) (auto simp: we view_wf_def)
qed (auto simp: view_wf_def)

text \<open>What a successful full verification has checked.\<close>

lemma verify_full_parts:
  assumes "verify_full rows cp pow now rs sample recent = Inr v"
  obtains heads where "check_shape rows cp = Inr ()" "rows \<noteq> []" "contiguous rows = Inr ()"
    "hr_height (hd rows) \<le> cp_height cp" "cp_height cp \<le> hr_height (last rows)"
    "link_rows rows [] [] = Inr (heads, cv_ids v)" "length heads = length rows"
    "cv_ids v ! nat (cp_height cp - hr_height (hd rows)) = cp_hash cp"
    "ts_rows (now + BLOCK_FUTURE_TIME_LIMIT) [] (map head_time heads) = Inr ()"
    "diff_rows cp (map head_time heads) rows 0 [] = Inr (cv_cumulative v)"
    "check_pow pow (seed_lookup (cv_ids v) (hr_height (hd rows))) cp sample recent (length rows) rows 0 rs = Inr ()"
    "now - last (cv_timestamps v) \<le> STALE_TIP" "cv_timestamps v = map head_time heads"
    "cv_first v = hr_height (hd rows)" "cv_checkpoint_height v = cp_height cp"
    "cv_difficulties v = map hr_difficulty rows" "cv_blobs v = map hr_blob rows" "view_wf v"
proof -
  have sh: "check_shape rows cp = Inr ()" using assms by (auto simp: verify_full_def bindR_Inr_conv)
  then have rows: "rows \<noteq> []" "contiguous rows = Inr ()" "hr_height (hd rows) \<le> cp_height cp" "cp_height cp \<le> hr_height (last rows)"
    by (auto simp: check_shape_def Let_def bindR_Inr_conv split: if_splits)
  from assms sh obtain heads ids cum where
    l: "check_linkage rows cp = Inr (heads, ids)" and t: "check_timestamps heads now = Inr ()"
    and d: "check_difficulty rows heads cp = Inr cum"
    and p: "check_pow pow (seed_lookup ids (hr_height (hd rows))) cp sample recent (length rows) rows 0 rs = Inr ()"
    and s: "now - last (map head_time heads) \<le> STALE_TIP"
    and v: "v = \<lparr> cv_first = hr_height (hd rows), cv_ids = ids, cv_timestamps = map head_time heads,
            cv_difficulties = map hr_difficulty rows, cv_cumulative = cum,
            cv_blobs = map hr_blob rows, cv_checkpoint_height = cp_height cp \<rparr>"
    by (auto simp: verify_full_def bindR_Inr_conv Let_def split: if_splits)
  have lr: "link_rows rows [] [] = Inr (heads, ids)" "ids ! nat (cp_height cp - hr_height (hd rows)) = cp_hash cp"
    using l by (auto simp: check_linkage_def bindR_Inr_conv split: if_splits)
  note len = link_rows_shape [OF lr(1)]
  have dr: "diff_rows cp (map head_time heads) rows 0 [] = Inr cum" using d by (simp add: check_difficulty_def)
  have "view_wf v" using len diff_rows_length [OF dr] rows(1) by (auto simp: view_wf_def v)
  with that [of heads] sh rows lr len t dr p s show thesis by (simp add: v check_timestamps_def)
qed

lemma diff_rows_sums:
  "diff_rows cp tss rows r cum = Inr cum' \<Longrightarrow>
     cum' = cum @ map (\<lambda>i. r + sum_list (map hr_difficulty (take (Suc i) rows))) [0..<length rows]"
proof (induction rows arbitrary: r cum)
  case (Cons row rows)
  then have "diff_rows cp tss rows (r + hr_difficulty row) (cum @ [r + hr_difficulty row]) = Inr cum'"
    by (auto simp: Let_def bindR_Inr_conv split: if_splits)
  from Cons.IH [OF this] show ?case
    by (simp add: upt_conv_Cons map_Suc_upt [symmetric] comp_def add.assoc del: upt_Suc)
qed simp

lemma link_rows_ids:
  "link_rows rows heads is = Inr (heads', is') \<Longrightarrow>
     is' = is @ map (block_id \<circ> hr_blob) rows \<and> heads' = heads @ drop (length heads) heads' \<and>
     list_all2 (\<lambda>row head. parse_row row = Inr head) rows (drop (length heads) heads')"
proof (induction rows arbitrary: heads "is")
  case (Cons row rows)
  then obtain head where "parse_row row = Inr head"
    "link_rows rows (heads @ [head]) (is @ [block_id (hr_blob row)]) = Inr (heads', is')"
    by (auto simp: bindR_Inr_conv split: if_splits)
  with Cons.IH [OF this(2)] have I: "is' = is @ block_id (hr_blob row) # map (block_id \<circ> hr_blob) rows"
    "heads' = (heads @ [head]) @ drop (Suc (length heads)) heads'"
    "list_all2 (\<lambda>row head. parse_row row = Inr head) rows (drop (Suc (length heads)) heads')" by simp_all
  have "drop (length heads) heads' = head # drop (Suc (length heads)) heads'"
    by (subst I(2)) simp
  then show ?case using I \<open>parse_row row = Inr head\<close> by simp
qed simp

lemma link_rows_prev:
  "link_rows rows heads is = Inr (heads', is') \<Longrightarrow> i < length rows \<Longrightarrow> 0 < length is + i \<Longrightarrow> length heads = length is \<Longrightarrow>
     hh_prev_id (heads' ! (length heads + i)) = is' ! (length is + i - 1)"
proof (induction rows arbitrary: heads "is" i)
  case (Cons row rows)
  then obtain head where h: "parse_row row = Inr head" "is = [] \<or> hh_prev_id head = last is"
    "link_rows rows (heads @ [head]) (is @ [block_id (hr_blob row)]) = Inr (heads', is')"
    by (auto simp: bindR_Inr_conv split: if_splits)
  show ?case
  proof (cases i)
    case 0
    then have ne: "is \<noteq> []" using Cons.prems by simp
    from link_rows_ids [OF h(3)] have "heads' = (heads @ [head]) @ drop (Suc (length heads)) heads'"
      "is' = is @ block_id (hr_blob row) # map (block_id \<circ> hr_blob) rows" by simp_all
    then have "heads' ! length heads = head" "is' ! (length is - 1) = last is"
      using ne by (metis append_assoc append_Cons nth_append_length, simp add: nth_append last_conv_nth)
    then show ?thesis using 0 h(2) ne by simp
  next
    case (Suc j)
    then show ?thesis using Cons.IH [OF h(3), of j] Cons.prems by simp
  qed
qed simp

lemma contiguous_nth:
  "contiguous rows = Inr () \<Longrightarrow> i < length rows \<Longrightarrow> hr_height (rows ! i) = hr_height (hd rows) + int i"
proof (induction rows arbitrary: i rule: contiguous.induct)
  case (1 a b rows)
  then show ?case by (cases i) (auto split: if_splits)
qed auto

section \<open>A small chain\<close>

text \<open>A one-block chain and its extension, for the witnesses.\<close>

definition wit_blob :: "bytes \<Rightarrow> bytes" where
  "wit_blob prev = write_varint 1 @ write_varint 1 @ write_varint 100 @ (prev @ le_bytes 4 0 @ replicate 32 0 @ write_varint 1)"

definition wit_row :: "int \<Rightarrow> bytes \<Rightarrow> header_row" where
  "wit_row h prev = \<lparr> hr_height = h, hr_blob = wit_blob prev, hr_difficulty = 1 \<rparr>"

definition wit_id :: bytes where "wit_id = block_id (wit_blob (replicate 32 0))"

definition wit_cp :: checkpoint where "wit_cp = \<lparr> cp_height = 0, cp_hash = wit_id \<rparr>"

definition wit_pow :: pow_backend where "wit_pow _ _ _ = replicate 32 0"

definition wit_view :: chain_view where
  "wit_view = \<lparr> cv_first = 0, cv_ids = [wit_id], cv_timestamps = [100], cv_difficulties = [1], cv_cumulative = [1],
     cv_blobs = [wit_blob (replicate 32 0)], cv_checkpoint_height = 0 \<rparr>"

definition wit_view2 :: chain_view where
  "wit_view2 = \<lparr> cv_first = 0, cv_ids = [wit_id, block_id (wit_blob wit_id)], cv_timestamps = [100, 100],
     cv_difficulties = [1, 1], cv_cumulative = [1, 2],
     cv_blobs = [wit_blob (replicate 32 0), wit_blob wit_id], cv_checkpoint_height = 0 \<rparr>"

lemma wit_parse: "length prev = 32 \<Longrightarrow> parse_row (wit_row h prev) =
    Inr \<lparr> hh_major = 1, hh_minor = 1, hh_timestamp = 100, hh_prev_id = prev, hh_nonce = 0, hh_tx_root = replicate 32 0, hh_n_tx = 1 \<rparr>"
  unfolding parse_row_def wit_row_def wit_blob_def header_row.simps by (subst parse_hashing_blob_at) simp_all

lemma wit_id_length: "length wit_id = 32" by (simp add: wit_id_def block_id_def)

lemma le_val_zeros: "le_val (replicate n 0) = 0"
  by (induction n) simp_all

lemma wit_check: "check_hash (replicate 32 0) 1"
  by (simp add: check_hash_def le_val_zeros)

lemma wit_seed: "seed_height 0 = 0" "seed_height (Suc 0) = 0"
  by (simp_all add: seed_height_def)

lemma wit_pow_row: "0 \<le> h \<Longrightarrow> h \<le> 1 \<Longrightarrow> pow_row wit_pow (seed_lookup (wit_id # ids) 0) (wit_row h prev) = Inr ()"
proof -
  assume "0 \<le> h" "h \<le> 1"
  then have "h = 0 \<or> h = 1" by linarith
  then show ?thesis by (auto simp: pow_row_def seed_lookup_def wit_row_def wit_pow_def wit_seed wit_check Let_def)
qed

lemma wit_accept_any: "verify_headers [wit_row 0 (replicate 32 0)] wit_cp wit_pow 100 rs sample recent None = Inr wit_view"
proof -
  let ?r = "wit_row 0 (replicate 32 0)"
  have sh: "check_shape [?r] wit_cp = Inr ()" by (simp add: check_shape_def wit_cp_def wit_row_def Let_def)
  have p: "parse_row ?r = Inr \<lparr> hh_major = 1, hh_minor = 1, hh_timestamp = 100, hh_prev_id = replicate 32 0, hh_nonce = 0,
      hh_tx_root = replicate 32 0, hh_n_tx = 1 \<rparr>" (is "_ = Inr ?h")
    by (rule wit_parse) simp
  have bid: "block_id (hr_blob ?r) = wit_id" by (simp add: wit_row_def wit_id_def)
  have l: "check_linkage [?r] wit_cp = Inr ([?h], [wit_id])"
    by (simp add: check_linkage_def p bid wit_cp_def) (simp add: wit_row_def)
  have t: "check_timestamps [?h] 100 = Inr ()" by (simp add: check_timestamps_def head_time_def BLOCK_FUTURE_TIME_LIMIT_def)
  have d: "check_difficulty [?r] [?h] wit_cp = Inr [1]" by (simp add: check_difficulty_def wit_row_def wit_cp_def Let_def)
  have w: "check_pow wit_pow (seed_lookup [wit_id] (hr_height (hd [?r]))) wit_cp sample recent (length [?r]) [?r] 0 rs = Inr ()"
    by (rule check_pow_sufficient) (use wit_pow_row [of 0 "[]" "replicate 32 0"] in \<open>simp add: wit_row_def\<close>)
  show ?thesis
    unfolding verify_headers_def verify_full_def sh l t d w bindR_simps prod.case option.case
    by (simp add: Let_def head_time_def STALE_TIP_def wit_view_def wit_row_def wit_cp_def)
qed

lemmas wit_accept = wit_accept_any [of "[]" 0 1]

lemma wit_extend: "verify_headers [wit_row 1 wit_id] wit_cp wit_pow 100 [] 0 1 (Some wit_view) = Inr wit_view2"
proof -
  have nd: "next_difficulty [100] [1] MONERO_BLOCK_TIME = Inr 1"
    by (simp add: next_difficulty_def Let_def DIFFICULTY_WINDOW_def)
  have ln: "last_n DIFFICULTY_BLOCKS_COUNT [x] = [x]" for x :: int
    by (simp add: last_n_def DIFFICULTY_BLOCKS_COUNT_def DIFFICULTY_WINDOW_def DIFFICULTY_LAG_def)
  have r: "hr_height (wit_row 1 wit_id) = 1" "hr_difficulty (wit_row 1 wit_id) = 1" "hr_blob (wit_row 1 wit_id) = wit_blob wit_id"
    by (simp_all add: wit_row_def)
  have v: "cv_ids wit_view = [wit_id]" "cv_timestamps wit_view = [100]" "cv_cumulative wit_view = [1]" "cv_first wit_view = 0"
    "cv_difficulties wit_view = [1]" "cv_blobs wit_view = [wit_blob (replicate 32 0)]"
    by (simp_all add: wit_view_def)
  have x: "extend_row wit_cp wit_pow (100 + BLOCK_FUTURE_TIME_LIMIT) (wit_row 1 wit_id) wit_view = Inr wit_view2"
    unfolding extend_row_def wit_parse [OF wit_id_length] bindR_simps
    by (simp add: Let_def head_time_def v ln nd r wit_pow_row BLOCK_FUTURE_TIME_LIMIT_def)
       (simp add: wit_cp_def wit_view_def wit_view2_def)
  show ?thesis
    by (simp add: verify_headers_def extend_view_def x)
       (simp add: tip_height_def v r wit_view2_def wit_cp_def STALE_TIP_def)
qed

section \<open>Guarantees\<close>

text \<open>C13. What a fresh verification accepts is a chain through the checkpoint: heights are consecutive, every
  id is the block id of its header, every header names the id before it as its parent, the checkpoint
  height has the checkpoint's id, the tip is no older than half an hour, and the work of the view is
  the sum of the difficulties of the rows after the checkpoint.\<close>

theorem accepted_view:
  assumes "verify_headers rows cp pow now rs sample recent None = Inr v"
  shows "length (cv_ids v) = length rows \<and> cv_first v \<le> cp_height cp \<and> cp_height cp \<le> tip_height v \<and>
     (\<forall>i < length rows. hr_height (rows ! i) = cv_first v + int i \<and> cv_ids v ! i = block_id (hr_blob (rows ! i)) \<and>
        (0 < i \<longrightarrow> (\<exists>head. parse_hashing_blob (hr_blob (rows ! i)) = Inr head \<and> hh_prev_id head = cv_ids v ! (i - 1)))) \<and>
     id_at (cp_height cp) v = Inr (cp_hash cp) \<and> now - last (cv_timestamps v) \<le> 1800 \<and>
     chain_work v = sum_list (map hr_difficulty (drop (Suc (nat (cp_height cp - cv_first v))) rows))"
proof -
  have "verify_full rows cp pow now rs sample recent = Inr v"
    using assms by (auto simp: verify_headers_def split: if_splits)
  then obtain heads where F: "rows \<noteq> []" "contiguous rows = Inr ()"
    "hr_height (hd rows) \<le> cp_height cp" "cp_height cp \<le> hr_height (last rows)"
    "link_rows rows [] [] = Inr (heads, cv_ids v)" "length heads = length rows"
    "cv_ids v ! nat (cp_height cp - hr_height (hd rows)) = cp_hash cp"
    "diff_rows cp (map head_time heads) rows 0 [] = Inr (cv_cumulative v)"
    "now - last (cv_timestamps v) \<le> STALE_TIP"
    "cv_first v = hr_height (hd rows)" "cv_checkpoint_height v = cp_height cp"
    by (rule verify_full_parts)
  define n where "n = nat (cp_height cp - cv_first v)"
  note L = link_rows_ids [OF F(5)] and S = link_rows_shape [OF F(5)]
  have last: "hr_height (last rows) = cv_first v + int (length rows) - 1"
    using contiguous_height [OF F(2,1)] F(10) by simp
  have n: "n < length rows" "cp_height cp = cv_first v + int n" using F(3,4,10) last by (simp_all add: n_def)
  have rows: "hr_height (rows ! i) = cv_first v + int i \<and> cv_ids v ! i = block_id (hr_blob (rows ! i)) \<and>
        (0 < i \<longrightarrow> (\<exists>head. parse_hashing_blob (hr_blob (rows ! i)) = Inr head \<and> hh_prev_id head = cv_ids v ! (i - 1)))"
    if "i < length rows" for i
  proof -
    have "parse_row (rows ! i) = Inr (heads ! i)"
      using L that by (simp add: list_all2_conv_all_nth)
    then have "parse_hashing_blob (hr_blob (rows ! i)) = Inr (heads ! i)" by (simp add: parse_row_def split: sum.splits)
    then show ?thesis
      using contiguous_nth [OF F(2) that] link_rows_prev [OF F(5) that] L that F(10) by auto
  qed
  have C: "cv_cumulative v ! i = sum_list (map hr_difficulty (take (Suc i) rows))" if "i < length rows" for i
    using diff_rows_sums [OF F(8)] that by simp
  have lc: "length (cv_cumulative v) = length rows" using diff_rows_length [OF F(8)] by simp
  have "last (cv_cumulative v) = sum_list (map hr_difficulty rows)"
    using C [of "length rows - 1"] lc F(1) by (subst last_conv_nth) auto
  moreover have "rows = take (Suc n) rows @ drop (Suc n) rows" by simp
  then have "sum_list (map hr_difficulty rows) =
      sum_list (map hr_difficulty (take (Suc n) rows)) + sum_list (map hr_difficulty (drop (Suc n) rows))"
    by (metis map_append sum_list_append)
  ultimately have work: "chain_work v = sum_list (map hr_difficulty (drop (Suc n) rows))"
    using n lc C [OF n(1)] by (simp add: chain_work_def F(11) Let_def n_def [symmetric])
  have ids: "length (cv_ids v) = length rows" using S by simp
  have tip: "cv_first v \<le> cp_height cp" "cp_height cp \<le> tip_height v"
    using n ids F(3,10) by (simp_all add: tip_height_def)
  have at: "id_at (cp_height cp) v = Inr (cp_hash cp)"
    using n ids F(7,10) by (simp add: id_at_def py_index_def)
  have fresh: "now - last (cv_timestamps v) \<le> 1800" using F(9) by (simp add: STALE_TIP_def)
  from rows ids tip at fresh work show ?thesis unfolding n_def by blast
qed

lemma accepted_view_witness:
  "verify_headers [wit_row 0 (replicate 32 0)] wit_cp wit_pow 100 [] 0 1 None = Inr wit_view \<and> chain_work wit_view = 0"
  using accepted_view [OF wit_accept] wit_accept by (simp add: wit_cp_def wit_view_def)



end
