(* ===== verification/Blob.thy ===== *)
theory Blob
  imports Ranges Varint Keccak Floats
begin

text \<open>
  \<open>transpeer/anchor/blob.py\<close>: the canonical list blob. A chain name is a Python string, here the list of
  its code points; UTF-8 is the standard library's strict codec.
\<close>

section \<open>UTF-8\<close>

type_synonym ustring = "nat list"

definition utf8_char :: "nat \<Rightarrow> nat list option" where
  "utf8_char c =
     (if c < 0x80 then Some [c]
      else if c < 0x800 then Some [0xC0 + c div 64, 0x80 + c mod 64]
      else if 0xD800 \<le> c \<and> c \<le> 0xDFFF then None
      else if c < 0x10000 then Some [0xE0 + c div 4096, 0x80 + c div 64 mod 64, 0x80 + c mod 64]
      else if c < 0x110000 then
        Some [0xF0 + c div 262144, 0x80 + c div 4096 mod 64, 0x80 + c div 64 mod 64, 0x80 + c mod 64]
      else None)"

fun utf8_chars :: "ustring \<Rightarrow> nat list option" where
  "utf8_chars [] = Some []"
| "utf8_chars (c # cs) = (case utf8_char c of None \<Rightarrow> None
     | Some bs \<Rightarrow> map_option (\<lambda>r. bs @ r) (utf8_chars cs))"

definition cont_byte :: "nat \<Rightarrow> bool" where
  "cont_byte b \<longleftrightarrow> 0x80 \<le> b \<and> b < 0xC0"

text \<open>One character at the head of the bytes, and the bytes after it. Overlong forms, surrogates and
  values past the last code point are refused.\<close>

definition utf8_head :: "nat list \<Rightarrow> (nat \<times> nat list) option" where
  "utf8_head bs = (case bs of [] \<Rightarrow> None
     | a # r1 \<Rightarrow>
        if a < 0x80 then Some (a, r1)
        else if a < 0xC2 then None
        else (case r1 of [] \<Rightarrow> None
          | b # r2 \<Rightarrow>
            if \<not> cont_byte b then None
            else if a < 0xE0 then Some ((a - 0xC0) * 64 + (b - 0x80), r2)
            else (case r2 of [] \<Rightarrow> None
              | c # r3 \<Rightarrow>
                if \<not> cont_byte c then None
                else if a < 0xF0 then
                  (let v = (a - 0xE0) * 4096 + (b - 0x80) * 64 + (c - 0x80) in
                   if v < 0x800 \<or> 0xD800 \<le> v \<and> v \<le> 0xDFFF then None else Some (v, r3))
                else (case r3 of [] \<Rightarrow> None
                  | d # r4 \<Rightarrow>
                    if \<not> cont_byte d then None
                    else (let v = (a - 0xF0) * 262144 + (b - 0x80) * 4096 + (c - 0x80) * 64 + (d - 0x80) in
                          if v < 0x10000 \<or> 0x10FFFF < v then None else Some (v, r4))))))"

lemma utf8_head_shorter: "utf8_head bs = Some (c, r) \<Longrightarrow> length r < length bs"
  by (auto simp: utf8_head_def Let_def split: list.splits if_splits)

function utf8_points :: "nat list \<Rightarrow> ustring option" where
  "utf8_points bs = (if bs = [] then Some [] else
     (case utf8_head bs of None \<Rightarrow> None | Some (c, r) \<Rightarrow> map_option (\<lambda>cs. c # cs) (utf8_points r)))"
  by pat_completeness auto
termination by (relation "measure length") (auto intro: utf8_head_shorter)

declare utf8_points.simps [simp del]

definition utf8_encode :: "ustring \<Rightarrow> bytes result" where
  "utf8_encode s = (case utf8_chars s of
     None \<Rightarrow> Inl (ValueError ''surrogates not allowed'') | Some bs \<Rightarrow> Inr (map word_of_nat bs))"

definition utf8_decode :: "bytes \<Rightarrow> ustring result" where
  "utf8_decode data = (case utf8_points (map unat data) of
     None \<Rightarrow> Inl (ValueError ''invalid UTF-8'') | Some s \<Rightarrow> Inr s)"

lemma sextets:
  assumes "x < 64" "y < 64" "z < 64" and v: "v = w * 262144 + z * 4096 + y * 64 + (x :: nat)"
  shows "v mod 64 = x" "v div 64 = w * 4096 + z * 64 + y" "v div 4096 = w * 64 + z" "v div 262144 = w"
    "(w * 4096 + z * 64 + y) mod 64 = y" "(w * 64 + z) mod 64 = z"
proof -
  have q: "(k * 64 + j) div 64 = k \<and> (k * 64 + j) mod 64 = j" if "j < 64" for k j :: nat using that by simp
  have e: "v = (w * 4096 + z * 64 + y) * 64 + x" "w * 4096 + z * 64 + y = (w * 64 + z) * 64 + y" using v by simp_all
  show a: "v mod 64 = x" "v div 64 = w * 4096 + z * 64 + y" unfolding e(1) using q [OF assms(1)] by blast+
  show b: "(w * 4096 + z * 64 + y) mod 64 = y" unfolding e(2) using q [OF assms(2)] by blast
  have b': "(w * 4096 + z * 64 + y) div 64 = w * 64 + z" unfolding e(2) using q [OF assms(2)] by blast
  show c: "(w * 64 + z) mod 64 = z" using q [OF assms(3)] by blast
  show d: "v div 4096 = w * 64 + z" using div_mult2_eq [of v 64 64] a b' by simp
  show "v div 262144 = w" using div_mult2_eq [of v 4096 64] d q [OF assms(3), of w] by simp
qed

lemma sextets_of:
  obtains w z y x where "x < 64" "y < 64" "z < 64" "c = w * 262144 + z * 4096 + y * 64 + (x :: nat)"
proof
  show "c mod 64 < 64" "c div 64 mod 64 < 64" "c div 4096 mod 64 < 64" by simp_all
  have "c div 4096 = c div 64 div 64" "c div 262144 = c div 4096 div 64" by (simp_all add: div_mult2_eq [symmetric])
  then show "c = c div 262144 * 262144 + c div 4096 mod 64 * 4096 + c div 64 mod 64 * 64 + c mod 64"
    using div_mult_mod_eq [of c 64] div_mult_mod_eq [of "c div 64" 64] div_mult_mod_eq [of "c div 4096" 64] by linarith
qed

lemma utf8_head_char: "utf8_char c = Some bs \<Longrightarrow> utf8_head (bs @ r) = Some (c, r)"
proof -
  assume a: "utf8_char c = Some bs"
  obtain w z y x where l: "x < 64" "y < 64" "z < 64" and c: "c = w * 262144 + z * 4096 + y * 64 + x" by (rule sextets_of)
  note d = sextets [OF l c]
  from a consider "c < 0x80" "bs = [c]"
    | "0x80 \<le> c" "c < 0x800" "bs = [0xC0 + (w * 4096 + z * 64 + y), 0x80 + x]"
    | "0x800 \<le> c" "c < 0x10000" "\<not> (0xD800 \<le> c \<and> c \<le> 0xDFFF)" "bs = [0xE0 + (w * 64 + z), 0x80 + y, 0x80 + x]"
    | "0x10000 \<le> c" "c < 0x110000" "bs = [0xF0 + w, 0x80 + z, 0x80 + y, 0x80 + x]"
    unfolding utf8_char_def d by (auto split: if_splits)
  then show ?thesis
  proof cases
    case 1
    then show ?thesis by (simp add: utf8_head_def)
  next
    case 2
    then show ?thesis using l c by (simp add: utf8_head_def cont_byte_def)
  next
    case 3
    define k where "k = w * 64 + z"
    have "c = k * 4096 + y * 64 + x" "k < 16" using c 3(2) by (simp_all add: k_def)
    moreover have "bs = [0xE0 + k, 0x80 + y, 0x80 + x]" using 3 by (simp add: k_def)
    ultimately show ?thesis using 3(1,3) l by (auto simp: utf8_head_def cont_byte_def Let_def)
  next
    case 4
    then show ?thesis using l c by (simp add: utf8_head_def cont_byte_def Let_def)
  qed
qed

lemma utf8_char_head:
  assumes h: "utf8_head bs = Some (v, r)" and b: "\<forall>b \<in> set bs. b < 256"
  shows "\<exists>p. utf8_char v = Some p \<and> bs = p @ r"
proof -
  from h consider "v < 0x80" "bs = v # r"
    | a b where "bs = a # b # r" "0xC2 \<le> a" "a < 0xE0" "cont_byte b" "v = (a - 0xC0) * 64 + (b - 0x80)"
    | a b c where "bs = a # b # c # r" "0xE0 \<le> a" "a < 0xF0" "cont_byte b" "cont_byte c"
        "v = (a - 0xE0) * 4096 + (b - 0x80) * 64 + (c - 0x80)" "0x800 \<le> v" "\<not> (0xD800 \<le> v \<and> v \<le> 0xDFFF)"
    | a b c d where "bs = a # b # c # d # r" "0xF0 \<le> a" "cont_byte b" "cont_byte c" "cont_byte d"
        "v = (a - 0xF0) * 262144 + (b - 0x80) * 4096 + (c - 0x80) * 64 + (d - 0x80)" "0x10000 \<le> v" "v \<le> 0x10FFFF"
    unfolding utf8_head_def by (auto simp: Let_def split: list.splits if_splits)
  then show ?thesis
  proof cases
    case 1
    then show ?thesis by (simp add: utf8_char_def)
  next
    case (2 a b)
    then have l: "b - 0x80 < 64" "a - 0xC0 < 64" "(0::nat) < 64"
      and v: "v = 0 * 262144 + 0 * 4096 + (a - 0xC0) * 64 + (b - 0x80)" by (auto simp: cont_byte_def)
    have "\<not> v < 0x80" "v < 0x800" using 2 by (auto simp: cont_byte_def)
    then show ?thesis using 2 unfolding utf8_char_def sextets [OF l v] by (simp add: cont_byte_def)
  next
    case (3 a b c)
    then have l: "c - 0x80 < 64" "b - 0x80 < 64" "a - 0xE0 < 64"
      and v: "v = 0 * 262144 + (a - 0xE0) * 4096 + (b - 0x80) * 64 + (c - 0x80)" unfolding cont_byte_def by linarith+
    have "\<not> v < 0x80" "\<not> v < 0x800" "v < 0x10000" using 3 l v by linarith+
    then show ?thesis using 3 unfolding utf8_char_def sextets [OF l v] by (simp add: cont_byte_def)
  next
    case (4 a b c d)
    then have l: "d - 0x80 < 64" "c - 0x80 < 64" "b - 0x80 < 64"
      and v: "v = (a - 0xF0) * 262144 + (b - 0x80) * 4096 + (c - 0x80) * 64 + (d - 0x80)" unfolding cont_byte_def by linarith+
    have "\<not> v < 0x80" "\<not> v < 0x800" "\<not> v < 0x10000" "v < 0x110000" "\<not> v \<le> 0xDFFF" using 4 by linarith+
    then show ?thesis using 4 unfolding utf8_char_def sextets [OF l v] by (simp add: cont_byte_def)
  qed
qed

lemma utf8_chars_bytes: "utf8_chars s = Some bs \<Longrightarrow> \<forall>b \<in> set bs. b < 256"
proof (induction s arbitrary: bs)
  case (Cons c s)
  then obtain p r where "utf8_char c = Some p" "utf8_chars s = Some r" "bs = p @ r" by (auto split: option.splits)
  moreover from this(1) have "\<forall>b \<in> set p. b < 256"
    by (auto simp: utf8_char_def less_mult_imp_div_less split: if_splits)
  ultimately show ?case using Cons.IH by auto
qed simp

lemma utf8_points_chars: "utf8_chars s = Some bs \<Longrightarrow> utf8_points bs = Some s"
proof (induction s arbitrary: bs)
  case Nil
  then show ?case by (subst utf8_points.simps) simp
next
  case (Cons c s)
  then obtain p r where a: "utf8_char c = Some p" "utf8_chars s = Some r" "bs = p @ r" by (auto split: option.splits)
  from a(1) have "p \<noteq> []" by (auto simp: utf8_char_def split: if_splits)
  then show ?case using a Cons.IH [OF a(2)] utf8_head_char [OF a(1), of r] by (subst utf8_points.simps) simp
qed

lemma utf8_chars_points: "utf8_points bs = Some s \<Longrightarrow> \<forall>b \<in> set bs. b < 256 \<Longrightarrow> utf8_chars s = Some bs"
proof (induction bs arbitrary: s rule: utf8_points.induct)
  case (1 bs)
  show ?case
  proof (cases "bs = []")
    case True
    then show ?thesis using 1(2) by (subst (asm) utf8_points.simps) simp
  next
    case False
    with 1(2) obtain c r cs where a: "utf8_head bs = Some (c, r)" "utf8_points r = Some cs" "s = c # cs"
      by (subst (asm) utf8_points.simps) (auto split: option.splits)
    from utf8_char_head [OF a(1) 1(3)] obtain p where p: "utf8_char c = Some p" "bs = p @ r" by blast
    then show ?thesis using 1(1) [OF False a(1) refl a(2)] 1(3) by (simp add: a(3))
  qed
qed

lemma map_unat_of_nat: "\<forall>b \<in> set bs. b < 256 \<Longrightarrow> map unat (map (word_of_nat :: nat \<Rightarrow> byte) bs) = bs"
  by (induction bs) (simp_all add: unat_of_nat)

lemma utf8_decode_encode: "utf8_encode s = Inr bs \<Longrightarrow> utf8_decode bs = Inr s"
  using utf8_chars_bytes [of s] map_unat_of_nat utf8_points_chars [of s]
  by (auto simp: utf8_encode_def utf8_decode_def simp del: map_map split: option.splits)

lemma utf8_encode_decode: "utf8_decode bs = Inr s \<Longrightarrow> utf8_encode s = Inr bs"
proof -
  assume "utf8_decode bs = Inr s"
  then have "utf8_points (map unat bs) = Some s" by (simp add: utf8_decode_def split: option.splits)
  then have "utf8_chars s = Some (map unat bs)" by (rule utf8_chars_points) auto
  then show ?thesis by (simp add: utf8_encode_def comp_def)
qed

section \<open>The list blob\<close>

definition MAGIC :: bytes where "MAGIC = [0x54, 0x50, 0x4C, 0x31]"
definition VERSION :: byte where "VERSION = 1"
definition PERIOD_SECONDS :: int where "PERIOD_SECONDS = 1500"
definition MAX_ENTRIES :: nat where "MAX_ENTRIES = 64"
definition MAX_BLOB_SIZE :: nat where "MAX_BLOB_SIZE = 1024"

type_synonym entry = "string \<times> int"

record list_blob =
  bl_chain :: ustring
  bl_period :: nat
  bl_entries :: "entry list"

text \<open>\<open>int(unix) // PERIOD_SECONDS\<close>: truncation to zero, then floor division.\<close>

definition period_of :: "rat \<Rightarrow> int" where
  "period_of unix = trunc unix div PERIOD_SECONDS"

definition entry_key :: "entry \<Rightarrow> nat \<times> int" where
  "entry_key e = (the (ipv4_of_string (fst e)), snd e)"

definition check_entry :: "entry \<Rightarrow> entry result" where
  "check_entry e =
     (if ipv4_of_string (fst e) = None then Inl (BlobError ''bad address'')
      else if \<not> (1 \<le> snd e \<and> snd e \<le> 65535) then Inl (BlobError ''bad port'')
      else bindR (is_reserved (fst e)) (\<lambda>r. if r then Inl (BlobError ''reserved address'') else Inr e))"

fun adjacent_duplicate :: "'a list \<Rightarrow> bool" where
  "adjacent_duplicate (a # b # xs) = (a = b \<or> adjacent_duplicate (b # xs))"
| "adjacent_duplicate xs = False"

definition validate_entries :: "entry list \<Rightarrow> entry list result" where
  "validate_entries entries =
     (if \<not> (1 \<le> length entries \<and> length entries \<le> MAX_ENTRIES) then Inl (BlobError ''count not in range'')
      else bindR (mapR check_entry entries) (\<lambda>checked.
        let out = sort_key entry_key checked in
        if adjacent_duplicate out then Inl (BlobError ''duplicate entry'') else Inr out))"

definition entry_bytes :: "entry \<Rightarrow> bytes" where
  "entry_bytes e = be_bytes 4 (the (ipv4_of_string (fst e))) @ le_bytes 2 (nat (snd e))"

definition blob_image :: "bytes \<Rightarrow> nat \<Rightarrow> entry list \<Rightarrow> bytes" where
  "blob_image name period ents =
     MAGIC @ [VERSION, word_of_nat (length name)] @ name @ le_bytes 8 period @ le_bytes 2 (length ents) @
     concat (map entry_bytes ents)"

definition encode_blob :: "ustring \<Rightarrow> int \<Rightarrow> entry list \<Rightarrow> bytes result" where
  "encode_blob chain period entries =
     bindR (utf8_encode chain) (\<lambda>name.
       if \<not> (1 \<le> length name \<and> length name \<le> 255) then Inl (BlobError ''chain name length'')
       else if period < 0 \<or> period \<ge> 2 ^ 64 then Inl (BlobError ''period range'')
       else bindR (validate_entries entries) (\<lambda>ents.
         let out = blob_image name (nat period) ents in
         if length out > MAX_BLOB_SIZE then Inl (BlobError ''blob too large'') else Inr out))"

definition read_entry :: "bytes \<Rightarrow> nat \<Rightarrow> entry" where
  "read_entry data off =
     (ipv4_to_string (be_val (slice data off (off + 4))), int (le_val (slice data (off + 4) (off + 6))))"

definition decode_blob :: "bytes \<Rightarrow> list_blob result" where
  "decode_blob data =
     (if length data > MAX_BLOB_SIZE then Inl (BlobError ''blob too large'')
      else if take 4 data \<noteq> MAGIC then Inl (BlobError ''bad magic'')
      else if length data < 6 then Inl (BlobError ''truncated'')
      else if data ! 4 \<noteq> VERSION then Inl UnknownBlobVersion
      else (let n = unat (data ! 5) in
        if n = 0 \<or> length data < 16 + n then Inl (BlobError ''truncated header'')
        else (case utf8_decode (slice data 6 (6 + n)) of
            Inl e \<Rightarrow> Inl (BlobError ''chain name not UTF-8'')
          | Inr chain \<Rightarrow>
            (let period = le_val (slice data (6 + n) (14 + n)); cnt = le_val (slice data (14 + n) (16 + n)) in
             if length data \<noteq> 16 + n + 6 * cnt then Inl (BlobError ''length does not match count'')
             else (let raw = map (\<lambda>i. read_entry data (16 + n + 6 * i)) [0..<cnt] in
               bindR (validate_entries raw) (\<lambda>ents.
                 if ents \<noteq> raw then Inl (BlobError ''entries not in canonical order'')
                 else Inr \<lparr> bl_chain = chain, bl_period = period, bl_entries = ents \<rparr>))))))"

definition blob_hash :: "bytes \<Rightarrow> bytes" where
  "blob_hash data = sha256 data"

definition with_period :: "bytes \<Rightarrow> nat \<Rightarrow> bytes result" where
  "with_period body period =
     (if length body \<le> 5 then Inl (IndexError ''index out of range'')
      else (let n = unat (body ! 5) in
        bindR (to_bytes_le 8 period) (\<lambda>p. Inr (take (6 + n) body @ p @ drop (14 + n) body))))"

definition list_body :: "bytes \<Rightarrow> bytes result" where
  "list_body data = with_period data 0"

section \<open>Canonical entries\<close>

definition entry_ok :: "entry \<Rightarrow> bool" where
  "entry_ok e \<longleftrightarrow> (\<exists>n. ipv4_of_string (fst e) = Some n \<and> \<not> is_reserved_int n) \<and> 1 \<le> snd e \<and> snd e \<le> 65535"

lemma check_entry_Inr: "check_entry e = Inr e' \<longleftrightarrow> e' = e \<and> entry_ok e"
  by (auto simp: check_entry_def entry_ok_def is_reserved_def reserved_tests_agree_nat split: if_splits)

lemma mapR_check_entry: "mapR check_entry es = Inr es' \<longleftrightarrow> es' = es \<and> list_all entry_ok es"
  by (induction es arbitrary: es') (auto simp: bindR_Inr_conv check_entry_Inr)

lemma entry_key_inj: "inj_on entry_key {e. entry_ok e}"
  by (auto simp: inj_on_def entry_ok_def entry_key_def dest: ipv4_of_string_inject)

lemma adjacent_duplicate_sorted:
  "sorted (map f xs) \<Longrightarrow> inj_on f (set xs) \<Longrightarrow> adjacent_duplicate xs \<longleftrightarrow> \<not> distinct xs"
proof (induction xs rule: adjacent_duplicate.induct)
  case (1 a b xs)
  have "a \<in> set (b # xs) \<Longrightarrow> a = b"
  proof -
    assume "a \<in> set (b # xs)"
    then have "f b \<le> f a" "f a \<le> f b" using 1(2) by auto
    then show "a = b" using inj_onD [OF 1(3), of a b] by simp
  qed
  then show ?case using 1 by auto
qed simp_all

lemma validate_entries_Inr:
  "validate_entries es = Inr out \<longleftrightarrow>
     es \<noteq> [] \<and> length es \<le> 64 \<and> list_all entry_ok es \<and> distinct es \<and> out = sort_key entry_key es"
proof -
  have "list_all entry_ok es \<Longrightarrow> adjacent_duplicate (sort_key entry_key es) \<longleftrightarrow> \<not> distinct es"
    using adjacent_duplicate_sorted [of entry_key "sort_key entry_key es"] inj_on_subset [OF entry_key_inj]
    by (simp add: list_all_iff subset_iff)
  then show ?thesis
    by (auto simp: validate_entries_def bindR_Inr_conv mapR_check_entry MAX_ENTRIES_def Let_def
        Suc_le_eq split: if_splits)
qed

lemma validate_entries_perm:
  assumes "validate_entries es = Inr out" "mset es' = mset es"
  shows "validate_entries es' = Inr out"
proof -
  have s: "set es' = set es" "length es' = length es" "distinct es' = distinct es"
    using assms(2) by (metis mset_eq_setD, metis size_mset, metis mset_eq_imp_distinct_iff)
  have ok: "list_all entry_ok es'" using assms(1) s by (simp add: validate_entries_Inr list_all_iff)
  have "sort_key entry_key es' = sort_key entry_key es"
    by (rule sort_key_inj_key_eq) (use assms(2) ok inj_on_subset [OF entry_key_inj] in \<open>auto simp: list_all_iff\<close>)
  then show ?thesis using assms(1) s ok by (auto simp: validate_entries_Inr)
qed

section \<open>Bytes of a blob\<close>

lemma length_entry_bytes [simp]: "length (entry_bytes e) = 6"
  by (simp add: entry_bytes_def)

lemma length_entries_bytes: "length (concat (map entry_bytes es)) = 6 * length es"
  by (induction es) simp_all

lemma read_entry_bytes:
  "entry_ok e \<Longrightarrow> drop off data = entry_bytes e @ rest \<Longrightarrow> read_entry data off = e"
proof -
  assume ok: "entry_ok e" and d: "drop off data = entry_bytes e @ rest"
  obtain ip port where e: "e = (ip, port)" by (cases e)
  from ok obtain n where n: "ipv4_of_string ip = Some n" "1 \<le> port" "port \<le> 65535" by (auto simp: entry_ok_def e)
  from ipv4_of_string_Some [OF n(1)] have n2: "n < 256 ^ 4" "ipv4_to_string n = ip" by simp_all
  have d': "drop off data = be_bytes 4 n @ le_bytes 2 (nat port) @ rest" using d by (simp add: e n entry_bytes_def)
  have "drop (off + 4) data = le_bytes 2 (nat port) @ rest" using drop_cursor [OF d'] by simp
  then have "slice data (off + 4) (off + 6) = le_bytes 2 (nat port)"
    using slice_cursor [of "off + 4" data "le_bytes 2 (nat port)"] by (simp add: add.commute)
  moreover have "slice data off (off + 4) = be_bytes 4 n" using slice_cursor [OF d'] by simp
  moreover have "nat port < 256 ^ 2" using n(3) by simp
  ultimately show ?thesis using n n2 by (simp add: read_entry_def e)
qed

lemma read_entries_bytes:
  "list_all entry_ok es \<Longrightarrow> drop off data = concat (map entry_bytes es) @ rest \<Longrightarrow>
     map (\<lambda>i. read_entry data (off + 6 * i)) [0..<length es] = es"
proof (induction es arbitrary: off)
  case (Cons e es)
  then have d: "drop off data = entry_bytes e @ concat (map entry_bytes es) @ rest" by simp
  have "drop (off + 6) data = concat (map entry_bytes es) @ rest" using drop_cursor [OF d] by simp
  then have "map (\<lambda>i. read_entry data (off + 6 + 6 * i)) [0..<length es] = es" using Cons by simp
  moreover have "read_entry data off = e" using read_entry_bytes d Cons.prems(1) by simp
  ultimately show ?case by (simp add: upt_conv_Cons map_Suc_upt [symmetric] comp_def add.assoc del: upt_Suc)
qed simp

lemma entry_bytes_read:
  assumes "off + 6 \<le> length data"
  shows "entry_bytes (read_entry data off) = slice data off (off + 6)"
proof -
  have l: "length (slice data off (off + 4)) = 4" "length (slice data (off + 4) (off + 6)) = 2"
    using assms by (simp_all add: length_slice)
  have "be_val (slice data off (off + 4)) < 2 ^ 32" using be_val_bound [of "slice data off (off + 4)"] l by simp
  then have "ipv4_of_string (ipv4_to_string (be_val (slice data off (off + 4)))) = Some (be_val (slice data off (off + 4)))"
    by (rule ipv4_parse_format)
  then have "entry_bytes (read_entry data off) = slice data off (off + 4) @ slice data (off + 4) (off + 6)"
    using l by (simp add: entry_bytes_def read_entry_def)
  also have "\<dots> = slice data off (off + 6)"
    by (simp add: slice_def take_add [of 4 2, simplified] add.commute)
  finally show ?thesis .
qed

lemma entries_bytes_read:
  "length data = off + 6 * n \<Longrightarrow>
     concat (map entry_bytes (map (\<lambda>i. read_entry data (off + 6 * i)) [0..<n])) = drop off data"
proof (induction n arbitrary: off)
  case (Suc n)
  then have I: "concat (map entry_bytes (map (\<lambda>i. read_entry data (off + 6 + 6 * i)) [0..<n])) = drop (off + 6) data" by simp
  have "entry_bytes (read_entry data off) = slice data off (off + 6)" by (rule entry_bytes_read) (use Suc.prems in simp)
  moreover have "slice data off (off + 6) @ drop (off + 6) data = drop off data"
    by (simp add: slice_def) (metis add.commute append_take_drop_id drop_drop)
  ultimately show ?case using I
    by (simp add: upt_conv_Cons map_Suc_upt [symmetric] comp_def add.assoc del: upt_Suc)
qed simp

definition blob_ok :: "list_blob \<Rightarrow> bytes \<Rightarrow> bool" where
  "blob_ok b name \<longleftrightarrow> utf8_decode name = Inr (bl_chain b) \<and> 1 \<le> length name \<and> length name \<le> 255 \<and>
     bl_period b < 2 ^ 64 \<and> validate_entries (bl_entries b) = Inr (bl_entries b)"

lemma length_blob_image: "length (blob_image name p es) = 16 + length name + 6 * length es"
  by (simp add: blob_image_def MAGIC_def length_entries_bytes)

lemma blob_image_fields:
  assumes "length name \<le> 255" "p < 2 ^ 64" "length es < 2 ^ 16"
  defines "data \<equiv> blob_image name p es" and "n \<equiv> length name"
  shows "take 4 data = MAGIC" "data ! 4 = VERSION" "unat (data ! 5) = n" "slice data 6 (6 + n) = name"
    "le_val (slice data (6 + n) (14 + n)) = p" "le_val (slice data (14 + n) (16 + n)) = length es"
    "drop (16 + n) data = concat (map entry_bytes es)"
proof -
  have d4: "drop 4 data = VERSION # word_of_nat n # name @ le_bytes 8 p @ le_bytes 2 (length es) @ concat (map entry_bytes es)"
    by (simp add: data_def blob_image_def MAGIC_def n_def)
  show "take 4 data = MAGIC" by (simp add: data_def blob_image_def MAGIC_def)
  show "data ! 4 = VERSION" by (rule nth_cursor [OF d4])
  have d5: "drop 5 data = word_of_nat n # name @ le_bytes 8 p @ le_bytes 2 (length es) @ concat (map entry_bytes es)"
    using drop_cursor [of 4 data "[VERSION]"] d4 by simp
  show "unat (data ! 5) = n" using nth_cursor [OF d5] assms(1) by (simp add: n_def unat_of_nat)
  have d6: "drop 6 data = name @ le_bytes 8 p @ le_bytes 2 (length es) @ concat (map entry_bytes es)"
    using drop_cursor [of 5 data "[word_of_nat n]"] d5 by simp
  show "slice data 6 (6 + n) = name" unfolding n_def by (rule slice_cursor [OF d6])
  note d7 = drop_cursor [OF d6, folded n_def]
  have "slice data (6 + n) (6 + n + 8) = le_bytes 8 p" using slice_cursor [OF d7] by simp
  then show "le_val (slice data (6 + n) (14 + n)) = p" using assms(2) by (simp add: add.commute)
  have d8: "drop (14 + n) data = le_bytes 2 (length es) @ concat (map entry_bytes es)"
    using drop_cursor [OF d7] by (simp add: add.commute)
  have "slice data (14 + n) (14 + n + 2) = le_bytes 2 (length es)" using slice_cursor [OF d8] by simp
  then show "le_val (slice data (14 + n) (16 + n)) = length es" using assms(3) by (simp add: add.commute)
  show "drop (16 + n) data = concat (map entry_bytes es)"
    using drop_cursor [OF d8] by (simp add: add.commute)
qed

lemma decode_blob_image:
  assumes "blob_ok b name"
  shows "decode_blob (blob_image name (bl_period b) (bl_entries b)) = Inr b"
proof -
  define data where "data = blob_image name (bl_period b) (bl_entries b)"
  have ok: "utf8_decode name = Inr (bl_chain b)" "1 \<le> length name" "length name \<le> 255" "bl_period b < 2 ^ 64"
    and v: "validate_entries (bl_entries b) = Inr (bl_entries b)" using assms by (auto simp: blob_ok_def)
  from v have es: "list_all entry_ok (bl_entries b)" "length (bl_entries b) \<le> 64" by (auto simp: validate_entries_Inr)
  have len: "length data = 16 + length name + 6 * length (bl_entries b)" by (simp add: data_def length_blob_image)
  note F = blob_image_fields [OF ok(3,4), of "bl_entries b", folded data_def]
  have f: "take 4 data = MAGIC" "data ! 4 = VERSION" "unat (data ! 5) = length name" "slice data 6 (6 + length name) = name"
    "le_val (slice data (6 + length name) (14 + length name)) = bl_period b"
    "le_val (slice data (14 + length name) (16 + length name)) = length (bl_entries b)"
    "drop (16 + length name) data = concat (map entry_bytes (bl_entries b))" using F es(2) by simp_all
  have raw: "map (\<lambda>i. read_entry data (16 + length name + 6 * i)) [0..<length (bl_entries b)] = bl_entries b"
    by (rule read_entries_bytes [OF es(1), of _ _ "[]"]) (simp add: f(7))
  show ?thesis
    unfolding data_def [symmetric] decode_blob_def Let_def f(1-6) ok(1) sum.case raw v bindR_simps
    using ok es(2) len by (auto simp: MAX_BLOB_SIZE_def)
qed

lemma decode_blob_Inr:
  assumes "decode_blob data = Inr b"
  obtains name where "blob_ok b name" "data = blob_image name (bl_period b) (bl_entries b)"
proof -
  define n where "n = unat (data ! 5)"
  define name where "name = slice data 6 (6 + n)"
  define p where "p = le_val (slice data (6 + n) (14 + n))"
  define cnt where "cnt = le_val (slice data (14 + n) (16 + n))"
  define raw where "raw = map (\<lambda>i. read_entry data (16 + n + 6 * i)) [0..<cnt]"
  have m: "take 4 data = MAGIC" "data ! 4 = VERSION" "n \<noteq> 0" "16 + n \<le> length data"
    using assms by (auto simp: decode_blob_def Let_def n_def split: if_splits)
  obtain chain where c: "utf8_decode name = Inr chain"
    using assms m by (auto simp: decode_blob_def Let_def n_def [symmetric] name_def [symmetric] split: if_splits sum.splits)
  have l: "length data = 16 + n + 6 * cnt" and v: "validate_entries raw = Inr raw"
    and b: "b = \<lparr> bl_chain = chain, bl_period = p, bl_entries = raw \<rparr>"
    using assms c m by (auto simp: decode_blob_def Let_def n_def [symmetric] name_def [symmetric] p_def [symmetric]
        cnt_def [symmetric] raw_def [symmetric] bindR_Inr_conv split: if_splits)
  have n: "n < 256" by (simp add: n_def)
  have ln: "length name = n" using m(4) by (simp add: name_def length_slice)
  have lp: "length (slice data (6 + n) (14 + n)) = 8" "length (slice data (14 + n) (16 + n)) = 2"
    using m(4) by (simp_all add: length_slice)
  have "p < 2 ^ 64" using le_val_bound [of "slice data (6 + n) (14 + n)"] lp by (simp add: p_def)
  then have ok: "blob_ok b name" using c n m(3) ln v by (simp add: blob_ok_def b)
  have cut: "drop i data = slice data i j @ drop j data" if "i \<le> j" for i j
    using that by (simp add: slice_def) (metis add.commute append_take_drop_id drop_drop le_add_diff_inverse2)
  have "data = take 4 data @ [data ! 4] @ [data ! 5] @ drop 6 data"
    using m(4) by (simp add: Cons_nth_drop_Suc numeral_eq_Suc)
  also have "drop 6 data = name @ slice data (6 + n) (14 + n) @ slice data (14 + n) (16 + n) @ drop (16 + n) data"
    using cut [of 6 "6 + n"] cut [of "6 + n" "14 + n"] cut [of "14 + n" "16 + n"] by (simp add: name_def)
  also have "slice data (6 + n) (14 + n) = le_bytes 8 p" using lp by (simp add: p_def)
  also have "slice data (14 + n) (16 + n) = le_bytes 2 (length raw)" using lp by (simp add: cnt_def raw_def)
  also have "drop (16 + n) data = concat (map entry_bytes raw)" unfolding raw_def by (rule entries_bytes_read [symmetric, OF l])
  also have "[data ! 5] = [word_of_nat (length name)]" by (simp add: ln n_def)
  finally have "data = blob_image name p raw" using m by (simp add: blob_image_def)
  with ok that show thesis by (simp add: b)
qed

lemma encode_blob_Inr:
  "encode_blob chain period es = Inr data \<longleftrightarrow>
     (\<exists>name out. utf8_encode chain = Inr name \<and> 1 \<le> length name \<and> length name \<le> 255 \<and> 0 \<le> period \<and> period < 2 ^ 64 \<and>
        validate_entries es = Inr out \<and> data = blob_image name (nat period) out)"
proof -
  have "validate_entries es = Inr out \<Longrightarrow> length name \<le> 255 \<Longrightarrow> length (blob_image name p out) \<le> MAX_BLOB_SIZE" for out name p
    by (auto simp: validate_entries_Inr length_blob_image MAX_BLOB_SIZE_def)
  then have v: "length name \<le> 255 \<Longrightarrow> bindR (validate_entries es) (\<lambda>ents. let out = blob_image name p ents in
       if length out > MAX_BLOB_SIZE then Inl (BlobError ''blob too large'') else Inr out) = Inr data \<longleftrightarrow>
     (\<exists>out. validate_entries es = Inr out \<and> data = blob_image name p out)" for name p
    by (auto simp: bindR_Inr_conv Let_def not_less)
  show ?thesis
  proof (cases "utf8_encode chain")
    case (Inr name)
    then show ?thesis
      by (cases "1 \<le> length name \<and> length name \<le> 255"; cases "period < 0 \<or> period \<ge> 2 ^ 64")
        (auto simp: encode_blob_def v not_less not_le)
  qed (simp add: encode_blob_def)
qed

lemma validate_entries_idem: "validate_entries es = Inr out \<Longrightarrow> validate_entries out = Inr out"
  using validate_entries_perm [of es out out] by (auto simp: validate_entries_Inr)

text \<open>Replacing the period of the bytes replaces the period of the blob.\<close>

lemma with_period_image:
  assumes "length name \<le> 255" "q < 2 ^ 64"
  shows "with_period (blob_image name p es) q = Inr (blob_image name q es)"
proof -
  define pre where "pre = MAGIC @ [VERSION, word_of_nat (length name)] @ name"
  define post where "post = le_bytes 2 (length es) @ concat (map entry_bytes es)"
  have im: "blob_image name p' es = pre @ le_bytes 8 p' @ post" for p' by (simp add: blob_image_def pre_def post_def)
  have pre: "length pre = 6 + length name" "pre ! 5 = word_of_nat (length name)" by (simp_all add: pre_def MAGIC_def)
  moreover have "unat (word_of_nat (length name) :: byte) = length name" using assms(1) by (simp add: unat_of_nat)
  ultimately show ?thesis using assms(2)
    by (simp add: with_period_def im Let_def to_bytes_le_def nth_append)
qed

lemma decode_with_period:
  assumes "decode_blob data = Inr b" "q < 2 ^ 64"
  shows "\<exists>data'. with_period data q = Inr data' \<and> decode_blob data' = Inr (b\<lparr>bl_period := q\<rparr>) \<and>
     with_period data' (bl_period b) = Inr data"
proof -
  from decode_blob_Inr [OF assms(1)] obtain name where n: "blob_ok b name" "data = blob_image name (bl_period b) (bl_entries b)" .
  then have l: "length name \<le> 255" "bl_period b < 2 ^ 64" and ok: "blob_ok (b\<lparr>bl_period := q\<rparr>) name"
    using assms(2) by (auto simp: blob_ok_def)
  show ?thesis
    using with_period_image [OF l(1) assms(2)] with_period_image [OF l] decode_blob_image [OF ok] by (simp add: n(2))
qed

section \<open>A small blob\<close>

definition wit_entries :: "entry list" where "wit_entries = [(''9.9.9.9'', 18081), (''8.8.8.8'', 18080)]"

definition wit_blob1 :: bytes where
  "wit_blob1 = blob_image [120] 7 [(''8.8.8.8'', 18080), (''9.9.9.9'', 18081)]"

lemma wit_ips: "ipv4_of_string ''8.8.8.8'' = Some 134744072" "ipv4_of_string ''9.9.9.9'' = Some 151587081"
  by (simp_all add: ipv4_of_string_def parse_octet_def is_digit_def digits_val_def digit_val_def)

lemma wit_validate: "validate_entries wit_entries = Inr [(''8.8.8.8'', 18080), (''9.9.9.9'', 18081)]"
  unfolding validate_entries_Inr
  by (simp add: wit_entries_def entry_ok_def wit_ips is_reserved_int_def RESERVED_RANGES_eval entry_key_def)

lemma wit_encode: "encode_blob [120] 7 wit_entries = Inr wit_blob1"
  using wit_validate by (auto simp: encode_blob_Inr utf8_encode_def utf8_char_def wit_blob1_def)

lemma wit_decode: "decode_blob wit_blob1 = Inr \<lparr> bl_chain = [120], bl_period = 7,
    bl_entries = [(''8.8.8.8'', 18080), (''9.9.9.9'', 18081)] \<rparr>"
proof -
  have "blob_ok \<lparr> bl_chain = [120], bl_period = 7, bl_entries = [(''8.8.8.8'', 18080), (''9.9.9.9'', 18081)] \<rparr> [120]"
    using validate_entries_idem [OF wit_validate]
    by (simp add: blob_ok_def utf8_decode_def utf8_points.simps utf8_head_def)
  from decode_blob_image [OF this] show ?thesis by (simp add: wit_blob1_def)
qed

section \<open>Guarantees\<close>

text \<open>C15. What the encoder writes, the decoder reads: the same chain and period and the entries in the canonical
  order, whatever order they were given in; the blob has the size its entry count says and is never
  too large.\<close>

theorem blob_roundtrip:
  assumes "encode_blob chain period entries = Inr data"
  shows "decode_blob data = Inr \<lparr> bl_chain = chain, bl_period = nat period, bl_entries = sort_key entry_key entries \<rparr> \<and>
     (\<exists>name. utf8_encode chain = Inr name \<and> length data = 16 + length name + 6 * length entries) \<and> length data \<le> 655"
proof -
  from assms obtain name out where e: "utf8_encode chain = Inr name" "1 \<le> length name" "length name \<le> 255" "0 \<le> period"
    "period < 2 ^ 64" "validate_entries entries = Inr out" "data = blob_image name (nat period) out"
    by (auto simp: encode_blob_Inr)
  then have o: "out = sort_key entry_key entries" "length entries \<le> 64" by (simp_all add: validate_entries_Inr)
  have "blob_ok \<lparr> bl_chain = chain, bl_period = nat period, bl_entries = out \<rparr> name"
    using e utf8_decode_encode [OF e(1)] validate_entries_idem [OF e(6)] by (simp add: blob_ok_def nat_less_iff)
  from decode_blob_image [OF this] show ?thesis using e o by (simp add: length_blob_image)
qed

lemma blob_roundtrip_witness:
  "encode_blob [120] 7 wit_entries = Inr wit_blob1 \<and> length wit_blob1 \<le> 655"
  using blob_roundtrip [OF wit_encode] wit_encode by blast

text \<open>C16. The encoding is canonical: the bytes a reader accepts are the ones the encoder writes for what was
  read, from the entries in any order. So one list and period has one blob hash.\<close>

theorem blob_canonical:
  assumes "decode_blob data = Inr b" "mset entries = mset (bl_entries b)"
  shows "encode_blob (bl_chain b) (int (bl_period b)) entries = Inr data"
proof -
  from decode_blob_Inr [OF assms(1)] obtain name where n: "blob_ok b name" "data = blob_image name (bl_period b) (bl_entries b)" .
  then have "utf8_encode (bl_chain b) = Inr name" "validate_entries entries = Inr (bl_entries b)"
    using utf8_encode_decode validate_entries_perm [OF _ assms(2)] by (auto simp: blob_ok_def)
  moreover have "int (bl_period b) < 2 ^ 64" using n(1) by (simp add: blob_ok_def)
  ultimately show ?thesis using n by (auto simp: encode_blob_Inr blob_ok_def)
qed

lemma blob_canonical_witness:
  "encode_blob [120] 7 [(''9.9.9.9'', 18081), (''8.8.8.8'', 18080)] = Inr wit_blob1"
  using blob_canonical [OF wit_decode, of "[(''9.9.9.9'', 18081), (''8.8.8.8'', 18080)]"] by simp

text \<open>The body of a list, its blob with the period zeroed, is a blob of the same chain and entries, and
  putting the period back gives the original bytes: storing bodies and periods loses nothing.\<close>

theorem body_roundtrip:
  assumes "decode_blob data = Inr b"
  shows "\<exists>body. list_body data = Inr body \<and> decode_blob body = Inr (b\<lparr>bl_period := 0\<rparr>) \<and>
     with_period body (bl_period b) = Inr data"
  unfolding list_body_def by (rule decode_with_period [OF assms]) simp

lemma body_roundtrip_witness: "bindR (list_body wit_blob1) (\<lambda>body. with_period body 7) = Inr wit_blob1"
  using body_roundtrip [OF wit_decode] by auto

end
