(* ===== verification/Wire.thy ===== *)
theory Wire
  imports Ranges Floats Varint
begin

text \<open>
  The standard library's text forms of data, used by the files the package writes and the messages it
  exchanges: hexadecimal, base64 and JSON values. \<open>json.dumps\<close> and \<open>json.loads\<close> are taken to be inverse to each
  other, so a document is its value.
\<close>

section \<open>Hexadecimal\<close>

definition hex_digit :: "nat \<Rightarrow> char" where
  "hex_digit d = (if d < 10 then digit_char d else char_of (87 + d))"

definition hex_val :: "char \<Rightarrow> nat option" where
  "hex_val c = (let n = of_char c :: nat in
     if 48 \<le> n \<and> n \<le> 57 then Some (n - 48)
     else if 97 \<le> n \<and> n \<le> 102 then Some (n - 87)
     else if 65 \<le> n \<and> n \<le> 70 then Some (n - 55) else None)"

definition ascii_space :: "char \<Rightarrow> bool" where
  "ascii_space c = (let n = of_char c :: nat in n = 32 \<or> 9 \<le> n \<and> n \<le> 13)"

definition hex_of :: "bytes \<Rightarrow> string" where
  "hex_of bs = concat (map (\<lambda>b. [hex_digit (unat b div 16), hex_digit (unat b mod 16)]) bs)"

text \<open>\<open>bytes.fromhex\<close>: white space between the pairs is skipped.\<close>

fun fromhex :: "string \<Rightarrow> bytes result" where
  "fromhex [] = Inr []"
| "fromhex [c] = (if ascii_space c then Inr [] else Inl (ValueError ''non-hexadecimal number found''))"
| "fromhex (c # d # cs) =
     (if ascii_space c then fromhex (d # cs)
      else (case (hex_val c, hex_val d) of
              (Some h, Some l) \<Rightarrow> bindR (fromhex cs) (\<lambda>bs. Inr (word_of_nat (16 * h + l) # bs))
            | _ \<Rightarrow> Inl (ValueError ''non-hexadecimal number found'')))"

lemma hex_digit_val [simp]: "d < 16 \<Longrightarrow> hex_val (hex_digit d) = Some d \<and> \<not> ascii_space (hex_digit d)"
proof -
  assume d: "d < 16"
  have "of_char (hex_digit d) = (if d < 10 then 48 + d else 87 + d)"
    using d by (simp add: hex_digit_def digit_char_def)
  then show ?thesis using d by (auto simp: hex_val_def ascii_space_def Let_def)
qed

lemma fromhex_hex [simp, codec_simps]: "fromhex (hex_of bs) = Inr bs"
proof (induction bs)
  case (Cons b bs)
  have "unat b div 16 < 16" "unat b mod 16 < 16" using unat_lt_256 [of b] by linarith+
  moreover have "16 * (unat b div 16) + unat b mod 16 = unat b" by simp
  ultimately show ?case using Cons by (simp add: hex_of_def)
qed (simp add: hex_of_def)

lemma hex_of_inject [simp]: "hex_of a = hex_of b \<longleftrightarrow> a = b"
  by (metis Inr_inject fromhex_hex)

section \<open>Base64\<close>

definition b64_val :: "char \<Rightarrow> nat option" where
  "b64_val c = (let n = of_char c :: nat in
     if 65 \<le> n \<and> n \<le> 90 then Some (n - 65)
     else if 97 \<le> n \<and> n \<le> 122 then Some (n - 71)
     else if 48 \<le> n \<and> n \<le> 57 then Some (n + 4)
     else if n = 43 then Some 62 else if n = 47 then Some 63 else None)"

definition b64_char :: "nat \<Rightarrow> char" where
  "b64_char v = char_of (if v < 26 then v + 65 else if v < 52 then v + 71 else if v < 62 then v - 4
     else if v = 62 then 43 else 47)"

fun b64_encode :: "bytes \<Rightarrow> string" where
  "b64_encode (a # b # c # bs) =
     (let v = unat a * 65536 + unat b * 256 + unat c in
      b64_char (v div 262144) # b64_char (v div 4096 mod 64) # b64_char (v div 64 mod 64) # b64_char (v mod 64) # b64_encode bs)"
| "b64_encode [a, b] =
     (let v = unat a * 65536 + unat b * 256 in
      [b64_char (v div 262144), b64_char (v div 4096 mod 64), b64_char (v div 64 mod 64), CHR ''=''])"
| "b64_encode [a] =
     (let v = unat a * 65536 in [b64_char (v div 262144), b64_char (v div 4096 mod 64), CHR ''='', CHR ''=''])"
| "b64_encode [] = []"

text \<open>\<open>base64.b64decode\<close> without validation: characters outside the alphabet are skipped, decoding stops at the
  padding that completes a group, and a group left incomplete is an error. \<open>quad\<close> is the place in the group,
  \<open>left\<close> the value of the bits carried over and \<open>pads\<close> the number of padding characters seen in a row.\<close>

fun b64_scan :: "nat \<Rightarrow> nat \<Rightarrow> nat \<Rightarrow> string \<Rightarrow> bytes result" where
  "b64_scan quad left pads [] =
     (if quad = 0 then Inr [] else if quad = 1 then Inl (ValueError ''invalid base64 data length'')
      else Inl (ValueError ''incorrect padding''))"
| "b64_scan quad left pads (c # cs) =
     (if c = CHR ''='' then
        (if 2 \<le> quad \<and> 4 \<le> quad + (pads + 1) then Inr [] else b64_scan quad left (pads + 1) cs)
      else (case b64_val c of
          None \<Rightarrow> b64_scan quad left pads cs
        | Some v \<Rightarrow>
            if quad = 0 then b64_scan 1 v 0 cs
            else if quad = 1 then bindR (b64_scan 2 (v mod 16) 0 cs) (\<lambda>bs. Inr (word_of_nat (left * 4 + v div 16) # bs))
            else if quad = 2 then bindR (b64_scan 3 (v mod 4) 0 cs) (\<lambda>bs. Inr (word_of_nat (left * 16 + v div 4) # bs))
            else bindR (b64_scan 0 0 0 cs) (\<lambda>bs. Inr (word_of_nat (left * 64 + v) # bs))))"

definition b64_decode :: "string \<Rightarrow> bytes result" where
  "b64_decode s = b64_scan 0 0 0 s"

declare b64_scan.simps [simp del]

lemma b64_scan_pad:
  "b64_scan quad left pads (CHR ''='' # cs) =
     (if 2 \<le> quad \<and> 4 \<le> quad + (pads + 1) then Inr [] else b64_scan quad left (pads + 1) cs)"
  by (simp add: b64_scan.simps)

lemma b64_char_val: "v < 64 \<Longrightarrow> b64_val (b64_char v) = Some v \<and> b64_char v \<noteq> CHR ''=''"
proof -
  assume v: "v < 64"
  have o: "of_char (b64_char v) = (if v < 26 then v + 65 else if v < 52 then v + 71 else if v < 62 then v - 4 else if v = 62 then 43 else 47)"
    using v by (simp add: b64_char_def)
  moreover have "b64_char v \<noteq> CHR ''=''"
  proof
    assume "b64_char v = CHR ''=''"
    then have "(of_char (b64_char v) :: nat) = 61" by simp
    with o v show False by (auto split: if_splits)
  qed
  ultimately show ?thesis using v by (auto simp: b64_val_def Let_def)
qed

lemma b64_step:
  "v < 64 \<Longrightarrow> b64_scan quad left pads (b64_char v # cs) =
     (if quad = 0 then b64_scan 1 v 0 cs
      else if quad = 1 then bindR (b64_scan 2 (v mod 16) 0 cs) (\<lambda>bs. Inr (word_of_nat (left * 4 + v div 16) # bs))
      else if quad = 2 then bindR (b64_scan 3 (v mod 4) 0 cs) (\<lambda>bs. Inr (word_of_nat (left * 16 + v div 4) # bs))
      else bindR (b64_scan 0 0 0 cs) (\<lambda>bs. Inr (word_of_nat (left * 64 + v) # bs)))"
  using b64_char_val [of v] by (simp add: b64_scan.simps(2))

lemma b64_group:
  fixes a b c :: nat
  assumes "a < 256" "b < 256" "c < 256"
  defines "v \<equiv> a * 65536 + b * 256 + c"
  shows "v div 262144 < 64" "v div 262144 * 4 + v div 4096 mod 64 div 16 = a"
    "v div 4096 mod 64 mod 16 * 16 + v div 64 mod 64 div 4 = b" "v div 64 mod 64 mod 4 * 64 + v mod 64 = c"
proof -
  obtain a1 a2 where a: "a = a1 * 4 + a2" "a2 < 4" by (metis div_mult_mod_eq mod_less_divisor zero_less_numeral)
  obtain b1 b2 where b: "b = b1 * 16 + b2" "b2 < 16" by (metis div_mult_mod_eq mod_less_divisor zero_less_numeral)
  obtain c1 c2 where c: "c = c1 * 64 + c2" "c2 < 64" by (metis div_mult_mod_eq mod_less_divisor zero_less_numeral)
  have l: "a1 < 64" "b1 < 16" "c1 < 4" using assms(1-3) a b c by linarith+
  have q: "(k * m + j) div m = k \<and> (k * m + j) mod m = j" if "j < m" for k j m :: nat using that by simp
  have v: "v = ((a1 * 64 + (a2 * 16 + b1)) * 64 + (b2 * 4 + c1)) * 64 + c2" by (simp add: v_def a b c)
  have "c2 < 64" "b2 * 4 + c1 < 64" "a2 * 16 + b1 < 64" using a b c l by linarith+
  note Q = this
  have d1: "v div 64 = (a1 * 64 + (a2 * 16 + b1)) * 64 + (b2 * 4 + c1)" "v mod 64 = c2"
    unfolding v using q [OF Q(1)] by blast+
  have d2: "v div 4096 = a1 * 64 + (a2 * 16 + b1)" "v div 64 mod 64 = b2 * 4 + c1"
    using div_mult2_eq [of v 64 64] q [OF Q(2)] by (simp_all only: d1) simp_all
  have d3: "v div 262144 = a1" "v div 4096 mod 64 = a2 * 16 + b1"
    using div_mult2_eq [of v 4096 64] q [OF Q(3)] by (simp_all only: d2) simp_all
  show "v div 262144 < 64" using l d3 by simp
  show "v div 262144 * 4 + v div 4096 mod 64 div 16 = a" using q [OF l(2)] d3 a by simp
  show "v div 4096 mod 64 mod 16 * 16 + v div 64 mod 64 div 4 = b" using q [OF l(2)] q [OF l(3)] d2 d3 b by simp
  show "v div 64 mod 64 mod 4 * 64 + v mod 64 = c" using q [OF l(3)] d1 d2 c by simp
qed

lemma b64_scan_group:
  "p < 64 \<Longrightarrow> q < 64 \<Longrightarrow> r < 64 \<Longrightarrow> s < 64 \<Longrightarrow>
     b64_scan 0 0 0 (b64_char p # b64_char q # b64_char r # b64_char s # cs) = bindR (b64_scan 0 0 0 cs) (\<lambda>bs.
       Inr (word_of_nat (p * 4 + q div 16) # word_of_nat (q mod 16 * 16 + r div 4) # word_of_nat (r mod 4 * 64 + s) # bs))"
  by (simp add: b64_step) (cases "b64_scan 0 0 0 cs"; simp)

lemma b64_scan_tail:
  "p < 64 \<Longrightarrow> q < 64 \<Longrightarrow> r < 64 \<Longrightarrow>
     b64_scan 0 0 0 [b64_char p, b64_char q, b64_char r, CHR ''=''] =
       Inr [word_of_nat (p * 4 + q div 16), word_of_nat (q mod 16 * 16 + r div 4)]"
  "p < 64 \<Longrightarrow> q < 64 \<Longrightarrow>
     b64_scan 0 0 0 [b64_char p, b64_char q, CHR ''='', CHR ''=''] = Inr [word_of_nat (p * 4 + q div 16)]"
  by (simp_all add: b64_step b64_scan_pad)

lemma b64_roundtrip [simp, codec_simps]: "b64_decode (b64_encode bs) = Inr bs"
proof -
  have m: "x mod 64 < 64" for x :: nat by simp
  have u: "unat (b :: byte) < 256" for b by simp
  have "b64_scan 0 0 0 (b64_encode bs) = Inr bs"
  proof (induction bs rule: b64_encode.induct)
    case (1 a b c bs)
    have IH: "b64_scan 0 0 0 (b64_encode bs) = Inr bs" by (rule 1) (rule refl)
    note G = b64_group [OF u [of a] u [of b] u [of c]]
    show ?case
      unfolding b64_encode.simps Let_def b64_scan_group [OF G(1) m m m] IH bindR_simps G by simp
  next
    case (2 a b)
    note G = b64_group [OF u [of a] u [of b] zero_less_numeral, unfolded add_0_right]
    show ?case unfolding b64_encode.simps Let_def b64_scan_tail(1) [OF G(1) m m] G by simp
  next
    case (3 a)
    note G = b64_group [OF u [of a] zero_less_numeral zero_less_numeral, unfolded add_0_right mult_zero_left]
    show ?case unfolding b64_encode.simps Let_def b64_scan_tail(2) [OF G(1) m] G by simp
  qed (simp add: b64_scan.simps)
  then show ?thesis by (simp add: b64_decode_def)
qed

section \<open>JSON values\<close>

datatype json =
    JNull | JBool bool | JInt int | JFloat rat | JStr string | JList "json list" | JObj "(string \<times> json) list"

text \<open>\<open>d[k]\<close>, \<open>d.get(k, x)\<close> and \<open>int(v)\<close> on a parsed document.\<close>

fun json_get :: "string \<Rightarrow> json \<Rightarrow> json result" where
  "json_get k (JObj d) = (case dget d k of None \<Rightarrow> Inl (KeyError k) | Some v \<Rightarrow> Inr v)"
| "json_get k v = Inl (TypeError ''not a dict'')"

fun json_get_or :: "string \<Rightarrow> json \<Rightarrow> json \<Rightarrow> json result" where
  "json_get_or k v0 (JObj d) = (case dget d k of None \<Rightarrow> Inr v0 | Some v \<Rightarrow> Inr v)"
| "json_get_or k v0 v = Inl (AttributeError ''get'')"

fun json_int :: "json \<Rightarrow> int result" where
  "json_int (JInt i) = Inr i"
| "json_int (JBool b) = Inr (if b then 1 else 0)"
| "json_int (JFloat r) = Inr (trunc r)"
| "json_int (JStr s) = int_of_str s"
| "json_int v = Inl (TypeError ''int() argument'')"

text \<open>A string where the code goes on to use string operations on the value.\<close>

fun json_string :: "json \<Rightarrow> string result" where
  "json_string (JStr s) = Inr s"
| "json_string v = Inl (TypeError ''not a string'')"

fun json_list :: "json \<Rightarrow> json list result" where
  "json_list (JList vs) = Inr vs"
| "json_list v = Inl (TypeError ''not a list'')"

fun json_items :: "json \<Rightarrow> (string \<times> json) list result" where
  "json_items (JObj d) = Inr d"
| "json_items v = Inl (AttributeError ''items'')"

text \<open>\<open>v == 1\<close>.\<close>

fun json_is_one :: "json \<Rightarrow> bool" where
  "json_is_one (JInt i) = (i = 1)"
| "json_is_one (JBool b) = b"
| "json_is_one (JFloat r) = (r = 1)"
| "json_is_one v = False"

definition json_hex :: "json \<Rightarrow> bytes result" where
  "json_hex v = bindR (json_string v) fromhex"

lemma json_hex_hex [simp]: "json_hex (JStr (hex_of b)) = Inr b"
  by (simp add: json_hex_def)

end
