(* ===== verification/BlobDb.thy ===== *)
theory BlobDb
  imports Blob Wire
begin

text \<open>
  \<open>transpeer/anchor/blobdb.py\<close>: the content-addressed store of list blobs and their commitments, its index
  with its paging cursor, and the document it is saved as.
\<close>

section \<open>The store\<close>

record commitment =
  co_hash :: bytes
  co_kind :: string
  co_venue :: string
  co_ref :: string
  co_publisher :: string
  co_difficulty :: int
  co_timestamp :: int
  co_proof :: "bytes list"
  co_path :: int

definition KINDS :: "string list" where "KINDS = [''share'', ''block'', ''template'']"

record blob_row =
  br_body :: bytes
  br_period :: nat
  br_first_seen :: int
  br_commitments :: "commitment list"

record blob_db =
  db_bodies :: "(bytes, bytes) dict"
  db_blobs :: "(bytes, blob_row) dict"
  db_entries :: "entry set"

definition empty_db :: blob_db where
  "empty_db = \<lparr> db_bodies = [], db_blobs = [], db_entries = {} \<rparr>"

definition setdefault :: "'k \<Rightarrow> 'v \<Rightarrow> ('k, 'v) dict \<Rightarrow> ('k, 'v) dict" where
  "setdefault k v d = (if dget d k = None then dput k v d else d)"

text \<open>The row of a blob just decoded: the one stored, or a new one with its body and entries.\<close>

definition blob_row_for :: "bytes \<Rightarrow> list_blob \<Rightarrow> int \<Rightarrow> blob_db \<Rightarrow> (blob_row \<times> blob_db) result" where
  "blob_row_for blob decoded now db =
     (case dget (db_blobs db) (blob_hash blob) of
        Some row \<Rightarrow> Inr (row, db)
      | None \<Rightarrow> bindR (list_body blob) (\<lambda>body.
          let bh = sha256 body;
              row = \<lparr> br_body = bh, br_period = bl_period decoded, br_first_seen = now, br_commitments = [] \<rparr>
          in Inr (row, db\<lparr> db_bodies := setdefault bh body (db_bodies db),
                db_blobs := dput (blob_hash blob) row (db_blobs db),
                db_entries := db_entries db \<union> set (bl_entries decoded) \<rparr>)))"

definition db_add :: "bytes \<Rightarrow> commitment \<Rightarrow> int \<Rightarrow> blob_db \<Rightarrow> (bool \<times> blob_db) result" where
  "db_add blob c now db =
     (if co_hash c \<noteq> blob_hash blob \<or> co_kind c \<notin> set KINDS then Inr (False, db)
      else (case decode_blob blob of
          Inl e \<Rightarrow> Inr (False, db)
        | Inr decoded \<Rightarrow> bindR (blob_row_for blob decoded now db) (\<lambda>(row, db).
            if c \<in> set (br_commitments row) then Inr (True, db)
            else Inr (True, db\<lparr> db_blobs := dput (blob_hash blob)
                   (row\<lparr>br_commitments := br_commitments row @ [c]\<rparr>) (db_blobs db) \<rparr>))))"

definition row_blob :: "blob_row \<Rightarrow> blob_db \<Rightarrow> bytes result" where
  "row_blob row db = (case dget (db_bodies db) (br_body row) of
     None \<Rightarrow> Inl (KeyError ''body'') | Some body \<Rightarrow> with_period body (br_period row))"

definition db_get :: "bytes \<Rightarrow> blob_db \<Rightarrow> bytes option result" where
  "db_get h db = (case dget (db_blobs db) h of
     None \<Rightarrow> Inr None | Some row \<Rightarrow> bindR (row_blob row db) (\<lambda>b. Inr (Some b)))"

definition db_commitments :: "bytes \<Rightarrow> blob_db \<Rightarrow> commitment list" where
  "db_commitments h db = (case dget (db_blobs db) h of None \<Rightarrow> [] | Some row \<Rightarrow> br_commitments row)"

definition db_entries_of :: "bytes \<Rightarrow> blob_db \<Rightarrow> entry list result" where
  "db_entries_of h db = bindR (db_get h db) (\<lambda>b. case b of
     None \<Rightarrow> Inr []
   | Some b \<Rightarrow> if b = [] then Inr [] else bindR (decode_blob b) (\<lambda>d. Inr (bl_entries d)))"

definition has_body_entry :: "string \<Rightarrow> int \<Rightarrow> blob_db \<Rightarrow> bool" where
  "has_body_entry addr port db \<longleftrightarrow> (addr, port) \<in> db_entries db"

definition body_count :: "blob_db \<Rightarrow> nat" where "body_count db = length (db_bodies db)"
definition blob_count :: "blob_db \<Rightarrow> nat" where "blob_count db = length (db_blobs db)"

definition commitment_count :: "blob_db \<Rightarrow> nat" where
  "commitment_count db = sum_list (map (length \<circ> br_commitments) (dvals (db_blobs db)))"

section \<open>The index and its cursor\<close>

type_synonym index_row = "bytes \<times> int \<times> commitment list"

definition index_key :: "index_row \<Rightarrow> int \<times> bytes" where
  "index_key r = (fst (snd r), fst r)"

definition past_cursor :: "int \<Rightarrow> bytes \<Rightarrow> index_row \<Rightarrow> bool" where
  "past_cursor since after r \<longleftrightarrow>
     fst (snd r) > since \<or> after \<noteq> [] \<and> fst (snd r) = since \<and> fst r > after"

definition index_rows :: "blob_db \<Rightarrow> index_row list" where
  "index_rows db = map (\<lambda>(h, r). (h, br_first_seen r, br_commitments r)) (db_blobs db)"

definition index_since :: "int \<Rightarrow> nat \<Rightarrow> bytes \<Rightarrow> blob_db \<Rightarrow> index_row list" where
  "index_since since limit after db =
     take limit (sort_key index_key (filter (past_cursor since after) (index_rows db)))"

section \<open>The saved document\<close>

definition commitment_to_dict :: "commitment \<Rightarrow> json" where
  "commitment_to_dict c = JObj
     [(''hash'', JStr (hex_of (co_hash c))), (''kind'', JStr (co_kind c)), (''venue'', JStr (co_venue c)),
      (''ref'', JStr (co_ref c)), (''publisher'', JStr (co_publisher c)),
      (''difficulty'', JInt (co_difficulty c)), (''timestamp'', JInt (co_timestamp c)),
      (''proof'', JList (map (\<lambda>p. JStr (hex_of p)) (co_proof c))), (''path'', JInt (co_path c))]"

text \<open>The text fields are taken over as they are; here a value of another type is refused at once, where the
  code would keep it.\<close>

definition commitment_from_dict :: "json \<Rightarrow> commitment result" where
  "commitment_from_dict d =
     bindR (bindR (json_get ''hash'' d) json_hex) (\<lambda>h.
     bindR (bindR (json_get ''kind'' d) json_string) (\<lambda>kind.
     bindR (bindR (json_get ''venue'' d) json_string) (\<lambda>venue.
     bindR (bindR (json_get ''ref'' d) json_string) (\<lambda>ref.
     bindR (bindR (json_get ''publisher'' d) json_string) (\<lambda>publisher.
     bindR (bindR (json_get ''difficulty'' d) json_int) (\<lambda>difficulty.
     bindR (bindR (json_get ''timestamp'' d) json_int) (\<lambda>timestamp.
     bindR (bindR (bindR (json_get_or ''proof'' (JList []) d) json_list) (mapR json_hex)) (\<lambda>proof.
     bindR (bindR (json_get_or ''path'' (JInt 0) d) json_int) (\<lambda>path.
       Inr \<lparr> co_hash = h, co_kind = kind, co_venue = venue, co_ref = ref, co_publisher = publisher,
             co_difficulty = difficulty, co_timestamp = timestamp, co_proof = proof, co_path = path \<rparr>)))))))))"

definition row_to_json :: "blob_row \<Rightarrow> json" where
  "row_to_json r = JObj
     [(''body'', JStr (hex_of (br_body r))), (''period'', JInt (int (br_period r))),
      (''first_seen'', JInt (br_first_seen r)),
      (''commitments'', JList (map commitment_to_dict (br_commitments r)))]"

definition db_to_json :: "blob_db \<Rightarrow> json" where
  "db_to_json db = JObj
     [(''version'', JInt 1),
      (''bodies'', JObj (map (\<lambda>(k, v). (hex_of k, JStr (hex_of v))) (db_bodies db))),
      (''blobs'', JObj (map (\<lambda>(h, r). (hex_of h, row_to_json r)) (db_blobs db)))]"

fun body_items :: "(string \<times> json) list \<Rightarrow> (bytes, bytes) dict \<Rightarrow> (bytes, bytes) dict result" where
  "body_items [] acc = Inr acc"
| "body_items ((k, v) # kvs) acc =
     bindR (fromhex k) (\<lambda>k. bindR (json_hex v) (\<lambda>v. body_items kvs (dput k v acc)))"

definition row_from_json :: "json \<Rightarrow> blob_row result" where
  "row_from_json r =
     bindR (bindR (json_get ''body'' r) json_hex) (\<lambda>body.
     bindR (bindR (json_get ''period'' r) json_int) (\<lambda>period.
     bindR (bindR (json_get ''first_seen'' r) json_int) (\<lambda>first_seen.
     bindR (bindR (bindR (json_get ''commitments'' r) json_list) (mapR commitment_from_dict)) (\<lambda>cs.
       if period < 0 then Inl (OverflowError ''can't convert negative int to unsigned'')
       else Inr \<lparr> br_body = body, br_period = nat period, br_first_seen = first_seen, br_commitments = cs \<rparr>))))"

fun blob_items :: "(string \<times> json) list \<Rightarrow> blob_db \<Rightarrow> blob_db result" where
  "blob_items [] db = Inr db"
| "blob_items ((h, r) # hrs) db =
     bindR (row_from_json r) (\<lambda>row.
     bindR (fromhex h) (\<lambda>h.
     let db = db\<lparr> db_blobs := dput h row (db_blobs db) \<rparr> in
     bindR (bindR (row_blob row db) decode_blob) (\<lambda>b.
       blob_items hrs (db\<lparr> db_entries := db_entries db \<union> set (bl_entries b) \<rparr>))))"

definition db_from_json :: "json \<Rightarrow> blob_db result" where
  "db_from_json d =
     bindR (json_get_or ''version'' JNull d) (\<lambda>version.
     if \<not> json_is_one version then Inr empty_db else
     bindR (bindR (bindR (json_get ''bodies'' d) json_items) (\<lambda>kvs. body_items kvs [])) (\<lambda>bodies.
     bindR (bindR (json_get ''blobs'' d) json_items) (\<lambda>hrs.
       blob_items hrs (empty_db\<lparr> db_bodies := bodies \<rparr>))))"

section \<open>The invariant\<close>

text \<open>\<open>U\<close> is a set of byte strings on which the hash does not collide, which content addressing relies on.\<close>

definition stored :: "bytes set \<Rightarrow> blob_db \<Rightarrow> bytes \<Rightarrow> blob_row \<Rightarrow> bytes \<Rightarrow> list_blob \<Rightarrow> bool" where
  "stored U db h row blob b \<longleftrightarrow> blob \<in> U \<and> h = blob_hash blob \<and> decode_blob blob = Inr b \<and>
     br_period row = bl_period b \<and> list_all (\<lambda>c. co_hash c = h) (br_commitments row) \<and>
     (\<exists>body. list_body blob = Inr body \<and> body \<in> U \<and> br_body row = sha256 body \<and>
        dget (db_bodies db) (br_body row) = Some body)"

definition db_inv :: "bytes set \<Rightarrow> blob_db \<Rightarrow> bool" where
  "db_inv U db \<longleftrightarrow> dict_ok (db_bodies db) \<and> dict_ok (db_blobs db) \<and>
     (\<forall>(k, body) \<in> set (db_bodies db). k = sha256 body \<and> body \<in> U) \<and>
     (\<forall>(h, row) \<in> set (db_blobs db). \<exists>blob b. stored U db h row blob b) \<and>
     db_entries db = {e. \<exists>h row blob b. (h, row) \<in> set (db_blobs db) \<and> stored U db h row blob b \<and> e \<in> set (bl_entries b)}"

definition hash_injective :: "bytes set \<Rightarrow> bool" where
  "hash_injective U \<longleftrightarrow> inj_on sha256 U"

lemma db_inv_empty: "db_inv U empty_db"
  by (simp add: db_inv_def empty_db_def)

lemma stored_decode: "stored U db h row blob b \<Longrightarrow> decode_blob blob = Inr b \<and> h = blob_hash blob \<and> blob \<in> U"
  unfolding stored_def by blast

lemma stored_row_blob:
  "stored U db h row blob b \<Longrightarrow> row_blob row db = Inr blob"
proof -
  assume s: "stored U db h row blob b"
  then obtain body where o: "list_body blob = Inr body" "dget (db_bodies db) (br_body row) = Some body"
    "decode_blob blob = Inr b" "br_period row = bl_period b" by (auto simp: stored_def)
  have "with_period body (bl_period b) = Inr blob"
    using decode_with_period [OF o(3), of 0] o(1) by (auto simp: list_body_def)
  then show ?thesis using o by (simp add: row_blob_def)
qed

lemma stored_unique: "stored U db h row blob b \<Longrightarrow> stored U db h row blob' b' \<Longrightarrow> blob' = blob \<and> b' = b"
proof -
  assume s: "stored U db h row blob b" "stored U db h row blob' b'"
  then have "blob' = blob" using stored_row_blob [OF s(1)] stored_row_blob [OF s(2)] by simp
  with s stored_decode [OF s(1)] stored_decode [OF s(2)] show ?thesis by simp
qed

lemma db_inv_row:
  assumes "db_inv U db" "dget (db_blobs db) h = Some row"
  obtains blob b where "stored U db h row blob b"
proof -
  have "(h, row) \<in> set (db_blobs db)" using assms(2) by (rule map_of_SomeD)
  then have "\<exists>blob b. stored U db h row blob b" using assms(1) unfolding db_inv_def by blast
  with that show thesis by blast
qed

lemma db_get_row: "dget (db_blobs db) h = Some row \<Longrightarrow> stored U db h row blob b \<Longrightarrow> db_get h db = Inr (Some blob)"
  by (simp add: db_get_def stored_row_blob)

text \<open>Adding a body under its hash keeps every body.\<close>

lemma setdefault_bodies:
  "dict_ok d \<Longrightarrow> dict_ok (setdefault k v d)"
  "dget d k' = Some v' \<Longrightarrow> dget (setdefault k v d) k' = Some v'"
  "dget (setdefault k v d) k = Some (case dget d k of None \<Rightarrow> v | Some w \<Rightarrow> w)"
  by (auto simp: setdefault_def split: option.splits)

lemma stored_mono:
  "stored U db h row blob b \<Longrightarrow> (\<And>k v. dget (db_bodies db) k = Some v \<Longrightarrow> dget (db_bodies db') k = Some v) \<Longrightarrow>
     stored U db' h row blob b"
  unfolding stored_def by blast

lemma stored_blobs [simp]: "stored U (db\<lparr>db_blobs := x\<rparr>) h row blob b = stored U db h row blob b"
  "stored U (db\<lparr>db_entries := y\<rparr>) h row blob b = stored U db h row blob b"
  by (simp_all add: stored_def)

lemma stored_commit: "stored U db h row blob b \<Longrightarrow> co_hash c = h \<Longrightarrow>
    stored U db h (row\<lparr>br_commitments := br_commitments row @ [c]\<rparr>) blob b"
  by (auto simp: stored_def)

lemma set_dput_new: "dget d k = None \<Longrightarrow> set (dput k v d) = insert (k, v) (set d)"
  by (simp add: dput_new)

lemma blob_row_for_inv:
  assumes inv: "db_inv U db" and U: "hash_injective U" "blob \<in> U" "\<And>body. list_body blob = Inr body \<Longrightarrow> body \<in> U"
    and d: "decode_blob blob = Inr b"
  shows "\<exists>row db'. blob_row_for blob b now db = Inr (row, db') \<and> db_inv U db' \<and>
     dget (db_blobs db') (blob_hash blob) = Some row \<and> stored U db' (blob_hash blob) row blob b \<and>
     (\<forall>h r. dget (db_blobs db) h = Some r \<longrightarrow> dget (db_blobs db') h = Some r)"
proof (cases "dget (db_blobs db) (blob_hash blob)")
  case (Some row)
  from db_inv_row [OF inv Some] obtain blob' b' where s: "stored U db (blob_hash blob) row blob' b'" .
  then have "blob' = blob" using U(1,2) by (auto simp: stored_def blob_hash_def hash_injective_def dest: inj_onD)
  with s d have "stored U db (blob_hash blob) row blob b" by (auto simp: stored_def)
  with Some inv show ?thesis by (simp add: blob_row_for_def)
next
  case None
  obtain body where body: "list_body blob = Inr body" "with_period body (bl_period b) = Inr blob"
    using decode_with_period [OF d, of 0] by (auto simp: list_body_def)
  define h where "h = blob_hash blob"
  define row where "row = \<lparr> br_body = sha256 body, br_period = bl_period b, br_first_seen = now, br_commitments = [] \<rparr>"
  define db' where "db' = db\<lparr> db_bodies := setdefault (sha256 body) body (db_bodies db),
      db_blobs := dput h row (db_blobs db), db_entries := db_entries db \<union> set (bl_entries b) \<rparr>"
  have r: "blob_row_for blob b now db = Inr (row, db')"
    by (simp add: blob_row_for_def None body row_def db'_def h_def Let_def)
  have bu: "body \<in> U" by (rule U(3) [OF body(1)])
  have old: "dget (db_bodies db) k = Some v \<Longrightarrow> k = sha256 v \<and> v \<in> U" for k v
    using inv by (auto simp: db_inv_def dest: map_of_SomeD)
  have same: "dget (db_bodies db) (sha256 body) = Some w \<Longrightarrow> w = body" for w
    using old [of "sha256 body" w] U(1) bu by (auto simp: hash_injective_def dest: inj_onD)
  have bodies: "dget (db_bodies db') (sha256 body) = Some body"
    using same by (auto simp: db'_def setdefault_bodies(3) split: option.splits)
  have mono: "dget (db_bodies db) k = Some v \<Longrightarrow> dget (db_bodies db') k = Some v" for k v
    by (simp add: db'_def setdefault_bodies(2))
  have new: "stored U db' h row blob b"
    using U(2) d body(1) bu bodies by (simp add: stored_def row_def h_def)
  have set: "set (db_blobs db') = insert (h, row) (set (db_blobs db))"
    using None by (simp add: db'_def h_def set_dput_new)
  have ent: "db_entries db = {e. \<exists>h row blob b. (h, row) \<in> set (db_blobs db) \<and> stored U db h row blob b \<and> e \<in> set (bl_entries b)}"
    and rows: "\<forall>(h, row) \<in> set (db_blobs db). \<exists>blob b. stored U db h row blob b"
    and bod: "\<forall>(k, body) \<in> set (db_bodies db). k = sha256 body \<and> body \<in> U"
    and ok: "dict_ok (db_bodies db)" "dict_ok (db_blobs db)" using inv by (auto simp: db_inv_def)
  have rows': "\<forall>(h, row) \<in> set (db_blobs db'). \<exists>blob b. stored U db' h row blob b"
    using rows new stored_mono [OF _ mono] unfolding set by blast
  have keep: "(h', r') \<in> set (db_blobs db) \<Longrightarrow> stored U db' h' r' bl b' \<longleftrightarrow> stored U db h' r' bl b'" for h' r' bl b'
    using rows stored_mono [OF _ mono] stored_unique by blast
  have ok': "dict_ok (db_bodies db')" "dict_ok (db_blobs db')" using ok by (simp_all add: db'_def setdefault_bodies(1))
  have bod': "\<forall>(k, body) \<in> set (db_bodies db'). k = sha256 body \<and> body \<in> U"
    using bod bu by (auto simp: db'_def setdefault_def set_dput_new)
  have "db_entries db' = {e. \<exists>h row blob b. (h, row) \<in> set (db_blobs db') \<and> stored U db' h row blob b \<and> e \<in> set (bl_entries b)}"
    (is "_ = ?R")
  proof
    show "db_entries db' \<subseteq> ?R"
    proof
      fix e assume "e \<in> db_entries db'"
      then consider "e \<in> db_entries db" | "e \<in> set (bl_entries b)" by (auto simp: db'_def)
      then show "e \<in> ?R"
      proof cases
        case 1
        then obtain h' r' bl b' where e: "(h', r') \<in> set (db_blobs db)" "stored U db h' r' bl b'" "e \<in> set (bl_entries b')"
          unfolding ent by blast
        have "(h', r') \<in> set (db_blobs db')" unfolding set using e(1) by (rule insertI2)
        moreover have "stored U db' h' r' bl b'" by (rule keep [OF e(1), THEN iffD2, OF e(2)])
        ultimately show ?thesis using e(3) by blast
      next
        case 2
        have "(h, row) \<in> set (db_blobs db')" unfolding set by (rule insertI1)
        with 2 new show ?thesis by blast
      qed
    qed
    show "?R \<subseteq> db_entries db'"
    proof
      fix e assume "e \<in> ?R"
      then obtain h' r' bl b' where e: "(h', r') \<in> insert (h, row) (set (db_blobs db))" "stored U db' h' r' bl b'" "e \<in> set (bl_entries b')"
        unfolding set by blast
      show "e \<in> db_entries db'"
      proof (cases "(h', r') = (h, row)")
        case True
        then have "b' = b" using e(2) stored_unique [OF new] by simp
        then show ?thesis using e(3) by (simp add: db'_def)
      next
        case False
        then have "(h', r') \<in> set (db_blobs db)" using e(1) by auto
        then have "e \<in> db_entries db" using keep e(2,3) unfolding ent by blast
        then show ?thesis by (simp add: db'_def)
      qed
    qed
  qed
  then have "db_inv U db'"
    unfolding db_inv_def using rows' bod' ok' by blast
  moreover have "dget (db_blobs db') (blob_hash blob) = Some row" by (simp add: db'_def h_def)
  moreover have "\<forall>h r. dget (db_blobs db) h = Some r \<longrightarrow> dget (db_blobs db') h = Some r"
    using None by (auto simp: db'_def h_def)
  ultimately show ?thesis using r new by (auto simp: h_def)
qed

lemma add_commitment_inv:
  assumes inv: "db_inv U db" and g: "dget (db_blobs db) h = Some row" and st: "stored U db h row blob b" and c: "co_hash c = h"
  defines "row' \<equiv> row\<lparr>br_commitments := br_commitments row @ [c]\<rparr>"
  shows "db_inv U (db\<lparr>db_blobs := dput h row' (db_blobs db)\<rparr>)"
proof -
  define db' where "db' = db\<lparr>db_blobs := dput h row' (db_blobs db)\<rparr>"
  have ent: "db_entries db = {e. \<exists>h row blob b. (h, row) \<in> set (db_blobs db) \<and> stored U db h row blob b \<and> e \<in> set (bl_entries b)}"
    and rows: "\<forall>(h, row) \<in> set (db_blobs db). \<exists>blob b. stored U db h row blob b"
    and bod: "\<forall>(k, body) \<in> set (db_bodies db). k = sha256 body \<and> body \<in> U"
    and ok: "dict_ok (db_bodies db)" "dict_ok (db_blobs db)" using inv by (auto simp: db_inv_def)
  have set: "set (db_blobs db') = insert (h, row') {p \<in> set (db_blobs db). fst p \<noteq> h}"
    using set_dput_ok [OF ok(2)] by (simp add: db'_def)
  have same: "stored U db' = stored U db" by (intro ext) (simp add: db'_def)
  have st': "stored U db h row' blob b" using stored_commit [OF st c] by (simp add: row'_def)
  have row: "(h', r') \<in> set (db_blobs db) \<Longrightarrow> h' = h \<Longrightarrow> r' = row" for h' r'
    using ok(2) g by (metis dict_ok_dget option.inject)
  have rows': "\<forall>(h, row) \<in> set (db_blobs db'). \<exists>blob b. stored U db' h row blob b"
    using rows st' unfolding set same by blast
  have "db_entries db' = {e. \<exists>h row blob b. (h, row) \<in> set (db_blobs db') \<and> stored U db' h row blob b \<and> e \<in> set (bl_entries b)}"
    (is "_ = ?R")
  proof (rule set_eqI)
    fix e
    have d: "db_entries db' = db_entries db" by (simp add: db'_def)
    show "e \<in> db_entries db' \<longleftrightarrow> e \<in> ?R"
    proof
      assume "e \<in> db_entries db'"
      then obtain h' r' bl b' where e: "(h', r') \<in> set (db_blobs db)" "stored U db h' r' bl b'" "e \<in> set (bl_entries b')"
        unfolding d ent by blast
      show "e \<in> ?R"
      proof (cases "h' = h")
        case True
        then have "r' = row" using row e(1) by blast
        then have "b' = b" using e(2) st stored_unique True by blast
        moreover have "(h, row') \<in> set (db_blobs db')" unfolding set by (rule insertI1)
        ultimately show ?thesis using st' e(3) unfolding same by blast
      next
        case False
        then have "(h', r') \<in> set (db_blobs db')" unfolding set using e(1) by simp
        then show ?thesis using e unfolding same by blast
      qed
    next
      assume "e \<in> ?R"
      then obtain h' r' bl b' where e: "(h', r') \<in> set (db_blobs db')" "stored U db h' r' bl b'" "e \<in> set (bl_entries b')"
        unfolding same by blast
      have "e \<in> db_entries db"
      proof (cases "(h', r') = (h, row')")
        case True
        then have "b' = b" using e(2) st' stored_unique by blast
        moreover have "(h, row) \<in> set (db_blobs db)" using g by (rule map_of_SomeD)
        ultimately show ?thesis using st e(3) unfolding ent by blast
      next
        case False
        then have "(h', r') \<in> set (db_blobs db)" using e(1) unfolding set by auto
        then show ?thesis using e(2,3) unfolding ent by blast
      qed
      then show "e \<in> db_entries db'" unfolding d .
    qed
  qed
  moreover have "dict_ok (db_bodies db')" "dict_ok (db_blobs db')" "\<forall>(k, body) \<in> set (db_bodies db'). k = sha256 body \<and> body \<in> U"
    using ok bod by (simp_all add: db'_def)
  ultimately have "db_inv U db'"
    unfolding db_inv_def using rows' by blast
  then show ?thesis by (simp add: db'_def)
qed

section \<open>Histories of additions\<close>

type_synonym add_op = "bytes \<times> commitment \<times> int"

definition acceptable :: "add_op \<Rightarrow> bool" where
  "acceptable op \<longleftrightarrow> (case op of (blob, c, now) \<Rightarrow>
     co_hash c = blob_hash blob \<and> co_kind c \<in> set KINDS \<and> (\<exists>b. decode_blob blob = Inr b))"

definition in_universe :: "bytes set \<Rightarrow> add_op \<Rightarrow> bool" where
  "in_universe U op \<longleftrightarrow> (case op of (blob, c, now) \<Rightarrow>
     hash_injective U \<and> blob \<in> U \<and> (\<forall>body. list_body blob = Inr body \<longrightarrow> body \<in> U))"

definition apply_add :: "add_op \<Rightarrow> blob_db \<Rightarrow> blob_db" where
  "apply_add op db = (case op of (blob, c, now) \<Rightarrow> (case db_add blob c now db of Inl e \<Rightarrow> db | Inr (ok, db') \<Rightarrow> db'))"

text \<open>An addition appends the commitment under its hash, or leaves the commitments as they are.\<close>

lemma db_add_appends:
  assumes "db_add blob c now db = Inr (ok, db')"
  shows "db_commitments h db' = db_commitments h db \<or>
    h = co_hash c \<and> c \<notin> set (db_commitments h db) \<and> db_commitments h db' = db_commitments h db @ [c]"
proof (cases "co_hash c \<noteq> blob_hash blob \<or> co_kind c \<notin> set KINDS \<or> (\<exists>e. decode_blob blob = Inl e)")
  case True
  then show ?thesis using assms by (auto simp: db_add_def split: sum.splits)
next
  case False
  then obtain d where d: "decode_blob blob = Inr d" by (meson sum.exhaust)
  from False have ch: "co_hash c = blob_hash blob" "co_kind c \<in> set KINDS" by blast+
  from assms d ch obtain row db1 where rf: "blob_row_for blob d now db = Inr (row, db1)"
    and db': "db' = (if c \<in> set (br_commitments row) then db1 else db1\<lparr> db_blobs := dput (blob_hash blob)
         (row\<lparr>br_commitments := br_commitments row @ [c]\<rparr>) (db_blobs db1) \<rparr>)"
    by (cases "blob_row_for blob d now db") (auto simp: db_add_def split: if_splits)
  have "br_commitments row = db_commitments (blob_hash blob) db \<and> db_commitments h db1 = db_commitments h db"
  proof (cases "dget (db_blobs db) (blob_hash blob)")
    case None
    then show ?thesis using rf by (cases "list_body blob") (auto simp: blob_row_for_def db_commitments_def Let_def)
  next
    case (Some r)
    then show ?thesis using rf by (simp add: blob_row_for_def db_commitments_def)
  qed
  moreover have "db_commitments h db' = (if c \<in> set (br_commitments row) then db_commitments h db1
      else if h = blob_hash blob then br_commitments row @ [c] else db_commitments h db1)"
    by (simp add: db' db_commitments_def)
  ultimately show ?thesis using ch(1) by auto
qed

lemma db_add_rejected: "\<not> acceptable (blob, c, now) \<Longrightarrow> db_add blob c now db = Inr (False, db)"
  by (auto simp: acceptable_def db_add_def split: sum.splits)

lemma db_add_accepted:
  assumes inv: "db_inv U db" and ok: "acceptable (blob, c, now)" "in_universe U (blob, c, now)"
  shows "\<exists>db'. db_add blob c now db = Inr (True, db') \<and> db_inv U db' \<and> db_get (blob_hash blob) db' = Inr (Some blob) \<and>
     c \<in> set (db_commitments (blob_hash blob) db') \<and>
     (\<forall>h x. db_get h db = Inr (Some x) \<longrightarrow> db_get h db' = Inr (Some x)) \<and>
     (\<forall>h. set (db_commitments h db) \<subseteq> set (db_commitments h db'))"
proof -
  obtain b where d: "decode_blob blob = Inr b" and ck: "co_hash c = blob_hash blob" "co_kind c \<in> set KINDS"
    using ok(1) by (auto simp: acceptable_def)
  have U: "hash_injective U" "blob \<in> U" "\<And>body. list_body blob = Inr body \<Longrightarrow> body \<in> U" using ok(2) by (auto simp: in_universe_def)
  from blob_row_for_inv [OF inv U d, of now] obtain row db1 where r: "blob_row_for blob b now db = Inr (row, db1)" "db_inv U db1"
    "dget (db_blobs db1) (blob_hash blob) = Some row" "stored U db1 (blob_hash blob) row blob b"
    and old: "\<forall>h r. dget (db_blobs db) h = Some r \<longrightarrow> dget (db_blobs db1) h = Some r" by blast
  have getold: "db_get h db1 = Inr (Some x)" if gx: "db_get h db = Inr (Some x)" for h x
  proof -
    obtain r' where r': "dget (db_blobs db) h = Some r'" using gx by (auto simp: db_get_def split: option.splits)
    from db_inv_row [OF inv r'] obtain bl b' where s: "stored U db h r' bl b'" .
    with gx db_get_row [OF r'] have x: "bl = x" by simp
    have r1: "dget (db_blobs db1) h = Some r'" using old r' by blast
    from db_inv_row [OF r(2) r1] obtain bl1 b1 where s1: "stored U db1 h r' bl1 b1" .
    have "sha256 bl1 = sha256 bl" "bl1 \<in> U" "bl \<in> U"
      using stored_decode [OF s] stored_decode [OF s1] by (simp_all add: blob_hash_def)
    then have "bl1 = bl" using U(1) by (auto simp: hash_injective_def dest: inj_onD)
    with db_get_row [OF r1 s1] x show ?thesis by simp
  qed
  have comold: "set (db_commitments h db) \<subseteq> set (db_commitments h db1)" for h
    using old by (cases "dget (db_blobs db) h") (auto simp: db_commitments_def)
  show ?thesis
  proof (cases "c \<in> set (br_commitments row)")
    case True
    have "db_add blob c now db = Inr (True, db1)" using ck d r(1) True by (simp add: db_add_def)
    then show ?thesis using r getold comold db_get_row [OF r(3,4)] True by (auto simp: db_commitments_def)
  next
    case False
    define row' where "row' = row\<lparr>br_commitments := br_commitments row @ [c]\<rparr>"
    define db2 where "db2 = db1\<lparr>db_blobs := dput (blob_hash blob) row' (db_blobs db1)\<rparr>"
    have a: "db_add blob c now db = Inr (True, db2)" using ck d r(1) False by (simp add: db_add_def row'_def db2_def)
    have "db_inv U db2" unfolding db2_def row'_def by (rule add_commitment_inv [OF r(2,3,4) ck(1)])
    moreover have rb: "row_blob row' db1 = row_blob row db1" "row_blob q db2 = row_blob q db1" for q
      by (simp_all add: row_blob_def row'_def db2_def split: option.split)
    have g: "db_get h db2 = db_get h db1" for h
    proof -
      have "dget (db_blobs db2) h = (if h = blob_hash blob then Some row' else dget (db_blobs db1) h)"
        by (simp add: db2_def)
      then show ?thesis using r(3) by (simp add: db_get_def rb split: option.split)
    qed
    moreover have "set (db_commitments h db1) \<subseteq> set (db_commitments h db2)" for h
      using r(3) by (auto simp: db_commitments_def db2_def row'_def)
    moreover have "c \<in> set (db_commitments (blob_hash blob) db2)" by (simp add: db_commitments_def db2_def row'_def)
    ultimately show ?thesis using a getold comold db_get_row [OF r(3,4)] by (metis subset_trans)
  qed
qed

interpretation blob_history: history apply_add "in_universe U" "db_inv U" for U
proof
  fix op db
  assume a: "in_universe U op" "db_inv U db"
  obtain blob c now where op: "op = (blob, c, now)" by (cases op)
  show "db_inv U (apply_add op db)"
    using db_add_accepted [OF a(2), of blob c now] db_add_rejected [of blob c now db] a
    by (cases "acceptable op") (auto simp: apply_add_def op)
qed

definition run_adds :: "add_op list \<Rightarrow> blob_db" where
  "run_adds ops = fold apply_add ops empty_db"

lemma run_adds_inv: "list_all (in_universe U) ops \<Longrightarrow> db_inv U (run_adds ops)"
  unfolding run_adds_def by (rule blob_history.inv_run [OF _ db_inv_empty])

lemma apply_add_keeps:
  assumes "in_universe U op" "db_inv U db"
  shows "db_get h db = Inr (Some x) \<Longrightarrow> db_get h (apply_add op db) = Inr (Some x)"
    "set (db_commitments h db) \<subseteq> set (db_commitments h (apply_add op db))"
proof -
  obtain blob c now where op: "op = (blob, c, now)" by (cases op)
  have "(db_get h db = Inr (Some x) \<longrightarrow> db_get h (apply_add op db) = Inr (Some x)) \<and>
    set (db_commitments h db) \<subseteq> set (db_commitments h (apply_add op db))"
  proof (cases "acceptable op")
    case True
    with db_add_accepted [OF assms(2), of blob c now] assms(1) obtain db' where "db_add blob c now db = Inr (True, db')"
      "\<forall>h x. db_get h db = Inr (Some x) \<longrightarrow> db_get h db' = Inr (Some x)"
      "\<forall>h. set (db_commitments h db) \<subseteq> set (db_commitments h db')" by (auto simp: op)
    then show ?thesis by (simp add: apply_add_def op)
  next
    case False
    then show ?thesis using db_add_rejected [of blob c now db] by (simp add: apply_add_def op)
  qed
  then show "db_get h db = Inr (Some x) \<Longrightarrow> db_get h (apply_add op db) = Inr (Some x)"
    "set (db_commitments h db) \<subseteq> set (db_commitments h (apply_add op db))" by blast+
qed

lemma fold_add_keeps:
  assumes "list_all (in_universe U) ops" "db_inv U db"
  shows "(db_get h db = Inr (Some x) \<longrightarrow> db_get h (fold apply_add ops db) = Inr (Some x)) \<and>
    set (db_commitments h db) \<subseteq> set (db_commitments h (fold apply_add ops db))"
  using assms
proof (induction ops arbitrary: db)
  case (Cons op ops)
  then have o: "in_universe U op" "list_all (in_universe U) ops" by simp_all
  note I = Cons.IH [OF o(2) blob_history.inv_step [OF o(1) Cons.prems(2)]]
  show ?case using I apply_add_keeps [OF o(1) Cons.prems(2)] by (metis fold_simps(2) subset_trans)
qed simp

lemma run_adds_stored:
  assumes "list_all (in_universe U) ops" "(blob, c, now) \<in> set ops" "acceptable (blob, c, now)"
  shows "db_get (blob_hash blob) (run_adds ops) = Inr (Some blob) \<and> c \<in> set (db_commitments (blob_hash blob) (run_adds ops))"
proof -
  from assms(2) obtain xs ys where ops: "ops = xs @ (blob, c, now) # ys" by (meson split_list)
  have U: "list_all (in_universe U) xs" "in_universe U (blob, c, now)" "list_all (in_universe U) ys"
    using assms(1) by (simp_all add: ops)
  define db where "db = run_adds xs"
  have inv: "db_inv U db" unfolding db_def by (rule run_adds_inv [OF U(1)])
  from db_add_accepted [OF inv assms(3) U(2)] have
    a: "db_get (blob_hash blob) (apply_add (blob, c, now) db) = Inr (Some blob)"
      "c \<in> set (db_commitments (blob_hash blob) (apply_add (blob, c, now) db))"
    by (auto simp: apply_add_def)
  have "run_adds ops = fold apply_add ys (apply_add (blob, c, now) db)" by (simp add: run_adds_def ops db_def)
  with fold_add_keeps [OF U(3) blob_history.inv_step [OF U(2) inv], of "blob_hash blob" blob] a show ?thesis by auto
qed

lemma db_inv_get:
  assumes "db_inv U db" "db_get h db = Inr (Some blob)"
  obtains row b where "stored U db h row blob b" "(h, row) \<in> set (db_blobs db)"
proof -
  obtain row where row: "dget (db_blobs db) h = Some row" using assms(2) by (auto simp: db_get_def split: option.splits)
  from db_inv_row [OF assms(1) row] obtain bl b where s: "stored U db h row bl b" .
  then have "bl = blob" using db_get_row [OF row s] assms(2) by simp
  with s that map_of_SomeD [OF row] show thesis by blast
qed

lemma db_inv_entry:
  assumes "db_inv U db"
  shows "has_body_entry a p db \<longleftrightarrow> (\<exists>h es. db_entries_of h db = Inr es \<and> (a, p) \<in> set es)"
proof
  assume "has_body_entry a p db"
  then have "(a, p) \<in> db_entries db" by (simp add: has_body_entry_def)
  then obtain h row blob b where e: "(h, row) \<in> set (db_blobs db)" "stored U db h row blob b" "(a, p) \<in> set (bl_entries b)"
    using assms unfolding db_inv_def by blast
  then have "dget (db_blobs db) h = Some row" using assms by (auto simp: db_inv_def dict_ok_dget)
  from db_get_row [OF this e(2)] stored_decode [OF e(2)] e(3)
  show "\<exists>h es. db_entries_of h db = Inr es \<and> (a, p) \<in> set es"
    by (intro exI [of _ h] exI [of _ "bl_entries b"]) (auto simp: db_entries_of_def decode_blob_def MAGIC_def)
next
  assume "\<exists>h es. db_entries_of h db = Inr es \<and> (a, p) \<in> set es"
  then obtain h es where e: "db_entries_of h db = Inr es" "(a, p) \<in> set es" by blast
  then obtain blob b where g: "db_get h db = Inr (Some blob)" "decode_blob blob = Inr b" "es = bl_entries b"
    by (auto simp: db_entries_of_def bindR_Inr_conv split: option.splits if_splits)
  from db_inv_get [OF assms g(1)] obtain row b' where s: "stored U db h row blob b'" "(h, row) \<in> set (db_blobs db)" .
  then have "b' = b" using stored_decode [OF s(1)] g(2) by simp
  then show "has_body_entry a p db" using s e(2) g(3) assms unfolding has_body_entry_def db_inv_def by blast
qed

section \<open>Saving and loading\<close>

lemma commitment_json [simp]: "commitment_from_dict (commitment_to_dict c) = Inr c"
proof -
  have "mapR json_hex (map (\<lambda>p. JStr (hex_of p)) ps) = Inr ps" for ps by (induction ps) simp_all
  then show ?thesis by (simp add: commitment_to_dict_def commitment_from_dict_def)
qed

lemma row_json [simp]: "row_from_json (row_to_json r) = Inr r"
proof -
  have "mapR commitment_from_dict (map commitment_to_dict cs) = Inr cs" for cs by (induction cs) simp_all
  then show ?thesis by (simp add: row_to_json_def row_from_json_def)
qed

lemma body_items_map:
  "dict_ok (acc @ kvs) \<Longrightarrow> body_items (map (\<lambda>(k, v). (hex_of k, JStr (hex_of v))) kvs) acc = Inr (acc @ kvs)"
proof (induction kvs arbitrary: acc)
  case (Cons kv kvs)
  obtain k v where kv: "kv = (k, v)" by (cases kv)
  have "k \<notin> fst ` set acc" using Cons.prems by (auto simp: dict_ok_def kv)
  then have "dget acc k = None" by (simp add: map_of_eq_None_iff)
  then have "dput k v acc = acc @ [(k, v)]" by (rule dput_new)
  with Cons.IH [of "acc @ [(k, v)]"] Cons.prems show ?case by (simp add: kv)
qed simp

lemma blob_items_map:
  assumes "dict_ok (db_blobs db @ hrs)" "\<forall>(h, r) \<in> set hrs. \<exists>blob b. stored U db h r blob b"
  shows "\<exists>es. blob_items (map (\<lambda>(h, r). (hex_of h, row_to_json r)) hrs) db =
     Inr (db\<lparr> db_blobs := db_blobs db @ hrs, db_entries := db_entries db \<union> es \<rparr>) \<and>
     es = {e. \<exists>h r blob b. (h, r) \<in> set hrs \<and> stored U db h r blob b \<and> e \<in> set (bl_entries b)}"
  using assms
proof (induction hrs arbitrary: db)
  case (Cons hr hrs)
  obtain h r where hr: "hr = (h, r)" by (cases hr)
  from Cons.prems obtain blob b where s: "stored U db h r blob b" by (auto simp: hr)
  have "h \<notin> fst ` set (db_blobs db)" using Cons.prems by (auto simp: dict_ok_def hr)
  then have "dget (db_blobs db) h = None" by (simp add: map_of_eq_None_iff)
  then have n: "dput h r (db_blobs db) = db_blobs db @ [(h, r)]" by (rule dput_new)
  define db1 where "db1 = db\<lparr> db_blobs := db_blobs db @ [(h, r)], db_entries := db_entries db \<union> set (bl_entries b) \<rparr>"
  have same: "stored U db1 = stored U db" by (intro ext) (simp add: db1_def)
  have "dict_ok (db_blobs db1 @ hrs)" "\<forall>(h, r) \<in> set hrs. \<exists>blob b. stored U db1 h r blob b"
    using Cons.prems by (auto simp: db1_def hr)
  from Cons.IH [OF this, unfolded same] obtain es where I:
    "blob_items (map (\<lambda>(h, r). (hex_of h, row_to_json r)) hrs) db1 =
       Inr (db1\<lparr> db_blobs := db_blobs db1 @ hrs, db_entries := db_entries db1 \<union> es \<rparr>)"
    "es = {e. \<exists>h r blob b. (h, r) \<in> set hrs \<and> stored U db h r blob b \<and> e \<in> set (bl_entries b)}" by blast
  have rb: "row_blob r (db\<lparr> db_blobs := x \<rparr>) = Inr blob" for x
    using stored_row_blob [OF s] by (simp add: row_blob_def)
  have "blob_items (map (\<lambda>(h, r). (hex_of h, row_to_json r)) (hr # hrs)) db =
      Inr (db\<lparr> db_blobs := db_blobs db @ hr # hrs, db_entries := db_entries db \<union> (set (bl_entries b) \<union> es) \<rparr>)"
    using I(1) stored_decode [OF s, THEN conjunct1] by (simp add: hr Let_def rb n) (simp add: db1_def Un_assoc)
  moreover have "set (bl_entries b) \<union> es = {e. \<exists>h r blob b. (h, r) \<in> set (hr # hrs) \<and> stored U db h r blob b \<and> e \<in> set (bl_entries b)}"
    (is "_ = ?R")
  proof (rule set_eqI)
    fix e
    have "e \<in> ?R \<longleftrightarrow> (\<exists>blob b. stored U db h r blob b \<and> e \<in> set (bl_entries b)) \<or> e \<in> es"
      unfolding I(2) hr by auto
    also have "(\<exists>blob b. stored U db h r blob b \<and> e \<in> set (bl_entries b)) \<longleftrightarrow> e \<in> set (bl_entries b)"
      using s stored_unique [OF s] by blast
    finally show "e \<in> set (bl_entries b) \<union> es \<longleftrightarrow> e \<in> ?R" by simp
  qed
  ultimately show ?case by blast
qed simp

lemma db_json:
  assumes "db_inv U db"
  shows "db_from_json (db_to_json db) = Inr db"
proof -
  have ok: "dict_ok (db_bodies db)" "dict_ok (db_blobs db)"
    and rows: "\<forall>(h, row) \<in> set (db_blobs db). \<exists>blob b. stored U db h row blob b"
    and ent: "db_entries db = {e. \<exists>h row blob b. (h, row) \<in> set (db_blobs db) \<and> stored U db h row blob b \<and> e \<in> set (bl_entries b)}"
    using assms by (auto simp: db_inv_def)
  define db0 where "db0 = empty_db\<lparr>db_bodies := db_bodies db\<rparr>"
  have same: "stored U db0 = stored U db" by (intro ext) (simp add: stored_def db0_def)
  have "dict_ok (db_blobs db0 @ db_blobs db)" using ok by (simp add: db0_def empty_db_def)
  from blob_items_map [OF this, of U, unfolded same, OF rows]
  have "blob_items (map (\<lambda>(h, r). (hex_of h, row_to_json r)) (db_blobs db)) db0 = Inr db"
    unfolding ent [symmetric] by (auto simp: db0_def empty_db_def)
  moreover have "body_items (map (\<lambda>(k, v). (hex_of k, JStr (hex_of v))) (db_bodies db)) [] = Inr (db_bodies db)"
    using body_items_map [of "[]" "db_bodies db"] ok by simp
  ultimately show ?thesis by (simp add: db_from_json_def db_to_json_def db0_def)
qed

section \<open>Paged sources\<close>

text \<open>
  A reader walks a paged source: it asks for a page after a cursor, and when the page is full it goes on from
  its last row. \<open>walk_pages\<close> is that loop, with fuel.
\<close>

primrec walk_pages :: "('c \<Rightarrow> 'r list) \<Rightarrow> nat \<Rightarrow> ('r \<Rightarrow> 'c) \<Rightarrow> nat \<Rightarrow> 'c \<Rightarrow> 'r list" where
  "walk_pages page n next 0 c = []"
| "walk_pages page n next (Suc k) c =
     (let p = page c in if length p < n then p else p @ walk_pages page n next k (next (last p)))"

lemma filter_above_nth:
  assumes "sorted_wrt (<) (map key S)" "0 < n" "n \<le> length S"
  shows "filter (\<lambda>x. key (S ! (n - 1)) < (key x :: 'k :: linorder)) S = drop n S"
proof -
  have lt: "i < j \<Longrightarrow> j < length S \<Longrightarrow> key (S ! i) < key (S ! j)" for i j
    using assms(1) by (simp add: sorted_wrt_iff_nth_less)
  have "filter (\<lambda>x. key (S ! (n - 1)) < key x) (take n S) = []"
  proof -
    have "\<not> key (S ! (n - 1)) < key x" if x: "x \<in> set (take n S)" for x
    proof -
      obtain i where i: "i < n" "x = S ! i" using x assms(3) by (auto simp: in_set_conv_nth)
      show ?thesis
      proof (cases "i = n - 1")
        case False
        then have "i < n - 1" "n - 1 < length S" using i(1) assms(2,3) by linarith+
        then show ?thesis using lt i(2) by (simp add: not_less less_imp_le)
      qed (simp add: i)
    qed
    then show ?thesis by (auto simp: filter_empty_conv)
  qed
  moreover have "filter (\<lambda>x. key (S ! (n - 1)) < key x) (drop n S) = drop n S"
  proof (rule filter_True, rule ballI)
    fix x assume "x \<in> set (drop n S)"
    then obtain i where "i < length S - n" "x = S ! (n + i)" by (auto simp: in_set_conv_nth)
    then show "key (S ! (n - 1)) < key x" using lt [of "n - 1" "n + i"] assms(2) by simp
  qed
  ultimately have "filter (\<lambda>x. key (S ! (n - 1)) < key x) (take n S @ drop n S) = drop n S" by (simp only: filter_append append_Nil)
  then show ?thesis by simp
qed

locale paged_source =
  fixes page :: "'s \<Rightarrow> 'c \<Rightarrow> nat \<Rightarrow> 'r list" and rows :: "'s \<Rightarrow> 'r list" and past :: "'c \<Rightarrow> 'r \<Rightarrow> bool"
    and key :: "'r \<Rightarrow> 'k::linorder" and cursor :: "'r \<Rightarrow> 'c" and ok :: "'s \<Rightarrow> bool"
  assumes page: "page s c n = take n (sort_key key (filter (past c) (rows s)))"
    and keys: "ok s \<Longrightarrow> distinct (map key (rows s))"
    and past_cursor: "ok s \<Longrightarrow> r \<in> set (rows s) \<Longrightarrow> past (cursor r) r' \<longleftrightarrow> key r < key r'"
    and past_up: "past c r \<Longrightarrow> key r \<le> key r' \<Longrightarrow> past c r'"
begin

lemma sorted_rows: "ok s \<Longrightarrow> sorted_wrt (<) (map key (sort_key key (filter P (rows s))))"
proof -
  assume "ok s"
  then have "distinct (map key (filter P (rows s)))" by (simp add: keys distinct_map_filter)
  then have "distinct (map key (sort_key key (filter P (rows s))))"
    by (simp add: distinct_map)
  then show ?thesis by (simp add: strict_sorted_iff)
qed

lemma walk_all:
  "ok s \<Longrightarrow> 0 < n \<Longrightarrow> length (filter (past c) (rows s)) < k \<Longrightarrow>
     walk_pages (\<lambda>c. page s c n) n cursor k c = sort_key key (filter (past c) (rows s))"
proof (induction k arbitrary: c)
  case (Suc k)
  define S where "S = sort_key key (filter (past c) (rows s))"
  have p: "page s c n = take n S" by (simp add: page S_def)
  have len: "length S = length (filter (past c) (rows s))" by (simp add: S_def)
  show ?case
  proof (cases "length S < n")
    case True
    then show ?thesis by (simp add: p S_def [symmetric])
  next
    case False
    define r where "r = S ! (n - 1)"
    have last: "last (take n S) = r" using False Suc.prems(2) by (subst last_conv_nth) (auto simp: r_def)
    have "r \<in> set S" using False Suc.prems(2) by (simp add: r_def)
    then have r: "r \<in> set (rows s)" "past c r" by (simp_all add: S_def)
    have "filter (past (cursor r)) (rows s) = filter (\<lambda>x. key r < key x) (filter (past c) (rows s))"
      using past_cursor [OF Suc.prems(1) r(1)] past_up [OF r(2)] by (auto intro!: filter_cong)
    then have "sort_key key (filter (past (cursor r)) (rows s)) = filter (\<lambda>x. key r < key x) S"
      by (simp add: S_def filter_sort)
    also have "\<dots> = drop n S"
      unfolding r_def by (rule filter_above_nth) (use sorted_rows [OF Suc.prems(1)] Suc.prems(2) False in \<open>simp_all add: S_def\<close>)
    finally have nxt: "sort_key key (filter (past (cursor r)) (rows s)) = drop n S" .
    have "length (filter (past (cursor r)) (rows s)) = length S - n" using arg_cong [OF nxt, of length] by simp
    then have "length (filter (past (cursor r)) (rows s)) < k" using Suc.prems(2,3) len False by simp
    from Suc.IH [OF Suc.prems(1,2) this] show ?thesis using False by (simp add: p last nxt S_def [symmetric])
  qed
qed simp

end

definition index_cursor :: "index_row \<Rightarrow> int \<times> bytes" where
  "index_cursor r = (fst (snd r), fst r)"

definition index_ok :: "blob_db \<Rightarrow> bool" where
  "index_ok db \<longleftrightarrow> dict_ok (db_blobs db) \<and> list_all (\<lambda>h. h \<noteq> []) (dkeys (db_blobs db))"

interpretation blob_index: paged_source "\<lambda>db (since, after) n. index_since since n after db" index_rows
  "\<lambda>(since, after). past_cursor since after" index_key index_cursor index_ok
proof
  show "(case c of (since, after) \<Rightarrow> \<lambda>n. index_since since n after s) n =
      take n (sort_key index_key (filter (case c of (since, after) \<Rightarrow> past_cursor since after) (index_rows s)))" for s c n
    by (simp add: index_since_def split: prod.split)
  show "distinct (map index_key (index_rows s))" if "index_ok s" for s
  proof -
    have "map fst (index_rows s) = dkeys (db_blobs s)" by (simp add: index_rows_def comp_def split_beta)
    then have "distinct (map fst (index_rows s))" using that by (simp add: index_ok_def dict_ok_def)
    then show ?thesis by (auto simp: distinct_map inj_on_def index_key_def)
  qed
  show "(case index_cursor r of (since, after) \<Rightarrow> past_cursor since after) r' \<longleftrightarrow> index_key r < index_key r'"
    if "index_ok s" "r \<in> set (index_rows s)" for s r r'
  proof -
    have "fst r \<noteq> []" using that by (auto simp: index_ok_def index_rows_def list_all_iff)
    then show ?thesis by (auto simp: index_cursor_def past_cursor_def index_key_def)
  qed
  show "(case c of (since, after) \<Rightarrow> past_cursor since after) r'"
    if "(case c of (since, after) \<Rightarrow> past_cursor since after) r" "index_key r \<le> index_key r'" for c r r'
    using that by (auto simp: past_cursor_def index_key_def split: prod.splits)
qed

lemma db_inv_index_ok: "db_inv U db \<Longrightarrow> index_ok db"
proof -
  assume inv: "db_inv U db"
  have "h \<noteq> []" if "(h, row) \<in> set (db_blobs db)" for h row
  proof -
    have "\<exists>blob b. stored U db h row blob b" using inv that unfolding db_inv_def by blast
    then have "length h = 32" using stored_decode by (fastforce simp: blob_hash_def)
    then show ?thesis by auto
  qed
  then show ?thesis using inv by (auto simp: index_ok_def db_inv_def list_all_iff)
qed

section \<open>A small history\<close>

definition wit_data :: bytes where
  "wit_data = blob_image [120] 0 [(''8.8.8.8'', 18080), (''9.9.9.9'', 18081)]"

definition wit_commitment :: commitment where
  "wit_commitment = \<lparr> co_hash = blob_hash wit_data, co_kind = ''share'', co_venue = ''v'', co_ref = ''r'',
     co_publisher = ''p'', co_difficulty = 5, co_timestamp = 9, co_proof = [], co_path = 0 \<rparr>"

definition wit_ops :: "add_op list" where "wit_ops = [(wit_data, wit_commitment, 10)]"

lemma wit_data_decode: "\<exists>b. decode_blob wit_data = Inr b \<and> list_body wit_data = Inr wit_data"
proof -
  obtain body where b: "with_period wit_blob1 0 = Inr body" "decode_blob body = Inr \<lparr> bl_chain = [120], bl_period = 0,
    bl_entries = [(''8.8.8.8'', 18080), (''9.9.9.9'', 18081)] \<rparr>"
    using decode_with_period [OF wit_decode, of 0] by auto
  have "with_period wit_blob1 0 = Inr wit_data" unfolding wit_blob1_def wit_data_def by (rule with_period_image) simp_all
  moreover have "with_period wit_data 0 = Inr wit_data" unfolding wit_data_def by (rule with_period_image) simp_all
  ultimately show ?thesis using b by (simp add: list_body_def)
qed

lemma wit_ops_ok: "list_all (in_universe {wit_data}) wit_ops" "acceptable (wit_data, wit_commitment, 10)"
  using wit_data_decode
  by (auto simp: wit_ops_def in_universe_def hash_injective_def acceptable_def wit_commitment_def KINDS_def)

section \<open>Guarantees\<close>

text \<open>C17. The store is content-addressed: after any additions of blobs on which the hash does not collide, what
  is found under a hash hashes to it and is a valid list, every acceptable addition is found again,
  bytes and commitment, and the entry set holds exactly the entries of the lists found.\<close>

theorem content_addressed:
  assumes "list_all (in_universe U) ops"
  shows "(\<forall>h blob. db_get h (run_adds ops) = Inr (Some blob) \<longrightarrow> blob_hash blob = h \<and> (\<exists>b. decode_blob blob = Inr b)) \<and>
     (\<forall>(blob, c, now) \<in> set ops. acceptable (blob, c, now) \<longrightarrow>
        db_get (blob_hash blob) (run_adds ops) = Inr (Some blob) \<and> c \<in> set (db_commitments (blob_hash blob) (run_adds ops))) \<and>
     (\<forall>a p. has_body_entry a p (run_adds ops) \<longleftrightarrow> (\<exists>h es. db_entries_of h (run_adds ops) = Inr es \<and> (a, p) \<in> set es))"
proof -
  note inv = run_adds_inv [OF assms]
  have "blob_hash blob = h \<and> (\<exists>b. decode_blob blob = Inr b)" if "db_get h (run_adds ops) = Inr (Some blob)" for h blob
    using db_inv_get [OF inv that] stored_decode by metis
  then show ?thesis using run_adds_stored [OF assms] db_inv_entry [OF inv] by blast
qed

lemma content_addressed_witness: "db_get (blob_hash wit_data) (run_adds wit_ops) = Inr (Some wit_data)"
  using content_addressed [OF wit_ops_ok(1)] wit_ops_ok(2) by (auto simp: wit_ops_def)

text \<open>A store saved and loaded again is the same store: bodies, rows, commitments and entries.\<close>

theorem saved_db_restored:
  assumes "list_all (in_universe U) ops"
  shows "db_from_json (db_to_json (run_adds ops)) = Inr (run_adds ops)"
  by (rule db_json [OF run_adds_inv [OF assms]])

lemma saved_db_restored_witness: "db_from_json (db_to_json (run_adds wit_ops)) = Inr (run_adds wit_ops)"
  by (rule saved_db_restored [OF wit_ops_ok(1)])

text \<open>C18. Walking the index page by page, each page from the last row of the one before, gives every row past the
  first cursor exactly once and in order, for every page size: rows that share a time across the end
  of a page are not skipped. One page more than there are rows is enough.\<close>

theorem index_walk_complete:
  assumes "list_all (in_universe U) ops" "0 < limit" "blob_count (run_adds ops) < fuel"
  shows "walk_pages (\<lambda>(since, after). index_since since limit after (run_adds ops)) limit index_cursor fuel (since, after) =
     sort_key index_key (filter (past_cursor since after) (index_rows (run_adds ops)))"
proof -
  note ok = db_inv_index_ok [OF run_adds_inv [OF assms(1)]]
  have "length (filter (past_cursor since after) (index_rows (run_adds ops))) \<le> length (index_rows (run_adds ops))"
    by (rule length_filter_le)
  also have "\<dots> = blob_count (run_adds ops)" by (simp add: index_rows_def blob_count_def)
  finally have "length (filter (past_cursor since after) (index_rows (run_adds ops))) < fuel" using assms(3) by simp
  then show ?thesis using blob_index.walk_all [OF ok assms(2), of "(since, after)" fuel]
    by (simp add: split_def)
qed

lemma index_walk_complete_witness:
  "map fst (walk_pages (\<lambda>(since, after). index_since since 1 after (run_adds wit_ops)) 1 index_cursor 5 (0, [])) = [blob_hash wit_data]"
proof -
  obtain b where d: "decode_blob wit_data = Inr b" "list_body wit_data = Inr wit_data" using wit_data_decode by blast
  have r: "index_rows (run_adds wit_ops) = [(blob_hash wit_data, 10, [wit_commitment])]"
    using d by (simp add: run_adds_def wit_ops_def apply_add_def db_add_def wit_commitment_def KINDS_def
        blob_row_for_def empty_db_def Let_def index_rows_def setdefault_def)
  have "blob_count db = length (index_rows db)" for db by (simp add: index_rows_def blob_count_def)
  then have "blob_count (run_adds wit_ops) < 5" by (simp add: r)
  then show ?thesis using index_walk_complete [OF wit_ops_ok(1), of 1 5 0 "[]"] r by (simp add: past_cursor_def)
qed

end
