(* ===== verification/Weight.thy ===== *)
theory Weight
  imports BlobDb
begin

text \<open>
  \<open>transpeer/anchor/weight.py\<close>: the canonical window of a share chain, the weights the window gives to lists,
  publishers and transpeers, and the coverage rule.
\<close>

section \<open>The window and the weights\<close>

definition CHAIN_ID :: bytes where
  "CHAIN_ID = sha256 (map (\<lambda>c. word_of_nat (of_char c)) ''transpeer/anchor/v1'')"

definition BOOTSTRAP_COVERAGE :: rat where "BOOTSTRAP_COVERAGE = 1 / 2"

record share =
  sh_id :: bytes
  sh_venue :: string
  sh_height :: int
  sh_parent :: bytes
  sh_difficulty :: int
  sh_timestamp :: int
  sh_wallet :: string
  sh_aux :: "(bytes, bytes) dict"

fun window_from :: "(bytes, share) dict \<Rightarrow> share option \<Rightarrow> nat \<Rightarrow> share list" where
  "window_from shares None n = []"
| "window_from shares (Some cur) 0 = []"
| "window_from shares (Some cur) (Suc n) = cur # window_from shares (dget shares (sh_parent cur)) n"

definition canonical_window :: "(bytes, share) dict \<Rightarrow> bytes \<Rightarrow> nat \<Rightarrow> share list" where
  "canonical_window shares tip window = window_from shares (dget shares tip) window"

text \<open>\<open>w[k] += v\<close> on a \<open>defaultdict(int)\<close>.\<close>

definition weight_of :: "('k, int) dict \<Rightarrow> 'k \<Rightarrow> int" where
  "weight_of w k = (case dget w k of None \<Rightarrow> 0 | Some v \<Rightarrow> v)"

definition bump :: "'k \<Rightarrow> int \<Rightarrow> ('k, int) dict \<Rightarrow> ('k, int) dict" where
  "bump k v w = dput k (weight_of w k + v) w"

definition blob_weights :: "share list \<Rightarrow> bytes \<Rightarrow> (bytes, int) dict" where
  "blob_weights canonical cid =
     fold (\<lambda>s w. case dget (sh_aux s) cid of None \<Rightarrow> w | Some h \<Rightarrow> bump h (sh_difficulty s) w) canonical []"

definition publisher_weights :: "share list \<Rightarrow> bytes \<Rightarrow> (string, int) dict" where
  "publisher_weights canonical cid =
     fold (\<lambda>s w. if dget (sh_aux s) cid \<noteq> None then bump (sh_wallet s) (sh_difficulty s) w else w) canonical []"

definition add_entries :: "int \<Rightarrow> entry list \<Rightarrow> (entry, int) dict \<Rightarrow> (entry, int) dict" where
  "add_entries v es w = fold (\<lambda>e w. bump e v w) es w"

fun transpeer_weights_from :: "(bytes, int) dict \<Rightarrow> blob_db \<Rightarrow> (entry, int) dict \<Rightarrow> (entry, int) dict result" where
  "transpeer_weights_from [] db w = Inr w"
| "transpeer_weights_from ((h, v) # bw) db w =
     bindR (db_entries_of h db) (\<lambda>es. transpeer_weights_from bw db (add_entries v es w))"

definition transpeer_weights :: "(bytes, int) dict \<Rightarrow> blob_db \<Rightarrow> (entry, int) dict result" where
  "transpeer_weights bw db = transpeer_weights_from bw db []"

definition coverage :: "int \<Rightarrow> int \<Rightarrow> rat" where
  "coverage tagged resolved = (if tagged \<noteq> 0 then fdiv resolved tagged else 0)"

definition bootstrapped :: "int \<Rightarrow> int \<Rightarrow> bool" where
  "bootstrapped tagged resolved \<longleftrightarrow> coverage tagged resolved \<ge> BOOTSTRAP_COVERAGE"

section \<open>Weights are sums\<close>

lemma weight_of_Nil [simp]: "weight_of [] k = 0"
  by (simp add: weight_of_def)

lemma weight_of_bump [simp]: "weight_of (bump k v w) k' = weight_of w k' + (if k' = k then v else 0)"
  by (simp add: bump_def weight_of_def)

lemma dict_ok_bump [simp]: "dict_ok w \<Longrightarrow> dict_ok (bump k v w)"
  by (simp add: bump_def)

definition tag_of :: "bytes \<Rightarrow> share \<Rightarrow> bytes option" where
  "tag_of cid s = dget (sh_aux s) cid"

definition blob_share :: "bytes \<Rightarrow> bytes \<Rightarrow> share \<Rightarrow> int" where
  "blob_share cid h s = (if tag_of cid s = Some h then sh_difficulty s else 0)"

lemma weight_blob_fold:
  "weight_of (fold (\<lambda>s w. case dget (sh_aux s) cid of None \<Rightarrow> w | Some h \<Rightarrow> bump h (sh_difficulty s) w) ss w) h =
     weight_of w h + sum_list (map (blob_share cid h) ss)"
  by (induction ss arbitrary: w) (auto simp: blob_share_def tag_of_def split: option.splits)

lemma weight_blob: "weight_of (blob_weights ss cid) h = sum_list (map (blob_share cid h) ss)"
  by (simp add: blob_weights_def weight_blob_fold)

lemma dict_ok_blob_weights: "dict_ok (blob_weights ss cid)"
proof -
  have "dict_ok w \<Longrightarrow> dict_ok (fold (\<lambda>s w. case dget (sh_aux s) cid of None \<Rightarrow> w | Some h \<Rightarrow> bump h (sh_difficulty s) w) ss w)" for w
    by (induction ss arbitrary: w) (auto split: option.splits)
  then show ?thesis by (simp add: blob_weights_def)
qed

lemma weight_publisher:
  "weight_of (publisher_weights ss cid) p =
     sum_list (map (\<lambda>s. if sh_wallet s = p \<and> tag_of cid s \<noteq> None then sh_difficulty s else 0) ss)"
proof -
  have "weight_of (fold (\<lambda>s w. if dget (sh_aux s) cid \<noteq> None then bump (sh_wallet s) (sh_difficulty s) w else w) ss w) p =
     weight_of w p + sum_list (map (\<lambda>s. if sh_wallet s = p \<and> tag_of cid s \<noteq> None then sh_difficulty s else 0) ss)" for w
    by (induction ss arbitrary: w) (auto simp: tag_of_def)
  then show ?thesis by (simp add: publisher_weights_def)
qed

lemma weight_add_entries:
  "distinct es \<Longrightarrow> weight_of (add_entries v es w) e = weight_of w e + (if e \<in> set es then v else 0)"
proof -
  have "distinct es \<Longrightarrow> weight_of (fold (\<lambda>e w. bump e v w) es w) e = weight_of w e + (if e \<in> set es then v else 0)"
    by (induction es arbitrary: w) auto
  then show "distinct es \<Longrightarrow> ?thesis" by (simp add: add_entries_def)
qed

text \<open>The entries a store answers with are distinct and the answer never fails.\<close>

lemma db_entries_total:
  assumes "db_inv U db"
  shows "\<exists>es. db_entries_of h db = Inr es \<and> distinct es"
proof (cases "dget (db_blobs db) h")
  case (Some row)
  from db_inv_row [OF assms Some] obtain blob b where s: "stored U db h row blob b" .
  from stored_decode [OF s] have d: "decode_blob blob = Inr b" by blast
  from decode_blob_Inr [OF d] obtain name where "blob_ok b name" .
  then have "distinct (bl_entries b)" by (auto simp: blob_ok_def validate_entries_Inr)
  with d db_get_row [OF Some s] show ?thesis by (auto simp: db_entries_of_def)
qed (simp add: db_entries_of_def db_get_def)

definition listed :: "blob_db \<Rightarrow> entry \<Rightarrow> bytes \<Rightarrow> bool" where
  "listed db e h \<longleftrightarrow> (case db_entries_of h db of Inl x \<Rightarrow> False | Inr es \<Rightarrow> e \<in> set es)"

lemma transpeer_weights_from_sum:
  assumes "db_inv U db"
  shows "\<exists>w'. transpeer_weights_from bw db w = Inr w' \<and>
     (\<forall>e. weight_of w' e = weight_of w e + sum_list (map (\<lambda>(h, v). if listed db e h then v else 0) bw))"
proof (induction bw arbitrary: w)
  case (Cons hv bw)
  obtain h v where hv: "hv = (h, v)" by (cases hv)
  from db_entries_total [OF assms] obtain es where es: "db_entries_of h db = Inr es" "distinct es" by blast
  have l: "listed db e h \<longleftrightarrow> e \<in> set es" for e by (simp add: listed_def es)
  from Cons [of "add_entries v es w"] show ?case
    by (auto simp: hv es(1) weight_add_entries [OF es(2)] l)
qed simp

lemma sum_over_dict:
  "dict_ok w \<Longrightarrow> sum_list (map (\<lambda>(h, v). if P h then v else 0) w) = (\<Sum>h \<in> set (dkeys w). if P h then weight_of w h else (0 :: int))"
proof (induction w)
  case (Cons hv w)
  obtain h v where hv: "hv = (h, v)" by (cases hv)
  have n: "h \<notin> set (dkeys w)" and ok: "dict_ok w" using Cons.prems by (auto simp: hv dict_ok_def)
  have "(\<Sum>h' \<in> set (dkeys w). if P h' then weight_of ((h, v) # w) h' else 0) = (\<Sum>h' \<in> set (dkeys w). if P h' then weight_of w h' else 0)"
    by (rule sum.cong) (use n in \<open>auto simp: weight_of_def\<close>)
  then show ?case unfolding hv using Cons.IH [OF ok] n by simp (simp add: weight_of_def)
qed simp

lemma blob_weight_keys: "set (dkeys (blob_weights ss cid)) = {h. \<exists>s \<in> set ss. tag_of cid s = Some h}"
proof -
  have "set (dkeys (fold (\<lambda>s w. case dget (sh_aux s) cid of None \<Rightarrow> w | Some h \<Rightarrow> bump h (sh_difficulty s) w) ss w)) =
     set (dkeys w) \<union> {h. \<exists>s \<in> set ss. tag_of cid s = Some h}" for w
  proof (induction ss arbitrary: w)
    case (Cons s ss)
    have "set (dkeys (bump h v w)) = insert h (set (dkeys w))" for h v
      by (auto simp: bump_def dom_update dom_map_of_conv_image_fst [symmetric])
    then show ?case using Cons by (auto simp: tag_of_def split: option.splits)
  qed simp
  then show ?thesis by (simp add: blob_weights_def)
qed

lemma transpeer_sum_shares:
  "(\<Sum>h \<in> set (dkeys (blob_weights ss cid)). if P h then sum_list (map (blob_share cid h) ss) else 0) =
     sum_list (map (\<lambda>s. case tag_of cid s of None \<Rightarrow> 0 | Some h \<Rightarrow> if P h then sh_difficulty s else 0) ss)"
proof -
  have fin: "finite K \<Longrightarrow> {h. \<exists>s \<in> set ss. tag_of cid s = Some h} \<subseteq> K \<Longrightarrow>
    (\<Sum>h \<in> K. if P h then sum_list (map (blob_share cid h) ss) else 0) =
     sum_list (map (\<lambda>s. case tag_of cid s of None \<Rightarrow> 0 | Some h \<Rightarrow> if P h then sh_difficulty s else 0) ss)" for K
  proof (induction ss)
    case (Cons s ss)
    have "(\<Sum>h \<in> K. if P h then sum_list (map (blob_share cid h) (s # ss)) else 0) =
        (\<Sum>h \<in> K. if P h then blob_share cid h s else 0) + (\<Sum>h \<in> K. if P h then sum_list (map (blob_share cid h) ss) else 0)"
      by (simp add: sum.distrib [symmetric] if_distrib cong: if_cong)
    moreover have "(\<Sum>h \<in> K. if P h then blob_share cid h s else 0) =
        (case tag_of cid s of None \<Rightarrow> 0 | Some h \<Rightarrow> if P h then sh_difficulty s else 0)"
    proof (cases "tag_of cid s")
      case (Some h)
      then have "h \<in> K" using Cons.prems(2) by auto
      have "(\<Sum>h' \<in> K. if P h' then blob_share cid h' s else 0) = (\<Sum>h' \<in> K. if h' = h then if P h then sh_difficulty s else 0 else 0)"
        by (rule sum.cong) (auto simp: blob_share_def Some)
      with \<open>h \<in> K\<close> Cons.prems(1) Some show ?thesis by (simp add: sum.delta)
    qed (simp add: blob_share_def cong: if_cong)
    ultimately show ?case using Cons by auto
  qed (simp cong: if_cong)
  show ?thesis
    by (rule fin [OF finite_set equalityD2 [OF blob_weight_keys]])
qed

section \<open>The canonical window is a chain\<close>

lemma window_length: "length (window_from shares c n) \<le> n"
  by (induction shares c n rule: window_from.induct) auto

definition known_share :: "(bytes, share) dict \<Rightarrow> share \<Rightarrow> bool" where
  "known_share shares s \<longleftrightarrow> (\<exists>k. dget shares k = Some s)"

lemma window_links:
  "i + 1 < length (window_from shares c n) \<Longrightarrow>
     dget shares (sh_parent (window_from shares c n ! i)) = Some (window_from shares c n ! (i + 1))"
proof (induction shares c n arbitrary: i rule: window_from.induct)
  case (3 shares cur n)
  show ?case
  proof (cases i)
    case 0
    then show ?thesis using 3(2) by (cases "dget shares (sh_parent cur)"; cases n) auto
  next
    case (Suc j)
    then show ?thesis using 3(1) [of j] 3(2) by simp
  qed
qed simp_all

lemma window_stop:
  "length (window_from shares c n) < n \<Longrightarrow> window_from shares c n \<noteq> [] \<Longrightarrow>
     dget shares (sh_parent (last (window_from shares c n))) = None"
proof (induction shares c n rule: window_from.induct)
  case (3 shares cur n)
  then show ?case by (cases "dget shares (sh_parent cur)") (auto; cases n; auto)+
qed simp_all

section \<open>A small window\<close>

definition wit_share :: "bytes \<Rightarrow> bytes \<Rightarrow> int \<Rightarrow> share" where
  "wit_share sid parent d = \<lparr> sh_id = sid, sh_venue = ''v'', sh_height = 1, sh_parent = parent, sh_difficulty = d,
     sh_timestamp = 0, sh_wallet = ''w'', sh_aux = [(CHAIN_ID, blob_hash wit_data)] \<rparr>"

lemma wit_data_entries: "\<exists>b. decode_blob wit_data = Inr b \<and> bl_entries b = [(''8.8.8.8'', 18080), (''9.9.9.9'', 18081)]"
proof -
  have "with_period wit_blob1 0 = Inr wit_data" unfolding wit_blob1_def wit_data_def by (rule with_period_image) simp_all
  with decode_with_period [OF wit_decode, of 0] show ?thesis by auto
qed

definition wit_shares :: "(bytes, share) dict" where
  "wit_shares = [([1], wit_share [1] [0] 3), ([2], wit_share [2] [1] 4)]"

section \<open>Guarantees\<close>

text \<open>C19. The weight of a transpeer is the work of the shares that commit to a list naming it: the sum, over the
  shares of the window, of the difficulty of those whose tag is the hash of a stored list with that entry.
  The sum is additive over windows, so over venues, and tags of unknown lists count for nobody.\<close>

theorem transpeer_weight_is_work:
  assumes "list_all (in_universe U) ops"
  shows "\<exists>w. transpeer_weights (blob_weights window cid) (run_adds ops) = Inr w \<and>
     (\<forall>e. weight_of w e = sum_list (map (\<lambda>s. case dget (sh_aux s) cid of None \<Rightarrow> 0
        | Some h \<Rightarrow> if (case db_entries_of h (run_adds ops) of Inl x \<Rightarrow> False | Inr es \<Rightarrow> e \<in> set es) then sh_difficulty s else 0) window))"
proof -
  note inv = run_adds_inv [OF assms]
  from transpeer_weights_from_sum [OF inv, of "blob_weights window cid" "[]"] obtain w where
    w: "transpeer_weights (blob_weights window cid) (run_adds ops) = Inr w"
    "\<forall>e. weight_of w e = sum_list (map (\<lambda>(h, v). if listed (run_adds ops) e h then v else 0) (blob_weights window cid))"
    by (auto simp: transpeer_weights_def)
  have "weight_of w e = sum_list (map (\<lambda>s. case tag_of cid s of None \<Rightarrow> 0
        | Some h \<Rightarrow> if listed (run_adds ops) e h then sh_difficulty s else 0) window)" for e
    unfolding w(2) [rule_format] sum_over_dict [OF dict_ok_blob_weights] weight_blob by (rule transpeer_sum_shares)
  then show ?thesis using w(1) unfolding tag_of_def listed_def by blast
qed

lemma transpeer_weight_is_work_witness:
  "\<exists>w. transpeer_weights (blob_weights [wit_share [1] [0] 3, wit_share [2] [1] 4] CHAIN_ID) (run_adds wit_ops) = Inr w \<and>
     weight_of w (''8.8.8.8'', 18080) = 7"
proof -
  have g: "db_get (blob_hash wit_data) (run_adds wit_ops) = Inr (Some wit_data)"
    using run_adds_stored [OF wit_ops_ok(1) _ wit_ops_ok(2)] by (simp add: wit_ops_def)
  obtain b where d: "decode_blob wit_data = Inr b" "bl_entries b = [(''8.8.8.8'', 18080), (''9.9.9.9'', 18081)]"
    using wit_data_entries by blast
  with g have e: "db_entries_of (blob_hash wit_data) (run_adds wit_ops) = Inr [(''8.8.8.8'', 18080), (''9.9.9.9'', 18081)]"
    by (simp add: db_entries_of_def) (simp add: wit_data_def blob_image_def MAGIC_def)
  from transpeer_weight_is_work [OF wit_ops_ok(1), of "[wit_share [1] [0] 3, wit_share [2] [1] 4]" CHAIN_ID]
  obtain w where w: "transpeer_weights (blob_weights [wit_share [1] [0] 3, wit_share [2] [1] 4] CHAIN_ID) (run_adds wit_ops) = Inr w"
    "weight_of w (''8.8.8.8'', 18080) = sum_list (map (\<lambda>s. case dget (sh_aux s) CHAIN_ID of None \<Rightarrow> 0
        | Some h \<Rightarrow> if (case db_entries_of h (run_adds wit_ops) of Inl x \<Rightarrow> False | Inr es \<Rightarrow> (''8.8.8.8'', 18080) \<in> set es)
           then sh_difficulty s else 0) [wit_share [1] [0] 3, wit_share [2] [1] 4])" by blast
  have "weight_of w (''8.8.8.8'', 18080) = 7" unfolding w(2) by (simp add: wit_share_def e cong: if_cong)
  with w(1) show ?thesis by blast
qed

text \<open>The canonical window is a chain through the known shares: it starts at the tip, each share after it is the
  parent of the one before, it has at most the given length, and it is shorter only if the parent of its
  last share is not known. With one more share on top, the window moves by one.\<close>

theorem canonical_window_chain:
  assumes "dget shares tip = Some s" "0 < window"
  shows "(let w = canonical_window shares tip window in
     w \<noteq> [] \<and> hd w = s \<and> length w \<le> window \<and>
     (\<forall>i. i + 1 < length w \<longrightarrow> dget shares (sh_parent (w ! i)) = Some (w ! (i + 1))) \<and>
     (length w < window \<longrightarrow> dget shares (sh_parent (last w)) = None) \<and>
     (\<forall>child k. dget shares k = Some child \<and> sh_parent child = tip \<longrightarrow> canonical_window shares k (Suc window) = child # w))"
proof -
  obtain n where n: "window = Suc n" using assms(2) by (cases window) auto
  have w: "canonical_window shares tip window = s # window_from shares (dget shares (sh_parent s)) n"
    by (simp add: canonical_window_def assms(1) n)
  then show ?thesis
    using window_length [of shares "dget shares tip" window] window_links [of _ shares "dget shares tip" window]
      window_stop [of shares "dget shares tip" window]
    by (auto simp: Let_def canonical_window_def)
qed

lemma canonical_window_chain_witness: "canonical_window wit_shares [2] 2 = [wit_share [2] [1] 4, wit_share [1] [0] 3]"
  using canonical_window_chain [of wit_shares "[2]" "wit_share [2] [1] 4" 2]
  by (simp add: wit_shares_def canonical_window_def numeral_2_eq_2 wit_share_def)

text \<open>A reader counts as bootstrapped exactly when at least half of the tagged shares are resolved, with no
  rounding error, for any number of tags below $2^{50}$; with no tag it is not.\<close>

theorem bootstrapped_iff_half:
  assumes "0 \<le> resolved" "0 \<le> tagged" "tagged < 2 ^ 50"
  shows "bootstrapped tagged resolved \<longleftrightarrow> 0 < tagged \<and> tagged \<le> 2 * resolved"
  using fdiv_ge_half [OF assms(1) _ assms(3)] assms(2)
  by (auto simp: bootstrapped_def coverage_def BOOTSTRAP_COVERAGE_def)

lemma bootstrapped_iff_half_witness: "bootstrapped 7 4 \<and> \<not> bootstrapped 7 3"
  using bootstrapped_iff_half [of 4 7] bootstrapped_iff_half [of 3 7] by simp

end
