(* ===== verification/P2pWire.thy ===== *)
theory P2pWire
  imports IpAddr Varint Keccak Wire
begin

text \<open>
  \<open>transpeer/anchor/p2p.py\<close>, the wire side: encoders, the peer list, the handshake proof and the stream
  parser. IPv6 literals follow Python's \<open>ipaddress\<close>.
\<close>

section \<open>IPv6 literals\<close>

definition hextet_of_string :: "string \<Rightarrow> nat option" where
  "hextet_of_string s =
     (if s = [] \<or> length s > 4 \<or> \<not> list_all (\<lambda>c. hex_val c \<noteq> None) s then None
      else Some (foldl (\<lambda>a c. 16 * a + the (hex_val c)) 0 s))"

fun hex_nat :: "nat \<Rightarrow> string" where
  "hex_nat n = (if n < 16 then [hex_digit n] else hex_nat (n div 16) @ [hex_digit (n mod 16)])"

declare hex_nat.simps [simp del]

definition hextets_val :: "string list \<Rightarrow> nat option" where
  "hextets_val ps = (if list_all (\<lambda>p. hextet_of_string p \<noteq> None) ps
     then Some (foldl (\<lambda>a p. 65536 * a + the (hextet_of_string p)) 0 ps) else None)"

text \<open>The parts of a literal, an embedded IPv4 tail replaced by its two hextets.\<close>

definition ipv6_parts :: "string \<Rightarrow> string list option" where
  "ipv6_parts s =
     (let parts = split_on CHR '':'' s in
      if length parts < 3 then None
      else if CHR ''.'' \<in> set (last parts) then
        map_option (\<lambda>v. butlast parts @ [hex_nat (v div 65536), hex_nat (v mod 65536)]) (ipv4_of_string (last parts))
      else Some parts)"

definition ipv6_of_string :: "string \<Rightarrow> nat option" where
  "ipv6_of_string str =
     (let s = takeWhile (\<lambda>c. c \<noteq> CHR ''%'') str; scope = drop (length s) str in
      if CHR ''/'' \<in> set str \<or> scope = ''%'' \<or> CHR ''%'' \<in> set (drop 1 scope) then None
      else (case ipv6_parts s of None \<Rightarrow> None
      | Some parts \<Rightarrow>
        if length parts > 9 then None
        else (case filter (\<lambda>i. parts ! i = []) [1..<length parts - 1] of
            [] \<Rightarrow> if length parts \<noteq> 8 \<or> hd parts = [] \<or> last parts = [] then None else hextets_val parts
          | [skip] \<Rightarrow>
             (let hi = (if hd parts = [] then skip - 1 else skip);
                  lo = (if last parts = [] then length parts - skip - 2 else length parts - skip - 1) in
              if hd parts = [] \<and> hi \<noteq> 0 \<or> last parts = [] \<and> lo \<noteq> 0 \<or> 8 \<le> hi + lo then None
              else (case (hextets_val (take hi parts), hextets_val (drop (length parts - lo) parts)) of
                  (Some h, Some l) \<Rightarrow> Some (h * 65536 ^ (8 - hi) + l) | _ \<Rightarrow> None))
          | _ \<Rightarrow> None)))"

text \<open>\<open>IPv6Address.compressed\<close>: the first longest run of zero hextets, when longer than one.\<close>

definition ipv6_hextets :: "nat \<Rightarrow> nat list" where
  "ipv6_hextets v = map (\<lambda>i. v div 65536 ^ (7 - i) mod 65536) [0..<8]"

definition zero_run :: "nat list \<Rightarrow> nat \<Rightarrow> nat" where
  "zero_run hs i = length (takeWhile (\<lambda>h. h = 0) (drop i hs))"

fun best_run :: "nat list \<Rightarrow> nat list \<Rightarrow> nat \<times> nat" where
  "best_run hs [] = (0, 0)"
| "best_run hs (i # is) = (let (j, n) = best_run hs is in if n \<le> zero_run hs i then (i, zero_run hs i) else (j, n))"

definition ipv6_to_string :: "nat \<Rightarrow> string" where
  "ipv6_to_string v =
     (let hs = ipv6_hextets v; (i, n) = best_run hs [0..<8]; ws = map hex_nat hs in
      if n \<le> 1 then join_with CHR '':'' ws
      else join_with CHR '':'' ((if i = 0 then [[]] else []) @ take i ws @ [[]] @ drop (i + n) ws @ (if i + n = 8 then [[]] else [])))"

section \<open>Constants and encoders\<close>

definition CHALLENGE_SIZE :: nat where "CHALLENGE_SIZE = 8"
definition HASH_SIZE :: nat where "HASH_SIZE = 32"
definition CHALLENGE_DIFFICULTY :: nat where "CHALLENGE_DIFFICULTY = 10000"

definition HANDSHAKE_CHALLENGE :: byte where "HANDSHAKE_CHALLENGE = 0"
definition HANDSHAKE_SOLUTION :: byte where "HANDSHAKE_SOLUTION = 1"
definition LISTEN_PORT :: byte where "LISTEN_PORT = 2"
definition BLOCK_REQUEST :: byte where "BLOCK_REQUEST = 3"
definition BLOCK_RESPONSE :: byte where "BLOCK_RESPONSE = 4"
definition BLOCK_BROADCAST :: byte where "BLOCK_BROADCAST = 5"
definition PEER_LIST_REQUEST :: byte where "PEER_LIST_REQUEST = 6"
definition PEER_LIST_RESPONSE :: byte where "PEER_LIST_RESPONSE = 7"
definition BLOCK_BROADCAST_COMPACT :: byte where "BLOCK_BROADCAST_COMPACT = 8"
definition BLOCK_NOTIFY :: byte where "BLOCK_NOTIFY = 9"
definition AUX_JOB_DONATION :: byte where "AUX_JOB_DONATION = 10"
definition MONERO_BLOCK_BROADCAST :: byte where "MONERO_BLOCK_BROADCAST = 11"
definition LAST_MESSAGE_ID :: byte where "LAST_MESSAGE_ID = MONERO_BLOCK_BROADCAST"

lemmas message_ids = HANDSHAKE_CHALLENGE_def HANDSHAKE_SOLUTION_def LISTEN_PORT_def BLOCK_REQUEST_def
  BLOCK_RESPONSE_def BLOCK_BROADCAST_def PEER_LIST_REQUEST_def PEER_LIST_RESPONSE_def
  BLOCK_BROADCAST_COMPACT_def BLOCK_NOTIFY_def AUX_JOB_DONATION_def MONERO_BLOCK_BROADCAST_def LAST_MESSAGE_ID_def

definition FIXED_PAYLOAD_SIZE :: "(byte, nat) dict" where
  "FIXED_PAYLOAD_SIZE =
     [(HANDSHAKE_CHALLENGE, CHALLENGE_SIZE + 8), (HANDSHAKE_SOLUTION, HASH_SIZE + CHALLENGE_SIZE),
      (LISTEN_PORT, 4), (BLOCK_REQUEST, HASH_SIZE), (PEER_LIST_REQUEST, 0), (BLOCK_NOTIFY, HASH_SIZE)]"

definition SIZE_PREFIXED :: "byte list" where
  "SIZE_PREFIXED = [BLOCK_RESPONSE, BLOCK_BROADCAST, BLOCK_BROADCAST_COMPACT, AUX_JOB_DONATION, MONERO_BLOCK_BROADCAST]"

definition PEER_LIST_RESPONSE_MAX_PEERS :: nat where "PEER_LIST_RESPONSE_MAX_PEERS = 16"
definition SUPPORTED_PROTOCOL_VERSION :: nat where "SUPPORTED_PROTOCOL_VERSION = 0x00010004"
definition VERSION_PORT :: nat where "VERSION_PORT = 0xFFFF"
definition VERSION_MARKER :: nat where "VERSION_MARKER = 0xFFFFFFFF"
definition MAX_BLOCK_SIZE :: nat where "MAX_BLOCK_SIZE = 128 * 1024 - 5"

text \<open>\<open>assert\<close> is a branch that raises.\<close>

definition assertR :: "bool \<Rightarrow> unit result" where
  "assertR p = guardR p (AssertionError [])"

definition encode_handshake_challenge :: "bytes \<Rightarrow> bytes \<Rightarrow> bytes result" where
  "encode_handshake_challenge challenge peer_id =
     bindR (assertR (length challenge = CHALLENGE_SIZE \<and> length peer_id = 8)) (\<lambda>_.
       Inr ([HANDSHAKE_CHALLENGE] @ challenge @ peer_id))"

definition encode_handshake_solution :: "bytes \<Rightarrow> bytes \<Rightarrow> bytes result" where
  "encode_handshake_solution solution salt =
     bindR (assertR (length solution = HASH_SIZE \<and> length salt = CHALLENGE_SIZE)) (\<lambda>_.
       Inr ([HANDSHAKE_SOLUTION] @ solution @ salt))"

definition encode_listen_port :: "int \<Rightarrow> bytes result" where
  "encode_listen_port port =
     (if - (2 ^ 31) \<le> port \<and> port < 2 ^ 31 then Inr ([LISTEN_PORT] @ le_bytes 4 (nat (port mod 2 ^ 32)))
      else Inl (OverflowError ''int too big to convert''))"

definition encode_block_request :: "bytes \<Rightarrow> bytes result" where
  "encode_block_request share_id = bindR (assertR (length share_id = HASH_SIZE)) (\<lambda>_. Inr ([BLOCK_REQUEST] @ share_id))"

definition encode_block_response :: "bytes \<Rightarrow> bytes result" where
  "encode_block_response blob = bindR (to_bytes_le 4 (length blob)) (\<lambda>n. Inr ([BLOCK_RESPONSE] @ n @ blob))"

definition encode_block_broadcast :: "bytes \<Rightarrow> bool \<Rightarrow> bytes result" where
  "encode_block_broadcast blob as_compact =
     bindR (to_bytes_le 4 (length blob)) (\<lambda>n.
       Inr ([if as_compact then BLOCK_BROADCAST_COMPACT else BLOCK_BROADCAST] @ n @ blob))"

definition encode_peer_list_request :: bytes where
  "encode_peer_list_request = [PEER_LIST_REQUEST]"

section \<open>The peer list\<close>

definition encode_peer_entry :: "bool \<Rightarrow> bytes \<Rightarrow> nat \<Rightarrow> bytes result" where
  "encode_peer_entry is_v6 addr16 port =
     bindR (assertR (length addr16 = 16)) (\<lambda>_.
     bindR (to_bytes_le 2 port) (\<lambda>p. Inr ([if is_v6 then 1 else 0] @ addr16 @ p)))"

definition version_pseudo_peer :: "bytes result" where
  "version_pseudo_peer =
     encode_peer_entry False
       (le_bytes 4 SUPPORTED_PROTOCOL_VERSION @ le_bytes 4 0 @ le_bytes 4 0 @ le_bytes 4 VERSION_MARKER) VERSION_PORT"

definition ipv4_mapped :: "nat \<Rightarrow> bytes" where
  "ipv4_mapped v = replicate 10 0 @ [0xFF, 0xFF] @ be_bytes 4 v"

definition encode_peer :: "string \<times> nat \<Rightarrow> bytes result" where
  "encode_peer p = (case ipv4_of_string (fst p) of
      Some v \<Rightarrow> encode_peer_entry False (ipv4_mapped v) (snd p)
    | None \<Rightarrow> (case ipv6_of_string (fst p) of
        Some v \<Rightarrow> encode_peer_entry True (be_bytes 16 v) (snd p)
      | None \<Rightarrow> Inl (ValueError ''does not appear to be an IPv4 or IPv6 address'')))"

definition encode_peer_list_response :: "(string \<times> nat) list \<Rightarrow> bool \<Rightarrow> bytes result" where
  "encode_peer_list_response peers include_version =
     (let real_limit = (if include_version then PEER_LIST_RESPONSE_MAX_PEERS - 1 else PEER_LIST_RESPONSE_MAX_PEERS) in
      bindR (mapR encode_peer (take real_limit peers)) (\<lambda>entries.
      bindR (if include_version then bindR version_pseudo_peer (\<lambda>e. Inr (e # entries)) else Inr entries) (\<lambda>entries.
        if length entries > PEER_LIST_RESPONSE_MAX_PEERS then Inl (ProtocolError ''too many peers'')
        else Inr ([PEER_LIST_RESPONSE, word_of_nat (length entries)] @ concat entries))))"

text \<open>One 19-byte entry, \<open>None\<close> for an entry that is skipped.\<close>

definition decode_peer :: "bytes \<Rightarrow> (string \<times> nat) option" where
  "decode_peer entry =
     (let is_v6 = (entry ! 0 \<noteq> 0); addr16 = slice entry 1 17; port = le_val (slice entry 17 19) in
      if port = 0 then None
      else if \<not> is_v6 \<or> slice addr16 10 12 = [0xFF, 0xFF] then
        (let first_octet = unat (addr16 ! 12) in
         if first_octet = 0 \<or> first_octet = 127 \<or> first_octet \<ge> 224 then None
         else Some (ipv4_to_string (be_val (slice addr16 12 16)), port))
      else (let v6 = be_val addr16 in
         if v6 = 1 \<or> v6 = 0 then None else Some (ipv6_to_string v6, port)))"

definition decode_peer_list_response :: "bytes \<Rightarrow> (string \<times> nat) list result" where
  "decode_peer_list_response payload =
     (if payload = [] then Inl (ProtocolError ''empty PEER_LIST_RESPONSE payload'')
      else (let cnt = unat (hd payload); body = tl payload in
        if length body \<noteq> cnt * 19 then Inl (ProtocolError ''PEER_LIST_RESPONSE sz mismatch'')
        else Inr (List.map_filter (\<lambda>i. decode_peer (slice body (i * 19) ((i + 1) * 19))) [0..<cnt])))"

section \<open>The handshake proof\<close>

definition p2p_check_pow :: "bytes \<Rightarrow> bool" where
  "p2p_check_pow solution \<longleftrightarrow> le_val (slice solution 24 32) * CHALLENGE_DIFFICULTY < 2 ^ 64"

definition salted :: "bytes \<Rightarrow> bytes \<Rightarrow> 64 word \<Rightarrow> bytes" where
  "salted challenge consensus_id salt = keccak256 (challenge @ consensus_id @ le_bytes CHALLENGE_SIZE (unat salt))"

text \<open>The search over the salts may go on for ever: it is a partial function.\<close>

partial_function (option) compute_solution ::
  "bytes \<Rightarrow> bytes \<Rightarrow> 64 word \<Rightarrow> bool \<Rightarrow> (bytes \<times> bytes) option" where
  "compute_solution challenge consensus_id salt pow_required =
     (let solution = salted challenge consensus_id salt in
      if \<not> pow_required \<or> p2p_check_pow solution then Some (solution, le_bytes CHALLENGE_SIZE (unat salt))
      else compute_solution challenge consensus_id (salt + 1) pow_required)"

definition check_solution :: "bytes \<Rightarrow> bytes \<Rightarrow> bytes \<Rightarrow> bytes \<Rightarrow> bool" where
  "check_solution challenge consensus_id salt solution \<longleftrightarrow> keccak256 (challenge @ consensus_id @ salt) = solution"

section \<open>The stream parser\<close>

type_synonym frame = "byte \<times> bytes"

text \<open>A message of \<^verbatim>\<open>stop\<close> bytes, the payload from \<^verbatim>\<open>start\<close> on: nothing while the buffer is shorter.\<close>

definition take_payload :: "bytes \<Rightarrow> nat \<Rightarrow> nat \<Rightarrow> (frame \<times> bytes) option" where
  "take_payload buf start stop =
     (if length buf < stop then None else Some ((buf ! 0, slice buf start stop), drop stop buf))"

definition try_take_one :: "bytes \<Rightarrow> (frame \<times> bytes) option result" where
  "try_take_one buf =
     (if buf = [] then Inr None
      else (let i = buf ! 0 in
        if i > LAST_MESSAGE_ID then Inl (ProtocolError ''unknown message id'')
        else if i = PEER_LIST_RESPONSE then
          (if length buf < 2 then Inr None
           else (let n = unat (buf ! 1) in
             if n > PEER_LIST_RESPONSE_MAX_PEERS then Inl (ProtocolError ''peer list response too long'')
             else Inr (take_payload buf 1 (2 + 19 * n))))
        else if i \<in> set SIZE_PREFIXED then
          (if length buf < 5 then Inr None
           else (let sz = le_val (slice buf 1 5) in
             if sz > MAX_BLOCK_SIZE then Inl (ProtocolError ''block sz too large'')
             else Inr (take_payload buf 5 (5 + sz))))
        else (case dget FIXED_PAYLOAD_SIZE i of
            None \<Rightarrow> Inl (ProtocolError ''unknown message id'')
          | Some sz \<Rightarrow> Inr (take_payload buf 1 (1 + sz)))))"

lemma take_payload_append:
  "take_payload buf start stop = Some (m, rest) \<Longrightarrow> 0 < stop \<Longrightarrow>
     take_payload (buf @ x) start stop = Some (m, rest @ x) \<and> length rest < length buf"
  by (auto simp: take_payload_def slice_def nth_append split: if_splits)

lemma try_take_one_append:
  assumes "try_take_one buf = Inr (Some (m, rest))"
  shows "try_take_one (buf @ x) = Inr (Some (m, rest @ x)) \<and> length rest < length buf"
proof -
  have ne: "buf \<noteq> []" using assms by (auto simp: try_take_one_def)
  then have n: "(buf @ x) ! 0 = buf ! 0" by (simp add: nth_append)
  have i: "\<not> buf ! 0 > LAST_MESSAGE_ID" using assms ne by (auto simp: try_take_one_def Let_def)
  show ?thesis
  proof (cases "buf ! 0 = PEER_LIST_RESPONSE")
    case True
    then have l: "\<not> length buf < 2" using assms ne i by (auto simp: try_take_one_def Let_def split: if_splits)
    then have "(buf @ x) ! 1 = buf ! 1" by (simp add: nth_append)
    then show ?thesis using assms ne n i l True take_payload_append
      by (auto simp: try_take_one_def Let_def split: if_splits)
  next
    case False
    show ?thesis
    proof (cases "buf ! 0 \<in> set SIZE_PREFIXED")
      case True
      then have l: "\<not> length buf < 5" using assms ne i False by (auto simp: try_take_one_def Let_def split: if_splits)
      then have "slice (buf @ x) 1 5 = slice buf 1 5" by (simp add: slice_def)
      then show ?thesis using assms ne n i l True False take_payload_append
        by (auto simp: try_take_one_def Let_def split: if_splits)
    next
      case F2: False
      then show ?thesis using assms ne n i False take_payload_append
        by (auto simp: try_take_one_def Let_def split: option.splits)
    qed
  qed
qed

lemma try_take_one_error:
  assumes "try_take_one buf = Inl e"
  shows "try_take_one (buf @ x) = Inl e"
proof -
  have ne: "buf \<noteq> []" using assms by (auto simp: try_take_one_def)
  then have n: "(buf @ x) ! 0 = buf ! 0" by (simp add: nth_append)
  show ?thesis
  proof (cases "buf ! 0 > LAST_MESSAGE_ID")
    case False
    show ?thesis
    proof (cases "buf ! 0 = PEER_LIST_RESPONSE")
      case True
      then have l: "\<not> length buf < 2" using assms ne False by (auto simp: try_take_one_def Let_def)
      then have "(buf @ x) ! 1 = buf ! 1" by (simp add: nth_append)
      then show ?thesis using assms ne n l True False by (auto simp: try_take_one_def Let_def split: if_splits)
    next
      case F2: False
      show ?thesis
      proof (cases "buf ! 0 \<in> set SIZE_PREFIXED")
        case True
        then have l: "\<not> length buf < 5" using assms ne False F2 by (auto simp: try_take_one_def Let_def)
        then have "slice (buf @ x) 1 5 = slice buf 1 5" by (simp add: slice_def)
        then show ?thesis using assms ne n l True False F2 by (auto simp: try_take_one_def Let_def split: if_splits)
      next
        case F3: False
        then show ?thesis using assms ne n False F2 by (auto simp: try_take_one_def Let_def split: option.splits)
      qed
    qed
  qed (use assms ne n in \<open>auto simp: try_take_one_def Let_def\<close>)
qed

function parse_frames :: "bytes \<Rightarrow> (frame list \<times> bytes) result" where
  "parse_frames buf = (case try_take_one buf of
      Inl e \<Rightarrow> Inl e
    | Inr None \<Rightarrow> Inr ([], buf)
    | Inr (Some (m, rest)) \<Rightarrow> bindR (parse_frames rest) (\<lambda>(ms, b). Inr (m # ms, b)))"
  by pat_completeness auto
termination
  by (relation "measure length") (use try_take_one_append in fastforce)+

declare parse_frames.simps [simp del]

text \<open>\<open>FrameParser.feed\<close>: the messages completed by the data, and the bytes left in the buffer.\<close>

definition feed :: "bytes \<Rightarrow> bytes \<Rightarrow> (frame list \<times> bytes) result" where
  "feed data buf = parse_frames (buf @ data)"

fun feed_all :: "bytes list \<Rightarrow> bytes \<Rightarrow> (frame list \<times> bytes) result" where
  "feed_all [] buf = Inr ([], buf)"
| "feed_all (c # cs) buf =
     bindR (feed c buf) (\<lambda>(ms, buf). bindR (feed_all cs buf) (\<lambda>(ms', buf). Inr (ms @ ms', buf)))"

section \<open>Framing does not depend on the chunks\<close>

locale framing =
  fixes take1 :: "bytes \<Rightarrow> ('m \<times> bytes) option result" and parse :: "bytes \<Rightarrow> ('m list \<times> bytes) result"
  assumes parse: "parse buf = (case take1 buf of Inl e \<Rightarrow> Inl e | Inr None \<Rightarrow> Inr ([], buf)
      | Inr (Some (m, r)) \<Rightarrow> bindR (parse r) (\<lambda>(ms, b). Inr (m # ms, b)))"
    and take_more: "take1 buf = Inr (Some (m, r)) \<Longrightarrow> take1 (buf @ x) = Inr (Some (m, r @ x)) \<and> length r < length buf"
    and take_error: "take1 buf = Inl e \<Longrightarrow> take1 (buf @ x) = Inl e"
begin

lemma parse_append:
  "parse (a @ b) = bindR (parse a) (\<lambda>(ms, r). bindR (parse (r @ b)) (\<lambda>(ms', r'). Inr (ms @ ms', r')))"
proof (induction a rule: length_induct)
  case (1 a)
  show ?case
  proof (cases "take1 a")
    case (Inl e)
    then show ?thesis using take_error [OF Inl, of b] by (subst (1 2) parse) simp
  next
    case (Inr om)
    show ?thesis
    proof (cases om)
      case None
      then have "parse a = Inr ([], a)" using Inr by (subst parse) simp
      then show ?thesis by (cases "parse (a @ b)") auto
    next
      case (Some mr)
      obtain m r where mr: "mr = (m, r)" by (cases mr)
      note t = take_more [of a m r b]
      have t1: "take1 a = Inr (Some (m, r))" using Inr Some mr by simp
      then have pa: "parse a = bindR (parse r) (\<lambda>(ms, b). Inr (m # ms, b))" by (subst parse) simp
      have pab: "parse (a @ b) = bindR (parse (r @ b)) (\<lambda>(ms, b). Inr (m # ms, b))"
        using t t1 by (subst parse) simp
      have "parse (r @ b) = bindR (parse r) (\<lambda>(ms, r). bindR (parse (r @ b)) (\<lambda>(ms', r'). Inr (ms @ ms', r')))"
        using 1 t t1 by blast
      then show ?thesis unfolding pa pab
        by (cases "parse r") (auto simp: bindR_def split: sum.splits prod.splits)
    qed
  qed
qed

lemma parse_rest: "parse a = Inr (ms, r) \<Longrightarrow> parse r = Inr ([], r)"
proof (induction a arbitrary: ms rule: length_induct)
  case (1 a)
  show ?case
  proof (cases "take1 a")
    case (Inl e)
    then show ?thesis using 1(2) by (subst (asm) parse) simp
  next
    case (Inr om)
    show ?thesis
    proof (cases om)
      case None
      then have "parse a = Inr ([], a)" using Inr by (subst parse) simp
      then show ?thesis using 1(2) by simp
    next
      case (Some mr)
      obtain m r' where mr: "mr = (m, r')" by (cases mr)
      have t1: "take1 a = Inr (Some (m, r'))" using Inr Some mr by simp
      then have "parse a = bindR (parse r') (\<lambda>(ms, b). Inr (m # ms, b))" by (subst parse) simp
      then have "bindR (parse r') (\<lambda>(ms, b). Inr (m # ms, b)) = Inr (ms, r)" using 1(2) by simp
      then obtain ms' where "parse r' = Inr (ms', r)" by (auto simp: bindR_Inr_conv)
      moreover have "length r' < length a" using take_more [OF t1] by blast
      ultimately show ?thesis using 1(1) by blast
    qed
  qed
qed

end

interpretation p2p_framing: framing try_take_one parse_frames
proof
  show "parse_frames buf = (case try_take_one buf of Inl e \<Rightarrow> Inl e | Inr None \<Rightarrow> Inr ([], buf)
      | Inr (Some (m, r)) \<Rightarrow> bindR (parse_frames r) (\<lambda>(ms, b). Inr (m # ms, b)))" for buf
    by (rule parse_frames.simps)
qed (fact try_take_one_append try_take_one_error)+

lemma feed_all_parse:
  "parse_frames buf = Inr ([], buf) \<Longrightarrow> feed_all chunks buf = parse_frames (buf @ concat chunks)"
proof (induction chunks arbitrary: buf)
  case (Cons c cs)
  have "parse_frames (buf @ concat (c # cs)) =
      bindR (parse_frames (buf @ c)) (\<lambda>(ms, r). bindR (parse_frames (r @ concat cs)) (\<lambda>(ms', r'). Inr (ms @ ms', r')))"
    using p2p_framing.parse_append [of "buf @ c" "concat cs"] by simp
  also have "\<dots> = feed_all (c # cs) buf"
    using Cons.IH p2p_framing.parse_rest [of "buf @ c"]
    by (cases "parse_frames (buf @ c)") (auto simp: feed_def)
  finally show ?case by simp
qed simp

section \<open>Messages\<close>

datatype p2p_msg =
    Challenge bytes bytes | Solution bytes bytes | ListenPort int | BlockRequest bytes | BlockResponse bytes
  | Broadcast bytes bool | PeersRequest | PeersResponse "(string \<times> nat) list" bool

fun msg_wire :: "p2p_msg \<Rightarrow> bytes result" where
  "msg_wire (Challenge c p) = encode_handshake_challenge c p"
| "msg_wire (Solution s t) = encode_handshake_solution s t"
| "msg_wire (ListenPort p) = encode_listen_port p"
| "msg_wire (BlockRequest i) = encode_block_request i"
| "msg_wire (BlockResponse b) = encode_block_response b"
| "msg_wire (Broadcast b c) = encode_block_broadcast b c"
| "msg_wire PeersRequest = Inr encode_peer_list_request"
| "msg_wire (PeersResponse ps v) = encode_peer_list_response ps v"

fun msg_fits :: "p2p_msg \<Rightarrow> bool" where
  "msg_fits (BlockResponse b) = (length b \<le> MAX_BLOCK_SIZE)"
| "msg_fits (Broadcast b c) = (length b \<le> MAX_BLOCK_SIZE)"
| "msg_fits m = True"

definition frame_of :: "bytes \<Rightarrow> frame" where
  "frame_of w = (hd w, drop (if hd w \<in> set SIZE_PREFIXED then 5 else 1) w)"

lemma take_payload_whole:
  "w \<noteq> [] \<Longrightarrow> length w = stop \<Longrightarrow> start \<le> stop \<Longrightarrow> take_payload (w @ rest) start stop = Some ((hd w, drop start w), rest)"
  by (auto simp: take_payload_def slice_def nth_append hd_conv_nth)

lemma frame_fixed:
  "w = i # p \<Longrightarrow> dget FIXED_PAYLOAD_SIZE i = Some (length p) \<Longrightarrow> i \<notin> set SIZE_PREFIXED \<Longrightarrow> i \<noteq> PEER_LIST_RESPONSE \<Longrightarrow> i \<le> LAST_MESSAGE_ID \<Longrightarrow>
     try_take_one (w @ rest) = Inr (Some (frame_of w, rest))"
  using take_payload_whole [of w "1 + length p" 1 rest] by (simp add: try_take_one_def frame_of_def not_less)

lemma frame_sized:
  assumes "w = i # le_bytes 4 (length p) @ p" "i \<in> set SIZE_PREFIXED" "length p \<le> MAX_BLOCK_SIZE"
  shows "try_take_one (w @ rest) = Inr (Some (frame_of w, rest))"
proof -
  have i: "i \<noteq> PEER_LIST_RESPONSE" "i \<le> LAST_MESSAGE_ID" using assms(2) by (auto simp: SIZE_PREFIXED_def message_ids)
  have "slice (w @ rest) 1 5 = le_bytes 4 (length p)" by (simp add: assms(1) slice_def)
  moreover have "length p < 256 ^ 4" using assms(3) by (simp add: MAX_BLOCK_SIZE_def)
  ultimately have s: "le_val (slice (w @ rest) 1 5) = length p" by simp
  have "take_payload (w @ rest) 5 (5 + length p) = Some ((hd w, drop 5 w), rest)"
    by (rule take_payload_whole) (simp_all add: assms(1))
  then show ?thesis
    using i assms(2,3) s by (simp add: try_take_one_def Let_def frame_of_def not_less assms(1))
qed

lemma length_encode_peer_entry: "encode_peer_entry v a p = Inr e \<Longrightarrow> length e = 19"
  by (auto simp: encode_peer_entry_def assertR_def to_bytes_le_def split: if_splits)

lemma length_encode_peer: "encode_peer p = Inr e \<Longrightarrow> length e = 19"
  using length_encode_peer_entry by (fastforce simp: encode_peer_def split: option.splits)

lemma length_concat_19: "list_all (\<lambda>e. length e = 19) es \<Longrightarrow> length (concat es) = 19 * length es"
  by (induction es) simp_all

lemma mapR_list_all: "mapR f xs = Inr ys \<Longrightarrow> (\<And>x y. f x = Inr y \<Longrightarrow> P y) \<Longrightarrow> list_all P ys"
  by (induction xs arbitrary: ys) (auto simp: bindR_Inr_conv)

lemma frame_peers:
  assumes "encode_peer_list_response ps v = Inr w"
  shows "try_take_one (w @ rest) = Inr (Some (frame_of w, rest))"
proof -
  define lim where "lim = (if v then PEER_LIST_RESPONSE_MAX_PEERS - 1 else PEER_LIST_RESPONSE_MAX_PEERS)"
  from assms have "bindR (mapR encode_peer (take lim ps)) (\<lambda>entries.
      bindR (if v then bindR version_pseudo_peer (\<lambda>e. Inr (e # entries)) else Inr entries) (\<lambda>entries.
        if length entries > PEER_LIST_RESPONSE_MAX_PEERS then Inl (ProtocolError ''too many peers'')
        else Inr ([PEER_LIST_RESPONSE, word_of_nat (length entries)] @ concat entries))) = Inr w"
    unfolding encode_peer_list_response_def Let_def lim_def .
  then obtain es es' where e: "mapR encode_peer (take lim ps) = Inr es"
    "(if v then bindR version_pseudo_peer (\<lambda>e. Inr (e # es)) else Inr es) = Inr es'"
    "(if length es' > PEER_LIST_RESPONSE_MAX_PEERS then Inl (ProtocolError ''too many peers'')
      else Inr ([PEER_LIST_RESPONSE, word_of_nat (length es')] @ concat es')) = Inr w"
    unfolding bindR_Inr_conv by blast
  then have e34: "length es' \<le> 16" "w = [PEER_LIST_RESPONSE, word_of_nat (length es')] @ concat es'"
    by (simp_all add: PEER_LIST_RESPONSE_MAX_PEERS_def split: if_splits)
  have "list_all (\<lambda>e. length e = 19) es" by (rule mapR_list_all [OF e(1) length_encode_peer])
  then have "list_all (\<lambda>e. length e = 19) es'"
    using e(2) length_encode_peer_entry by (auto simp: bindR_Inr_conv version_pseudo_peer_def split: if_splits)
  then have l: "length (concat es') = 19 * length es'" by (rule length_concat_19)
  have u: "unat (word_of_nat (length es') :: byte) = length es'" using e34(1) by (simp add: unat_of_nat)
  have "take_payload (w @ rest) 1 (2 + 19 * length es') = Some ((hd w, drop 1 w), rest)"
    by (rule take_payload_whole) (simp_all add: e34(2) l)
  then show ?thesis using e34(1) u
    by (simp add: try_take_one_def Let_def frame_of_def e34(2) PEER_LIST_RESPONSE_MAX_PEERS_def message_ids SIZE_PREFIXED_def)
qed

lemma frame_msg:
  assumes "msg_wire m = Inr w" "msg_fits m"
  shows "try_take_one (w @ rest) = Inr (Some (frame_of w, rest))"
proof (cases m)
  case (BlockResponse b)
  with assms show ?thesis
    by (intro frame_sized [of w BLOCK_RESPONSE b])
      (auto simp: encode_block_response_def to_bytes_le_def SIZE_PREFIXED_def split: if_splits)
next
  case (Broadcast b c)
  with assms show ?thesis
    by (intro frame_sized [of w "if c then BLOCK_BROADCAST_COMPACT else BLOCK_BROADCAST" b])
      (auto simp: encode_block_broadcast_def to_bytes_le_def SIZE_PREFIXED_def split: if_splits)
next
  case (PeersResponse ps v)
  with assms frame_peers show ?thesis by simp
qed (use assms in \<open>auto intro!: frame_fixed simp: encode_handshake_challenge_def encode_handshake_solution_def
      encode_listen_port_def encode_block_request_def encode_peer_list_request_def assertR_def
      FIXED_PAYLOAD_SIZE_def SIZE_PREFIXED_def message_ids CHALLENGE_SIZE_def HASH_SIZE_def split: if_splits\<close>)

lemma frames_msgs:
  "mapR msg_wire msgs = Inr ws \<Longrightarrow> list_all msg_fits msgs \<Longrightarrow> parse_frames (concat ws) = Inr (map frame_of ws, [])"
proof (induction msgs arbitrary: ws)
  case Nil
  then show ?case by (simp add: parse_frames.simps try_take_one_def)
next
  case (Cons m msgs)
  then obtain w ws' where w: "msg_wire m = Inr w" "mapR msg_wire msgs = Inr ws'" "ws = w # ws'"
    by (auto simp: bindR_Inr_conv)
  then show ?case using Cons frame_msg [OF w(1), of "concat ws'"]
    by (subst parse_frames.simps) simp
qed

section \<open>Guarantees\<close>

text \<open>C20. The stream of any messages is understood whatever way it is cut: however the bytes of a list of encoded
  messages arrive in chunks, the parser gives exactly those messages, in order, with nothing left.\<close>

theorem stream_understood:
  assumes "mapR msg_wire msgs = Inr wires" "list_all msg_fits msgs" "concat chunks = concat wires"
  shows "feed_all chunks [] = Inr (map frame_of wires, [])"
proof -
  have "parse_frames [] = Inr ([], [])" by (simp add: parse_frames.simps try_take_one_def)
  from feed_all_parse [OF this, of chunks] show ?thesis
    using frames_msgs [OF assms(1,2)] assms(3) by simp
qed

lemma stream_understood_witness:
  "feed_all [[6, 2, 2], [1, 0, 0, 4, 2], [0, 0, 0, 8, 9]] [] = Inr ([(6, []), (2, [2, 1, 0, 0]), (4, [8, 9])], [])"
proof -
  have l: "le_bytes 4 2 = [2, 0, 0, 0]" "le_bytes 4 258 = [2, 1, 0, 0]" proof -
    have four: "(4 :: nat) = Suc (Suc (Suc (Suc 0)))" by simp
    show "le_bytes 4 2 = [2, 0, 0, 0]" "le_bytes 4 258 = [2, 1, 0, 0]" unfolding four le_bytes.simps by simp_all
  qed
  have "msg_wire PeersRequest = Inr [6]" by (simp add: encode_peer_list_request_def message_ids)
  moreover have "msg_wire (ListenPort 258) = Inr [2, 2, 1, 0, 0]" by (simp add: encode_listen_port_def message_ids l)
  moreover have "msg_wire (BlockResponse [8, 9]) = Inr [4, 2, 0, 0, 0, 8, 9]"
    using l(1) by (simp add: encode_block_response_def to_bytes_le_def message_ids numeral_2_eq_2)
  ultimately have w: "mapR msg_wire [PeersRequest, ListenPort 258, BlockResponse [8, 9]] =
      Inr [[6], [2, 2, 1, 0, 0], [4, 2, 0, 0, 0, 8, 9]]" by simp
  from stream_understood [OF w, of "[[6, 2, 2], [1, 0, 0, 4, 2], [0, 0, 0, 8, 9]]"] show ?thesis
    by (simp add: MAX_BLOCK_SIZE_def frame_of_def SIZE_PREFIXED_def message_ids)
qed

lemma compute_solution_some:
  "compute_solution challenge cid salt req = Some (sol, st) \<Longrightarrow>
     check_solution challenge cid st sol \<and> (req \<longrightarrow> p2p_check_pow sol)"
proof -
  have "check_solution c i (snd y) (fst y) \<and> (r \<longrightarrow> p2p_check_pow (fst y))" if "compute_solution c i s r = Some y" for c i s r y
    by (rule compute_solution.raw_induct [where P = "\<lambda>c i s r y. check_solution c i (snd y) (fst y) \<and> (r \<longrightarrow> p2p_check_pow (fst y))", OF _ that])
      (auto simp: Let_def check_solution_def salted_def split: if_splits)
  then show "compute_solution challenge cid salt req = Some (sol, st) \<Longrightarrow> ?thesis" by fastforce
qed

lemma compute_solution_found:
  assumes "p2p_check_pow (salted challenge cid t)"
  shows "compute_solution challenge cid salt req \<noteq> None"
proof (induction "unat (t - salt)" arbitrary: salt)
  case 0
  then have "t - salt = 0" by (simp add: unat_eq_zero)
  then have "salt = t" by simp
  then show ?case using assms by (subst compute_solution.simps) (simp add: Let_def)
next
  case (Suc n)
  then have "t - salt \<noteq> 0" by auto
  then have "unat (t - (salt + 1)) = n" using Suc(2) unat_minus_one [of "t - salt"] by (simp add: diff_diff_eq)
  then show ?case using Suc(1) [of "salt + 1"] by (subst compute_solution.simps) (auto simp: Let_def)
qed

text \<open>C21. The search for a handshake solution ends whenever some salt passes, at whatever salt it starts, and at
  once when no work is asked for; and what it returns is accepted by the other side's check, and passes
  the work test when work was asked for.\<close>

theorem solution_search:
  "(compute_solution challenge cid salt req = Some (sol, salt_bytes) \<longrightarrow>
      check_solution challenge cid salt_bytes sol \<and> (req \<longrightarrow> p2p_check_pow sol)) \<and>
   (\<not> req \<or> (\<exists>t. p2p_check_pow (salted challenge cid t)) \<longrightarrow> (\<exists>r. compute_solution challenge cid salt req = Some r))"
proof -
  have "\<not> req \<Longrightarrow> compute_solution challenge cid salt req \<noteq> None"
    by (subst compute_solution.simps) (simp add: Let_def)
  then show ?thesis using compute_solution_some compute_solution_found by blast
qed

lemma solution_search_witness: "\<exists>r. compute_solution [1] [2] 3 False = Some r"
  using solution_search [of "[1]" "[2]" 3 False] by blast

end
