(* ===== verification/P2pClient.thy ===== *)
theory P2pClient
  imports P2pWire
begin

text \<open>
  \<open>transpeer/anchor/p2p.py\<close>, the observer's connection: a state machine whose events are the bytes that arrive,
  the end or failure of the stream, requests and their time-outs. A future is a number; \<open>pc_done\<close> holds
  the outcome of the settled ones. The salts are the draws of \<open>random.getrandbits(64)\<close>.
\<close>

section \<open>The connection\<close>

datatype outcome =
    GotBlock "bytes option" | GotPeers "(string \<times> nat) list" | GotTrue | Failed exn | Cancelled

record p2p_conn =
  pc_consensus :: bytes
  pc_challenge :: bytes
  pc_observer :: bool
  pc_buf :: bytes
  pc_open :: bool
  pc_reading :: bool
  pc_stuck :: bool
  pc_blocks :: "nat list"
  pc_peers :: "nat list"
  pc_sent :: nat
  pc_recv :: nat
  pc_next :: nat
  pc_done :: "(nat, outcome) dict"
  pc_out :: "bytes list"
  pc_shares :: "bytes list"

text \<open>\<open>if not fut.done(): fut.set_result(...)\<close>.\<close>

definition settle :: "nat \<Rightarrow> outcome \<Rightarrow> p2p_conn \<Rightarrow> p2p_conn" where
  "settle f r c = (if dget (pc_done c) f \<noteq> None then c else c\<lparr> pc_done := dput f r (pc_done c) \<rparr>)"

definition send_bytes :: "bytes \<Rightarrow> p2p_conn \<Rightarrow> p2p_conn" where
  "send_bytes w c = c\<lparr> pc_out := pc_out c @ [w] \<rparr>"

text \<open>\<open>os.urandom\<close> is asked again while the peer id is zero.\<close>

fun fresh_peer_id :: "bytes list \<Rightarrow> bytes option" where
  "fresh_peer_id [] = None"
| "fresh_peer_id (r # rs) = (if r = replicate 8 0 then fresh_peer_id rs else Some r)"

definition connect :: "bytes \<Rightarrow> bool \<Rightarrow> bytes \<Rightarrow> bytes \<Rightarrow> p2p_conn result" where
  "connect consensus_id observer our_challenge peer_id =
     bindR (encode_handshake_challenge our_challenge peer_id) (\<lambda>w.
       Inr \<lparr> pc_consensus = consensus_id, pc_challenge = our_challenge, pc_observer = observer, pc_buf = [],
         pc_open = True, pc_reading = True, pc_stuck = False, pc_blocks = [], pc_peers = [], pc_sent = 0, pc_recv = 1,
         pc_next = 2, pc_done = [], pc_out = [w], pc_shares = [] \<rparr>)"

definition settle_all :: "exn \<Rightarrow> nat list \<Rightarrow> p2p_conn \<Rightarrow> p2p_conn" where
  "settle_all e fs c = fold (\<lambda>f. settle f (Failed e)) fs c"

definition fail_pending :: "exn \<Rightarrow> p2p_conn \<Rightarrow> p2p_conn" where
  "fail_pending e c =
     (let c = (settle_all e (pc_blocks c) c)\<lparr> pc_blocks := [] \<rparr>;
          c = (settle_all e (pc_peers c) c)\<lparr> pc_peers := [] \<rparr>
      in settle (pc_recv c) (Failed e) (settle (pc_sent c) (Failed e) c))"

text \<open>\<open>close()\<close>: the reading task is cancelled and the writer closed.\<close>

definition close_conn :: "p2p_conn \<Rightarrow> p2p_conn" where
  "close_conn c = c\<lparr> pc_reading := False, pc_open := False \<rparr>"

section \<open>Dispatch\<close>

definition on_challenge :: "bytes \<Rightarrow> 64 word \<Rightarrow> p2p_conn \<Rightarrow> exn option \<times> p2p_conn" where
  "on_challenge payload salt c =
     (case compute_solution (take CHALLENGE_SIZE payload) (pc_consensus c) salt True of
        None \<Rightarrow> (None, c\<lparr> pc_stuck := True \<rparr>)
      | Some (solution, st) \<Rightarrow> (case encode_handshake_solution solution st of
            Inl e \<Rightarrow> (Some e, c)
          | Inr w \<Rightarrow> (None, settle (pc_sent c) GotTrue (send_bytes w c))))"

definition on_solution :: "bytes \<Rightarrow> p2p_conn \<Rightarrow> exn option \<times> p2p_conn" where
  "on_solution payload c =
     (let solution = take HASH_SIZE payload; salt = slice payload HASH_SIZE (HASH_SIZE + CHALLENGE_SIZE) in
      if \<not> check_solution (pc_challenge c) (pc_consensus c) salt solution then
        (Some (ProtocolError ''handshake solution mismatch''),
         settle (pc_recv c) (Failed (ConnectionError ''handshake solution mismatch'')) c)
      else (None, settle (pc_recv c) GotTrue c))"

definition on_block_response :: "bytes \<Rightarrow> p2p_conn \<Rightarrow> p2p_conn" where
  "on_block_response payload c =
     (case pc_blocks c of [] \<Rightarrow> c
      | f # fs \<Rightarrow> settle f (GotBlock (if payload = [] then None else Some payload)) (c\<lparr> pc_blocks := fs \<rparr>))"

definition on_peer_list :: "bytes \<Rightarrow> p2p_conn \<Rightarrow> exn option \<times> p2p_conn" where
  "on_peer_list payload c =
     (case decode_peer_list_response payload of
        Inl e \<Rightarrow> (Some e, c)
      | Inr peers \<Rightarrow> (None, case pc_peers c of [] \<Rightarrow> c | f # fs \<Rightarrow> settle f (GotPeers peers) (c\<lparr> pc_peers := fs \<rparr>)))"

definition dispatch :: "frame \<Rightarrow> 64 word \<Rightarrow> p2p_conn \<Rightarrow> exn option \<times> p2p_conn" where
  "dispatch m salt c =
     (let (i, payload) = m in
      if i = HANDSHAKE_CHALLENGE then on_challenge payload salt c
      else if i = HANDSHAKE_SOLUTION then on_solution payload c
      else if i = LISTEN_PORT then (None, c)
      else if i = BLOCK_REQUEST then
        (case encode_block_response [] of Inl e \<Rightarrow> (Some e, c) | Inr w \<Rightarrow> (None, send_bytes w c))
      else if i = BLOCK_RESPONSE then (None, on_block_response payload c)
      else if i = BLOCK_BROADCAST then
        (None, if pc_observer c then c\<lparr> pc_shares := pc_shares c @ [payload] \<rparr> else c)
      else if i \<in> {BLOCK_BROADCAST_COMPACT, BLOCK_NOTIFY, AUX_JOB_DONATION, MONERO_BLOCK_BROADCAST} then (None, c)
      else if i = PEER_LIST_REQUEST then
        (case encode_peer_list_response [] False of Inl e \<Rightarrow> (Some e, c) | Inr w \<Rightarrow> (None, send_bytes w c))
      else if i = PEER_LIST_RESPONSE then on_peer_list payload c
      else (Some (ProtocolError ''unhandled message id''), c))"

text \<open>The messages of one read; a protocol error fails what is pending and closes the writer.\<close>

definition abort :: "p2p_conn \<Rightarrow> p2p_conn" where
  "abort c = (fail_pending (ConnectionError ''protocol error'') c)\<lparr> pc_reading := False, pc_open := False \<rparr>"

fun dispatch_all :: "frame list \<Rightarrow> (nat \<Rightarrow> 64 word) \<Rightarrow> p2p_conn \<Rightarrow> p2p_conn" where
  "dispatch_all [] salts c = c"
| "dispatch_all (m # ms) salts c =
     (case dispatch m (salts 0) c of
        (Some e, c) \<Rightarrow> abort c
      | (None, c) \<Rightarrow> if pc_stuck c then c else dispatch_all ms (\<lambda>n. salts (n + 1)) c)"

definition on_data :: "bytes \<Rightarrow> (nat \<Rightarrow> 64 word) \<Rightarrow> p2p_conn \<Rightarrow> p2p_conn" where
  "on_data data salts c =
     (if data = [] then (fail_pending (ConnectionError ''connection closed'') c)\<lparr> pc_reading := False \<rparr>
      else (case feed data (pc_buf c) of
          Inl e \<Rightarrow> abort c
        | Inr (ms, buf) \<Rightarrow> dispatch_all ms salts (c\<lparr> pc_buf := buf \<rparr>)))"

section \<open>Requests\<close>

definition request_block :: "bytes \<Rightarrow> p2p_conn \<Rightarrow> p2p_conn" where
  "request_block share_id c =
     (let f = pc_next c; c = c\<lparr> pc_next := f + 1, pc_blocks := pc_blocks c @ [f] \<rparr> in
      (case encode_block_request share_id of Inl e \<Rightarrow> c | Inr w \<Rightarrow> send_bytes w c))"

text \<open>A block request that timed out leaves the queue and takes the connection down.\<close>

definition block_timeout :: "nat \<Rightarrow> p2p_conn \<Rightarrow> p2p_conn" where
  "block_timeout f c = close_conn ((settle f Cancelled c)\<lparr> pc_blocks := remove1 f (pc_blocks c) \<rparr>)"

definition request_peers :: "p2p_conn \<Rightarrow> p2p_conn" where
  "request_peers c =
     (let f = pc_next c in send_bytes encode_peer_list_request (c\<lparr> pc_next := f + 1, pc_peers := pc_peers c @ [f] \<rparr>))"

text \<open>A peer list request that timed out stays in the queue: the next answer is spent on it.\<close>

definition peers_timeout :: "nat \<Rightarrow> p2p_conn \<Rightarrow> p2p_conn" where
  "peers_timeout f c = settle f Cancelled c"

definition handshake_done :: "p2p_conn \<Rightarrow> bool" where
  "handshake_done c \<longleftrightarrow> dget (pc_done c) (pc_sent c) = Some GotTrue \<and> dget (pc_done c) (pc_recv c) = Some GotTrue"

datatype p2p_event =
    Data bytes "nat \<Rightarrow> 64 word" | Eof | StreamError exn | AskBlock bytes | AskPeers
  | BlockTimeout nat | PeersTimeout nat | Close

fun conn_step :: "p2p_event \<Rightarrow> p2p_conn \<Rightarrow> p2p_conn" where
  "conn_step (Data d salts) c = (if pc_stuck c \<or> \<not> pc_reading c then c else on_data d salts c)"
| "conn_step Eof c = (if pc_stuck c \<or> \<not> pc_reading c then c else on_data [] (\<lambda>_. 0) c)"
| "conn_step (StreamError e) c =
     (if pc_stuck c \<or> \<not> pc_reading c then c else (fail_pending e c)\<lparr> pc_reading := False \<rparr>)"
| "conn_step (AskBlock i) c = (if pc_stuck c then c else request_block i c)"
| "conn_step AskPeers c = (if pc_stuck c then c else request_peers c)"
| "conn_step (BlockTimeout f) c = (if pc_stuck c then c else block_timeout f c)"
| "conn_step (PeersTimeout f) c = (if pc_stuck c then c else peers_timeout f c)"
| "conn_step Close c = (if pc_stuck c then c else close_conn c)"

section \<open>Futures settle once\<close>

definition settled :: "p2p_conn \<Rightarrow> nat \<Rightarrow> bool" where
  "settled c f \<longleftrightarrow> dget (pc_done c) f \<noteq> None"

definition accounted :: "p2p_conn \<Rightarrow> nat \<Rightarrow> bool" where
  "accounted c f \<longleftrightarrow> settled c f \<or> f \<in> set (pc_blocks c) \<or> f \<in> set (pc_peers c)"

definition conn_inv :: "p2p_conn \<Rightarrow> bool" where
  "conn_inv c \<longleftrightarrow> pc_sent c = 0 \<and> pc_recv c = 1 \<and> (\<forall>f < pc_next c. accounted c f \<or> f = 0 \<or> f = 1)"

text \<open>What every step keeps: settled outcomes, and that only settled futures leave the queues.\<close>

definition keeps :: "p2p_conn \<Rightarrow> p2p_conn \<Rightarrow> bool" where
  "keeps c c' \<longleftrightarrow> (\<forall>f r. dget (pc_done c) f = Some r \<longrightarrow> dget (pc_done c') f = Some r) \<and>
     pc_sent c' = pc_sent c \<and> pc_recv c' = pc_recv c \<and> (\<forall>f. accounted c f \<longrightarrow> accounted c' f) \<and>
     (\<forall>f < pc_next c'. f < pc_next c \<or> accounted c' f)"

lemma keeps_refl [simp]: "keeps c c"
  by (simp add: keeps_def)

lemma keeps_settled: "keeps c c' \<Longrightarrow> settled c f \<Longrightarrow> settled c' f"
  by (auto simp: keeps_def settled_def)

lemma keeps_trans: "keeps c1 c2 \<Longrightarrow> keeps c2 c3 \<Longrightarrow> keeps c1 c3"
  unfolding keeps_def by metis

lemma keeps_inv: "keeps c c' \<Longrightarrow> conn_inv c \<Longrightarrow> conn_inv c'"
  unfolding keeps_def conn_inv_def by metis

lemma keepsI:
  assumes "\<And>f r. dget (pc_done c) f = Some r \<Longrightarrow> dget (pc_done c') f = Some r" "pc_sent c' = pc_sent c" "pc_recv c' = pc_recv c"
    "\<And>f. accounted c f \<Longrightarrow> accounted c' f" "\<And>f. f < pc_next c' \<Longrightarrow> f < pc_next c \<or> accounted c' f"
  shows "keeps c c'"
  using assms unfolding keeps_def by blast

lemma settle_simps [simp]:
  "pc_blocks (settle f r c) = pc_blocks c" "pc_peers (settle f r c) = pc_peers c" "pc_sent (settle f r c) = pc_sent c"
  "pc_recv (settle f r c) = pc_recv c" "pc_next (settle f r c) = pc_next c" "settled (settle f r c) f"
  "settled c g \<Longrightarrow> settled (settle f r c) g" "dget (pc_done c) g = Some x \<Longrightarrow> dget (pc_done (settle f r c)) g = Some x"
  "pc_buf (settle f r c) = pc_buf c"
  by (auto simp: settle_def settled_def)

lemma keeps_settle [simp]: "keeps c (settle f r c)"
  by (rule keepsI) (auto simp: accounted_def)

lemma settled_upd [simp]:
  "settled (c\<lparr> pc_blocks := x \<rparr>) = settled c" "settled (c\<lparr> pc_peers := x \<rparr>) = settled c"
  "settled (c\<lparr> pc_reading := b \<rparr>) = settled c" "settled (c\<lparr> pc_open := b \<rparr>) = settled c" "settled (send_bytes w c) = settled c"
  by (auto simp: settled_def send_bytes_def fun_eq_iff)

lemma settle_all_facts:
  "keeps c (settle_all e fs c)" "\<forall>f \<in> set fs. settled (settle_all e fs c) f"
  "pc_blocks (settle_all e fs c) = pc_blocks c" "pc_peers (settle_all e fs c) = pc_peers c"
proof -
  have "keeps c (settle_all e fs c) \<and> (\<forall>f \<in> set fs. settled (settle_all e fs c) f) \<and>
    pc_blocks (settle_all e fs c) = pc_blocks c \<and> pc_peers (settle_all e fs c) = pc_peers c" for c
  proof (induction fs arbitrary: c)
    case (Cons f fs)
    have e: "settle_all e (f # fs) c = settle_all e fs (settle f (Failed e) c)" by (simp add: settle_all_def)
    note I = Cons.IH [of "settle f (Failed e) c"]
    have "settled (settle_all e fs (settle f (Failed e) c)) f" using I keeps_settled by (metis settle_simps(6))
    then show ?case unfolding e using I keeps_trans [OF keeps_settle] by (metis set_ConsD settle_simps(1,2))
  qed (simp add: settle_all_def)
  then show "keeps c (settle_all e fs c)" "\<forall>f \<in> set fs. settled (settle_all e fs c) f"
    "pc_blocks (settle_all e fs c) = pc_blocks c" "pc_peers (settle_all e fs c) = pc_peers c" by blast+
qed

lemma keeps_drop_queue:
  assumes "keeps c c'" "\<forall>f \<in> set (pc_blocks c'). settled c' f"
  shows "keeps c (c'\<lparr> pc_blocks := [] \<rparr>)"
proof -
  have "accounted (c'\<lparr> pc_blocks := [] \<rparr>) f = accounted c' f" for f using assms(2) by (auto simp: accounted_def)
  then show ?thesis using assms(1) by (simp add: keeps_def)
qed

lemma keeps_drop_peers:
  assumes "keeps c c'" "\<forall>f \<in> set (pc_peers c'). settled c' f"
  shows "keeps c (c'\<lparr> pc_peers := [] \<rparr>)"
proof -
  have "accounted (c'\<lparr> pc_peers := [] \<rparr>) f = accounted c' f" for f using assms(2) by (auto simp: accounted_def)
  then show ?thesis using assms(1) by (simp add: keeps_def)
qed

lemma fail_pending_facts:
  "keeps c (fail_pending e c)"
  "\<forall>f \<in> set (pc_blocks c) \<union> set (pc_peers c) \<union> {pc_sent c, pc_recv c}. settled (fail_pending e c) f"
proof -
  define c1 where "c1 = settle_all e (pc_blocks c) c"
  define c2 where "c2 = settle_all e (pc_peers (c1\<lparr> pc_blocks := [] \<rparr>)) (c1\<lparr> pc_blocks := [] \<rparr>)"
  define c3 where "c3 = c2\<lparr> pc_peers := [] \<rparr>"
  have f: "fail_pending e c = settle (pc_recv c3) (Failed e) (settle (pc_sent c3) (Failed e) c3)"
    by (simp add: fail_pending_def Let_def c3_def c2_def c1_def)
  note s1 = settle_all_facts [where c = c and e = e and fs = "pc_blocks c", folded c1_def]
  have k1: "keeps c (c1\<lparr> pc_blocks := [] \<rparr>)" by (rule keeps_drop_queue) (use s1 in auto)
  note s2 = settle_all_facts [where c = "c1\<lparr> pc_blocks := [] \<rparr>" and e = e and fs = "pc_peers (c1\<lparr> pc_blocks := [] \<rparr>)", folded c2_def]
  have k2: "keeps (c1\<lparr> pc_blocks := [] \<rparr>) c3" unfolding c3_def by (rule keeps_drop_peers) (use s2 in auto)
  have k3: "keeps c3 (fail_pending e c)" unfolding f by (rule keeps_trans [OF keeps_settle keeps_settle])
  show k: "keeps c (fail_pending e c)" by (rule keeps_trans [OF keeps_trans [OF k1 k2] k3])
  have "settled (fail_pending e c) g" if "g \<in> set (pc_blocks c)" for g
    using s1(2) that keeps_settled [OF k2] keeps_settled [OF k3] by auto
  moreover have "settled (fail_pending e c) g" if "g \<in> set (pc_peers c)" for g
    using s2(2) that s1(4) keeps_settled [OF k3] by (auto simp: c3_def)
  moreover have "pc_sent c3 = pc_sent c" "pc_recv c3 = pc_recv c" using keeps_trans [OF k1 k2] by (auto simp: keeps_def)
  then have "settled (fail_pending e c) (pc_sent c)" "settled (fail_pending e c) (pc_recv c)" unfolding f by auto
  ultimately show "\<forall>f \<in> set (pc_blocks c) \<union> set (pc_peers c) \<union> {pc_sent c, pc_recv c}. settled (fail_pending e c) f" by blast
qed

lemma accounted_flags [simp]:
  "accounted (c\<lparr> pc_reading := b \<rparr>) = accounted c" "accounted (c\<lparr> pc_open := b \<rparr>) = accounted c"
  "accounted (c\<lparr> pc_stuck := b \<rparr>) = accounted c" "accounted (c\<lparr> pc_buf := x \<rparr>) = accounted c"
  "accounted (c\<lparr> pc_shares := ss \<rparr>) = accounted c" "accounted (send_bytes w c) = accounted c"
  by (simp_all add: accounted_def settled_def send_bytes_def fun_eq_iff)

lemma keeps_flags [simp]:
  "keeps c (c'\<lparr> pc_reading := b \<rparr>) = keeps c c'" "keeps c (c'\<lparr> pc_open := b \<rparr>) = keeps c c'"
  "keeps c (c'\<lparr> pc_stuck := b \<rparr>) = keeps c c'" "keeps c (c'\<lparr> pc_buf := x \<rparr>) = keeps c c'"
  "keeps c (c'\<lparr> pc_shares := ss \<rparr>) = keeps c c'" "keeps c (send_bytes w c') = keeps c c'"
  by (simp_all add: keeps_def) (simp_all add: send_bytes_def)

lemma keeps_abort: "keeps c (abort c)"
  using fail_pending_facts(1) by (simp add: abort_def)

lemma keeps_pop_block:
  "pc_blocks c = f # fs \<Longrightarrow> keeps c (settle f r (c\<lparr> pc_blocks := fs \<rparr>))"
  by (rule keepsI) (auto simp: accounted_def settle_def settled_def split: if_splits)

lemma keeps_pop_peer:
  "pc_peers c = f # fs \<Longrightarrow> keeps c (settle f r (c\<lparr> pc_peers := fs \<rparr>))"
  by (rule keepsI) (auto simp: accounted_def settle_def settled_def split: if_splits)

lemma keeps_dispatch: "keeps c (snd (dispatch m salt c))"
proof -
  have "keeps c (snd (on_challenge p salt c))" for p
    using keeps_trans [OF _ keeps_settle, of c "send_bytes w c" for w] by (auto simp: on_challenge_def split: option.splits sum.splits)
  moreover have "keeps c (snd (on_solution p c))" for p by (simp add: on_solution_def Let_def)
  moreover have "keeps c (on_block_response p c)" for p
    by (auto simp: on_block_response_def keeps_pop_block split: list.splits)
  moreover have "keeps c (snd (on_peer_list p c))" for p
    by (auto simp: on_peer_list_def keeps_pop_peer split: list.splits sum.splits)
  ultimately show ?thesis by (auto simp: dispatch_def Let_def split: prod.splits sum.splits)
qed

lemma keeps_dispatch_all: "keeps c (dispatch_all ms salts c)"
proof (induction ms arbitrary: salts c)
  case (Cons m ms)
  obtain err c' where d: "dispatch m (salts 0) c = (err, c')" by fastforce
  then have k: "keeps c c'" using keeps_dispatch [of c m "salts 0"] by simp
  show ?case using d k keeps_trans [OF k keeps_abort] keeps_trans [OF k Cons.IH] by (cases err) auto
qed simp

lemma keeps_data: "keeps c (on_data d salts c)"
proof -
  have "keeps c (dispatch_all ms salts (c\<lparr>pc_buf := b\<rparr>))" for ms b
    by (rule keeps_trans [OF _ keeps_dispatch_all]) simp
  then show ?thesis
    by (auto simp: on_data_def keeps_abort fail_pending_facts(1) split: sum.splits prod.splits)
qed

lemma keeps_step: "keeps c (conn_step e c)"
proof (cases e)
  case (AskBlock i)
  have "keeps c (c\<lparr>pc_next := Suc (pc_next c), pc_blocks := pc_blocks c @ [pc_next c]\<rparr>)"
    by (rule keepsI) (auto simp: accounted_def settled_def less_Suc_eq)
  then have "keeps c (request_block i c)" by (simp add: request_block_def Let_def split: sum.split)
  then show ?thesis by (simp add: AskBlock)
next
  case AskPeers
  have "keeps c (c\<lparr>pc_next := Suc (pc_next c), pc_peers := pc_peers c @ [pc_next c]\<rparr>)"
    by (rule keepsI) (auto simp: accounted_def settled_def less_Suc_eq)
  then have "keeps c (request_peers c)" by (simp add: request_peers_def Let_def)
  then show ?thesis by (simp add: AskPeers)
next
  case (BlockTimeout f)
  have r: "g \<in> set xs \<Longrightarrow> g \<in> set (remove1 f xs) \<or> g = f" for g xs by (metis in_set_remove1)
  have "keeps c ((settle f Cancelled c)\<lparr> pc_blocks := remove1 f (pc_blocks c) \<rparr>)"
  proof (rule keepsI)
    fix g assume "accounted c g"
    then show "accounted ((settle f Cancelled c)\<lparr> pc_blocks := remove1 f (pc_blocks c) \<rparr>) g"
      using r [of g "pc_blocks c"] by (auto simp: accounted_def)
  qed simp_all
  then show ?thesis by (simp add: BlockTimeout block_timeout_def close_conn_def)
qed (auto simp: keeps_data fail_pending_facts(1) peers_timeout_def close_conn_def)

interpretation conn_history: history conn_step "\<lambda>_. True" conn_inv
  by unfold_locales (rule keeps_inv [OF keeps_step])

lemma connect_inv: "connect cid obs ch pid = Inr c \<Longrightarrow> conn_inv c"
  by (auto simp: connect_def bindR_Inr_conv conn_inv_def accounted_def)

definition stream_ends :: "p2p_event \<Rightarrow> p2p_conn \<Rightarrow> bool" where
  "stream_ends e c \<longleftrightarrow> pc_reading c \<and> \<not> pc_stuck c \<and> (case e of
     Eof \<Rightarrow> True | StreamError x \<Rightarrow> True | Data d salts \<Rightarrow> d = [] \<or> (\<exists>x. feed d (pc_buf c) = Inl x) | _ \<Rightarrow> False)"

lemma stream_ends_settles:
  assumes "conn_inv c" "stream_ends e c" "f < pc_next c"
  shows "settled (conn_step e c) f"
proof -
  have all: "settled (fail_pending x c) f" for x
  proof -
    have "accounted c f \<or> f = pc_sent c \<or> f = pc_recv c" using assms(1,3) by (simp add: conn_inv_def)
    then have "settled c f \<or> f \<in> set (pc_blocks c) \<union> set (pc_peers c) \<union> {pc_sent c, pc_recv c}"
      by (auto simp: accounted_def)
    then show ?thesis
    proof
      assume "settled c f"
      then show ?thesis by (rule keeps_settled [OF fail_pending_facts(1)])
    qed (rule fail_pending_facts(2) [rule_format])
  qed
  then have "settled (abort c) f" by (simp add: abort_def)
  then show ?thesis using assms(2) all
    by (cases e) (auto simp: stream_ends_def on_data_def split: if_splits)
qed

text \<open>C22. No request is lost or answered twice: over any history of a connection every future that was handed out is
  settled or still waits in a queue, a settled outcome never changes, and when the stream ends, fails or is
  malformed every future is settled.\<close>

theorem requests_settle_once:
  assumes "connect consensus_id observer challenge peer_id = Inr c0"
  shows "(let c = fold conn_step events c0 in
     (\<forall>f < pc_next c. dget (pc_done c) f \<noteq> None \<or> f \<in> set (pc_blocks c) \<or> f \<in> set (pc_peers c) \<or> f = pc_sent c \<or> f = pc_recv c) \<and>
     (\<forall>f r e. dget (pc_done c) f = Some r \<longrightarrow> dget (pc_done (conn_step e c)) f = Some r) \<and>
     (\<forall>f e. stream_ends e c \<and> f < pc_next c \<longrightarrow> dget (pc_done (conn_step e c)) f \<noteq> None))"
proof -
  define c where "c = fold conn_step events c0"
  have inv: "conn_inv c" unfolding c_def by (rule conn_history.inv_run [OF _ connect_inv [OF assms]]) (simp add: list_all_iff)
  have "\<forall>f < pc_next c. dget (pc_done c) f \<noteq> None \<or> f \<in> set (pc_blocks c) \<or> f \<in> set (pc_peers c) \<or> f = pc_sent c \<or> f = pc_recv c"
    using inv by (auto simp: conn_inv_def accounted_def settled_def)
  moreover have "\<forall>f r e. dget (pc_done c) f = Some r \<longrightarrow> dget (pc_done (conn_step e c)) f = Some r"
    using keeps_step by (auto simp: keeps_def)
  moreover have "\<forall>f e. stream_ends e c \<and> f < pc_next c \<longrightarrow> dget (pc_done (conn_step e c)) f \<noteq> None"
    using stream_ends_settles [OF inv] by (simp add: settled_def)
  ultimately show ?thesis unfolding c_def [symmetric] Let_def by blast
qed

definition wit_conn :: p2p_conn where
  "wit_conn = \<lparr> pc_consensus = [], pc_challenge = replicate 8 1, pc_observer = False, pc_buf = [],
     pc_open = True, pc_reading = True, pc_stuck = False, pc_blocks = [], pc_peers = [], pc_sent = 0, pc_recv = 1,
     pc_next = 2, pc_done = [], pc_out = [0 # replicate 8 1 @ replicate 8 2], pc_shares = [] \<rparr>"

lemma requests_settle_once_witness:
  "dget (pc_done (conn_step Eof (fold conn_step [AskBlock (replicate 32 5), AskPeers] wit_conn))) 2 \<noteq> None"
proof -
  have c: "connect [] False (replicate 8 1) (replicate 8 2) = Inr wit_conn"
    by (simp add: connect_def encode_handshake_challenge_def assertR_def CHALLENGE_SIZE_def wit_conn_def message_ids)
  define c1 where "c1 = fold conn_step [AskBlock (replicate 32 5), AskPeers] wit_conn"
  have "pc_next c1 = 4" "pc_reading c1" "\<not> pc_stuck c1"
    by (simp_all add: c1_def wit_conn_def request_block_def request_peers_def encode_block_request_def assertR_def
        HASH_SIZE_def send_bytes_def)
  then have "stream_ends Eof c1 \<and> 2 < pc_next c1" by (simp add: stream_ends_def)
  then show ?thesis
    using requests_settle_once [OF c, of "[AskBlock (replicate 32 5), AskPeers]"]
    unfolding c1_def [symmetric] Let_def by blast
qed

end
