(* ===== verification/Share.thy ===== *)
theory Share
  imports Weight Headers P2pWire
begin

text \<open>
  \<open>transpeer/anchor/share.py\<close>: the P2Pool share codec, its id, the auxiliary Merkle proof and the work check,
  and the backends of \<open>transpeer/anchor/powhash.py\<close>. Cursors are positions; every reader checks its bounds.
\<close>

section \<open>Constants\<close>

definition HARDFORK_SUPPORTED_VERSION :: nat where "HARDFORK_SUPPORTED_VERSION = 16"
definition MINER_REWARD_UNLOCK_TIME :: nat where "MINER_REWARD_UNLOCK_TIME = 60"
definition NONCE_SIZE :: nat where "NONCE_SIZE = 4"
definition EXTRA_NONCE_SIZE :: nat where "EXTRA_NONCE_SIZE = 4"
definition EXTRA_NONCE_MAX_SIZE :: nat where "EXTRA_NONCE_MAX_SIZE = 14"
definition TX_VERSION :: nat where "TX_VERSION = 2"
definition SHARE_TXIN_GEN :: nat where "SHARE_TXIN_GEN = 0xFF"
definition TXOUT_TO_TAGGED_KEY :: nat where "TXOUT_TO_TAGGED_KEY = 3"
definition TX_EXTRA_TAG_PUBKEY :: nat where "TX_EXTRA_TAG_PUBKEY = 1"
definition TX_EXTRA_NONCE :: nat where "TX_EXTRA_NONCE = 2"
definition TX_EXTRA_MERGE_MINING_TAG :: nat where "TX_EXTRA_MERGE_MINING_TAG = 3"
definition BASE_BLOCK_REWARD :: nat where "BASE_BLOCK_REWARD = 600000000000"
definition MAX_OUTPUT_VALUE :: nat where "MAX_OUTPUT_VALUE = 2 ^ 56 - 1"
definition MAX_CUMULATIVE_DIFFICULTY :: nat where
  "MAX_CUMULATIVE_DIFFICULTY = 13019633956666736640 + 1710 * 2 ^ 64"
definition MAX_SIDECHAIN_HEIGHT :: nat where "MAX_SIDECHAIN_HEIGHT = 31556952000"
definition CRYPTONOTE_MAX_BLOCK_NUMBER :: nat where "CRYPTONOTE_MAX_BLOCK_NUMBER = 500000000"
definition MERGE_MINING_MAX_CHAINS :: nat where "MERGE_MINING_MAX_CHAINS = 256"
definition LOG2_MERGE_MINING_MAX_CHAINS :: nat where "LOG2_MERGE_MINING_MAX_CHAINS = 8"
definition MAX_UNCLES_PER_BLOCK :: nat where "MAX_UNCLES_PER_BLOCK = 5"

definition VENUES :: "(string \<times> bytes) list" where
  "VENUES =
     [(''main'', [34, 175, 126, 231, 181, 11, 104, 146, 227, 153, 218, 107, 44, 108, 68, 39,
                  178, 81, 4, 212, 169, 4, 142, 0, 177, 110, 157, 240, 68, 7, 249, 24]),
      (''mini'', [57, 130, 201, 26, 149, 174, 199, 250, 66, 80, 189, 18, 108, 216, 194, 220,
                  136, 23, 63, 24, 64, 113, 221, 44, 219, 86, 39, 163, 53, 24, 126, 196]),
      (''nano'', [171, 248, 206, 148, 210, 226, 114, 99, 250, 145, 221, 96, 13, 216, 23, 63,
                  104, 53, 129, 168, 244, 80, 141, 138, 157, 250, 50, 54, 37, 189, 5, 89])]"

definition VENUE_PORTS :: "(string \<times> int) list" where
  "VENUE_PORTS = [(''main'', 37889), (''mini'', 37888), (''nano'', 37890)]"
definition VENUE_WINDOW :: nat where "VENUE_WINDOW = 2160"
definition VENUE_BLOCK_TIME :: "(string \<times> int) list" where
  "VENUE_BLOCK_TIME = [(''main'', 10), (''mini'', 10), (''nano'', 30)]"

section \<open>The cursor\<close>

type_synonym 'a reader = "bytes \<Rightarrow> nat \<Rightarrow> ('a \<times> nat) result"

definition rd_byte :: "nat reader" where
  "rd_byte data pos = (if pos \<ge> length data then Inl (ShareError ''truncated: expected a byte'')
     else Inr (unat (data ! pos), pos + 1))"

definition rd_expect :: "nat \<Rightarrow> string \<Rightarrow> bytes \<Rightarrow> nat \<Rightarrow> nat result" where
  "rd_expect v what data pos = bindR (rd_byte data pos) (\<lambda>(b, pos). if b \<noteq> v then Inl (ShareError what) else Inr pos)"

definition remaining :: "bytes \<Rightarrow> nat \<Rightarrow> nat" where
  "remaining data pos = length data - pos"

definition rd_buf :: "nat \<Rightarrow> bytes reader" where
  "rd_buf n data pos = (if n > remaining data pos then Inl (ShareError ''truncated: expected bytes'')
     else Inr (slice data pos (pos + n), pos + n))"

definition rd_varint :: "nat reader" where
  "rd_varint data pos = (case read_varint data pos of
     Inl e \<Rightarrow> Inl (ShareError ''truncated varint'') | Inr r \<Rightarrow> Inr r)"

primrec rd_many :: "'a reader \<Rightarrow> nat \<Rightarrow> 'a list reader" where
  "rd_many rd 0 data pos = Inr ([], pos)"
| "rd_many rd (Suc n) data pos = bindR (rd data pos) (\<lambda>(v, pos). bindR (rd_many rd n data pos) (\<lambda>(vs, pos). Inr (v # vs, pos)))"

section \<open>The parsed share\<close>

type_synonym tx_output = "nat \<times> bytes \<times> nat"

record parsed_share =
  ps_id :: bytes
  ps_raw :: bytes
  ps_major :: nat
  ps_minor :: nat
  ps_timestamp :: nat
  ps_prev_id :: bytes
  ps_nonce :: nat
  ps_txin_gen_height :: nat
  ps_outputs :: "tx_output list"
  ps_tx_pubkey :: bytes
  ps_extra_nonce :: nat
  ps_n_aux_chains :: nat
  ps_aux_nonce :: nat
  ps_merkle_root :: bytes
  ps_tx_hashes :: "bytes list"
  ps_spend_pub :: bytes
  ps_view_pub :: bytes
  ps_txkey_sec_seed :: bytes
  ps_parent :: bytes
  ps_uncles :: "bytes list"
  ps_height :: nat
  ps_difficulty :: nat
  ps_cumulative_difficulty :: nat
  ps_merkle_proof :: "bytes list"
  ps_aux :: "(bytes, bytes \<times> nat) dict"
  ps_aux_raw :: "(bytes, bytes) dict"
  ps_extra_buf :: bytes
  ps_hashing_blob :: bytes
  ps_wallet :: string

section \<open>The proof by index and count\<close>

definition node_hash :: "nat \<Rightarrow> bytes \<Rightarrow> bytes \<Rightarrow> bytes" where
  "node_hash index sibling h = (if odd index then keccak256 (sibling @ h) else keccak256 (h @ sibling))"

function root_loop :: "nat \<Rightarrow> bytes list \<Rightarrow> nat \<Rightarrow> bytes \<Rightarrow> bytes option" where
  "root_loop cnt pf index h =
     (if cnt \<ge> 2 then (case pf of [] \<Rightarrow> None | p # pf \<Rightarrow> root_loop (cnt div 2) pf (index div 2) (node_hash index p h))
      else if pf \<noteq> [] then None else Some h)"
  by pat_completeness auto
termination by (relation "measure fst") auto

declare root_loop.simps [simp del]

definition root_from_proof_by_index :: "bytes \<Rightarrow> bytes list \<Rightarrow> nat \<Rightarrow> nat \<Rightarrow> bytes option" where
  "root_from_proof_by_index leaf pf index ct =
     (if index \<ge> ct then None
      else if ct = 1 then (if pf = [] then Some leaf else None)
      else if ct = 2 then (case pf of [p] \<Rightarrow> Some (node_hash index p leaf) | _ \<Rightarrow> None)
      else (let cnt = pow2_below ct; k = cnt * 2 - ct in
        if index \<ge> k then
          (case pf of [] \<Rightarrow> None
           | p # pf \<Rightarrow> root_loop cnt pf ((index - k) div 2 + k) (node_hash (index - k) p leaf))
        else root_loop cnt pf index leaf))"

definition verify_proof_by_index :: "bytes \<Rightarrow> bytes list \<Rightarrow> nat \<Rightarrow> nat \<Rightarrow> bytes \<Rightarrow> bool" where
  "verify_proof_by_index leaf pf index ct mroot = (root_from_proof_by_index leaf pf index ct = Some mroot)"

section \<open>Parsing, part by part\<close>

definition parse_head :: "bytes \<Rightarrow> (nat \<times> nat \<times> nat \<times> bytes \<times> nat \<times> nat \<times> nat) result" where
  "parse_head data =
     bindR (rd_byte data 0) (\<lambda>(major, pos).
     if major > HARDFORK_SUPPORTED_VERSION then Inl (ShareError ''major version above hardfork support'') else
     bindR (rd_byte data pos) (\<lambda>(minor, pos).
     if minor < major then Inl (ShareError ''minor version below major'') else
     if minor > 127 then Inl (ShareError ''minor version too large'') else
     bindR (rd_varint data pos) (\<lambda>(timestamp, pos).
     bindR (rd_buf HASH_SIZE data pos) (\<lambda>(prev_id, nonce_offset).
     bindR (rd_buf NONCE_SIZE data nonce_offset) (\<lambda>(nonce, pos).
       Inr (major, minor, timestamp, prev_id, nonce_offset, le_val nonce, pos))))))"

definition parse_input :: "nat reader" where
  "parse_input data pos =
     bindR (rd_expect TX_VERSION ''expected tx version'' data pos) (\<lambda>pos.
     bindR (rd_varint data pos) (\<lambda>(unlock_height, pos).
     if unlock_height > CRYPTONOTE_MAX_BLOCK_NUMBER then Inl (ShareError ''unlock height too large'') else
     bindR (rd_expect 1 ''expected single input'' data pos) (\<lambda>pos.
     bindR (rd_expect SHARE_TXIN_GEN ''expected txin_gen tag'' data pos) (\<lambda>pos.
     bindR (rd_varint data pos) (\<lambda>(height, pos).
     if height > CRYPTONOTE_MAX_BLOCK_NUMBER then Inl (ShareError ''txin_gen height too large'') else
     if unlock_height \<noteq> height + MINER_REWARD_UNLOCK_TIME then Inl (ShareError ''unlock height mismatch'') else
       Inr (height, pos))))))"

primrec parse_outputs_from :: "nat \<Rightarrow> nat \<Rightarrow> (tx_output list \<times> nat) reader" where
  "parse_outputs_from 0 tot data pos = Inr (([], tot), pos)"
| "parse_outputs_from (Suc n) tot data pos =
     bindR (rd_varint data pos) (\<lambda>(reward, pos).
     if reward > MAX_OUTPUT_VALUE then Inl (ShareError ''output reward too large'') else
     if tot + reward \<ge> 2 ^ 64 then Inl (ShareError ''total reward overflows uint64'') else
     bindR (rd_expect TXOUT_TO_TAGGED_KEY ''expected tagged key output'' data pos) (\<lambda>pos.
     bindR (rd_buf HASH_SIZE data pos) (\<lambda>(eph_pub, pos).
     bindR (rd_byte data pos) (\<lambda>(view_tag, pos).
     bindR (parse_outputs_from n (tot + reward) data pos) (\<lambda>((outs, tot), pos).
       Inr (((reward, eph_pub, view_tag) # outs, tot), pos))))))"

definition parse_outputs :: "tx_output list reader" where
  "parse_outputs data pos =
     bindR (rd_varint data pos) (\<lambda>(num_outputs, pos).
     if num_outputs = 0 then Inl (ShareError ''pruned share'') else
     if num_outputs * 35 > remaining data pos then Inl (ShareError ''not enough data for outputs'') else
     bindR (parse_outputs_from num_outputs 0 data pos) (\<lambda>((outputs, tot), pos).
     if tot < BASE_BLOCK_REWARD then Inl (ShareError ''total reward below base block reward'') else
       Inr (outputs, pos)))"

primrec skip_zeros :: "nat \<Rightarrow> bytes \<Rightarrow> nat \<Rightarrow> nat result" where
  "skip_zeros 0 data pos = Inr pos"
| "skip_zeros (Suc n) data pos = bindR (rd_expect 0 ''expected extra nonce padding'' data pos) (skip_zeros n data)"

record extra_fields =
  ef_tx_pubkey :: bytes
  ef_extra_nonce :: nat
  ef_extra_nonce_offset :: nat
  ef_tree_data :: nat
  ef_root_offset :: nat
  ef_root :: bytes

definition parse_extra :: "extra_fields reader" where
  "parse_extra data pos =
     bindR (rd_varint data pos) (\<lambda>(tx_extra_size, tx_extra_begin).
     bindR (rd_expect TX_EXTRA_TAG_PUBKEY ''expected tx_extra pubkey tag'' data tx_extra_begin) (\<lambda>pos.
     bindR (rd_buf HASH_SIZE data pos) (\<lambda>(tx_pubkey, pos).
     bindR (rd_expect TX_EXTRA_NONCE ''expected tx_extra nonce tag'' data pos) (\<lambda>pos.
     bindR (rd_varint data pos) (\<lambda>(extra_nonce_size, extra_nonce_offset).
     if extra_nonce_size < EXTRA_NONCE_SIZE \<or> extra_nonce_size > EXTRA_NONCE_MAX_SIZE
       then Inl (ShareError ''extra nonce size out of range'') else
     bindR (rd_buf EXTRA_NONCE_SIZE data extra_nonce_offset) (\<lambda>(extra_nonce, pos).
     bindR (skip_zeros (extra_nonce_size - EXTRA_NONCE_SIZE) data pos) (\<lambda>pos.
     bindR (rd_expect TX_EXTRA_MERGE_MINING_TAG ''expected merge mining tag'' data pos) (\<lambda>pos.
     bindR (rd_varint data pos) (\<lambda>(mm_field_size, mm_field_begin).
     bindR (rd_varint data mm_field_begin) (\<lambda>(tree_data, root_offset).
     bindR (rd_buf HASH_SIZE data root_offset) (\<lambda>(mroot, pos).
     if pos - mm_field_begin \<noteq> mm_field_size then Inl (ShareError ''merge mining field size mismatch'') else
     if pos - tx_extra_begin \<noteq> tx_extra_size then Inl (ShareError ''tx_extra size mismatch'') else
     bindR (rd_expect 0 ''expected trailing rct null byte'' data pos) (\<lambda>pos.
       Inr (\<lparr> ef_tx_pubkey = tx_pubkey, ef_extra_nonce = le_val extra_nonce,
              ef_extra_nonce_offset = extra_nonce_offset, ef_tree_data = tree_data,
              ef_root_offset = root_offset, ef_root = mroot \<rparr>, pos)))))))))))))"

definition parse_tx_hashes :: "bytes list reader" where
  "parse_tx_hashes data pos =
     bindR (rd_varint data pos) (\<lambda>(n, pos).
     if n > MAX_BLOCK_SIZE div HASH_SIZE then Inl (ShareError ''too many transactions'') else
     if n * HASH_SIZE > remaining data pos then Inl (ShareError ''not enough data for transaction hashes'') else
     rd_many (rd_buf HASH_SIZE) n data pos)"

definition parse_uncles :: "bytes list reader" where
  "parse_uncles data pos =
     bindR (rd_varint data pos) (\<lambda>(n, pos).
     if n > MAX_UNCLES_PER_BLOCK then Inl (ShareError ''too many uncles'') else
     if n * HASH_SIZE > remaining data pos then Inl (ShareError ''not enough data for uncles'') else
     rd_many (rd_buf HASH_SIZE) n data pos)"

text \<open>A 128-bit number as two varints, the low half first.\<close>

definition rd_wide :: "nat reader" where
  "rd_wide data pos = bindR (rd_varint data pos) (\<lambda>(lo, pos). bindR (rd_varint data pos) (\<lambda>(hi, pos). Inr (lo + hi * 2 ^ 64, pos)))"

record side_fields =
  sd_keys :: "bytes list"
  sd_uncles :: "bytes list"
  sd_height :: nat
  sd_difficulty :: nat
  sd_cumulative :: nat
  sd_proof :: "bytes list"

definition parse_side :: "side_fields reader" where
  "parse_side data pos =
     bindR (rd_many (rd_buf HASH_SIZE) 4 data pos) (\<lambda>(keys, pos).
     bindR (parse_uncles data pos) (\<lambda>(uncles, pos).
     bindR (rd_varint data pos) (\<lambda>(height, pos).
     if height > MAX_SIDECHAIN_HEIGHT then Inl (ShareError ''sidechain height too large'') else
     bindR (rd_wide data pos) (\<lambda>(difficulty, pos).
     bindR (rd_wide data pos) (\<lambda>(cumulative, pos).
     if cumulative > MAX_CUMULATIVE_DIFFICULTY then Inl (ShareError ''cumulative difficulty too large'') else
     if difficulty > cumulative then Inl (ShareError ''difficulty exceeds cumulative difficulty'') else
     bindR (rd_byte data pos) (\<lambda>(n, pos).
     if n > LOG2_MERGE_MINING_MAX_CHAINS then Inl (ShareError ''merkle proof too long'') else
     bindR (rd_many (rd_buf HASH_SIZE) n data pos) (\<lambda>(pf, pos).
       Inr (\<lparr> sd_keys = keys, sd_uncles = uncles, sd_height = height, sd_difficulty = difficulty,
              sd_cumulative = cumulative, sd_proof = pf \<rparr>, pos))))))))"

text \<open>What one chain's data says: its hash and difficulty, nothing for data of another form; transpeer's own data
  must have the form.\<close>

definition aux_entry :: "bytes \<Rightarrow> bytes \<Rightarrow> (bytes \<times> nat) result" where
  "aux_entry chain_id t =
     (if length t < HASH_SIZE then
        (if chain_id = CHAIN_ID then Inl (ShareError ''transpeer aux data too short'') else Inr ([], 0))
      else (case bindR (read_varint t HASH_SIZE) (\<lambda>(lo, p). bindR (read_varint t p) (\<lambda>(hi, p).
                   if p \<noteq> length t then Inl (ValueError ''trailing bytes in aux data'') else Inr (lo, hi))) of
          Inl e \<Rightarrow> if chain_id = CHAIN_ID then Inl (ShareError ''transpeer aux data malformed'') else Inr ([], 0)
        | Inr (lo, hi) \<Rightarrow> Inr (take HASH_SIZE t, lo + hi * 2 ^ 64)))"

primrec parse_aux_from ::
  "nat \<Rightarrow> bytes option \<Rightarrow> (bytes, bytes \<times> nat) dict \<Rightarrow> (bytes, bytes) dict \<Rightarrow>
     ((bytes, bytes \<times> nat) dict \<times> (bytes, bytes) dict) reader" where
  "parse_aux_from 0 prev aux raw data pos = Inr ((aux, raw), pos)"
| "parse_aux_from (Suc n) prev aux raw data pos =
     bindR (rd_buf HASH_SIZE data pos) (\<lambda>(chain_id, pos).
     if (case prev of None \<Rightarrow> False | Some p \<Rightarrow> \<not> p < chain_id) then Inl (ShareError ''merge mining chain ids not ordered'') else
     bindR (rd_varint data pos) (\<lambda>(m, pos).
     if m > remaining data pos then Inl (ShareError ''not enough data for merge mining chain data'') else
     bindR (rd_buf m data pos) (\<lambda>(t, pos).
     bindR (aux_entry chain_id t) (\<lambda>e.
       parse_aux_from n (Some chain_id) (dput chain_id e aux) (dput chain_id t raw) data pos))))"

definition parse_aux :: "((bytes, bytes \<times> nat) dict \<times> (bytes, bytes) dict) reader" where
  "parse_aux data pos =
     bindR (rd_varint data pos) (\<lambda>(n, pos).
     if n = 0 then Inr (([], []), pos) else
     if n > MERGE_MINING_MAX_CHAINS then Inl (ShareError ''too many merge mining chains'') else
     if n * (HASH_SIZE + 1) > remaining data pos then Inl (ShareError ''not enough data for merge mining extra'') else
     parse_aux_from n None [] [] data pos)"

definition zero_at :: "nat \<Rightarrow> nat \<Rightarrow> bytes \<Rightarrow> bytes" where
  "zero_at off n data = take off data @ replicate n 0 @ drop (off + n) data"

definition share_id_from :: "bytes \<Rightarrow> nat \<Rightarrow> nat \<Rightarrow> nat \<Rightarrow> bytes \<Rightarrow> bytes" where
  "share_id_from data nonce_offset extra_nonce_offset root_offset consensus_id =
     keccak256 (zero_at root_offset HASH_SIZE (zero_at extra_nonce_offset EXTRA_NONCE_SIZE
       (zero_at nonce_offset NONCE_SIZE data)) @ consensus_id)"

definition parse_share :: "bytes \<Rightarrow> bytes \<Rightarrow> parsed_share result" where
  "parse_share data consensus_id =
     (if length data > MAX_BLOCK_SIZE then Inl (ShareError ''share exceeds MAX_BLOCK_SIZE'') else
     bindR (parse_head data) (\<lambda>(major, minor, timestamp, prev_id, nonce_offset, nonce, header_size).
     bindR (parse_input data header_size) (\<lambda>(txin_gen_height, pos).
     bindR (parse_outputs data pos) (\<lambda>(outputs, pos).
     bindR (parse_extra data pos) (\<lambda>(x, miner_tx_end).
     bindR (parse_tx_hashes data miner_tx_end) (\<lambda>(tx_hashes, pos).
     bindR (parse_side data pos) (\<lambda>(s, pos).
     bindR (parse_aux data pos) (\<lambda>((aux, aux_raw), pos).
     bindR (rd_buf 16 data pos) (\<lambda>(extra_buf, pos).
     if pos \<noteq> length data then Inl (ShareError ''trailing bytes after share'') else
     let share_id = share_id_from data nonce_offset (ef_extra_nonce_offset x) (ef_root_offset x) consensus_id;
         (n_aux_chains, aux_nonce) = decode_tree_params (ef_tree_data x);
         slot = aux_slot consensus_id aux_nonce n_aux_chains in
     if \<not> verify_proof_by_index share_id (sd_proof s) slot n_aux_chains (ef_root x) then Inl (ShareError ''aux merkle proof failed'') else
     bindR (tree_hash (miner_tx_hash (slice data header_size miner_tx_end) # tx_hashes)) (\<lambda>tx_root.
     Inr \<lparr> ps_id = share_id, ps_raw = data, ps_major = major, ps_minor = minor, ps_timestamp = timestamp,
       ps_prev_id = prev_id, ps_nonce = nonce, ps_txin_gen_height = txin_gen_height, ps_outputs = outputs,
       ps_tx_pubkey = ef_tx_pubkey x, ps_extra_nonce = ef_extra_nonce x, ps_n_aux_chains = n_aux_chains,
       ps_aux_nonce = aux_nonce, ps_merkle_root = ef_root x, ps_tx_hashes = tx_hashes,
       ps_spend_pub = sd_keys s ! 0, ps_view_pub = sd_keys s ! 1, ps_txkey_sec_seed = sd_keys s ! 2, ps_parent = sd_keys s ! 3,
       ps_uncles = sd_uncles s, ps_height = sd_height s, ps_difficulty = sd_difficulty s,
       ps_cumulative_difficulty = sd_cumulative s, ps_merkle_proof = sd_proof s, ps_aux = aux, ps_aux_raw = aux_raw,
       ps_extra_buf = extra_buf,
       ps_hashing_blob = take header_size data @ tx_root @ write_varint (1 + length tx_hashes),
       ps_wallet = hex_of (sd_keys s ! 0) @ hex_of (sd_keys s ! 1) \<rparr>))))))))))"

definition verify_share_pow :: "parsed_share \<Rightarrow> pow_backend \<Rightarrow> bytes \<Rightarrow> bool" where
  "verify_share_pow share pow seed_hash =
     check_hash (pow (ps_hashing_blob share) (int (ps_txin_gen_height share)) seed_hash) (int (ps_difficulty share))"

definition transpeer_aux :: "parsed_share \<Rightarrow> bytes \<Rightarrow> bytes option" where
  "transpeer_aux share cid = map_option fst (dget (ps_aux share) cid)"

definition share_id_of :: "bytes \<Rightarrow> bytes \<Rightarrow> bytes result" where
  "share_id_of data consensus_id = bindR (parse_share data consensus_id) (\<lambda>s. Inr (ps_id s))"

section \<open>Writing a share\<close>

record share_args =
  sa_major :: nat
  sa_minor :: nat
  sa_timestamp :: nat
  sa_prev_id :: bytes
  sa_nonce :: nat
  sa_txin_gen_height :: nat
  sa_outputs :: "tx_output list"
  sa_tx_pubkey :: bytes
  sa_extra_nonce :: nat
  sa_tx_hashes :: "bytes list"
  sa_spend_pub :: bytes
  sa_view_pub :: bytes
  sa_seed :: bytes
  sa_parent :: bytes
  sa_uncles :: "bytes list"
  sa_height :: nat
  sa_difficulty :: nat
  sa_cumulative :: nat
  sa_aux :: "(bytes, bytes \<times> nat) dict"
  sa_extra_buf :: bytes

text \<open>\<open>bytearray.append\<close>.\<close>

definition one_byte :: "nat \<Rightarrow> bytes result" where
  "one_byte v = (if v < 256 then Inr [word_of_nat v] else Inl (ValueError ''byte must be in range(0, 256)''))"

definition output_bytes :: "tx_output \<Rightarrow> bytes result" where
  "output_bytes o3 = (case o3 of (reward, eph_pub, view_tag) \<Rightarrow> bindR (one_byte view_tag) (\<lambda>t.
     Inr (write_varint reward @ [word_of_nat TXOUT_TO_TAGGED_KEY] @ eph_pub @ t)))"

definition serialize_head :: "share_args \<Rightarrow> bytes result" where
  "serialize_head a =
     bindR (one_byte (sa_major a)) (\<lambda>major. bindR (one_byte (sa_minor a)) (\<lambda>minor.
       Inr (major @ minor @ write_varint (sa_timestamp a) @ sa_prev_id a)))"

definition serialize_input :: "share_args \<Rightarrow> bytes result" where
  "serialize_input a =
     bindR (mapR output_bytes (sa_outputs a)) (\<lambda>outs.
       Inr ([word_of_nat TX_VERSION] @ write_varint (sa_txin_gen_height a + MINER_REWARD_UNLOCK_TIME) @ [1] @
         [word_of_nat SHARE_TXIN_GEN] @ write_varint (sa_txin_gen_height a) @
         write_varint (length (sa_outputs a)) @ concat outs))"

text \<open>\<open>tx_extra\<close> up to the extra nonce, and from the nonce to the root.\<close>

definition extra_prefix :: "share_args \<Rightarrow> bytes" where
  "extra_prefix a = [word_of_nat TX_EXTRA_TAG_PUBKEY] @ sa_tx_pubkey a @ [word_of_nat TX_EXTRA_NONCE] @ write_varint EXTRA_NONCE_SIZE"

definition extra_tree :: "nat \<Rightarrow> bytes result" where
  "extra_tree tree_data = bindR (one_byte (length (write_varint tree_data) + HASH_SIZE)) (\<lambda>l.
     Inr ([word_of_nat TX_EXTRA_MERGE_MINING_TAG] @ l @ write_varint tree_data))"

record main_parts =
  mp_data :: bytes
  mp_nonce_offset :: nat
  mp_header_size :: nat
  mp_extra_nonce_offset :: nat
  mp_root_offset :: nat

definition serialize_mainchain :: "share_args \<Rightarrow> nat \<Rightarrow> bytes \<Rightarrow> main_parts result" where
  "serialize_mainchain a tree_data mroot =
     bindR (serialize_head a) (\<lambda>hd_bytes.
     bindR (to_bytes_le NONCE_SIZE (sa_nonce a)) (\<lambda>nonce.
     bindR (serialize_input a) (\<lambda>input.
     bindR (to_bytes_le EXTRA_NONCE_SIZE (sa_extra_nonce a)) (\<lambda>extra_nonce.
     bindR (extra_tree tree_data) (\<lambda>tree.
       let tx_extra = extra_prefix a @ extra_nonce @ tree @ mroot;
           before = hd_bytes @ nonce @ input @ write_varint (length tx_extra) in
       Inr \<lparr> mp_data = before @ tx_extra @ [0] @ write_varint (length (sa_tx_hashes a)) @ concat (sa_tx_hashes a),
             mp_nonce_offset = length hd_bytes, mp_header_size = length hd_bytes + length nonce,
             mp_extra_nonce_offset = length before + length (extra_prefix a),
             mp_root_offset = length before + length (extra_prefix a) + length extra_nonce + length tree \<rparr>)))))"

definition wide_bytes :: "nat \<Rightarrow> bytes" where
  "wide_bytes v = write_varint (v mod 2 ^ 64) @ write_varint (v div 2 ^ 64)"

definition serialize_aux :: "(bytes, bytes) dict \<Rightarrow> bytes" where
  "serialize_aux aux_raw = write_varint (length aux_raw) @
     concat (map (\<lambda>(cid, t). cid @ write_varint (length t) @ t) (sort_key fst aux_raw))"

definition serialize_sidechain :: "share_args \<Rightarrow> bytes list \<Rightarrow> (bytes, bytes) dict \<Rightarrow> bytes result" where
  "serialize_sidechain a pf aux_raw =
     bindR (one_byte (length pf)) (\<lambda>n.
       Inr (sa_spend_pub a @ sa_view_pub a @ sa_seed a @ sa_parent a @
         write_varint (length (sa_uncles a)) @ concat (sa_uncles a) @ write_varint (sa_height a) @
         wide_bytes (sa_difficulty a) @ wide_bytes (sa_cumulative a) @ n @ concat pf @
         serialize_aux aux_raw @ sa_extra_buf a))"

definition aux_raw_of :: "share_args \<Rightarrow> (bytes, bytes) dict" where
  "aux_raw_of a = map (\<lambda>(cid, h, d). (cid, h @ wide_bytes d)) (sa_aux a)"

text \<open>The leaves of the auxiliary tree, the share's own one to be filled in.\<close>

definition aux_leaves :: "bytes \<Rightarrow> nat \<Rightarrow> nat \<Rightarrow> bytes \<Rightarrow> (bytes, bytes \<times> nat) dict \<Rightarrow> bytes list" where
  "aux_leaves consensus_id aux_nonce n own aux =
     fold (\<lambda>(cid, leaf) ls. ls[aux_slot cid aux_nonce n := leaf])
       ((consensus_id, own) # map (\<lambda>(cid, h, d). (cid, h)) aux) (replicate n [])"

definition build_share :: "bytes \<Rightarrow> share_args \<Rightarrow> bytes result" where
  "build_share consensus_id a =
     (let chain_ids = consensus_id # dkeys (sa_aux a); n = length chain_ids in
      bindR (if n > 1 then find_aux_nonce chain_ids else Inr 0) (\<lambda>aux_nonce.
      let tree_data = encode_tree_params n aux_nonce;
          placeholder = keccak256 (map (\<lambda>c. word_of_nat (of_char c)) ''share-id-placeholder'' @ consensus_id) in
      bindR (if n = 1 then Inr [] else
               (case merkle_proof (merkle_tree (aux_leaves consensus_id aux_nonce n placeholder (sa_aux a))) placeholder of
                  None \<Rightarrow> Inl (ValueError ''failed to build aux merkle proof'') | Some (pf, path) \<Rightarrow> Inr pf)) (\<lambda>pf.
      bindR (serialize_mainchain a tree_data (replicate HASH_SIZE 0)) (\<lambda>m.
      bindR (serialize_sidechain a pf (aux_raw_of a)) (\<lambda>side.
      let share_id = share_id_from (mp_data m @ side) (mp_nonce_offset m) (mp_extra_nonce_offset m) (mp_root_offset m) consensus_id in
      bindR (if n = 1 then Inr share_id
             else (case merkle_root (aux_leaves consensus_id aux_nonce n share_id (sa_aux a)) of
                     None \<Rightarrow> Inl (TypeError ''can't concat NoneType to bytes'') | Some r \<Rightarrow> Inr r)) (\<lambda>mroot.
      bindR (serialize_mainchain a tree_data mroot) (\<lambda>m. Inr (mp_data m @ side))))))))"

fun mine_from :: "bytes \<Rightarrow> share_args \<Rightarrow> pow_backend \<Rightarrow> nat list \<Rightarrow> bytes result" where
  "mine_from consensus_id a pow [] = Inl (ValueError ''exhausted nonces without meeting difficulty'')"
| "mine_from consensus_id a pow (n # ns) =
     bindR (build_share consensus_id (a\<lparr> sa_nonce := n \<rparr>)) (\<lambda>raw.
     bindR (parse_share raw consensus_id) (\<lambda>share.
       if verify_share_pow share pow (replicate 32 0) then Inr raw else mine_from consensus_id a pow ns))"

definition mine_share :: "bytes \<Rightarrow> share_args \<Rightarrow> pow_backend \<Rightarrow> nat \<Rightarrow> bytes result" where
  "mine_share consensus_id a pow max_nonce = mine_from consensus_id a pow [sa_nonce a..<max_nonce]"

section \<open>Backends\<close>

definition sha256_pow :: pow_backend where
  "sha256_pow blob height seed_hash = sha256 blob"

text \<open>RandomX is third-party: \<open>randomx\<close> is its module when it is installed.\<close>

definition randomx_backend :: "(bytes \<Rightarrow> bytes \<Rightarrow> bytes) option \<Rightarrow> pow_backend result" where
  "randomx_backend randomx = (case randomx of
     None \<Rightarrow> Inl (RuntimeError ''RandomX binding not installed'')
   | Some rx \<Rightarrow> Inr (\<lambda>blob height seed_hash. rx seed_hash blob))"

definition backend_for :: "bool \<Rightarrow> (bytes \<Rightarrow> bytes \<Rightarrow> bytes) option \<Rightarrow> pow_backend result" where
  "backend_for anchor_sim_pow randomx = (if anchor_sim_pow then Inr sha256_pow else randomx_backend randomx)"

fun mine_blob_from :: "(nat \<Rightarrow> bytes) \<Rightarrow> int \<Rightarrow> pow_backend \<Rightarrow> int \<Rightarrow> bytes \<Rightarrow> nat list \<Rightarrow> (nat \<times> bytes) result" where
  "mine_blob_from make_blob difficulty pow height seed_hash [] = Inl (ValueError ''exhausted nonces without meeting difficulty'')"
| "mine_blob_from make_blob difficulty pow height seed_hash (n # ns) =
     (if check_hash (pow (make_blob n) height seed_hash) difficulty then Inr (n, make_blob n)
      else mine_blob_from make_blob difficulty pow height seed_hash ns)"

definition mine_blob :: "(nat \<Rightarrow> bytes) \<Rightarrow> int \<Rightarrow> pow_backend \<Rightarrow> int \<Rightarrow> bytes \<Rightarrow> nat \<Rightarrow> (nat \<times> bytes) result" where
  "mine_blob make_blob difficulty pow height seed_hash max_nonce =
     mine_blob_from make_blob difficulty pow height seed_hash [0..<max_nonce]"

end
