(* ===== verification/ShareTypes.thy ===== *)
theory ShareTypes
  imports Share
begin

text \<open>
  The type of a parsed share: what the parser promises of every share it returns, and with it the shares it refuses.
\<close>

definition hash32 :: "bytes \<Rightarrow> bool" where
  "hash32 b \<longleftrightarrow> length b = 32"

text \<open>The main-chain half and the side-chain half.\<close>

definition main_typed :: "parsed_share \<Rightarrow> bool" where
  "main_typed s \<longleftrightarrow> ps_major s \<le> HARDFORK_SUPPORTED_VERSION \<and> ps_major s \<le> ps_minor s \<and> ps_minor s \<le> 127 \<and>
     hash32 (ps_prev_id s) \<and> ps_nonce s < 2 ^ 32 \<and> ps_txin_gen_height s \<le> CRYPTONOTE_MAX_BLOCK_NUMBER - MINER_REWARD_UNLOCK_TIME \<and>
     list_all (\<lambda>(reward, pub, tag). reward \<le> MAX_OUTPUT_VALUE \<and> hash32 pub \<and> tag < 256) (ps_outputs s) \<and>
     BASE_BLOCK_REWARD \<le> sum_list (map fst (ps_outputs s)) \<and> sum_list (map fst (ps_outputs s)) < 2 ^ 64 \<and>
     hash32 (ps_tx_pubkey s) \<and> ps_extra_nonce s < 2 ^ 32 \<and> hash32 (ps_merkle_root s) \<and>
     list_all hash32 (ps_tx_hashes s) \<and> length (ps_tx_hashes s) \<le> MAX_BLOCK_SIZE div HASH_SIZE"

definition side_typed :: "parsed_share \<Rightarrow> bool" where
  "side_typed s \<longleftrightarrow> hash32 (ps_spend_pub s) \<and> hash32 (ps_view_pub s) \<and> hash32 (ps_txkey_sec_seed s) \<and> hash32 (ps_parent s) \<and>
     list_all hash32 (ps_uncles s) \<and> length (ps_uncles s) \<le> MAX_UNCLES_PER_BLOCK \<and> ps_height s \<le> MAX_SIDECHAIN_HEIGHT \<and>
     ps_difficulty s \<le> ps_cumulative_difficulty s \<and> ps_cumulative_difficulty s \<le> MAX_CUMULATIVE_DIFFICULTY \<and>
     list_all hash32 (ps_merkle_proof s) \<and> length (ps_merkle_proof s) \<le> LOG2_MERGE_MINING_MAX_CHAINS \<and>
     list_all hash32 (dkeys (ps_aux s)) \<and> sorted_wrt (<) (dkeys (ps_aux s)) \<and> dkeys (ps_aux_raw s) = dkeys (ps_aux s) \<and>
     length (ps_aux s) \<le> MERGE_MINING_MAX_CHAINS \<and> length (ps_extra_buf s) = 16"

lemma rd_byte_Inr: "rd_byte data pos = Inr (v, p) \<Longrightarrow> v < 256"
  by (auto simp: rd_byte_def split: if_splits)

lemma rd_buf_Inr: "rd_buf n data pos = Inr (v, p) \<Longrightarrow> length v = n \<and> p = pos + n \<and> p \<le> length data + (pos - length data)"
  by (auto simp: rd_buf_def remaining_def slice_def split: if_splits)

lemma rd_many_Inr: "rd_many rd n data pos = Inr (vs, p) \<Longrightarrow> (\<And>pos v p. rd data pos = Inr (v, p) \<Longrightarrow> P v) \<Longrightarrow>
    length vs = n \<and> list_all P vs"
proof (induction n arbitrary: pos vs p)
  case (Suc n)
  from Suc.prems(1) obtain v q ws where "rd data pos = Inr (v, q)" "rd_many rd n data q = Inr (ws, p)" "vs = v # ws"
    by (auto simp: bindR_Inr_conv)
  with Suc.IH [of q ws p] Suc.prems(2) show ?case by auto
qed simp

lemma rd_hashes_Inr: "rd_many (rd_buf HASH_SIZE) n data pos = Inr (vs, p) \<Longrightarrow> length vs = n \<and> list_all hash32 vs"
  by (rule rd_many_Inr) (auto simp: hash32_def HASH_SIZE_def dest: rd_buf_Inr)

lemma le_val_4: "length b = 4 \<Longrightarrow> le_val b < 4294967296"
  using le_val_bound [of b] by simp

lemma parse_head_Inr:
  assumes "parse_head data = Inr (major, minor, ts, prev, off, nonce, hs)"
  shows "major \<le> HARDFORK_SUPPORTED_VERSION \<and> major \<le> minor \<and> minor \<le> 127 \<and> hash32 prev \<and> nonce < 2 ^ 32"
  using assms by (auto simp: parse_head_def bindR_Inr_conv hash32_def HASH_SIZE_def NONCE_SIZE_def split: if_splits
      dest!: rd_buf_Inr intro: le_val_4)

lemma parse_input_Inr:
  "parse_input data pos = Inr (h, p) \<Longrightarrow> h \<le> CRYPTONOTE_MAX_BLOCK_NUMBER - MINER_REWARD_UNLOCK_TIME"
  by (auto simp: parse_input_def bindR_Inr_conv split: if_splits)

lemma parse_outputs_from_Inr:
  "parse_outputs_from n tot data pos = Inr ((outs, t), p) \<Longrightarrow> tot < 2 ^ 64 \<Longrightarrow>
     list_all (\<lambda>(reward, pub, tag). reward \<le> MAX_OUTPUT_VALUE \<and> hash32 pub \<and> tag < 256) outs \<and>
     t = tot + sum_list (map fst outs) \<and> t < 2 ^ 64"
proof (induction n arbitrary: tot pos outs)
  case (Suc n)
  from Suc.prems(1) obtain reward p1 p2 pub p3 tag p4 os where
    s: "\<not> reward > MAX_OUTPUT_VALUE" "\<not> tot + reward \<ge> 2 ^ 64" "rd_buf HASH_SIZE data p2 = Inr (pub, p3)"
      "rd_byte data p3 = Inr (tag, p4)" "parse_outputs_from n (tot + reward) data p4 = Inr ((os, t), p)"
      "outs = (reward, pub, tag) # os"
    by (auto simp: bindR_Inr_conv split: if_splits)
  have "tot + reward < 2 ^ 64" using s(2) by simp
  from Suc.IH [OF s(5) this] s rd_buf_Inr [OF s(3)] rd_byte_Inr [OF s(4)] show ?case
    by (simp add: hash32_def HASH_SIZE_def)
qed simp

lemma parse_outputs_Inr:
  assumes "parse_outputs data pos = Inr (outs, p)"
  shows "list_all (\<lambda>(reward, pub, tag). reward \<le> MAX_OUTPUT_VALUE \<and> hash32 pub \<and> tag < 256) outs \<and>
     BASE_BLOCK_REWARD \<le> sum_list (map fst outs) \<and> sum_list (map fst outs) < 2 ^ 64"
proof -
  from assms obtain n p1 t where "parse_outputs_from n 0 data p1 = Inr ((outs, t), p)" "\<not> t < BASE_BLOCK_REWARD"
    by (auto simp: parse_outputs_def bindR_Inr_conv split: if_splits)
  with parse_outputs_from_Inr [OF this(1)] show ?thesis by simp
qed

lemma parse_extra_Inr:
  "parse_extra data pos = Inr (x, p) \<Longrightarrow> hash32 (ef_tx_pubkey x) \<and> ef_extra_nonce x < 2 ^ 32 \<and> hash32 (ef_root x)"
  by (auto simp: parse_extra_def bindR_Inr_conv hash32_def HASH_SIZE_def EXTRA_NONCE_SIZE_def split: if_splits
      dest!: rd_buf_Inr intro: le_val_4)

lemma parse_tx_hashes_Inr:
  "parse_tx_hashes data pos = Inr (hs, p) \<Longrightarrow> list_all hash32 hs \<and> length hs \<le> MAX_BLOCK_SIZE div HASH_SIZE"
  by (auto simp: parse_tx_hashes_def bindR_Inr_conv split: if_splits dest!: rd_hashes_Inr)

lemma parse_uncles_Inr:
  "parse_uncles data pos = Inr (us, p) \<Longrightarrow> list_all hash32 us \<and> length us \<le> MAX_UNCLES_PER_BLOCK"
  by (auto simp: parse_uncles_def bindR_Inr_conv split: if_splits dest!: rd_hashes_Inr)

lemma parse_side_Inr:
  assumes "parse_side data pos = Inr (s, p)"
  shows "length (sd_keys s) = 4 \<and> list_all hash32 (sd_keys s) \<and> list_all hash32 (sd_uncles s) \<and>
     length (sd_uncles s) \<le> MAX_UNCLES_PER_BLOCK \<and> sd_height s \<le> MAX_SIDECHAIN_HEIGHT \<and> sd_difficulty s \<le> sd_cumulative s \<and>
     sd_cumulative s \<le> MAX_CUMULATIVE_DIFFICULTY \<and> list_all hash32 (sd_proof s) \<and> length (sd_proof s) \<le> LOG2_MERGE_MINING_MAX_CHAINS"
  using assms by (auto simp: parse_side_def bindR_Inr_conv split: if_splits dest!: rd_hashes_Inr parse_uncles_Inr)

lemma parse_aux_from_Inr:
  "parse_aux_from n prev aux raw data pos = Inr ((aux', raw'), p) \<Longrightarrow>
   list_all hash32 (dkeys aux) \<Longrightarrow> sorted_wrt (<) (dkeys aux) \<Longrightarrow> dkeys raw = dkeys aux \<Longrightarrow>
   (case prev of None \<Rightarrow> aux = [] | Some q \<Rightarrow> \<forall>c \<in> set (dkeys aux). c \<le> q) \<Longrightarrow>
     list_all hash32 (dkeys aux') \<and> sorted_wrt (<) (dkeys aux') \<and> dkeys raw' = dkeys aux' \<and> length aux' = length aux + n"
proof (induction n arbitrary: prev aux raw pos)
  case (Suc n)
  from Suc.prems(1) obtain cid p1 m p2 t p3 e where
    s: "rd_buf HASH_SIZE data pos = Inr (cid, p1)" "\<not> (case prev of None \<Rightarrow> False | Some q \<Rightarrow> \<not> q < cid)"
      "parse_aux_from n (Some cid) (dput cid e aux) (dput cid t raw) data p3 = Inr ((aux', raw'), p)"
    by (auto simp: bindR_Inr_conv split: if_splits)
  have lt: "c < cid" if "c \<in> set (dkeys aux)" for c
  proof (cases prev)
    case None
    with Suc.prems(5) that show ?thesis by simp
  next
    case (Some q)
    with Suc.prems(5) that s(2) show ?thesis by (auto intro: le_less_trans)
  qed
  then have "cid \<notin> set (dkeys aux)" by blast
  moreover from this have "cid \<notin> set (dkeys raw)" using Suc.prems(4) by simp
  ultimately have new: "dput cid e aux = aux @ [(cid, e)]" "dput cid t raw = raw @ [(cid, t)]"
    by (auto intro!: dput_new simp: map_of_eq_None_iff)
  have "list_all hash32 (dkeys aux') \<and> sorted_wrt (<) (dkeys aux') \<and> dkeys raw' = dkeys aux' \<and> length aux' = length (dput cid e aux) + n"
    by (rule Suc.IH [OF s(3)])
      (use Suc.prems rd_buf_Inr [OF s(1)] lt in \<open>auto simp: new hash32_def HASH_SIZE_def sorted_wrt_append intro: less_imp_le\<close>)
  then show ?case by (simp add: new)
qed simp

lemma parse_aux_Inr:
  assumes "parse_aux data pos = Inr ((aux, raw), p)"
  shows "list_all hash32 (dkeys aux) \<and> sorted_wrt (<) (dkeys aux) \<and> dkeys raw = dkeys aux \<and> length aux \<le> MERGE_MINING_MAX_CHAINS"
proof -
  from assms obtain n q where "n = 0 \<and> aux = [] \<and> raw = [] \<or>
      n \<le> MERGE_MINING_MAX_CHAINS \<and> parse_aux_from n None [] [] data q = Inr ((aux, raw), p)"
    by (auto simp: parse_aux_def bindR_Inr_conv not_less split: if_splits)
  then show ?thesis
  proof
    assume "n \<le> MERGE_MINING_MAX_CHAINS \<and> parse_aux_from n None [] [] data q = Inr ((aux, raw), p)"
    then show ?thesis using parse_aux_from_Inr [of n None "[]" "[]" data q aux raw p] by simp
  qed simp
qed

lemma decode_tree_params_range: "decode_tree_params v = (n, nonce) \<Longrightarrow> 1 \<le> n \<and> n \<le> 256 \<and> nonce < 2 ^ 32"
proof -
  assume a: "decode_tree_params v = (n, nonce)"
  let ?b = "1 + v mod 2 ^ 32 mod 8"
  have "v mod 2 ^ 32 mod 8 < 8" by simp
  then have "?b \<le> 8" by linarith
  then have "(2::nat) ^ ?b \<le> 2 ^ 8" by (rule power_increasing) simp
  moreover have "v mod 2 ^ 32 div 8 mod 2 ^ ?b < 2 ^ ?b" by simp
  ultimately have "v mod 2 ^ 32 div 8 mod 2 ^ ?b < 2 ^ 8" by (rule less_le_trans [rotated])
  then have "v mod 2 ^ 32 div 8 mod 2 ^ ?b < 256" by (simp only: power_numeral) simp
  moreover have "n = 1 + v mod 2 ^ 32 div 8 mod 2 ^ ?b" "nonce < 2 ^ 32" using a by (auto simp: decode_tree_params_def Let_def)
  ultimately show ?thesis by linarith
qed

lemma parse_share_Inr:
  assumes "parse_share data cid = Inr s"
  shows "main_typed s \<and> side_typed s \<and> ps_raw s = data \<and> hash32 (ps_id s) \<and> 1 \<le> ps_n_aux_chains s \<and> ps_n_aux_chains s \<le> 256 \<and>
     length data \<le> MAX_BLOCK_SIZE \<and>
     verify_proof_by_index (ps_id s) (ps_merkle_proof s) (aux_slot cid (ps_aux_nonce s) (ps_n_aux_chains s)) (ps_n_aux_chains s) (ps_merkle_root s)"
proof -
  have size: "length data \<le> MAX_BLOCK_SIZE" using assms by (auto simp: parse_share_def split: if_splits)
  then have small: "\<not> length data > MAX_BLOCK_SIZE" by simp
  note P = assms [unfolded parse_share_def if_not_P [OF small]]
  obtain major minor ts prev off nonce hs where hd: "parse_head data = Inr (major, minor, ts, prev, off, nonce, hs)"
    using P by (cases "parse_head data") auto
  note P = P [unfolded hd bindR_simps prod.case]
  obtain h p1 where inp: "parse_input data hs = Inr (h, p1)" using P by (cases "parse_input data hs") auto
  note P = P [unfolded inp bindR_simps prod.case]
  obtain outs p2 where out: "parse_outputs data p1 = Inr (outs, p2)" using P by (cases "parse_outputs data p1") auto
  note P = P [unfolded out bindR_simps prod.case]
  obtain x p3 where ext: "parse_extra data p2 = Inr (x, p3)" using P by (cases "parse_extra data p2") auto
  note P = P [unfolded ext bindR_simps prod.case]
  obtain txs p4 where tx: "parse_tx_hashes data p3 = Inr (txs, p4)" using P by (cases "parse_tx_hashes data p3") auto
  note P = P [unfolded tx bindR_simps prod.case]
  obtain sd p5 where side: "parse_side data p4 = Inr (sd, p5)" using P by (cases "parse_side data p4") auto
  note P = P [unfolded side bindR_simps prod.case]
  obtain aux raw p6 where aux: "parse_aux data p5 = Inr ((aux, raw), p6)" using P by (cases "parse_aux data p5") auto
  note P = P [unfolded aux bindR_simps prod.case]
  obtain eb p7 where buf: "rd_buf 16 data p6 = Inr (eb, p7)" using P by (cases "rd_buf 16 data p6") auto
  note P = P [unfolded buf bindR_simps prod.case Let_def]
  obtain n an where tp: "decode_tree_params (ef_tree_data x) = (n, an)" by fastforce
  note P = P [unfolded tp prod.case]
  have p7: "p7 = length data" using P by (cases "p7 = length data") simp_all
  have v: "verify_proof_by_index (share_id_from data off (ef_extra_nonce_offset x) (ef_root_offset x) cid)
      (sd_proof sd) (aux_slot cid an n) n (ef_root x)"
    using P p7 by (auto split: if_splits)
  obtain t where t: "tree_hash (miner_tx_hash (slice data hs p3) # txs) = Inr t"
    using P p7 v by (cases "tree_hash (miner_tx_hash (slice data hs p3) # txs)") auto
  note s = P [unfolded t bindR_simps]
  have "sd_keys sd ! i \<in> set (sd_keys sd)" if "i < 4" for i using parse_side_Inr [OF side] that by simp
  then have keys: "hash32 (sd_keys sd ! 0)" "hash32 (sd_keys sd ! 1)" "hash32 (sd_keys sd ! 2)" "hash32 (sd_keys sd ! 3)"
    using parse_side_Inr [OF side] by (simp_all add: list_all_iff)
  have 1: "main_typed s"
    using s p7 v parse_head_Inr [OF hd] parse_input_Inr [OF inp] parse_outputs_Inr [OF out] parse_extra_Inr [OF ext]
      parse_tx_hashes_Inr [OF tx] unfolding main_typed_def by (simp, clarsimp)
  have 2: "side_typed s"
    using s p7 v keys parse_side_Inr [OF side] parse_aux_Inr [OF aux] rd_buf_Inr [OF buf] unfolding side_typed_def
    by (simp, clarsimp)
  have 3: "ps_raw s = data" "ps_id s = share_id_from data off (ef_extra_nonce_offset x) (ef_root_offset x) cid"
    "ps_n_aux_chains s = n" "ps_aux_nonce s = an" "ps_merkle_proof s = sd_proof sd" "ps_merkle_root s = ef_root x"
    using s p7 v by (simp_all, clarsimp+)
  have 4: "hash32 (ps_id s)" unfolding 3 by (simp add: hash32_def share_id_from_def)
  show ?thesis using 1 2 3 4 v size decode_tree_params_range [OF tp] by simp
qed

section \<open>Refusals\<close>

definition share_err :: "'a result \<Rightarrow> bool" where
  "share_err r \<longleftrightarrow> (\<forall>e. r = Inl e \<longrightarrow> (\<exists>m. e = ShareError m))"

lemma share_err_Inr: "share_err (Inr x)" and share_err_Inl: "share_err (Inl (ShareError m))"
  by (simp_all add: share_err_def)

lemma share_err_bind: "share_err r \<Longrightarrow> (\<And>x. share_err (f x)) \<Longrightarrow> share_err (bindR r f)"
  by (auto simp: share_err_def bindR_Inl_conv)

lemma share_err_if: "share_err a \<Longrightarrow> share_err b \<Longrightarrow> share_err (if c then a else b)"
  by simp

lemma share_err_prod: "(\<And>a b. share_err (f a b)) \<Longrightarrow> share_err (case_prod f x)"
  by (cases x) simp

lemma share_err_prod2: "(\<And>a b. share_err (f a b y)) \<Longrightarrow> share_err (case_prod f x y)"
  by (cases x) simp

lemmas share_errs = share_err_Inr share_err_Inl share_err_bind share_err_if share_err_prod share_err_prod2

lemma share_err_readers:
  "share_err (rd_byte data pos)" "share_err (rd_buf n data pos)" "share_err (rd_varint data pos)" "share_err (rd_expect v w data pos)"
  by (auto simp: share_err_def rd_byte_def rd_buf_def rd_varint_def rd_expect_def split: sum.splits)

lemma share_err_many: "(\<And>pos. share_err (rd data pos)) \<Longrightarrow> share_err (rd_many rd n data pos)"
  by (induction n arbitrary: pos) (auto intro!: share_errs)

lemma share_err_zeros: "share_err (skip_zeros n data pos)"
  by (induction n arbitrary: pos) (auto intro!: share_errs share_err_readers)

lemma share_err_outputs_from: "share_err (parse_outputs_from n tot data pos)"
  by (induction n arbitrary: tot pos) (auto intro!: share_errs share_err_readers)

lemma share_err_entry: "share_err (aux_entry cid t)"
  by (auto simp: share_err_def aux_entry_def split: sum.splits if_splits)

lemma share_err_aux_from: "share_err (parse_aux_from n prev aux raw data pos)"
  by (induction n arbitrary: prev aux raw pos) (auto intro!: share_errs share_err_readers share_err_entry)

lemma share_err_parts:
  "share_err (parse_head data)" "share_err (parse_input data pos)" "share_err (parse_outputs data pos)"
  "share_err (parse_extra data pos)" "share_err (parse_tx_hashes data pos)" "share_err (parse_side data pos)"
  "share_err (parse_aux data pos)"
  unfolding parse_head_def parse_input_def parse_outputs_def parse_extra_def parse_tx_hashes_def parse_side_def parse_uncles_def
    parse_aux_def rd_wide_def
  by (intro share_errs share_err_readers share_err_many share_err_zeros share_err_outputs_from share_err_aux_from)+

lemma share_err_parse_share: "share_err (parse_share data cid)"
proof -
  have "share_err (tree_hash (h # hs))" for h hs by (simp add: share_err_def tree_hash_def Let_def)
  then show ?thesis unfolding parse_share_def Let_def
    by (intro share_errs share_err_parts share_err_readers)
qed

text \<open>C23. The parser of a share returns either a share of the type its fields promise - sizes, bounds and order of every
  field, the auxiliary proof verified, the bytes kept - or a \<open>ShareError\<close>, whatever bytes it is given.\<close>

theorem parsed_share_typed:
  "case parse_share data cid of
     Inl e \<Rightarrow> \<exists>m. e = ShareError m
   | Inr s \<Rightarrow> main_typed s \<and> side_typed s \<and> ps_raw s = data \<and> hash32 (ps_id s) \<and> 1 \<le> ps_n_aux_chains s \<and> ps_n_aux_chains s \<le> 256 \<and>
       length data \<le> MAX_BLOCK_SIZE \<and>
       verify_proof_by_index (ps_id s) (ps_merkle_proof s) (aux_slot cid (ps_aux_nonce s) (ps_n_aux_chains s))
         (ps_n_aux_chains s) (ps_merkle_root s)"
  using share_err_parse_share [of data cid] parse_share_Inr [of data cid]
  by (cases "parse_share data cid") (simp_all add: share_err_def)

end
