(* ===== verification/AuxTree.thy ===== *)
theory AuxTree
  imports Share
begin

text \<open>
  The proof by index and count of a share against the auxiliary tree it was built from: the siblings of a leaf do
  not depend on the leaf, so the proof made with a placeholder is the proof of the share's own id.
\<close>

lemma node_hash_pair: "node_hash i (L ! sibling_index i) (L ! i) = pair_hash L (i div 2)"
  unfolding node_hash_def by (rule pair_hash_step)

lemma root_loop_siblings:
  "length L = 2 ^ d \<Longrightarrow> i < 2 ^ d \<Longrightarrow> root_loop (2 ^ d) (siblings d L i) i (L ! i) = Some (tree_top d L)"
proof (induction d arbitrary: L i)
  case 0
  then show ?case by (subst root_loop.simps) simp
next
  case (Suc d)
  let ?L = "map (pair_hash L) [0..<2 ^ d]"
  have i2: "i div 2 < 2 ^ d" using Suc.prems by auto
  have "root_loop (2 ^ Suc d) (siblings (Suc d) L i) i (L ! i) =
      root_loop (2 ^ d) (siblings d ?L (i div 2)) (i div 2) (node_hash i (L ! sibling_index i) (L ! i))"
    by (subst root_loop.simps) simp
  also have "\<dots> = root_loop (2 ^ d) (siblings d ?L (i div 2)) (i div 2) (?L ! (i div 2))"
    using i2 by (simp add: node_hash_pair)
  also have "\<dots> = Some (tree_top d ?L)" by (rule Suc.IH) (use i2 in simp_all)
  finally show ?case by simp
qed

text \<open>Two levels that agree away from one node have the same siblings of that node.\<close>

definition same_but :: "nat \<Rightarrow> bytes list \<Rightarrow> bytes list \<Rightarrow> bool" where
  "same_but i L M \<longleftrightarrow> length L = length M \<and> (\<forall>j < length L. j \<noteq> i \<longrightarrow> L ! j = M ! j)"

lemma sibling_index_other: "sibling_index i \<noteq> i" "sibling_index i div 2 = i div 2"
  by (auto simp: sibling_index_def elim!: evenE oddE)

lemma same_but_pairs:
  assumes "same_but i L M" "length L = 2 * n"
  shows "same_but (i div 2) (map (pair_hash L) [0..<n]) (map (pair_hash M) [0..<n])"
  using assms by (fastforce simp: same_but_def pair_hash_def)

lemma siblings_same_but: "same_but i L M \<Longrightarrow> length L = 2 ^ d \<Longrightarrow> i < 2 ^ d \<Longrightarrow> siblings d L i = siblings d M i"
proof (induction d arbitrary: L M i)
  case (Suc d)
  have "L ! sibling_index i = M ! sibling_index i"
    using Suc.prems sibling_index_bound [of i "2 ^ d"] sibling_index_other(1) [of i] by (simp add: same_but_def)
  moreover have "siblings d (map (pair_hash L) [0..<2 ^ d]) (i div 2) = siblings d (map (pair_hash M) [0..<2 ^ d]) (i div 2)"
    by (rule Suc.IH) (use Suc.prems same_but_pairs [of i L M "2 ^ d"] in auto)
  ultimately show ?case by simp
qed simp

lemma same_but_first_level:
  assumes s: "same_but i hs gs" and d: "2 ^ d \<le> length hs" "length hs < 2 ^ Suc d" and i: "i < length hs"
  defines "k \<equiv> 2 ^ d * 2 - length hs"
  shows "same_but (if i < k then i else (i - k) div 2 + k) (first_level k hs) (first_level k gs)"
proof -
  have l: "length gs = length hs" using s by (simp add: same_but_def)
  note F = first_level_facts [OF d, folded k_def]
  note G = first_level_facts [of d gs, unfolded l, OF d, folded k_def]
  obtain m where m: "length hs - k = 2 * m" using F(4) by (rule evenE)
  have km: "k + m = 2 ^ d" using m F(3) d by (simp add: k_def)
  show ?thesis unfolding same_but_def
  proof (intro conjI allI impI)
    show "length (first_level k hs) = length (first_level k gs)" using F(1) G(1) by simp
    fix j assume j: "j < length (first_level k hs)" and ne: "j \<noteq> (if i < k then i else (i - k) div 2 + k)"
    show "first_level k hs ! j = first_level k gs ! j"
    proof (cases "j < k")
      case True
      then have "j \<noteq> i" using ne by auto
      with True F(3) F(5) [OF True] G(5) [OF True] s show ?thesis by (simp add: same_but_def)
    next
      case False
      then obtain a where a: "j = k + a" by (metis le_Suc_ex not_less)
      then have "a < m" using j F(1) km by simp
      then have r: "k + 2 * a + 1 < length hs" using m F(3) by simp
      have "i \<noteq> k + 2 * a" "i \<noteq> k + 2 * a + 1" using ne a by auto
      then have "hs ! (k + 2 * a) = gs ! (k + 2 * a)" "hs ! (k + 2 * a + 1) = gs ! (k + 2 * a + 1)"
        using s r by (simp_all add: same_but_def)
      with F(6) [OF r] G(6) [unfolded l, OF r] a show ?thesis by simp
    qed
  qed
qed

lemma first_level_node:
  assumes d: "2 ^ d \<le> length hs" "length hs < 2 ^ Suc d" and i: "i < length hs"
  defines "k \<equiv> 2 ^ d * 2 - length hs"
  assumes b: "k \<le> i"
  shows "(i - k) div 2 + k < 2 ^ d \<and> sibling_index (i - k) + k < length hs \<and>
    first_level k hs ! ((i - k) div 2 + k) = node_hash (i - k) (hs ! (sibling_index (i - k) + k)) (hs ! i)"
proof -
  note F = first_level_facts [OF d, folded k_def]
  obtain m where m: "length hs - k = 2 * m" using F(4) by (rule evenE)
  define a where "a = i - k"
  then have ia: "i = k + a" using b by simp
  then have "a div 2 < m" using i m by linarith
  then have r: "k + 2 * (a div 2) + 1 < length hs" using m F(3) by linarith
  note N = F(6) [OF r]
  have "node_hash a (hs ! (k + sibling_index a)) (hs ! (k + a)) = first_level k hs ! (k + a div 2) \<and> k + sibling_index a < length hs"
  proof (cases "even a")
    case True
    then obtain c where "a = 2 * c" by (rule evenE)
    with N r show ?thesis by (simp add: node_hash_def sibling_index_def)
  next
    case False
    then obtain c where "a = 2 * c + 1" by (rule oddE)
    with N r show ?thesis by (simp add: node_hash_def sibling_index_def)
  qed
  with N show ?thesis unfolding a_def [symmetric] by (simp add: ia add.commute)
qed

lemma index_of_first:
  assumes "i < length hs" "hs ! i = x" "\<And>j. j < length hs \<Longrightarrow> j \<noteq> i \<Longrightarrow> hs ! j \<noteq> x"
  shows "index_of x hs = Some i"
proof -
  have "index_of x hs \<noteq> None" using assms(1,2) by (auto simp: index_of_None)
  then obtain j where j: "index_of x hs = Some j" by blast
  with index_of_Some [OF j] assms show ?thesis by blast
qed

lemma siblings_length_32:
  "\<forall>h \<in> set L. length h = 32 \<Longrightarrow> length L = 2 ^ d \<Longrightarrow> i < 2 ^ d \<Longrightarrow> \<forall>b \<in> set (siblings d L i). length b = 32"
proof (induction d arbitrary: L i)
  case (Suc d)
  have "L ! sibling_index i \<in> set L" using Suc.prems sibling_index_bound [of i "2 ^ d"] by simp
  moreover have "\<forall>b \<in> set (siblings d (map (pair_hash L) [0..<2 ^ d]) (i div 2)). length b = 32"
    by (rule Suc.IH) (use Suc.prems in \<open>auto simp: pair_hash_def\<close>)
  ultimately show ?case using Suc.prems(1) by simp
qed simp

lemma first_level_length_32:
  "\<forall>h \<in> set hs. length h = 32 \<Longrightarrow> \<forall>h \<in> set (first_level k hs). length h = 32"
  by (auto simp: first_level_def dest: in_set_takeD)

text \<open>
  The proof made for one value at a position of the leaves proves, by the position, whatever value is put there.
\<close>

lemma proof_by_index_replaced:
  assumes i: "i < length hs" and p: "index_of p hs = Some i" and same: "same_but i hs gs"
    and l32: "\<forall>h \<in> set hs. length h = 32" and n: "length hs \<le> 256"
  shows "\<exists>pf path mroot. merkle_proof (merkle_tree hs) p = Some (pf, path) \<and> merkle_root gs = Some mroot \<and>
     root_from_proof_by_index (gs ! i) pf i (length hs) = Some mroot \<and> length pf \<le> 8 \<and> (\<forall>b \<in> set pf. length b = 32)"
proof -
  have l: "length gs = length hs" using same by (simp add: same_but_def)
  consider "length hs = 1" | "length hs = 2" | "2 < length hs" using i by linarith
  then show ?thesis
  proof cases
    case 1
    then show ?thesis using i p l by (simp add: merkle_proof_def merkle_tree_def merkle_root_def root_from_proof_by_index_def)
  next
    case 2
    then have s: "sibling_index i < 2" using i sibling_index_bound [of i 1] by simp
    then have e: "hs ! sibling_index i = gs ! sibling_index i"
      using same 2 sibling_index_other(1) [of i] by (simp add: same_but_def)
    moreover have "hs ! sibling_index i \<in> set hs" using s 2 by simp
    ultimately have e32: "length (gs ! sibling_index i) = 32" using l32 by auto
    have "i = 0 \<or> i = 1" using i 2 by auto
    with 2 p l e e32 show ?thesis
      by (auto simp: merkle_proof_def merkle_tree_def merkle_root_def root_from_proof_by_index_def node_hash_def sibling_index_def)
  next
    case 3
    from merkle_tree_big [OF 3] obtain d where d: "pow2_below (length hs) = 2 ^ d" "2 ^ d \<le> length hs" "length hs < 2 ^ Suc d"
      and t: "merkle_tree hs = hs # first_level (2 ^ d * 2 - length hs) hs #
         merkle_levels (2 ^ d) (first_level (2 ^ d * 2 - length hs) hs)" by blast
    from merkle_tree_big [of gs, unfolded l, OF 3] obtain d' where d': "pow2_below (length hs) = 2 ^ d'"
      and r': "merkle_root gs = Some (tree_top d' (first_level (2 ^ d' * 2 - length hs) gs))" by blast
    have "(2::nat) ^ d = 2 ^ d'" using d(1) d' by simp
    then have dd: "d' = d" using power_inject_exp [of "2::nat" d d'] by simp
    define k where "k = 2 ^ d * 2 - length hs"
    define L where "L = first_level k hs"
    define M where "M = first_level k gs"
    have r: "merkle_root gs = Some (tree_top d M)" using r' by (simp add: dd M_def k_def)
    note S = siblings_parts [OF 3 d t p, folded k_def, folded L_def]
    note F = first_level_facts [OF d(2,3), folded k_def, folded L_def]
    note G = first_level_facts [of d gs, unfolded l, OF d(2,3), folded k_def, folded M_def]
    note B = same_but_first_level [OF same d(2,3) i, folded k_def, folded L_def M_def]
    have d8: "d \<le> 8 \<and> (d = 8 \<longrightarrow> k = length hs)"
    proof -
      have "(2::nat) ^ d \<le> 2 ^ 8" using d(2) n by simp
      then have "d \<le> 8" using power_le_imp_le_exp [of "2::nat" d 8] by simp
      moreover have "k = length hs" if "d = 8" using d(2) n that by (simp add: k_def)
      ultimately show ?thesis by simp
    qed
    have L32: "\<forall>h \<in> set L. length h = 32" unfolding L_def by (rule first_level_length_32 [OF l32])
    show ?thesis
    proof (cases "i < k")
      case True
      have "root_from_proof_by_index (gs ! i) (siblings d M i) i (length hs) = Some (tree_top d M)"
        using root_loop_siblings [OF G(1) S(2) [OF True]] G(5) [OF True] 3 True i
        by (simp add: root_from_proof_by_index_def Let_def d(1) k_def [symmetric] not_le)
      moreover have "siblings d L i = siblings d M i"
        by (rule siblings_same_but) (use B True F(1) S(2) in simp_all)
      ultimately show ?thesis
        using S(1) True r d8 siblings_length_32 [OF L32 F(1) S(2) [OF True]] by simp
    next
      case False
      then have b: "k \<le> i" by simp
      define a where "a = i - k"
      note B1 = S(3) [OF b, folded a_def]
      note G1 = first_level_node [of d gs, unfolded l, OF d(2,3) i, folded k_def, OF b, folded a_def M_def]
      have sib: "hs ! (sibling_index a + k) = gs ! (sibling_index a + k)"
        using same B1 sibling_index_other(1) [of a] b by (auto simp: same_but_def a_def)
      have k3: "\<not> i < k" "length hs \<noteq> 1" "length hs \<noteq> 2" using b 3 by simp_all
      have "root_from_proof_by_index (gs ! i) (hs ! (sibling_index a + k) # siblings d M (a div 2 + k)) i (length hs) = Some (tree_top d M)"
        using root_loop_siblings [OF G(1) G1 [THEN conjunct1]] G1 k3 i b
        by (simp add: root_from_proof_by_index_def Let_def d(1) k_def [symmetric] a_def [symmetric] sib)
      moreover have sl: "siblings d L (a div 2 + k) = siblings d M (a div 2 + k)"
        by (rule siblings_same_but) (use B False F(1) B1 in \<open>simp_all add: a_def\<close>)
      moreover have "d < 8" using d8 i b by (cases "d = 8") auto
      moreover have "length (hs ! (sibling_index a + k)) = 32" using l32 B1 by simp
      ultimately show ?thesis
        using S(1) k3 r siblings_length_32 [OF L32 F(1) B1 [THEN conjunct1]] by (simp add: a_def [symmetric])
    qed
  qed
qed

section \<open>The leaves of a built share\<close>

lemma aux_slot_bound: "0 < n \<Longrightarrow> aux_slot c nonce n < n"
  by (simp add: aux_slot_def)

lemma find_nonce_from_ok: "find_nonce_from ids m = Inr nonce \<Longrightarrow> nonce < 2 ^ 32 \<and> slots_distinct ids nonce"
proof (induction ids m rule: find_nonce_from.induct)
  case (1 ids m)
  then show ?case by (subst (asm) find_nonce_from.simps) (auto split: if_splits)
qed

lemma slots_distinct_conv: "slots_distinct ids nonce \<longleftrightarrow> distinct (map (\<lambda>c. aux_slot c nonce (length ids)) ids)"
  using card_distinct distinct_card unfolding slots_distinct_def by (metis length_map)

lemma length_fold_update [simp]: "length (fold (\<lambda>(c, v) ls. ls[f c := v]) ps ls) = length ls"
  by (induction ps arbitrary: ls) auto

lemma fold_update_other: "j \<notin> (f \<circ> fst) ` set ps \<Longrightarrow> fold (\<lambda>(c, v) ls. ls[f c := v]) ps ls ! j = ls ! j"
  by (induction ps arbitrary: ls) auto

lemma fold_update_hit:
  "distinct (map (f \<circ> fst) ps) \<Longrightarrow> (c, v) \<in> set ps \<Longrightarrow> f c < length ls \<Longrightarrow>
     fold (\<lambda>(c, v) ls. ls[f c := v]) ps ls ! f c = v"
proof (induction ps arbitrary: ls)
  case (Cons p ps)
  obtain c' v' where p: "p = (c', v')" by fastforce
  show ?case
  proof (cases "(c, v) = (c', v')")
    case True
    then have "f c \<notin> (f \<circ> fst) ` set ps" using Cons.prems(1) p by auto
    then show ?thesis using True Cons.prems(3) by (simp add: p fold_update_other)
  next
    case False
    then have "(c, v) \<in> set ps" using Cons.prems(2) p by auto
    then show ?thesis using Cons.IH [of "ls[f c' := v']"] Cons.prems p by simp
  qed
qed simp

lemma distinct_onto:
  assumes "distinct js" "set js \<subseteq> {..<length js}"
  shows "set js = {..<length js}"
  by (rule card_subset_eq) (use assms in \<open>simp_all add: distinct_card\<close>)

lemma aux_leaves_facts:
  assumes d: "slots_distinct (cid # dkeys aux) nonce" and n: "n = length (cid # dkeys aux)"
  defines "i \<equiv> aux_slot cid nonce n"
  shows "length (aux_leaves cid nonce n own aux) = n" "i < n" "aux_leaves cid nonce n own aux ! i = own"
    "same_but i (aux_leaves cid nonce n own aux) (aux_leaves cid nonce n own' aux)"
    "\<And>j. j < n \<Longrightarrow> j \<noteq> i \<Longrightarrow> aux_leaves cid nonce n own aux ! j \<in> (fst \<circ> snd) ` set aux"
proof -
  define f where "f = (\<lambda>c. aux_slot c nonce n)"
  define ps where "ps v = (cid, v) # map (\<lambda>(c, h, d). (c, h)) aux" for v :: bytes
  have A: "aux_leaves cid nonce n v aux = fold (\<lambda>(c, v) ls. ls[f c := v]) (ps v) (replicate n [])" for v
    by (simp add: aux_leaves_def ps_def f_def)
  have m: "map (f \<circ> fst) (ps v) = map f (cid # dkeys aux)" for v
    by (auto simp: ps_def)
  have dis: "distinct (map (f \<circ> fst) (ps v))" for v
    unfolding m using d by (simp add: slots_distinct_conv n f_def)
  have fn: "f c < n" for c by (simp add: f_def aux_slot_bound n)
  show len: "length (aux_leaves cid nonce n own aux) = n" for own by (simp add: A)
  show "i < n" using fn by (simp add: i_def f_def)
  have hit: "aux_leaves cid nonce n v aux ! f c = w" if "(c, w) \<in> set (ps v)" for c v w
    unfolding A by (rule fold_update_hit [OF dis that]) (simp add: fn)
  show "aux_leaves cid nonce n own aux ! i = own" for own
    using hit [of cid own own] by (simp add: ps_def i_def f_def)
  have onto: "set (map (f \<circ> fst) (ps v)) = {..<n}" for v
    using distinct_onto [OF dis, of v] fn by (simp add: ps_def n image_subset_iff)
  have other: "\<exists>h. h \<in> (fst \<circ> snd) ` set aux \<and> (\<forall>v. aux_leaves cid nonce n v aux ! j = h)" if j: "j < n" "j \<noteq> i" for j
  proof -
    have "j \<in> set (map (f \<circ> fst) (ps own))" using onto j by simp
    then obtain c w where c: "(c, w) \<in> set (ps own)" "j = f c" by auto
    with j(2) obtain h dd where h: "(c, h, dd) \<in> set aux" "w = h" by (auto simp: ps_def i_def f_def)
    then have "aux_leaves cid nonce n v aux ! j = h" for v
      using hit [of c h v] c(2) by (force simp: ps_def)
    with h show ?thesis by force
  qed
  then show "same_but i (aux_leaves cid nonce n own aux) (aux_leaves cid nonce n own' aux)"
    unfolding same_but_def len by metis
  show "aux_leaves cid nonce n own aux ! j \<in> (fst \<circ> snd) ` set aux" if "j < n" "j \<noteq> i" for j
    using other [OF that] by metis
qed

end
