(* ===== verification/ShareFacts.thy ===== *)
theory ShareFacts
  imports AuxTree
begin

text \<open>
  What the parser of a share reads back from what the builder wrote, part by part: each step of a parser
  consumes the bytes at its cursor and leaves the cursor right after them.
\<close>

section \<open>Steps\<close>

lemma varint_step:
  assumes "drop pos data = write_varint v @ rest" "v < 2 ^ 64"
    and "drop (pos + length (write_varint v)) data = rest \<Longrightarrow> k v (pos + length (write_varint v)) = R"
  shows "bindR (rd_varint data pos) (\<lambda>(v, p). k v p) = R"
proof -
  have "v < 2 ^ 70" using assms(2) by simp
  from varint_at [OF this assms(1)] assms(3) show ?thesis by (simp add: rd_varint_def)
qed

lemma buf_step:
  assumes "drop pos data = xs @ rest" "length xs = n" "0 < n"
    and "drop (pos + length xs) data = rest \<Longrightarrow> k xs (pos + length xs) = R"
  shows "bindR (rd_buf n data pos) (\<lambda>(v, p). k v p) = R"
proof -
  have "xs \<noteq> []" using assms(2,3) by auto
  then have "pos + length xs \<le> length data" using cursor_length [OF assms(1)] by simp
  then have "rd_buf n data pos = Inr (xs, pos + length xs)"
    using slice_cursor [OF assms(1)] assms(2) by (simp add: rd_buf_def remaining_def)
  with drop_cursor [OF assms(1)] assms(4) show ?thesis by simp
qed

lemma byte_step:
  assumes "drop pos data = [word_of_nat v] @ rest" "v < 256"
    and "drop (pos + 1) data = rest \<Longrightarrow> k v (pos + 1) = R"
  shows "bindR (rd_byte data pos) (\<lambda>(v, p). k v p) = R"
proof -
  have d: "drop pos data = word_of_nat v # rest" using assms(1) by simp
  have "rd_byte data pos = Inr (v, pos + 1)"
    using length_cursor [OF d] nth_cursor [OF d] unat_small_byte [OF assms(2)] by (simp add: rd_byte_def)
  with drop_cursor [OF assms(1)] assms(3) show ?thesis by simp
qed

lemma expect_step:
  assumes "drop pos data = [word_of_nat v] @ rest" "v < 256"
    and "drop (pos + 1) data = rest \<Longrightarrow> k (pos + 1) = R"
  shows "bindR (rd_expect v w data pos) k = R"
proof -
  have "rd_expect v w data pos = Inr (pos + 1)"
    unfolding rd_expect_def by (rule byte_step [OF assms(1,2)]) simp
  with drop_cursor [OF assms(1)] assms(3) show ?thesis by simp
qed

lemma sub_step:
  assumes "rd data pos = Inr (v, pos + length xs)" "drop pos data = xs @ rest"
    and "drop (pos + length xs) data = rest \<Longrightarrow> k v (pos + length xs) = R"
  shows "bindR (rd data pos) (\<lambda>(v, p). k v p) = R"
  using assms drop_cursor [OF assms(2)] by simp

lemma if_step: "\<not> c \<Longrightarrow> x = R \<Longrightarrow> (if c then e else x) = R"
  by simp

lemmas read_steps = varint_step buf_step byte_step expect_step if_step

lemma rd_many_at:
  "list_all (\<lambda>b. length b = 32) bs \<Longrightarrow> drop pos data = concat bs @ rest \<Longrightarrow>
     rd_many (rd_buf 32) (length bs) data pos = Inr (bs, pos + length (concat bs))"
proof (induction bs arbitrary: pos)
  case (Cons b bs)
  have d: "drop pos data = b @ concat bs @ rest" "length b = 32" using Cons.prems by simp_all
  show ?case unfolding length_Cons rd_many.simps
  proof (rule buf_step [OF d])
    assume "drop (pos + length b) data = concat bs @ rest"
    with Cons show "bindR (rd_many (rd_buf 32) (length bs) data (pos + length b)) (\<lambda>(vs, p). Inr (b # vs, p)) =
        Inr (b # bs, pos + length (concat (b # bs)))" by (simp add: add.assoc)
  qed simp
qed simp

lemma length_concat_32: "list_all (\<lambda>b. length b = 32) bs \<Longrightarrow> length (concat bs) = 32 * length bs"
  by (induction bs) simp_all

lemma remaining_at: "drop pos data = xs @ rest \<Longrightarrow> remaining data pos = length xs + length rest"
  by (metis remaining_def length_append length_drop)

section \<open>The main-chain half\<close>

lemma parse_head_at:
  assumes "data = [word_of_nat major, word_of_nat minor] @ write_varint ts @ prev @ nonce4 @ rest"
    and "major \<le> 16" "major \<le> minor" "minor \<le> 127" "ts < 2 ^ 64" "length prev = 32" "length nonce4 = 4"
  shows "parse_head data = Inr (major, minor, ts, prev, 2 + length (write_varint ts) + 32, le_val nonce4,
     2 + length (write_varint ts) + 36)"
proof -
  have d: "drop 0 data = [word_of_nat major] @ [word_of_nat minor] @ write_varint ts @ prev @ nonce4 @ rest"
    using assms(1) by simp
  have "parse_head data = Inr (major, minor, ts, prev, 0 + 1 + 1 + length (write_varint ts) + length prev, le_val nonce4,
     0 + 1 + 1 + length (write_varint ts) + length prev + length nonce4)"
    unfolding parse_head_def HASH_SIZE_def NONCE_SIZE_def HARDFORK_SUPPORTED_VERSION_def
    by (insert d, (rule read_steps | assumption | use assms in \<open>simp; fail\<close>)+)
  with assms show ?thesis by (simp add: add.assoc)
qed

lemma one_byte_Inr: "one_byte v = Inr bs \<longleftrightarrow> v < 256 \<and> bs = [word_of_nat v]"
  by (auto simp: one_byte_def)

definition output_ok :: "tx_output \<Rightarrow> bool" where
  "output_ok o3 = (case o3 of (reward, eph_pub, view_tag) \<Rightarrow> reward \<le> MAX_OUTPUT_VALUE \<and> length eph_pub = 32 \<and> view_tag < 256)"

definition output_image :: "tx_output \<Rightarrow> bytes" where
  "output_image o3 = (case o3 of (reward, eph_pub, view_tag) \<Rightarrow>
     write_varint reward @ [word_of_nat 3] @ eph_pub @ [word_of_nat view_tag])"

lemma mapR_output_bytes: "list_all output_ok outs \<Longrightarrow> mapR output_bytes outs = Inr (map output_image outs)"
  by (rule mapR_map)
    (auto simp: list_all_iff output_ok_def output_bytes_def output_image_def one_byte_def TXOUT_TO_TAGGED_KEY_def split: prod.splits)

lemma length_write_varint_pos: "1 \<le> length (write_varint v)"
  using write_varint_nonempty [of v] by (cases "write_varint v") simp_all

lemma length_output_image: "output_ok o3 \<Longrightarrow> 35 \<le> length (output_image o3)"
  using length_write_varint_pos [of "fst o3"] by (auto simp: output_ok_def output_image_def split: prod.splits)

lemma length_outputs_image: "list_all output_ok outs \<Longrightarrow> length outs * 35 \<le> length (concat (map output_image outs))"
proof (induction outs)
  case (Cons a outs)
  then show ?case using length_output_image [of a] by simp
qed simp

lemma parse_outputs_from_at:
  "list_all output_ok outs \<Longrightarrow> tot + sum_list (map fst outs) < 2 ^ 64 \<Longrightarrow> drop pos data = concat (map output_image outs) @ rest \<Longrightarrow>
     parse_outputs_from (length outs) tot data pos =
       Inr ((outs, tot + sum_list (map fst outs)), pos + length (concat (map output_image outs)))"
proof (induction outs arbitrary: pos tot)
  case (Cons a outs)
  obtain reward pub tag where a: "a = (reward, pub, tag)" by (cases a)
  have ok: "reward \<le> MAX_OUTPUT_VALUE" "length pub = 32" "tag < 256" using Cons.prems(1) by (simp_all add: a output_ok_def)
  have r: "reward < 2 ^ 64" "\<not> tot + reward \<ge> 2 ^ 64" using Cons.prems(2) by (simp_all add: a)
  let ?x = "concat (map output_image outs)"
  have d: "drop pos data = write_varint reward @ [word_of_nat 3] @ pub @ [word_of_nat tag] @ ?x @ rest"
    using Cons.prems(3) by (simp add: a output_image_def [of "(reward, pub, tag)"])
  have "parse_outputs_from (Suc (length outs)) tot data pos = Inr (((reward, pub, tag) # outs, tot + reward + sum_list (map fst outs)),
      pos + length (write_varint reward) + 1 + length pub + 1 + length ?x)"
    unfolding parse_outputs_from.simps TXOUT_TO_TAGGED_KEY_def HASH_SIZE_def
  proof (insert d, (rule read_steps | assumption | use ok r in \<open>simp; fail\<close>)+)
    assume "drop (pos + length (write_varint reward) + 1 + length pub + 1) data = ?x @ rest"
    from Cons.IH [OF _ _ this, of "tot + reward"] Cons.prems(1,2)
    show "bindR (parse_outputs_from (length outs) (tot + reward) data (pos + length (write_varint reward) + 1 + length pub + 1))
        (\<lambda>a. case a of (a, b) \<Rightarrow> (case a of (outs, tot) \<Rightarrow> \<lambda>pos. Inr (((reward, pub, tag) # outs, tot), pos)) b) =
       Inr (((reward, pub, tag) # outs, tot + reward + sum_list (map fst outs)),
          pos + length (write_varint reward) + 1 + length pub + 1 + length ?x)"
      by (simp add: a)
  qed
  then show ?case by (simp add: a output_image_def [of "(reward, pub, tag)"] add.assoc)
qed simp

lemma parse_outputs_at:
  assumes ok: "list_all output_ok outs" "outs \<noteq> []" "length outs < 2 ^ 64"
    and s: "BASE_BLOCK_REWARD \<le> sum_list (map fst outs)" "sum_list (map fst outs) < 2 ^ 64"
    and d: "drop pos data = write_varint (length outs) @ concat (map output_image outs) @ rest"
  shows "parse_outputs data pos = Inr (outs, pos + length (write_varint (length outs) @ concat (map output_image outs)))"
proof -
  let ?x = "concat (map output_image outs)" and ?p = "pos + length (write_varint (length outs))"
  have r: "\<not> length outs * 35 > remaining data ?p" if "drop ?p data = ?x @ rest"
    using remaining_at [OF that] length_outputs_image [OF ok(1)] by simp
  have "parse_outputs data pos = Inr (outs, ?p + length ?x)"
    unfolding parse_outputs_def
  proof (rule varint_step [OF d ok(3)])
    assume d': "drop ?p data = ?x @ rest"
    from parse_outputs_from_at [OF ok(1) _ this, of 0] ok s r [OF d']
    show "(if length outs = 0 then Inl (ShareError ''pruned share'')
       else if remaining data ?p < length outs * 35 then Inl (ShareError ''not enough data for outputs'')
            else bindR (parse_outputs_from (length outs) 0 data ?p)
              (\<lambda>(a, b). (case a of (outputs, tot) \<Rightarrow> \<lambda>pos. if tot < BASE_BLOCK_REWARD
                then Inl (ShareError ''total reward below base block reward'') else Inr (outputs, pos)) b)) = Inr (outs, ?p + length ?x)"
      by simp
  qed
  then show ?thesis by (simp add: add.assoc)
qed

lemma parse_input_at:
  assumes d: "drop pos data = [word_of_nat 2] @ write_varint (h + 60) @ [word_of_nat 1] @ [word_of_nat 255] @ write_varint h @ rest"
    and h: "h + 60 \<le> CRYPTONOTE_MAX_BLOCK_NUMBER"
  shows "parse_input data pos = Inr (h, pos + length (write_varint (h + 60)) + length (write_varint h) + 3)"
proof -
  have "parse_input data pos = Inr (h, pos + 1 + length (write_varint (h + 60)) + 1 + 1 + length (write_varint h))"
    unfolding parse_input_def TX_VERSION_def SHARE_TXIN_GEN_def MINER_REWARD_UNLOCK_TIME_def
    by (insert d, (rule read_steps | assumption | use h in \<open>simp add: CRYPTONOTE_MAX_BLOCK_NUMBER_def; fail\<close>)+)
  then show ?thesis by simp
qed

lemma skip_none_step: "k pos = R \<Longrightarrow> bindR (skip_zeros (n - n) data pos) k = R"
  by simp

lemma parse_extra_at:
  fixes td :: nat and pk en4 mroot :: bytes
  defines "params \<equiv> write_varint td"
  defines "x \<equiv> [word_of_nat 1] @ pk @ [word_of_nat 2] @ write_varint 4 @ en4 @ [word_of_nat 3] @
     write_varint (length params + 32) @ params @ mroot"
  assumes d: "drop pos data = write_varint (length x) @ x @ [word_of_nat 0] @ rest"
    and l: "length pk = 32" "length en4 = 4" "length mroot = 32" "td < 2 ^ 43"
  shows "parse_extra data pos = Inr (\<lparr> ef_tx_pubkey = pk, ef_extra_nonce = le_val en4,
      ef_extra_nonce_offset = pos + length (write_varint (length x)) + 35,
      ef_tree_data = td, ef_root_offset = pos + length (write_varint (length x)) + 41 + length params, ef_root = mroot \<rparr>,
    pos + length (write_varint (length x)) + length x + 1)"
proof -
  have p7: "length params \<le> 7" unfolding params_def using length_write_varint [of td 7] l(4) by simp
  then have w: "length (write_varint (length params + 32)) = 1" "length (write_varint 4) = 1"
    by (simp_all add: write_varint_small)
  have lx: "length x = 73 + length params" using w l by (simp add: x_def)
  have td: "td < 2 ^ 64" using l(4) by simp
  let ?b = "pos + length (write_varint (length x))"
  have d': "drop pos data = write_varint (length x) @ [word_of_nat 1] @ pk @ [word_of_nat 2] @ write_varint 4 @ en4 @
      [word_of_nat 3] @ write_varint (length params + 32) @ params @ mroot @ [word_of_nat 0] @ rest"
    using d by (simp add: x_def)
  have "parse_extra data pos = Inr (\<lparr> ef_tx_pubkey = pk, ef_extra_nonce = le_val en4,
      ef_extra_nonce_offset = ?b + 1 + length pk + 1 + length (write_varint 4),
      ef_tree_data = td,
      ef_root_offset = ?b + 1 + length pk + 1 + length (write_varint 4) + length en4 + 1 + length (write_varint (length params + 32)) + length params,
      ef_root = mroot \<rparr>,
    ?b + 1 + length pk + 1 + length (write_varint 4) + length en4 + 1 + length (write_varint (length params + 32)) + length params + length mroot + 1)"
    unfolding parse_extra_def TX_EXTRA_TAG_PUBKEY_def TX_EXTRA_NONCE_def EXTRA_NONCE_SIZE_def EXTRA_NONCE_MAX_SIZE_def
      TX_EXTRA_MERGE_MINING_TAG_def HASH_SIZE_def
    by (insert d' [unfolded params_def],
        (rule read_steps skip_none_step | assumption | use l p7 lx td w in \<open>simp add: params_def [symmetric]; fail\<close>)+)
  then show ?thesis using w l lx by simp
qed

lemma parse_tx_hashes_at:
  assumes d: "drop pos data = write_varint (length hs) @ concat hs @ rest"
    and ok: "list_all (\<lambda>b. length b = 32) hs" "length hs \<le> MAX_BLOCK_SIZE div 32"
  shows "parse_tx_hashes data pos = Inr (hs, pos + length (write_varint (length hs) @ concat hs))"
proof -
  let ?p = "pos + length (write_varint (length hs))"
  have l: "length hs < 2 ^ 64" using ok(2) by (simp add: MAX_BLOCK_SIZE_def)
  have "parse_tx_hashes data pos = Inr (hs, ?p + length (concat hs))"
    unfolding parse_tx_hashes_def HASH_SIZE_def
  proof (rule varint_step [OF d l])
    assume d': "drop ?p data = concat hs @ rest"
    show "(if MAX_BLOCK_SIZE div 32 < length hs then Inl (ShareError ''too many transactions'')
       else if remaining data ?p < length hs * 32 then Inl (ShareError ''not enough data for transaction hashes'')
       else rd_many (rd_buf 32) (length hs) data ?p) = Inr (hs, ?p + length (concat hs))"
      using rd_many_at [OF ok(1) d'] remaining_at [OF d'] length_concat_32 [OF ok(1)] ok(2) by simp
  qed
  then show ?thesis by (simp add: add.assoc)
qed

section \<open>The side-chain half\<close>

lemma parse_uncles_at:
  assumes d: "drop pos data = write_varint (length us) @ concat us @ rest"
    and ok: "list_all (\<lambda>b. length b = 32) us" "length us \<le> 5"
  shows "parse_uncles data pos = Inr (us, pos + length (write_varint (length us) @ concat us))"
proof -
  let ?p = "pos + length (write_varint (length us))"
  have l: "length us < 2 ^ 64" using ok(2) by simp
  have "parse_uncles data pos = Inr (us, ?p + length (concat us))"
    unfolding parse_uncles_def HASH_SIZE_def MAX_UNCLES_PER_BLOCK_def
  proof (rule varint_step [OF d l])
    assume d': "drop ?p data = concat us @ rest"
    show "(if 5 < length us then Inl (ShareError ''too many uncles'')
       else if remaining data ?p < length us * 32 then Inl (ShareError ''not enough data for uncles'')
       else rd_many (rd_buf 32) (length us) data ?p) = Inr (us, ?p + length (concat us))"
      using rd_many_at [OF ok(1) d'] remaining_at [OF d'] length_concat_32 [OF ok(1)] ok(2) by simp
  qed
  then show ?thesis by (simp add: add.assoc)
qed

lemma rd_wide_at:
  assumes d: "drop pos data = wide_bytes v @ rest" and v: "v < 2 ^ 128"
  shows "rd_wide data pos = Inr (v, pos + length (wide_bytes v))"
proof -
  have b: "v mod 2 ^ 64 < 2 ^ 64" "v div 2 ^ 64 < 2 ^ 64" using v by simp_all
  have "rd_wide data pos = Inr (v, pos + length (write_varint (v mod 2 ^ 64)) + length (write_varint (v div 2 ^ 64)))"
    unfolding rd_wide_def
    by (insert d [unfolded wide_bytes_def append_assoc],
        (rule read_steps | assumption | rule b | simp (no_asm) only: mod_div_mult_eq; fail)+)
  then show ?thesis by (simp add: wide_bytes_def add.assoc)
qed

lemma parse_side_at:
  assumes d: "drop pos data = sp @ vp @ seed @ par @ (write_varint (length us) @ concat us) @ write_varint h @
      wide_bytes dif @ wide_bytes cum @ [word_of_nat (length pf)] @ concat pf @ rest"
    and l: "length sp = 32" "length vp = 32" "length seed = 32" "length par = 32"
    and us: "list_all (\<lambda>b. length b = 32) us" "length us \<le> 5"
    and pf: "list_all (\<lambda>b. length b = 32) pf" "length pf \<le> 8"
    and h: "h \<le> MAX_SIDECHAIN_HEIGHT" "dif \<le> cum" "cum \<le> MAX_CUMULATIVE_DIFFICULTY"
  shows "\<exists>p. parse_side data pos = Inr (\<lparr> sd_keys = [sp, vp, seed, par], sd_uncles = us, sd_height = h,
      sd_difficulty = dif, sd_cumulative = cum, sd_proof = pf \<rparr>, p) \<and> drop p data = rest"
proof -
  have k: "rd_many (rd_buf 32) 4 data pos = Inr ([sp, vp, seed, par], pos + length (sp @ vp @ seed @ par))"
  proof -
    have "rd_many (rd_buf 32) (length [sp, vp, seed, par]) data pos =
        Inr ([sp, vp, seed, par], pos + length (concat [sp, vp, seed, par]))"
      by (rule rd_many_at) (use d l in simp_all)
    moreover have "length [sp, vp, seed, par] = 4" by simp
    ultimately show ?thesis by (simp only: concat.simps append_Nil2)
  qed
  have c: "cum < 2 ^ 128" "dif < 2 ^ 128" "h < 2 ^ 64"
    using h by (simp_all add: MAX_CUMULATIVE_DIFFICULTY_def MAX_SIDECHAIN_HEIGHT_def)
  define p1 where "p1 = pos + length (sp @ vp @ seed @ par)"
  have d1: "drop p1 data = (write_varint (length us) @ concat us) @ write_varint h @
      wide_bytes dif @ wide_bytes cum @ [word_of_nat (length pf)] @ concat pf @ rest"
    using drop_cursor [of pos data "sp @ vp @ seed @ par"] d by (simp add: p1_def)
  define p2 where "p2 = p1 + length (write_varint (length us) @ concat us)"
  have u: "parse_uncles data p1 = Inr (us, p2)"
    unfolding p2_def by (rule parse_uncles_at [OF _ us]) (use d1 in simp)
  have d2: "drop p2 data = write_varint h @ wide_bytes dif @ wide_bytes cum @ [word_of_nat (length pf)] @ concat pf @ rest"
    unfolding p2_def by (rule drop_cursor [OF d1])
  define p3 where "p3 = p2 + length (write_varint h)"
  have d3: "drop p3 data = wide_bytes dif @ wide_bytes cum @ [word_of_nat (length pf)] @ concat pf @ rest"
    unfolding p3_def by (rule drop_cursor [OF d2])
  define p4 where "p4 = p3 + length (wide_bytes dif)"
  have d4: "drop p4 data = wide_bytes cum @ [word_of_nat (length pf)] @ concat pf @ rest"
    unfolding p4_def by (rule drop_cursor [OF d3])
  define p5 where "p5 = p4 + length (wide_bytes cum)"
  have d5: "drop p5 data = [word_of_nat (length pf)] @ concat pf @ rest"
    unfolding p5_def by (rule drop_cursor [OF d4])
  define p6 where "p6 = p5 + 1"
  have d6: "drop p6 data = concat pf @ rest" unfolding p6_def using drop_cursor [OF d5] by simp
  have rh: "rd_varint data p2 = Inr (h, p3)"
    using varint_step [OF d2 c(3), of "\<lambda>v p. Inr (v, p)" "Inr (h, p3)"] by (cases "rd_varint data p2") (auto simp: p3_def)
  have rn: "rd_byte data p5 = Inr (length pf, p6)"
    using byte_step [OF d5, of "\<lambda>v p. Inr (v, p)" "Inr (length pf, p6)"] pf(2) by (cases "rd_byte data p5") (auto simp: p6_def)
  have "parse_side data pos = Inr (\<lparr> sd_keys = [sp, vp, seed, par], sd_uncles = us, sd_height = h,
      sd_difficulty = dif, sd_cumulative = cum, sd_proof = pf \<rparr>, p6 + length (concat pf))"
    unfolding parse_side_def HASH_SIZE_def k p1_def [symmetric] bindR_simps prod.case u rh
      rd_wide_at [OF d3 c(2), folded p4_def] rd_wide_at [OF d4 c(1), folded p5_def] rn rd_many_at [OF pf(1) d6]
    using h pf(2) by (simp add: LOG2_MERGE_MINING_MAX_CHAINS_def)
  with drop_cursor [OF d6] show ?thesis by blast
qed

section \<open>The auxiliary chains\<close>

definition aux_ok :: "bytes \<times> bytes \<times> nat \<Rightarrow> bool" where
  "aux_ok x = (case x of (cid, h, dif) \<Rightarrow> length cid = 32 \<and> length h = 32 \<and> dif < 2 ^ 128)"

definition aux_data :: "bytes \<times> bytes \<times> nat \<Rightarrow> bytes \<times> bytes" where
  "aux_data x = (case x of (cid, h, dif) \<Rightarrow> (cid, h @ wide_bytes dif))"

definition aux_image :: "bytes \<times> bytes \<times> nat \<Rightarrow> bytes" where
  "aux_image x = (case aux_data x of (cid, t) \<Rightarrow> cid @ write_varint (length t) @ t)"

lemma fst_aux_data [simp]: "fst (aux_data x) = fst x"
  by (simp add: aux_data_def split: prod.split)

lemma aux_entry_at:
  assumes "length h = 32" "dif < 2 ^ 128"
  shows "aux_entry cid (h @ wide_bytes dif) = Inr (h, dif)"
proof -
  let ?t = "h @ wide_bytes dif"
  have b: "dif mod 2 ^ 64 < 2 ^ 70" "dif div 2 ^ 64 < 2 ^ 70" using assms(2) by simp_all
  have d: "drop 32 ?t = write_varint (dif mod 2 ^ 64) @ write_varint (dif div 2 ^ 64) @ []"
    using assms(1) by (simp add: wide_bytes_def)
  note 1 = varint_at [OF b(1) d]
  note 2 = varint_at [OF b(2) 1 [THEN conjunct2]]
  have "dif = dif mod 2 ^ 64 + dif div 2 ^ 64 * 2 ^ 64" by (simp only: mod_div_mult_eq)
  then show ?thesis using assms(1) 1 2
    by (simp add: aux_entry_def HASH_SIZE_def) (simp add: wide_bytes_def)
qed

lemma length_wide_bytes: "dif < 2 ^ 128 \<Longrightarrow> length (wide_bytes dif) \<le> 20"
proof -
  assume "dif < 2 ^ 128"
  moreover have "dif mod 2 ^ 64 < 2 ^ 64" by (rule mod_less_divisor) simp
  ultimately have "dif mod 2 ^ 64 < 2 ^ (7 * 10)" "dif div 2 ^ 64 < 2 ^ (7 * 10)" by simp_all
  from this [THEN length_write_varint] show ?thesis by (simp add: wide_bytes_def)
qed

lemma parse_aux_from_at:
  "list_all aux_ok es \<Longrightarrow> sorted_wrt (<) (map fst es) \<Longrightarrow> (\<And>p c. prev = Some p \<Longrightarrow> c \<in> fst ` set es \<Longrightarrow> p < c) \<Longrightarrow>
   fst ` set es \<inter> fst ` set aux = {} \<Longrightarrow> fst ` set es \<inter> fst ` set raw = {} \<Longrightarrow>
   drop pos data = concat (map aux_image es) @ rest \<Longrightarrow>
     parse_aux_from (length es) prev aux raw data pos =
       Inr ((aux @ es, raw @ map aux_data es), pos + length (concat (map aux_image es)))"
proof (induction es arbitrary: pos prev aux raw)
  case (Cons a es)
  obtain cid h dif where a: "a = (cid, h, dif)" by (cases a)
  let ?t = "h @ wide_bytes dif" and ?x = "concat (map aux_image es)"
  have ok: "length cid = 32" "length h = 32" "dif < 2 ^ 128" using Cons.prems(1) by (simp_all add: a aux_ok_def)
  have lt: "length ?t < 2 ^ 64" "0 < length ?t" using ok length_wide_bytes [OF ok(3)] by simp_all
  have d: "drop pos data = cid @ write_varint (length ?t) @ ?t @ ?x @ rest"
    using Cons.prems(6) by (simp add: a aux_image_def [of "(cid, h, dif)"] aux_data_def)
  have ord: "\<not> (case prev of None \<Rightarrow> False | Some p \<Rightarrow> \<not> p < cid)"
    using Cons.prems(3) by (auto simp: a split: option.split)
  have new: "dput cid (h, dif) aux = aux @ [(cid, h, dif)]" "dput cid ?t raw = raw @ [(cid, ?t)]"
    using Cons.prems(4,5) by (auto simp: a map_of_eq_None_iff intro!: dput_new)
  define p1 where "p1 = pos + length cid + length (write_varint (length ?t))"
  have room: "\<not> length ?t > remaining data p1" if "drop p1 data = ?t @ ?x @ rest"
    using remaining_at [OF that] by simp
  have "parse_aux_from (Suc (length es)) prev aux raw data pos =
      Inr ((aux @ a # es, raw @ map aux_data (a # es)), p1 + length ?t + length ?x)"
    unfolding parse_aux_from.simps HASH_SIZE_def
  proof (insert d, (rule buf_step varint_step | assumption | rule if_step, rule ord | rule lt ok | simp (no_asm); fail)+)
    assume d1: "drop (pos + length cid + length (write_varint (length ?t))) data = ?t @ ?x @ rest"
    note d1 = d1 [folded p1_def]
    have b: "rd_buf (length ?t) data p1 = Inr (?t, p1 + length ?t)"
      using buf_step [OF d1 refl lt(2), of "\<lambda>v p. Inr (v, p)" "Inr (?t, p1 + length ?t)"]
      by (cases "rd_buf (length ?t) data p1") auto
    have ih: "parse_aux_from (length es) (Some cid) (aux @ [a]) (raw @ [(cid, ?t)]) data (p1 + length ?t) =
        Inr (((aux @ [a]) @ es, (raw @ [(cid, ?t)]) @ map aux_data es), p1 + length ?t + length ?x)"
      by (rule Cons.IH [OF _ _ _ _ _ drop_cursor [OF d1]]) (use Cons.prems in \<open>auto simp: a\<close>)
    show "(if length ?t > remaining data (pos + length cid + length (write_varint (length ?t)))
       then Inl (ShareError ''not enough data for merge mining chain data'')
       else bindR (rd_buf (length ?t) data (pos + length cid + length (write_varint (length ?t))))
         (\<lambda>(t, p). bindR (aux_entry cid t)
           (\<lambda>e. parse_aux_from (length es) (Some cid) (dput cid e aux) (dput cid t raw) data p))) =
       Inr ((aux @ a # es, raw @ map aux_data (a # es)), p1 + length ?t + length ?x)"
      unfolding p1_def [symmetric] b bindR_simps prod.case aux_entry_at [OF ok(2,3)] new
      using room [OF d1] ih by (simp add: a aux_data_def)
  qed
  then show ?case by (simp add: a p1_def aux_image_def [of "(cid, h, dif)"] aux_data_def [of "(cid, h, dif)"] add.assoc)
qed simp

lemma insort_key_map: "insort_key g (f x) (map f xs) = map f (insort_key (g \<circ> f) x xs)"
  by (induction xs) auto

lemma sort_key_map: "sort_key g (map f xs) = map f (sort_key (g \<circ> f) xs)"
  by (induction xs) (simp_all add: insort_key_map comp_def)

definition aux_sorted :: "(bytes, bytes \<times> nat) dict \<Rightarrow> (bytes, bytes \<times> nat) dict" where
  "aux_sorted aux = sort_key fst aux"

lemma serialize_aux_image:
  "serialize_aux (map aux_data aux) = write_varint (length aux) @ concat (map aux_image (aux_sorted aux))"
proof -
  have "fst \<circ> aux_data = fst" by (simp add: fun_eq_iff)
  then have "sort_key fst (map aux_data aux) = map aux_data (sort_key fst aux)" by (simp add: sort_key_map)
  then show ?thesis by (simp add: serialize_aux_def aux_sorted_def aux_image_def [abs_def] comp_def)
qed

lemma length_aux_image: "aux_ok x \<Longrightarrow> 33 \<le> length (aux_image x)"
  using length_write_varint_pos [of "length (snd (aux_data x))"]
  by (auto simp: aux_ok_def aux_image_def aux_data_def split: prod.splits)

lemma length_aux_images: "list_all aux_ok xs \<Longrightarrow> length xs * 33 \<le> length (concat (map aux_image xs))"
proof (induction xs)
  case (Cons a xs)
  then show ?case using length_aux_image [of a] by simp
qed simp

lemma parse_aux_at:
  assumes d: "drop pos data = serialize_aux (map aux_data aux) @ rest"
    and ok: "list_all aux_ok aux" "dict_ok aux" "length aux \<le> 256"
  shows "parse_aux data pos = Inr ((aux_sorted aux, map aux_data (aux_sorted aux)), pos + length (serialize_aux (map aux_data aux)))"
proof -
  let ?es = "aux_sorted aux" and ?p = "pos + length (write_varint (length aux))"
  have es: "set ?es = set aux" "length ?es = length aux" by (simp_all add: aux_sorted_def)
  have ok': "list_all aux_ok ?es" using ok(1) es by (simp add: list_all_iff)
  have "mset (map fst ?es) = mset (map fst aux)" by (simp add: aux_sorted_def)
  then have "distinct (map fst ?es)" using ok(2) mset_eq_imp_distinct_iff unfolding dict_ok_def by blast
  then have st: "sorted_wrt (<) (map fst ?es)" by (simp add: strict_sorted_iff aux_sorted_def)
  have l: "length aux < 2 ^ 64" using ok(3) by simp
  note d = d [unfolded serialize_aux_image append_assoc]
  have "parse_aux data pos = Inr ((?es, map aux_data ?es), ?p + length (concat (map aux_image ?es)))"
    unfolding parse_aux_def
  proof (rule varint_step [OF d l])
    assume d': "drop ?p data = concat (map aux_image ?es) @ rest"
    from parse_aux_from_at [OF ok' st _ _ _ d', of None "[]" "[]"]
    have f: "parse_aux_from (length aux) None [] [] data ?p = Inr ((?es, map aux_data ?es), ?p + length (concat (map aux_image ?es)))"
      by (simp add: es)
    show "(if length aux = 0 then Inr (([], []), ?p)
       else if MERGE_MINING_MAX_CHAINS < length aux then Inl (ShareError ''too many merge mining chains'')
       else if remaining data ?p < length aux * (HASH_SIZE + 1) then Inl (ShareError ''not enough data for merge mining extra'')
       else parse_aux_from (length aux) None [] [] data ?p) = Inr ((?es, map aux_data ?es), ?p + length (concat (map aux_image ?es)))"
      using f remaining_at [OF d'] length_aux_images [OF ok'] ok(3) es
      by (auto simp: aux_sorted_def MERGE_MINING_MAX_CHAINS_def HASH_SIZE_def)
  qed
  then show ?thesis by (simp add: serialize_aux_image add.assoc)
qed

section \<open>The whole share\<close>

text \<open>The arguments the format can carry; the parser refuses every other share.\<close>

definition args_ok :: "share_args \<Rightarrow> bool" where
  "args_ok a \<longleftrightarrow> sa_major a \<le> 16 \<and> sa_major a \<le> sa_minor a \<and> sa_minor a \<le> 127 \<and> sa_timestamp a < 2 ^ 64 \<and>
     length (sa_prev_id a) = 32 \<and> sa_nonce a < 2 ^ 32 \<and> sa_txin_gen_height a + 60 \<le> CRYPTONOTE_MAX_BLOCK_NUMBER \<and>
     list_all output_ok (sa_outputs a) \<and> sa_outputs a \<noteq> [] \<and> length (sa_outputs a) < 2 ^ 64 \<and>
     BASE_BLOCK_REWARD \<le> sum_list (map fst (sa_outputs a)) \<and> sum_list (map fst (sa_outputs a)) < 2 ^ 64 \<and>
     length (sa_tx_pubkey a) = 32 \<and> sa_extra_nonce a < 2 ^ 32 \<and>
     list_all (\<lambda>b. length b = 32) (sa_tx_hashes a) \<and> length (sa_tx_hashes a) \<le> MAX_BLOCK_SIZE div 32 \<and>
     length (sa_spend_pub a) = 32 \<and> length (sa_view_pub a) = 32 \<and> length (sa_seed a) = 32 \<and> length (sa_parent a) = 32 \<and>
     list_all (\<lambda>b. length b = 32) (sa_uncles a) \<and> length (sa_uncles a) \<le> 5 \<and> sa_height a \<le> MAX_SIDECHAIN_HEIGHT \<and>
     sa_difficulty a \<le> sa_cumulative a \<and> sa_cumulative a \<le> MAX_CUMULATIVE_DIFFICULTY \<and>
     list_all aux_ok (sa_aux a) \<and> dict_ok (sa_aux a) \<and> length (sa_aux a) < 256 \<and> length (sa_extra_buf a) = 16"

definition head_of :: "share_args \<Rightarrow> bytes" where
  "head_of a = [word_of_nat (sa_major a), word_of_nat (sa_minor a)] @ write_varint (sa_timestamp a) @ sa_prev_id a"

definition input_of :: "share_args \<Rightarrow> bytes" where
  "input_of a = [word_of_nat 2] @ write_varint (sa_txin_gen_height a + 60) @ [word_of_nat 1] @ [word_of_nat 255] @
     write_varint (sa_txin_gen_height a) @ write_varint (length (sa_outputs a)) @ concat (map output_image (sa_outputs a))"

definition mid_of :: "share_args \<Rightarrow> nat \<Rightarrow> bytes" where
  "mid_of a td = input_of a @ write_varint (73 + length (write_varint td)) @ [word_of_nat 1] @ sa_tx_pubkey a @
     [word_of_nat 2] @ write_varint 4"

definition tree_of :: "nat \<Rightarrow> bytes" where
  "tree_of td = [word_of_nat 3] @ write_varint (length (write_varint td) + 32) @ write_varint td"

definition tail_of :: "share_args \<Rightarrow> bytes" where
  "tail_of a = [word_of_nat 0] @ write_varint (length (sa_tx_hashes a)) @ concat (sa_tx_hashes a)"

definition main_of :: "share_args \<Rightarrow> nat \<Rightarrow> bytes \<Rightarrow> main_parts" where
  "main_of a td mroot =
     \<lparr> mp_data = head_of a @ le_bytes 4 (sa_nonce a) @ mid_of a td @ le_bytes 4 (sa_extra_nonce a) @ tree_of td @ mroot @ tail_of a,
       mp_nonce_offset = length (head_of a), mp_header_size = length (head_of a) + 4,
       mp_extra_nonce_offset = length (head_of a) + 4 + length (mid_of a td),
       mp_root_offset = length (head_of a) + 4 + length (mid_of a td) + 4 + length (tree_of td) \<rparr>"

lemma tree_data_length: "td < 2 ^ 43 \<Longrightarrow> length (write_varint td) \<le> 7"
  using length_write_varint [of td 7] by simp

lemma serialize_mainchain_of:
  assumes a: "args_ok a" and td: "td < 2 ^ 43" and r: "length mroot = 32"
  shows "serialize_mainchain a td mroot = Inr (main_of a td mroot)"
proof -
  note t7 = tree_data_length [OF td]
  have h: "serialize_head a = Inr (head_of a)" "to_bytes_le 4 (sa_nonce a) = Inr (le_bytes 4 (sa_nonce a))"
    "to_bytes_le 4 (sa_extra_nonce a) = Inr (le_bytes 4 (sa_extra_nonce a))" "length (sa_tx_pubkey a) = 32"
    using a by (simp_all add: args_ok_def serialize_head_def one_byte_def head_of_def to_bytes_le_def)
  have i: "serialize_input a = Inr (input_of a)"
    using a mapR_output_bytes [of "sa_outputs a"]
    by (simp add: args_ok_def serialize_input_def input_of_def TX_VERSION_def SHARE_TXIN_GEN_def MINER_REWARD_UNLOCK_TIME_def)
  have w4: "write_varint 4 = [4]" using write_varint_small [of 4] by simp
  have t: "extra_tree td = Inr (tree_of td)" "length (tree_of td) = 2 + length (write_varint td)"
    using t7 write_varint_small [of "length (write_varint td) + 32"]
    by (simp_all add: extra_tree_def one_byte_def tree_of_def HASH_SIZE_def TX_EXTRA_MERGE_MINING_TAG_def)
  have p: "extra_prefix a = [word_of_nat 1] @ sa_tx_pubkey a @ [word_of_nat 2] @ write_varint 4" "length (extra_prefix a) = 35"
    using h(4) by (simp_all add: extra_prefix_def TX_EXTRA_TAG_PUBKEY_def TX_EXTRA_NONCE_def EXTRA_NONCE_SIZE_def w4)
  show ?thesis
    unfolding serialize_mainchain_def NONCE_SIZE_def EXTRA_NONCE_SIZE_def h i t bindR_simps Let_def
    using p r h(4) by (simp add: main_of_def mid_of_def tail_of_def t(2) w4)
qed

lemma zero_at_part: "length xs = n \<Longrightarrow> zero_at (length pre) n (pre @ xs @ post) = pre @ replicate n 0 @ post"
  by (simp add: zero_at_def)

text \<open>The id of a share is the hash of its bytes with the nonces and the root blanked.\<close>

lemma share_id_blank:
  assumes l: "length n4 = 4" "length e4 = 4" "length mroot = 32"
  shows "share_id_from (h @ n4 @ m @ e4 @ t @ mroot @ z) (length h) (length h + 4 + length m) (length h + 4 + length m + 4 + length t) cid =
     keccak256 (h @ replicate 4 0 @ m @ replicate 4 0 @ t @ replicate 32 0 @ z @ cid)"
proof -
  have 1: "zero_at (length h) 4 (h @ n4 @ m @ e4 @ t @ mroot @ z) = h @ replicate 4 0 @ m @ e4 @ t @ mroot @ z"
    by (rule zero_at_part [OF l(1)])
  have 2: "zero_at (length h + 4 + length m) 4 (h @ replicate 4 0 @ m @ e4 @ t @ mroot @ z) = h @ replicate 4 0 @ m @ replicate 4 0 @ t @ mroot @ z"
    using zero_at_part [OF l(2), of "h @ replicate 4 0 @ m" "t @ mroot @ z"] by (simp add: add.assoc)
  have 3: "zero_at (length h + 4 + length m + 4 + length t) 32 (h @ replicate 4 0 @ m @ replicate 4 0 @ t @ mroot @ z) =
      h @ replicate 4 0 @ m @ replicate 4 0 @ t @ replicate 32 0 @ z"
    using zero_at_part [OF l(3), of "h @ replicate 4 0 @ m @ replicate 4 0 @ t" z] by (simp add: add.assoc)
  show ?thesis unfolding share_id_from_def NONCE_SIZE_def EXTRA_NONCE_SIZE_def HASH_SIZE_def 1 2 3 by simp
qed

definition carries :: "share_args \<Rightarrow> parsed_share \<Rightarrow> bool" where
  "carries a s \<longleftrightarrow> ps_major s = sa_major a \<and> ps_minor s = sa_minor a \<and> ps_timestamp s = sa_timestamp a \<and>
     ps_prev_id s = sa_prev_id a \<and> ps_nonce s = sa_nonce a \<and> ps_txin_gen_height s = sa_txin_gen_height a \<and>
     ps_outputs s = sa_outputs a \<and> ps_tx_pubkey s = sa_tx_pubkey a \<and> ps_extra_nonce s = sa_extra_nonce a \<and>
     ps_tx_hashes s = sa_tx_hashes a \<and> ps_spend_pub s = sa_spend_pub a \<and> ps_view_pub s = sa_view_pub a \<and>
     ps_txkey_sec_seed s = sa_seed a \<and> ps_parent s = sa_parent a \<and> ps_uncles s = sa_uncles a \<and> ps_height s = sa_height a \<and>
     ps_difficulty s = sa_difficulty a \<and> ps_cumulative_difficulty s = sa_cumulative a \<and>
     ps_aux s = sort_key fst (sa_aux a) \<and> ps_extra_buf s = sa_extra_buf a"

definition side_of :: "share_args \<Rightarrow> bytes list \<Rightarrow> bytes" where
  "side_of a pf = sa_spend_pub a @ sa_view_pub a @ sa_seed a @ sa_parent a @
     (write_varint (length (sa_uncles a)) @ concat (sa_uncles a)) @ write_varint (sa_height a) @
     wide_bytes (sa_difficulty a) @ wide_bytes (sa_cumulative a) @ [word_of_nat (length pf)] @ concat pf @
     serialize_aux (map aux_data (sa_aux a)) @ sa_extra_buf a"

lemma serialize_sidechain_of:
  "length pf \<le> 8 \<Longrightarrow> serialize_sidechain a pf (aux_raw_of a) = Inr (side_of a pf)"
  by (simp add: serialize_sidechain_def side_of_def one_byte_def aux_raw_of_def aux_data_def [abs_def])

lemma tree_hash_total: "hs \<noteq> [] \<Longrightarrow> \<exists>r. tree_hash hs = Inr r"
  by (simp add: tree_hash_def Let_def)

definition ps_image :: "share_args \<Rightarrow> bytes \<Rightarrow> nat \<Rightarrow> nat \<Rightarrow> bytes \<Rightarrow> bytes list \<Rightarrow> bytes \<Rightarrow> bytes \<Rightarrow> parsed_share" where
  "ps_image a data n nonce mroot pf sid hb =
     \<lparr> ps_id = sid, ps_raw = data, ps_major = sa_major a, ps_minor = sa_minor a, ps_timestamp = sa_timestamp a,
       ps_prev_id = sa_prev_id a, ps_nonce = sa_nonce a, ps_txin_gen_height = sa_txin_gen_height a, ps_outputs = sa_outputs a,
       ps_tx_pubkey = sa_tx_pubkey a, ps_extra_nonce = sa_extra_nonce a, ps_n_aux_chains = n, ps_aux_nonce = nonce,
       ps_merkle_root = mroot, ps_tx_hashes = sa_tx_hashes a, ps_spend_pub = sa_spend_pub a, ps_view_pub = sa_view_pub a,
       ps_txkey_sec_seed = sa_seed a, ps_parent = sa_parent a, ps_uncles = sa_uncles a, ps_height = sa_height a,
       ps_difficulty = sa_difficulty a, ps_cumulative_difficulty = sa_cumulative a, ps_merkle_proof = pf,
       ps_aux = sort_key fst (sa_aux a), ps_aux_raw = map aux_data (sort_key fst (sa_aux a)), ps_extra_buf = sa_extra_buf a,
       ps_hashing_blob = hb, ps_wallet = hex_of (sa_spend_pub a) @ hex_of (sa_view_pub a) \<rparr>"

lemma parse_written:
  assumes a: "args_ok a" and td: "td = encode_tree_params n nonce" "1 \<le> n" "n \<le> 256" "nonce < 2 ^ 32"
    and l: "length mroot = 32" "list_all (\<lambda>b. length b = 32) pf" "length pf \<le> 8"
    and data: "data = mp_data (main_of a td mroot) @ side_of a pf" and size: "length data \<le> MAX_BLOCK_SIZE"
    and sid: "sid = keccak256 (head_of a @ replicate 4 0 @ mid_of a td @ replicate 4 0 @ tree_of td @ replicate 32 0 @
       tail_of a @ side_of a pf @ cid)"
    and v: "verify_proof_by_index sid pf (aux_slot cid nonce n) n mroot"
  shows "\<exists>s. parse_share data cid = Inr s \<and> carries a s \<and> ps_id s = sid \<and> ps_raw s = data \<and> ps_n_aux_chains s = n \<and>
     ps_aux_nonce s = nonce \<and> ps_merkle_root s = mroot \<and> ps_merkle_proof s = pf"
proof -
  have ps: "decode_tree_params td = (n, nonce)" "td < 2 ^ 43"
    unfolding td(1) by (rule decode_encode_params [OF td(2-4)])+
  note t7 = tree_data_length [OF ps(2)]
  note A = a [unfolded args_ok_def]
  let ?n4 = "le_bytes 4 (sa_nonce a)" and ?e4 = "le_bytes 4 (sa_extra_nonce a)"
  let ?x = "[word_of_nat 1] @ sa_tx_pubkey a @ [word_of_nat 2] @ write_varint 4 @ ?e4 @ [word_of_nat 3] @
     write_varint (length (write_varint td) + 32) @ write_varint td @ mroot"
  have w: "length (write_varint (length (write_varint td) + 32)) = 1" "length (write_varint 4) = 1"
    using t7 by (simp_all add: write_varint_small)
  have lx: "length ?x = 73 + length (write_varint td)" using w l(1) A by simp
  have D: "data = head_of a @ ?n4 @ input_of a @ write_varint (length ?x) @ ?x @ tail_of a @ side_of a pf"
    unfolding data lx by (simp add: main_of_def mid_of_def tree_of_def)
  define p1 where "p1 = length (head_of a) + 4"
  have lh: "length (head_of a) = 2 + length (write_varint (sa_timestamp a)) + 32" using A by (simp add: head_of_def)
  have hd: "parse_head data = Inr (sa_major a, sa_minor a, sa_timestamp a, sa_prev_id a, length (head_of a), sa_nonce a, p1)"
    using parse_head_at [of data "sa_major a" "sa_minor a" "sa_timestamp a" "sa_prev_id a" ?n4] A D lh
    by (simp add: head_of_def p1_def)
  have d1: "drop p1 data = [word_of_nat 2] @ write_varint (sa_txin_gen_height a + 60) @ [word_of_nat 1] @ [word_of_nat 255] @
      write_varint (sa_txin_gen_height a) @ (write_varint (length (sa_outputs a)) @ concat (map output_image (sa_outputs a))) @
      write_varint (length ?x) @ ?x @ tail_of a @ side_of a pf"
    using drop_cursor [of 0 data "head_of a @ ?n4"] D by (simp add: p1_def input_of_def)
  define p2 where "p2 = p1 + length (write_varint (sa_txin_gen_height a + 60)) + length (write_varint (sa_txin_gen_height a)) + 3"
  have inp: "parse_input data p1 = Inr (sa_txin_gen_height a, p2)"
    unfolding p2_def by (rule parse_input_at [OF d1]) (use A in simp)
  have d2: "drop p2 data = (write_varint (length (sa_outputs a)) @ concat (map output_image (sa_outputs a))) @
      write_varint (length ?x) @ ?x @ tail_of a @ side_of a pf"
  proof -
    let ?y = "[word_of_nat 2] @ write_varint (sa_txin_gen_height a + 60) @ [word_of_nat 1] @
      [word_of_nat 255] @ write_varint (sa_txin_gen_height a)"
    have e: "p2 = p1 + length ?y" by (simp add: p2_def)
    show ?thesis unfolding e by (rule drop_cursor) (use d1 in simp)
  qed
  define p3 where "p3 = p2 + length (write_varint (length (sa_outputs a)) @ concat (map output_image (sa_outputs a)))"
  have outs: "parse_outputs data p2 = Inr (sa_outputs a, p3)"
    unfolding p3_def by (rule parse_outputs_at [OF _ _ _ _ _ d2 [unfolded append_assoc]]) (use A in simp_all)
  have d3: "drop p3 data = write_varint (length ?x) @ ?x @ [word_of_nat 0] @
      write_varint (length (sa_tx_hashes a)) @ concat (sa_tx_hashes a) @ side_of a pf"
    unfolding p3_def using drop_cursor [OF d2] by (simp only: tail_of_def append_assoc)
  define x where "x = \<lparr> ef_tx_pubkey = sa_tx_pubkey a, ef_extra_nonce = le_val ?e4,
      ef_extra_nonce_offset = p3 + length (write_varint (length ?x)) + 35,
      ef_tree_data = td, ef_root_offset = p3 + length (write_varint (length ?x)) + 41 + length (write_varint td), ef_root = mroot \<rparr>"
  define p4 where "p4 = p3 + length (write_varint (length ?x)) + length ?x + 1"
  have ext: "parse_extra data p3 = Inr (x, p4)"
    unfolding x_def p4_def by (rule parse_extra_at [OF d3]) (use A l ps in simp_all)
  have d4: "drop p4 data = write_varint (length (sa_tx_hashes a)) @ concat (sa_tx_hashes a) @ side_of a pf"
  proof -
    have e: "p4 = p3 + length (write_varint (length ?x) @ ?x @ [word_of_nat 0])" by (simp add: p4_def)
    show ?thesis unfolding e by (rule drop_cursor) (use d3 in simp)
  qed
  define p5 where "p5 = p4 + length (write_varint (length (sa_tx_hashes a)) @ concat (sa_tx_hashes a))"
  have txs: "parse_tx_hashes data p4 = Inr (sa_tx_hashes a, p5)"
    unfolding p5_def by (rule parse_tx_hashes_at [OF d4]) (use A in simp_all)
  have d5: "drop p5 data = side_of a pf"
    unfolding p5_def using drop_cursor [of p4 data "write_varint (length (sa_tx_hashes a)) @ concat (sa_tx_hashes a)"] d4 by simp
  have "\<exists>p. parse_side data p5 = Inr (\<lparr> sd_keys = [sa_spend_pub a, sa_view_pub a, sa_seed a, sa_parent a], sd_uncles = sa_uncles a,
      sd_height = sa_height a, sd_difficulty = sa_difficulty a, sd_cumulative = sa_cumulative a, sd_proof = pf \<rparr>, p) \<and>
      drop p data = serialize_aux (map aux_data (sa_aux a)) @ sa_extra_buf a"
    by (rule parse_side_at [OF d5 [unfolded side_of_def]]) (use A l in simp_all)
  then obtain p6 where side: "parse_side data p5 = Inr (\<lparr> sd_keys = [sa_spend_pub a, sa_view_pub a, sa_seed a, sa_parent a],
      sd_uncles = sa_uncles a, sd_height = sa_height a, sd_difficulty = sa_difficulty a, sd_cumulative = sa_cumulative a,
      sd_proof = pf \<rparr>, p6)"
    and d6: "drop p6 data = serialize_aux (map aux_data (sa_aux a)) @ sa_extra_buf a" by blast
  define p7 where "p7 = p6 + length (serialize_aux (map aux_data (sa_aux a)))"
  have aux: "parse_aux data p6 = Inr ((aux_sorted (sa_aux a), map aux_data (aux_sorted (sa_aux a))), p7)"
    unfolding p7_def by (rule parse_aux_at [OF d6]) (use A in simp_all)
  have d7: "drop p7 data = sa_extra_buf a @ []" unfolding p7_def using drop_cursor [OF d6] by simp
  have b16: "length (sa_extra_buf a) = 16" using A by simp
  have buf: "rd_buf 16 data p7 = Inr (sa_extra_buf a, length data)"
    using buf_step [OF d7 b16, of "\<lambda>v p. Inr (v, p)" "Inr (sa_extra_buf a, p7 + length (sa_extra_buf a))"]
      arg_cong [OF d7, of length] b16 by (cases "rd_buf 16 data p7") auto
  have off: "ef_extra_nonce_offset x = length (head_of a) + 4 + length (mid_of a td)"
    "ef_root_offset x = length (head_of a) + 4 + length (mid_of a td) + 4 + length (tree_of td)"
    unfolding x_def lx p3_def p2_def p1_def using A w by (simp_all add: mid_of_def input_of_def tree_of_def)
  have id: "share_id_from data (length (head_of a)) (ef_extra_nonce_offset x) (ef_root_offset x) cid = sid"
    using share_id_blank [of ?n4 ?e4 mroot "head_of a" "mid_of a td" "tree_of td" "tail_of a @ side_of a pf" cid] l(1)
    unfolding off sid data main_of_def by simp
  obtain t where t: "tree_hash (miner_tx_hash (slice data p1 p4) # sa_tx_hashes a) = Inr t"
    using tree_hash_total [of "miner_tx_hash (slice data p1 p4) # sa_tx_hashes a"] by auto
  have e4: "le_val ?e4 = sa_extra_nonce a" using A by simp
  have fields: "ef_tree_data x = td" "ef_root x = mroot" "ef_extra_nonce x = sa_extra_nonce a" "ef_tx_pubkey x = sa_tx_pubkey a"
    unfolding x_def by (simp_all add: e4)
  have "parse_share data cid = Inr (ps_image a data n nonce mroot pf sid
      (take p1 data @ t @ write_varint (1 + length (sa_tx_hashes a))))"
    unfolding parse_share_def hd bindR_simps prod.case inp outs ext txs side aux buf id Let_def fields ps side_fields.simps t
    using size v by (simp add: ps_image_def aux_sorted_def)
  then show ?thesis by (simp add: carries_def ps_image_def)
qed

section \<open>Building\<close>

definition share_placeholder :: "bytes \<Rightarrow> bytes" where
  "share_placeholder cid = keccak256 (map (\<lambda>c. word_of_nat (of_char c)) ''share-id-placeholder'' @ cid)"

text \<open>The id of the share \<open>a\<close> builds with the tree parameters \<open>td\<close> and the proof \<open>pf\<close>.\<close>

definition built_id :: "bytes \<Rightarrow> share_args \<Rightarrow> nat \<Rightarrow> bytes list \<Rightarrow> bytes" where
  "built_id cid a td pf = keccak256 (head_of a @ replicate 4 0 @ mid_of a td @ replicate 4 0 @ tree_of td @ replicate 32 0 @
     tail_of a @ side_of a pf @ cid)"

lemma main_of_id:
  assumes "args_ok a" "length mroot = 32"
  shows "share_id_from (mp_data (main_of a td mroot) @ side_of a pf) (mp_nonce_offset (main_of a td mroot))
     (mp_extra_nonce_offset (main_of a td mroot)) (mp_root_offset (main_of a td mroot)) cid = built_id cid a td pf"
  using share_id_blank [of "le_bytes 4 (sa_nonce a)" "le_bytes 4 (sa_extra_nonce a)" mroot "head_of a" "mid_of a td" "tree_of td"
      "tail_of a @ side_of a pf" cid] assms(2)
  by (simp add: main_of_def built_id_def)

lemma build_share_eq:
  assumes a: "args_ok a" and n: "n = length (cid # dkeys (sa_aux a))"
    and nonce: "if n > 1 then find_aux_nonce (cid # dkeys (sa_aux a)) = Inr nonce else nonce = 0"
    and pf: "if n = 1 then pf = []
       else merkle_proof (merkle_tree (aux_leaves cid nonce n (share_placeholder cid) (sa_aux a))) (share_placeholder cid) = Some (pf, path)"
    and mroot: "mroot = (if n = 1 then built_id cid a (encode_tree_params n nonce) pf
       else the (merkle_root (aux_leaves cid nonce n (built_id cid a (encode_tree_params n nonce) pf) (sa_aux a))))"
      "n \<noteq> 1 \<Longrightarrow> merkle_root (aux_leaves cid nonce n (built_id cid a (encode_tree_params n nonce) pf) (sa_aux a)) \<noteq> None"
    and l: "length pf \<le> 8" "length mroot = 32" "nonce < 2 ^ 32"
  shows "build_share cid a = Inr (mp_data (main_of a (encode_tree_params n nonce) mroot) @ side_of a pf)"
proof -
  let ?td = "encode_tree_params n nonce"
  have n256: "1 \<le> n" "n \<le> 256" using a n by (simp_all add: args_ok_def)
  note td = decode_encode_params(2) [OF n256 l(3)]
  have m0: "serialize_mainchain a ?td (replicate HASH_SIZE 0) = Inr (main_of a ?td (replicate 32 0))"
    "serialize_mainchain a ?td mroot = Inr (main_of a ?td mroot)"
    using serialize_mainchain_of [OF a td] l(2) by (simp_all add: HASH_SIZE_def)
  note id = main_of_id [OF a, of "replicate 32 0" ?td pf cid, OF length_replicate]
  note side = serialize_sidechain_of [OF l(1), of a]
  show ?thesis
  proof (cases "n = 1")
    case True
    then show ?thesis
      using nonce pf mroot m0 id side unfolding build_share_def n [symmetric] Let_def by simp
  next
    case False
    then have n1: "1 < n" using n256 by simp
    from False n1 show ?thesis
      using nonce pf mroot m0 id side unfolding build_share_def n [symmetric] Let_def share_placeholder_def [symmetric] by auto
  qed
qed

lemma tree_top_length_32: "\<forall>h \<in> set L. length h = 32 \<Longrightarrow> length L = 2 ^ d \<Longrightarrow> length (tree_top d L) = 32"
proof (induction d arbitrary: L)
  case (Suc d)
  have "length (tree_top d (map (pair_hash L) [0..<2 ^ d])) = 32" by (rule Suc.IH) (auto simp: pair_hash_def)
  then show ?case by simp
qed (cases L; simp)

lemma merkle_root_length_32:
  assumes "\<forall>h \<in> set hs. length h = 32" "merkle_root hs = Some r"
  shows "length r = 32"
proof -
  consider "length hs = 0" | "length hs = 1" | "length hs = 2" | "2 < length hs" by linarith
  then show ?thesis
  proof cases
    case 4
    from merkle_tree_big [OF 4] obtain d where "2 ^ d \<le> length hs" "length hs < 2 ^ Suc d"
      "merkle_root hs = Some (tree_top d (first_level (2 ^ d * 2 - length hs) hs))" by blast
    with tree_top_length_32 [OF first_level_length_32 [OF assms(1)] first_level_facts(1), of d] assms(2) show ?thesis by simp
  qed (use assms in \<open>auto simp: merkle_root_def merkle_tree_def length_Suc_conv\<close>)
qed

text \<open>Every share the builder makes is a share the parser accepts.\<close>

lemma built_share:
  assumes a: "args_ok a" and fresh: "share_placeholder cid \<notin> (fst \<circ> snd) ` set (sa_aux a)"
    and nonce: "sa_aux a = [] \<or> (\<exists>nonce. find_aux_nonce (cid # dkeys (sa_aux a)) = Inr nonce)"
  shows "\<exists>nonce pf mroot. build_share cid a =
      Inr (mp_data (main_of a (encode_tree_params (1 + length (sa_aux a)) nonce) mroot) @ side_of a pf) \<and>
    length mroot = 32 \<and> list_all (\<lambda>b. length b = 32) pf \<and> length pf \<le> 8 \<and> nonce < 2 ^ 32 \<and> (sa_aux a = [] \<longrightarrow> pf = [] \<and> nonce = 0) \<and>
    verify_proof_by_index (built_id cid a (encode_tree_params (1 + length (sa_aux a)) nonce) pf) pf
      (aux_slot cid nonce (1 + length (sa_aux a))) (1 + length (sa_aux a)) mroot"
proof (cases "sa_aux a = []")
  case True
  let ?id = "built_id cid a (encode_tree_params 1 0) []"
  have "build_share cid a = Inr (mp_data (main_of a (encode_tree_params 1 0) ?id) @ side_of a [])"
    by (rule build_share_eq [OF a]) (use True in \<open>simp_all add: built_id_def\<close>)
  then show ?thesis using True
    by (intro exI [of _ 0] exI [of _ "[]"] exI [of _ ?id])
      (simp add: verify_proof_by_index_def root_from_proof_by_index_def aux_slot_def, simp add: built_id_def)
next
  case False
  define n where "n = length (cid # dkeys (sa_aux a))"
  have n1: "1 < n" "n \<le> 256" "n = 1 + length (sa_aux a)" using False a by (simp_all add: n_def args_ok_def)
  from nonce False obtain nonce where nn: "find_aux_nonce (cid # dkeys (sa_aux a)) = Inr nonce" by blast
  then have no: "nonce < 2 ^ 32" "slots_distinct (cid # dkeys (sa_aux a)) nonce"
    using find_nonce_from_ok by (auto simp: find_aux_nonce_def)
  define i where "i = aux_slot cid nonce n"
  let ?p = "share_placeholder cid"
  let ?hs = "aux_leaves cid nonce n ?p (sa_aux a)"
  note L = aux_leaves_facts [OF no(2) n_def, folded i_def]
  have il: "i < length ?hs" using L by simp
  have idx: "index_of ?p ?hs = Some i"
    by (rule index_of_first [OF il L(3)]) (use L(5) fresh L(1) in metis)
  have leaves32: "\<forall>h \<in> set (aux_leaves cid nonce n own (sa_aux a)). length h = 32" if "length own = 32" for own
  proof
    fix h assume "h \<in> set (aux_leaves cid nonce n own (sa_aux a))"
    then obtain j where "j < n" "h = aux_leaves cid nonce n own (sa_aux a) ! j" by (auto simp: in_set_conv_nth L(1))
    then have "h = own \<or> h \<in> (fst \<circ> snd) ` set (sa_aux a)" using L(3,5) by (cases "j = i") auto
    then show "length h = 32" using a that by (auto simp: args_ok_def list_all_iff aux_ok_def)
  qed
  have "length ?p = 32" by (simp add: share_placeholder_def)
  from leaves32 [OF this] have l32: "\<forall>h \<in> set ?hs. length h = 32" .
  have l256: "length ?hs \<le> 256" using n1 L(1) by simp
  note P = proof_by_index_replaced [OF il idx L(4) l32 l256]
  from P [of ?p] obtain pf path where pf: "merkle_proof (merkle_tree ?hs) ?p = Some (pf, path)"
    "length pf \<le> 8" "\<forall>b \<in> set pf. length b = 32" by blast
  define own where "own = built_id cid a (encode_tree_params n nonce) pf"
  from P [of own] pf obtain mroot where r: "merkle_root (aux_leaves cid nonce n own (sa_aux a)) = Some mroot"
    "root_from_proof_by_index own pf i n = Some mroot" by (auto simp: L)
  have own32: "length own = 32" by (simp add: own_def built_id_def)
  have m32: "length mroot = 32" by (rule merkle_root_length_32 [OF leaves32 [OF own32] r(1)])
  have "build_share cid a = Inr (mp_data (main_of a (encode_tree_params n nonce) mroot) @ side_of a pf)"
    by (rule build_share_eq [OF a n_def, where path = path]) (use n1 nn pf r m32 no in \<open>simp_all add: own_def\<close>)
  then show ?thesis using m32 pf no r(2) False unfolding n1(3) [symmetric]
    by (intro exI [of _ nonce] exI [of _ pf] exI [of _ mroot])
      (simp add: list_all_iff verify_proof_by_index_def own_def i_def)
qed

section \<open>Claims\<close>

definition wit_args :: share_args where
  "wit_args = \<lparr> sa_major = 16, sa_minor = 16, sa_timestamp = 5, sa_prev_id = replicate 32 0, sa_nonce = 7, sa_txin_gen_height = 9,
     sa_outputs = [(BASE_BLOCK_REWARD, replicate 32 0, 0)], sa_tx_pubkey = replicate 32 1, sa_extra_nonce = 0, sa_tx_hashes = [],
     sa_spend_pub = replicate 32 0, sa_view_pub = replicate 32 0, sa_seed = replicate 32 0, sa_parent = replicate 32 0,
     sa_uncles = [], sa_height = 3, sa_difficulty = 1, sa_cumulative = 2, sa_aux = [], sa_extra_buf = replicate 16 0 \<rparr>"

lemma wit_args_ok: "args_ok wit_args"
  by (simp add: wit_args_def args_ok_def output_ok_def BASE_BLOCK_REWARD_def MAX_OUTPUT_VALUE_def
      CRYPTONOTE_MAX_BLOCK_NUMBER_def MAX_SIDECHAIN_HEIGHT_def MAX_CUMULATIVE_DIFFICULTY_def)

lemma length_written:
  "length (mp_data (main_of a td mroot) @ side_of a pf) = length (head_of a) + 8 + length (mid_of a td) + length (tree_of td) +
     length mroot + length (tail_of a) + length (side_of a pf)"
  by (simp add: main_of_def)

lemma length_wit_share:
  "length mroot = 32 \<Longrightarrow> length (mp_data (main_of wit_args (encode_tree_params 1 0) mroot) @ side_of wit_args []) \<le> MAX_BLOCK_SIZE"
proof -
  assume m: "length mroot = 32"
  have e: "encode_tree_params 1 0 = 0" using encode_tree_params_sum [of 1 0] by (simp add: n_bits_for_def numeral_eq_Suc)
  have s: "length (write_varint v) \<le> 10" if "v < 2 ^ 64" for v using length_write_varint [of v 10] that by simp
  have h: "length (head_of wit_args) \<le> 100" using s [of 5] by (simp add: head_of_def wit_args_def)
  have "length (input_of wit_args) \<le> 200"
    using s [of 69] s [of 9] s [of 1] s [of BASE_BLOCK_REWARD]
    by (simp add: input_of_def wit_args_def output_image_def BASE_BLOCK_REWARD_def)
  then have m1: "length (mid_of wit_args 0) \<le> 300"
    using s [of "73 + length (write_varint 0)"] s [of 0] s [of 4] by (simp add: mid_of_def) (simp add: wit_args_def)
  have t: "length (tree_of 0) \<le> 100" "length (tail_of wit_args) \<le> 100"
    using s [of "length (write_varint 0) + 32"] s [of 0] by (simp_all add: tree_of_def tail_of_def wit_args_def)
  have "length (side_of wit_args []) \<le> 1000"
    using s [of 0] s [of 3] s [of 1] s [of 2]
    by (simp add: side_of_def wit_args_def wide_bytes_def serialize_aux_def)
  with h m1 t m show ?thesis unfolding e length_written by (simp add: MAX_BLOCK_SIZE_def)
qed

lemma wit_parsed: "\<exists>s. parse_share (ps_raw s) [1] = Inr s \<and> carries wit_args s"
proof -
  have w: "sa_aux wit_args = []" by (simp add: wit_args_def)
  from built_share [OF wit_args_ok, of "[1]"] w obtain mroot where
    l: "length mroot = 32" and v: "verify_proof_by_index (built_id [1] wit_args (encode_tree_params 1 0) []) []
      (aux_slot [1] 0 1) 1 mroot" by auto
  have "\<exists>s. parse_share (mp_data (main_of wit_args (encode_tree_params 1 0) mroot) @ side_of wit_args []) [1] = Inr s \<and>
      carries wit_args s \<and> ps_id s = built_id [1] wit_args (encode_tree_params 1 0) [] \<and>
      ps_raw s = mp_data (main_of wit_args (encode_tree_params 1 0) mroot) @ side_of wit_args [] \<and> ps_n_aux_chains s = 1 \<and>
      ps_aux_nonce s = 0 \<and> ps_merkle_root s = mroot \<and> ps_merkle_proof s = []"
    by (rule parse_written [OF wit_args_ok refl _ _ _ l _ _ refl length_wit_share [OF l] built_id_def v]) simp_all
  then show ?thesis by metis
qed

text \<open>C24. A share built from arguments the format can carry is a share the parser accepts, and it reads back what was
  written: every field, the number of chains and the bytes. With other chains the proof by index made for the
  placeholder leaf is verified for the share's own id, as long as a nonce was found and no chain's hash is the
  placeholder.\<close>

theorem built_share_parses:
  assumes "args_ok a" "share_placeholder cid \<notin> (fst \<circ> snd) ` set (sa_aux a)"
    and "sa_aux a = [] \<or> (\<exists>nonce. find_aux_nonce (cid # dkeys (sa_aux a)) = Inr nonce)"
  shows "\<exists>raw. build_share cid a = Inr raw \<and> (length raw \<le> MAX_BLOCK_SIZE \<longrightarrow>
     (\<exists>s. parse_share raw cid = Inr s \<and> carries a s \<and> ps_raw s = raw \<and> ps_n_aux_chains s = 1 + length (sa_aux a)))"
proof -
  let ?n = "1 + length (sa_aux a)"
  from built_share [OF assms] obtain nonce pf mroot where
    b: "build_share cid a = Inr (mp_data (main_of a (encode_tree_params ?n nonce) mroot) @ side_of a pf)"
    and l: "length mroot = 32" "list_all (\<lambda>b. length b = 32) pf" "length pf \<le> 8" "nonce < 2 ^ 32"
    and v: "verify_proof_by_index (built_id cid a (encode_tree_params ?n nonce) pf) pf (aux_slot cid nonce ?n) ?n mroot"
    by blast
  have n: "1 \<le> ?n" "?n \<le> 256" using assms(1) by (simp_all add: args_ok_def)
  from parse_written [OF assms(1) refl n l(4) l(1-3) refl _ built_id_def v] b show ?thesis by blast
qed

lemma built_share_parses_witness:
  "\<exists>raw s. build_share [1] wit_args = Inr raw \<and> parse_share raw [1] = Inr s \<and> ps_height s = 3 \<and> ps_nonce s = 7"
proof -
  have w: "sa_aux wit_args = []" by (simp add: wit_args_def)
  have f: "share_placeholder [1] \<notin> (fst \<circ> snd) ` set (sa_aux wit_args)" "sa_aux wit_args = [] \<or>
      (\<exists>nonce. find_aux_nonce ([1] # dkeys (sa_aux wit_args)) = Inr nonce)" by (simp_all add: w)
  obtain raw where r: "build_share [1] wit_args = Inr raw" "length raw \<le> MAX_BLOCK_SIZE \<longrightarrow>
     (\<exists>s. parse_share raw [1] = Inr s \<and> carries wit_args s \<and> ps_raw s = raw \<and> ps_n_aux_chains s = 1 + length (sa_aux wit_args))"
    using built_share_parses [OF wit_args_ok f] by blast
  have "length raw \<le> MAX_BLOCK_SIZE"
    using built_share [OF wit_args_ok f] r(1) length_wit_share by (auto simp: w)
  with r show ?thesis by (auto simp: carries_def wit_args_def)
qed

end
