(* ===== verification/Stores.thy ===== *)
theory Stores
  imports ShareFacts BlobDb Headers
begin

text \<open>
  \<open>transpeer/anchor/stores.py\<close>: the anchor store - verified header rows, block blobs and the current view, saved as one
  document - and the share store of a venue, kept in memory and as one file per share.
\<close>

section \<open>The anchor store\<close>

text \<open>The lists of a view read from a document are whatever the document holds: the code does not check their elements.\<close>

record stored_view =
  sv_first :: int
  sv_ids :: "bytes list"
  sv_timestamps :: "json list"
  sv_difficulties :: "json list"
  sv_cumulative :: "json list"
  sv_blobs :: "bytes list"
  sv_checkpoint_height :: int

definition stored_of :: "chain_view \<Rightarrow> stored_view" where
  "stored_of v = \<lparr> sv_first = cv_first v, sv_ids = cv_ids v, sv_timestamps = map JInt (cv_timestamps v),
     sv_difficulties = map JInt (cv_difficulties v), sv_cumulative = map JInt (cv_cumulative v), sv_blobs = cv_blobs v,
     sv_checkpoint_height = cv_checkpoint_height v \<rparr>"

record anchor_store =
  as_headers :: "(int, header_row) dict"
  as_blocks :: "(int, bytes) dict"
  as_view :: "stored_view option"

definition empty_anchor :: anchor_store where
  "empty_anchor = \<lparr> as_headers = [], as_blocks = [], as_view = None \<rparr>"

definition put_headers :: "header_row list \<Rightarrow> anchor_store \<Rightarrow> anchor_store" where
  "put_headers rows s = s\<lparr> as_headers := fold (\<lambda>row. dput (hr_height row) row) rows (as_headers s) \<rparr>"

text \<open>The loop adds a row in each round, so \<open>n\<close> rounds remain when \<open>n\<close> rows are missing.\<close>

primrec header_run :: "nat \<Rightarrow> int \<Rightarrow> (int, header_row) dict \<Rightarrow> header_row list" where
  "header_run 0 h d = []"
| "header_run (Suc n) h d = (case dget d h of None \<Rightarrow> [] | Some row \<Rightarrow> row # header_run n (h + 1) d)"

definition header_rows :: "int \<Rightarrow> nat \<Rightarrow> anchor_store \<Rightarrow> header_row list" where
  "header_rows from_height ct s = header_run ct from_height (as_headers s)"

definition put_block :: "int \<Rightarrow> bytes \<Rightarrow> anchor_store \<Rightarrow> anchor_store" where
  "put_block height blob s = s\<lparr> as_blocks := dput height blob (as_blocks s) \<rparr>"

definition block_at :: "int \<Rightarrow> anchor_store \<Rightarrow> bytes option" where
  "block_at height s = dget (as_blocks s) height"

definition anchor_tip_height :: "anchor_store \<Rightarrow> int option" where
  "anchor_tip_height s = (if as_headers s = [] then None else Some (Max (set (dkeys (as_headers s)))))"

definition prune_headers :: "int \<Rightarrow> anchor_store \<Rightarrow> anchor_store" where
  "prune_headers keep s = s\<lparr> as_headers := filter (\<lambda>(h, row). \<not> h < keep) (as_headers s) \<rparr>"

definition prune_blocks :: "int \<Rightarrow> anchor_store \<Rightarrow> anchor_store" where
  "prune_blocks keep s = s\<lparr> as_blocks := filter (\<lambda>(h, blob). \<not> h < keep) (as_blocks s) \<rparr>"

definition prune_anchor :: "int \<Rightarrow> anchor_store \<Rightarrow> anchor_store" where
  "prune_anchor keep s = prune_blocks keep (prune_headers keep s)"

section \<open>Its document\<close>

definition view_to_dict :: "stored_view option \<Rightarrow> json" where
  "view_to_dict view = (case view of None \<Rightarrow> JNull | Some v \<Rightarrow> JObj
     [(''first'', JInt (sv_first v)), (''ids'', JList (map (\<lambda>i. JStr (hex_of i)) (sv_ids v))),
      (''timestamps'', JList (sv_timestamps v)), (''difficulties'', JList (sv_difficulties v)),
      (''cumulative'', JList (sv_cumulative v)), (''blobs'', JList (map (\<lambda>b. JStr (hex_of b)) (sv_blobs v))),
      (''checkpoint_height'', JInt (sv_checkpoint_height v))])"

definition anchor_save :: "anchor_store \<Rightarrow> json" where
  "anchor_save s = JObj
     [(''headers'', JList (map (\<lambda>row. JList [JInt (hr_height row), JStr (hex_of (hr_blob row)), JInt (hr_difficulty row)])
         (dvals (as_headers s)))),
      (''blocks'', JObj (map (\<lambda>(h, blob). (str_int h, JStr (hex_of blob))) (as_blocks s))),
      (''view'', view_to_dict (as_view s))]"

text \<open>Iterating over a value: an array, the characters of a string or the keys of an object.\<close>

fun py_iter :: "json \<Rightarrow> json list result" where
  "py_iter (JList vs) = Inr vs"
| "py_iter (JStr s) = Inr (map (\<lambda>c. JStr [c]) s)"
| "py_iter (JObj d) = Inr (map JStr (dkeys d))"
| "py_iter v = Inl (TypeError ''not iterable'')"

definition view_from_dict :: "json \<Rightarrow> stored_view option result" where
  "view_from_dict d = (if d = JNull then Inr None else
     bindR (bindR (json_get ''first'' d) json_int) (\<lambda>first.
     bindR (bindR (bindR (json_get ''ids'' d) py_iter) (mapR json_hex)) (\<lambda>ids.
     bindR (bindR (json_get ''timestamps'' d) py_iter) (\<lambda>timestamps.
     bindR (bindR (json_get ''difficulties'' d) py_iter) (\<lambda>difficulties.
     bindR (bindR (json_get ''cumulative'' d) py_iter) (\<lambda>cumulative.
     bindR (bindR (bindR (json_get ''blobs'' d) py_iter) (mapR json_hex)) (\<lambda>blobs.
     bindR (bindR (json_get_or ''checkpoint_height'' (JInt 0) d) json_int) (\<lambda>checkpoint_height.
       Inr (Some \<lparr> sv_first = first, sv_ids = ids, sv_timestamps = timestamps, sv_difficulties = difficulties,
         sv_cumulative = cumulative, sv_blobs = blobs, sv_checkpoint_height = checkpoint_height \<rparr>)))))))))"

definition header_from_json :: "json \<Rightarrow> header_row result" where
  "header_from_json v = bindR (py_iter v) (\<lambda>xs. case xs of
     [height, blob_hex, difficulty] \<Rightarrow>
       bindR (json_int height) (\<lambda>h. bindR (json_hex blob_hex) (\<lambda>b. bindR (json_int difficulty) (\<lambda>d.
         Inr \<lparr> hr_height = h, hr_blob = b, hr_difficulty = d \<rparr>)))
   | _ \<Rightarrow> Inl (ValueError ''not enough values to unpack''))"

definition headers_from_json :: "json \<Rightarrow> (int, header_row) dict result" where
  "headers_from_json doc =
     bindR (bindR (json_get_or ''headers'' (JList []) doc) py_iter) (\<lambda>vs.
     bindR (mapR header_from_json vs) (\<lambda>rows. Inr (fold (\<lambda>row. dput (hr_height row) row) rows [])))"

definition blocks_from_json :: "json \<Rightarrow> (int, bytes) dict result" where
  "blocks_from_json doc =
     bindR (bindR (json_get_or ''blocks'' (JObj []) doc) json_items) (\<lambda>kvs.
     bindR (mapR (\<lambda>(h, v). bindR (int_of_str h) (\<lambda>h. bindR (json_hex v) (\<lambda>b. Inr (h, b)))) kvs) (\<lambda>ps.
       Inr (fold (\<lambda>(h, b). dput h b) ps [])))"

text \<open>The exceptions that reset the store; any other leaves it as far as the load had come and is raised.\<close>

definition load_caught :: "exn \<Rightarrow> bool" where
  "load_caught e \<longleftrightarrow> is_value_error e \<or> (\<exists>m. e = TypeError m) \<or> (\<exists>m. e = KeyError m)"

definition anchor_load_failed :: "exn \<Rightarrow> anchor_store \<Rightarrow> exn option \<times> anchor_store" where
  "anchor_load_failed e s = (if load_caught e then (None, empty_anchor) else (Some e, s))"

text \<open>\<open>doc\<close> is the parsed document, nothing when the file cannot be read or is not JSON.\<close>

definition anchor_load :: "json option \<Rightarrow> anchor_store \<Rightarrow> exn option \<times> anchor_store" where
  "anchor_load doc s = (case doc of None \<Rightarrow> (None, s) | Some doc \<Rightarrow>
     (case headers_from_json doc of Inl e \<Rightarrow> anchor_load_failed e s | Inr hs \<Rightarrow>
      (let s = s\<lparr> as_headers := hs \<rparr> in
       case blocks_from_json doc of Inl e \<Rightarrow> anchor_load_failed e s | Inr bs \<Rightarrow>
      (let s = s\<lparr> as_blocks := bs \<rparr> in
       case bindR (json_get_or ''view'' JNull doc) view_from_dict of Inl e \<Rightarrow> anchor_load_failed e s | Inr v \<Rightarrow>
         (None, s\<lparr> as_view := v \<rparr>)))))"

section \<open>The share store\<close>

text \<open>\<open>ss_dir\<close> is the content of the store's directory, nothing while it does not exist; \<open>ss_path\<close> whether there is a path.\<close>

record share_store =
  ss_shares :: "(bytes, parsed_share) dict"
  ss_by_root :: "(bytes, bytes) dict"
  ss_path :: bool
  ss_dir :: "(string, bytes) dict option"

definition new_share_store :: "bool \<Rightarrow> (string, bytes) dict option \<Rightarrow> share_store" where
  "new_share_store path dir = \<lparr> ss_shares = [], ss_by_root = [], ss_path = path, ss_dir = dir \<rparr>"

definition index_share :: "parsed_share \<Rightarrow> share_store \<Rightarrow> share_store" where
  "index_share share s = s\<lparr> ss_shares := dput (ps_id share) share (ss_shares s),
     ss_by_root := dput (ps_merkle_root share) (ps_id share) (ss_by_root s) \<rparr>"

definition share_add :: "parsed_share \<Rightarrow> share_store \<Rightarrow> bool \<times> share_store" where
  "share_add share s =
     (if dget (ss_shares s) (ps_id share) \<noteq> None then (False, s)
      else (True, let s = index_share share s in
        if ss_path s then s\<lparr> ss_dir := Some (dput (hex_of (ps_id share)) (ps_raw share) (case ss_dir s of None \<Rightarrow> [] | Some d \<Rightarrow> d)) \<rparr>
        else s))"

definition share_get :: "bytes \<Rightarrow> share_store \<Rightarrow> parsed_share option" where
  "share_get i s = dget (ss_shares s) i"

definition share_raw :: "bytes \<Rightarrow> share_store \<Rightarrow> bytes option" where
  "share_raw i s = map_option ps_raw (dget (ss_shares s) i)"

definition share_by_root :: "bytes \<Rightarrow> share_store \<Rightarrow> parsed_share option" where
  "share_by_root mroot s = (case dget (ss_by_root s) mroot of None \<Rightarrow> None | Some i \<Rightarrow> dget (ss_shares s) i)"

primrec share_walk :: "nat \<Rightarrow> bytes \<Rightarrow> share_store \<Rightarrow> parsed_share list" where
  "share_walk 0 i s = []"
| "share_walk (Suc n) i s = (case dget (ss_shares s) i of None \<Rightarrow> [] | Some sh \<Rightarrow> sh # share_walk n (ps_parent sh) s)"

definition tip_key :: "parsed_share \<Rightarrow> int \<times> bytes" where
  "tip_key sh = (- int (ps_cumulative_difficulty sh), ps_id sh)"

definition share_tip :: "share_store \<Rightarrow> parsed_share option" where
  "share_tip s = min_by tip_key (dvals (ss_shares s))"

definition drop_share :: "bytes \<Rightarrow> share_store \<Rightarrow> share_store" where
  "drop_share i s = (case dget (ss_shares s) i of None \<Rightarrow> s | Some sh \<Rightarrow>
     s\<lparr> ss_shares := ddel i (ss_shares s), ss_by_root := ddel (ps_merkle_root sh) (ss_by_root s),
        ss_dir := (if ss_path s then map_option (ddel (hex_of i)) (ss_dir s) else ss_dir s) \<rparr>)"

definition share_prune :: "int \<Rightarrow> int \<Rightarrow> share_store \<Rightarrow> share_store" where
  "share_prune tip window s =
     (let cutoff = tip - 4 * window;
          stale = map fst (filter (\<lambda>(i, sh). int (ps_height sh) < cutoff) (ss_shares s))
      in fold drop_share stale s)"

definition share_count :: "share_store \<Rightarrow> nat" where
  "share_count s = length (ss_shares s)"

text \<open>Loading goes through the regular files of the directory in the order they are listed; a file that cannot be read
  (no bytes) or is no share of the venue is deleted.\<close>

definition load_file :: "bytes \<Rightarrow> string \<times> bytes option \<Rightarrow> share_store \<Rightarrow> share_store" where
  "load_file venue f s = (case f of (name, content) \<Rightarrow>
     (case content of
        None \<Rightarrow> s\<lparr> ss_dir := map_option (ddel name) (ss_dir s) \<rparr>
      | Some data \<Rightarrow> (case parse_share data venue of
            Inl e \<Rightarrow> s\<lparr> ss_dir := map_option (ddel name) (ss_dir s) \<rparr>
          | Inr share \<Rightarrow> index_share share s)))"

definition share_load :: "bytes \<Rightarrow> (string \<times> bytes option) list \<Rightarrow> share_store \<Rightarrow> share_store" where
  "share_load venue files s =
     (if \<not> ss_path s \<or> ss_dir s = None then s
      else fold (load_file venue) files (s\<lparr> ss_shares := [], ss_by_root := [] \<rparr>))"

definition venue_dir :: "string \<Rightarrow> bytes \<Rightarrow> string" where
  "venue_dir data_dir venue = data_dir @ ''/venues/'' @ hex_of venue"

section \<open>The anchor store read back\<close>

lemma py_int_str_int: "py_int (str_int h) = Some h"
proof (cases "h < 0")
  case False
  then show ?thesis using py_int_digits [OF str_nat_digits str_nat_nonempty, of "nat h"] by (simp add: str_int_def)
next
  case True
  let ?d = "str_nat (nat (- h))"
  have sp: "\<not> is_space CHR ''-''" by (simp add: is_space_def)
  have r: "rev (str_int h) = rev ?d @ ''-''" using True by (simp add: str_int_def)
  obtain c cs where c: "rev ?d = c # cs" by (cases "rev ?d") auto
  have "is_digit c" using str_nat_digits [of "nat (- h)"] c by (metis list.set_intros(1) list_all_iff set_rev)
  then have "dropWhile is_space (rev (str_int h)) = rev (str_int h)" using digit_not_space by (simp add: r c)
  then have "strip (str_int h) = str_int h" using True sp by (simp add: strip_def str_int_def)
  moreover have "digits_us False ?d 0 = Some (nat (- h))"
    using digits_us_digits [OF str_nat_digits, of "nat (- h)" False 0] digits_val_str_nat [of "nat (- h)"]
    by (simp add: digits_val_def)
  ultimately show ?thesis using True by (simp add: py_int_def str_int_def)
qed

lemma int_of_str_signed [simp]: "int_of_str (str_int h) = Inr h"
  by (simp add: int_of_str_def py_int_str_int)

definition anchor_ok :: "anchor_store \<Rightarrow> bool" where
  "anchor_ok s \<longleftrightarrow> dict_ok (as_headers s) \<and> (\<forall>(h, row) \<in> set (as_headers s). hr_height row = h) \<and> dict_ok (as_blocks s)"

lemma fold_dput_new:
  "distinct (map fst kvs) \<Longrightarrow> fst ` set kvs \<inter> fst ` set d = {} \<Longrightarrow> fold (\<lambda>(k, v). dput k v) kvs d = d @ kvs"
proof (induction kvs arbitrary: d)
  case (Cons kv kvs)
  obtain k v where kv: "kv = (k, v)" by fastforce
  have "dput k v d = d @ [(k, v)]" using Cons.prems by (auto simp: kv map_of_eq_None_iff intro!: dput_new)
  with Cons kv show ?case by auto
qed simp

lemma fold_dput_keyed: "fold (\<lambda>row. dput (f row) row) rows d = fold (\<lambda>(k, v). dput k v) (map (\<lambda>row. (f row, row)) rows) d"
  by (induction rows arbitrary: d) simp_all

lemma mapR_inverse: "(\<And>x. x \<in> set xs \<Longrightarrow> g (f x) = Inr x) \<Longrightarrow> mapR g (map f xs) = Inr xs"
  by (induction xs) auto

lemma view_from_to: "view_from_dict (view_to_dict v) = Inr v"
proof (cases v)
  case (Some w)
  have m: "mapR json_hex (map (\<lambda>b. JStr (hex_of b)) bs) = Inr bs" for bs by (rule mapR_inverse) simp
  show ?thesis unfolding Some view_to_dict_def option.case view_from_dict_def by (simp add: m)
qed (simp add: view_to_dict_def view_from_dict_def)

lemma headers_from_save:
  assumes "anchor_ok s"
  shows "headers_from_json (anchor_save s) = Inr (as_headers s)"
proof -
  let ?f = "\<lambda>row. JList [JInt (hr_height row), JStr (hex_of (hr_blob row)), JInt (hr_difficulty row)]"
  have m: "mapR header_from_json (map ?f rows) = Inr rows" for rows
    by (rule mapR_inverse) (simp add: header_from_json_def)
  have "map (\<lambda>row. (hr_height row, row)) (dvals (as_headers s)) = as_headers s"
    using assms by (auto simp: anchor_ok_def intro!: map_idI)
  then have "fold (\<lambda>row. dput (hr_height row) row) (dvals (as_headers s)) [] = as_headers s"
    using assms fold_dput_new [of "as_headers s" "[]"] by (simp add: fold_dput_keyed anchor_ok_def dict_ok_def)
  then show ?thesis
    by (simp add: headers_from_json_def anchor_save_def m del: map_map)
qed

lemma blocks_from_save:
  assumes "anchor_ok s"
  shows "blocks_from_json (anchor_save s) = Inr (as_blocks s)"
proof -
  let ?f = "\<lambda>(h, blob). (str_int h, JStr (hex_of blob))"
  have m: "mapR (\<lambda>(h, v). bindR (int_of_str h) (\<lambda>h. bindR (json_hex v) (\<lambda>b. Inr (h, b)))) (map ?f bs) = Inr bs" for bs
    by (rule mapR_inverse) auto
  have "fold (\<lambda>(h, b). dput h b) (as_blocks s) [] = as_blocks s"
    using assms fold_dput_new [of "as_blocks s" "[]"] by (simp add: anchor_ok_def dict_ok_def)
  then show ?thesis by (simp add: blocks_from_json_def anchor_save_def m)
qed

lemma anchor_load_save: "anchor_ok s \<Longrightarrow> anchor_load (Some (anchor_save s)) t = (None, s)"
proof -
  assume a: "anchor_ok s"
  have v: "bindR (json_get_or ''view'' JNull (anchor_save s)) view_from_dict = Inr (as_view s)"
    by (simp add: anchor_save_def view_from_to)
  show ?thesis unfolding anchor_load_def by (simp add: headers_from_save [OF a] blocks_from_save [OF a] v Let_def)
qed

text \<open>The operations of the anchor store.\<close>

datatype anchor_op = PutHeaders "header_row list" | PutBlock int bytes | PruneAnchor int | PruneBlocks int | SetView chain_view

fun anchor_step :: "anchor_op \<Rightarrow> anchor_store \<Rightarrow> anchor_store" where
  "anchor_step (PutHeaders rows) s = put_headers rows s"
| "anchor_step (PutBlock h b) s = put_block h b s"
| "anchor_step (PruneAnchor h) s = prune_anchor h s"
| "anchor_step (PruneBlocks h) s = prune_blocks h s"
| "anchor_step (SetView v) s = s\<lparr> as_view := Some (stored_of v) \<rparr>"

lemma put_headers_ok: "dict_ok d \<Longrightarrow> \<forall>(h, row) \<in> set d. hr_height row = h \<Longrightarrow>
    dict_ok (fold (\<lambda>row. dput (hr_height row) row) rows d) \<and>
    (\<forall>(h, row) \<in> set (fold (\<lambda>row. dput (hr_height row) row) rows d). hr_height row = h)"
proof (induction rows arbitrary: d)
  case (Cons row rows)
  have "\<forall>(h, r) \<in> set (dput (hr_height row) row d). hr_height r = h" using Cons.prems by (auto simp: set_dput_ok)
  with Cons.IH [of "dput (hr_height row) row d"] Cons.prems(1) show ?case by auto
qed simp

interpretation anchor_history: history anchor_step "\<lambda>_. True" anchor_ok
proof
  show "anchor_ok (anchor_step x s)" if "anchor_ok s" for x s
    using that put_headers_ok [of "as_headers s"]
    by (cases x) (auto simp: anchor_ok_def put_headers_def put_block_def prune_anchor_def prune_headers_def prune_blocks_def)
qed

text \<open>What a request for rows returns: the rows from the height on, up to the first missing one or the limit.\<close>

lemma header_run_facts:
  "length (header_run n h d) \<le> n \<and> (\<forall>i < length (header_run n h d). dget d (h + int i) = Some (header_run n h d ! i)) \<and>
   (length (header_run n h d) < n \<longrightarrow> dget d (h + int (length (header_run n h d))) = None)"
proof (induction n arbitrary: h)
  case (Suc n)
  show ?case
  proof (cases "dget d h")
    case (Some row)
    then have e: "header_run (Suc n) h d = row # header_run n (h + 1) d" by simp
    show ?thesis unfolding e
    proof (intro conjI allI impI)
      fix i assume "i < length (row # header_run n (h + 1) d)"
      then show "dget d (h + int i) = Some ((row # header_run n (h + 1) d) ! i)"
        using Suc [of "h + 1"] Some by (cases i) (auto simp: algebra_simps)
    qed (use Suc [of "h + 1"] in \<open>auto simp: algebra_simps\<close>)
  qed simp
qed simp

section \<open>The share store and its directory\<close>

datatype share_op = AddShare parsed_share | PruneShares int int

fun share_step :: "share_op \<Rightarrow> share_store \<Rightarrow> share_store" where
  "share_step (AddShare sh) s = snd (share_add sh s)"
| "share_step (PruneShares tip window) s = share_prune tip window s"

text \<open>Every share handed to the store was parsed for its venue.\<close>

fun share_op_ok :: "bytes \<Rightarrow> share_op \<Rightarrow> bool" where
  "share_op_ok venue (AddShare sh) = (parse_share (ps_raw sh) venue = Inr sh)"
| "share_op_ok venue (PruneShares tip window) = True"

definition dir_of :: "share_store \<Rightarrow> (string, bytes) dict" where
  "dir_of s = (case ss_dir s of None \<Rightarrow> [] | Some d \<Rightarrow> d)"

definition share_inv :: "bytes \<Rightarrow> share_store \<Rightarrow> bool" where
  "share_inv venue s \<longleftrightarrow> dict_ok (ss_shares s) \<and> dict_ok (dir_of s) \<and> ss_path s \<and>
     (\<forall>(i, sh) \<in> set (ss_shares s). ps_id sh = i \<and> parse_share (ps_raw sh) venue = Inr sh) \<and>
     (\<forall>r i. dget (ss_by_root s) r = Some i \<longrightarrow> (\<exists>sh. dget (ss_shares s) i = Some sh \<and> ps_merkle_root sh = r)) \<and>
     (\<forall>i. dget (dir_of s) (hex_of i) = map_option ps_raw (dget (ss_shares s) i)) \<and>
     set (dkeys (dir_of s)) = hex_of ` set (dkeys (ss_shares s))"

lemma share_inv_add:
  assumes I: "share_inv venue s" and sh: "parse_share (ps_raw sh) venue = Inr sh"
  shows "share_inv venue (snd (share_add sh s))"
proof (cases "dget (ss_shares s) (ps_id sh)")
  case None
  let ?t = "snd (share_add sh s)"
  have t: "ss_shares ?t = ss_shares s @ [(ps_id sh, sh)]" "ss_by_root ?t = dput (ps_merkle_root sh) (ps_id sh) (ss_by_root s)"
    "dir_of ?t = dput (hex_of (ps_id sh)) (ps_raw sh) (dir_of s)" "ss_path ?t"
    using I None dput_new [OF None, of sh] by (simp_all add: share_add_def index_share_def share_inv_def dir_of_def Let_def)
  have lk: "dget (ss_shares ?t) i = (if i = ps_id sh then Some sh else dget (ss_shares s) i)" for i
    using None by (auto simp: t map_add_def split: option.split)
  show ?thesis unfolding share_inv_def t(2-4) lk
  proof (intro conjI allI impI)
    show "dict_ok (ss_shares ?t)" using I None by (auto simp: t(1) share_inv_def dict_ok_def map_of_eq_None_iff)
    show "\<forall>(i, sh') \<in> set (ss_shares ?t). ps_id sh' = i \<and> parse_share (ps_raw sh') venue = Inr sh'"
      using I sh by (auto simp: t(1) share_inv_def)
    fix r i assume "dget (dput (ps_merkle_root sh) (ps_id sh) (ss_by_root s)) r = Some i"
    then show "\<exists>sh'. (if i = ps_id sh then Some sh else dget (ss_shares s) i) = Some sh' \<and> ps_merkle_root sh' = r"
      using I None unfolding share_inv_def by (auto split: if_splits) (metis option.distinct(1))
  qed (use I in \<open>auto simp: share_inv_def t(1,4) dom_update\<close>)
next
  case (Some sh')
  then show ?thesis using I by (simp add: share_add_def)
qed

lemma dkeys_ddel: "set (dkeys (ddel k d)) = set (dkeys d) - {k}"
  by (auto simp: delete_keys)

lemma inj_hex_of: "inj hex_of"
  by (rule injI) simp

lemma share_inv_drop:
  assumes I: "share_inv venue s"
  shows "share_inv venue (drop_share i s)"
proof (cases "dget (ss_shares s) i")
  case (Some sh)
  let ?t = "drop_share i s"
  have t: "ss_shares ?t = ddel i (ss_shares s)" "ss_by_root ?t = ddel (ps_merkle_root sh) (ss_by_root s)"
    "dir_of ?t = ddel (hex_of i) (dir_of s)" "ss_path ?t"
    using I Some by (auto simp: drop_share_def share_inv_def dir_of_def split: option.split)
  show ?thesis unfolding share_inv_def t
  proof (intro conjI allI impI)
    fix r j assume a: "dget (ddel (ps_merkle_root sh) (ss_by_root s)) r = Some j"
    then have r: "r \<noteq> ps_merkle_root sh" "dget (ss_by_root s) r = Some j" by (auto split: if_splits)
    with I obtain sh' where "dget (ss_shares s) j = Some sh'" "ps_merkle_root sh' = r"
      unfolding share_inv_def by blast
    with r Some show "\<exists>sh'. dget (ddel i (ss_shares s)) j = Some sh' \<and> ps_merkle_root sh' = r" by auto
  next
    show "set (dkeys (ddel (hex_of i) (dir_of s))) = hex_of ` set (dkeys (ddel i (ss_shares s)))"
      using I unfolding share_inv_def by (simp only: dkeys_ddel image_set_diff [OF inj_hex_of] image_insert image_empty)
  qed (use I t(4) in \<open>auto simp: share_inv_def set_ddel\<close>)
qed (use I in \<open>simp add: drop_share_def\<close>)

lemma share_inv_prune: "share_inv venue s \<Longrightarrow> share_inv venue (share_prune tip window s)"
proof -
  have "share_inv venue s \<Longrightarrow> share_inv venue (fold drop_share is s)" for "is"
    by (induction "is" arbitrary: s) (auto simp: share_inv_drop)
  then show "share_inv venue s \<Longrightarrow> ?thesis" by (simp add: share_prune_def Let_def)
qed

interpretation share_history: history share_step "share_op_ok venue" "share_inv venue" for venue
proof
  show "share_inv venue (share_step x s)" if "share_op_ok venue x" "share_inv venue s" for x s
    using that by (cases x) (auto simp: share_inv_add share_inv_prune)
qed

lemma share_inv_new: "share_inv venue (new_share_store True None)" "share_inv venue (new_share_store True (Some []))"
  by (simp_all add: share_inv_def new_share_store_def dir_of_def)

text \<open>What loading the files of shares one after the other leaves.\<close>

lemma load_files:
  assumes "\<forall>(name, content) \<in> set files. \<exists>sh. content = Some (ps_raw sh) \<and> parse_share (ps_raw sh) venue = Inr sh \<and> name = hex_of (ps_id sh)"
    and "distinct (map fst files)" "dict_ok (ss_shares s)"
  shows "dict_ok (ss_shares (fold (load_file venue) files s)) \<and> ss_dir (fold (load_file venue) files s) = ss_dir s \<and>
    (\<forall>i. dget (ss_shares (fold (load_file venue) files s)) i =
      (case map_of files (hex_of i) of None \<Rightarrow> dget (ss_shares s) i | Some content \<Rightarrow>
        (case content of None \<Rightarrow> None | Some data \<Rightarrow> Some (projr (parse_share data venue)))))"
  using assms
proof (induction files arbitrary: s)
  case (Cons f files)
  obtain name content where f: "f = (name, content)" by fastforce
  with Cons.prems(1) obtain sh where sh: "content = Some (ps_raw sh)" "parse_share (ps_raw sh) venue = Inr sh" "name = hex_of (ps_id sh)"
    by auto
  have l: "load_file venue f s = index_share sh s" by (simp add: load_file_def f sh)
  have d: "dict_ok (ss_shares (index_share sh s))" "ss_dir (index_share sh s) = ss_dir s"
    using Cons.prems(3) by (simp_all add: index_share_def)
  have new: "map_of files name = None" using Cons.prems(2) f by (simp add: map_of_eq_None_iff)
  note ih = Cons.IH [OF _ _ d(1)]
  show ?case unfolding fold_simps l
  proof (intro conjI allI)
    fix i
    show "dget (ss_shares (fold (load_file venue) files (index_share sh s))) i =
      (case map_of (f # files) (hex_of i) of None \<Rightarrow> dget (ss_shares s) i | Some content \<Rightarrow>
        (case content of None \<Rightarrow> None | Some data \<Rightarrow> Some (projr (parse_share data venue))))"
      using ih Cons.prems new by (cases "i = ps_id sh") (auto simp: f sh index_share_def split: option.split)
  qed (use ih Cons.prems d in auto)
qed simp

lemma min_by_same:
  assumes "set xs = set ys" "inj_on f (set xs)"
  shows "min_by f xs = min_by f ys"
proof (cases "min_by f xs")
  case None
  with assms show ?thesis by simp
next
  case (Some x)
  then have "ys \<noteq> []" using assms(1) min_by_in [OF Some] by auto
  then obtain y where y: "min_by f ys = Some y" by (cases "min_by f ys") auto
  have "f x \<le> f y" "f y \<le> f x"
    using min_by_least [OF Some] min_by_least [OF y] min_by_in [OF Some] min_by_in [OF y] assms(1) by auto
  then have "x = y" using assms min_by_in [OF Some] min_by_in [OF y] by (metis inj_onD order_antisym)
  with Some y show ?thesis by simp
qed

lemma share_load_restores:
  assumes I: "share_inv venue s" and d: "ss_dir s = Some dir"
    and files: "distinct (map fst files)" "set files = (\<lambda>(name, data). (name, Some data)) ` set dir"
  defines "t \<equiv> share_load venue files (new_share_store True (Some dir))"
  shows "ss_dir t = ss_dir s" "dget (ss_shares t) = dget (ss_shares s)" "share_tip t = share_tip s" "share_count t = share_count s"
proof -
  have dir: "dir_of s = dir" "dict_ok dir" using I d by (simp_all add: dir_of_def share_inv_def)
  have lk: "dget dir (hex_of i) = map_option ps_raw (dget (ss_shares s) i)" for i
    using I unfolding share_inv_def dir(1) by blast
  have typed: "ps_id sh = i \<and> parse_share (ps_raw sh) venue = Inr sh" if "(i, sh) \<in> set (ss_shares s)" for i sh
    using I that unfolding share_inv_def by blast
  have entry: "\<exists>sh. data = ps_raw sh \<and> parse_share (ps_raw sh) venue = Inr sh \<and> name = hex_of (ps_id sh)" if "(name, data) \<in> set dir" for name data
  proof -
    have "name \<in> set (dkeys (dir_of s))" using that dir by force
    then have "name \<in> hex_of ` set (dkeys (ss_shares s))" using I by (simp only: share_inv_def)
    then obtain i sh where i: "name = hex_of i" "(i, sh) \<in> set (ss_shares s)" by auto
    then have "dget (ss_shares s) i = Some sh" using I dict_ok_dget [of "ss_shares s"] by (simp add: share_inv_def)
    moreover have "dget dir name = Some data" using dict_ok_dget [OF dir(2)] that by simp
    ultimately have "data = ps_raw sh" using i(1) lk [of i] by simp
    with typed [OF i(2)] i(1) show ?thesis by blast
  qed
  have t: "t = fold (load_file venue) files (new_share_store True (Some dir))"
    by (simp add: t_def share_load_def new_share_store_def)
  have fs: "\<forall>(name, content) \<in> set files. \<exists>sh. content = Some (ps_raw sh) \<and> parse_share (ps_raw sh) venue = Inr sh \<and> name = hex_of (ps_id sh)"
  proof safe
    fix name content assume "(name, content) \<in> set files"
    then obtain data where "(name, data) \<in> set dir" "content = Some data" using files(2) by auto
    with entry [OF this(1)] show "\<exists>sh. content = Some (ps_raw sh) \<and> parse_share (ps_raw sh) venue = Inr sh \<and> name = hex_of (ps_id sh)"
      by blast
  qed
  note L = load_files [OF fs files(1), of "new_share_store True (Some dir)"]
  have ok: "dict_ok (ss_shares t)" and sd: "ss_dir t = Some dir" using L by (simp_all add: t new_share_store_def)
  show "ss_dir t = ss_dir s" using sd d by simp
  have mf: "map_of files name = map_option Some (dget dir name)" for name
  proof (cases "dget dir name")
    case None
    then have "name \<notin> fst ` set files" unfolding files(2) by (force simp: map_of_eq_None_iff)
    then have "map_of files name = None" by (simp only: map_of_eq_None_iff not_False_eq_True)
    with None show ?thesis by simp
  next
    case (Some data)
    then have "(name, Some data) \<in> set files" unfolding files(2) by (force dest: map_of_SomeD)
    with Some files(1) show ?thesis by simp
  qed
  show same: "dget (ss_shares t) = dget (ss_shares s)"
  proof
    fix i
    have "dget (ss_shares t) i = (case dget dir (hex_of i) of None \<Rightarrow> None | Some data \<Rightarrow> Some (projr (parse_share data venue)))"
      using L mf [of "hex_of i"] by (simp add: t new_share_store_def split: option.split)
    also have "\<dots> = dget (ss_shares s) i"
    proof (cases "dget (ss_shares s) i")
      case (Some sh)
      then have "parse_share (ps_raw sh) venue = Inr sh" using typed [OF map_of_SomeD] by blast
      with Some lk show ?thesis by simp
    qed (simp add: lk)
    finally show "dget (ss_shares t) i = dget (ss_shares s) i" .
  qed
  have ids: "\<forall>(i, sh) \<in> set (ss_shares s). ps_id sh = i" and oks: "dict_ok (ss_shares s)" using I typed by (auto simp: share_inv_def)
  have set: "set (ss_shares t) = set (ss_shares s)"
    using same dict_ok_dget [OF ok] dict_ok_dget [OF oks] by auto
  have "inj_on tip_key (set (dvals (ss_shares t)))"
  proof (rule inj_onI)
    fix x y assume "x \<in> set (dvals (ss_shares t))" "y \<in> set (dvals (ss_shares t))" "tip_key x = tip_key y"
    then obtain i j where ij: "(i, x) \<in> set (ss_shares s)" "(j, y) \<in> set (ss_shares s)" "ps_id x = ps_id y"
      unfolding set_map set by (auto simp: tip_key_def)
    then have "i = j" using typed [OF ij(1)] typed [OF ij(2)] by simp
    then have "dget (ss_shares s) i = Some x" "dget (ss_shares s) i = Some y" using ij dict_ok_dget [OF oks] by simp_all
    then show "x = y" by simp
  qed
  then show "share_tip t = share_tip s"
    unfolding share_tip_def by (rule min_by_same [rotated]) (simp only: set_map set)
  show "share_count t = share_count s"
    unfolding share_count_def using set ok oks
    by (metis dict_ok_def distinct_card distinct_map)
qed

section \<open>Claims\<close>

text \<open>C25. After any history of shares added and pruned, starting the store again over its directory restores it, in
  whatever order the files are listed: the same share under every id, the same tip, the same number of shares, and no
  file deleted.\<close>

theorem share_store_restart:
  assumes "list_all (share_op_ok venue) ops" "s = fold share_step ops (new_share_store True None)" "ss_dir s = Some dir"
    and "distinct (map fst files)" "set files = (\<lambda>(name, data). (name, Some data)) ` set dir"
  shows "share_get i (share_load venue files (new_share_store True (Some dir))) = share_get i s \<and>
    share_tip (share_load venue files (new_share_store True (Some dir))) = share_tip s \<and>
    share_count (share_load venue files (new_share_store True (Some dir))) = share_count s \<and>
    ss_dir (share_load venue files (new_share_store True (Some dir))) = Some dir"
proof -
  have "share_inv venue s"
    unfolding assms(2) by (rule share_history.inv_run [OF assms(1)]) (rule share_inv_new)
  from share_load_restores [OF this assms(3-5)] assms(3) show ?thesis by (simp add: share_get_def)
qed

lemma share_store_restart_witness:
  "\<exists>venue sh. share_tip (share_load venue [(hex_of (ps_id sh), Some (ps_raw sh))]
     (new_share_store True (Some [(hex_of (ps_id sh), ps_raw sh)]))) = Some sh"
proof -
  obtain sh where sh: "parse_share (ps_raw sh) [1] = Inr sh" using wit_parsed by blast
  let ?s = "fold share_step [AddShare sh] (new_share_store True None)"
  have d: "ss_dir ?s = Some [(hex_of (ps_id sh), ps_raw sh)]"
    by (simp add: share_add_def new_share_store_def index_share_def Let_def)
  have "share_tip (share_load [1] [(hex_of (ps_id sh), Some (ps_raw sh))]
     (new_share_store True (Some [(hex_of (ps_id sh), ps_raw sh)]))) = share_tip ?s"
    using share_store_restart [OF _ refl d, of "[1]" "[(hex_of (ps_id sh), Some (ps_raw sh))]"] sh by simp
  moreover have "share_tip ?s = Some sh"
    by (simp add: share_add_def new_share_store_def index_share_def Let_def share_tip_def)
  ultimately show ?thesis by metis
qed

text \<open>The anchor store's document restores it: whatever rows, blocks and views were put and pruned, loading what was
  saved gives the same store back, over any earlier content.\<close>

theorem anchor_store_restored:
  "anchor_load (Some (anchor_save (fold anchor_step ops empty_anchor))) t = (None, fold anchor_step ops empty_anchor)"
proof (rule anchor_load_save)
  have "anchor_ok empty_anchor" by (simp add: anchor_ok_def empty_anchor_def)
  then show "anchor_ok (fold anchor_step ops empty_anchor)"
    using anchor_history.inv_run [of ops] by (simp add: list_all_iff)
qed

end
