(* ===== verification/Blake2b.thy ===== *)
theory Blake2b
  imports Prelude
begin

text \<open>
  \<open>hashlib.blake2b\<close> of the standard library, unkeyed, with the digest size the caller asks for.
\<close>

unbundle bit_operations_syntax

type_synonym word64 = "64 word"

definition BLAKE2B_IV :: "word64 list" where
  "BLAKE2B_IV = [
     0x6A09E667F3BCC908, 0xBB67AE8584CAA73B, 0x3C6EF372FE94F82B, 0xA54FF53A5F1D36F1,
     0x510E527FADE682D1, 0x9B05688C2B3E6C1F, 0x1F83D9ABFB41BD6B, 0x5BE0CD19137E2179]"

definition BLAKE2B_SIGMA :: "nat list list" where
  "BLAKE2B_SIGMA = [
     [0, 1, 2, 3, 4, 5, 6, 7, 8, 9, 10, 11, 12, 13, 14, 15],
     [14, 10, 4, 8, 9, 15, 13, 6, 1, 12, 0, 2, 11, 7, 5, 3],
     [11, 8, 12, 0, 5, 2, 15, 13, 10, 14, 3, 6, 7, 1, 9, 4],
     [7, 9, 3, 1, 13, 12, 11, 14, 2, 6, 5, 10, 4, 0, 15, 8],
     [9, 0, 5, 7, 2, 4, 10, 15, 14, 1, 11, 12, 6, 8, 3, 13],
     [2, 12, 6, 10, 0, 11, 8, 3, 4, 13, 7, 5, 15, 14, 1, 9],
     [12, 5, 1, 15, 14, 13, 4, 10, 0, 7, 6, 3, 9, 2, 8, 11],
     [13, 11, 7, 14, 12, 1, 3, 9, 5, 0, 15, 4, 8, 6, 2, 10],
     [6, 15, 14, 9, 11, 3, 0, 8, 12, 2, 13, 7, 1, 4, 10, 5],
     [10, 2, 8, 4, 7, 6, 1, 5, 15, 11, 9, 14, 3, 12, 13, 0]]"

definition BLAKE2B_LANES :: "(nat \<times> nat \<times> nat \<times> nat) list" where
  "BLAKE2B_LANES = [(0, 4, 8, 12), (1, 5, 9, 13), (2, 6, 10, 14), (3, 7, 11, 15),
     (0, 5, 10, 15), (1, 6, 11, 12), (2, 7, 8, 13), (3, 4, 9, 14)]"

definition rotr64 :: "nat \<Rightarrow> word64 \<Rightarrow> word64" where
  "rotr64 n v = drop_bit n v OR push_bit (64 - n) v"

definition blake_mix :: "(nat \<times> nat \<times> nat \<times> nat) \<Rightarrow> word64 \<times> word64 \<Rightarrow> word64 list \<Rightarrow> word64 list" where
  "blake_mix lane xy v = (case (lane, xy) of ((a, b, c, d), (x, y)) \<Rightarrow>
     (let va = v ! a + v ! b + x; vd = rotr64 32 (v ! d XOR va); vc = v ! c + vd; vb = rotr64 24 (v ! b XOR vc);
          va = va + vb + y; vd = rotr64 16 (vd XOR va); vc = vc + vd; vb = rotr64 63 (vb XOR vc)
      in v[a := va, b := vb, c := vc, d := vd]))"

definition blake_round :: "word64 list \<Rightarrow> nat \<Rightarrow> word64 list \<Rightarrow> word64 list" where
  "blake_round m r v =
     (let s = BLAKE2B_SIGMA ! (r mod 10) in
      fold (\<lambda>(i, lane). blake_mix lane (m ! (s ! (2 * i)), m ! (s ! (2 * i + 1)))) (enumerate 0 BLAKE2B_LANES) v)"

definition blake_compress :: "bytes \<Rightarrow> nat \<Rightarrow> bool \<Rightarrow> word64 list \<Rightarrow> word64 list" where
  "blake_compress block t final h =
     (let m = map (\<lambda>i. word_of_nat (le_val (slice block (8 * i) (8 * i + 8)))) [0..<16];
          iv = BLAKE2B_IV[4 := BLAKE2B_IV ! 4 XOR word_of_nat t,
                          5 := BLAKE2B_IV ! 5 XOR word_of_nat (t div 2 ^ 64),
                          6 := (if final then NOT (BLAKE2B_IV ! 6) else BLAKE2B_IV ! 6)];
          v = fold (blake_round m) [0..<12] (h @ iv)
      in map (\<lambda>i. h ! i XOR v ! i XOR v ! (i + 8)) [0..<8])"

function blake_blocks :: "bytes \<Rightarrow> nat \<Rightarrow> word64 list \<Rightarrow> word64 list" where
  "blake_blocks data t h =
     (if length data > 128 then blake_blocks (drop 128 data) (t + 128) (blake_compress (take 128 data) (t + 128) False h)
      else blake_compress (data @ replicate (128 - length data) 0) (t + length data) True h)"
  by pat_completeness auto
termination by (relation "measure (\<lambda>(d, t, h). length d)") auto

declare blake_blocks.simps [simp del]

definition blake2b :: "nat \<Rightarrow> bytes \<Rightarrow> bytes" where
  "blake2b digest_size data =
     (let h = BLAKE2B_IV[0 := BLAKE2B_IV ! 0 XOR 0x01010000 XOR word_of_nat digest_size]
      in take digest_size (concat (map (\<lambda>w. le_bytes 8 (unat w)) (blake_blocks data 0 h))))"

lemma length_blake_compress [simp]: "length (blake_compress block t final h) = 8"
  by (simp add: blake_compress_def Let_def)

lemma length_blake_blocks: "length (blake_blocks data t h) = 8"
proof (induction data t h rule: blake_blocks.induct)
  case (1 data t h)
  then show ?case by (subst blake_blocks.simps) simp
qed

lemma length_concat_8: "length (concat (map (\<lambda>w. le_bytes 8 (f w)) ws)) = 8 * length ws"
  by (induction ws) simp_all

lemma length_blake2b: "n \<le> 64 \<Longrightarrow> length (blake2b n data) = n"
  by (simp add: blake2b_def Let_def length_concat_8 length_blake_blocks)

end
