(* ===== verification/Pow.thy ===== *)
theory Pow
  imports Blake2b Wire Floats
begin

text \<open>
  \<open>transpeer/pow.py\<close>: the challenges bound to a peer entry or to a handshake, the difficulty rule, and solving and
  verifying with the EquiX library. The library is third-party code: \<open>lib\<close> is what the program finds of it, nothing when
  it is not installed. A Python string stands for its UTF-8 bytes.
\<close>

section \<open>The library\<close>

record equix =
  eq_alloc :: "int \<Rightarrow> bool"
  eq_solve :: "bytes \<Rightarrow> bytes list"
  eq_verify :: "bytes \<Rightarrow> bytes \<Rightarrow> int"

definition EQUIX_MAX_SOLS :: nat where "EQUIX_MAX_SOLS = 8"
definition EQUIX_SOLUTION_BYTES :: nat where "EQUIX_SOLUTION_BYTES = 16"
definition EQUIX_OK :: int where "EQUIX_OK = 0"
definition EQUIX_CTX_SOLVE :: int where "EQUIX_CTX_SOLVE = 1"
definition EQUIX_CTX_VERIFY :: int where "EQUIX_CTX_VERIFY = 2"

definition load_lib :: "equix option \<Rightarrow> equix result" where
  "load_lib lib = (case lib of
     None \<Rightarrow> Inl (RuntimeError ''libequix.so not found. Run: python equix/build.py'') | Some l \<Rightarrow> Inr l)"

text \<open>A context of the library for one purpose.\<close>

definition equix_ctx :: "int \<Rightarrow> string \<Rightarrow> equix option \<Rightarrow> equix result" where
  "equix_ctx flags msg lib = bindR (load_lib lib) (\<lambda>l. if eq_alloc l flags then Inr l else Inl (RuntimeError msg))"

section \<open>Challenges\<close>

definition str_bytes :: "string \<Rightarrow> bytes" where
  "str_bytes s = map (\<lambda>c. word_of_nat (of_char c)) s"

definition ADDRESS_BUCKET_SECS :: int where "ADDRESS_BUCKET_SECS = 21600"
definition HANDSHAKE_BUCKET_SECS :: int where "HANDSHAKE_BUCKET_SECS = 3600"

text \<open>\<open>bucket\<close> is the text the bucket is formatted to.\<close>

definition build_challenge :: "string \<Rightarrow> string \<Rightarrow> int \<Rightarrow> string \<Rightarrow> bytes" where
  "build_challenge network addr port bucket =
     blake2b 32 (str_bytes (network @ '':'' @ addr @ '':'' @ str_int port @ '':'' @ bucket))"

definition build_handshake_challenge :: "string \<Rightarrow> string \<Rightarrow> int \<Rightarrow> bytes" where
  "build_handshake_challenge client_ip server_node_id bucket =
     blake2b 32 (str_bytes (''handshake:'' @ client_ip @ '':'' @ server_node_id @ '':'' @ str_int bucket))"

definition equix_difficulty_ok :: "bytes \<Rightarrow> bytes \<Rightarrow> bytes \<Rightarrow> int \<Rightarrow> bool" where
  "equix_difficulty_ok challenge nonce solution_bytes effort =
     (int (le_val (blake2b 4 (challenge @ nonce @ solution_bytes))) * effort \<le> 0xFFFFFFFF)"

definition bytes_to_solution :: "bytes \<Rightarrow> bytes result" where
  "bytes_to_solution d =
     (if length d \<noteq> EQUIX_SOLUTION_BYTES then Inl (ValueError ''EquiX solution must be 16 bytes'') else Inr d)"

section \<open>Simulation\<close>

definition SIM_SOLVE_SECS_PER_EFFORT :: rat where "SIM_SOLVE_SECS_PER_EFFORT = fl (fl (41 / 10) / 100)"
definition SIM_SOLVE_FLOOR_SECS :: rat where "SIM_SOLVE_FLOOR_SECS = fl (1 / 5)"

definition estimated_solve_time :: "int \<Rightarrow> rat" where
  "estimated_solve_time effort = max SIM_SOLVE_FLOOR_SECS (fl (SIM_SOLVE_SECS_PER_EFFORT * of_int (max 0 effort)))"

definition SIM_PROOF_MAGIC :: bytes where "SIM_PROOF_MAGIC = str_bytes ''SIMPOW''"

definition is_sim_proof :: "bytes \<Rightarrow> bool" where
  "is_sim_proof nonce \<longleftrightarrow> take (length SIM_PROOF_MAGIC) nonce = SIM_PROOF_MAGIC"

text \<open>\<open>rand10\<close> and \<open>rand16\<close> are what \<open>os.urandom\<close> returns; \<open>now\<close> is \<open>int(time.time())\<close> after the sleep.\<close>

definition solve_simulated :: "bytes \<Rightarrow> bytes \<Rightarrow> int \<Rightarrow> bytes \<times> bytes \<times> int" where
  "solve_simulated rand10 rand16 now = (SIM_PROOF_MAGIC @ rand10, rand16, now div ADDRESS_BUCKET_SECS)"

section \<open>Solving\<close>

text \<open>One round of the search: the solutions of a nonce, the first one under the difficulty.\<close>

definition solve_round :: "equix \<Rightarrow> bytes \<Rightarrow> bytes \<Rightarrow> int \<Rightarrow> bytes option" where
  "solve_round l challenge nonce effort =
     find (\<lambda>sol. equix_difficulty_ok challenge nonce sol effort) (take EQUIX_MAX_SOLS (eq_solve l (challenge @ nonce)))"

text \<open>The counter is packed into eight bytes, which ends the search at $2^{64}$; \<open>rnd\<close> is the random half of each nonce.\<close>

function solve_from :: "equix \<Rightarrow> bytes \<Rightarrow> int \<Rightarrow> (nat \<Rightarrow> bytes) \<Rightarrow> nat \<Rightarrow> (bytes \<times> bytes) result" where
  "solve_from l challenge effort rnd n =
     (if n \<ge> 2 ^ 64 then Inl (StructError ''argument out of range'')
      else (case solve_round l challenge (le_bytes 8 n @ rnd n) effort of
          Some sol \<Rightarrow> Inr (le_bytes 8 n @ rnd n, sol)
        | None \<Rightarrow> solve_from l challenge effort rnd (n + 1)))"
  by pat_completeness auto
termination by (relation "measure (\<lambda>(l, c, e, r, n). 2 ^ 64 - n)") auto

declare solve_from.simps [simp del]

definition solve :: "equix option \<Rightarrow> string \<Rightarrow> string \<Rightarrow> int \<Rightarrow> int \<Rightarrow> (nat \<Rightarrow> bytes) \<Rightarrow> int \<Rightarrow> (bytes \<times> bytes \<times> int) result" where
  "solve lib network addr port effort rnd now =
     bindR (equix_ctx EQUIX_CTX_SOLVE ''Failed to allocate EquiX solve context'' lib) (\<lambda>l.
     let timestamp_bucket = now div ADDRESS_BUCKET_SECS;
         challenge = build_challenge network addr port (str_int timestamp_bucket) in
     bindR (solve_from l challenge effort rnd 0) (\<lambda>(nonce, sol). Inr (nonce, sol, timestamp_bucket)))"

definition solve_handshake ::
  "equix option \<Rightarrow> string \<Rightarrow> string \<Rightarrow> int \<Rightarrow> bool \<Rightarrow> bytes \<times> bytes \<Rightarrow> (nat \<Rightarrow> bytes) \<Rightarrow> int \<Rightarrow> (bytes \<times> bytes \<times> int) result" where
  "solve_handshake lib client_ip server_node_id effort simulated sim_rand rnd now =
     (let bucket = now div HANDSHAKE_BUCKET_SECS in
      if simulated then Inr (SIM_PROOF_MAGIC @ fst sim_rand, snd sim_rand, bucket)
      else bindR (equix_ctx EQUIX_CTX_SOLVE ''Failed to allocate EquiX solve context'' lib) (\<lambda>l.
           bindR (solve_from l (build_handshake_challenge client_ip server_node_id bucket) effort rnd 0) (\<lambda>(nonce, sol).
             Inr (nonce, sol, bucket))))"

section \<open>Verifying\<close>

definition current_bucket :: "int \<Rightarrow> int \<Rightarrow> int \<Rightarrow> bool" where
  "current_bucket now secs bucket \<longleftrightarrow> bucket = now div secs \<or> bucket = now div secs - 1"

definition verify_solution :: "equix \<Rightarrow> bytes \<Rightarrow> bytes \<Rightarrow> int \<Rightarrow> bytes \<Rightarrow> bool" where
  "verify_solution l challenge nonce effort solution_bytes =
     (case bytes_to_solution solution_bytes of
        Inl e \<Rightarrow> False
      | Inr sol \<Rightarrow> eq_verify l (challenge @ nonce) sol = EQUIX_OK \<and> equix_difficulty_ok challenge nonce solution_bytes effort)"

text \<open>The bucket of an entry comes from another node: besides an integer it may be a float or a boolean of the same
  value, which the challenge then spells differently; any other value is in no bucket.\<close>

definition bucket_value :: "json \<Rightarrow> (int \<times> string) option" where
  "bucket_value b = (case b of
     JInt i \<Rightarrow> Some (i, str_int i)
   | JBool v \<Rightarrow> Some (if v then (1, ''True'') else (0, ''False''))
   | JFloat r \<Rightarrow> if of_int (trunc r) = r then Some (trunc r, str_int (trunc r) @ ''.0'') else None
   | _ \<Rightarrow> None)"

definition pow_verify :: "equix option \<Rightarrow> int \<Rightarrow> string \<Rightarrow> string \<Rightarrow> int \<Rightarrow> bytes \<Rightarrow> int \<Rightarrow> bytes \<Rightarrow> json \<Rightarrow> bool result" where
  "pow_verify lib now network addr port nonce effort solution_bytes timestamp_bucket =
     bindR (equix_ctx EQUIX_CTX_VERIFY ''Failed to allocate EquiX verify context'' lib) (\<lambda>l.
     case bucket_value timestamp_bucket of
       None \<Rightarrow> Inr False
     | Some (b, text) \<Rightarrow> Inr (current_bucket now ADDRESS_BUCKET_SECS b \<and>
         verify_solution l (build_challenge network addr port text) nonce effort solution_bytes))"

definition verify_simulated :: "equix option \<Rightarrow> int \<Rightarrow> string \<Rightarrow> string \<Rightarrow> int \<Rightarrow> bytes \<Rightarrow> int \<Rightarrow> bytes \<Rightarrow> json \<Rightarrow> bool result" where
  "verify_simulated lib now network addr port nonce effort solution_bytes timestamp_bucket =
     (if is_sim_proof nonce then Inr True
      else pow_verify lib now network addr port nonce effort solution_bytes timestamp_bucket)"

definition verify_handshake :: "equix option \<Rightarrow> int \<Rightarrow> string \<Rightarrow> string \<Rightarrow> bytes \<Rightarrow> int \<Rightarrow> bytes \<Rightarrow> int \<Rightarrow> bool \<Rightarrow> bool result" where
  "verify_handshake lib now client_ip server_node_id nonce effort solution_bytes bucket accept_simulated =
     (if \<not> current_bucket now HANDSHAKE_BUCKET_SECS bucket then Inr False
      else if accept_simulated \<and> is_sim_proof nonce then Inr True
      else bindR (equix_ctx EQUIX_CTX_VERIFY ''Failed to allocate EquiX verify context'' lib) (\<lambda>l.
        Inr (verify_solution l (build_handshake_challenge client_ip server_node_id bucket) nonce effort solution_bytes)))"

section \<open>What a solver returns a verifier accepts\<close>

text \<open>The library's documented behaviour: what it reports as a solution of a challenge has 16 bytes and verifies, and a
  context is there for either purpose.\<close>

definition equix_sound :: "equix \<Rightarrow> bool" where
  "equix_sound l \<longleftrightarrow> eq_alloc l EQUIX_CTX_SOLVE \<and> eq_alloc l EQUIX_CTX_VERIFY \<and>
     (\<forall>c. \<forall>sol \<in> set (eq_solve l c). length sol = 16 \<and> eq_verify l c sol = EQUIX_OK)"

lemma round_verifies:
  assumes "equix_sound l" "solve_round l challenge nonce effort = Some sol"
  shows "verify_solution l challenge nonce effort sol"
proof -
  from assms(2) obtain i where "i < length (take EQUIX_MAX_SOLS (eq_solve l (challenge @ nonce)))"
    "take EQUIX_MAX_SOLS (eq_solve l (challenge @ nonce)) ! i = sol" "equix_difficulty_ok challenge nonce sol effort"
    unfolding solve_round_def by (auto simp: find_Some_iff)
  moreover from this have "sol \<in> set (eq_solve l (challenge @ nonce))" by (metis in_set_takeD nth_mem)
  ultimately show ?thesis using assms(1)
    by (simp add: verify_solution_def bytes_to_solution_def EQUIX_SOLUTION_BYTES_def equix_sound_def)
qed

lemma solve_from_Inr:
  "solve_from l challenge effort rnd n = Inr (nonce, sol) \<Longrightarrow> solve_round l challenge nonce effort = Some sol"
proof (induction l challenge effort rnd n rule: solve_from.induct)
  case (1 l challenge effort rnd n)
  then show ?case by (subst (asm) solve_from.simps) (auto split: if_splits option.splits)
qed

lemma solve_from_found:
  "n \<le> m \<Longrightarrow> m < 2 ^ 64 \<Longrightarrow> solve_round l challenge (le_bytes 8 m @ rnd m) effort \<noteq> None \<Longrightarrow>
     \<exists>r. solve_from l challenge effort rnd n = Inr r"
proof (induction l challenge effort rnd n rule: solve_from.induct)
  case (1 l challenge effort rnd n)
  show ?case
  proof (cases "solve_round l challenge (le_bytes 8 n @ rnd n) effort")
    case None
    then have "n \<noteq> m" using 1(4) by auto
    then have "\<exists>r. solve_from l challenge effort rnd (n + 1) = Inr r" using 1 None by simp
    then show ?thesis using None 1(2,3) by (subst solve_from.simps) simp
  next
    case (Some sol)
    then show ?thesis using 1(2,3) by (subst solve_from.simps) simp
  qed
qed

text \<open>A handshake proof is accepted for the address it was solved for until the end of the bucket after its own.\<close>

lemma handshake_accepted:
  assumes "solve_handshake (Some l) client_ip node_id effort sim sr rnd now = Inr (nonce, sol, bucket)"
    and "equix_sound l \<or> sim" "now \<le> later" "later div HANDSHAKE_BUCKET_SECS \<le> now div HANDSHAKE_BUCKET_SECS + 1"
  shows "verify_handshake (Some l) later client_ip node_id nonce effort sol bucket sim = Inr True"
proof -
  have "now div HANDSHAKE_BUCKET_SECS \<le> later div HANDSHAKE_BUCKET_SECS"
    using assms(3) by (simp add: zdiv_mono1 HANDSHAKE_BUCKET_SECS_def)
  moreover have b: "bucket = now div HANDSHAKE_BUCKET_SECS"
    using assms(1) by (auto simp: solve_handshake_def Let_def bindR_Inr_conv split: if_splits)
  ultimately have cb: "current_bucket later HANDSHAKE_BUCKET_SECS bucket" using assms(4) by (auto simp: current_bucket_def)
  show ?thesis
  proof (cases sim)
    case True
    then have "is_sim_proof nonce" using assms(1) by (auto simp: solve_handshake_def Let_def is_sim_proof_def)
    with True cb show ?thesis by (simp add: verify_handshake_def)
  next
    case False
    then have l: "equix_sound l" using assms(2) by simp
    have "solve_from l (build_handshake_challenge client_ip node_id bucket) effort rnd 0 = Inr (nonce, sol)"
      using assms(1) False b by (auto simp: solve_handshake_def Let_def bindR_Inr_conv equix_ctx_def load_lib_def split: if_splits)
    from round_verifies [OF l solve_from_Inr [OF this]] cb False l show ?thesis
      by (simp add: verify_handshake_def equix_ctx_def load_lib_def equix_sound_def)
  qed
qed

text \<open>An address proof is accepted in the same way.\<close>

lemma address_proof_accepted:
  assumes "solve (Some l) network addr port effort rnd now = Inr (nonce, sol, bucket)" "equix_sound l"
    and "now \<le> later" "later div ADDRESS_BUCKET_SECS \<le> now div ADDRESS_BUCKET_SECS + 1"
  shows "pow_verify (Some l) later network addr port nonce effort sol (JInt bucket) = Inr True"
proof -
  have "now div ADDRESS_BUCKET_SECS \<le> later div ADDRESS_BUCKET_SECS"
    using assms(3) by (simp add: zdiv_mono1 ADDRESS_BUCKET_SECS_def)
  moreover have b: "bucket = now div ADDRESS_BUCKET_SECS"
    "solve_from l (build_challenge network addr port (str_int bucket)) effort rnd 0 = Inr (nonce, sol)"
    using assms(1,2) by (auto simp: solve_def Let_def bindR_Inr_conv equix_ctx_def load_lib_def equix_sound_def split: if_splits)
  ultimately show ?thesis using assms(4) round_verifies [OF assms(2) solve_from_Inr [OF b(2)]] assms(2)
    by (auto simp: pow_verify_def equix_ctx_def load_lib_def equix_sound_def bucket_value_def current_bucket_def)
qed

end
