(* ===== verification/Publisher.thy ===== *)
theory Publisher
  imports TranspeerTable BlobDb
begin

text \<open>
  \<open>transpeer/anchor/publisher.py\<close>: the curation of the published list from the transpeer table, its rotation into
  blobs by the period, the blobs already issued and the solutions P2Pool reports.
\<close>

section \<open>Data\<close>

definition BODY_MAX_AGE :: int where "BODY_MAX_AGE = 86400"
definition QUALITY_MIN_SAMPLES :: int where "QUALITY_MIN_SAMPLES = 5"
definition QUALITY_MIN_RATE :: rat where "QUALITY_MIN_RATE = fl (4 / 5)"
definition MAX_SOLUTIONS :: nat where "MAX_SOLUTIONS = 1024"
definition ISSUED_KEEP :: nat where "ISSUED_KEEP = 8 * 24 * 60 * 60 div 1500 + 8"

record solution =
  so_aux_hash :: bytes
  so_height :: int
  so_prev_id :: bytes
  so_timestamp :: int
  so_root :: bytes
  so_proof :: "bytes list"
  so_path :: int
  so_seed_hash :: bytes
  so_address :: string
  so_received :: int

record publisher =
  pb_body :: "bytes option"
  pb_body_since :: rat
  pb_address :: string
  pb_solutions :: "solution list"
  pb_issued :: "(bytes, bytes) dict"

definition new_publisher :: publisher where
  "new_publisher = \<lparr> pb_body = None, pb_body_since = 0, pb_address = [], pb_solutions = [], pb_issued = [] \<rparr>"

section \<open>Curation\<close>

text \<open>Rules 6, 1, 2 and 3 on one entry. Reading the trust of a source makes its record when there is none, so the
  store is threaded; an address that is no IPv4 literal raises.\<close>

definition old_enough :: "config \<Rightarrow> rat \<Rightarrow> tentry \<Rightarrow> bool" where
  "old_enough cfg now e \<longleftrightarrow>
     0 < t_first_seen e \<and> \<not> fl (now - of_int (t_first_seen e)) < fmul (c_anchor_min_age cfg) 86400 \<and>
     1 \<le> t_answered e \<and> t_alive e"

definition quality_ok :: "trust \<Rightarrow> bool" where
  "quality_ok t \<longleftrightarrow>
     \<not> (QUALITY_MIN_SAMPLES \<le> tr_alive t + tr_dead t \<and> fdiv (tr_alive t) (tr_alive t + tr_dead t) < QUALITY_MIN_RATE)"

definition native_ok :: "tentry \<Rightarrow> bool" where
  "native_ok e \<longleftrightarrow> t_native e = [] \<or> list_ex (\<lambda>v. v) (dvals (t_native e))"

definition candidate_ok :: "config \<Rightarrow> rat \<Rightarrow> tentry \<Rightarrow> store \<Rightarrow> (bool \<times> store) result" where
  "candidate_ok cfg now e st =
     bindR (is_reserved (t_addr e)) (\<lambda>r.
       if r \<or> t_unfaithful e \<or> \<not> old_enough cfg now e then Inr (False, st)
       else (case get_source_trust cfg (t_addr e) st of (t, st) \<Rightarrow> Inr (quality_ok t \<and> native_ok e, st)))"

fun candidates :: "config \<Rightarrow> rat \<Rightarrow> tentry list \<Rightarrow> store \<Rightarrow> tentry list \<times> exn option \<times> store" where
  "candidates cfg now [] st = ([], None, st)"
| "candidates cfg now (e # es) st =
     (case candidate_ok cfg now e st of
        Inl x \<Rightarrow> ([], Some x, st)
      | Inr (ok, st) \<Rightarrow>
          (case candidates cfg now es st of (cands, x, st) \<Rightarrow> (if ok then e # cands else cands, x, st)))"

text \<open>Rule 4: \<open>str(ip_network(f"{addr}/16", strict=False))\<close> and the first entry under each key.\<close>

definition by_answered :: "tentry list \<Rightarrow> tentry list" where
  "by_answered es = sort_key (\<lambda>e. - t_answered e) es"

definition net16 :: "string \<Rightarrow> string result" where
  "net16 addr = (case ipv4_network (addr @ ''/16'') of
     None \<Rightarrow> Inl (ValueError ''not an IPv4 network'')
   | Some n \<Rightarrow> Inr (ipv4_to_string (fst n) @ ''/'' @ str_nat (snd n)))"

fun best_per_net :: "tentry list \<Rightarrow> (string, tentry) dict \<Rightarrow> (string, tentry) dict result" where
  "best_per_net [] d = Inr d"
| "best_per_net (e # es) d = bindR (net16 (t_addr e)) (\<lambda>k. best_per_net es (setdefault k e d))"

text \<open>Rule 5. \<open>xs[:n]\<close>: a negative bound leaves out that many from the end.\<close>

definition take_int :: "int \<Rightarrow> 'a list \<Rightarrow> 'a list" where
  "take_int n xs = (if n < 0 then take (length xs - nat (- n)) xs else take (nat n) xs)"


definition continuity :: "config \<Rightarrow> blob_db \<Rightarrow> tentry list \<Rightarrow> tentry list" where
  "continuity cfg db chosen =
     (if 0 < blob_count db then
        (let cont = filter (\<lambda>e. has_body_entry (t_addr e) (t_port e) db) chosen;
             new = filter (\<lambda>e. \<not> has_body_entry (t_addr e) (t_port e) db) chosen;
             allow = trunc (fmul (c_anchor_max_new cfg) (of_nat (length chosen)))
         in by_answered (cont @ take_int allow new))
      else chosen)"

definition select :: "config \<Rightarrow> blob_db \<Rightarrow> tentry list \<Rightarrow> entry list result" where
  "select cfg db cands =
     bindR (best_per_net (by_answered cands) []) (\<lambda>by16.
     let chosen = continuity cfg db (by_answered (dvals by16));
         chosen = take MAX_ENTRIES (by_answered chosen)
     in Inr (sort_key entry_key (map (\<lambda>e. (t_addr e, t_port e)) chosen)))"

definition curate :: "config \<Rightarrow> blob_db \<Rightarrow> rat \<Rightarrow> store \<Rightarrow> entry list result \<times> store" where
  "curate cfg db now st =
     (case candidates cfg now (dvals (s_transpeers st)) st of
        (cands, Some x, st) \<Rightarrow> (Inl x, st)
      | (cands, None, st) \<Rightarrow> (select cfg db cands, st))"

section \<open>Body and rotation\<close>

definition entries_alive :: "store \<Rightarrow> publisher \<Rightarrow> bool result" where
  "entries_alive st pb = (case pb_body pb of
     None \<Rightarrow> Inr True
   | Some body \<Rightarrow> bindR (decode_blob body) (\<lambda>b.
       Inr (list_all (\<lambda>(addr, port). case get_transpeer addr port st of None \<Rightarrow> False | Some e \<Rightarrow> t_alive e) (bl_entries b))))"

definition refresh_due :: "rat \<Rightarrow> store \<Rightarrow> publisher \<Rightarrow> bool result" where
  "refresh_due now st pb =
     (if pb_body pb = None \<or> of_int BODY_MAX_AGE \<le> fl (now - pb_body_since pb) then Inr True
      else bindR (entries_alive st pb) (\<lambda>a. Inr (\<not> a)))"

definition make_body :: "ustring \<Rightarrow> entry list \<Rightarrow> bytes result" where
  "make_body chain entries = bindR (encode_blob chain 0 entries) list_body"

definition chain_name :: "config \<Rightarrow> ustring" where
  "chain_name cfg = map of_char (c_anchor_chain cfg)"

text \<open>The store changes with the trust records curation makes, the publisher with the new body.\<close>

definition refresh :: "config \<Rightarrow> blob_db \<Rightarrow> rat \<Rightarrow> store \<times> publisher \<Rightarrow> bool result \<times> store \<times> publisher" where
  "refresh cfg db now s = (case s of (st, pb) \<Rightarrow>
     case refresh_due now st pb of
       Inl x \<Rightarrow> (Inl x, st, pb)
     | Inr False \<Rightarrow> (Inr False, st, pb)
     | Inr True \<Rightarrow>
         (case curate cfg db now st of
            (Inl x, st) \<Rightarrow> (Inl x, st, pb)
          | (Inr entries, st) \<Rightarrow>
              if entries = [] then (Inr False, st, pb)
              else (case make_body (chain_name cfg) entries of
                  Inl x \<Rightarrow> (Inl x, st, pb)
                | Inr body \<Rightarrow>
                    if pb_body pb = Some body then (Inr False, st, pb)
                    else (Inr True, st, pb\<lparr>pb_body := Some body, pb_body_since := now\<rparr>))))"

text \<open>\<open>_issued\<close> keeps insertion order; the first entries are dropped while it is too long.\<close>

definition remember :: "bytes \<Rightarrow> bytes \<Rightarrow> (bytes, bytes) dict \<Rightarrow> (bytes, bytes) dict" where
  "remember h blob issued =
     (if dget issued h \<noteq> None then issued
      else (let d = dput h blob issued in drop (length d - ISSUED_KEEP) d))"

definition pb_current :: "rat \<Rightarrow> publisher \<Rightarrow> ((bytes \<times> bytes) option \<times> publisher) result" where
  "pb_current now pb = (case pb_body pb of
     None \<Rightarrow> Inr (None, pb)
   | Some body \<Rightarrow>
       if period_of now < 0 then Inl (OverflowError ''can't convert negative int to unsigned'')
       else bindR (with_period body (nat (period_of now))) (\<lambda>blob.
         let h = blob_hash blob in
         Inr (Some (h, blob), pb\<lparr>pb_issued := remember h blob (pb_issued pb)\<rparr>)))"

definition pb_lookup :: "bytes \<Rightarrow> publisher \<Rightarrow> bytes option" where
  "pb_lookup aux_hash pb = dget (pb_issued pb) aux_hash"

definition record_solution :: "solution \<Rightarrow> publisher \<Rightarrow> publisher" where
  "record_solution sol pb =
     (let s = pb_solutions pb @ [sol] in pb\<lparr>pb_solutions := drop (length s - MAX_SOLUTIONS) s\<rparr>)"


section \<open>Curation facts\<close>

lemma fst_get_source_trust: "fst (get_source_trust cfg a (snd (get_source_trust cfg b st))) = fst (get_source_trust cfg a st)"
  by (auto simp: get_source_trust_def Let_def split: option.split)

lemma snd_get_source_trust: "s_transpeers (snd (get_source_trust cfg b st)) = s_transpeers st"
  by (auto simp: get_source_trust_def Let_def split: option.split)

text \<open>The rules on one entry as a predicate: trust records made on the way do not change what is read later.\<close>

definition eligible :: "config \<Rightarrow> rat \<Rightarrow> store \<Rightarrow> tentry \<Rightarrow> bool" where
  "eligible cfg now st e \<longleftrightarrow> is_reserved (t_addr e) = Inr False \<and> \<not> t_unfaithful e \<and> old_enough cfg now e \<and>
     quality_ok (fst (get_source_trust cfg (t_addr e) st)) \<and> native_ok e"

lemma candidate_ok_step:
  assumes "candidate_ok cfg now e st = Inr (ok, st')"
  shows "ok = eligible cfg now st e" "fst (get_source_trust cfg a st') = fst (get_source_trust cfg a st)"
    "s_transpeers st' = s_transpeers st" "ipv4_of_string (t_addr e) \<noteq> None"
proof -
  obtain r where r: "is_reserved (t_addr e) = Inr r"
    using assms by (cases "is_reserved (t_addr e)") (auto simp: candidate_ok_def)
  obtain t st1 where g: "get_source_trust cfg (t_addr e) st = (t, st1)" by fastforce
  have st: "st' = st \<or> st' = st1"
    and ok: "ok = (\<not> (r \<or> t_unfaithful e \<or> \<not> old_enough cfg now e) \<and> quality_ok t \<and> native_ok e)"
    using assms by (auto simp: candidate_ok_def r g split: if_splits)
  show "ok = eligible cfg now st e" using ok by (auto simp: eligible_def r g)
  show "fst (get_source_trust cfg a st') = fst (get_source_trust cfg a st)"
    using st fst_get_source_trust [of cfg a "t_addr e" st] by (auto simp: g)
  show "s_transpeers st' = s_transpeers st"
    using st snd_get_source_trust [of cfg "t_addr e" st] by (auto simp: g)
  show "ipv4_of_string (t_addr e) \<noteq> None" using r by (cases "ipv4_of_string (t_addr e)") (auto simp: is_reserved_def)
qed

lemma eligible_cong:
  "(\<And>a. fst (get_source_trust cfg a st') = fst (get_source_trust cfg a st)) \<Longrightarrow> eligible cfg now st' e = eligible cfg now st e"
  by (simp add: eligible_def)

lemma candidates_eligible:
  "candidates cfg now es st = (cands, None, st') \<Longrightarrow>
     cands = filter (eligible cfg now st) es \<and> (\<forall>e \<in> set es. ipv4_of_string (t_addr e) \<noteq> None) \<and>
     s_transpeers st' = s_transpeers st"
proof (induction es arbitrary: st cands)
  case (Cons e es)
  from Cons.prems obtain ok st1 c where s: "candidate_ok cfg now e st = Inr (ok, st1)"
    "candidates cfg now es st1 = (c, None, st')" "cands = (if ok then e # c else c)"
    by (auto split: sum.splits prod.splits if_splits)
  note f = candidate_ok_step [OF s(1)]
  have "eligible cfg now st1 = eligible cfg now st"
    by (rule ext, rule eligible_cong) (rule f(2))
  with Cons.IH [OF s(2)] f(1,3,4) s(3) show ?case by auto
qed simp

lemma ipv4_no_slash: "ipv4_of_string s = Some n \<Longrightarrow> CHR ''/'' \<notin> set s"
  using ipv4_of_string_Some [of s n] str_nat_no_char [of "CHR ''/''"]
  by (auto simp: ipv4_to_string_def)

section \<open>One entry per network\<close>

text \<open>The network key of a literal is its diversity bucket at the default prefix length.\<close>

lemma net16_bucket:
  assumes "ipv4_of_string a = Some n"
  shows "net16 a = Inr (bucket_of default_config a)"
proof -
  have "split_on CHR ''/'' (a @ ''/16'') = [a, ''16'']"
    using split_on_append [OF ipv4_no_slash [OF assms], of "''16''"] by simp
  then show ?thesis
    by (simp add: net16_def ipv4_network_def assms bucket_of_def bucket_of_checked_def default_config_def
        prefix_of_string_def digits_val_def digit_val_def is_digit_def net_of_def str_int_def)
qed

definition prefix16 :: "string \<Rightarrow> nat" where
  "prefix16 a = the (ipv4_of_string a) div 2 ^ 16"

lemma net16_eq_iff:
  assumes "ipv4_of_string a \<noteq> None" "ipv4_of_string b \<noteq> None"
  shows "net16 a = net16 b \<longleftrightarrow> prefix16 a = prefix16 b"
  using assms bucket_of_eq_iff [of a _ b _ default_config]
  by (auto simp: net16_bucket prefix16_def default_config_def)

definition net_dict :: "(string, tentry) dict \<Rightarrow> bool" where
  "net_dict d \<longleftrightarrow> dict_ok d \<and> (\<forall>(k, e) \<in> set d. net16 (t_addr e) = Inr k)"

lemma net_dict_setdefault: "net_dict d \<Longrightarrow> net16 (t_addr e) = Inr k \<Longrightarrow> net_dict (setdefault k e d)"
  using dict_ok_dput [of d k e] by (cases "dget d k") (auto simp: net_dict_def setdefault_def dput_new)

lemma dget_setdefault: "dget (setdefault k e d) j = (case dget d j of None \<Rightarrow> if j = k then Some e else None | Some v \<Rightarrow> Some v)"
  by (auto simp: setdefault_def split: option.split)

lemma best_per_net_facts:
  assumes "best_per_net es d = Inr d'" "net_dict d"
  shows "net_dict d'" "set (dvals d') \<subseteq> set (dvals d) \<union> set es" "dget d k = Some v \<Longrightarrow> dget d' k = Some v"
proof -
  have "net_dict d' \<and> set (dvals d') \<subseteq> set (dvals d) \<union> set es \<and> (\<forall>k v. dget d k = Some v \<longrightarrow> dget d' k = Some v)"
    using assms
  proof (induction es arbitrary: d)
    case (Cons e es)
    then obtain k where k: "net16 (t_addr e) = Inr k" "best_per_net es (setdefault k e d) = Inr d'"
      by (auto simp: bindR_Inr_conv)
    have v: "set (dvals (setdefault k e d)) \<subseteq> insert e (set (dvals d))" by (auto simp: setdefault_def dput_new)
    have m: "dget d j = Some w \<Longrightarrow> dget (setdefault k e d) j = Some w" for j w
      by (simp add: dget_setdefault)
    note IH = Cons.IH [OF k(2) net_dict_setdefault [OF Cons.prems(2) k(1)]]
    then have "set (dvals d') \<subseteq> set (dvals (setdefault k e d)) \<union> set es" by blast
    also have "\<dots> \<subseteq> set (dvals d) \<union> set (e # es)" using v by auto
    finally have "set (dvals d') \<subseteq> set (dvals d) \<union> set (e # es)" .
    with IH m show ?case by blast
  qed simp
  then show "net_dict d'" "set (dvals d') \<subseteq> set (dvals d) \<union> set es" "dget d k = Some v \<Longrightarrow> dget d' k = Some v"
    by blast+
qed

text \<open>Fed with the most answered first, the entry kept for a network is the most answered one.\<close>

lemma best_per_net_best:
  assumes "best_per_net es d = Inr d'" "net_dict d" "sorted (map (\<lambda>e. - t_answered e) es)" "e \<in> set es"
    and "\<And>k v. dget d k = Some v \<Longrightarrow> t_answered e \<le> t_answered v"
  shows "\<exists>k w. net16 (t_addr e) = Inr k \<and> dget d' k = Some w \<and> t_answered e \<le> t_answered w"
  using assms
proof (induction es arbitrary: d)
  case (Cons x es)
  from Cons.prems(1) obtain k where k: "net16 (t_addr x) = Inr k" "best_per_net es (setdefault k x d) = Inr d'"
    by (auto simp: bindR_Inr_conv)
  note nd = net_dict_setdefault [OF Cons.prems(2) k(1)]
  have le: "t_answered e \<le> t_answered x" using Cons.prems(3,4) by auto
  have b: "dget (setdefault k x d) j = Some v \<Longrightarrow> t_answered e \<le> t_answered v" for j v
    using Cons.prems(5) le by (auto simp: dget_setdefault split: option.splits if_splits)
  show ?case
  proof (cases "e = x")
    case True
    obtain w where w: "dget (setdefault k x d) k = Some w" by (cases "dget d k") (auto simp: dget_setdefault)
    then have "dget d' k = Some w" by (rule best_per_net_facts(3) [OF k(2) nd])
    with b [OF w] k(1) True show ?thesis by blast
  next
    case False
    then have "e \<in> set es" "sorted (map (\<lambda>e. - t_answered e) es)" using Cons.prems(3,4) by auto
    from Cons.IH [OF k(2) nd this(2,1) b] show ?thesis .
  qed
qed simp

lemma best_per_net_total:
  "\<forall>e \<in> set es. ipv4_of_string (t_addr e) \<noteq> None \<Longrightarrow> \<exists>d'. best_per_net es d = Inr d'"
  by (induction es arbitrary: d) (auto simp: net16_bucket)

text \<open>The networks of a dictionary's entries are distinct.\<close>

lemma net_dict_distinct:
  assumes "net_dict d" shows "distinct (map (\<lambda>e. net16 (t_addr e)) (dvals d))"
proof -
  have "map ((\<lambda>e. net16 (t_addr e)) \<circ> snd) d = map (Inr \<circ> fst) d"
    using assms by (auto simp: net_dict_def)
  moreover have "distinct (map (Inr \<circ> fst) d :: string result list)"
    using assms distinct_map [of Inr "dkeys d"] by (simp add: net_dict_def dict_ok_def)
  ultimately show ?thesis by (metis map_map)
qed

section \<open>The selection\<close>

lemma mset_by_answered [simp]: "mset (by_answered es) = mset es" by (simp add: by_answered_def)
lemma set_by_answered [simp]: "set (by_answered es) = set es" by (simp add: by_answered_def)
lemma length_by_answered [simp]: "length (by_answered es) = length es" by (simp add: by_answered_def)

lemma distinct_map_mset: "mset xs = mset ys \<Longrightarrow> distinct (map f xs) = distinct (map f ys)"
  by (rule mset_eq_imp_distinct_iff) simp

lemma distinct_map_sub: "mset xs \<subseteq># mset ys \<Longrightarrow> distinct (map f ys) \<Longrightarrow> distinct (map f xs)"
proof -
  assume sub: "mset xs \<subseteq># mset ys" and d: "distinct (map f ys)"
  then obtain zs where "mset ys = mset xs + mset zs" by (metis ex_mset subset_mset.add_diff_inverse)
  then have "distinct (map f (xs @ zs))" using d distinct_map_mset [of ys "xs @ zs" f] by simp
  then show "distinct (map f xs)" by simp
qed

lemma take_int_prefix: "\<exists>zs. xs = take_int n xs @ zs"
  by (auto simp: take_int_def intro: append_take_drop_id [symmetric])

lemma length_take_int: "0 \<le> n \<Longrightarrow> length (take_int n xs) = min (length xs) (nat n)"
  by (simp add: take_int_def)

lemma mset_take_sub: "mset (take n xs) \<subseteq># mset xs"
  by (metis append_take_drop_id mset_append subset_mset.le_iff_add)

lemma mset_split: "mset (filter P xs) + mset (filter (\<lambda>x. \<not> P x) xs) = mset xs"
  by (induction xs) auto

lemma continuity_sub:
  fixes es :: "tentry list"
  shows "mset (continuity cfg db es) \<subseteq># mset es"
proof (cases "0 < blob_count db")
  case True
  define P :: "tentry \<Rightarrow> bool" where "P = (\<lambda>e. has_body_entry (t_addr e) (t_port e) db)"
  define n where "n = trunc (fmul (c_anchor_max_new cfg) (of_nat (length es)))"
  have c: "continuity cfg db es = by_answered (filter P es @ take_int n (filter (\<lambda>e. \<not> P e) es))"
    using True by (simp add: continuity_def Let_def P_def n_def)
  obtain zs where z: "filter (\<lambda>e. \<not> P e) es = take_int n (filter (\<lambda>e. \<not> P e) es) @ zs" using take_int_prefix by blast
  have "mset (take_int n (filter (\<lambda>e. \<not> P e) es)) + mset zs = mset (filter (\<lambda>e. \<not> P e) es)"
    using arg_cong [OF z, of mset] by (simp del: mset_filter)
  then have "mset (continuity cfg db es) + mset zs = mset es"
    unfolding c using mset_split [of P es] by (simp add: add.assoc del: mset_filter)
  then show ?thesis by (metis subset_mset.le_iff_add)
qed (simp add: continuity_def)

lemma trunc_nonneg: "0 \<le> x \<Longrightarrow> 0 \<le> trunc x"
  by (simp add: trunc_def)

lemma continuity_new:
  assumes "0 < blob_count db" "0 \<le> c_anchor_max_new cfg"
  shows "int (length (filter (\<lambda>e. \<not> has_body_entry (t_addr e) (t_port e) db) (continuity cfg db es)))
    \<le> trunc (fmul (c_anchor_max_new cfg) (of_nat (length es)))"
proof -
  let ?n = "\<lambda>e. \<not> has_body_entry (t_addr e) (t_port e) db"
  define a where "a = trunc (fmul (c_anchor_max_new cfg) (of_nat (length es)))"
  have a: "0 \<le> a" unfolding a_def fmul_def using assms(2) by (intro trunc_nonneg fl_nonneg) simp
  have z: "filter_mset ?n (mset (filter (\<lambda>e. \<not> ?n e) es)) = {#}" by (induction es) auto
  have c: "mset (continuity cfg db es) = mset (filter (\<lambda>e. \<not> ?n e) es) + mset (take_int a (filter ?n es))"
    using assms(1) by (simp add: continuity_def Let_def a_def del: mset_filter)
  have "length (filter ?n (continuity cfg db es)) = size (filter_mset ?n (mset (continuity cfg db es)))"
    by (simp only: size_mset mset_filter [symmetric])
  also have "\<dots> = size (filter_mset ?n (mset (take_int a (filter ?n es))))" unfolding c filter_union_mset z by (simp only: add_0)
  also have "\<dots> \<le> length (take_int a (filter ?n es))"
    unfolding size_mset [symmetric] by (rule size_filter_mset_lesseq)
  also have "\<dots> \<le> nat a" using a by (simp add: length_take_int)
  finally show ?thesis using a unfolding a_def by simp
qed


lemma literal_not_reserved: "is_reserved a = Inr False \<longleftrightarrow> (\<exists>n. ipv4_of_string a = Some n \<and> \<not> is_reserved_int n)"
  by (cases "ipv4_of_string a") (simp_all add: is_reserved_def reserved_tests_agree_nat)

definition endpoint :: "tentry \<Rightarrow> entry" where
  "endpoint e = (t_addr e, t_port e)"

text \<open>What selection keeps, before the final sort.\<close>

definition selection :: "config \<Rightarrow> blob_db \<Rightarrow> tentry list \<Rightarrow> tentry list result" where
  "selection cfg db cands = bindR (best_per_net (by_answered cands) []) (\<lambda>by16.
     Inr (take MAX_ENTRIES (by_answered (continuity cfg db (by_answered (dvals by16))))))"

lemma select_selection:
  "select cfg db cands = bindR (selection cfg db cands) (\<lambda>es. Inr (sort_key entry_key (map endpoint es)))"
  by (cases "best_per_net (by_answered cands) []") (simp_all add: select_def selection_def Let_def endpoint_def [abs_def])

lemma selection_facts:
  assumes "selection cfg db cands = Inr es"
  shows "length es \<le> 64" "set es \<subseteq> set cands" "distinct (map (\<lambda>e. net16 (t_addr e)) es)"
    "0 < blob_count db \<Longrightarrow> 0 \<le> c_anchor_max_new cfg \<Longrightarrow>
       int (length (filter (\<lambda>e. \<not> has_body_entry (t_addr e) (t_port e) db) es))
         \<le> trunc (fmul (c_anchor_max_new cfg) (of_nat (card ((\<lambda>e. net16 (t_addr e)) ` set cands))))"
    "blob_count db = 0 \<Longrightarrow> card ((\<lambda>e. net16 (t_addr e)) ` set cands) \<le> 64 \<Longrightarrow> e \<in> set cands \<Longrightarrow>
       \<exists>w \<in> set es. net16 (t_addr w) = net16 (t_addr e) \<and> t_answered e \<le> t_answered w"
proof -
  let ?n = "\<lambda>e. net16 (t_addr e)"
  let ?new = "\<lambda>e. \<not> has_body_entry (t_addr e) (t_port e) db"
  obtain by16 where b: "best_per_net (by_answered cands) [] = Inr by16"
    and es: "es = take MAX_ENTRIES (by_answered (continuity cfg db (by_answered (dvals by16))))"
    using assms by (auto simp: selection_def bindR_Inr_conv)
  define chosen where "chosen = by_answered (dvals by16)"
  have "net_dict []" by (simp add: net_dict_def)
  note f = best_per_net_facts [OF b this] and best = best_per_net_best [OF b this]
  have "mset es \<subseteq># mset (continuity cfg db chosen)" by (metis es chosen_def mset_by_answered mset_take_sub)
  also have "\<dots> \<subseteq># mset chosen" by (rule continuity_sub)
  finally have sub: "mset es \<subseteq># mset (dvals by16)" by (simp add: chosen_def)
  show "length es \<le> 64" by (simp add: es MAX_ENTRIES_def)
  have sc: "set (dvals by16) \<subseteq> set cands" using f(2) by simp
  then show "set es \<subseteq> set cands" using set_mset_mono [OF sub] by auto
  show "distinct (map ?n es)" by (rule distinct_map_sub [OF sub net_dict_distinct [OF f(1)]])
  have im: "?n ` set (dvals by16) = ?n ` set cands"
  proof
    show "?n ` set cands \<subseteq> ?n ` set (dvals by16)"
    proof
      fix x assume "x \<in> ?n ` set cands"
      then obtain e where e: "e \<in> set cands" "x = ?n e" by blast
      obtain k w where w: "?n e = Inr k" "dget by16 k = Some w"
        using best [of e] e(1) by (auto simp: by_answered_def)
      then have "(k, w) \<in> set by16" by (simp add: map_of_SomeD)
      moreover from this f(1) have "?n w = Inr k" by (auto simp: net_dict_def)
      ultimately show "x \<in> ?n ` set (dvals by16)" using e(2) w(1) by force
    qed
  qed (use sc in blast)
  have len: "length chosen = card (?n ` set cands)"
    using distinct_card [OF net_dict_distinct [OF f(1)]] unfolding set_map [of ?n] im by (simp add: chosen_def)
  show "int (length (filter ?new es)) \<le> trunc (fmul (c_anchor_max_new cfg) (of_nat (card (?n ` set cands))))"
    if "0 < blob_count db" "0 \<le> c_anchor_max_new cfg"
  proof -
    have "size (filter_mset ?new (mset es)) \<le> size (filter_mset ?new (mset (continuity cfg db chosen)))"
      using \<open>mset es \<subseteq># mset (continuity cfg db chosen)\<close> by (intro size_mset_mono multiset_filter_mono)
    then have "length (filter ?new es) \<le> length (filter ?new (continuity cfg db chosen))"
      by (simp only: size_mset mset_filter [symmetric])
    with continuity_new [OF that, of chosen] len show ?thesis by simp
  qed
  show "\<exists>w \<in> set es. ?n w = ?n e \<and> t_answered e \<le> t_answered w"
    if p: "blob_count db = 0" "card (?n ` set cands) \<le> 64" "e \<in> set cands"
  proof -
    have "set es = set (dvals by16)"
      using p(1,2) len by (simp add: es MAX_ENTRIES_def continuity_def chosen_def)
    moreover obtain k w where w: "?n e = Inr k" "dget by16 k = Some w" "t_answered e \<le> t_answered w"
      using best [of e] p(3) by (auto simp: by_answered_def)
    moreover have "(k, w) \<in> set by16" using w(2) by (simp add: map_of_SomeD)
    moreover from this f(1) have "?n w = Inr k" by (auto simp: net_dict_def)
    ultimately show ?thesis by force
  qed
qed


lemma curate_selection:
  assumes "curate cfg db now st = (Inr es, st')"
  shows "\<exists>sel. selection cfg db (filter (eligible cfg now st) (dvals (s_transpeers st))) = Inr sel \<and>
     es = sort_key entry_key (map endpoint sel)"
proof -
  obtain cands x st1 where c: "candidates cfg now (dvals (s_transpeers st)) st = (cands, x, st1)" by (metis prod_cases3)
  have x: "x = None" using assms by (cases x) (auto simp: curate_def c)
  have "select cfg db cands = Inr es" using assms by (simp add: curate_def c x)
  moreover have "cands = filter (eligible cfg now st) (dvals (s_transpeers st))"
    using candidates_eligible [OF c [unfolded x]] by blast
  ultimately show ?thesis by (auto simp: select_selection bindR_Inr_conv)
qed

lemma eligible_literal: "eligible cfg now st e \<Longrightarrow> ipv4_of_string (t_addr e) \<noteq> None"
  by (cases "ipv4_of_string (t_addr e)") (simp_all add: eligible_def is_reserved_def)

lemma card_prefixes:
  assumes "\<forall>e \<in> A. ipv4_of_string (t_addr e) \<noteq> None"
  shows "card ((\<lambda>e. net16 (t_addr e)) ` A) = card ((\<lambda>e. prefix16 (t_addr e)) ` A)"
proof -
  define f where "f = (\<lambda>p. net16 (ipv4_to_string (p * 2 ^ 16)))"
  have "net16 (t_addr e) = f (prefix16 (t_addr e)) \<and> prefix16 (ipv4_to_string (prefix16 (t_addr e) * 2 ^ 16)) = prefix16 (t_addr e)"
    if "e \<in> A" for e
  proof -
    from assms that have "ipv4_of_string (t_addr e) \<noteq> None" by blast
    then obtain n where n0: "ipv4_of_string (t_addr e) = Some n" by blast
    with ipv4_of_string_Some [OF n0] have n: "ipv4_of_string (t_addr e) = Some n" "n < 2 ^ 32" by simp_all
    have "n div 2 ^ 16 * 2 ^ 16 < 2 ^ 32" using n(2) by (meson div_times_less_eq_dividend le_less_trans)
    then have p: "ipv4_of_string (ipv4_to_string (prefix16 (t_addr e) * 2 ^ 16)) = Some (prefix16 (t_addr e) * 2 ^ 16)"
      using ipv4_parse_format n(1) by (simp add: prefix16_def)
    then have "prefix16 (ipv4_to_string (prefix16 (t_addr e) * 2 ^ 16)) = prefix16 (t_addr e)" by (simp add: prefix16_def)
    with net16_eq_iff [of "t_addr e" "ipv4_to_string (prefix16 (t_addr e) * 2 ^ 16)"] n p show ?thesis by (simp add: f_def)
  qed note k = this
  have "(\<lambda>e. net16 (t_addr e)) ` A = f ` (\<lambda>e. prefix16 (t_addr e)) ` A" using k by (simp add: image_image)
  moreover have "inj_on f ((\<lambda>e. prefix16 (t_addr e)) ` A)"
  proof (rule inj_onI, clarsimp)
    fix d e assume d: "d \<in> A" "e \<in> A" "f (prefix16 (t_addr d)) = f (prefix16 (t_addr e))"
    then have "net16 (t_addr d) = net16 (t_addr e)" using k by metis
    with d(1,2) assms net16_eq_iff show "prefix16 (t_addr d) = prefix16 (t_addr e)" by metis
  qed
  ultimately show ?thesis by (simp add: card_image)
qed


section \<open>Properties\<close>

definition eligible_entries :: "config \<Rightarrow> rat \<Rightarrow> store \<Rightarrow> tentry set" where
  "eligible_entries cfg now st = {e \<in> set (dvals (s_transpeers st)). eligible cfg now st e}"

definition uncommitted :: "blob_db \<Rightarrow> entry list \<Rightarrow> entry list" where
  "uncommitted db es = filter (\<lambda>x. \<not> has_body_entry (fst x) (snd x) db) es"

text \<open>C26. The curated list is sorted, has at most 64 entries and at most one per /16 network, and every entry is a
  stored transpeer that passes the rules of history, faithfulness, quality and native reachability. Once blobs are known,
  the entries without committed history are at most the configured share of the eligible networks. Before that, when the
  eligible networks fit, every one of them is represented by a transpeer that answered at least as often as any of its
  eligible ones.\<close>

theorem curated_list:
  assumes "curate cfg db now st = (Inr es, st')"
  shows "length es \<le> 64 \<and> sorted (map entry_key es) \<and> distinct (map (\<lambda>x. prefix16 (fst x)) es) \<and>
    set es \<subseteq> endpoint ` eligible_entries cfg now st \<and>
    (0 < blob_count db \<and> 0 \<le> c_anchor_max_new cfg \<longrightarrow>
       int (length (uncommitted db es)) \<le>
         trunc (fmul (c_anchor_max_new cfg) (of_nat (card ((\<lambda>e. prefix16 (t_addr e)) ` eligible_entries cfg now st))))) \<and>
    (blob_count db = 0 \<and> card ((\<lambda>e. prefix16 (t_addr e)) ` eligible_entries cfg now st) \<le> 64 \<longrightarrow>
       (\<forall>e \<in> eligible_entries cfg now st. \<exists>w \<in> eligible_entries cfg now st.
          endpoint w \<in> set es \<and> prefix16 (t_addr w) = prefix16 (t_addr e) \<and> t_answered e \<le> t_answered w))"
proof -
  define cands where "cands = filter (eligible cfg now st) (dvals (s_transpeers st))"
  have E: "eligible_entries cfg now st = set cands" by (auto simp: eligible_entries_def cands_def)
  have lit: "\<forall>e \<in> set cands. ipv4_of_string (t_addr e) \<noteq> None" using eligible_literal by (auto simp: cands_def)
  obtain sel where sel: "selection cfg db cands = Inr sel" and es: "es = sort_key entry_key (map endpoint sel)"
    using curate_selection [OF assms] unfolding cands_def by blast
  note f = selection_facts [OF sel] and card = card_prefixes [OF lit]
  have "length es \<le> 64" "sorted (map entry_key es)" using f(1) by (simp_all add: es)
  moreover have "distinct (map (\<lambda>x. prefix16 (fst x)) es)"
  proof -
    have "distinct (map (\<lambda>e. prefix16 (t_addr e)) sel)"
      using f(2,3) lit net16_eq_iff unfolding distinct_map inj_on_def by (metis subsetD)
    then have "distinct (map (\<lambda>x. prefix16 (fst x)) (map endpoint sel))" by (simp add: endpoint_def comp_def)
    then show ?thesis unfolding es by (subst distinct_map_mset [OF mset_sort])
  qed
  moreover have "set es \<subseteq> endpoint ` set cands" using f(2) by (auto simp: es)
  moreover have "int (length (uncommitted db es)) \<le>
      trunc (fmul (c_anchor_max_new cfg) (of_nat (card ((\<lambda>e. prefix16 (t_addr e)) ` set cands))))"
    if "0 < blob_count db \<and> 0 \<le> c_anchor_max_new cfg"
  proof -
    have "size (mset (uncommitted db es)) = size (mset (uncommitted db (map endpoint sel)))"
      by (simp only: es uncommitted_def mset_filter mset_sort)
    also have "\<dots> = length (filter (\<lambda>e. \<not> has_body_entry (t_addr e) (t_port e) db) sel)"
      by (simp add: uncommitted_def filter_map comp_def endpoint_def del: mset_filter)
    finally show ?thesis using f(4) that card by simp
  qed
  moreover have "\<exists>w \<in> set cands. endpoint w \<in> set es \<and> prefix16 (t_addr w) = prefix16 (t_addr e) \<and> t_answered e \<le> t_answered w"
    if p: "blob_count db = 0 \<and> card ((\<lambda>e. prefix16 (t_addr e)) ` set cands) \<le> 64" "e \<in> set cands" for e
  proof -
    from p card obtain w where w: "w \<in> set sel" "net16 (t_addr w) = net16 (t_addr e)" "t_answered e \<le> t_answered w"
      using f(5) [of e] by metis
    then have "w \<in> set cands" using f(2) by blast
    with lit p(2) w(2) net16_eq_iff have "prefix16 (t_addr w) = prefix16 (t_addr e)" by metis
    moreover have "endpoint w \<in> set es" using w(1) by (simp add: es)
    ultimately show ?thesis using w(3) \<open>w \<in> set cands\<close> by blast
  qed
  ultimately show ?thesis unfolding E by blast
qed

lemma make_body_decodes:
  assumes "make_body chain es = Inr body" "q < 2 ^ 64" "sorted (map entry_key es)"
  shows "\<exists>data. with_period body q = Inr data \<and> decode_blob data = Inr \<lparr> bl_chain = chain, bl_period = q, bl_entries = es \<rparr>"
proof -
  obtain blob where b: "encode_blob chain 0 es = Inr blob" "list_body blob = Inr body"
    using assms(1) by (auto simp: make_body_def bindR_Inr_conv)
  obtain name out where n: "utf8_encode chain = Inr name" "1 \<le> length name" "length name \<le> 255"
    "validate_entries es = Inr out" "blob = blob_image name 0 out" using b(1) by (auto simp: encode_blob_Inr)
  have out: "out = es" using n(4) assms(3) sort_key_id_if_sorted by (auto simp: validate_entries_Inr)
  have body: "body = blob" using b(2) with_period_image [OF n(3), of 0 0 out] by (simp add: list_body_def n(5))
  have "blob_ok \<lparr> bl_chain = chain, bl_period = q, bl_entries = es \<rparr> name"
    using n(2-4) utf8_decode_encode [OF n(1)] assms(2) by (simp add: blob_ok_def out)
  from decode_blob_image [OF this] with_period_image [OF n(3) assms(2), of 0 out] show ?thesis
    by (simp add: body n(5) out)
qed

lemma dget_remember: "dget (remember h blob d) h = Some (case dget d h of None \<Rightarrow> blob | Some old \<Rightarrow> old)"
proof (cases "dget d h")
  case None
  have "dget (drop n (d @ [(h, blob)])) h = Some blob" if "n \<le> length d" for n
  proof -
    have "dget (drop n d) h = None" using None by (auto simp: map_of_eq_None_iff dest: in_set_dropD)
    with that show ?thesis by (simp add: map_add_def)
  qed
  from this [of "length d + 1 - ISSUED_KEEP"] None show ?thesis
    by (simp add: remember_def dput_new ISSUED_KEEP_def del: drop_append)
qed (simp add: remember_def)

text \<open>C27. When a refresh changes the list, the blob the publisher then issues, in any later period, decodes to the curated
  list under the configured chain name and that period, and looking its hash up gives it (or the blob already issued under
  that hash).\<close>

theorem published_blob:
  assumes "refresh cfg db now (st, pb) = (Inr True, st', pb')" "0 \<le> period_of t" "period_of t < 2 ^ 64"
  shows "\<exists>es h blob pb''. curate cfg db now st = (Inr es, st') \<and> pb_current t pb' = Inr (Some (h, blob), pb'') \<and>
    h = blob_hash blob \<and>
    decode_blob blob = Inr \<lparr> bl_chain = chain_name cfg, bl_period = nat (period_of t), bl_entries = es \<rparr> \<and>
    pb_lookup h pb'' = Some (case pb_lookup h pb of None \<Rightarrow> blob | Some old \<Rightarrow> old)"
proof -
  obtain r st1 where c: "curate cfg db now st = (r, st1)" by fastforce
  obtain es body where r: "r = Inr es" "make_body (chain_name cfg) es = Inr body" "st1 = st'"
    "pb' = pb\<lparr>pb_body := Some body, pb_body_since := now\<rparr>"
    using assms(1) by (auto simp: refresh_def c split: sum.splits if_splits bool.splits)
  have "sorted (map entry_key es)" using curate_selection [OF c [unfolded r(1)]] by auto
  from make_body_decodes [OF r(2) _ this, of "nat (period_of t)"] assms(2,3) obtain blob
    where blob: "with_period body (nat (period_of t)) = Inr blob"
      "decode_blob blob = Inr \<lparr> bl_chain = chain_name cfg, bl_period = nat (period_of t), bl_entries = es \<rparr>"
    by (auto simp: nat_less_iff)
  define h where "h = blob_hash blob"
  define pb'' where "pb'' = pb'\<lparr>pb_issued := remember h blob (pb_issued pb')\<rparr>"
  have "pb_current t pb' = Inr (Some (h, blob), pb'')"
    using assms(2) blob(1) by (simp add: pb_current_def r(4) pb''_def h_def Let_def)
  moreover have "pb_lookup h pb'' = Some (case pb_lookup h pb of None \<Rightarrow> blob | Some old \<Rightarrow> old)"
    using dget_remember [of h blob "pb_issued pb"] by (simp add: pb_lookup_def pb''_def r(4))
  ultimately show ?thesis using c blob(2) unfolding r h_def by blast
qed


section \<open>A publisher with one transpeer\<close>

definition wit_tentry :: tentry where
  "wit_tentry = (new_tentry ''8.8.8.8'' 18080)\<lparr>t_first_seen := 1, t_answered := 3, t_alive := True\<rparr>"

definition wit_pub_store :: store where
  "wit_pub_store = (empty_store default_config)\<lparr>s_transpeers := [(tentry_key wit_tentry, wit_tentry)]\<rparr>"

definition wit_pub_after :: store where
  "wit_pub_after = wit_pub_store\<lparr>s_trust := [(''8.8.8.8'', new_trust)]\<rparr>"

lemma wit_reserved: "is_reserved ''8.8.8.8'' = Inr False"
  unfolding literal_not_reserved by (simp add: wit_ips is_reserved_int_def RESERVED_RANGES_eval)

lemma wit_old: "old_enough default_config 10000000 wit_tentry"
proof -
  have "fl 9999999 = 9999999" "fl 1209600 = 1209600" by code_simp+
  then show ?thesis by (simp add: old_enough_def wit_tentry_def new_tentry_def fmul_def default_config_def)
qed

lemma wit_curate: "curate default_config empty_db 10000000 wit_pub_store = (Inr [(''8.8.8.8'', 18080)], wit_pub_after)"
proof -
  have t: "get_source_trust default_config ''8.8.8.8'' wit_pub_store = (new_trust, wit_pub_after)"
    by (simp add: get_source_trust_def trust_key_def default_config_def wit_pub_store_def empty_store_def wit_pub_after_def Let_def)
  have w: "t_addr wit_tentry = ''8.8.8.8''" "t_port wit_tentry = 18080" "\<not> t_unfaithful wit_tentry" "native_ok wit_tentry"
    by (simp_all add: wit_tentry_def new_tentry_def native_ok_def)
  have q: "quality_ok new_trust" by (simp add: quality_ok_def new_trust_def QUALITY_MIN_SAMPLES_def)
  have c: "candidate_ok default_config 10000000 wit_tentry wit_pub_store = Inr (True, wit_pub_after)"
    using wit_old by (simp add: candidate_ok_def w wit_reserved t q)
  have "dvals (s_transpeers wit_pub_store) = [wit_tentry]" by (simp add: wit_pub_store_def)
  moreover have "select default_config empty_db [wit_tentry] = Inr [(''8.8.8.8'', 18080)]"
    by (simp add: select_def by_answered_def net16_bucket [OF wit_ips(1)] w setdefault_def continuity_def blob_count_def
        empty_db_def MAX_ENTRIES_def Let_def)
  ultimately show ?thesis by (simp add: curate_def c)
qed

lemma curated_list_witness:
  "\<exists>es st'. curate default_config empty_db 10000000 wit_pub_store = (Inr es, st') \<and> es \<noteq> [] \<and>
     distinct (map (\<lambda>x. prefix16 (fst x)) es) \<and> set es \<subseteq> endpoint ` eligible_entries default_config 10000000 wit_pub_store"
  using curated_list [OF wit_curate] wit_curate by blast

lemma wit_refresh: "\<exists>pb'. refresh default_config empty_db 10000000 (wit_pub_store, new_publisher) = (Inr True, wit_pub_after, pb')"
proof -
  have v: "validate_entries [(''8.8.8.8'', 18080)] = Inr [(''8.8.8.8'', 18080)]"
    unfolding validate_entries_Inr by (simp add: entry_ok_def wit_ips is_reserved_int_def RESERVED_RANGES_eval)
  have u: "utf8_encode (chain_name default_config) = Inr [109, 111, 110, 101, 114, 111]"
    by (simp add: chain_name_def default_config_def utf8_encode_def utf8_char_def)
  have e: "encode_blob (chain_name default_config) 0 [(''8.8.8.8'', 18080)] =
      Inr (blob_image [109, 111, 110, 101, 114, 111] 0 [(''8.8.8.8'', 18080)])"
    unfolding encode_blob_Inr u using v by simp
  have "make_body (chain_name default_config) [(''8.8.8.8'', 18080)] =
      Inr (blob_image [109, 111, 110, 101, 114, 111] 0 [(''8.8.8.8'', 18080)])"
    by (simp add: make_body_def e list_body_def with_period_image)
  then show ?thesis by (simp add: refresh_def refresh_due_def new_publisher_def wit_curate)
qed

lemma published_blob_witness:
  "\<exists>st' pb' es h blob pb''.
     refresh default_config empty_db 10000000 (wit_pub_store, new_publisher) = (Inr True, st', pb') \<and>
     pb_current 10000000 pb' = Inr (Some (h, blob), pb'') \<and>
     decode_blob blob = Inr \<lparr> bl_chain = chain_name default_config, bl_period = 6666, bl_entries = es \<rparr>"
proof -
  obtain pb' where r: "refresh default_config empty_db 10000000 (wit_pub_store, new_publisher) = (Inr True, wit_pub_after, pb')"
    using wit_refresh by blast
  have "period_of 10000000 = 6666" by (simp add: period_of_def trunc_def PERIOD_SECONDS_def)
  with published_blob [OF r, of 10000000] r show ?thesis by auto
qed

end
