(* ===== verification/Http.thy ===== *)
theory Http
  imports Wire Pow TranspeerTable Stores Publisher
begin

text \<open>
  HTTP as the server and the clients of the package see it (aiohttp and its router are third-party code): a request is
  the peer's address, the segments of the path, the query and the headers; a response is a status, headers and a body.
  Also the wire form of the peers and transpeers that \<open>transpeer/peerstore.py\<close> writes and reads.
\<close>

section \<open>Messages\<close>

datatype body = JsonBody json | RawBody bytes | TextBody string

record request =
  rq_remote :: string
  rq_path :: "string list"
  rq_query :: "(string, string) dict"
  rq_headers :: "(string, string) dict"

record response =
  rs_status :: int
  rs_headers :: "(string, string) dict"
  rs_body :: body

definition json_response :: "json \<Rightarrow> int \<Rightarrow> response" where
  "json_response j status = \<lparr> rs_status = status, rs_headers = [], rs_body = JsonBody j \<rparr>"

definition raw_response :: "bytes \<Rightarrow> response" where
  "raw_response b = \<lparr> rs_status = 200, rs_headers = [], rs_body = RawBody b \<rparr>"

definition error_response :: "string \<Rightarrow> int \<Rightarrow> response" where
  "error_response msg status = json_response (JObj [(''error'', JStr msg)]) status"

text \<open>What a client gets, or nothing when the connection fails or times out: \<open>resp.json()\<close> is a document or raises,
  \<open>resp.read()\<close> is the bytes. A response is delivered as it is; \<open>dumps\<close> is the text of a document, which parses back to it.\<close>

record reply =
  rp_status :: int
  rp_headers :: "(string, string) dict"
  rp_json :: "json result"
  rp_bytes :: bytes

definition deliver :: "(json \<Rightarrow> bytes) \<Rightarrow> response \<Rightarrow> reply" where
  "deliver dumps r = \<lparr> rp_status = rs_status r, rp_headers = rs_headers r,
     rp_json = (case rs_body r of JsonBody j \<Rightarrow> Inr j | _ \<Rightarrow> Inl (ValueError ''unexpected mimetype'')),
     rp_bytes = (case rs_body r of JsonBody j \<Rightarrow> dumps j | RawBody b \<Rightarrow> b | TextBody s \<Rightarrow> str_bytes s) \<rparr>"

definition header_or :: "string \<Rightarrow> string \<Rightarrow> (string, string) dict \<Rightarrow> string" where
  "header_or k v0 hs = (case dget hs k of None \<Rightarrow> v0 | Some v \<Rightarrow> v)"

text \<open>The truth value of a parsed document, and \<open>isinstance(v, int) and not isinstance(v, bool)\<close>.\<close>

fun json_truthy :: "json \<Rightarrow> bool" where
  "json_truthy JNull = False"
| "json_truthy (JBool b) = b"
| "json_truthy (JInt i) = (i \<noteq> 0)"
| "json_truthy (JFloat r) = (r \<noteq> 0)"
| "json_truthy (JStr s) = (s \<noteq> [])"
| "json_truthy (JList vs) = (vs \<noteq> [])"
| "json_truthy (JObj d) = (d \<noteq> [])"

fun is_obj :: "json \<Rightarrow> bool" where
  "is_obj (JObj d) = True"
| "is_obj v = False"

fun obj_get :: "string \<Rightarrow> json \<Rightarrow> json option" where
  "obj_get k (JObj d) = dget d k"
| "obj_get k v = None"

definition obj_get_or :: "string \<Rightarrow> json \<Rightarrow> json \<Rightarrow> json" where
  "obj_get_or k v0 d = (case obj_get k d of None \<Rightarrow> v0 | Some v \<Rightarrow> v)"

fun list_or_empty :: "json \<Rightarrow> json list" where
  "list_or_empty (JList vs) = vs"
| "list_or_empty v = []"

section \<open>The wire form of peers and transpeers\<close>

definition peer_to_dict :: "peer \<Rightarrow> json" where
  "peer_to_dict p = JObj
     ([(''addr'', JStr (p_addr p)), (''port'', JInt (p_port p)), (''last_seen'', JInt (p_last_seen p)),
       (''sources'', JInt (p_sources p))] @
      (if p_nonce p \<noteq> [] then
         [(''proof'', JObj [(''nonce'', JStr (b64_encode (p_nonce p))), (''effort'', JInt (p_effort p)),
            (''solution'', JStr (b64_encode (p_solution p))), (''timestamp_bucket'', JInt (p_timestamp_bucket p))])]
       else []))"

text \<open>A peer as it arrives: the fields \<open>from_dict\<close> copies without looking at them are whatever the document holds.\<close>

record wire_peer =
  w_network :: string
  w_addr :: json
  w_port :: json
  w_last_seen :: json
  w_sources :: json
  w_nonce :: bytes
  w_effort :: json
  w_solution :: bytes
  w_bucket :: json

text \<open>\<open>base64.b64decode\<close> of a value: a string of ASCII characters only.\<close>

fun json_b64 :: "json \<Rightarrow> bytes result" where
  "json_b64 (JStr s) = (if list_ex (\<lambda>c. (128::nat) \<le> of_char c) s
     then Inl (ValueError ''string argument should contain only ASCII characters'') else b64_decode s)"
| "json_b64 v = Inl (TypeError ''argument should be a bytes-like object or ASCII string'')"

definition proof_bytes :: "string \<Rightarrow> json \<Rightarrow> bytes result" where
  "proof_bytes k pf = bindR (json_get_or k JNull pf) (\<lambda>v. if json_truthy v then json_b64 v else Inr [])"

definition peer_from_dict :: "string \<Rightarrow> json \<Rightarrow> wire_peer result" where
  "peer_from_dict network d =
     bindR (json_get_or ''proof'' (JObj []) d) (\<lambda>pf.
     bindR (json_get ''addr'' d) (\<lambda>addr.
     bindR (json_get ''port'' d) (\<lambda>port.
     bindR (json_get_or ''last_seen'' (JInt 0) d) (\<lambda>last_seen.
     bindR (json_get_or ''sources'' (JInt 1) d) (\<lambda>sources.
     bindR (proof_bytes ''nonce'' pf) (\<lambda>nonce.
     bindR (json_get_or ''effort'' (JInt 0) pf) (\<lambda>effort.
     bindR (proof_bytes ''solution'' pf) (\<lambda>solution.
     bindR (json_get_or ''timestamp_bucket'' (JInt 0) pf) (\<lambda>bucket.
       Inr \<lparr> w_network = network, w_addr = addr, w_port = port, w_last_seen = last_seen, w_sources = sources,
             w_nonce = nonce, w_effort = effort, w_solution = solution, w_bucket = bucket \<rparr>)))))))))"

definition entry_to_dict :: "tentry \<Rightarrow> json" where
  "entry_to_dict e = JObj
     [(''addr'', JStr (t_addr e)), (''port'', JInt (t_port e)), (''networks'', JList (map JStr (t_networks e))),
      (''last_seen'', JInt (t_last_seen e)), (''first_seen'', JInt (t_first_seen e))]"

text \<open>What the peer's own node would write is read back field by field.\<close>

definition wire_of :: "string \<Rightarrow> peer \<Rightarrow> wire_peer" where
  "wire_of network p = (if p_nonce p \<noteq> [] then
     \<lparr> w_network = network, w_addr = JStr (p_addr p), w_port = JInt (p_port p), w_last_seen = JInt (p_last_seen p),
       w_sources = JInt (p_sources p), w_nonce = p_nonce p, w_effort = JInt (p_effort p), w_solution = p_solution p,
       w_bucket = JInt (p_timestamp_bucket p) \<rparr> else
     \<lparr> w_network = network, w_addr = JStr (p_addr p), w_port = JInt (p_port p), w_last_seen = JInt (p_last_seen p),
       w_sources = JInt (p_sources p), w_nonce = [], w_effort = JInt 0, w_solution = [], w_bucket = JInt 0 \<rparr>)"

lemma b64_char_ascii: "v < 64 \<Longrightarrow> (of_char (b64_char v) :: nat) < 128"
  by (auto simp: b64_char_def)

lemma b64_encode_chars: "set (b64_encode bs) \<subseteq> insert CHR ''='' (b64_char ` {..<64})"
proof (induction bs rule: b64_encode.induct)
  case (1 a b c bs)
  have "unat a < 256" "unat b < 256" "unat c < 256" by simp_all
  from b64_group(1) [OF this] 1 show ?case by (auto simp: Let_def intro!: imageI)
next
  case (2 a b)
  have "unat a < 256" "unat b < 256" "(0::nat) < 256" by simp_all
  from b64_group(1) [OF this] show ?case by (auto simp: Let_def intro!: imageI)
next
  case (3 a)
  have "unat a < 256" "(0::nat) < 256" "(0::nat) < 256" by simp_all
  from b64_group(1) [OF this] show ?case by (auto simp: Let_def intro!: imageI)
qed simp

lemma b64_encode_ascii: "c \<in> set (b64_encode bs) \<Longrightarrow> (of_char c :: nat) < 128"
  using b64_encode_chars [of bs] b64_char_ascii by auto

lemma no_colon_b64: "CHR '':'' \<notin> set (b64_encode bs)"
proof
  assume "CHR '':'' \<in> set (b64_encode bs)"
  then obtain v where "v < 64" "CHR '':'' = b64_char v" using b64_encode_chars [of bs] by auto
  then have "b64_val CHR '':'' = Some v" using b64_char_val [of v] by metis
  then show False by (simp add: b64_val_def)
qed

lemma b64_encode_nonempty: "bs \<noteq> [] \<Longrightarrow> b64_encode bs \<noteq> []"
  by (cases bs rule: b64_encode.cases) (simp_all add: Let_def)

lemma json_b64_encode [simp]: "json_b64 (JStr (b64_encode bs)) = Inr bs"
  using b64_encode_ascii [of _ bs] by (auto simp: list_ex_iff not_le)

declare json_b64.simps [simp del]

lemma peer_dict_roundtrip: "peer_from_dict network (peer_to_dict p) = Inr (wire_of network p)"
  using b64_encode_nonempty [of "p_nonce p"] b64_encode_nonempty [of "p_solution p"]
  by (cases "p_solution p = []") (simp_all add: peer_from_dict_def peer_to_dict_def proof_bytes_def wire_of_def)

end
