(* ===== verification/Client.thy ===== *)
theory Client
  imports Http
begin

text \<open>
  \<open>transpeer/client.py\<close>: the checks on what another transpeer sends, the cache of handshake proofs, the request with its
  proof-of-work retry, and the query of a transpeer that merges its answers into the store. A string stands for its UTF-8
  bytes. What the other side answers, the clock and the random bytes are arguments.
\<close>

section \<open>Checks\<close>

definition MAX_NETWORKS_PER_TRANSPEER :: nat where "MAX_NETWORKS_PER_TRANSPEER = 64"

fun valid_endpoint :: "json \<Rightarrow> json \<Rightarrow> bool" where
  "valid_endpoint (JStr addr) (JInt port) = (1 \<le> port \<and> port \<le> 65535 \<and> ipv4_of_string addr \<noteq> None)"
| "valid_endpoint addr port = False"

text \<open>\<open>len\<close> of a string counts code points: its bytes that do not continue one.\<close>

definition str_len :: "string \<Rightarrow> nat" where
  "str_len s = length (filter (\<lambda>c. \<not> cont_byte (of_char c)) s)"

fun network_names :: "json list \<Rightarrow> string list" where
  "network_names [] = []"
| "network_names (JStr n # vs) = (if 0 < str_len n \<and> str_len n \<le> 64 then n # network_names vs else network_names vs)"
| "network_names (v # vs) = network_names vs"

definition clean_networks :: "json \<Rightarrow> string list" where
  "clean_networks v = take MAX_NETWORKS_PER_TRANSPEER (network_names (list_or_empty v))"

fun clamp_time :: "json \<Rightarrow> int \<Rightarrow> int" where
  "clamp_time (JInt v) now = max 0 (min v now)"
| "clamp_time v now = 0"

section \<open>The cache of handshake proofs\<close>

type_synonym proof_cache = "(string \<times> string \<times> int, string) dict"

definition cache_get :: "int \<Rightarrow> string \<Rightarrow> string \<Rightarrow> proof_cache \<Rightarrow> string option" where
  "cache_get now server_ip node_id cache =
     (if node_id = [] then None else dget cache (server_ip, node_id, now div HANDSHAKE_BUCKET_SECS))"

definition cache_put :: "string \<Rightarrow> string \<Rightarrow> int \<Rightarrow> string \<Rightarrow> proof_cache \<Rightarrow> proof_cache" where
  "cache_put server_ip node_id bucket header cache =
     filter (\<lambda>((_, _, b), _). \<not> b < bucket - 1) (dput (server_ip, node_id, bucket) header cache)"

section \<open>A request with its retry\<close>

text \<open>One call of \<open>session.get\<close> may be followed by a second one after the challenge is solved. \<open>xc_ask n\<close> is what the
  other side answers to the \<open>n\<close>-th request with the given headers; \<open>xc_solved\<close> is the time at which solving starts.\<close>

record exchange =
  xc_ask :: "nat \<Rightarrow> (string, string) dict \<Rightarrow> reply option"
  xc_solved :: int
  xc_sim_rand :: "bytes \<times> bytes"
  xc_rand :: "nat \<Rightarrow> bytes"
  xc_now :: int

definition pow_header_of :: "bytes \<times> bytes \<times> int \<Rightarrow> string" where
  "pow_header_of r = (case r of (nonce, sol, bucket) \<Rightarrow>
     str_int bucket @ '':'' @ b64_encode nonce @ '':'' @ b64_encode sol)"

definition solve_handshake_for :: "config \<Rightarrow> equix option \<Rightarrow> exchange \<Rightarrow> int \<Rightarrow> string \<Rightarrow> string \<Rightarrow> string result" where
  "solve_handshake_for cfg lib xc effort node_id client_ip_hint =
     bindR (solve_handshake lib client_ip_hint node_id effort (c_sim_pow cfg) (xc_sim_rand xc) (xc_rand xc) (xc_solved xc))
       (\<lambda>r. Inr (pow_header_of r))"

definition cached_headers :: "string \<Rightarrow> proof_cache \<Rightarrow> (string, string) dict" where
  "cached_headers server_ip cache =
     (case find (\<lambda>((srv, _, _), _). srv = server_ip) cache of
        None \<Rightarrow> [] | Some (_, hdr) \<Rightarrow> [(''X-Transpeer-PoW'', hdr)])"

text \<open>The demand of a 402 response, when every part is well-formed and the effort is within the ceiling.\<close>

definition pow_demand :: "reply \<Rightarrow> json \<Rightarrow> (int \<times> string \<times> string) option" where
  "pow_demand resp info =
     (if \<not> is_obj info then None else
      (let hint = obj_get_or ''client_ip'' JNull info;
           hint = (if json_truthy hint then hint else JStr (header_or ''X-Transpeer-Client-Ip'' [] (rp_headers resp)))
       in case (obj_get_or ''effort'' (JInt 0) info, obj_get_or ''node_id'' (JStr []) info, hint) of
            (JInt effort, JStr node_id, JStr client_ip) \<Rightarrow>
              if effort \<le> 0 \<or> node_id = [] \<or> client_ip = [] \<or> effort > HANDSHAKE_MAX_EFFORT then None
              else Some (effort, node_id, client_ip)
          | _ \<Rightarrow> None))"

definition json_or_none :: "reply \<Rightarrow> json" where
  "json_or_none r = (case rp_json r of Inl e \<Rightarrow> JNull | Inr j \<Rightarrow> j)"

text \<open>The exceptions \<open>_MALFORMED\<close> lists; with the errors of aiohttp they end in no result.\<close>

definition malformed :: "exn \<Rightarrow> bool" where
  "malformed e \<longleftrightarrow> is_value_error e \<or> (\<exists>m. e = TypeError m) \<or> (\<exists>m. e = KeyError m) \<or> (\<exists>m. e = AttributeError m)"

definition catch_malformed :: "'a \<Rightarrow> 'a result \<Rightarrow> 'a result" where
  "catch_malformed v r = (case r of Inl e \<Rightarrow> if malformed e then Inr v else Inl e | Inr x \<Rightarrow> Inr x)"

text \<open>\<open>None\<close> is the null document. A missing library raises beyond the handler.\<close>

definition retry_with_pow :: "config \<Rightarrow> equix option \<Rightarrow> exchange \<Rightarrow> string \<Rightarrow> reply \<Rightarrow> json \<Rightarrow> proof_cache \<Rightarrow> json result \<times> proof_cache" where
  "retry_with_pow cfg lib xc server_ip resp info cache =
     (case pow_demand resp info of
        None \<Rightarrow> (Inr JNull, cache)
      | Some (effort, node_id, client_ip) \<Rightarrow>
          (case bindR (solve_handshake_for cfg lib xc effort node_id client_ip) (\<lambda>h.
                  bindR (int_of_str (hd (split_on CHR '':'' h))) (\<lambda>b. Inr (h, b))) of
             Inl e \<Rightarrow> (catch_malformed JNull (Inl e), cache)
           | Inr (h, bucket) \<Rightarrow>
               (Inr (case xc_ask xc 1 [(''X-Transpeer-PoW'', h)] of
                   None \<Rightarrow> JNull
                 | Some r \<Rightarrow> if rp_status r \<noteq> 200 then JNull else json_or_none r),
                cache_put server_ip node_id bucket h cache)))"

definition get_with_pow :: "config \<Rightarrow> equix option \<Rightarrow> exchange \<Rightarrow> string \<Rightarrow> proof_cache \<Rightarrow> json result \<times> proof_cache" where
  "get_with_pow cfg lib xc server_ip cache =
     (case xc_ask xc 0 (cached_headers server_ip cache) of
        None \<Rightarrow> (Inr JNull, cache)
      | Some resp \<Rightarrow>
          if rp_status resp = 402 then
            (case rp_json resp of
               Inl e \<Rightarrow> (Inr JNull, cache)
             | Inr info \<Rightarrow> retry_with_pow cfg lib xc server_ip resp info cache)
          else if rp_status resp \<noteq> 200 then (Inr JNull, cache)
          else (Inr (json_or_none resp), cache))"

section \<open>Probing\<close>

definition probe_transpeer :: "string \<Rightarrow> int \<Rightarrow> int \<Rightarrow> reply option \<Rightarrow> tentry option" where
  "probe_transpeer addr port now rp = (case rp of
     None \<Rightarrow> None
   | Some resp \<Rightarrow>
       if rp_status resp \<noteq> 200 then None
       else (let data = json_or_none resp in
         if \<not> is_obj data \<or> obj_get ''protocol'' data \<noteq> Some (JStr PROTOCOL_VERSION) then None
         else Some ((new_tentry addr port)
           \<lparr> t_networks := clean_networks (obj_get_or ''networks'' (JList []) data),
             t_last_seen := now,
             t_node_id := (case obj_get_or ''node_id'' (JStr []) data of JStr s \<Rightarrow> s | _ \<Rightarrow> []),
             t_uptime := (case obj_get_or ''uptime'' (JInt 0) data of JInt u \<Rightarrow> max 0 u | _ \<Rightarrow> 0) \<rparr>)))"

section \<open>Fetching peers\<close>

text \<open>The proof-of-work rule: a proof of the receiver's difficulty that verifies for this network, address and port.\<close>

definition peer_pow_ok :: "config \<Rightarrow> equix option \<Rightarrow> int \<Rightarrow> string \<Rightarrow> string \<Rightarrow> int \<Rightarrow> wire_peer \<Rightarrow> bool result" where
  "peer_pow_ok cfg lib now network addr port p =
     (if w_nonce p = [] \<or> w_solution p = [] then Inr False
      else (case w_effort p of
          JInt effort \<Rightarrow>
            if effort < c_difficulty cfg then Inr False
            else (if c_sim_pow cfg then verify_simulated else pow_verify)
                   lib now network addr port (w_nonce p) effort (w_solution p) (w_bucket p)
        | _ \<Rightarrow> Inr False))"

definition accept_peer :: "config \<Rightarrow> equix option \<Rightarrow> int \<Rightarrow> string \<Rightarrow> json \<Rightarrow> wire_peer option result" where
  "accept_peer cfg lib now network v =
     (case peer_from_dict network v of
        Inl e \<Rightarrow> if malformed e then Inr None else Inl e
      | Inr p \<Rightarrow>
          (case (w_addr p, w_port p) of
             (JStr addr, JInt port) \<Rightarrow>
               if \<not> valid_endpoint (JStr addr) (JInt port) then Inr None
               else (let p = p\<lparr>w_last_seen := JInt (clamp_time (w_last_seen p) now)\<rparr> in
                 if c_no_pow cfg then Inr (Some p)
                 else bindR (peer_pow_ok cfg lib now network addr port p) (\<lambda>ok. Inr (if ok then Some p else None)))
           | _ \<Rightarrow> Inr None))"

fun accept_peers :: "config \<Rightarrow> equix option \<Rightarrow> int \<Rightarrow> string \<Rightarrow> json list \<Rightarrow> wire_peer list result" where
  "accept_peers cfg lib now network [] = Inr []"
| "accept_peers cfg lib now network (v # vs) =
     bindR (accept_peer cfg lib now network v) (\<lambda>p.
     bindR (accept_peers cfg lib now network vs) (\<lambda>ps. Inr (case p of None \<Rightarrow> ps | Some p \<Rightarrow> p # ps)))"

definition fetch_peers :: "config \<Rightarrow> equix option \<Rightarrow> string \<Rightarrow> string \<Rightarrow> exchange \<Rightarrow> proof_cache \<Rightarrow> wire_peer list result \<times> proof_cache" where
  "fetch_peers cfg lib addr network xc cache =
     (case get_with_pow cfg lib xc addr cache of
        (Inl e, cache) \<Rightarrow> (Inl e, cache)
      | (Inr data, cache) \<Rightarrow>
          (if \<not> json_truthy data then Inr []
           else catch_malformed [] (accept_peers cfg lib (xc_now xc) network
             (list_or_empty (obj_get_or ''peers'' (JList []) data))), cache))"

section \<open>Fetching transpeers\<close>

definition accept_transpeer :: "int \<Rightarrow> json \<Rightarrow> tentry option" where
  "accept_transpeer now item =
     (if \<not> is_obj item then None
      else (case (obj_get_or ''addr'' JNull item, obj_get_or ''port'' (JInt TRANSPEER_PORT) item) of
          (JStr addr, JInt port) \<Rightarrow>
            if valid_endpoint (JStr addr) (JInt port)
            then Some ((new_tentry addr port)
              \<lparr> t_networks := clean_networks (obj_get_or ''networks'' (JList []) item),
                t_last_seen := clamp_time (obj_get_or ''last_seen'' (JInt 0) item) now \<rparr>)
            else None
        | _ \<Rightarrow> None))"

definition fetch_transpeers :: "config \<Rightarrow> equix option \<Rightarrow> string \<Rightarrow> exchange \<Rightarrow> proof_cache \<Rightarrow> tentry list result \<times> proof_cache" where
  "fetch_transpeers cfg lib addr xc cache =
     (case get_with_pow cfg lib xc addr cache of
        (Inl e, cache) \<Rightarrow> (Inl e, cache)
      | (Inr data, cache) \<Rightarrow>
          (Inr (if \<not> json_truthy data then []
             else List.map_filter (accept_transpeer (xc_now xc))
               (list_or_empty (obj_get_or ''transpeers'' (JList []) data))), cache))"

section \<open>The native probe\<close>

text \<open>\<open>connects addr port\<close> is whether a TCP connection opens within the timeout.\<close>

definition probe_native_one :: "config \<Rightarrow> (string \<Rightarrow> int \<Rightarrow> bool) \<Rightarrow> tentry \<Rightarrow> string \<Rightarrow> store \<Rightarrow> store" where
  "probe_native_one cfg connects entry network st =
     (case dget (c_native_ports cfg) network of
        None \<Rightarrow> st
      | Some port \<Rightarrow>
          if (case get_transpeer (t_addr entry) (t_port entry) st of None \<Rightarrow> True | Some known \<Rightarrow> dget (t_native known) network \<noteq> None)
          then st
          else if is_reserved_address (t_addr entry)
          then set_native (t_addr entry) (t_port entry) network False st
          else set_native (t_addr entry) (t_port entry) network (connects (t_addr entry) port) st)"

definition probe_native :: "config \<Rightarrow> (string \<Rightarrow> int \<Rightarrow> bool) \<Rightarrow> tentry \<Rightarrow> string list \<Rightarrow> store \<Rightarrow> store" where
  "probe_native cfg connects entry networks st =
     (case get_transpeer (t_addr entry) (t_port entry) st of
        None \<Rightarrow> st
      | Some known \<Rightarrow> fold (probe_native_one cfg connects entry) networks st)"


section \<open>Querying a transpeer\<close>

text \<open>The peer that enters the store. The sender's \<open>sources\<close>, effort and bucket were copied unchecked; the store of this
  model holds integers, so a delivery with another type there is outside of it (\<open>None\<close>).\<close>

definition typed_peer :: "wire_peer \<Rightarrow> peer option" where
  "typed_peer w = (case (w_addr w, w_port w, w_last_seen w, w_sources w, w_effort w, w_bucket w) of
     (JStr addr, JInt port, JInt last_seen, JInt sources, JInt effort, JInt bucket) \<Rightarrow>
       Some ((new_peer (w_network w) addr port)
         \<lparr> p_last_seen := last_seen, p_sources := sources, p_nonce := w_nonce w, p_effort := effort,
           p_solution := w_solution w, p_timestamp_bucket := bucket \<rparr>)
   | _ \<Rightarrow> None)"

fun typed_peers :: "wire_peer list \<Rightarrow> peer list option" where
  "typed_peers [] = Some []"
| "typed_peers (w # ws) = (case typed_peer w of None \<Rightarrow> None | Some p \<Rightarrow> map_option ((#) p) (typed_peers ws))"

definition merge_peers :: "config \<Rightarrow> int \<Rightarrow> string \<Rightarrow> peer list \<Rightarrow> store \<Rightarrow> store" where
  "merge_peers cfg now source ps st = fold (\<lambda>p st. snd (add_peer cfg now p source st)) ps st"

record query_env =
  qe_probe :: "reply option"
  qe_probe_now :: int
  qe_connects :: "string \<Rightarrow> int \<Rightarrow> bool"
  qe_peers :: "nat \<Rightarrow> exchange"
  qe_transpeers :: exchange
  qe_rand :: "nat \<Rightarrow> rand"
  qe_after :: "tentry \<Rightarrow> store \<Rightarrow> store"

fun query_networks :: "config \<Rightarrow> equix option \<Rightarrow> query_env \<Rightarrow> tentry \<Rightarrow> nat \<Rightarrow> string list \<Rightarrow> store \<Rightarrow> proof_cache \<Rightarrow>
    (exn option \<times> store \<times> proof_cache) option" where
  "query_networks cfg lib env entry i [] st cache = Some (None, st, cache)"
| "query_networks cfg lib env entry i (network # rest) st cache =
     (case fetch_peers cfg lib (t_addr entry) network (qe_peers env i) cache of
        (Inl e, cache) \<Rightarrow> Some (Some e, st, cache)
      | (Inr ws, cache) \<Rightarrow>
          (case typed_peers ws of
             None \<Rightarrow> None
           | Some ps \<Rightarrow> query_networks cfg lib env entry (i + 1) rest
               (merge_peers cfg (xc_now (qe_peers env i)) (t_addr entry) ps st) cache))"

fun add_gossiped :: "config \<Rightarrow> int \<Rightarrow> (nat \<Rightarrow> rand) \<Rightarrow> nat \<Rightarrow> tentry list \<Rightarrow> store \<Rightarrow> exn option \<times> store" where
  "add_gossiped cfg now rs i [] st = (None, st)"
| "add_gossiped cfg now rs i (tp # tps) st =
     (case add_transpeer cfg now tp True (rs i) st of
        (Inl e, st) \<Rightarrow> (Some e, st)
      | (Inr _, st) \<Rightarrow> add_gossiped cfg now rs (i + 1) tps st)"

text \<open>The callback after a query keeps its exceptions to itself.\<close>

definition query_answered :: "config \<Rightarrow> equix option \<Rightarrow> query_env \<Rightarrow> tentry \<Rightarrow> tentry \<Rightarrow> store \<Rightarrow> proof_cache \<Rightarrow>
    (bool result \<times> store \<times> proof_cache) option" where
  "query_answered cfg lib env entry updated st cache =
     (let st = (if c_native_vouchers cfg then probe_native cfg (qe_connects env) entry (t_networks updated) st else st) in
      case query_networks cfg lib env entry 0 (t_networks updated) st cache of
        None \<Rightarrow> None
      | Some (Some e, st, cache) \<Rightarrow> Some (Inl e, st, cache)
      | Some (None, st, cache) \<Rightarrow>
          (case fetch_transpeers cfg lib (t_addr entry) (qe_transpeers env) cache of
             (Inl e, cache) \<Rightarrow> Some (Inl e, st, cache)
           | (Inr tps, cache) \<Rightarrow>
               (case add_gossiped cfg (xc_now (qe_transpeers env)) (qe_rand env) 1 tps st of
                  (Some e, st) \<Rightarrow> Some (Inl e, st, cache)
                | (None, st) \<Rightarrow> Some (Inr True, qe_after env updated st, cache))))"

definition query_transpeer :: "config \<Rightarrow> equix option \<Rightarrow> query_env \<Rightarrow> tentry \<Rightarrow> store \<Rightarrow> proof_cache \<Rightarrow>
    (bool result \<times> store \<times> proof_cache) option" where
  "query_transpeer cfg lib env entry st cache =
     (case probe_transpeer (t_addr entry) (t_port entry) (qe_probe_now env) (qe_probe env) of
        None \<Rightarrow> Some (Inr False, st, cache)
      | Some updated \<Rightarrow>
          (case add_transpeer cfg (qe_probe_now env) updated False (qe_rand env 0) st of
             (Inl e, st) \<Rightarrow> Some (Inl e, st, cache)
           | (Inr _, st) \<Rightarrow> query_answered cfg lib env entry updated st cache))"

section \<open>What the checks guarantee\<close>

definition checked_peer :: "config \<Rightarrow> equix option \<Rightarrow> int \<Rightarrow> string \<Rightarrow> wire_peer \<Rightarrow> bool" where
  "checked_peer cfg lib now network p \<longleftrightarrow>
     w_network p = network \<and>
     (\<exists>addr port seen. w_addr p = JStr addr \<and> ipv4_of_string addr \<noteq> None \<and> w_port p = JInt port \<and> 1 \<le> port \<and> port \<le> 65535 \<and>
        w_last_seen p = JInt seen \<and> 0 \<le> seen \<and> seen \<le> max 0 now \<and>
        (c_no_pow cfg \<or> peer_pow_ok cfg lib now network addr port p = Inr True))"

lemma clamp_time_bounds: "0 \<le> clamp_time v now" "clamp_time v now \<le> max 0 now"
  by (cases v; simp)+

lemma peer_from_dict_network: "peer_from_dict network d = Inr p \<Longrightarrow> w_network p = network"
  by (auto simp: peer_from_dict_def bindR_Inr_conv)

lemma peer_pow_ok_seen [simp]: "peer_pow_ok cfg lib now network addr port (p\<lparr>w_last_seen := x\<rparr>) = peer_pow_ok cfg lib now network addr port p"
  by (cases "w_effort p") (simp_all add: peer_pow_ok_def)

lemma accept_peer_checked:
  assumes "accept_peer cfg lib now network v = Inr (Some p)"
  shows "checked_peer cfg lib now network p"
proof -
  obtain q where q: "peer_from_dict network v = Inr q"
    using assms by (auto simp: accept_peer_def split: sum.splits if_splits)
  obtain addr port where ap: "w_addr q = JStr addr" "w_port q = JInt port" "valid_endpoint (JStr addr) (JInt port)"
    using assms by (auto simp: accept_peer_def q split: json.splits if_splits)
  have p: "p = q\<lparr>w_last_seen := JInt (clamp_time (w_last_seen q) now)\<rparr>"
    "c_no_pow cfg \<or> peer_pow_ok cfg lib now network addr port p = Inr True"
    using assms ap(3) by (auto simp: accept_peer_def q ap(1,2) Let_def bindR_Inr_conv split: if_splits)
  then show ?thesis
    using ap clamp_time_bounds [of "w_last_seen q" now] peer_from_dict_network [OF q]
    by (auto simp: checked_peer_def)
qed

lemma accept_peers_checked: "accept_peers cfg lib now network vs = Inr ps \<Longrightarrow> \<forall>p \<in> set ps. checked_peer cfg lib now network p"
proof (induction vs arbitrary: ps)
  case (Cons v vs)
  then obtain p qs where "accept_peer cfg lib now network v = Inr p" "accept_peers cfg lib now network vs = Inr qs"
    "ps = (case p of None \<Rightarrow> qs | Some p \<Rightarrow> p # qs)" by (auto simp: bindR_Inr_conv)
  with Cons.IH accept_peer_checked show ?case by (cases p) auto
qed simp

lemma fetched_checked:
  "fetch_peers cfg lib addr network xc cache = (Inr ps, cache') \<Longrightarrow> \<forall>p \<in> set ps. checked_peer cfg lib (xc_now xc) network p"
  using accept_peers_checked
  by (fastforce simp: fetch_peers_def catch_malformed_def split: prod.splits sum.splits if_splits)

end
