(* ===== verification/Server.thy ===== *)
theory Server
  imports Http Handoff
begin

text \<open>
  \<open>transpeer/server.py\<close>: the load tracker, the rate limit, the handshake proof-of-work and every request handler, as
  functions from the server's state and a request to a response and the state after it. A handler does not wait, so one
  reading of the clock serves a whole request. Also the configured venues (\<open>transpeer/anchor/reader.py\<close>).
\<close>

section \<open>Configured venues\<close>

fun add_venues :: "string list \<Rightarrow> (bytes, string) dict \<Rightarrow> (bytes, string) dict" where
  "add_venues [] out = out"
| "add_venues (n # ns) out =
     (case (if length n = 64 then fromhex n else Inl (ValueError ''not 64 characters'')) of
        Inr v \<Rightarrow> add_venues ns (dput v n out)
      | Inl e \<Rightarrow> add_venues ns (case dget VENUES n of None \<Rightarrow> out | Some v \<Rightarrow> dput v n out))"

definition venues_from_config :: "config \<Rightarrow> (bytes, string) dict" where
  "venues_from_config cfg =
     (let spec = strip (c_anchor_venues cfg);
          names = (if spec \<noteq> [] then filter (\<lambda>s. s \<noteq> []) (map strip (split_on CHR '','' spec))
                   else [''main'', ''mini'', ''nano''])
      in add_venues names [])"

section \<open>The load tracker\<close>

definition LOAD_WINDOW_SECS :: rat where "LOAD_WINDOW_SECS = 60"
definition LOAD_THRESHOLD :: int where "LOAD_THRESHOLD = 300"
definition HANDSHAKE_MIN_EFFORT :: int where "HANDSHAKE_MIN_EFFORT = 10"

record load_tracker =
  lt_requests :: "rat list"
  lt_last_recompute :: rat
  lt_difficulty :: int

definition new_tracker :: load_tracker where
  "new_tracker = \<lparr> lt_requests = [], lt_last_recompute = 0, lt_difficulty = 0 \<rparr>"

definition record_request :: "rat \<Rightarrow> load_tracker \<Rightarrow> load_tracker" where
  "record_request now lt = lt\<lparr>lt_requests := lt_requests lt @ [now]\<rparr>"

definition lt_prune :: "rat \<Rightarrow> load_tracker \<Rightarrow> load_tracker" where
  "lt_prune now lt = lt\<lparr>lt_requests := dropWhile (\<lambda>t. t < fl (now - LOAD_WINDOW_SECS)) (lt_requests lt)\<rparr>"

definition difficulty_for :: "int \<Rightarrow> int" where
  "difficulty_for rate =
     (if rate < LOAD_THRESHOLD then 0
      else (let scale = fdiv (rate - LOAD_THRESHOLD) (9 * LOAD_THRESHOLD);
                effort = HANDSHAKE_MIN_EFFORT + trunc (fmul scale (of_int (HANDSHAKE_MAX_EFFORT - HANDSHAKE_MIN_EFFORT)))
            in min HANDSHAKE_MAX_EFFORT effort))"

definition current_difficulty :: "rat \<Rightarrow> load_tracker \<Rightarrow> int \<times> load_tracker" where
  "current_difficulty now lt =
     (if fl (now - lt_last_recompute lt) < 5 then (lt_difficulty lt, lt)
      else (let lt = lt_prune now (lt\<lparr>lt_last_recompute := now\<rparr>);
                d = difficulty_for (int (length (lt_requests lt)))
            in (d, lt\<lparr>lt_difficulty := d\<rparr>)))"

section \<open>The server\<close>

record server =
  sv_cfg :: config
  sv_node_id :: string
  sv_start :: rat
  sv_networks :: "string list"
  sv_store :: store
  sv_limits :: "(string, rat list) dict"
  sv_load :: load_tracker
  sv_blobdb :: "blob_db option"
  sv_publisher :: "publisher option"
  sv_anchor :: "anchor_store option"
  sv_shares :: "(bytes, share_store) dict"

definition new_server :: "config \<Rightarrow> store \<Rightarrow> string \<Rightarrow> rat \<Rightarrow> string list option \<Rightarrow> blob_db option \<Rightarrow> publisher option \<Rightarrow>
    anchor_store option \<Rightarrow> (bytes, share_store) dict \<Rightarrow> server" where
  "new_server cfg st node_id start names blobdb publisher anchor shares =
     \<lparr> sv_cfg = cfg, sv_node_id = node_id, sv_start = start,
       sv_networks = (case names of Some ns \<Rightarrow> if ns \<noteq> [] then ns else c_networks cfg | None \<Rightarrow> c_networks cfg),
       sv_store = st, sv_limits = [], sv_load = new_tracker, sv_blobdb = blobdb, sv_publisher = publisher,
       sv_anchor = anchor, sv_shares = shares \<rparr>"

section \<open>The rate limit\<close>

definition in_window :: "rat \<Rightarrow> rat \<Rightarrow> bool" where
  "in_window now t \<longleftrightarrow> fl (now - t) < RATE_LIMIT_WINDOW"

definition live_times :: "rat \<Rightarrow> string \<Rightarrow> (string, rat list) dict \<Rightarrow> rat list" where
  "live_times now addr limits = (case dget limits addr of None \<Rightarrow> [] | Some ts \<Rightarrow> filter (in_window now) ts)"

definition sweep_limits :: "rat \<Rightarrow> (string, rat list) dict \<Rightarrow> (string, rat list) dict" where
  "sweep_limits now limits =
     (if length limits > 4 * RATE_LIMIT_REQUESTS
      then filter (\<lambda>(k, ts). \<not> (ts = [] \<or> \<not> in_window now (last ts))) limits else limits)"

definition limit_request :: "rat \<Rightarrow> string \<Rightarrow> (string, rat list) dict \<Rightarrow> bool \<times> (string, rat list) dict" where
  "limit_request now addr limits =
     (let timestamps = live_times now addr limits in
      if length timestamps \<ge> RATE_LIMIT_REQUESTS then (False, dput addr timestamps limits)
      else (True, sweep_limits now (dput addr (timestamps @ [now]) limits)))"

definition check_rate_limit :: "rat \<Rightarrow> string \<Rightarrow> server \<Rightarrow> bool \<times> server" where
  "check_rate_limit now addr sv =
     (let (ok, limits) = limit_request now addr (sv_limits sv)
      in (ok, sv\<lparr>sv_load := record_request now (sv_load sv), sv_limits := limits\<rparr>))"

section \<open>The handshake proof of work\<close>

text \<open>The header is \<open>bucket:nonce:solution\<close>; anything else about it that does not parse counts as no proof.\<close>

definition parse_pow_header :: "string \<Rightarrow> (int \<times> bytes \<times> bytes) option" where
  "parse_pow_header header =
     (case split1 CHR '':'' header of
        [bucket_str, rest] \<Rightarrow>
          (case split1 CHR '':'' rest of
             [nonce_b64, solution_b64] \<Rightarrow>
               (case bindR (int_of_str bucket_str) (\<lambda>bucket.
                       bindR (json_b64 (JStr nonce_b64)) (\<lambda>nonce.
                       bindR (json_b64 (JStr solution_b64)) (\<lambda>solution. Inr (bucket, nonce, solution)))) of
                  Inl e \<Rightarrow> None | Inr r \<Rightarrow> Some r)
           | _ \<Rightarrow> None)
      | _ \<Rightarrow> None)"

definition check_handshake_pow :: "equix option \<Rightarrow> rat \<Rightarrow> request \<Rightarrow> server \<Rightarrow> (bool \<times> int) result \<times> server" where
  "check_handshake_pow lib now rq sv =
     (let (required, lt) = current_difficulty now (sv_load sv); sv = sv\<lparr>sv_load := lt\<rparr> in
      if required = 0 then (Inr (True, 0), sv)
      else (let header = header_or ''X-Transpeer-PoW'' [] (rq_headers rq) in
        if header = [] then (Inr (False, required), sv)
        else (case parse_pow_header header of
            None \<Rightarrow> (Inr (False, required), sv)
          | Some (bucket, nonce, solution) \<Rightarrow>
              (bindR (verify_handshake lib (trunc now) (rq_remote rq) (sv_node_id sv) nonce required solution bucket
                  (c_sim_pow (sv_cfg sv))) (\<lambda>ok. Inr (ok, required)), sv))))"

definition pow_required_response :: "rat \<Rightarrow> int \<Rightarrow> string \<Rightarrow> server \<Rightarrow> response" where
  "pow_required_response now required client_ip sv =
     \<lparr> rs_status = 402,
       rs_headers = [(''X-Transpeer-Required-Effort'', str_int required), (''X-Transpeer-Node-Id'', sv_node_id sv),
         (''X-Transpeer-Client-Ip'', client_ip)],
       rs_body = JsonBody (JObj
         [(''error'', JStr ''handshake PoW required''), (''effort'', JInt required),
          (''bucket'', JInt (trunc now div HANDSHAKE_BUCKET_SECS)), (''node_id'', JStr (sv_node_id sv)),
          (''client_ip'', JStr client_ip)]) \<rparr>"

definition rate_limited :: response where
  "rate_limited = error_response ''rate limited'' 429"

section \<open>Discovery, peers and transpeers\<close>

fun join_str :: "string \<Rightarrow> string list \<Rightarrow> string" where
  "join_str sep [] = []"
| "join_str sep [s] = s"
| "join_str sep (s # t # ss) = s @ sep @ join_str sep (t # ss)"

definition newline :: string where "newline = [CHR 0x0A]"

definition apostrophe :: string where "apostrophe = [CHR 0x27]"

definition handle_root :: "server \<Rightarrow> response" where
  "handle_root sv =
     (let contact = (if c_contact (sv_cfg sv) \<noteq> [] then c_contact (sv_cfg sv) else ''(operator has not set --contact)'')
      in \<lparr> rs_status = 200, rs_headers = [], rs_body = TextBody
        (''This host runs a '' @ PROTOCOL_VERSION @ '' peer-discovery node.'' @ newline @
         newline @
         ''If you are here because this address connected to TCP port '' @
         str_int (c_port (sv_cfg sv)) @ '' on your network: that was a single TCP '' @
         ''connect followed, if the port answered, by one HTTP GET of '' @
         ''/transpeer. It looks for other nodes of this protocol and '' @
         ''nothing else. No data on your host was read.'' @ newline @
         newline @
         ''Blind scanning runs at a few probes per second only while a '' @
         ''node knows no other node, and stops once it does. To keep your '' @
         ''prefix out of it, ask the operator below to add it to the '' @
         ''node'' @ apostrophe @ ''s scan exclude list, or publish it in the project'' @ apostrophe @ ''s '' @
         ''shared exclude list.'' @ newline @
         newline @
         ''Project: https://github.com/Fountain5405/transpeer'' @ newline @
         ''Operator contact: '' @ contact @ newline @
         ''Networks served here: '' @ join_str '', '' (sv_networks sv) @ newline) \<rparr>)"

definition handle_transpeer :: "rat \<Rightarrow> request \<Rightarrow> server \<Rightarrow> response \<times> server" where
  "handle_transpeer now rq sv =
     (case check_rate_limit now (rq_remote rq) sv of
        (False, sv) \<Rightarrow> (rate_limited, sv)
      | (True, sv) \<Rightarrow>
          (let sv = (if rq_remote rq \<noteq> [] then sv\<lparr>sv_store := add_candidate (trunc now) (rq_remote rq) (sv_store sv)\<rparr> else sv);
               networks = sv_networks sv;
               peer_counts = fold (\<lambda>n d. dput n (JInt (int (peer_count n (sv_store sv)))) d) networks [];
               (effort, lt) = current_difficulty now (sv_load sv)
           in (json_response (JObj
                 [(''protocol'', JStr PROTOCOL_VERSION), (''node_id'', JStr (sv_node_id sv)),
                  (''networks'', JList (map JStr networks)), (''peer_counts'', JObj peer_counts),
                  (''uptime'', JInt (trunc (fl (now - sv_start sv)))), (''difficulty'', JInt (c_difficulty (sv_cfg sv))),
                  (''handshake_effort'', JInt effort)]) 200, sv\<lparr>sv_load := lt\<rparr>)))"

text \<open>The part of two handlers before their answer: the rate limit and the proof of work.\<close>

definition admit :: "equix option \<Rightarrow> rat \<Rightarrow> request \<Rightarrow> server \<Rightarrow> response option result \<times> server" where
  "admit lib now rq sv =
     (case check_rate_limit now (rq_remote rq) sv of
        (False, sv) \<Rightarrow> (Inr (Some rate_limited), sv)
      | (True, sv) \<Rightarrow>
          (case check_handshake_pow lib now rq sv of
             (Inl e, sv) \<Rightarrow> (Inl e, sv)
           | (Inr (ok, effort), sv) \<Rightarrow>
               (Inr (if ok then None else Some (pow_required_response now effort (rq_remote rq) sv)), sv)))"

definition handle_peers :: "equix option \<Rightarrow> rat \<Rightarrow> string \<Rightarrow> request \<Rightarrow> server \<Rightarrow> response result \<times> server" where
  "handle_peers lib now network rq sv =
     (case admit lib now rq sv of
        (Inl e, sv) \<Rightarrow> (Inl e, sv)
      | (Inr (Some r), sv) \<Rightarrow> (Inr r, sv)
      | (Inr None, sv) \<Rightarrow>
          (let peers = fst (get_peers (sv_cfg sv) network True None [] (sv_store sv))
           in (Inr (json_response (JObj [(''network'', JStr network), (''peers'', JList (map peer_to_dict peers))]) 200), sv)))"

definition handle_transpeers :: "equix option \<Rightarrow> rat \<Rightarrow> rand \<Rightarrow> request \<Rightarrow> server \<Rightarrow> response result \<times> server" where
  "handle_transpeers lib now rs rq sv =
     (case admit lib now rq sv of
        (Inl e, sv) \<Rightarrow> (Inl e, sv)
      | (Inr (Some r), sv) \<Rightarrow> (Inr r, sv)
      | (Inr None, sv) \<Rightarrow>
          (let entries = get_transpeers_for_gossip (sv_cfg sv) (trunc now) GOSSIP_SAMPLE_SIZE (rq_remote rq) rs (sv_store sv)
           in (Inr (json_response (JObj [(''transpeers'', JList (map entry_to_dict entries))]) 200), sv)))"


section \<open>Chain-anchored data\<close>

text \<open>Content-addressed data: a rate limit only. \<open>limited\<close> is the check every such handler begins with.\<close>

definition limited :: "rat \<Rightarrow> request \<Rightarrow> server \<Rightarrow> (server \<Rightarrow> response result) \<Rightarrow> response result \<times> server" where
  "limited now rq sv answer = (case check_rate_limit now (rq_remote rq) sv of
     (False, sv) \<Rightarrow> (Inr rate_limited, sv) | (True, sv) \<Rightarrow> (answer sv, sv))"

definition not_configured :: response where
  "not_configured = error_response ''anchor not configured'' 404"

definition anchor_ready :: "server \<Rightarrow> bool" where
  "anchor_ready sv \<longleftrightarrow> sv_blobdb sv \<noteq> None \<or> sv_publisher sv \<noteq> None"

text \<open>32 bytes in hexadecimal.\<close>

definition hex32 :: "string \<Rightarrow> bytes option" where
  "hex32 s = (case fromhex s of Inl e \<Rightarrow> None | Inr b \<Rightarrow> if length b \<noteq> 32 then None else Some b)"

definition blob_answer :: "string \<Rightarrow> server \<Rightarrow> response result" where
  "blob_answer hash sv =
     (case hex32 hash of
        None \<Rightarrow> Inr (error_response ''bad hash'' 400)
      | Some h \<Rightarrow>
          bindR (case (case sv_publisher sv of None \<Rightarrow> None | Some pb \<Rightarrow> pb_lookup h pb) of
                   Some blob \<Rightarrow> Inr (Some blob)
                 | None \<Rightarrow> (case sv_blobdb sv of None \<Rightarrow> Inr None | Some db \<Rightarrow> db_get h db))
            (\<lambda>blob. Inr (case blob of None \<Rightarrow> error_response ''unknown blob'' 404 | Some blob \<Rightarrow> raw_response blob)))"

definition handle_blob :: "rat \<Rightarrow> string \<Rightarrow> request \<Rightarrow> server \<Rightarrow> response result \<times> server" where
  "handle_blob now hash rq sv =
     (if \<not> anchor_ready sv then (Inr not_configured, sv) else limited now rq sv (blob_answer hash))"

definition clamp_count :: "int \<Rightarrow> int \<Rightarrow> nat" where
  "clamp_count v most = nat (max 1 (min v most))"

definition index_row_json :: "index_row \<Rightarrow> json" where
  "index_row_json r = (case r of (h, fs, cs) \<Rightarrow>
     JObj [(''hash'', JStr (hex_of h)), (''first_seen'', JInt fs), (''commitments'', JList (map commitment_to_dict cs))])"

definition index_answer :: "(string, string) dict \<Rightarrow> server \<Rightarrow> response result" where
  "index_answer query sv =
     (case bindR (int_of_str (header_or ''since'' ''0'' query)) (\<lambda>since.
           bindR (int_of_str (header_or ''limit'' ''500'' query)) (\<lambda>limit.
           bindR (fromhex (header_or ''after'' [] query)) (\<lambda>after.
             if after \<noteq> [] \<and> length after \<noteq> 32 then Inl (ValueError []) else Inr (since, clamp_count limit 500, after)))) of
        Inl e \<Rightarrow> Inr (error_response ''bad query'' 400)
      | Inr (since, limit, after) \<Rightarrow>
          (let rows = (case sv_blobdb sv of None \<Rightarrow> [] | Some db \<Rightarrow> index_since since limit after db);
               full = (length rows = limit)
           in Inr (json_response (JObj
                [(''blobs'', JList (map index_row_json rows)),
                 (''next_since'', if full then JInt (fst (snd (last rows))) else JNull),
                 (''next_after'', if full then JStr (hex_of (fst (last rows))) else JNull)]) 200)))"

definition handle_blobs_index :: "rat \<Rightarrow> request \<Rightarrow> server \<Rightarrow> response result \<times> server" where
  "handle_blobs_index now rq sv =
     (if \<not> anchor_ready sv then (Inr not_configured, sv) else limited now rq sv (index_answer (rq_query rq)))"

definition headers_answer :: "string \<Rightarrow> (string, string) dict \<Rightarrow> anchor_store \<Rightarrow> server \<Rightarrow> response result" where
  "headers_answer chain query anchor sv =
     (if chain \<noteq> c_anchor_chain (sv_cfg sv) then Inr (error_response ''unknown chain'' 404)
      else (case bindR (int_of_str (header_or ''from'' ''0'' query)) (\<lambda>from_height.
                 bindR (int_of_str (header_or ''count'' ''720'' query)) (\<lambda>ct. Inr (from_height, clamp_count ct 720))) of
          Inl e \<Rightarrow> Inr (error_response ''bad query'' 400)
        | Inr (from_height, ct) \<Rightarrow>
            Inr (json_response (JObj
              [(''chain'', JStr chain),
               (''tip'', case anchor_tip_height anchor of None \<Rightarrow> JNull | Some h \<Rightarrow> JInt h),
               (''headers'', JList (map (\<lambda>r. JObj [(''height'', JInt (hr_height r)), (''blob'', JStr (hex_of (hr_blob r))),
                  (''difficulty'', JInt (hr_difficulty r))]) (header_rows from_height ct anchor)))]) 200)))"

definition handle_anchor_headers :: "rat \<Rightarrow> string \<Rightarrow> request \<Rightarrow> server \<Rightarrow> response result \<times> server" where
  "handle_anchor_headers now chain rq sv = (case sv_anchor sv of
     None \<Rightarrow> (Inr not_configured, sv)
   | Some anchor \<Rightarrow> limited now rq sv (headers_answer chain (rq_query rq) anchor))"

definition coinbase_answer :: "string \<Rightarrow> string \<Rightarrow> anchor_store \<Rightarrow> server \<Rightarrow> response result" where
  "coinbase_answer chain height anchor sv =
     (if chain \<noteq> c_anchor_chain (sv_cfg sv) then Inr (error_response ''unknown chain'' 404)
      else (case int_of_str height of
          Inl e \<Rightarrow> Inr (error_response ''bad height'' 400)
        | Inr h \<Rightarrow> Inr (case block_at h anchor of
              None \<Rightarrow> error_response ''unknown block'' 404 | Some blob \<Rightarrow> raw_response blob)))"

definition handle_anchor_coinbase :: "rat \<Rightarrow> string \<Rightarrow> string \<Rightarrow> request \<Rightarrow> server \<Rightarrow> response result \<times> server" where
  "handle_anchor_coinbase now chain height rq sv = (case sv_anchor sv of
     None \<Rightarrow> (Inr not_configured, sv)
   | Some anchor \<Rightarrow> limited now rq sv (coinbase_answer chain height anchor))"

section \<open>Venues and shares\<close>

definition venues_answer :: "server \<Rightarrow> response result" where
  "venues_answer sv =
     (let configured = venues_from_config (sv_cfg sv) in
      Inr (json_response (JObj [(''venues'', JList (map (\<lambda>(v, s). JStr (hex_of v))
        (filter (\<lambda>(v, s). dget configured v \<noteq> None \<or> 0 < share_count s) (sv_shares sv))))]) 200))"

definition handle_venues :: "rat \<Rightarrow> request \<Rightarrow> server \<Rightarrow> response result \<times> server" where
  "handle_venues now rq sv =
     (if sv_anchor sv = None then (Inr not_configured, sv) else limited now rq sv venues_answer)"

definition venue_store :: "string \<Rightarrow> server \<Rightarrow> response + share_store" where
  "venue_store venue sv =
     (case hex32 venue of
        None \<Rightarrow> Inl (error_response ''bad venue'' 400)
      | Some v \<Rightarrow> (case dget (sv_shares sv) v of
          None \<Rightarrow> Inl (error_response ''unknown venue'' 404) | Some s \<Rightarrow> Inr s))"

definition share_answer :: "string \<Rightarrow> string \<Rightarrow> server \<Rightarrow> response result" where
  "share_answer venue share_id sv = Inr (case venue_store venue sv of
     Inl err \<Rightarrow> err
   | Inr s \<Rightarrow> (case hex32 share_id of
       None \<Rightarrow> error_response ''bad share id'' 400
     | Some i \<Rightarrow> (case share_raw i s of None \<Rightarrow> error_response ''unknown share'' 404 | Some raw \<Rightarrow> raw_response raw)))"

definition handle_venue_share :: "rat \<Rightarrow> string \<Rightarrow> string \<Rightarrow> request \<Rightarrow> server \<Rightarrow> response result \<times> server" where
  "handle_venue_share now venue share_id rq sv = limited now rq sv (share_answer venue share_id)"

definition shares_answer :: "string \<Rightarrow> (string, string) dict \<Rightarrow> server \<Rightarrow> response result" where
  "shares_answer venue query sv = Inr (case venue_store venue sv of
     Inl err \<Rightarrow> err
   | Inr s \<Rightarrow> (case hex32 (header_or ''from'' [] query) of
       None \<Rightarrow> error_response ''bad query'' 400
     | Some from_id \<Rightarrow> (case int_of_str (header_or ''count'' ''64'' query) of
         Inl e \<Rightarrow> error_response ''bad query'' 400
       | Inr ct \<Rightarrow> json_response (JObj [(''shares'',
           JList (map (\<lambda>sh. JStr (hex_of (ps_raw sh))) (share_walk (clamp_count ct 64) from_id s)))]) 200)))"

definition handle_venue_shares :: "rat \<Rightarrow> string \<Rightarrow> request \<Rightarrow> server \<Rightarrow> response result \<times> server" where
  "handle_venue_shares now venue rq sv = limited now rq sv (shares_answer venue (rq_query rq))"

definition by_root_answer :: "string \<Rightarrow> string \<Rightarrow> server \<Rightarrow> response result" where
  "by_root_answer venue mroot sv = Inr (case venue_store venue sv of
     Inl err \<Rightarrow> err
   | Inr s \<Rightarrow> (case hex32 mroot of
       None \<Rightarrow> error_response ''bad root'' 400
     | Some r \<Rightarrow> (case share_by_root r s of None \<Rightarrow> error_response ''unknown root'' 404 | Some sh \<Rightarrow> raw_response (ps_raw sh))))"

definition handle_venue_share_by_root :: "rat \<Rightarrow> string \<Rightarrow> string \<Rightarrow> request \<Rightarrow> server \<Rightarrow> response result \<times> server" where
  "handle_venue_share_by_root now venue mroot rq sv = limited now rq sv (by_root_answer venue mroot)"

section \<open>The application\<close>

text \<open>The routes of a GET request by the segments of its path, of which a placeholder matches a non-empty one; an exception
  of a handler becomes a response of status 500.\<close>

definition not_found :: response where
  "not_found = \<lparr> rs_status = 404, rs_headers = [], rs_body = TextBody ''404: Not Found'' \<rparr>"

definition dispatch_request :: "equix option \<Rightarrow> rat \<Rightarrow> rand \<Rightarrow> request \<Rightarrow> server \<Rightarrow> response result \<times> server" where
  "dispatch_request lib now rs rq sv =
     (let path = rq_path rq; lift = (\<lambda>(r, sv). (Inr r, sv)) in
      if path = [''transpeer''] then lift (handle_transpeer now rq sv)
      else if path = [[]] then (Inr (handle_root sv), sv)
      else if [] \<in> set path then (Inr not_found, sv)
      else (case path of
        [a] \<Rightarrow>
          if a = ''transpeers'' then handle_transpeers lib now rs rq sv
          else if a = ''venues'' then handle_venues now rq sv
          else (Inr not_found, sv)
      | [a, b] \<Rightarrow>
          if a = ''peers'' then handle_peers lib now b rq sv
          else if a = ''blob'' then handle_blob now b rq sv
          else if a = ''blobs'' \<and> b = ''index'' then handle_blobs_index now rq sv
          else (Inr not_found, sv)
      | [a, b, c] \<Rightarrow>
          if a = ''anchor'' \<and> c = ''headers'' then handle_anchor_headers now b rq sv
          else if a = ''venue'' \<and> c = ''shares'' then handle_venue_shares now b rq sv
          else (Inr not_found, sv)
      | [a, b, c, d] \<Rightarrow>
          if a = ''anchor'' \<and> c = ''coinbase'' then handle_anchor_coinbase now b d rq sv
          else if a = ''venue'' \<and> c = ''share'' then handle_venue_share now b d rq sv
          else if a = ''venue'' \<and> c = ''share_by_root'' then handle_venue_share_by_root now b d rq sv
          else (Inr not_found, sv)
      | _ \<Rightarrow> (Inr not_found, sv)))"

definition serve :: "equix option \<Rightarrow> rat \<Rightarrow> rand \<Rightarrow> request \<Rightarrow> server \<Rightarrow> response \<times> server" where
  "serve lib now rs rq sv =
     (case dispatch_request lib now rs rq sv of
        (Inl e, sv) \<Rightarrow> (\<lparr> rs_status = 500, rs_headers = [], rs_body = TextBody ''500 Internal Server Error'' \<rparr>, sv)
      | (Inr r, sv) \<Rightarrow> (r, sv))"


section \<open>The rate limit counts accepted requests\<close>

lemma in_window_mono: "t \<le> now \<Longrightarrow> now \<le> T \<Longrightarrow> in_window T t \<Longrightarrow> in_window now t"
  using fl_mono [of "now - t" "T - t"] by (simp add: in_window_def)

lemma in_window_later: "t \<le> u \<Longrightarrow> u \<le> now \<Longrightarrow> in_window now t \<Longrightarrow> in_window now u"
  using fl_mono [of "now - u" "now - t"] by (simp add: in_window_def)

lemma dget_filter: "dict_ok d \<Longrightarrow> dget (filter (\<lambda>(k, v). P k v) d) k = (case dget d k of None \<Rightarrow> None | Some v \<Rightarrow> if P k v then Some v else None)"
  by (induction d) (auto simp: dict_ok_def image_iff map_of_eq_None_iff split: option.splits)

definition limits_ok :: "rat \<Rightarrow> (string, rat list) dict \<Rightarrow> bool" where
  "limits_ok now limits \<longleftrightarrow> dict_ok limits \<and> (\<forall>k ts. dget limits k = Some ts \<longrightarrow> sorted ts \<and> (\<forall>t \<in> set ts. t \<le> now))"

lemma live_times_sweep:
  assumes "limits_ok now limits" "now \<le> T"
  shows "live_times T a (sweep_limits now limits) = live_times T a limits"
proof -
  have "filter (in_window T) ts = []" if "dget limits a = Some ts" "ts = [] \<or> \<not> in_window now (last ts)" for ts
  proof -
    have "\<not> in_window T t" if "t \<in> set ts" for t
    proof
      assume w: "in_window T t"
      have ts: "sorted ts" "\<forall>t \<in> set ts. t \<le> now" using assms(1) \<open>dget limits a = Some ts\<close> by (auto simp: limits_ok_def)
      have ne: "ts \<noteq> []" using that by auto
      have "t \<le> last ts"
      proof -
        obtain i where "i < length ts" "ts ! i = t" using \<open>t \<in> set ts\<close> by (auto simp: in_set_conv_nth)
        then show ?thesis using ts(1) ne by (auto simp: last_conv_nth intro: sorted_nth_mono)
      qed
      moreover have "last ts \<le> now" using ts(2) ne by simp
      moreover have "in_window now t" using w assms(2) ts(2) that by (blast intro: in_window_mono)
      ultimately have "in_window now (last ts)" by (blast intro: in_window_later)
      with \<open>ts = [] \<or> \<not> in_window now (last ts)\<close> ne show False by simp
    qed
    then show ?thesis by (simp add: filter_empty_conv)
  qed
  moreover have "dict_ok limits" using assms(1) by (simp add: limits_ok_def)
  ultimately show ?thesis
    using dget_filter [of limits "\<lambda>k ts. \<not> (ts = [] \<or> \<not> in_window now (last ts))" a]
    by (auto simp: live_times_def sweep_limits_def split: option.splits)
qed

lemma limits_ok_sweep: "limits_ok now limits \<Longrightarrow> limits_ok now (sweep_limits now limits)"
  using dget_filter [of limits "\<lambda>k ts. \<not> (ts = [] \<or> \<not> in_window now (last ts))"]
  by (auto simp: limits_ok_def sweep_limits_def split: option.splits if_splits)

lemma limits_ok_later: "limits_ok now limits \<Longrightarrow> now \<le> T \<Longrightarrow> limits_ok T limits"
  by (fastforce simp: limits_ok_def)

lemma limits_ok_put:
  "limits_ok now limits \<Longrightarrow> sorted ts \<Longrightarrow> \<forall>t \<in> set ts. t \<le> now \<Longrightarrow> limits_ok now (dput a ts limits)"
  by (auto simp: limits_ok_def)

text \<open>One step: the decision, and what the table then holds at any later time.\<close>

lemma limit_request_step:
  assumes "limits_ok past limits" "past \<le> now" "limit_request now addr limits = (ok, limits')"
  shows "ok \<longleftrightarrow> length (live_times now addr limits) < 60" "limits_ok now limits'"
    "now \<le> T \<Longrightarrow> live_times T a limits' =
       (if ok \<and> a = addr then live_times T a limits @ filter (in_window T) [now] else live_times T a limits)"
proof -
  define ts where "ts = live_times now addr limits"
  note lo = limits_ok_later [OF assms(1,2)]
  have ts: "sorted ts" "\<forall>t \<in> set ts. t \<le> now"
    using lo by (cases "dget limits addr"; auto simp: ts_def live_times_def limits_ok_def sorted_wrt_filter)+
  then have ts': "sorted (ts @ [now])" "\<forall>t \<in> set (ts @ [now]). t \<le> now" by (auto simp: sorted_append)
  have again: "filter (in_window T) ts = live_times T addr limits" if "now \<le> T" for T
  proof -
    have "filter (in_window T) (filter (in_window now) us) = filter (in_window T) us" if "dget limits addr = Some us" for us
      using lo that in_window_mono [OF _ \<open>now \<le> T\<close>] by (auto simp: limits_ok_def filter_filter intro: filter_cong)
    then show ?thesis by (auto simp: ts_def live_times_def split: option.splits)
  qed
  have r: "ok \<longleftrightarrow> length ts < 60"
    "limits' = (if ok then sweep_limits now (dput addr (ts @ [now]) limits) else dput addr ts limits)"
    using assms(3) by (auto simp: limit_request_def ts_def Let_def RATE_LIMIT_REQUESTS_def split: if_splits)
  show "ok \<longleftrightarrow> length (live_times now addr limits) < 60" using r(1) by (simp add: ts_def)
  note p = limits_ok_put [OF lo ts, of addr] and p' = limits_ok_put [OF lo ts', of addr]
  show "limits_ok now limits'" using r(2) p limits_ok_sweep [OF p'] by simp
  have put: "live_times T a (dput addr us limits) = (if a = addr then filter (in_window T) us else live_times T a limits)" for us
    by (simp add: live_times_def)
  show "live_times T a limits' =
       (if ok \<and> a = addr then live_times T a limits @ filter (in_window T) [now] else live_times T a limits)" if "now \<le> T"
    using live_times_sweep [OF p' that, of a] again [OF that] put [of ts] put [of "ts @ [now]"]
    by (cases "a = addr") (simp_all add: r(2))
qed

section \<open>A sequence of requests\<close>

definition rate_step :: "rat \<times> string \<Rightarrow> (rat \<times> string) list \<times> server \<Rightarrow> (rat \<times> string) list \<times> server" where
  "rate_step r s = (case check_rate_limit (fst r) (snd r) (snd s) of
     (ok, sv) \<Rightarrow> (if ok then fst s @ [r] else fst s, sv))"

definition rate_run :: "(rat \<times> string) list \<Rightarrow> server \<Rightarrow> (rat \<times> string) list \<times> server" where
  "rate_run rs sv = fold rate_step rs ([], sv)"

definition recent :: "rat \<Rightarrow> string \<Rightarrow> (rat \<times> string) list \<Rightarrow> rat list" where
  "recent now addr accs = filter (in_window now) (map fst (filter (\<lambda>r. snd r = addr) accs))"

lemma rate_run_log: "set (fst (rate_run rs sv)) \<subseteq> set rs"
  by (induction rs rule: rev_induct) (auto simp: rate_run_def rate_step_def split: prod.splits if_splits)

lemma rate_run_inv:
  assumes "sv_limits sv = []" "sorted (map fst rs)" "\<forall>r \<in> set rs. fst r \<le> past" "rate_run rs sv = (accs, sv')"
  shows "limits_ok past (sv_limits sv') \<and> (\<forall>T a. past \<le> T \<longrightarrow> live_times T a (sv_limits sv') = recent T a accs \<and> length (recent T a accs) \<le> 60)"
  using assms(2-4)
proof (induction rs arbitrary: past accs sv' rule: rev_induct)
  case Nil
  then show ?case using assms(1) by (auto simp: rate_run_def limits_ok_def live_times_def recent_def)
next
  case (snoc r rs)
  obtain now addr where r: "r = (now, addr)" by (cases r)
  obtain log1 sv1 where run: "rate_run rs sv = (log1, sv1)" by fastforce
  obtain ok limits where l: "limit_request now addr (sv_limits sv1) = (ok, limits)" by fastforce
  have accs: "accs = (if ok then log1 @ [r] else log1)" and sv': "sv_limits sv' = limits"
    using snoc.prems(3) run l by (auto simp: rate_run_def rate_step_def check_rate_limit_def r)
  have s: "sorted (map fst rs)" "\<forall>q \<in> set rs. fst q \<le> now" "now \<le> past"
    using snoc.prems(1,2) by (auto simp: sorted_append r)
  note IH = snoc.IH [OF s(1,2) run]
  have step: "ok \<longleftrightarrow> length (live_times now addr (sv_limits sv1)) < 60" "limits_ok now limits"
    "\<And>T a. now \<le> T \<Longrightarrow> live_times T a limits =
       (if ok \<and> a = addr then live_times T a (sv_limits sv1) @ filter (in_window T) [now] else live_times T a (sv_limits sv1))"
    using limit_request_step [OF _ order_refl l] IH by blast+
  have "live_times T a limits = recent T a accs \<and> length (recent T a accs) \<le> 60" if T: "past \<le> T" for T a
  proof -
    have nT: "now \<le> T" using T s(3) by simp
    have rec: "recent T a accs = (if ok \<and> a = addr then recent T a log1 @ filter (in_window T) [now] else recent T a log1)"
      by (simp add: accs r recent_def)
    have old: "live_times T a (sv_limits sv1) = recent T a log1" "length (recent T a log1) \<le> 60" using IH nT by blast+
    have "length (recent T addr log1) < 60" if ok
    proof -
      have "length (recent now addr log1) < 60" using step(1) that IH by simp
      moreover have "length (recent T addr log1) \<le> length (recent now addr log1)"
      proof -
        have "set log1 \<subseteq> set rs" using rate_run_log [of rs sv] run by simp
        then have "\<forall>t \<in> set (map fst (filter (\<lambda>r. snd r = addr) log1)). in_window T t \<longrightarrow> in_window now t"
          using s(2) in_window_mono [OF _ nT] by fastforce
        then have "recent T addr log1 = filter (in_window T) (recent now addr log1)"
          unfolding recent_def filter_filter by (intro filter_cong) auto
        then show ?thesis by simp
      qed
      ultimately show ?thesis by simp
    qed
    then show ?thesis using step(3) [OF nT, of a] rec old by auto
  qed
  then show ?case using limits_ok_later [OF step(2) s(3)] by (simp add: sv')
qed


text \<open>C28. When requests come in the order of time, a further one is let through exactly when fewer than 60 of the requests
  let through from its address lie in the last 60 seconds, whatever the table has dropped in between; so at most 60 do.\<close>

theorem rate_limit_exact:
  assumes "sv_limits sv = []" "sorted (map fst (rs @ [(now, addr)]))" "rate_run rs sv = (accepted, sv')"
  shows "(fst (check_rate_limit now addr sv') \<longleftrightarrow> length (recent now addr accepted) < 60) \<and>
    (\<forall>T \<ge> now. \<forall>a. length (recent T a accepted) \<le> 60)"
proof -
  have s: "sorted (map fst rs)" "\<forall>r \<in> set rs. fst r \<le> now" using assms(2) by (auto simp: sorted_append)
  note I = rate_run_inv [OF assms(1) s assms(3)]
  obtain ok limits where l: "limit_request now addr (sv_limits sv') = (ok, limits)" by fastforce
  have "fst (check_rate_limit now addr sv') = ok" by (simp add: check_rate_limit_def l)
  moreover have "ok \<longleftrightarrow> length (live_times now addr (sv_limits sv')) < 60"
    using limit_request_step(1) [OF _ order_refl l] I by blast
  ultimately show ?thesis using I by auto
qed

definition wit_server :: server where
  "wit_server = new_server default_config (empty_store default_config) ''node'' 0 None None None None []"

lemma rate_limit_exact_witness:
  "rate_run [(1, ''8.8.8.8'')] wit_server = ([(1, ''8.8.8.8'')], snd (rate_run [(1, ''8.8.8.8'')] wit_server)) \<and>
   fst (check_rate_limit 2 ''8.8.8.8'' (snd (rate_run [(1, ''8.8.8.8'')] wit_server)))"
proof -
  have r: "rate_run [(1, ''8.8.8.8'')] wit_server = ([(1, ''8.8.8.8'')], snd (rate_run [(1, ''8.8.8.8'')] wit_server))"
    by (simp add: rate_run_def rate_step_def check_rate_limit_def limit_request_def live_times_def wit_server_def
        new_server_def RATE_LIMIT_REQUESTS_def)
  have f: "fl 1 = 1" by code_simp
  show ?thesis using rate_limit_exact [OF _ _ r, of 2 "''8.8.8.8''"] r
    by (simp add: wit_server_def new_server_def recent_def in_window_def f RATE_LIMIT_WINDOW_def)
qed

end
