(* ===== verification/Fetch.thy ===== *)
theory Fetch
  imports Client Server
begin

text \<open>
  \<open>transpeer/anchor/fetch.py\<close>: the client that pulls headers, blocks, venues, shares and blobs from another transpeer. Each
  method is the request it sends and what it makes of the reply; anything malformed counts as a network error.
\<close>

section \<open>Checks\<close>

definition json_hex32 :: "json \<Rightarrow> bytes result" where
  "json_hex32 v = bindR (json_hex v) (\<lambda>b. if length b \<noteq> 32 then Inl (ValueError ''not 32 bytes'') else Inr b)"

definition json_obj :: "json \<Rightarrow> json result" where
  "json_obj v = (if is_obj v then Inr v else Inl (ValueError ''body is not a JSON object''))"

fun is_str :: "json \<Rightarrow> bool" where
  "is_str (JStr s) = True"
| "is_str v = False"

definition json_items_of :: "(json \<Rightarrow> bool) \<Rightarrow> json \<Rightarrow> json list result" where
  "json_items_of kind v = (case v of
     JList vs \<Rightarrow> if list_all kind vs then Inr vs else Inl (ValueError ''not an array of the expected type'')
   | _ \<Rightarrow> Inl (ValueError ''not an array of the expected type''))"

section \<open>Requests\<close>

definition get_request :: "string \<Rightarrow> string list \<Rightarrow> (string, string) dict \<Rightarrow> request" where
  "get_request remote path query = \<lparr> rq_remote = remote, rq_path = path, rq_query = query, rq_headers = [] \<rparr>"

definition headers_request :: "string \<Rightarrow> string \<Rightarrow> int \<Rightarrow> int \<Rightarrow> request" where
  "headers_request remote chain from_height ct = get_request remote [''anchor'', chain, ''headers'']
     [(''from'', str_int from_height), (''count'', str_int ct)]"

definition tip_request :: "string \<Rightarrow> string \<Rightarrow> request" where
  "tip_request remote chain = get_request remote [''anchor'', chain, ''headers''] [(''count'', ''1'')]"

definition venues_request :: "string \<Rightarrow> request" where
  "venues_request remote = get_request remote [''venues''] []"

definition block_request :: "string \<Rightarrow> string \<Rightarrow> int \<Rightarrow> request" where
  "block_request remote chain height = get_request remote [''anchor'', chain, ''coinbase'', str_int height] []"

definition share_request :: "string \<Rightarrow> bytes \<Rightarrow> bytes \<Rightarrow> request" where
  "share_request remote venue share_id = get_request remote [''venue'', hex_of venue, ''share'', hex_of share_id] []"

definition shares_request :: "string \<Rightarrow> bytes \<Rightarrow> bytes \<Rightarrow> int \<Rightarrow> request" where
  "shares_request remote venue from_id ct = get_request remote [''venue'', hex_of venue, ''shares'']
     [(''from'', hex_of from_id), (''count'', str_int ct)]"

definition by_root_request :: "string \<Rightarrow> bytes \<Rightarrow> bytes \<Rightarrow> request" where
  "by_root_request remote venue mroot = get_request remote [''venue'', hex_of venue, ''share_by_root'', hex_of mroot] []"

definition blob_request :: "string \<Rightarrow> bytes \<Rightarrow> request" where
  "blob_request remote h = get_request remote [''blob'', hex_of h] []"

definition index_request :: "string \<Rightarrow> int \<Rightarrow> bytes \<Rightarrow> request" where
  "index_request remote since after = get_request remote [''blobs'', ''index'']
     ((''since'', str_int since) # (if after \<noteq> [] then [(''after'', hex_of after)] else []))"

section \<open>Replies\<close>

text \<open>The document of a reply of status 200 that is an object, and a result with every error turned into a default.\<close>

definition ok_json :: "reply option \<Rightarrow> json result" where
  "ok_json rp = (case rp of
     None \<Rightarrow> Inl (ConnectionError ''client error'')
   | Some r \<Rightarrow> if rp_status r \<noteq> 200 then Inl (ConnectionError ''status'') else bindR (rp_json r) json_obj)"

definition ok_bytes :: "reply option \<Rightarrow> bytes option" where
  "ok_bytes rp = (case rp of None \<Rightarrow> None | Some r \<Rightarrow> if rp_status r \<noteq> 200 then None else Some (rp_bytes r))"

definition or_default :: "'a \<Rightarrow> 'a result \<Rightarrow> 'a" where
  "or_default v r = (case r of Inl e \<Rightarrow> v | Inr x \<Rightarrow> x)"

definition header_of_dict :: "json \<Rightarrow> header_row result" where
  "header_of_dict h =
     bindR (bindR (json_get ''height'' h) json_int) (\<lambda>height.
     bindR (bindR (json_get ''blob'' h) json_hex) (\<lambda>blob.
     bindR (bindR (json_get ''difficulty'' h) json_int) (\<lambda>difficulty.
       Inr \<lparr> hr_height = height, hr_blob = blob, hr_difficulty = difficulty \<rparr>)))"

definition fetch_headers :: "string \<Rightarrow> reply option \<Rightarrow> header_row list" where
  "fetch_headers chain rp = or_default [] (bindR (ok_json rp) (\<lambda>data.
     if obj_get ''chain'' data \<noteq> Some (JStr chain) then Inr []
     else bindR (json_items_of is_obj (obj_get_or ''headers'' (JList []) data)) (mapR header_of_dict)))"

definition fetch_tip :: "string \<Rightarrow> reply option \<Rightarrow> int option" where
  "fetch_tip chain rp = or_default None (bindR (ok_json rp) (\<lambda>data.
     if obj_get ''chain'' data \<noteq> Some (JStr chain) then Inr None
     else (let tip = obj_get_or ''tip'' JNull data in
       if tip = JNull then Inr None else bindR (json_int tip) (\<lambda>t. Inr (Some t)))))"

definition fetch_venues :: "reply option \<Rightarrow> bytes list" where
  "fetch_venues rp = or_default [] (bindR (ok_json rp) (\<lambda>data.
     bindR (json_items_of is_str (obj_get_or ''venues'' (JList []) data)) (mapR json_hex32)))"

definition fetch_block :: "reply option \<Rightarrow> bytes option" where "fetch_block rp = ok_bytes rp"
definition fetch_share :: "reply option \<Rightarrow> bytes option" where "fetch_share rp = ok_bytes rp"

definition fetch_shares :: "reply option \<Rightarrow> bytes list" where
  "fetch_shares rp = or_default [] (bindR (ok_json rp) (\<lambda>data.
     bindR (json_items_of is_str (obj_get_or ''shares'' (JList []) data)) (mapR json_hex)))"

definition fetch_share_by_root :: "reply option \<Rightarrow> bytes option" where "fetch_share_by_root rp = ok_bytes rp"

definition fetch_blob :: "bytes \<Rightarrow> reply option \<Rightarrow> bytes option" where
  "fetch_blob h rp = (case ok_bytes rp of None \<Rightarrow> None | Some body \<Rightarrow> if blob_hash body \<noteq> h then None else Some body)"

definition fetch_index :: "reply option \<Rightarrow> json list \<times> int option \<times> bytes option" where
  "fetch_index rp = or_default ([], None, None) (bindR (ok_json rp) (\<lambda>data.
     bindR (json_items_of is_obj (obj_get_or ''blobs'' (JList []) data)) (\<lambda>rows.
     bindR (let v = obj_get_or ''next_since'' JNull data in
            if v = JNull then Inr None else bindR (json_int v) (\<lambda>i. Inr (Some i))) (\<lambda>next_since.
     bindR (let v = obj_get_or ''next_after'' JNull data in
            if json_truthy v then bindR (json_hex32 v) (\<lambda>b. Inr (Some b)) else Inr None) (\<lambda>next_after.
       Inr (rows, next_since, next_after))))))"

section \<open>What a client fetches is what the server holds\<close>

text \<open>One request to a server that lets it through.\<close>

definition asked :: "(json \<Rightarrow> bytes) \<Rightarrow> equix option \<Rightarrow> rat \<Rightarrow> rand \<Rightarrow> request \<Rightarrow> server \<Rightarrow> reply option" where
  "asked dumps lib now rs rq sv = Some (deliver dumps (fst (serve lib now rs rq sv)))"

lemma hex_of_nonempty [simp]: "hex_of b = [] \<longleftrightarrow> b = []" "[] = hex_of b \<longleftrightarrow> b = []"
  by (cases b; simp add: hex_of_def)+

lemma hex32_hex [simp]: "hex32 (hex_of b) = (if length b = 32 then Some b else None)"
  by (simp add: hex32_def)

lemma limited_through:
  assumes "fst (check_rate_limit now (rq_remote rq) sv)"
  shows "fst (limited now rq sv answer) = answer (snd (check_rate_limit now (rq_remote rq) sv))"
  using assms by (auto simp: limited_def split: prod.splits bool.splits)

lemma check_rate_limit_keeps [simp]:
  "sv_shares (snd (check_rate_limit now a sv)) = sv_shares sv" "sv_anchor (snd (check_rate_limit now a sv)) = sv_anchor sv"
  "sv_cfg (snd (check_rate_limit now a sv)) = sv_cfg sv" "sv_blobdb (snd (check_rate_limit now a sv)) = sv_blobdb sv"
  "sv_publisher (snd (check_rate_limit now a sv)) = sv_publisher sv" "sv_store (snd (check_rate_limit now a sv)) = sv_store sv"
  "sv_node_id (snd (check_rate_limit now a sv)) = sv_node_id sv"
  by (simp_all add: check_rate_limit_def split: prod.split)


lemma str_int_nonempty [simp]: "str_int i \<noteq> []" "[] \<noteq> str_int i"
  by (simp_all add: str_int_def eq_commute [of "[]"])

lemma asked_limited:
  assumes "dispatch_request lib now rs rq sv = limited now rq sv answer" "fst (check_rate_limit now (rq_remote rq) sv)"
    "answer (snd (check_rate_limit now (rq_remote rq) sv)) = Inr r"
  shows "asked dumps lib now rs rq sv = Some (deliver dumps r)"
proof -
  obtain sv' where "dispatch_request lib now rs rq sv = (Inr r, sv')"
    using limited_through [OF assms(2), of answer] assms(1,3) by (metis prod.collapse)
  then show ?thesis by (simp add: asked_def serve_def)
qed

lemma deliver_json [simp]: "ok_json (Some (deliver dumps (json_response (JObj d) 200))) = Inr (JObj d)"
  by (simp add: ok_json_def deliver_def json_response_def json_obj_def)

lemma deliver_raw [simp]: "ok_bytes (Some (deliver dumps (raw_response b))) = Some b"
  by (simp add: ok_bytes_def deliver_def raw_response_def)

lemma deliver_error [simp]: "st \<noteq> 200 \<Longrightarrow> ok_bytes (Some (deliver dumps (error_response msg st))) = None"
  "st \<noteq> 200 \<Longrightarrow> ok_json (Some (deliver dumps (error_response msg st))) = Inl (ConnectionError ''status'')"
  by (simp_all add: ok_bytes_def ok_json_def deliver_def error_response_def json_response_def)

lemma or_default_simps [simp]: "or_default v (Inr x) = x" "or_default v (Inl e) = v"
  by (simp_all add: or_default_def)

lemma obj_get_or_obj [simp]: "obj_get_or k v (JObj d) = (case dget d k of None \<Rightarrow> v | Some x \<Rightarrow> x)"
  by (simp add: obj_get_or_def)

lemma fetched_headers:
  assumes "fst (check_rate_limit now remote sv)" "sv_anchor sv = Some anchor" "chain = c_anchor_chain (sv_cfg sv)" "chain \<noteq> []"
  shows "fetch_headers chain (asked dumps lib now rs (headers_request remote chain h ct) sv) = header_rows h (clamp_count ct 720) anchor"
    "fetch_tip chain (asked dumps lib now rs (tip_request remote chain) sv) = anchor_tip_height anchor"
    "fetch_block (asked dumps lib now rs (block_request remote chain h) sv) = block_at h anchor"
proof -
  have d: "dispatch_request lib now rs (get_request remote [''anchor'', chain, ''headers''] q) sv =
      limited now (get_request remote [''anchor'', chain, ''headers''] q) sv (headers_answer chain q anchor)" for q
    using assms(2,4) by (simp add: dispatch_request_def Let_def get_request_def handle_anchor_headers_def)
  have t: "fst (check_rate_limit now (rq_remote (get_request remote p q)) sv)" for p q
    using assms(1) by (simp add: get_request_def)
  define hj :: "header_row \<Rightarrow> json" where "hj = (\<lambda>r. JObj [(''height'', JInt (hr_height r)), (''blob'', JStr (hex_of (hr_blob r))), (''difficulty'', JInt (hr_difficulty r))])"
  define doc where "doc = (\<lambda>h n. [(''chain'', JStr chain), (''tip'', case anchor_tip_height anchor of None \<Rightarrow> JNull | Some h \<Rightarrow> JInt h),
    (''headers'', JList (map hj (header_rows h n anchor)))])"
  have hj: "header_of_dict (hj r) = Inr r" "is_obj (hj r)" for r by (simp_all add: header_of_dict_def hj_def)
  have a: "headers_answer chain [(''from'', str_int h), (''count'', str_int ct)] anchor sv' =
      Inr (json_response (JObj (doc h (clamp_count ct 720))) 200)" if "sv_cfg sv' = sv_cfg sv" for sv'
    using that assms(3) by (simp add: headers_answer_def header_or_def doc_def hj_def)
  have n: "int_of_str ''0'' = Inr 0" "int_of_str ''1'' = Inr 1"
    by code_simp+
  have a1: "headers_answer chain [(''count'', ''1'')] anchor sv' = Inr (json_response (JObj (doc 0 (clamp_count 1 720))) 200)"
    if "sv_cfg sv' = sv_cfg sv" for sv'
    using that assms(3) by (simp add: headers_answer_def header_or_def n doc_def hj_def)
  show "fetch_headers chain (asked dumps lib now rs (headers_request remote chain h ct) sv) = header_rows h (clamp_count ct 720) anchor"
    unfolding headers_request_def asked_limited [OF d t a [OF check_rate_limit_keeps(3)]]
    by (simp add: fetch_headers_def doc_def json_items_of_def list_all_iff hj mapR_inverse)
  show "fetch_tip chain (asked dumps lib now rs (tip_request remote chain) sv) = anchor_tip_height anchor"
    unfolding tip_request_def asked_limited [OF d t a1 [OF check_rate_limit_keeps(3)]]
    by (cases "anchor_tip_height anchor") (simp_all add: fetch_tip_def doc_def Let_def)
  have db: "dispatch_request lib now rs (get_request remote [''anchor'', chain, ''coinbase'', str_int h] []) sv =
      limited now (get_request remote [''anchor'', chain, ''coinbase'', str_int h] []) sv (coinbase_answer chain (str_int h) anchor)"
    using assms(2,4) by (simp add: dispatch_request_def Let_def get_request_def handle_anchor_coinbase_def)
  have ab: "coinbase_answer chain (str_int h) anchor sv' = Inr (case block_at h anchor of
      None \<Rightarrow> error_response ''unknown block'' 404 | Some blob \<Rightarrow> raw_response blob)" if "sv_cfg sv' = sv_cfg sv" for sv'
    using that assms(3) by (simp add: coinbase_answer_def)
  show "fetch_block (asked dumps lib now rs (block_request remote chain h) sv) = block_at h anchor"
    unfolding block_request_def asked_limited [OF db t ab [OF check_rate_limit_keeps(3)]]
    by (cases "block_at h anchor") (simp_all add: fetch_block_def)
qed

lemma fetched_shares:
  assumes "fst (check_rate_limit now remote sv)" "dget (sv_shares sv) venue = Some s" "length venue = 32" "length i = 32"
  shows "fetch_share (asked dumps lib now rs (share_request remote venue i) sv) = share_raw i s"
    "fetch_shares (asked dumps lib now rs (shares_request remote venue i ct) sv) = map ps_raw (share_walk (clamp_count ct 64) i s)"
    "fetch_share_by_root (asked dumps lib now rs (by_root_request remote venue i) sv) = map_option ps_raw (share_by_root i s)"
proof -
  have t: "fst (check_rate_limit now (rq_remote (get_request remote p q)) sv)" for p q
    using assms(1) by (simp add: get_request_def)
  have ne: "venue \<noteq> []" "i \<noteq> []" using assms(3,4) by auto
  have v: "venue_store (hex_of venue) sv' = Inr s" if "sv_shares sv' = sv_shares sv" for sv'
    using that assms(2,3) by (simp add: venue_store_def)
  have d: "dispatch_request lib now rs (get_request remote [''venue'', hex_of venue, ''share'', hex_of i] []) sv =
      limited now (get_request remote [''venue'', hex_of venue, ''share'', hex_of i] []) sv (share_answer (hex_of venue) (hex_of i))"
    using ne by (simp add: dispatch_request_def Let_def get_request_def handle_venue_share_def)
  have a: "share_answer (hex_of venue) (hex_of i) sv' = Inr (case share_raw i s of
      None \<Rightarrow> error_response ''unknown share'' 404 | Some raw \<Rightarrow> raw_response raw)" if "sv_shares sv' = sv_shares sv" for sv'
    using assms(4) by (simp add: share_answer_def v [OF that])
  show "fetch_share (asked dumps lib now rs (share_request remote venue i) sv) = share_raw i s"
    unfolding share_request_def asked_limited [OF d t a [OF check_rate_limit_keeps(1)]]
    by (cases "share_raw i s") (simp_all add: fetch_share_def)
  define q where "q = [(''from'', hex_of i), (''count'', str_int ct)]"
  have ds: "dispatch_request lib now rs (get_request remote [''venue'', hex_of venue, ''shares''] q) sv =
      limited now (get_request remote [''venue'', hex_of venue, ''shares''] q) sv (shares_answer (hex_of venue) q)"
    using ne by (simp add: dispatch_request_def Let_def get_request_def handle_venue_shares_def)
  have as: "shares_answer (hex_of venue) q sv' = Inr (json_response (JObj [(''shares'',
      JList (map (\<lambda>x. JStr (hex_of x)) (map ps_raw (share_walk (clamp_count ct 64) i s))))]) 200)" if "sv_shares sv' = sv_shares sv" for sv'
    using assms(4) by (simp add: shares_answer_def v [OF that] header_or_def q_def comp_def)
  show "fetch_shares (asked dumps lib now rs (shares_request remote venue i ct) sv) = map ps_raw (share_walk (clamp_count ct 64) i s)"
    unfolding shares_request_def q_def [symmetric] asked_limited [OF ds t as [OF check_rate_limit_keeps(1)]]
    by (simp add: fetch_shares_def json_items_of_def list_all_iff mapR_inverse del: map_map)
  have dr: "dispatch_request lib now rs (get_request remote [''venue'', hex_of venue, ''share_by_root'', hex_of i] []) sv =
      limited now (get_request remote [''venue'', hex_of venue, ''share_by_root'', hex_of i] []) sv (by_root_answer (hex_of venue) (hex_of i))"
    using ne by (simp add: dispatch_request_def Let_def get_request_def handle_venue_share_by_root_def)
  have ar: "by_root_answer (hex_of venue) (hex_of i) sv' = Inr (case share_by_root i s of
      None \<Rightarrow> error_response ''unknown root'' 404 | Some sh \<Rightarrow> raw_response (ps_raw sh))" if "sv_shares sv' = sv_shares sv" for sv'
    using assms(4) by (simp add: by_root_answer_def v [OF that])
  show "fetch_share_by_root (asked dumps lib now rs (by_root_request remote venue i) sv) = map_option ps_raw (share_by_root i s)"
    unfolding by_root_request_def asked_limited [OF dr t ar [OF check_rate_limit_keeps(1)]]
    by (cases "share_by_root i s") (simp_all add: fetch_share_by_root_def)
qed


lemma fetched_venues:
  assumes "fst (check_rate_limit now remote sv)" "sv_anchor sv \<noteq> None" "\<forall>(v, s) \<in> set (sv_shares sv). length v = 32"
  shows "fetch_venues (asked dumps lib now rs (venues_request remote) sv) =
    dkeys (filter (\<lambda>(v, s). dget (venues_from_config (sv_cfg sv)) v \<noteq> None \<or> 0 < share_count s) (sv_shares sv))"
proof -
  have d: "dispatch_request lib now rs (venues_request remote) sv = limited now (venues_request remote) sv venues_answer"
    using assms(2) by (auto simp: dispatch_request_def Let_def venues_request_def get_request_def handle_venues_def)
  have t: "fst (check_rate_limit now (rq_remote (venues_request remote)) sv)"
    using assms(1) by (simp add: venues_request_def get_request_def)
  define vs where "vs = filter (\<lambda>(v, s). dget (venues_from_config (sv_cfg sv)) v \<noteq> None \<or> 0 < share_count s) (sv_shares sv)"
  have a: "venues_answer (snd (check_rate_limit now (rq_remote (venues_request remote)) sv)) =
      Inr (json_response (JObj [(''venues'', JList (map (\<lambda>v. JStr (hex_of v)) (dkeys vs)))]) 200)"
    by (simp add: venues_answer_def vs_def case_prod_unfold comp_def)
  have "\<forall>v \<in> set (dkeys vs). length v = 32" using assms(3) by (auto simp: vs_def)
  then have "mapR json_hex32 (map (\<lambda>v. JStr (hex_of v)) (dkeys vs)) = Inr (dkeys vs)"
    by (intro mapR_inverse) (auto simp: json_hex32_def)
  then show ?thesis
    unfolding asked_limited [OF d t a] vs_def [symmetric]
    by (simp add: fetch_venues_def json_items_of_def list_all_iff del: map_map)
qed

lemma fetched_blob:
  assumes "fst (check_rate_limit now remote sv)" "anchor_ready sv" "length h = 32"
  shows "fetch_blob h (asked dumps lib now rs (blob_request remote h) sv) =
    (case (case sv_publisher sv of None \<Rightarrow> None | Some pb \<Rightarrow> pb_lookup h pb) of
       Some blob \<Rightarrow> if blob_hash blob = h then Some blob else None
     | None \<Rightarrow> (case sv_blobdb sv of None \<Rightarrow> None | Some db \<Rightarrow> (case db_get h db of
           Inr (Some blob) \<Rightarrow> if blob_hash blob = h then Some blob else None | _ \<Rightarrow> None)))"
proof -
  have ne: "h \<noteq> []" using assms(3) by auto
  have d: "dispatch_request lib now rs (blob_request remote h) sv = limited now (blob_request remote h) sv (blob_answer (hex_of h))"
    using ne assms(2) by (simp add: dispatch_request_def Let_def blob_request_def get_request_def handle_blob_def)
  have t: "fst (check_rate_limit now (rq_remote (blob_request remote h)) sv)"
    using assms(1) by (simp add: blob_request_def get_request_def)
  define found where "found = (case (case sv_publisher sv of None \<Rightarrow> None | Some pb \<Rightarrow> pb_lookup h pb) of
      Some blob \<Rightarrow> Inr (Some blob) | None \<Rightarrow> (case sv_blobdb sv of None \<Rightarrow> Inr None | Some db \<Rightarrow> db_get h db))"
  have a: "blob_answer (hex_of h) (snd (check_rate_limit now (rq_remote (blob_request remote h)) sv)) =
      bindR found (\<lambda>blob. Inr (case blob of None \<Rightarrow> error_response ''unknown blob'' 404 | Some blob \<Rightarrow> raw_response blob))"
    using assms(3) by (simp add: blob_answer_def found_def cong: option.case_cong)
  have r: "fetch_blob h (asked dumps lib now rs (blob_request remote h) sv) =
      (case found of Inr (Some blob) \<Rightarrow> if blob_hash blob = h then Some blob else None | _ \<Rightarrow> None)"
  proof (cases found)
    case (Inl e)
    obtain sv' where "dispatch_request lib now rs (blob_request remote h) sv = (Inl e, sv')"
      using limited_through [OF t, of "blob_answer (hex_of h)"] a d Inl by (metis bindR_simps(2) prod.collapse)
    then show ?thesis by (simp add: asked_def serve_def deliver_def fetch_blob_def ok_bytes_def Inl)
  next
    case (Inr b)
    then show ?thesis
      using asked_limited [OF d t a [unfolded Inr bindR_simps]]
      by (cases b) (simp_all add: fetch_blob_def)
  qed
  show ?thesis unfolding r found_def by (auto split: option.splits sum.splits)
qed

lemma fetched_index:
  fixes since :: int
  assumes "fst (check_rate_limit now remote sv)" "sv_blobdb sv = Some db" "length after = 32 \<or> after = []"
    and "\<forall>r \<in> set (index_rows db). length (fst r) = 32"
  defines "rows \<equiv> index_since since 500 after db"
  shows "fetch_index (asked dumps lib now rs (index_request remote since after) sv) =
    (map index_row_json rows, if length rows = 500 then Some (fst (snd (last rows))) else None,
     if length rows = 500 then Some (fst (last rows)) else None)"
proof -
  have d: "dispatch_request lib now rs (index_request remote since after) sv =
      limited now (index_request remote since after) sv (index_answer (rq_query (index_request remote since after)))"
    using assms(2) by (simp add: dispatch_request_def Let_def index_request_def get_request_def handle_blobs_index_def anchor_ready_def)
  have t: "fst (check_rate_limit now (rq_remote (index_request remote since after)) sv)"
    using assms(1) by (simp add: index_request_def get_request_def)
  have n: "int_of_str ''500'' = Inr 500" "fromhex [] = Inr []" by code_simp+
  have c: "clamp_count 500 500 = 500" by (simp add: clamp_count_def)
  define doc where "doc = JObj [(''blobs'', JList (map index_row_json rows)),
     (''next_since'', if length rows = 500 then JInt (fst (snd (last rows))) else JNull),
     (''next_after'', if length rows = 500 then JStr (hex_of (fst (last rows))) else JNull)]"
  have a: "index_answer (rq_query (index_request remote since after)) (snd (check_rate_limit now (rq_remote (index_request remote since after)) sv)) =
      Inr (json_response doc 200)"
    using assms(3) by (auto simp: index_answer_def Let_def index_request_def get_request_def header_or_def n c assms(2) doc_def rows_def)
  have last: "length (fst (last rows)) = 32" if "length rows = 500"
  proof -
    have "last rows \<in> set rows" using that by (intro last_in_set) auto
    also have "set rows \<subseteq> set (index_rows db)" unfolding rows_def index_since_def by (auto dest: in_set_takeD)
    finally show ?thesis using assms(4) by blast
  qed
  have o: "list_all is_obj (map index_row_json rows)" by (auto simp: list_all_iff index_row_json_def split: prod.split)
  have ne: "hex_of (fst (last rows)) \<noteq> []" if "length rows = 500" using last [OF that] by auto
  show ?thesis
    unfolding asked_limited [OF d t a]
    using last ne by (auto simp: fetch_index_def doc_def json_items_of_def o json_hex32_def Let_def)
qed


text \<open>C29. From a server that lets its requests through, the client gets exactly what the server's stores hold: the run of
  headers from a height up to the page limit, the tip, the block at a height, and of every venue served a share, the chain
  of shares from one back through its parents up to the page limit, and the share of a Merkle root.\<close>

theorem fetched_is_held:
  assumes "fst (check_rate_limit now remote sv)" "sv_anchor sv = Some anchor" "c_anchor_chain (sv_cfg sv) \<noteq> []"
  shows "fetch_headers (c_anchor_chain (sv_cfg sv)) (asked dumps lib now rs (headers_request remote (c_anchor_chain (sv_cfg sv)) h ct) sv)
      = header_rows h (clamp_count ct 720) anchor \<and>
    fetch_tip (c_anchor_chain (sv_cfg sv)) (asked dumps lib now rs (tip_request remote (c_anchor_chain (sv_cfg sv))) sv)
      = anchor_tip_height anchor \<and>
    fetch_block (asked dumps lib now rs (block_request remote (c_anchor_chain (sv_cfg sv)) h) sv) = block_at h anchor \<and>
    (\<forall>venue s i. dget (sv_shares sv) venue = Some s \<and> length venue = 32 \<and> length i = 32 \<longrightarrow>
       fetch_share (asked dumps lib now rs (share_request remote venue i) sv) = share_raw i s \<and>
       fetch_shares (asked dumps lib now rs (shares_request remote venue i ct) sv) = map ps_raw (share_walk (clamp_count ct 64) i s) \<and>
       fetch_share_by_root (asked dumps lib now rs (by_root_request remote venue i) sv) = map_option ps_raw (share_by_root i s))"
  by (simp add: fetched_headers [OF assms(1,2) refl assms(3)] fetched_shares [OF assms(1)])

definition wit_holder :: server where
  "wit_holder = wit_server\<lparr>sv_anchor := Some (put_block 5 [1, 2] empty_anchor)\<rparr>"

lemma fetched_is_held_witness:
  "fetch_block (asked (\<lambda>j. []) None 1 [] (block_request ''8.8.8.8'' ''monero'' 5) wit_holder) = Some [1, 2]"
proof -
  have "fst (check_rate_limit 1 ''8.8.8.8'' wit_holder)" "c_anchor_chain (sv_cfg wit_holder) = ''monero''"
    by (simp_all add: check_rate_limit_def limit_request_def live_times_def wit_holder_def wit_server_def new_server_def
        RATE_LIMIT_REQUESTS_def default_config_def)
  moreover have "sv_anchor wit_holder = Some (put_block 5 [1, 2] empty_anchor)" by (simp add: wit_holder_def)
  ultimately show ?thesis
    using fetched_is_held [of 1 "''8.8.8.8''" wit_holder "put_block 5 [1, 2] empty_anchor" "\<lambda>j. []" None "[]" 5]
    by (simp add: block_at_def put_block_def)
qed

end
