(* ===== verification/EndToEnd.thy ===== *)
theory EndToEnd
  imports Fetch
begin

text \<open>
  A client and a server of the package put together: a request for peers to a server under load, through the demand for a
  handshake proof, its solution, the retry and the answer.
\<close>

section \<open>The header survives the way\<close>

lemma split1_colon: "CHR '':'' \<notin> set p \<Longrightarrow> split1 CHR '':'' (p @ '':'' @ q) = [p, q]"
  by (simp add: split1_def takeWhile_append dropWhile_append)

lemma pow_header_roundtrip: "parse_pow_header (pow_header_of (nonce, sol, bucket)) = Some (bucket, nonce, sol)"
  by (simp add: parse_pow_header_def pow_header_of_def split1_colon [simplified] str_int_no_char no_colon_b64)

lemma pow_header_bucket: "int_of_str (hd (split_on CHR '':'' (pow_header_of (nonce, sol, bucket)))) = Inr bucket"
  using split_on_append [of "CHR '':''" "str_int bucket"] by (simp add: pow_header_of_def str_int_no_char)

text \<open>A proof for an effort is one for any lower effort.\<close>

lemma verify_handshake_lower:
  assumes "verify_handshake lib now ip node nonce effort sol bucket sim = Inr True" "effort' \<le> effort"
  shows "verify_handshake lib now ip node nonce effort' sol bucket sim = Inr True"
proof -
  have "equix_difficulty_ok c n s effort \<Longrightarrow> equix_difficulty_ok c n s effort'" for c n s
    using assms(2) by (auto simp: equix_difficulty_ok_def intro: order_trans [OF mult_left_mono])
  with assms(1) show ?thesis
    by (auto simp: verify_handshake_def verify_solution_def bindR_Inr_conv split: if_splits sum.splits)
qed


section \<open>The requests of one fetch\<close>

definition peers_request :: "string \<Rightarrow> string \<Rightarrow> (string, string) dict \<Rightarrow> request" where
  "peers_request remote network hs = \<lparr> rq_remote = remote, rq_path = [''peers'', network], rq_query = [], rq_headers = hs \<rparr>"

text \<open>The server answers the first request at time \<open>t0\<close> and the retry at \<open>t1\<close>, in the state the first one left.\<close>

definition peers_exchange :: "(json \<Rightarrow> bytes) \<Rightarrow> equix option \<Rightarrow> string \<Rightarrow> string \<Rightarrow> rat \<Rightarrow> rat \<Rightarrow> server \<Rightarrow> exchange \<Rightarrow> bool" where
  "peers_exchange dumps lib remote network t0 t1 sv xc \<longleftrightarrow>
     xc_ask xc 0 = (\<lambda>hs. Some (deliver dumps (fst (serve lib t0 [] (peers_request remote network hs) sv)))) \<and>
     xc_ask xc 1 = (\<lambda>hs. Some (deliver dumps (fst (serve lib t1 [] (peers_request remote network hs)
        (snd (serve lib t0 [] (peers_request remote network []) sv))))))"

definition peers_document :: "string \<Rightarrow> server \<Rightarrow> json" where
  "peers_document network sv = JObj [(''network'', JStr network),
     (''peers'', JList (map peer_to_dict (fst (get_peers (sv_cfg sv) network True None [] (sv_store sv)))))]"

text \<open>The effort a server demands of a request at a time, and the state in which it has decided so.\<close>

definition demanded :: "rat \<Rightarrow> string \<Rightarrow> server \<Rightarrow> int" where
  "demanded now remote sv = fst (current_difficulty now (sv_load (snd (check_rate_limit now remote sv))))"

definition after_demand :: "rat \<Rightarrow> string \<Rightarrow> server \<Rightarrow> server" where
  "after_demand now remote sv = (let sv = snd (check_rate_limit now remote sv) in
     sv\<lparr>sv_load := snd (current_difficulty now (sv_load sv))\<rparr>)"

lemma serve_peers:
  assumes "network \<noteq> []" "fst (check_rate_limit now remote sv)"
  shows "demanded now remote sv \<noteq> 0 \<Longrightarrow> serve lib now rs (peers_request remote network []) sv =
      (pow_required_response now (demanded now remote sv) remote (after_demand now remote sv), after_demand now remote sv)"
    "demanded now remote sv = 0 \<or>
       parse_pow_header h = Some (bucket, nonce, sol) \<and> h \<noteq> [] \<and>
       verify_handshake lib (trunc now) remote (sv_node_id sv) nonce (demanded now remote sv) sol bucket (c_sim_pow (sv_cfg sv)) = Inr True \<Longrightarrow>
     serve lib now rs (peers_request remote network [(''X-Transpeer-PoW'', h)]) sv =
       (json_response (peers_document network sv) 200, after_demand now remote sv)"
proof -
  obtain sv1 where c: "check_rate_limit now remote sv = (True, sv1)" using assms(2) by (metis prod.collapse)
  obtain e lt where d: "current_difficulty now (sv_load sv1) = (e, lt)" by fastforce
  have e: "demanded now remote sv = e" "after_demand now remote sv = sv1\<lparr>sv_load := lt\<rparr>"
    by (simp_all add: demanded_def after_demand_def c d Let_def)
  have k: "sv_node_id sv1 = sv_node_id sv" "sv_cfg sv1 = sv_cfg sv" "sv_store sv1 = sv_store sv"
    using check_rate_limit_keeps [of now remote sv] by (simp_all add: c)
  show "serve lib now rs (peers_request remote network []) sv =
      (pow_required_response now (demanded now remote sv) remote (after_demand now remote sv), after_demand now remote sv)"
    if "demanded now remote sv \<noteq> 0"
    using that assms(1)
    by (simp add: serve_def dispatch_request_def Let_def peers_request_def handle_peers_def admit_def c check_handshake_pow_def d
        e header_or_def)
  show "serve lib now rs (peers_request remote network [(''X-Transpeer-PoW'', h)]) sv =
       (json_response (peers_document network sv) 200, after_demand now remote sv)"
    if "demanded now remote sv = 0 \<or>
       parse_pow_header h = Some (bucket, nonce, sol) \<and> h \<noteq> [] \<and>
       verify_handshake lib (trunc now) remote (sv_node_id sv) nonce (demanded now remote sv) sol bucket (c_sim_pow (sv_cfg sv)) = Inr True"
  proof -
    let ?rq = "peers_request remote network [(''X-Transpeer-PoW'', h)]"
    have "\<exists>i. check_handshake_pow lib now ?rq sv1 = (Inr (True, i), sv1\<lparr>sv_load := lt\<rparr>)"
    proof (cases "e = 0")
      case True
      then show ?thesis by (simp add: check_handshake_pow_def d)
    next
      case False
      then have "parse_pow_header h = Some (bucket, nonce, sol)" "h \<noteq> []"
        "verify_handshake lib (trunc now) remote (sv_node_id sv) nonce e sol bucket (c_sim_pow (sv_cfg sv)) = Inr True"
        using that by (auto simp: e)
      with False show ?thesis by (simp add: check_handshake_pow_def d k header_or_def peers_request_def)
    qed
    then obtain i where i: "check_handshake_pow lib now ?rq sv1 = (Inr (True, i), sv1\<lparr>sv_load := lt\<rparr>)" ..
    have rq: "rq_remote ?rq = remote" "rq_path ?rq = [''peers'', network]" by (simp_all add: peers_request_def)
    have "handle_peers lib now network ?rq sv = (Inr (json_response (peers_document network sv) 200), after_demand now remote sv)"
      by (simp add: handle_peers_def admit_def rq c i e(2) k Let_def peers_document_def)
    with assms(1) show ?thesis by (simp add: serve_def dispatch_request_def rq Let_def)
  qed
qed

lemma demand_understood:
  assumes "0 < e" "e \<le> HANDSHAKE_MAX_EFFORT" "sv_node_id sv \<noteq> []" "remote \<noteq> []"
  shows "rp_status (deliver dumps (pow_required_response now e remote sv)) = 402"
    "\<exists>info. rp_json (deliver dumps (pow_required_response now e remote sv)) = Inr info \<and>
       pow_demand (deliver dumps (pow_required_response now e remote sv)) info = Some (e, sv_node_id sv, remote)"
  using assms by (simp_all add: deliver_def pow_required_response_def pow_demand_def Let_def)

text \<open>The peers that get across: the client's rules applied to the server's entries.\<close>

definition receivable :: "config \<Rightarrow> equix option \<Rightarrow> int \<Rightarrow> string \<Rightarrow> peer \<Rightarrow> bool" where
  "receivable cfg lib now network p \<longleftrightarrow>
     ipv4_of_string (p_addr p) \<noteq> None \<and> 1 \<le> p_port p \<and> p_port p \<le> 65535 \<and>
     (c_no_pow cfg \<or> peer_pow_ok cfg lib now network (p_addr p) (p_port p) (wire_of network p) = Inr True)"

definition received :: "int \<Rightarrow> string \<Rightarrow> peer \<Rightarrow> wire_peer" where
  "received now network p = (wire_of network p)\<lparr>w_last_seen := JInt (max 0 (min (p_last_seen p) now))\<rparr>"

lemma accept_peers_received:
  "\<forall>p \<in> set ps. receivable cfg lib now network p \<Longrightarrow>
     accept_peers cfg lib now network (map peer_to_dict ps) = Inr (map (received now network) ps)"
proof (induction ps)
  case (Cons p ps)
  have w: "w_addr (wire_of network p) = JStr (p_addr p)" "w_port (wire_of network p) = JInt (p_port p)"
    "w_last_seen (wire_of network p) = JInt (p_last_seen p)" by (simp_all add: wire_of_def)
  have "accept_peer cfg lib now network (peer_to_dict p) = Inr (Some (received now network p))"
    using Cons.prems by (auto simp: accept_peer_def peer_dict_roundtrip w receivable_def received_def Let_def)
  with Cons show ?case by simp
qed simp

text \<open>C30. Under load: a client that asks for the peers of a network, is told the effort, finds a solution and asks again in
  the same or the next bucket gets every verified peer the server holds, as long as the server still lets it through, has not
  raised the effort, and each of those peers satisfies the client's own rules. The library's solutions verify, by hypothesis.\<close>

theorem peers_fetched_under_load:
  assumes "peers_exchange dumps (Some l) remote network t0 t1 sv xc" "network \<noteq> []" "remote \<noteq> []" "sv_node_id sv \<noteq> []"
    and "fst (check_rate_limit t0 remote sv)" "0 < demanded t0 remote sv" "demanded t0 remote sv \<le> HANDSHAKE_MAX_EFFORT"
    and "solve_handshake_for cfg (Some l) xc (demanded t0 remote sv) (sv_node_id sv) remote = Inr h"
    and "equix_sound l \<or> c_sim_pow cfg" "c_sim_pow (sv_cfg sv) = c_sim_pow cfg"
    and "xc_solved xc \<le> trunc t1" "trunc t1 div HANDSHAKE_BUCKET_SECS \<le> xc_solved xc div HANDSHAKE_BUCKET_SECS + 1"
    and "fst (check_rate_limit t1 remote (after_demand t0 remote sv))"
    and "demanded t1 remote (after_demand t0 remote sv) \<le> demanded t0 remote sv"
    and "\<forall>p \<in> set (fst (get_peers (sv_cfg sv) network True None [] (sv_store sv))). receivable cfg (Some l) (xc_now xc) network p"
  shows "\<exists>cache. fetch_peers cfg (Some l) addr network xc [] =
    (Inr (map (received (xc_now xc) network) (fst (get_peers (sv_cfg sv) network True None [] (sv_store sv)))), cache)"
proof -
  let ?e = "demanded t0 remote sv" and ?sv1 = "after_demand t0 remote sv"
  have keep: "sv_node_id ?sv1 = sv_node_id sv" "sv_cfg ?sv1 = sv_cfg sv" "sv_store ?sv1 = sv_store sv"
    by (simp_all add: after_demand_def Let_def)
  have first: "serve (Some l) t0 [] (peers_request remote network []) sv = (pow_required_response t0 ?e remote ?sv1, ?sv1)"
    by (rule serve_peers(1)) (use assms in auto)
  obtain nonce sol bucket where solved: "solve_handshake (Some l) remote (sv_node_id sv) ?e (c_sim_pow cfg) (xc_sim_rand xc)
      (xc_rand xc) (xc_solved xc) = Inr (nonce, sol, bucket)" and h: "h = pow_header_of (nonce, sol, bucket)"
    using assms(8) by (auto simp: solve_handshake_for_def bindR_Inr_conv)
  have ver: "verify_handshake (Some l) (trunc t1) remote (sv_node_id ?sv1) nonce (demanded t1 remote ?sv1) sol bucket
      (c_sim_pow (sv_cfg ?sv1)) = Inr True"
    using verify_handshake_lower [OF handshake_accepted [OF solved assms(9,11,12)] assms(14)] keep assms(10) by simp
  have second: "serve (Some l) t1 [] (peers_request remote network [(''X-Transpeer-PoW'', h)]) ?sv1 =
      (json_response (peers_document network ?sv1) 200, after_demand t1 remote ?sv1)"
    by (rule serve_peers(2) [OF assms(2,13), where nonce = nonce and sol = sol and bucket = bucket])
      (use ver h pow_header_roundtrip in \<open>auto simp: pow_header_of_def\<close>)
  have doc: "peers_document network ?sv1 = peers_document network sv" by (simp add: peers_document_def keep)
  obtain info where info: "rp_json (deliver dumps (pow_required_response t0 ?e remote ?sv1)) = Inr info"
    "pow_demand (deliver dumps (pow_required_response t0 ?e remote ?sv1)) info = Some (?e, sv_node_id sv, remote)"
    using demand_understood(2) [OF assms(6,7), of ?sv1 remote dumps t0] assms(3,4) keep by auto
  have st: "rp_status (deliver dumps (pow_required_response t0 ?e remote ?sv1)) = 402"
    by (simp add: deliver_def pow_required_response_def)
  have ask0: "xc_ask xc 0 [] = Some (deliver dumps (pow_required_response t0 ?e remote ?sv1))"
    and ask1: "xc_ask xc 1 [(''X-Transpeer-PoW'', h)] = Some (deliver dumps (json_response (peers_document network sv) 200))"
    using assms(1) first second doc by (simp_all add: peers_exchange_def)
  define rp0 where "rp0 = deliver dumps (pow_required_response t0 ?e remote ?sv1)"
  define rp1 where "rp1 = deliver dumps (json_response (peers_document network sv) 200)"
  have rp1: "rp_status rp1 = 200" "json_or_none rp1 = peers_document network sv"
    by (simp_all add: rp1_def deliver_def json_response_def json_or_none_def)
  have "get_with_pow cfg (Some l) xc addr [] = (Inr (peers_document network sv), cache_put addr (sv_node_id sv) bucket h [])"
    using ask0 ask1 st info rp1 pow_header_bucket [of nonce sol bucket, folded h]
    unfolding rp0_def [symmetric] rp1_def [symmetric]
    by (simp add: get_with_pow_def cached_headers_def retry_with_pow_def assms(8))
  then show ?thesis
    using accept_peers_received [OF assms(15)]
    by (simp add: fetch_peers_def peers_document_def obj_get_or_def catch_malformed_def)
qed


section \<open>A server under load\<close>

text \<open>A library whose one solution of every challenge verifies, and a server that holds one verified peer and demands effort 1.\<close>

definition wit_equix :: equix where
  "wit_equix = \<lparr> eq_alloc = (\<lambda>f. True), eq_solve = (\<lambda>c. [replicate 16 0]), eq_verify = (\<lambda>c s. EQUIX_OK) \<rparr>"

definition wit_peer :: peer where
  "wit_peer = (new_peer ''monero'' ''8.8.8.8'' 18080)\<lparr>p_last_seen := 50, p_verified := True\<rparr>"

definition wit_loaded :: server where
  "wit_loaded = wit_server
     \<lparr> sv_store := (empty_store default_config)\<lparr>s_peers := [(peer_key wit_peer, wit_peer)]\<rparr>,
       sv_load := \<lparr> lt_requests = [], lt_last_recompute = 99, lt_difficulty = 1 \<rparr> \<rparr>"

definition wit_client :: config where
  "wit_client = default_config\<lparr>c_no_pow := True\<rparr>"

definition wit_xc :: exchange where
  "wit_xc = \<lparr> xc_ask = (\<lambda>n. if n = 0 then (\<lambda>hs. Some (deliver (\<lambda>j. []) (fst (serve (Some wit_equix) 100 [] (peers_request ''9.9.9.9'' ''monero'' hs) wit_loaded))))
       else (\<lambda>hs. Some (deliver (\<lambda>j. []) (fst (serve (Some wit_equix) 101 [] (peers_request ''9.9.9.9'' ''monero'' hs)
          (snd (serve (Some wit_equix) 100 [] (peers_request ''9.9.9.9'' ''monero'' []) wit_loaded))))))),
     xc_solved = 100, xc_sim_rand = ([], []), xc_rand = (\<lambda>n. replicate 8 0), xc_now = 101 \<rparr>"

lemma wit_equix_sound: "equix_sound wit_equix"
  by (simp add: equix_sound_def wit_equix_def)

lemma effort_one: "equix_difficulty_ok c n s 1"
proof -
  have "le_val (blake2b 4 (c @ n @ s)) < 256 ^ 4" using le_val_bound [of "blake2b 4 (c @ n @ s)"] by (simp add: length_blake2b)
  then show ?thesis by (simp add: equix_difficulty_ok_def)
qed

lemma wit_solved: "\<exists>h. solve_handshake_for cfg (Some wit_equix) wit_xc 1 node_id remote = Inr h"
proof -
  define c where "c = build_handshake_challenge remote node_id (xc_solved wit_xc div HANDSHAKE_BUCKET_SECS)"
  have "solve_round wit_equix c (le_bytes 8 0 @ xc_rand wit_xc 0) 1 \<noteq> None"
    by (simp add: solve_round_def wit_equix_def EQUIX_MAX_SOLS_def effort_one)
  then have "\<exists>r. solve_from wit_equix c 1 (xc_rand wit_xc) 0 = Inr r"
    by (intro solve_from_found [of 0 0]) simp_all
  then obtain nonce sol where "solve_from wit_equix c 1 (xc_rand wit_xc) 0 = Inr (nonce, sol)" by auto
  moreover have "equix_ctx EQUIX_CTX_SOLVE m (Some wit_equix) = Inr wit_equix" for m
    using wit_equix_sound by (simp add: equix_ctx_def load_lib_def equix_sound_def)
  ultimately show ?thesis
    by (cases "c_sim_pow cfg") (simp_all add: solve_handshake_for_def solve_handshake_def Let_def c_def)
qed

lemma wit_limits:
  "fst (check_rate_limit 100 ''9.9.9.9'' wit_loaded)"
  "sv_limits (snd (check_rate_limit 100 ''9.9.9.9'' wit_loaded)) = [(''9.9.9.9'', [100])]"
  "lt_last_recompute (sv_load (snd (check_rate_limit 100 ''9.9.9.9'' wit_loaded))) = 99"
  "lt_difficulty (sv_load (snd (check_rate_limit 100 ''9.9.9.9'' wit_loaded))) = 1"
  by (simp_all add: check_rate_limit_def limit_request_def live_times_def wit_loaded_def wit_server_def new_server_def
      RATE_LIMIT_REQUESTS_def sweep_limits_def record_request_def)

lemma wit_demand:
  "demanded 100 ''9.9.9.9'' wit_loaded = 1" "sv_limits (after_demand 100 ''9.9.9.9'' wit_loaded) = [(''9.9.9.9'', [100])]"
  "fst (check_rate_limit 101 ''9.9.9.9'' (after_demand 100 ''9.9.9.9'' wit_loaded))"
  "demanded 101 ''9.9.9.9'' (after_demand 100 ''9.9.9.9'' wit_loaded) = 1"
proof -
  have f: "fl 1 = 1" "fl 2 = 2" by code_simp+
  define sv1 where "sv1 = snd (check_rate_limit 100 ''9.9.9.9'' wit_loaded)"
  note l = wit_limits [folded sv1_def]
  show d: "demanded 100 ''9.9.9.9'' wit_loaded = 1"
    by (simp add: demanded_def current_difficulty_def sv1_def [symmetric] l f)
  have a: "after_demand 100 ''9.9.9.9'' wit_loaded = sv1"
    by (simp add: after_demand_def current_difficulty_def sv1_def [symmetric] l f Let_def)
  then show "sv_limits (after_demand 100 ''9.9.9.9'' wit_loaded) = [(''9.9.9.9'', [100])]" by (simp add: l)
  show "fst (check_rate_limit 101 ''9.9.9.9'' (after_demand 100 ''9.9.9.9'' wit_loaded))"
    unfolding a by (simp add: check_rate_limit_def limit_request_def live_times_def l RATE_LIMIT_REQUESTS_def in_window_def f RATE_LIMIT_WINDOW_def)
  have "lt_last_recompute (sv_load (snd (check_rate_limit 101 ''9.9.9.9'' sv1))) = 99"
    "lt_difficulty (sv_load (snd (check_rate_limit 101 ''9.9.9.9'' sv1))) = 1"
    by (simp_all add: check_rate_limit_def l record_request_def split: prod.split)
  then show "demanded 101 ''9.9.9.9'' (after_demand 100 ''9.9.9.9'' wit_loaded) = 1"
    unfolding a by (simp add: demanded_def current_difficulty_def f)
qed

lemma peers_fetched_under_load_witness:
  "\<exists>cache. fetch_peers wit_client (Some wit_equix) ''8.8.4.4'' ''monero'' wit_xc [] = (Inr [received 101 ''monero'' wit_peer], cache)"
proof -
  have ex: "peers_exchange (\<lambda>j. []) (Some wit_equix) ''9.9.9.9'' ''monero'' 100 101 wit_loaded wit_xc"
    by (simp add: peers_exchange_def wit_xc_def)
  have g: "fst (get_peers (sv_cfg wit_loaded) ''monero'' True None [] (sv_store wit_loaded)) = [wit_peer]"
    by (simp add: get_peers_def wit_loaded_def wit_server_def new_server_def default_config_def wit_peer_def new_peer_def)
  have r: "receivable wit_client (Some wit_equix) 101 ''monero'' wit_peer"
    by (simp add: receivable_def wit_client_def default_config_def wit_peer_def new_peer_def wit_ips)
  have b: "trunc 101 div HANDSHAKE_BUCKET_SECS \<le> 100 div HANDSHAKE_BUCKET_SECS + 1" "(100::int) \<le> trunc 101"
    by (simp_all add: trunc_def HANDSHAKE_BUCKET_SECS_def)
  have c: "sv_node_id wit_loaded \<noteq> []" "c_sim_pow (sv_cfg wit_loaded) = c_sim_pow wit_client"
    by (simp_all add: wit_loaded_def wit_server_def new_server_def wit_client_def)
  have xc: "xc_solved wit_xc = 100" "xc_now wit_xc = 101" by (simp_all add: wit_xc_def)
  have lim: "fst (check_rate_limit 100 ''9.9.9.9'' wit_loaded)" by (rule wit_limits(1))
  obtain h where h: "solve_handshake_for wit_client (Some wit_equix) wit_xc 1 (sv_node_id wit_loaded) ''9.9.9.9'' = Inr h"
    using wit_solved by blast
  show ?thesis
    using peers_fetched_under_load [OF ex _ _ c(1) lim, of wit_client h "''8.8.4.4''"] h c(2) wit_equix_sound b wit_demand r
    by (simp add: g xc HANDSHAKE_MAX_EFFORT_def)
qed

end
