(* ===== verification/Reader.thy ===== *)
theory Reader
  imports Fetch Weight Headers
begin

text \<open>
  \<open>transpeer/anchor/reader.py\<close>: the reader. A sync fetches headers, the blocks of the coverage window, the shares their
  tags point to, the canonical fork of every venue and the blobs the shares commit to, weighs the transpeers those list and
  publishes the heaviest; gossip takes over blobs another node indexes once a commitment to them is verified. What the other
  transpeers answer is a function of the source and the request; the clock counts whole seconds.
\<close>

section \<open>Constants and data\<close>

definition MAX_SOURCES :: nat where "MAX_SOURCES = 5"
definition HEADER_PAGE :: int where "HEADER_PAGE = 720"
definition SHARE_PAGE :: int where "SHARE_PAGE = 64"
definition TOP_N_PUBLISH :: nat where "TOP_N_PUBLISH = 64"
definition MAX_BLOCKS_PAST_CHECKPOINT :: int where "MAX_BLOCKS_PAST_CHECKPOINT = 400000"
definition MAX_BLOCK_FETCHES :: int where "MAX_BLOCK_FETCHES = 720"
definition MAX_SHARE_BATCHES :: nat where "MAX_SHARE_BATCHES = 40"
definition MAX_LEAF_FETCHES :: int where "MAX_LEAF_FETCHES = 256"
definition MAX_DISCOVERED_VENUES :: nat where "MAX_DISCOVERED_VENUES = 16"
definition DISCOVERED_TTL :: int where "DISCOVERED_TTL = 86400"
definition MIN_WINDOW_FETCHED :: rat where "MIN_WINDOW_FETCHED = fl (9 / 10)"

definition coverage_from :: "chain_view \<Rightarrow> rat \<Rightarrow> int" where
  "coverage_from view days =
     (let span = trunc (fl (fmul days 86400 / of_int MONERO_BLOCK_TIME)) in max (tip_height view - span) (cv_first view))"

definition parse_checkpoint :: "string \<Rightarrow> checkpoint result" where
  "parse_checkpoint s =
     (case split1 CHR '':'' s of
        [height_s, hex_hash] \<Rightarrow>
          (case bindR (int_of_str height_s) (\<lambda>height. bindR (fromhex hex_hash) (\<lambda>h. Inr (height, h))) of
             Inl e \<Rightarrow> Inl (ValueError ''malformed checkpoint'')
           | Inr (height, h) \<Rightarrow>
               if height < 0 \<or> length h \<noteq> 32 then Inl (ValueError ''malformed checkpoint'')
               else Inr \<lparr> cp_height = height, cp_hash = h \<rparr>)
      | _ \<Rightarrow> Inl (ValueError ''malformed checkpoint''))"

record reader_state =
  st_tagged :: int
  st_resolved :: int
  st_coverage :: rat
  st_bootstrapped :: bool
  st_tip_height :: "int option"
  st_window_blocks :: int
  st_fetched_blocks :: int
  st_venues :: "(bytes, bytes) dict"
  st_weights :: "(entry, int) dict"
  st_published :: "entry list"
  st_last_sync :: int

definition new_reader_state :: reader_state where
  "new_reader_state = \<lparr> st_tagged = 0, st_resolved = 0, st_coverage = 0, st_bootstrapped = False, st_tip_height = None,
     st_window_blocks = 0, st_fetched_blocks = 0, st_venues = [], st_weights = [], st_published = [], st_last_sync = 0 \<rparr>"

text \<open>The answers of the sources, as \<open>AnchorClient\<close> returns them.\<close>

record network =
  nt_tip :: "entry \<Rightarrow> string \<Rightarrow> int option"
  nt_headers :: "entry \<Rightarrow> string \<Rightarrow> int \<Rightarrow> int \<Rightarrow> header_row list"
  nt_venues :: "entry \<Rightarrow> bytes list"
  nt_block :: "entry \<Rightarrow> string \<Rightarrow> int \<Rightarrow> bytes option"
  nt_share :: "entry \<Rightarrow> bytes \<Rightarrow> bytes \<Rightarrow> bytes option"
  nt_shares :: "entry \<Rightarrow> bytes \<Rightarrow> bytes \<Rightarrow> int \<Rightarrow> bytes list"
  nt_share_by_root :: "entry \<Rightarrow> bytes \<Rightarrow> bytes \<Rightarrow> bytes option"
  nt_blob :: "entry \<Rightarrow> bytes \<Rightarrow> bytes option"
  nt_index :: "entry \<Rightarrow> int \<Rightarrow> bytes \<Rightarrow> json list \<times> int option \<times> bytes option"

text \<open>What a reader is built with, and the state it works on; \<open>rd_disk\<close> is what the directory of a venue holds while the
  reader has no store for it.\<close>

record reader_env =
  re_cfg :: config
  re_net :: network
  re_pow :: pow_backend
  re_now :: int
  re_draws :: "entry \<Rightarrow> rat list"
  re_rand :: "nat \<Rightarrow> rand"

record anchor_reader =
  rd_store :: store
  rd_blobdb :: blob_db
  rd_anchor :: anchor_store
  rd_shares :: "(bytes, share_store) dict"
  rd_disk :: "bytes \<Rightarrow> (string, bytes) dict option"
  rd_state :: reader_state
  rd_discovered :: "(bytes, int) dict"
  rd_cursors :: "(entry, int \<times> bytes) dict"

text \<open>A step returns a value or raises, and leaves the state as far as it came.\<close>

type_synonym 'a rstep = "anchor_reader \<Rightarrow> 'a result \<times> anchor_reader"

definition retS :: "'a \<Rightarrow> 'a rstep" where "retS x rd = (Inr x, rd)"

definition bindS :: "'a rstep \<Rightarrow> ('a \<Rightarrow> 'b rstep) \<Rightarrow> 'b rstep" where
  "bindS m f rd = (case m rd of (Inl e, rd) \<Rightarrow> (Inl e, rd) | (Inr x, rd) \<Rightarrow> f x rd)"

definition liftS :: "'a result \<Rightarrow> 'a rstep" where "liftS r rd = (r, rd)"

definition getS :: "(anchor_reader \<Rightarrow> 'a) \<Rightarrow> 'a rstep" where "getS f rd = (Inr (f rd), rd)"

definition modifyS :: "(anchor_reader \<Rightarrow> anchor_reader) \<Rightarrow> unit rstep" where "modifyS f rd = (Inr (), f rd)"

lemma bindS_cong [fundef_cong]:
  assumes "m = m'" "rd = rd'" "\<And>x rd2. m' rd' = (Inr x, rd2) \<Longrightarrow> f x rd2 = g x rd2"
  shows "bindS m f rd = bindS m' g rd'"
  using assms by (auto simp: bindS_def split: prod.split sum.split)

text \<open>\<open>except (ValueError, TypeError, KeyError)\<close>: a value in place of the error.\<close>

definition catchR :: "'a \<Rightarrow> 'a result \<Rightarrow> 'a result" where
  "catchR v r = (case r of Inl e \<Rightarrow> if load_caught e then Inr v else Inl e | Inr x \<Rightarrow> Inr x)"

text \<open>The stored view; one read from a document with elements that are no integers is outside of this model.\<close>

fun json_ints :: "json list \<Rightarrow> int list option" where
  "json_ints [] = Some []"
| "json_ints (JInt i # vs) = map_option ((#) i) (json_ints vs)"
| "json_ints (v # vs) = None"

definition view_of_stored :: "stored_view \<Rightarrow> chain_view option" where
  "view_of_stored s = (case (json_ints (sv_timestamps s), json_ints (sv_difficulties s), json_ints (sv_cumulative s)) of
     (Some ts, Some ds, Some cs) \<Rightarrow> Some \<lparr> cv_first = sv_first s, cv_ids = sv_ids s, cv_timestamps = ts, cv_difficulties = ds,
        cv_cumulative = cs, cv_blobs = sv_blobs s, cv_checkpoint_height = sv_checkpoint_height s \<rparr>
   | _ \<Rightarrow> None)"

definition anchor_view :: "anchor_store \<Rightarrow> chain_view option" where
  "anchor_view a = (case as_view a of None \<Rightarrow> None | Some s \<Rightarrow> view_of_stored s)"

section \<open>Venues\<close>

definition venue_share_store :: "reader_env \<Rightarrow> bytes \<Rightarrow> share_store rstep" where
  "venue_share_store env cid rd = (case dget (rd_shares rd) cid of
     Some s \<Rightarrow> (Inr s, rd)
   | None \<Rightarrow> (let path = \<not> c_in_memory (re_cfg env);
                 s = new_share_store path (if path then rd_disk rd cid else None)
             in (Inr s, rd\<lparr>rd_shares := dput cid s (rd_shares rd)\<rparr>)))"

definition put_share_store :: "bytes \<Rightarrow> share_store \<Rightarrow> unit rstep" where
  "put_share_store cid s = modifyS (\<lambda>rd. rd\<lparr>rd_shares := dput cid s (rd_shares rd)\<rparr>)"

fun advertised_by :: "network \<Rightarrow> entry list \<Rightarrow> (bytes, string) dict \<Rightarrow> bytes list \<Rightarrow> bytes list" where
  "advertised_by net [] venues acc = acc"
| "advertised_by net (src # srcs) venues acc =
     advertised_by net srcs venues (fold (\<lambda>cid acc. if dget venues cid = None \<and> cid \<notin> set acc then acc @ [cid] else acc)
       (nt_venues net src) acc)"

definition expired_venue :: "int \<Rightarrow> anchor_reader \<Rightarrow> bytes \<times> int \<Rightarrow> bool" where
  "expired_venue now rd v \<longleftrightarrow> now - snd v > DISCOVERED_TTL \<and>
     (case dget (rd_shares rd) (fst v) of None \<Rightarrow> True | Some s \<Rightarrow> share_count s = 0)"

definition forget_venue :: "bytes \<Rightarrow> anchor_reader \<Rightarrow> anchor_reader" where
  "forget_venue cid rd = rd\<lparr> rd_discovered := ddel cid (rd_discovered rd), rd_shares := ddel cid (rd_shares rd),
     rd_disk := (case dget (rd_shares rd) cid of Some s \<Rightarrow> (if ss_path s then (rd_disk rd)(cid := ss_dir s) else rd_disk rd)
       | None \<Rightarrow> rd_disk rd) \<rparr>"

definition expire_discovered :: "int \<Rightarrow> anchor_reader \<Rightarrow> anchor_reader" where
  "expire_discovered now rd =
     fold (\<lambda>v rd. if expired_venue now rd v then forget_venue (fst v) rd else rd) (rd_discovered rd) rd"

fun discover :: "int \<Rightarrow> bytes list \<Rightarrow> (bytes, int) dict \<Rightarrow> (bytes, int) dict" where
  "discover now [] d = d"
| "discover now (cid # cids) d =
     (if dget d cid \<noteq> None then discover now cids d
      else if length d \<ge> MAX_DISCOVERED_VENUES then d
      else discover now cids (dput cid now d))"

definition candidate_venues :: "reader_env \<Rightarrow> entry list \<Rightarrow> anchor_reader \<Rightarrow> (bytes, string) dict \<times> anchor_reader" where
  "candidate_venues env sources rd =
     (let venues = venues_from_config (re_cfg env);
          advertised = advertised_by (re_net env) sources venues [];
          rd = rd\<lparr>rd_discovered := fold (\<lambda>cid d. if dget d cid \<noteq> None then dput cid (re_now env) d else d) advertised (rd_discovered rd)\<rparr>;
          rd = expire_discovered (re_now env) rd;
          rd = rd\<lparr>rd_discovered := discover (re_now env) advertised (rd_discovered rd)\<rparr>
      in (fold (\<lambda>cid v. dput cid (hex_of cid) v) (dkeys (rd_discovered rd)) venues, rd))"

definition seed_for :: "chain_view option \<Rightarrow> nat \<Rightarrow> bytes option" where
  "seed_for view height = (case view of None \<Rightarrow> None
   | Some v \<Rightarrow> (let sh = int (seed_height height) in
       if \<not> (cv_first v \<le> sh \<and> sh \<le> tip_height v) then None
       else (case id_at sh v of Inl e \<Rightarrow> None | Inr i \<Rightarrow> Some i)))"

section \<open>Step 1: headers\<close>

fun consecutive :: "header_row list \<Rightarrow> bool" where
  "consecutive (a # b # rows) = (hr_height b = hr_height a + 1 \<and> consecutive (b # rows))"
| "consecutive rows = True"

function header_range :: "network \<Rightarrow> entry \<Rightarrow> string \<Rightarrow> int \<Rightarrow> int \<Rightarrow> header_row list \<Rightarrow> header_row list" where
  "header_range net src chain cur tip rows =
     (if cur > tip then rows
      else (let ct = min HEADER_PAGE (tip - cur + 1); page = nt_headers net src chain cur ct in
        if page = [] \<or> hr_height (hd page) \<noteq> cur then []
        else if \<not> consecutive page then []
        else (let page = filter (\<lambda>r. hr_height r \<le> tip) page in
          if page = [] then rows
          else (let rows = rows @ page; progressed = hr_height (last page) + 1 in
            if progressed \<le> cur then []
            else if int (length page) < ct then rows
            else header_range net src chain progressed tip rows))))"
  by pat_completeness auto
termination by (relation "measure (\<lambda>(n, s, c, cur, tip, r). nat (tip + 1 - cur))") (auto simp: Let_def)

declare header_range.simps [simp del]

definition POW_SAMPLE :: rat where "POW_SAMPLE = fl (1 / 20)"
definition POW_RECENT :: nat where "POW_RECENT = 720"

definition full_view :: "reader_env \<Rightarrow> checkpoint \<Rightarrow> int \<Rightarrow> entry \<Rightarrow> chain_view option result" where
  "full_view env cp tip src =
     (let rows = header_range (re_net env) src (c_anchor_chain (re_cfg env)) (max 0 (cp_height cp - HEADER_LOOKBACK)) tip [] in
      if rows = [] then Inr None
      else bindR (verify_headers rows cp (re_pow env) (re_now env) (re_draws env src) POW_SAMPLE POW_RECENT None) (\<lambda>v. Inr (Some v)))"

definition source_view :: "reader_env \<Rightarrow> checkpoint \<Rightarrow> chain_view option \<Rightarrow> entry \<Rightarrow> chain_view option result" where
  "source_view env cp existing src =
     (case nt_tip (re_net env) src (c_anchor_chain (re_cfg env)) of
        None \<Rightarrow> Inr None
      | Some tip \<Rightarrow>
          if \<not> (cp_height cp \<le> tip \<and> tip \<le> cp_height cp + MAX_BLOCKS_PAST_CHECKPOINT) then Inr None
          else (case existing of
              None \<Rightarrow> full_view env cp tip src
            | Some v \<Rightarrow>
                if tip_height v < cp_height cp then full_view env cp tip src
                else bindR (py_index (cv_timestamps v) (- 1)) (\<lambda>last_ts.
                  let fresh = re_now env - last_ts \<le> STALE_TIP in
                  if tip \<le> tip_height v \<and> fresh then Inr (Some v)
                  else (let rows = (if tip > tip_height v
                              then header_range (re_net env) src (c_anchor_chain (re_cfg env)) (tip_height v + 1) tip [] else [])
                    in if rows = [] then full_view env cp tip src
                       else (case verify_headers rows cp (re_pow env) (re_now env) (re_draws env src) POW_SAMPLE POW_RECENT (Some v) of
                           Inr v' \<Rightarrow> Inr (Some v')
                         | Inl (HeaderError m) \<Rightarrow> full_view env cp tip src
                         | Inl e \<Rightarrow> Inl e)))))"

fun source_views :: "reader_env \<Rightarrow> checkpoint \<Rightarrow> chain_view option \<Rightarrow> entry list \<Rightarrow> chain_view list result" where
  "source_views env cp existing [] = Inr []"
| "source_views env cp existing (src # srcs) =
     bindR (catchR None (source_view env cp existing src)) (\<lambda>v.
     bindR (source_views env cp existing srcs) (\<lambda>vs. Inr (case v of None \<Rightarrow> vs | Some v \<Rightarrow> v # vs)))"

definition view_rows :: "chain_view \<Rightarrow> header_row list result" where
  "view_rows v = mapR (\<lambda>i. bindR (py_index (cv_blobs v) (int i)) (\<lambda>b. bindR (py_index (cv_difficulties v) (int i)) (\<lambda>d.
     Inr \<lparr> hr_height = cv_first v + int i, hr_blob = b, hr_difficulty = d \<rparr>))) [0..<length (cv_ids v)]"

definition step1_headers :: "reader_env \<Rightarrow> checkpoint \<Rightarrow> entry list \<Rightarrow> chain_view option rstep" where
  "step1_headers env cp sources =
     bindS (getS (\<lambda>rd. anchor_view (rd_anchor rd))) (\<lambda>existing.
     bindS (liftS (source_views env cp existing sources)) (\<lambda>views.
     case best_view views of
       None \<Rightarrow> retS None
     | Some view \<Rightarrow>
         bindS (liftS (view_rows view)) (\<lambda>rows.
         bindS (modifyS (\<lambda>rd. rd\<lparr>rd_anchor := (put_headers rows (rd_anchor rd))\<lparr>as_view := Some (stored_of view)\<rparr>\<rparr>)) (\<lambda>_.
           retS (Some view)))))"


section \<open>Step 2: the coverage window\<close>

text \<open>A fetched block counts when its hashing blob is the one the view has at the height.\<close>

definition block_matches :: "chain_view \<Rightarrow> int \<Rightarrow> bytes \<Rightarrow> bool" where
  "block_matches view height blob \<longleftrightarrow>
     bindR (hashing_blob blob) (\<lambda>h. bindR (py_index (cv_blobs view) (height - cv_first view)) (\<lambda>b. Inr (h = b))) = Inr True"

fun fetch_window_block :: "network \<Rightarrow> string \<Rightarrow> chain_view \<Rightarrow> int \<Rightarrow> entry list \<Rightarrow> int \<Rightarrow> bytes option \<times> int" where
  "fetch_window_block net chain view height [] budget = (None, budget)"
| "fetch_window_block net chain view height (src # srcs) budget =
     (if budget \<le> 0 then (None, budget)
      else (case nt_block net src chain height of
          None \<Rightarrow> fetch_window_block net chain view height srcs (budget - 1)
        | Some candidate \<Rightarrow>
            if block_matches view height candidate then (Some candidate, budget - 1)
            else fetch_window_block net chain view height srcs (budget - 1)))"

definition block_tag :: "bytes \<Rightarrow> mm_tag option" where
  "block_tag blob = (case parse_block_blob blob of Inl e \<Rightarrow> None | Inr b \<Rightarrow> parse_tx_extra_mm_tag (bh_tx_extra b))"

text \<open>The tags by height, the blocks no source served and those held.\<close>

type_synonym window_result = "(int \<times> mm_tag) list \<times> int \<times> int"

definition window_block :: "reader_env \<Rightarrow> chain_view \<Rightarrow> entry list \<Rightarrow> int \<Rightarrow> int \<Rightarrow> anchor_store \<Rightarrow> bytes option \<times> int \<times> anchor_store" where
  "window_block env view sources height budget a =
     (case block_at height a of
        Some blob \<Rightarrow> (Some blob, budget, a)
      | None \<Rightarrow>
          (case fetch_window_block (re_net env) (c_anchor_chain (re_cfg env)) view height sources budget of
             (None, budget) \<Rightarrow> (None, budget, a)
           | (Some blob, budget) \<Rightarrow> (Some blob, budget, put_block height blob a)))"

fun window_from_heights :: "reader_env \<Rightarrow> chain_view \<Rightarrow> entry list \<Rightarrow> int list \<Rightarrow> int \<Rightarrow> anchor_store \<Rightarrow> window_result \<times> anchor_store" where
  "window_from_heights env view sources [] budget a = (([], 0, 0), a)"
| "window_from_heights env view sources (height # hs) budget a =
     (case window_block env view sources height budget a of (blob, budget, a) \<Rightarrow>
      case window_from_heights env view sources hs budget a of ((tagged, missing, fetched), a) \<Rightarrow>
      case blob of
        None \<Rightarrow> ((tagged, missing + 1, fetched), a)
      | Some b \<Rightarrow> ((case block_tag b of None \<Rightarrow> tagged | Some tag \<Rightarrow> (height, tag) # tagged, missing, fetched + 1), a))"

definition step2_coverage_window :: "reader_env \<Rightarrow> entry list \<Rightarrow> chain_view \<Rightarrow> int \<Rightarrow> window_result rstep" where
  "step2_coverage_window env sources view start rd =
     (case window_from_heights env view sources [start..tip_height view] MAX_BLOCK_FETCHES (rd_anchor rd) of
        (r, a) \<Rightarrow> (Inr r, rd\<lparr>rd_anchor := a\<rparr>))"

section \<open>Step 3: the venue leaves\<close>

fun fetch_leaf :: "network \<Rightarrow> bytes \<Rightarrow> bytes \<Rightarrow> entry list \<Rightarrow> int \<Rightarrow> bytes option \<times> int" where
  "fetch_leaf net cid mroot [] budget = (None, budget)"
| "fetch_leaf net cid mroot (src # srcs) budget =
     (if budget \<le> 0 then (None, budget)
      else (case nt_share_by_root net src cid mroot of
          None \<Rightarrow> fetch_leaf net cid mroot srcs (budget - 1)
        | Some raw \<Rightarrow> (Some raw, budget - 1)))"

text \<open>The share of a tag's root in a venue, stored or fetched; every error of \<open>parse_share\<close> is a \<open>ValueError\<close>, which is
  caught.\<close>

definition leaf_share :: "reader_env \<Rightarrow> entry list \<Rightarrow> bytes \<Rightarrow> bytes \<Rightarrow> share_store \<Rightarrow> int \<Rightarrow> parsed_share option \<times> int" where
  "leaf_share env sources cid mroot s budget =
     (case share_by_root mroot s of
        Some share \<Rightarrow> (Some share, budget)
      | None \<Rightarrow>
          (case fetch_leaf (re_net env) cid mroot sources budget of
             (None, budget) \<Rightarrow> (None, budget)
           | (Some raw, budget) \<Rightarrow> ((case parse_share raw cid of Inl e \<Rightarrow> None | Inr sh \<Rightarrow> Some sh), budget)))"

definition leaf_ok :: "reader_env \<Rightarrow> chain_view \<Rightarrow> mm_tag \<Rightarrow> parsed_share \<Rightarrow> bool" where
  "leaf_ok env view tag share \<longleftrightarrow> (case seed_for (Some view) (ps_txin_gen_height share) of
     None \<Rightarrow> False
   | Some seed \<Rightarrow> ps_merkle_root share = mt_root tag \<and> ps_n_aux_chains share = mt_n_aux_chains tag \<and>
       ps_aux_nonce share = mt_nonce tag \<and> verify_share_pow share (re_pow env) seed)"

text \<open>The slots a block has used, whether it is resolved, the venues' tips and the budget.\<close>

record leaf_state =
  lf_slots :: "nat list"
  lf_resolved :: bool
  lf_tips :: "(bytes, bytes) dict"
  lf_budget :: int

definition leaf_venue :: "reader_env \<Rightarrow> entry list \<Rightarrow> chain_view \<Rightarrow> mm_tag \<Rightarrow> bytes \<Rightarrow> leaf_state \<Rightarrow> leaf_state rstep" where
  "leaf_venue env sources view tag cid lf =
     (let slot = aux_slot cid (mt_nonce tag) (mt_n_aux_chains tag) in
      if slot \<in> set (lf_slots lf) then retS lf
      else bindS (venue_share_store env cid) (\<lambda>s.
        case leaf_share env sources cid (mt_root tag) s (lf_budget lf) of
          (None, budget) \<Rightarrow> retS (lf\<lparr>lf_budget := budget\<rparr>)
        | (Some share, budget) \<Rightarrow>
            if \<not> leaf_ok env view tag share then retS (lf\<lparr>lf_budget := budget\<rparr>)
            else bindS (put_share_store cid (snd (share_add share s))) (\<lambda>_.
              retS \<lparr> lf_slots = slot # lf_slots lf, lf_resolved = True,
                lf_tips = (if dget (lf_tips lf) cid = None then dput cid (ps_id share) (lf_tips lf) else lf_tips lf),
                lf_budget = budget \<rparr>)))"

fun leaf_venues :: "reader_env \<Rightarrow> entry list \<Rightarrow> chain_view \<Rightarrow> mm_tag \<Rightarrow> bytes list \<Rightarrow> leaf_state \<Rightarrow> leaf_state rstep" where
  "leaf_venues env sources view tag [] lf = retS lf"
| "leaf_venues env sources view tag (cid # cids) lf =
     bindS (leaf_venue env sources view tag cid lf) (\<lambda>lf. leaf_venues env sources view tag cids lf)"

fun leaf_blocks :: "reader_env \<Rightarrow> entry list \<Rightarrow> chain_view \<Rightarrow> bytes list \<Rightarrow> mm_tag list \<Rightarrow> (bytes, bytes) dict \<Rightarrow> int \<Rightarrow> int \<Rightarrow>
    ((bytes, bytes) dict \<times> int) rstep" where
  "leaf_blocks env sources view venues [] tips budget resolved = retS (tips, resolved)"
| "leaf_blocks env sources view venues (tag # tags) tips budget resolved =
     bindS (leaf_venues env sources view tag venues
         \<lparr> lf_slots = [], lf_resolved = False, lf_tips = tips, lf_budget = budget \<rparr>) (\<lambda>lf.
       leaf_blocks env sources view venues tags (lf_tips lf) (lf_budget lf) (if lf_resolved lf then resolved + 1 else resolved))"

definition step3_venue_leaves :: "reader_env \<Rightarrow> entry list \<Rightarrow> (int \<times> mm_tag) list \<Rightarrow> (bytes, string) dict \<Rightarrow> chain_view \<Rightarrow>
    ((bytes, bytes) dict \<times> int) rstep" where
  "step3_venue_leaves env sources tagged venues view =
     leaf_blocks env sources view (dkeys venues) (map snd (rev (sort_key fst tagged))) [] MAX_LEAF_FETCHES 0"

section \<open>Step 4: the canonical fork\<close>

text \<open>One batch: shares that parse, carry their proof of work, begin at the parent asked for and go on from parent to parent,
  one height lower each.\<close>

fun take_batch :: "reader_env \<Rightarrow> chain_view \<Rightarrow> bytes \<Rightarrow> nat \<Rightarrow> bytes \<Rightarrow> nat option \<Rightarrow> nat \<Rightarrow> bytes list \<Rightarrow> share_store \<Rightarrow>
    nat \<times> share_store" where
  "take_batch env view cid have_len expected prev_height added [] s = (added, s)"
| "take_batch env view cid have_len expected prev_height added (raw # raws) s =
     (case parse_share raw cid of
        Inl e \<Rightarrow> (added, s)
      | Inr share \<Rightarrow>
          (case seed_for (Some view) (ps_txin_gen_height share) of
             None \<Rightarrow> (added, s)
           | Some seed \<Rightarrow>
               if \<not> verify_share_pow share (re_pow env) seed then (added, s)
               else if ps_id share \<noteq> expected \<or> (case prev_height of None \<Rightarrow> False | Some h \<Rightarrow> int (ps_height share) \<noteq> int h - 1)
               then (added, s)
               else (case share_add share s of (new, s) \<Rightarrow>
                 let added = (if new then added + 1 else added) in
                 if have_len + added \<ge> VENUE_WINDOW then (added, s)
                 else take_batch env view cid have_len (ps_parent share) (Some (ps_height share)) added raws s)))"

fun fetch_batches :: "reader_env \<Rightarrow> chain_view \<Rightarrow> bytes \<Rightarrow> nat \<Rightarrow> bytes \<Rightarrow> entry list \<Rightarrow> nat \<Rightarrow> share_store \<Rightarrow>
    nat \<times> nat \<times> share_store" where
  "fetch_batches env view cid have_len parent [] batches s = (0, batches, s)"
| "fetch_batches env view cid have_len parent (src # srcs) batches s =
     (let raws = nt_shares (re_net env) src cid parent SHARE_PAGE in
      if raws = [] then fetch_batches env view cid have_len parent srcs (batches + 1) s
      else (case take_batch env view cid have_len parent None 0 raws s of (added, s) \<Rightarrow>
        if added \<noteq> 0 then (added, batches + 1, s)
        else fetch_batches env view cid have_len parent srcs (batches + 1) s))"

lemma fetch_batches_count: "fetch_batches env view cid n parent srcs b s = (added, b', s') \<Longrightarrow> 0 < added \<Longrightarrow> b < b'"
proof (induction srcs arbitrary: b s)
  case (Cons src srcs)
  show ?case
  proof (cases "nt_shares (re_net env) src cid parent SHARE_PAGE = []")
    case True
    then show ?thesis using Cons.IH [of "b + 1" s] Cons.prems by simp
  next
    case False
    then show ?thesis using Cons.IH [of "b + 1"] Cons.prems by (fastforce split: prod.splits if_splits)
  qed
qed simp

function walk_fork :: "reader_env \<Rightarrow> chain_view \<Rightarrow> entry list \<Rightarrow> bytes \<Rightarrow> bytes \<Rightarrow> parsed_share list \<Rightarrow> nat \<Rightarrow> share_store \<Rightarrow>
    parsed_share list \<times> share_store" where
  "walk_fork env view sources cid tip chain batches s =
     (if chain = [] \<or> \<not> length chain < VENUE_WINDOW \<or> \<not> batches < MAX_SHARE_BATCHES then (chain, s)
      else if ps_parent (last chain) = replicate 32 0 \<or> share_get (ps_parent (last chain)) s \<noteq> None then (chain, s)
      else (case fetch_batches env view cid (length chain) (ps_parent (last chain)) sources batches s of
          (added, batches', s') \<Rightarrow>
            if added = 0 then (chain, s')
            else walk_fork env view sources cid tip (share_walk VENUE_WINDOW tip s') batches' s'))"
  by pat_completeness auto
termination
proof (relation "measure (\<lambda>(e, v, srcs, c, t, ch, b, s). MAX_SHARE_BATCHES - b)", goal_cases)
  case (2 env view sources cid tip chain batches s added y batches' s')
  have "fetch_batches env view cid (length chain) (ps_parent (last chain)) sources batches s = (added, batches', s')"
    using 2(3,4) by simp
  with 2(5) have "batches < batches'" using fetch_batches_count by blast
  with 2(1) show ?case by auto
qed simp

declare walk_fork.simps [simp del]

definition fork_of :: "reader_env \<Rightarrow> entry list \<Rightarrow> chain_view \<Rightarrow> bytes \<Rightarrow> bytes \<Rightarrow> parsed_share list rstep" where
  "fork_of env sources view cid tip =
     bindS (venue_share_store env cid) (\<lambda>s.
     case walk_fork env view sources cid tip (share_walk VENUE_WINDOW tip s) 0 s of
       (chain, s) \<Rightarrow> bindS (put_share_store cid s) (\<lambda>_. retS chain))"

fun step4_canonical_fork :: "reader_env \<Rightarrow> entry list \<Rightarrow> (bytes, bytes) dict \<Rightarrow> chain_view \<Rightarrow> (bytes, parsed_share list) dict rstep" where
  "step4_canonical_fork env sources [] view = retS []"
| "step4_canonical_fork env sources ((cid, tip) # tips) view =
     bindS (fork_of env sources view cid tip) (\<lambda>chain.
     bindS (step4_canonical_fork env sources tips view) (\<lambda>forks. retS ((cid, chain) # forks)))"


section \<open>Step 5: the blobs\<close>

fun fetch_first_blob :: "network \<Rightarrow> bytes \<Rightarrow> entry list \<Rightarrow> bytes option" where
  "fetch_first_blob net h [] = None"
| "fetch_first_blob net h (src # srcs) = (case nt_blob net src h of None \<Rightarrow> fetch_first_blob net h srcs | Some b \<Rightarrow> Some b)"

definition share_commitment :: "bytes \<Rightarrow> bytes \<Rightarrow> parsed_share \<Rightarrow> commitment" where
  "share_commitment h cid sh = \<lparr> co_hash = h, co_kind = ''share'', co_venue = hex_of cid, co_ref = hex_of (ps_id sh),
     co_publisher = ps_wallet sh, co_difficulty = int (ps_difficulty sh), co_timestamp = int (ps_timestamp sh),
     co_proof = [], co_path = 0 \<rparr>"

definition share_blob :: "reader_env \<Rightarrow> entry list \<Rightarrow> bytes \<Rightarrow> parsed_share \<Rightarrow> blob_db \<Rightarrow> blob_db result" where
  "share_blob env sources cid sh db =
     (case transpeer_aux sh CHAIN_ID of
        None \<Rightarrow> Inr db
      | Some h \<Rightarrow> bindR (db_get h db) (\<lambda>held.
          if held \<noteq> None then Inr db
          else (case fetch_first_blob (re_net env) h sources of
              None \<Rightarrow> Inr db
            | Some blob \<Rightarrow> (case decode_blob blob of
                Inl e \<Rightarrow> Inr db
              | Inr d \<Rightarrow> bindR (db_add blob (share_commitment h cid sh) (re_now env) db) (\<lambda>(ok, db). Inr db)))))"

fun share_blobs :: "reader_env \<Rightarrow> entry list \<Rightarrow> (bytes \<times> parsed_share) list \<Rightarrow> unit rstep" where
  "share_blobs env sources [] = retS ()"
| "share_blobs env sources ((cid, sh) # shs) =
     bindS (getS rd_blobdb) (\<lambda>db.
     bindS (liftS (share_blob env sources cid sh db)) (\<lambda>db.
     bindS (modifyS (\<lambda>rd. rd\<lparr>rd_blobdb := db\<rparr>)) (\<lambda>_. share_blobs env sources shs)))"

definition step5_blobs :: "reader_env \<Rightarrow> entry list \<Rightarrow> (bytes, parsed_share list) dict \<Rightarrow> unit rstep" where
  "step5_blobs env sources canonical =
     share_blobs env sources (concat (map (\<lambda>(cid, chain). map (Pair cid) chain) canonical))"

section \<open>Steps 6 and 7: weights and seeding\<close>

definition weight_share :: "bytes \<Rightarrow> parsed_share \<Rightarrow> share" where
  "weight_share cid sh = \<lparr> sh_id = ps_id sh, sh_venue = hex_of cid, sh_height = int (ps_height sh), sh_parent = ps_parent sh,
     sh_difficulty = int (ps_difficulty sh), sh_timestamp = int (ps_timestamp sh), sh_wallet = ps_wallet sh,
     sh_aux = map (\<lambda>(c, h, diff). (c, h)) (ps_aux sh) \<rparr>"

definition venue_blob_weights :: "(bytes, parsed_share list) dict \<Rightarrow> (bytes, int) dict" where
  "venue_blob_weights canonical =
     fold (\<lambda>(cid, chain) bw. fold (\<lambda>(h, w) bw. bump h w bw) (blob_weights (map (weight_share cid) chain) CHAIN_ID) bw) canonical []"

definition step6_weights :: "(bytes, parsed_share list) dict \<Rightarrow> (entry, int) dict rstep" where
  "step6_weights canonical rd = (transpeer_weights (venue_blob_weights canonical) (rd_blobdb rd), rd)"

definition entry_order :: "entry \<times> int \<Rightarrow> int \<times> nat list \<times> int" where
  "entry_order ew = (- snd ew, map of_char (fst (fst ew)), snd (fst ew))"

definition top_published :: "(entry, int) dict \<Rightarrow> entry list" where
  "top_published weights = map fst (take TOP_N_PUBLISH (sort_key entry_order weights))"

fun publish_entries :: "reader_env \<Rightarrow> nat \<Rightarrow> entry list \<Rightarrow> unit rstep" where
  "publish_entries env i [] = retS ()"
| "publish_entries env i ((addr, port) # es) =
     bindS (\<lambda>rd. if get_transpeer addr port (rd_store rd) = None
         then (case add_transpeer (re_cfg env) (re_now env) ((new_tentry addr port)\<lparr>t_last_seen := re_now env\<rparr>) False (re_rand env i) (rd_store rd) of
             (r, st) \<Rightarrow> (bindR r (\<lambda>_. Inr ()), rd\<lparr>rd_store := st\<rparr>))
         else (Inr (), rd)) (\<lambda>_.
     bindS (modifyS (\<lambda>rd. rd\<lparr>rd_store := set_published addr port True (rd_store rd)\<rparr>)) (\<lambda>_.
       publish_entries env (i + 1) es))"

definition unpublish_rest :: "entry list \<Rightarrow> store \<Rightarrow> store" where
  "unpublish_rest published st =
     fold (\<lambda>t st. if t_published t \<and> (t_addr t, t_port t) \<notin> set published
       then set_published (t_addr t) (t_port t) False st else st) (dvals (s_transpeers st)) st"

definition step7_seeding :: "reader_env \<Rightarrow> (entry, int) dict \<Rightarrow> entry list rstep" where
  "step7_seeding env weights =
     (let published = top_published weights in
      bindS (publish_entries env 0 published) (\<lambda>_.
      bindS (modifyS (\<lambda>rd. rd\<lparr>rd_store := unpublish_rest published (rd_store rd)\<rparr>)) (\<lambda>_. retS published)))"

section \<open>The sync\<close>

definition prune_stores :: "reader_env \<Rightarrow> checkpoint \<Rightarrow> (bytes, parsed_share list) dict \<Rightarrow> int \<Rightarrow> unit rstep" where
  "prune_stores env cp canonical start =
     bindS (modifyS (\<lambda>rd. rd\<lparr>rd_anchor := prune_headers (max 0 (cp_height cp - HEADER_LOOKBACK))
         (prune_blocks (max 0 (start - 1)) (rd_anchor rd))\<rparr>)) (\<lambda>_.
       fold (\<lambda>(cid, chain) m. bindS m (\<lambda>_. if chain = [] then retS ()
           else bindS (venue_share_store env cid) (\<lambda>s.
             put_share_store cid (share_prune (int (ps_height (hd chain))) (int VENUE_WINDOW) s)))) canonical (retS ()))"

text \<open>What the steps give; nothing when no source offers a view.\<close>

record sync_result =
  sr_view :: chain_view
  sr_start :: int
  sr_tagged :: "(int \<times> mm_tag) list"
  sr_missing :: int
  sr_fetched :: int
  sr_tips :: "(bytes, bytes) dict"
  sr_resolved :: int
  sr_canonical :: "(bytes, parsed_share list) dict"
  sr_weights :: "(entry, int) dict"
  sr_published :: "entry list"

definition sync_steps :: "reader_env \<Rightarrow> checkpoint \<Rightarrow> entry list \<Rightarrow> sync_result option rstep" where
  "sync_steps env cp sources =
     bindS (step1_headers env cp sources) (\<lambda>view. case view of
       None \<Rightarrow> retS None
     | Some view \<Rightarrow>
         (let start = coverage_from view (c_anchor_window_days (re_cfg env)) in
          bindS (step2_coverage_window env sources view start) (\<lambda>(tagged, missing, fetched).
          bindS (\<lambda>rd. case candidate_venues env sources rd of (v, rd) \<Rightarrow> (Inr v, rd)) (\<lambda>venues.
          bindS (step3_venue_leaves env sources tagged venues view) (\<lambda>(tips, resolved).
          bindS (step4_canonical_fork env sources tips view) (\<lambda>canonical.
          bindS (step5_blobs env sources canonical) (\<lambda>_.
          bindS (step6_weights canonical) (\<lambda>weights.
          bindS (step7_seeding env weights) (\<lambda>published.
            retS (Some \<lparr> sr_view = view, sr_start = start, sr_tagged = tagged, sr_missing = missing, sr_fetched = fetched,
              sr_tips = tips, sr_resolved = resolved, sr_canonical = canonical, sr_weights = weights,
              sr_published = published \<rparr>))))))))))"

definition state_after :: "int \<Rightarrow> sync_result \<Rightarrow> reader_state" where
  "state_after now r =
     (let window_blocks = tip_height (sr_view r) - sr_start r + 1; tagged_total = int (length (sr_tagged r)) + sr_missing r in
      \<lparr> st_tagged = tagged_total, st_resolved = sr_resolved r, st_coverage = coverage tagged_total (sr_resolved r),
        st_bootstrapped = (bootstrapped tagged_total (sr_resolved r) \<and>
          fmul MIN_WINDOW_FETCHED (of_int window_blocks) \<le> of_int (sr_fetched r)),
        st_tip_height = Some (tip_height (sr_view r)), st_window_blocks = window_blocks, st_fetched_blocks = sr_fetched r,
        st_venues = sr_tips r, st_weights = sr_weights r, st_published = sr_published r, st_last_sync = now \<rparr>)"

definition sync :: "reader_env \<Rightarrow> entry list \<Rightarrow> reader_state rstep" where
  "sync env sources =
     (let sources = take MAX_SOURCES sources in
      bindS (liftS (parse_checkpoint (c_anchor_checkpoint (re_cfg env)))) (\<lambda>cp rd.
        case sync_steps env cp sources rd of
          (Inl e, rd) \<Rightarrow> if load_caught e then (Inr (rd_state rd), rd) else (Inl e, rd)
        | (Inr None, rd) \<Rightarrow>
            (let rd = rd\<lparr>rd_state := (rd_state rd)\<lparr>st_bootstrapped := False\<rparr>\<rparr> in (Inr (rd_state rd), rd))
        | (Inr (Some r), rd) \<Rightarrow>
            bindS (prune_stores env cp (sr_canonical r) (sr_start r)) (\<lambda>_ rd.
              (Inr (state_after (re_now env) r), rd\<lparr>rd_state := state_after (re_now env) r\<rparr>)) rd))"

section \<open>Gossip\<close>

definition verify_share_commitment :: "reader_env \<Rightarrow> entry \<Rightarrow> commitment \<Rightarrow> anchor_reader \<Rightarrow> bool result" where
  "verify_share_commitment env src c rd =
     (case (fromhex (co_venue c), fromhex (co_ref c)) of
        (Inr venue, Inr share_id) \<Rightarrow>
          (case nt_share (re_net env) src venue share_id of
             None \<Rightarrow> Inr False
           | Some raw \<Rightarrow>
               (case parse_share raw venue of
                  Inl e \<Rightarrow> if is_value_error e then Inr False else Inl e
                | Inr sh \<Rightarrow> Inr (case seed_for (anchor_view (rd_anchor rd)) (ps_txin_gen_height sh) of
                    None \<Rightarrow> False
                  | Some seed \<Rightarrow> verify_share_pow sh (re_pow env) seed \<and> transpeer_aux sh CHAIN_ID = Some (co_hash c))))
      | _ \<Rightarrow> Inr False)"

definition matches :: "bytes \<Rightarrow> bytes \<Rightarrow> bool" where
  "matches blob expected \<longleftrightarrow> hashing_blob blob = Inr expected"

text \<open>Only the low bits of the path are read, one per step of the proof.\<close>

definition verify_block_commitment :: "reader_env \<Rightarrow> entry \<Rightarrow> commitment \<Rightarrow> bool rstep" where
  "verify_block_commitment env src c rd =
     (case split1 CHR '':'' (co_ref c) of
        [height_s, hex_id] \<Rightarrow>
          (case (int_of_str height_s, anchor_view (rd_anchor rd)) of
             (Inr height, Some view) \<Rightarrow>
               if \<not> (cv_first view \<le> height \<and> height \<le> tip_height view) then (Inr False, rd)
               else (case py_index (cv_blobs view) (height - cv_first view) of
                   Inl e \<Rightarrow> (Inl e, rd)
                 | Inr expected \<Rightarrow>
                     (let held = (case block_at height (rd_anchor rd) of None \<Rightarrow> None
                            | Some blob \<Rightarrow> if matches blob expected then Some blob else None);
                          got = (case held of Some blob \<Rightarrow> Some blob
                            | None \<Rightarrow> (case nt_block (re_net env) src (c_anchor_chain (re_cfg env)) height of
                                None \<Rightarrow> None | Some blob \<Rightarrow> if matches blob expected then Some blob else None))
                      in case got of
                           None \<Rightarrow> (Inr False, rd)
                         | Some blob \<Rightarrow>
                             (Inr (case block_tag blob of
                                 None \<Rightarrow> False
                               | Some tag \<Rightarrow> verify_merkle_proof (co_hash c) (co_proof c)
                                   (nat (co_path c mod 2 ^ length (co_proof c))) (mt_root tag)),
                              if held = None then rd\<lparr>rd_anchor := put_block height blob (rd_anchor rd)\<rparr> else rd)))
           | _ \<Rightarrow> (Inr False, rd))
      | _ \<Rightarrow> (Inr False, rd))"

definition verify_commitment :: "reader_env \<Rightarrow> entry \<Rightarrow> commitment \<Rightarrow> bool rstep" where
  "verify_commitment env src c rd =
     (if co_kind c = ''share'' then (verify_share_commitment env src c rd, rd)
      else if co_kind c = ''block'' then verify_block_commitment env src c rd
      else (Inr False, rd))"

fun verified_commitments :: "reader_env \<Rightarrow> entry \<Rightarrow> bytes \<Rightarrow> json list \<Rightarrow> commitment list rstep" where
  "verified_commitments env src h [] = retS []"
| "verified_commitments env src h (v # vs) =
     (case commitment_from_dict v of
        Inl e \<Rightarrow> if load_caught e then verified_commitments env src h vs else liftS (Inl e)
      | Inr c \<Rightarrow>
          if co_hash c \<noteq> h \<or> co_kind c = ''template'' then verified_commitments env src h vs
          else bindS (verify_commitment env src c) (\<lambda>ok.
               bindS (verified_commitments env src h vs) (\<lambda>cs. retS (if ok then c # cs else cs))))"

fun add_commitments :: "bytes \<Rightarrow> int \<Rightarrow> commitment list \<Rightarrow> bool rstep" where
  "add_commitments blob now [] = retS False"
| "add_commitments blob now (c # cs) =
     bindS (getS rd_blobdb) (\<lambda>db.
     bindS (liftS (db_add blob c now db)) (\<lambda>(ok, db).
     bindS (modifyS (\<lambda>rd. rd\<lparr>rd_blobdb := db\<rparr>)) (\<lambda>_.
     bindS (add_commitments blob now cs) (\<lambda>more_added. retS (ok \<or> more_added)))))"

text \<open>Whether the row was processed, and how many blobs it added.\<close>

definition gossip_row :: "reader_env \<Rightarrow> entry \<Rightarrow> json \<Rightarrow> (bool \<times> nat) rstep" where
  "gossip_row env src row =
     (case bindR (json_get ''hash'' row) json_hex of
        Inl e \<Rightarrow> if load_caught e then retS (False, 0) else liftS (Inl e)
      | Inr h \<Rightarrow>
          bindS (getS rd_blobdb) (\<lambda>db. bindS (liftS (db_get h db)) (\<lambda>held.
          if held \<noteq> None then retS (True, 0)
          else (case nt_blob (re_net env) src h of
              None \<Rightarrow> retS (False, 0)
            | Some blob \<Rightarrow>
                bindS (liftS (bindR (json_get_or ''commitments'' (JList []) row) py_iter)) (\<lambda>vs.
                bindS (verified_commitments env src h vs) (\<lambda>verified.
                if verified = [] then retS (True, 0)
                else bindS (add_commitments blob (re_now env) verified) (\<lambda>added.
                  retS (True, if added then 1 else 0))))))))"

fun gossip_rows :: "reader_env \<Rightarrow> entry \<Rightarrow> json list \<Rightarrow> bool \<times> nat \<Rightarrow> (bool \<times> nat) rstep" where
  "gossip_rows env src [] acc rd = (Inr acc, rd)"
| "gossip_rows env src (row # rows) (ok, found) rd =
     (case gossip_row env src row rd of
        (Inl e, rd) \<Rightarrow> if is_value_error e then gossip_rows env src rows (False, found) rd else (Inl e, rd)
      | (Inr (processed, added), rd) \<Rightarrow> gossip_rows env src rows (ok \<and> processed, found + added) rd)"

definition next_cursor :: "json list \<Rightarrow> int option \<Rightarrow> bytes option \<Rightarrow> (int \<times> bytes) option" where
  "next_cursor rows next_since next_after =
     (case (next_since, next_after) of
        (Some s, Some a) \<Rightarrow> Some (s, a)
      | _ \<Rightarrow> (case bindR (bindR (json_get ''first_seen'' (last rows)) json_int) (\<lambda>s.
                  bindR (bindR (json_get ''hash'' (last rows)) json_hex) (\<lambda>h. Inr (s, h))) of
                Inl e \<Rightarrow> None | Inr c \<Rightarrow> Some c))"

definition gossip :: "reader_env \<Rightarrow> entry \<Rightarrow> nat rstep" where
  "gossip env src rd =
     (let (since, after) = (case dget (rd_cursors rd) src of None \<Rightarrow> (0, []) | Some c \<Rightarrow> c);
          (rows, next_since, next_after) = nt_index (re_net env) src since after
      in case gossip_rows env src rows (True, 0) rd of
           (Inl e, rd) \<Rightarrow> (Inl e, rd)
         | (Inr (ok, found), rd) \<Rightarrow>
             (Inr found, if ok \<and> rows \<noteq> [] then
                (case next_cursor rows next_since next_after of
                   None \<Rightarrow> rd | Some c \<Rightarrow> rd\<lparr>rd_cursors := dput src c (rd_cursors rd)\<rparr>) else rd))"

definition gossip_entry :: "reader_env \<Rightarrow> tentry \<Rightarrow> nat rstep" where
  "gossip_entry env t = gossip env (t_addr t, t_port t)"

section \<open>Verified hashes\<close>

definition verified_hashes :: "int \<Rightarrow> int \<Rightarrow> anchor_reader \<Rightarrow> bytes list" where
  "verified_hashes now min_age rd =
     map fst (filter (\<lambda>(h, fs, cs). cs \<noteq> [] \<and> min_age \<le> now - fs) (index_since 0 (2 ^ 30) [] (rd_blobdb rd)))"

end
