(* ===== verification/ReaderTheorems.thy ===== *)
theory ReaderTheorems
  imports Reader StoreInvariants
begin

text \<open>
  What the reader promises: gossip takes over a commitment only when it is backed by a share with proof of work or by a block
  of the verified view; after a sync the stored transpeers flagged as published are those of the heaviest list.
\<close>

section \<open>Gossip\<close>

text \<open>A step of the verification writes fetched blocks, nothing else.\<close>

definition only_blocks :: "anchor_reader \<Rightarrow> anchor_reader \<Rightarrow> bool" where
  "only_blocks rd rd' \<longleftrightarrow> (\<exists>bs. rd' = rd\<lparr>rd_anchor := (rd_anchor rd)\<lparr>as_blocks := bs\<rparr>\<rparr>)"

lemma only_blocks_refl [simp]: "only_blocks rd rd"
  unfolding only_blocks_def by (rule exI [of _ "as_blocks (rd_anchor rd)"]) simp

lemma only_blocks_trans: "only_blocks a b \<Longrightarrow> only_blocks b c \<Longrightarrow> only_blocks a c"
  unfolding only_blocks_def by auto

lemma only_blocks_frame:
  assumes "only_blocks rd rd'"
  shows "anchor_view (rd_anchor rd') = anchor_view (rd_anchor rd)" "rd_blobdb rd' = rd_blobdb rd" "rd_store rd' = rd_store rd"
  using assms by (auto simp: only_blocks_def anchor_view_def)

definition share_backed :: "reader_env \<Rightarrow> entry \<Rightarrow> chain_view option \<Rightarrow> commitment \<Rightarrow> bool" where
  "share_backed env src view c \<longleftrightarrow> (\<exists>venue sid raw sh seed. fromhex (co_venue c) = Inr venue \<and> fromhex (co_ref c) = Inr sid \<and>
     nt_share (re_net env) src venue sid = Some raw \<and> parse_share raw venue = Inr sh \<and>
     seed_for view (ps_txin_gen_height sh) = Some seed \<and> verify_share_pow sh (re_pow env) seed \<and>
     transpeer_aux sh CHAIN_ID = Some (co_hash c))"

definition block_backed :: "chain_view option \<Rightarrow> commitment \<Rightarrow> bool" where
  "block_backed view c \<longleftrightarrow> (\<exists>hs hid height v expected blob tag. split1 CHR '':'' (co_ref c) = [hs, hid] \<and>
     int_of_str hs = Inr height \<and> view = Some v \<and> cv_first v \<le> height \<and> height \<le> tip_height v \<and>
     py_index (cv_blobs v) (height - cv_first v) = Inr expected \<and> hashing_blob blob = Inr expected \<and>
     block_tag blob = Some tag \<and>
     verify_merkle_proof (co_hash c) (co_proof c) (nat (co_path c mod 2 ^ length (co_proof c))) (mt_root tag))"

definition backed :: "reader_env \<Rightarrow> entry \<Rightarrow> chain_view option \<Rightarrow> commitment \<Rightarrow> bool" where
  "backed env src view c \<longleftrightarrow>
     co_kind c = ''share'' \<and> share_backed env src view c \<or> co_kind c = ''block'' \<and> block_backed view c"

lemma verify_share_backed:
  assumes "verify_share_commitment env src c rd = Inr True"
  shows "share_backed env src (anchor_view (rd_anchor rd)) c"
proof -
  from assms obtain venue sid raw where a: "fromhex (co_venue c) = Inr venue" "fromhex (co_ref c) = Inr sid"
    "nt_share (re_net env) src venue sid = Some raw"
    by (auto simp: verify_share_commitment_def split: sum.splits option.splits)
  with assms obtain sh where p: "parse_share raw venue = Inr sh"
    by (cases "parse_share raw venue") (auto simp: verify_share_commitment_def split: if_splits)
  with assms a obtain seed where "seed_for (anchor_view (rd_anchor rd)) (ps_txin_gen_height sh) = Some seed"
    by (cases "seed_for (anchor_view (rd_anchor rd)) (ps_txin_gen_height sh)") (auto simp: verify_share_commitment_def)
  with assms a p show ?thesis by (auto simp: share_backed_def verify_share_commitment_def)
qed

lemma verify_block_backed:
  assumes "verify_block_commitment env src c rd = (r, rd')"
  shows "only_blocks rd rd' \<and> (r = Inr True \<longrightarrow> block_backed (anchor_view (rd_anchor rd)) c)"
proof (cases "\<exists>hs hid height v expected. split1 CHR '':'' (co_ref c) = [hs, hid] \<and> int_of_str hs = Inr height \<and>
    anchor_view (rd_anchor rd) = Some v \<and> cv_first v \<le> height \<and> height \<le> tip_height v \<and>
    py_index (cv_blobs v) (height - cv_first v) = Inr expected")
  case True
  then obtain hs hid height v expected where h: "split1 CHR '':'' (co_ref c) = [hs, hid]" "int_of_str hs = Inr height"
    "anchor_view (rd_anchor rd) = Some v" "cv_first v \<le> height" "height \<le> tip_height v"
    "py_index (cv_blobs v) (height - cv_first v) = Inr expected" by blast
  have pb: "only_blocks rd (rd\<lparr>rd_anchor := put_block height b (rd_anchor rd)\<rparr>)" for b
    by (auto simp: only_blocks_def put_block_def)
  have bb: "hashing_blob b = Inr expected \<Longrightarrow> block_tag b = Some tag \<Longrightarrow>
      verify_merkle_proof (co_hash c) (co_proof c) (nat (co_path c mod 2 ^ length (co_proof c))) (mt_root tag) \<Longrightarrow>
      block_backed (anchor_view (rd_anchor rd)) c" for b tag
    unfolding block_backed_def using h by blast
  have "r = Inr False \<and> rd' = rd \<or> (\<exists>b. hashing_blob b = Inr expected \<and> only_blocks rd rd' \<and>
      r = Inr (case block_tag b of None \<Rightarrow> False | Some tag \<Rightarrow> verify_merkle_proof (co_hash c) (co_proof c)
        (nat (co_path c mod 2 ^ length (co_proof c))) (mt_root tag)))"
    using assms h pb unfolding verify_block_commitment_def Let_def matches_def
    by (cases "block_at height (rd_anchor rd)"; cases "nt_block (re_net env) src (c_anchor_chain (re_cfg env)) height")
      (auto split: if_splits)
  then show ?thesis using bb by (auto split: option.splits)
next
  case False
  then have "rd' = rd \<and> r \<noteq> Inr True" using assms
    by (auto simp: verify_block_commitment_def split: list.splits sum.splits option.splits if_splits)
  then show ?thesis by auto
qed

lemma verify_commitment_backed:
  assumes "verify_commitment env src c rd = (r, rd')"
  shows "only_blocks rd rd' \<and> (r = Inr True \<longrightarrow> backed env src (anchor_view (rd_anchor rd)) c)"
  using assms verify_share_backed [of env src c rd] verify_block_backed [of env src c rd r rd']
  by (auto simp: verify_commitment_def backed_def split: if_splits)

lemma verified_backed:
  "verified_commitments env src h vs rd = (r, rd') \<Longrightarrow> only_blocks rd rd' \<and>
     (\<forall>cs. r = Inr cs \<longrightarrow> (\<forall>c \<in> set cs. co_hash c = h \<and> backed env src (anchor_view (rd_anchor rd)) c))"
proof (induction vs arbitrary: rd r rd')
  case Nil
  then show ?case by (auto simp: retS_def)
next
  case (Cons v vs)
  consider (err) e where "commitment_from_dict v = Inl e" | (skip) c where "commitment_from_dict v = Inr c"
      "co_hash c \<noteq> h \<or> co_kind c = ''template''"
    | (go) c where "commitment_from_dict v = Inr c" "\<not> (co_hash c \<noteq> h \<or> co_kind c = ''template'')"
    by (cases "commitment_from_dict v") auto
  then show ?case
  proof cases
    case err
    then show ?thesis using Cons by (auto simp: liftS_def split: if_splits)
  next
    case skip
    then show ?thesis using Cons.IH [of rd r rd'] Cons.prems by simp
  next
    case go
    obtain r1 rd1 where v: "verify_commitment env src c rd = (r1, rd1)" by (cases "verify_commitment env src c rd")
    note vb = verify_commitment_backed [OF v]
    show ?thesis
    proof (cases r1)
      case (Inl e)
      then show ?thesis using Cons.prems go v vb by (auto simp: bindS_def)
    next
      case (Inr ok)
      obtain r2 rd2 where w: "verified_commitments env src h vs rd1 = (r2, rd2)"
        by (cases "verified_commitments env src h vs rd1")
      note ih = Cons.IH [OF w]
      have f: "only_blocks rd rd2" "anchor_view (rd_anchor rd1) = anchor_view (rd_anchor rd)"
        using vb ih only_blocks_trans only_blocks_frame(1) by blast+
      show ?thesis using Cons.prems go v vb w ih f Inr
        by (cases r2; cases ok) (auto simp: bindS_def retS_def)
    qed
  qed
qed

lemma db_add_only:
  "db_add blob c now db = Inr (ok, db') \<Longrightarrow>
     set (db_commitments h db') \<subseteq> set (db_commitments h db) \<union> (if h = co_hash c then {c} else {})"
  using db_add_appends [of blob c now db ok db' h] by auto

lemma add_commitments_only:
  "add_commitments blob now cs rd = (r, rd') \<Longrightarrow> set (db_commitments h (rd_blobdb rd')) \<subseteq>
     set (db_commitments h (rd_blobdb rd)) \<union> {c \<in> set cs. co_hash c = h} \<and> rd_anchor rd' = rd_anchor rd"
proof (induction cs arbitrary: rd r rd')
  case Nil
  then show ?case by (simp add: retS_def)
next
  case (Cons c cs)
  show ?case
  proof (cases "db_add blob c now (rd_blobdb rd)")
    case (Inl e)
    then show ?thesis using Cons.prems by (auto simp: bindS_def getS_def liftS_def)
  next
    case (Inr okdb)
    obtain ok db where o: "okdb = (ok, db)" by (cases okdb)
    let ?rd = "rd\<lparr>rd_blobdb := db\<rparr>"
    obtain r2 rd2 where w: "add_commitments blob now cs ?rd = (r2, rd2)" by (cases "add_commitments blob now cs ?rd")
    have "rd' = rd2" using Cons.prems Inr o w by (cases r2) (auto simp: bindS_def getS_def liftS_def modifyS_def retS_def)
    then show ?thesis using Cons.IH [OF w] db_add_only [of blob c now "rd_blobdb rd" ok db h] Inr o
      by (auto split: if_splits)
  qed
qed

text \<open>What a step may do to the blob store under a view.\<close>

definition adds_backed :: "reader_env \<Rightarrow> entry \<Rightarrow> anchor_reader \<Rightarrow> anchor_reader \<Rightarrow> bool" where
  "adds_backed env src rd rd' \<longleftrightarrow> anchor_view (rd_anchor rd') = anchor_view (rd_anchor rd) \<and>
     (\<forall>h. set (db_commitments h (rd_blobdb rd')) \<subseteq> set (db_commitments h (rd_blobdb rd)) \<union>
        {c. co_hash c = h \<and> backed env src (anchor_view (rd_anchor rd)) c})"

lemma adds_backed_refl [simp]: "adds_backed env src rd rd"
  by (auto simp: adds_backed_def)

lemma adds_backed_trans: "adds_backed env src a b \<Longrightarrow> adds_backed env src b c \<Longrightarrow> adds_backed env src a c"
  unfolding adds_backed_def by fastforce

lemma adds_backed_blocks: "only_blocks rd rd' \<Longrightarrow> adds_backed env src rd rd'"
  using only_blocks_frame by (auto simp: adds_backed_def)

lemma add_commitments_backed:
  assumes "verified_commitments env src h vs rd = (Inr cs, rd1)" "add_commitments blob now cs rd1 = (r, rd2)"
  shows "adds_backed env src rd rd2"
proof -
  note v = verified_backed [OF assms(1)]
  then have f: "anchor_view (rd_anchor rd1) = anchor_view (rd_anchor rd)" "rd_blobdb rd1 = rd_blobdb rd"
    using only_blocks_frame by blast+
  have "set (db_commitments h' (rd_blobdb rd2)) \<subseteq> set (db_commitments h' (rd_blobdb rd1)) \<union> {c \<in> set cs. co_hash c = h'}"
    "rd_anchor rd2 = rd_anchor rd1" for h'
    using add_commitments_only [OF assms(2), of h'] by auto
  with f v show ?thesis unfolding adds_backed_def by fastforce
qed

lemma gossip_row_backed: "gossip_row env src row rd = (r, rd') \<Longrightarrow> adds_backed env src rd rd'"
proof -
  assume g: "gossip_row env src row rd = (r, rd')"
  show ?thesis
  proof (cases "rd' = rd")
    case False
    with g obtain h blob vs where h: "bindR (json_get ''hash'' row) json_hex = Inr h"
      and d: "db_get h (rd_blobdb rd) = Inr None" and b: "nt_blob (re_net env) src h = Some blob"
      and vs: "bindR (json_get_or ''commitments'' (JList []) row) py_iter = Inr vs"
      by (auto simp: gossip_row_def bindS_def getS_def liftS_def retS_def split: sum.splits if_splits option.splits)
    obtain r1 rd1 where v: "verified_commitments env src h vs rd = (r1, rd1)" by (cases "verified_commitments env src h vs rd")
    note vb = adds_backed_blocks [OF conjunct1 [OF verified_backed [OF v]]]
    show ?thesis
    proof (cases "\<exists>cs. r1 = Inr cs \<and> cs \<noteq> []")
      case True
      then obtain cs where cs: "r1 = Inr cs" "cs \<noteq> []" by blast
      obtain r2 rd2 where a: "add_commitments blob (re_now env) cs rd1 = (r2, rd2)"
        by (cases "add_commitments blob (re_now env) cs rd1")
      have "rd' = rd2" using g h d b vs v cs a
        by (cases r2) (auto simp: gossip_row_def bindS_def getS_def liftS_def retS_def)
      then show ?thesis using add_commitments_backed [OF v [unfolded cs(1)] a] by simp
    next
      case False
      then have "rd' = rd1" using g h d b vs v
        by (cases r1) (auto simp: gossip_row_def bindS_def getS_def liftS_def retS_def split: if_splits)
      then show ?thesis using vb by simp
    qed
  qed simp
qed

lemma gossip_rows_backed: "gossip_rows env src rows acc rd = (r, rd') \<Longrightarrow> adds_backed env src rd rd'"
proof (induction env src rows acc rd rule: gossip_rows.induct)
  case (2 env src row rows ok found rd)
  obtain r1 rd1 where g: "gossip_row env src row rd = (r1, rd1)" by (cases "gossip_row env src row rd")
  note gb = gossip_row_backed [OF g]
  show ?case
  proof (cases r1)
    case (Inl e)
    then show ?thesis using 2(1) [OF g [symmetric] Inl] 2(3) g gb by (auto split: if_splits intro: adds_backed_trans)
  next
    case (Inr p)
    obtain a b where "p = (a, b)" by (cases p)
    then show ?thesis using 2(2) [OF g [symmetric] Inr] 2(3) g gb Inr by (auto intro: adds_backed_trans)
  qed
qed simp

text \<open>C31. Gossip adds no commitment to the blob store that is not backed: whatever another transpeer answers, every commitment
  held after a round was held before or belongs to the hash it is stored under and is either a share commitment, whose share
  the transpeer served, which parses, carries its proof of work under the seed of the verified view and names the hash in its
  merge-mining data, or a block commitment whose block has the hashing blob of the verified view at its height and whose tag
  has a Merkle proof of the hash. The verified view is the one from before.\<close>

theorem gossip_adds_verified:
  "set (db_commitments h (rd_blobdb (snd (gossip env src rd)))) \<subseteq> set (db_commitments h (rd_blobdb rd)) \<union>
     {c. co_hash c = h \<and> backed env src (anchor_view (rd_anchor rd)) c}"
proof -
  obtain since after rows ns na where q: "(case dget (rd_cursors rd) src of None \<Rightarrow> (0, []) | Some c \<Rightarrow> c) = (since, after)"
    "nt_index (re_net env) src since after = (rows, ns, na)" by (metis prod_cases3 surj_pair)
  obtain r rd1 where g: "gossip_rows env src rows (True, 0) rd = (r, rd1)" by (cases "gossip_rows env src rows (True, 0) rd")
  have "rd_blobdb (snd (gossip env src rd)) = rd_blobdb rd1"
    using q g by (auto simp: gossip_def split: sum.split prod.split option.split)
  with gossip_rows_backed [OF g] show ?thesis by (simp add: adds_backed_def)
qed


section \<open>Seeding\<close>

lemma set_published_table:
  "s_transpeers (set_published a p f st) = (case dget (s_transpeers st) (tkey_of a p) of
     None \<Rightarrow> s_transpeers st | Some t \<Rightarrow> dput (tkey_of a p) (t\<lparr>t_published := f\<rparr>) (s_transpeers st))"
  by (auto simp: set_published_def update_saved_frame update_entry_def split: option.split)

lemma set_published_ok:
  "transpeers_ok (s_transpeers st) \<Longrightarrow> transpeers_ok (s_transpeers (set_published a p f st))"
  by (auto simp: set_published_table tentry_key_def dest: transpeers_okD intro!: transpeers_ok_dput split: option.split)

lemma add_transpeer_keeps:
  assumes "transpeers_ok (s_transpeers st)" "dget (s_transpeers st) (tentry_key e) = None" "addr_ok (t_addr e)"
    "add_transpeer cfg now e g rs st = (r, st')"
  shows "(\<exists>b. r = Inr b) \<and> transpeers_ok (s_transpeers st') \<and>
     (\<forall>k t. dget (s_transpeers st') k = Some t \<longrightarrow> k \<noteq> tentry_key e \<longrightarrow> dget (s_transpeers st) k = Some t)"
  using assms(1)
proof (cases rule: add_transpeer_cases [where cfg = cfg and now = now and e = e and g = g and rs = rs])
  case refused
  then show ?thesis using assms by auto
next
  case (refreshed ex)
  then show ?thesis using assms by simp
next
  case (fresh e1)
  then have "tentry_key e1 = tentry_key e" by (simp add: tentry_key_def)
  then show ?thesis using assms fresh by (auto intro!: transpeers_ok_dput)
next
  case (evicted e1 v)
  then have "tentry_key e1 = tentry_key e" by (simp add: tentry_key_def)
  moreover have "dict_ok (s_transpeers st)" using assms(1) by (simp add: transpeers_ok_def)
  ultimately show ?thesis using assms evicted
    by (auto intro!: transpeers_ok_dput transpeers_ok_ddel split: if_splits)
qed

text \<open>After the loop has passed over \<open>es\<close> the entries of \<open>es\<close> that are stored are flagged.\<close>

definition flagged :: "entry set \<Rightarrow> store \<Rightarrow> bool" where
  "flagged es st \<longleftrightarrow> transpeers_ok (s_transpeers st) \<and>
     (\<forall>k t. dget (s_transpeers st) k = Some t \<longrightarrow> (t_addr t, t_port t) \<in> es \<longrightarrow> t_published t)"

lemma flagged_set_published:
  assumes "transpeers_ok (s_transpeers st)" "addr_ok a"
    "\<forall>k t. dget (s_transpeers st) k = Some t \<longrightarrow> k \<noteq> tkey_of a p \<longrightarrow> (t_addr t, t_port t) \<in> es \<longrightarrow> t_published t"
  shows "flagged (insert (a, p) es) (set_published a p True st)"
  unfolding flagged_def
proof (intro conjI allI impI)
  show "transpeers_ok (s_transpeers (set_published a p True st))" by (rule set_published_ok) (rule assms(1))
next
  fix k t
  assume k: "dget (s_transpeers (set_published a p True st)) k = Some t" "(t_addr t, t_port t) \<in> insert (a, p) es"
  show "t_published t"
  proof (cases "k = tkey_of a p")
    case True
    then show ?thesis using k by (auto simp: set_published_table split: option.splits)
  next
    case False
    then have g: "dget (s_transpeers st) k = Some t" using k(1) by (auto simp: set_published_table split: option.splits)
    with assms(1) have "k = tkey_of (t_addr t) (t_port t)" by (auto simp: tentry_key_def dest: transpeers_okD)
    then show ?thesis using False g k(2) assms(3) by auto
  qed
qed

lemma publish_entries_flagged:
  "flagged done (rd_store rd) \<Longrightarrow> \<forall>e \<in> set es. addr_ok (fst e) \<Longrightarrow>
     \<exists>st. publish_entries env i es rd = (Inr (), rd\<lparr>rd_store := st\<rparr>) \<and> flagged (done \<union> set es) st"
proof (induction es arbitrary: i rd "done")
  case Nil
  then show ?case by (intro exI [of _ "rd_store rd"]) (simp add: retS_def)
next
  case (Cons e es)
  obtain a p where e: "e = (a, p)" by (cases e)
  have a: "addr_ok a" and es: "\<forall>e \<in> set es. addr_ok (fst e)" using Cons.prems e by simp_all
  let ?st = "rd_store rd"
  let ?new = "(new_tentry a p)\<lparr>t_last_seen := re_now env\<rparr>"
  have nk: "tentry_key ?new = tkey_of a p" "t_addr ?new = a" by (simp_all add: tentry_key_def new_tentry_def)
  have ok: "transpeers_ok (s_transpeers ?st)" using Cons.prems by (simp add: flagged_def)
  obtain st where st: "(if get_transpeer a p ?st = None
         then (case add_transpeer (re_cfg env) (re_now env) ?new False (re_rand env i) ?st of
             (r, st) \<Rightarrow> (bindR r (\<lambda>_. Inr ()), rd\<lparr>rd_store := st\<rparr>))
         else (Inr (), rd)) = (Inr (), rd\<lparr>rd_store := st\<rparr>)"
    and tok: "transpeers_ok (s_transpeers st)"
    and keep: "\<forall>k t. dget (s_transpeers st) k = Some t \<longrightarrow> k \<noteq> tkey_of a p \<longrightarrow> dget (s_transpeers ?st) k = Some t"
  proof (cases "get_transpeer a p ?st")
    case None
    obtain r st where s: "add_transpeer (re_cfg env) (re_now env) ?new False (re_rand env i) ?st = (r, st)"
      by (cases "add_transpeer (re_cfg env) (re_now env) ?new False (re_rand env i) ?st")
    have "dget (s_transpeers ?st) (tentry_key ?new) = None" using None nk by (simp add: get_transpeer_def)
    from add_transpeer_keeps [OF ok this _ s] a nk None s that [of st] show thesis by auto
  next
    case (Some t)
    then show thesis using that [of ?st] ok by simp
  qed
  have "flagged (insert (a, p) done) (set_published a p True st)"
    by (rule flagged_set_published [OF tok a]) (use keep Cons.prems(1) in \<open>auto simp: flagged_def\<close>)
  with Cons.IH [of "insert (a, p) done" "rd\<lparr>rd_store := set_published a p True st\<rparr>" "i + 1"] es obtain st' where
    "publish_entries env (i + 1) es (rd\<lparr>rd_store := set_published a p True st\<rparr>) = (Inr (), rd\<lparr>rd_store := st'\<rparr>)"
    "flagged (insert (a, p) done \<union> set es) st'" by auto
  then show ?case using st e by (auto simp: bindS_def modifyS_def)
qed

text \<open>The second loop runs over the entries as they were before it.\<close>

lemma unpublish_fold:
  "transpeers_ok (s_transpeers st) \<Longrightarrow>
     dget (s_transpeers (fold (\<lambda>t st. if P t then set_published (t_addr t) (t_port t) False st else st) ts st)) k =
     map_option (\<lambda>t. if \<exists>u \<in> set ts. P u \<and> tentry_key u = k then t\<lparr>t_published := False\<rparr> else t) (dget (s_transpeers st) k)"
proof (induction ts arbitrary: st)
  case Nil
  then show ?case by (simp add: option.map_ident)
next
  case (Cons u ts)
  show ?case
  proof (cases "P u")
    case True
    have "dget (s_transpeers (set_published (t_addr u) (t_port u) False st)) k =
        map_option (\<lambda>t. if tentry_key u = k then t\<lparr>t_published := False\<rparr> else t) (dget (s_transpeers st) k)"
      by (cases "tkey_of (t_addr u) (t_port u) = k"; cases "dget (s_transpeers st) k")
        (auto simp: set_published_table tentry_key_def split: option.split)
    with Cons.IH [OF set_published_ok [OF Cons.prems, of "t_addr u" "t_port u" False]] True show ?thesis
      by (cases "dget (s_transpeers st) k") auto
  next
    case False
    with Cons show ?thesis by simp
  qed
qed

lemma unpublish_rest_exact:
  assumes "flagged (set published) st" "dget (s_transpeers (unpublish_rest published st)) k = Some t"
  shows "t_published t \<longleftrightarrow> (t_addr t, t_port t) \<in> set published"
proof -
  have ok: "transpeers_ok (s_transpeers st)" using assms by (simp add: flagged_def)
  let ?P = "\<lambda>t. t_published t \<and> (t_addr t, t_port t) \<notin> set published"
  from assms(2) obtain t0 where t0: "dget (s_transpeers st) k = Some t0"
    "t = (if \<exists>u \<in> set (dvals (s_transpeers st)). ?P u \<and> tentry_key u = k then t0\<lparr>t_published := False\<rparr> else t0)"
    unfolding unpublish_rest_def unpublish_fold [OF ok] by auto
  have "u = t0" if u: "u \<in> set (dvals (s_transpeers st))" "tentry_key u = k" for u
  proof -
    from u obtain k' where k': "(k', u) \<in> set (s_transpeers st)" by auto
    with ok u(2) have "k' = k" by (auto simp: transpeers_ok_def)
    with k' ok t0(1) show ?thesis using dict_ok_dget [of "s_transpeers st" k u] by (simp add: transpeers_ok_def)
  qed
  moreover have "t0 \<in> set (dvals (s_transpeers st))" "tentry_key t0 = k"
    using t0(1) ok by (auto dest: map_of_SomeD transpeers_okD intro: image_eqI [rotated])
  ultimately have "t = (if ?P t0 then t0\<lparr>t_published := False\<rparr> else t0)" using t0(2) by (metis (no_types, lifting))
  moreover have "(t_addr t0, t_port t0) \<in> set published \<Longrightarrow> t_published t0" using assms(1) t0(1) by (auto simp: flagged_def)
  ultimately show ?thesis by auto
qed

lemma top_published_heaviest:
  assumes "dict_ok weights"
  shows "length (top_published weights) \<le> TOP_N_PUBLISH" "distinct (top_published weights)"
    "set (top_published weights) \<subseteq> set (dkeys weights)"
    "(e, w) \<in> set weights \<Longrightarrow> e \<notin> set (top_published weights) \<Longrightarrow>
       length (top_published weights) = TOP_N_PUBLISH \<and> (\<forall>e' w'. (e', w') \<in> set weights \<longrightarrow> e' \<in> set (top_published weights) \<longrightarrow> w \<le> w')"
proof -
  let ?s = "sort_key entry_order weights"
  have d: "distinct (map fst ?s)"
  proof -
    have "mset (map fst ?s) = mset (map fst weights)" by simp
    then show ?thesis using assms mset_eq_imp_distinct_iff unfolding dict_ok_def by blast
  qed
  show "length (top_published weights) \<le> TOP_N_PUBLISH" by (simp add: top_published_def)
  have tm: "top_published weights = take TOP_N_PUBLISH (map fst ?s)" by (simp add: top_published_def take_map)
  show "distinct (top_published weights)" using d by (simp add: tm)
  show "set (top_published weights) \<subseteq> set (dkeys weights)"
    using set_take_subset [of TOP_N_PUBLISH ?s] by (auto simp: top_published_def)
  assume e: "(e, w) \<in> set weights" "e \<notin> set (top_published weights)"
  then have "(e, w) \<in> set (take TOP_N_PUBLISH ?s @ drop TOP_N_PUBLISH ?s)" by simp
  then have dr: "(e, w) \<in> set (drop TOP_N_PUBLISH ?s)" using e(2)
    by (simp only: set_append) (force simp: top_published_def)
  then have "length (top_published weights) = TOP_N_PUBLISH" by (cases "length ?s \<le> TOP_N_PUBLISH") (auto simp: top_published_def)
  moreover have "w \<le> w'" if p: "(e', w') \<in> set weights" "e' \<in> set (top_published weights)" for e' w'
  proof -
    from p(2) obtain w2 where w2: "(e', w2) \<in> set (take TOP_N_PUBLISH ?s)" by (auto simp: top_published_def)
    then have "(e', w2) \<in> set weights" using set_take_subset [of TOP_N_PUBLISH ?s] by auto
    with p(1) assms have "w2 = w'" using dict_ok_dget by (metis option.inject)
    moreover have "entry_order (e', w2) \<le> entry_order (e, w)"
    proof -
      have "sorted (map entry_order (take TOP_N_PUBLISH ?s @ drop TOP_N_PUBLISH ?s))" by (simp del: map_append)
      then show ?thesis using w2 dr by (simp only: map_append sorted_append) auto
    qed
    then have "w \<le> w2" by (auto simp: entry_order_def less_eq_prod_def)
    ultimately show ?thesis by simp
  qed
  ultimately show "length (top_published weights) = TOP_N_PUBLISH \<and>
      (\<forall>e' w'. (e', w') \<in> set weights \<longrightarrow> e' \<in> set (top_published weights) \<longrightarrow> w \<le> w')" by blast
qed

text \<open>C32. Seeding never fails; it publishes at most 64 transpeers, each once, the heaviest of those that weigh anything, and
  when it is done a stored transpeer is flagged as published exactly when it is one of them, whatever was flagged before and
  whatever the admissions evicted. Nothing but the peer store changes.\<close>

theorem seeding_exact:
  assumes "transpeers_ok (s_transpeers (rd_store rd))" "dict_ok weights" "\<forall>e \<in> set (dkeys weights). addr_ok (fst e)"
  shows "\<exists>st. step7_seeding env weights rd = (Inr (top_published weights), rd\<lparr>rd_store := st\<rparr>) \<and>
     (\<forall>t \<in> set (dvals (s_transpeers st)). t_published t \<longleftrightarrow> (t_addr t, t_port t) \<in> set (top_published weights)) \<and>
     length (top_published weights) \<le> 64 \<and> distinct (top_published weights) \<and>
     set (top_published weights) \<subseteq> set (dkeys weights) \<and>
     (\<forall>(e, w) \<in> set weights. e \<notin> set (top_published weights) \<longrightarrow> length (top_published weights) = 64 \<and>
        (\<forall>(e', w') \<in> set weights. e' \<in> set (top_published weights) \<longrightarrow> w \<le> w'))"
proof -
  note th = top_published_heaviest [OF assms(2)]
  have "flagged {} (rd_store rd)" using assms(1) by (simp add: flagged_def)
  moreover have "\<forall>e \<in> set (top_published weights). addr_ok (fst e)" using th(3) assms(3) by blast
  ultimately obtain st where st: "publish_entries env 0 (top_published weights) rd = (Inr (), rd\<lparr>rd_store := st\<rparr>)"
    "flagged (set (top_published weights)) st" using publish_entries_flagged [of "{}" rd] by fastforce
  let ?st = "unpublish_rest (top_published weights) st"
  have ok: "transpeers_ok (s_transpeers st)" using st(2) by (simp add: flagged_def)
  have dk: "dict_ok (s_transpeers ?st)"
  proof -
    have "transpeers_ok (s_transpeers (fold (\<lambda>t st. if P t then set_published (t_addr t) (t_port t) False st else st) ts s))"
      if "transpeers_ok (s_transpeers s)" for ts s and P :: "tentry \<Rightarrow> bool"
      using that by (induction ts arbitrary: s) (simp_all add: set_published_ok)
    from this [OF ok] show ?thesis by (simp add: unpublish_rest_def transpeers_ok_def)
  qed
  have "t_published t \<longleftrightarrow> (t_addr t, t_port t) \<in> set (top_published weights)" if t: "t \<in> set (dvals (s_transpeers ?st))" for t
  proof -
    from t obtain k where "(k, t) \<in> set (s_transpeers ?st)" by auto
    with dk have "dget (s_transpeers ?st) k = Some t" using dict_ok_dget by metis
    then show ?thesis by (rule unpublish_rest_exact [OF st(2)])
  qed
  moreover have "step7_seeding env weights rd = (Inr (top_published weights), rd\<lparr>rd_store := ?st\<rparr>)"
    using st(1) by (simp add: step7_seeding_def Let_def bindS_def modifyS_def retS_def)
  ultimately show ?thesis using th TOP_N_PUBLISH_def by (intro exI [of _ ?st]) fastforce
qed


text \<open>A reader whose store holds a transpeer flagged by an earlier sync, and two transpeers with weight.\<close>

definition quiet_net :: network where
  "quiet_net = \<lparr> nt_tip = \<lambda>_ _. None, nt_headers = \<lambda>_ _ _ _. [], nt_venues = \<lambda>_. [], nt_block = \<lambda>_ _ _. None,
     nt_share = \<lambda>_ _ _. None, nt_shares = \<lambda>_ _ _ _. [], nt_share_by_root = \<lambda>_ _ _. None, nt_blob = \<lambda>_ _. None,
     nt_index = \<lambda>_ _ _. ([], None, None) \<rparr>"

definition seed_env :: reader_env where
  "seed_env = \<lparr> re_cfg = default_config, re_net = quiet_net, re_pow = \<lambda>_ _ b. b, re_now = 1000, re_draws = \<lambda>_. [], re_rand = \<lambda>_. [] \<rparr>"

definition seed_reader :: anchor_reader where
  "seed_reader = (let old = (new_tentry ''9.9.9.9'' 18080)\<lparr>t_published := True\<rparr> in
     \<lparr> rd_store = (empty_store default_config)\<lparr>s_transpeers := [(tentry_key old, old)]\<rparr>, rd_blobdb = empty_db,
       rd_anchor = empty_anchor, rd_shares = [], rd_disk = \<lambda>_. None, rd_state = new_reader_state, rd_discovered = [],
       rd_cursors = [] \<rparr>)"

definition seed_weights :: "(entry, int) dict" where
  "seed_weights = [((''1.2.3.4'', 18080), 5), ((''5.6.7.8'', 18080), 9)]"

lemma seeding_exact_witness:
  "\<exists>st. step7_seeding seed_env seed_weights seed_reader = (Inr (top_published seed_weights), seed_reader\<lparr>rd_store := st\<rparr>) \<and>
     (\<forall>t \<in> set (dvals (s_transpeers st)). t_published t \<longleftrightarrow> (t_addr t, t_port t) \<in> set (top_published seed_weights)) \<and>
     ''9.9.9.9'' \<notin> fst ` set (top_published seed_weights)"
proof -
  have "transpeers_ok (s_transpeers (rd_store seed_reader))"
    by (simp add: seed_reader_def Let_def transpeers_ok_def dict_ok_def addr_ok_def new_tentry_def)
  moreover have "dict_ok seed_weights" "\<forall>e \<in> set (dkeys seed_weights). addr_ok (fst e)"
    by (simp_all add: seed_weights_def dict_ok_def addr_ok_def)
  ultimately obtain st where st:
    "step7_seeding seed_env seed_weights seed_reader = (Inr (top_published seed_weights), seed_reader\<lparr>rd_store := st\<rparr>)"
    "\<forall>t \<in> set (dvals (s_transpeers st)). t_published t \<longleftrightarrow> (t_addr t, t_port t) \<in> set (top_published seed_weights)"
    "set (top_published seed_weights) \<subseteq> set (dkeys seed_weights)"
    using seeding_exact [of seed_reader seed_weights seed_env] by blast
  moreover have "''9.9.9.9'' \<notin> fst ` set (dkeys seed_weights)" by (simp add: seed_weights_def)
  ultimately show ?thesis by blast
qed

section \<open>The state between syncs\<close>

text \<open>The steps leave the reader's state alone; only the end of a sync sets it.\<close>

definition keeps_state :: "'a rstep \<Rightarrow> bool" where
  "keeps_state m \<longleftrightarrow> (\<forall>rd. rd_state (snd (m rd)) = rd_state rd)"

lemma keeps_stateI: "(\<And>rd. rd_state (snd (m rd)) = rd_state rd) \<Longrightarrow> keeps_state m"
  by (simp add: keeps_state_def)

lemma keeps_stateD: "keeps_state m \<Longrightarrow> m rd = (r, rd') \<Longrightarrow> rd_state rd' = rd_state rd"
  unfolding keeps_state_def by (metis snd_conv)

lemma keeps_bindS [intro!]: "keeps_state m \<Longrightarrow> (\<And>x. keeps_state (f x)) \<Longrightarrow> keeps_state (bindS m f)"
  unfolding keeps_state_def bindS_def by (intro allI) (metis (mono_tags, lifting) case_prod_conv prod.collapse sum.case_eq_if snd_conv)

lemma keeps_prod: "(\<And>a b. keeps_state (f a b)) \<Longrightarrow> keeps_state (case p of (a, b) \<Rightarrow> f a b)"
  by (cases p) simp

lemma keeps_option: "keeps_state a \<Longrightarrow> (\<And>x. keeps_state (f x)) \<Longrightarrow> keeps_state (case x of None \<Rightarrow> a | Some x \<Rightarrow> f x)"
  by (cases x) simp_all

lemma keeps_retS [intro, simp]: "keeps_state (retS x)" "keeps_state (liftS r)" "keeps_state (getS g)"
  by (simp_all add: keeps_state_def retS_def liftS_def getS_def)

lemma keeps_modifyS [intro!]: "(\<And>rd. rd_state (f rd) = rd_state rd) \<Longrightarrow> keeps_state (modifyS f)"
  by (simp add: keeps_state_def modifyS_def)

lemma keeps_venue [intro, simp]: "keeps_state (venue_share_store env cid)" "keeps_state (put_share_store cid s)"
  by (auto simp: keeps_state_def venue_share_store_def put_share_store_def modifyS_def Let_def split: option.split)

lemma keeps_step1: "keeps_state (step1_headers env cp sources)"
  unfolding step1_headers_def by (intro keeps_bindS) (auto split: option.split)

lemma keeps_step2: "keeps_state (step2_coverage_window env sources view start)"
  by (auto simp: keeps_state_def step2_coverage_window_def split: prod.split)

lemma expire_state: "rd_state (expire_discovered now rd) = rd_state rd"
proof -
  have "rd_state (fold (\<lambda>v rd. if expired_venue now rd v then forget_venue (fst v) rd else rd) vs rd) = rd_state rd" for vs
    by (induction vs arbitrary: rd) (simp_all add: forget_venue_def)
  then show ?thesis by (simp add: expire_discovered_def)
qed

lemma keeps_candidates: "keeps_state (\<lambda>rd. case candidate_venues env sources rd of (v, rd) \<Rightarrow> (Inr v, rd))"
  by (auto simp: keeps_state_def candidate_venues_def Let_def expire_state split: prod.split)

lemma keeps_leaf_venue: "keeps_state (leaf_venue env sources view tag cid lf)"
  unfolding leaf_venue_def Let_def by (auto split: option.split prod.split)

lemma keeps_leaf_venues: "keeps_state (leaf_venues env sources view tag cids lf)"
  by (induction cids arbitrary: lf) (auto intro: keeps_leaf_venue)

lemma keeps_leaf_blocks: "keeps_state (leaf_blocks env sources view venues tags tips budget resolved)"
  by (induction tags arbitrary: tips budget resolved) (auto intro: keeps_leaf_venues)

lemma keeps_fork: "keeps_state (fork_of env sources view cid tip)"
  unfolding fork_of_def by (auto split: prod.split)

lemma keeps_step4: "keeps_state (step4_canonical_fork env sources tips view)"
  by (induction tips) (auto intro: keeps_fork)

lemma keeps_step5: "keeps_state (step5_blobs env sources canonical)"
proof -
  have "keeps_state (share_blobs env sources shs)" for shs
    by (induction shs) auto
  then show ?thesis by (simp add: step5_blobs_def)
qed

lemma keeps_step7: "keeps_state (step7_seeding env weights)"
proof -
  have "keeps_state (publish_entries env i es)" for i es
    by (induction es arbitrary: i) (auto simp: keeps_state_def bindS_def modifyS_def retS_def split: prod.split sum.split option.split)
  then show ?thesis unfolding step7_seeding_def Let_def by auto
qed

lemma keeps_step3: "keeps_state (step3_venue_leaves env sources tagged venues view)"
  unfolding step3_venue_leaves_def by (rule keeps_leaf_blocks)

lemma keeps_step6: "keeps_state (step6_weights canonical)"
  by (simp add: keeps_state_def step6_weights_def)

lemma keeps_sync_steps: "keeps_state (sync_steps env cp sources)"
  unfolding sync_steps_def Let_def
  by (rule keeps_step1 keeps_step2 keeps_candidates keeps_step3 keeps_step4 keeps_step5 keeps_step6 keeps_step7 keeps_retS
      keeps_prod keeps_option keeps_bindS)+

lemma keeps_prune: "keeps_state (prune_stores env cp canonical start)"
proof -
  let ?step = "\<lambda>(cid, chain) m. bindS m (\<lambda>_. if chain = [] then retS ()
           else bindS (venue_share_store env cid) (\<lambda>s.
             put_share_store cid (share_prune (int (ps_height (hd chain))) (int VENUE_WINDOW) s)))"
  have step: "keeps_state m \<Longrightarrow> keeps_state (?step x m)" for x m
    by (cases x; cases "snd x = []") (simp_all add: keeps_bindS)
  have "keeps_state m \<Longrightarrow> keeps_state (fold ?step xs m)" for xs m
  proof (induction xs arbitrary: m)
    case (Cons x xs)
    show ?case unfolding fold_simps by (rule Cons.IH) (rule step [OF Cons.prems])
  qed simp
  from this [OF keeps_retS(1)] show ?thesis unfolding prune_stores_def by (auto simp del: fold_simps)
qed

text \<open>The counts of a sync.\<close>

lemma window_counts:
  "window_from_heights env view sources hs budget a = ((tagged, missing, fetched), a') \<Longrightarrow>
     0 \<le> missing \<and> int (length tagged) \<le> fetched \<and> fetched + missing = int (length hs)"
proof (induction hs arbitrary: budget a tagged missing fetched a')
  case (Cons h hs)
  obtain blob b1 a1 where w: "window_block env view sources h budget a = (blob, b1, a1)"
    by (cases "window_block env view sources h budget a")
  obtain t m f a2 where r: "window_from_heights env view sources hs b1 a1 = ((t, m, f), a2)"
    by (metis prod.exhaust)
  from Cons.IH [OF r] Cons.prems w r show ?case by (auto split: option.splits)
qed simp

lemma leaf_blocks_count:
  "leaf_blocks env sources view venues tags tips budget resolved rd = (Inr (tips', resolved'), rd') \<Longrightarrow>
     resolved \<le> resolved' \<and> resolved' \<le> resolved + int (length tags)"
proof (induction tags arbitrary: tips budget resolved rd)
  case (Cons tag tags)
  obtain r1 rd1 where l: "leaf_venues env sources view tag venues
      \<lparr> lf_slots = [], lf_resolved = False, lf_tips = tips, lf_budget = budget \<rparr> rd = (r1, rd1)"
    by (cases "leaf_venues env sources view tag venues
      \<lparr> lf_slots = [], lf_resolved = False, lf_tips = tips, lf_budget = budget \<rparr> rd")
  with Cons.prems obtain lf where r1: "r1 = Inr lf" by (cases r1) (auto simp: bindS_def)
  have "leaf_blocks env sources view venues tags (lf_tips lf) (lf_budget lf) (if lf_resolved lf then resolved + 1 else resolved) rd1
       = (Inr (tips', resolved'), rd')"
    using Cons.prems unfolding leaf_blocks.simps bindS_def l r1 by (simp only: prod.case sum.case)
  from Cons.IH [OF this] show ?case by (auto split: if_splits)
qed (simp add: retS_def)

text \<open>What the counts of a sync are worth.\<close>

definition window_size :: "reader_state \<Rightarrow> int" where
  "window_size s = max 0 (st_window_blocks s)"

definition state_sane :: "reader_state \<Rightarrow> bool" where
  "state_sane s \<longleftrightarrow> 0 \<le> st_resolved s \<and> st_resolved s \<le> st_tagged s \<and> st_tagged s \<le> window_size s \<and>
     0 \<le> st_fetched_blocks s \<and> st_fetched_blocks s \<le> window_size s \<and>
     st_coverage s = coverage (st_tagged s) (st_resolved s) \<and>
     (st_bootstrapped s \<longrightarrow> fmul MIN_WINDOW_FETCHED (of_int (st_window_blocks s)) \<le> of_int (st_fetched_blocks s)) \<and>
     (st_bootstrapped s \<and> st_tagged s < 2 ^ 50 \<longrightarrow> 0 < st_tagged s \<and> st_tagged s \<le> 2 * st_resolved s)"

lemma state_after_sane:
  assumes "sync_steps env cp sources rd = (Inr (Some r), rd')"
  shows "state_sane (state_after now r)"
proof -
  from assms obtain view rd1 where v: "step1_headers env cp sources rd = (Inr (Some view), rd1)"
    unfolding sync_steps_def by (auto simp: bindS_def retS_def split: prod.splits sum.splits option.splits)
  obtain t m f rd2 where w: "step2_coverage_window env sources view (coverage_from view (c_anchor_window_days (re_cfg env))) rd1
      = (Inr (t, m, f), rd2)"
    using that by (cases "window_from_heights env view sources
        [coverage_from view (c_anchor_window_days (re_cfg env))..tip_height view] MAX_BLOCK_FETCHES (rd_anchor rd1)")
      (auto simp: step2_coverage_window_def)
  obtain vs rd3 where c: "candidate_venues env sources rd2 = (vs, rd3)" by (cases "candidate_venues env sources rd2")
  from assms v w c obtain tips resolved rd4 where l: "step3_venue_leaves env sources t vs view rd3 = (Inr (tips, resolved), rd4)"
    unfolding sync_steps_def by (auto simp: bindS_def Let_def split: prod.splits sum.splits)
  have r: "sr_view r = view" "sr_start r = coverage_from view (c_anchor_window_days (re_cfg env))" "sr_tagged r = t"
    "sr_missing r = m" "sr_fetched r = f" "sr_resolved r = resolved"
    using assms v w c l unfolding sync_steps_def
    by (auto simp: bindS_def retS_def Let_def split: prod.splits sum.splits)
  have "0 \<le> m \<and> int (length t) \<le> f \<and> f + m = int (length [sr_start r..tip_height view])"
    using w window_counts unfolding r by (auto simp: step2_coverage_window_def split: prod.splits)
  moreover have "0 \<le> resolved \<and> resolved \<le> int (length t)"
    using leaf_blocks_count l unfolding step3_venue_leaves_def by fastforce
  moreover have "int (length [sr_start r..tip_height view]) = max 0 (tip_height view - sr_start r + 1)"
    by simp
  moreover have half: "1 / 2 \<le> fdiv resolved (int (length t) + m) \<longleftrightarrow> int (length t) + m \<le> 2 * resolved"
    if "0 \<le> resolved" "0 \<le> m" "int (length t) + m \<noteq> 0" "int (length t) + m < 2 ^ 50"
    by (rule fdiv_ge_half) (use that in simp_all)
  ultimately show ?thesis
    by (auto simp: state_sane_def state_after_def Let_def r window_size_def bootstrapped_def coverage_def
        BOOTSTRAP_COVERAGE_def half)
qed

lemma sync_sane:
  assumes "state_sane (rd_state rd)"
  shows "state_sane (rd_state (snd (sync env sources rd)))"
proof -
  let ?srcs = "take MAX_SOURCES sources"
  show ?thesis
  proof (cases "parse_checkpoint (c_anchor_checkpoint (re_cfg env))")
    case (Inl e)
    then show ?thesis using assms by (simp add: sync_def bindS_def liftS_def)
  next
    case (Inr cp)
    obtain r rd1 where s: "sync_steps env cp ?srcs rd = (r, rd1)" by (cases "sync_steps env cp ?srcs rd")
    have k: "rd_state rd1 = rd_state rd" using keeps_stateD [OF keeps_sync_steps s] .
    consider (err) e where "r = Inl e" | (nothing) "r = Inr None" | (full) x where "r = Inr (Some x)"
      by (metis sum.exhaust option.exhaust)
    then show ?thesis
    proof cases
      case err
      then show ?thesis using assms k s Inr by (simp add: sync_def bindS_def liftS_def)
    next
      case nothing
      then show ?thesis using assms k s Inr by (simp add: sync_def bindS_def liftS_def Let_def state_sane_def window_size_def)
    next
      case full
      obtain p rd2 where p: "prune_stores env cp (sr_canonical x) (sr_start x) rd1 = (p, rd2)"
        by (cases "prune_stores env cp (sr_canonical x) (sr_start x) rd1")
      have "rd_state rd2 = rd_state rd" using keeps_stateD [OF keeps_prune p] k by simp
      then show ?thesis using assms p s Inr full state_after_sane [OF s [unfolded full]]
        by (cases p) (simp_all add: sync_def bindS_def liftS_def)
    qed
  qed
qed


end
