(* ===== verification/Challenge.thy ===== *)
theory Challenge
  imports Reader StoreInvariants
begin

text \<open>
  \<open>transpeer/anchor/challenge.py\<close>: the faithfulness challenges. A round samples hashes of verified blobs for every live
  transpeer, fetches them back, counts the failures of the last day and sets the flag of the transpeer. The challenges of a round
  run at the same time; each works on its own entry, and the samples are drawn in the order of the entries.
\<close>

section \<open>Constants and state\<close>

definition PER_HOUR :: nat where "PER_HOUR = 8"
definition MIN_AGE :: int where "MIN_AGE = 600"
definition FAIL_LIMIT :: nat where "FAIL_LIMIT = 3"
definition FAIL_WINDOW :: int where "FAIL_WINDOW = 86400"
definition MIN_UPTIME :: int where "MIN_UPTIME = 600"

record challenge_stats =
  cs_challenged :: nat
  cs_failed :: nat
  cs_marked :: nat
  cs_lost :: nat

type_synonym asked = "(entry, (int, bytes list) dict) dict"

record challenger =
  ch_failures :: "(entry, int list) dict"
  ch_asked :: asked
  ch_lost :: "bytes list"
  ch_stats :: challenge_stats

definition new_challenger :: challenger where
  "new_challenger = \<lparr> ch_failures = [], ch_asked = [], ch_lost = [],
     ch_stats = \<lparr> cs_challenged = 0, cs_failed = 0, cs_marked = 0, cs_lost = 0 \<rparr> \<rparr>"

text \<open>An entry that was challenged, with what became of each hash asked for.\<close>

type_synonym outcome = "tentry \<times> (bytes \<times> bool) list"

section \<open>Asking\<close>

text \<open>\<open>rng.sample\<close>: draws without replacement.\<close>

fun sample_from :: "'a list \<Rightarrow> nat \<Rightarrow> rand \<Rightarrow> 'a list \<times> rand" where
  "sample_from xs 0 rs = ([], rs)"
| "sample_from xs (Suc n) rs =
     (if xs = [] then ([], rs)
      else (case draw (length xs) rs of (i, rs) \<Rightarrow>
        case sample_from (take i xs @ drop (Suc i) xs) n rs of (ys, rs) \<Rightarrow> (xs ! i # ys, rs)))"

definition challengeable :: "store \<Rightarrow> tentry list" where
  "challengeable st = filter (\<lambda>e. t_alive e \<and> t_uptime e \<ge> MIN_UPTIME) (dvals (s_transpeers st))"

definition hour_of :: "int \<Rightarrow> int" where "hour_of now = now div 3600"

definition asked_this_hour :: "int \<Rightarrow> entry \<Rightarrow> asked \<Rightarrow> bytes list" where
  "asked_this_hour hour key d = (case dget d key of None \<Rightarrow> [] | Some by_hour \<Rightarrow>
     (case dget by_hour hour of None \<Rightarrow> [] | Some hs \<Rightarrow> hs))"

definition challenge_one :: "network \<Rightarrow> int \<Rightarrow> bytes list \<Rightarrow> tentry \<Rightarrow> rand \<Rightarrow> asked \<Rightarrow> outcome \<times> rand \<times> asked" where
  "challenge_one net hour hashes e rs d =
     (let key = (t_addr e, t_port e);
          before = asked_this_hour hour key d;
          available = filter (\<lambda>h. h \<notin> set before) hashes;
          (sample, rs) = sample_from available (min PER_HOUR (length available)) rs
      in ((e, map (\<lambda>h. (h, nt_blob net key h \<noteq> None)) sample), rs, dput key [(hour, before @ sample)] d))"

fun challenge_all :: "network \<Rightarrow> int \<Rightarrow> bytes list \<Rightarrow> tentry list \<Rightarrow> rand \<Rightarrow> asked \<Rightarrow> outcome list \<times> asked" where
  "challenge_all net hour hashes [] rs d = ([], d)"
| "challenge_all net hour hashes (e # es) rs d =
     (case challenge_one net hour hashes e rs d of (out, rs, d) \<Rightarrow>
      case challenge_all net hour hashes es rs d of (outs, d) \<Rightarrow> (out # outs, d))"

section \<open>The tally\<close>

definition results_of :: "outcome list \<Rightarrow> (bytes \<times> bool) list" where
  "results_of outs = concat (map snd outs)"

definition newly_lost :: "outcome list \<Rightarrow> bytes list" where
  "newly_lost outs =
     (let rs = results_of outs in remdups (filter (\<lambda>h. list_all (\<lambda>(h', ok). h' = h \<longrightarrow> \<not> ok) rs) (map fst rs)))"

definition failures_in :: "bytes list \<Rightarrow> (bytes \<times> bool) list \<Rightarrow> nat" where
  "failures_in gone results = length (filter (\<lambda>(h, ok). h \<notin> set gone \<and> \<not> ok) results)"

definition failures_of :: "entry \<Rightarrow> challenger \<Rightarrow> int list" where
  "failures_of key ch = (case dget (ch_failures ch) key of None \<Rightarrow> [] | Some fs \<Rightarrow> fs)"

definition tally_one :: "int \<Rightarrow> bytes list \<Rightarrow> outcome \<Rightarrow> challenger \<times> store \<Rightarrow> challenger \<times> store" where
  "tally_one now gone out cs =
     (case out of (e, results) \<Rightarrow> case cs of (ch, st) \<Rightarrow>
      if results = [] then (ch, st)
      else
        (let key = (t_addr e, t_port e);
             n = failures_in gone results;
             fails = dropWhile (\<lambda>t. t < now - FAIL_WINDOW) (failures_of key ch @ replicate n now);
             s = ch_stats ch;
             marking = FAIL_LIMIT \<le> length fails \<and> \<not> t_unfaithful e;
             ch = ch\<lparr> ch_failures := dput key fails (ch_failures ch),
               ch_stats := s\<lparr> cs_challenged := cs_challenged s + 1, cs_failed := cs_failed s + n,
                 cs_marked := cs_marked s + (if marking then 1 else 0) \<rparr> \<rparr>
         in (ch, if FAIL_LIMIT \<le> length fails then set_unfaithful (t_addr e) (t_port e) True st
                 else if fails = [] \<and> t_unfaithful e then set_unfaithful (t_addr e) (t_port e) False st
                 else st)))"

definition tally :: "int \<Rightarrow> outcome list \<Rightarrow> challenger \<times> store \<Rightarrow> challenger \<times> store" where
  "tally now outs cs =
     (case cs of (ch, st) \<Rightarrow>
      let gone = newly_lost outs;
          ch = ch\<lparr> ch_lost := remdups (ch_lost ch @ gone),
            ch_stats := \<lparr> cs_challenged = 0, cs_failed = 0, cs_marked = 0, cs_lost = length gone \<rparr> \<rparr>
      in fold (tally_one now gone) outs (ch, st))"

definition ask_round :: "network \<Rightarrow> int \<Rightarrow> rand \<Rightarrow> bytes list \<Rightarrow> challenger \<Rightarrow> store \<Rightarrow> outcome list \<times> asked" where
  "ask_round net now rs verified ch st =
     challenge_all net (hour_of now) (filter (\<lambda>h. h \<notin> set (ch_lost ch)) verified) (challengeable st) rs (ch_asked ch)"

definition challenge_round :: "network \<Rightarrow> int \<Rightarrow> rand \<Rightarrow> challenger \<Rightarrow> anchor_reader \<Rightarrow> challenger \<times> anchor_reader" where
  "challenge_round net now rs ch rd =
     (case ask_round net now rs (verified_hashes now MIN_AGE rd) ch (rd_store rd) of (outs, d) \<Rightarrow>
      case tally now outs (ch\<lparr>ch_asked := d\<rparr>, rd_store rd) of (ch, st) \<Rightarrow> (ch, rd\<lparr>rd_store := st\<rparr>))"

section \<open>What is asked\<close>

lemma sample_from_mset: "mset (fst (sample_from xs n rs)) \<subseteq># mset xs"
proof (induction xs n rs rule: sample_from.induct)
  case (2 xs n rs)
  show ?case
  proof (cases "xs = []")
    case False
    obtain i rs' where d: "draw (length xs) rs = (i, rs')" by (cases "draw (length xs) rs")
    have i: "i < length xs" using draw_lt [of "length xs" rs] d False by simp
    have "mset xs = add_mset (xs ! i) (mset (take i xs @ drop (Suc i) xs))"
      using arg_cong [OF id_take_nth_drop [OF i], of mset] by simp
    then show ?thesis using 2 [OF False d [symmetric]] d False by (auto split: prod.split)
  qed simp
qed simp

lemma sample_from_facts:
  "set (fst (sample_from xs n rs)) \<subseteq> set xs" "distinct xs \<Longrightarrow> distinct (fst (sample_from xs n rs))"
proof -
  show "set (fst (sample_from xs n rs)) \<subseteq> set xs" using set_mset_mono [OF sample_from_mset [of xs n rs]] by simp
  assume "distinct xs"
  then show "distinct (fst (sample_from xs n rs))"
    using sample_from_mset [of xs n rs] mset_eq_imp_distinct_iff [of "fst (sample_from xs n rs) @ ys" xs for ys]
    by (metis ex_mset distinct_append mset_append subset_mset.add_diff_inverse)
qed

lemma sample_from_length: "length (fst (sample_from xs n rs)) \<le> n"
  by (induction xs n rs rule: sample_from.induct) (auto split: prod.splits)

text \<open>One outcome, with the hashes asked before.\<close>

definition outcome_ok :: "network \<Rightarrow> int \<Rightarrow> bytes list \<Rightarrow> asked \<Rightarrow> outcome \<Rightarrow> bool" where
  "outcome_ok net hour hashes d out \<longleftrightarrow> (case out of (e, results) \<Rightarrow>
     length results \<le> PER_HOUR \<and> (distinct hashes \<longrightarrow> distinct (map fst results)) \<and>
     (\<forall>(h, ok) \<in> set results. h \<in> set hashes \<and> h \<notin> set (asked_this_hour hour (t_addr e, t_port e) d) \<and>
        (ok \<longleftrightarrow> nt_blob net (t_addr e, t_port e) h \<noteq> None)))"

lemma challenge_one_ok:
  assumes "challenge_one net hour hashes e rs d = (out, rs', d')"
  shows "outcome_ok net hour hashes d out \<and> fst out = e \<and>
     (\<forall>key. key \<noteq> (t_addr e, t_port e) \<longrightarrow> asked_this_hour hour key d' = asked_this_hour hour key d)"
proof -
  let ?key = "(t_addr e, t_port e)"
  let ?av = "filter (\<lambda>h. h \<notin> set (asked_this_hour hour ?key d)) hashes"
  obtain sm rs2 where s: "sample_from ?av (min PER_HOUR (length ?av)) rs = (sm, rs2)"
    by (cases "sample_from ?av (min PER_HOUR (length ?av)) rs")
  note f = sample_from_facts [of ?av "min PER_HOUR (length ?av)" rs] sample_from_length [of ?av "min PER_HOUR (length ?av)" rs]
  have "out = (e, map (\<lambda>h. (h, nt_blob net ?key h \<noteq> None)) sm)"
    "d' = dput ?key [(hour, asked_this_hour hour ?key d @ sm)] d"
    using assms s by (auto simp: challenge_one_def Let_def)
  then show ?thesis using f s by (auto simp: outcome_ok_def asked_this_hour_def comp_def)
qed

lemma outcome_ok_cong:
  "asked_this_hour hour (t_addr (fst out), t_port (fst out)) d' = asked_this_hour hour (t_addr (fst out), t_port (fst out)) d \<Longrightarrow>
     outcome_ok net hour hashes d' out = outcome_ok net hour hashes d out"
  by (cases out) (simp add: outcome_ok_def)

lemma challenge_all_ok:
  "challenge_all net hour hashes es rs d = (outs, d') \<Longrightarrow> distinct (map (\<lambda>e. (t_addr e, t_port e)) es) \<Longrightarrow>
     map fst outs = es \<and> (\<forall>out \<in> set outs. outcome_ok net hour hashes d out)"
proof (induction es arbitrary: rs d outs d')
  case (Cons e es)
  obtain out rs1 d1 where o: "challenge_one net hour hashes e rs d = (out, rs1, d1)"
    by (metis prod_cases3)
  obtain outs1 d2 where a: "challenge_all net hour hashes es rs1 d1 = (outs1, d2)"
    by (cases "challenge_all net hour hashes es rs1 d1")
  have outs: "outs = out # outs1" using Cons.prems(1) o a by simp
  note one = challenge_one_ok [OF o]
  from Cons.IH [OF a] Cons.prems(2) have ih: "map fst outs1 = es" "\<forall>out \<in> set outs1. outcome_ok net hour hashes d1 out" by auto
  have "outcome_ok net hour hashes d x" if x: "x \<in> set outs1" for x
  proof -
    have "fst x \<in> set es" using x ih(1) by auto
    then have "(t_addr (fst x), t_port (fst x)) \<in> set (map (\<lambda>e. (t_addr e, t_port e)) es)" by auto
    then have "(t_addr (fst x), t_port (fst x)) \<noteq> (t_addr e, t_port e)" using Cons.prems(2) by auto
    with one have "asked_this_hour hour (t_addr (fst x), t_port (fst x)) d1 = asked_this_hour hour (t_addr (fst x), t_port (fst x)) d"
      by blast
    from outcome_ok_cong [OF this] ih(2) x show ?thesis by blast
  qed
  with one ih(1) outs show ?case by auto
qed simp

section \<open>The tally of one entry\<close>

lemma set_unfaithful_table:
  "s_transpeers (set_unfaithful a p f st) = (case dget (s_transpeers st) (tkey_of a p) of
     None \<Rightarrow> s_transpeers st | Some t \<Rightarrow> dput (tkey_of a p) (t\<lparr>t_unfaithful := f\<rparr>) (s_transpeers st))"
  by (auto simp: set_unfaithful_def update_saved_frame update_entry_def split: option.split)

definition kept_failures :: "int \<Rightarrow> bytes list \<Rightarrow> outcome \<Rightarrow> int list \<Rightarrow> int list" where
  "kept_failures now gone out fs =
     (if snd out = [] then fs else dropWhile (\<lambda>t. t < now - FAIL_WINDOW) (fs @ replicate (failures_in gone (snd out)) now))"

definition verdict :: "outcome \<Rightarrow> int list \<Rightarrow> bool \<Rightarrow> bool" where
  "verdict out fs old = (if snd out = [] then old else if FAIL_LIMIT \<le> length fs then True else if fs = [] then False else old)"

definition out_key :: "outcome \<Rightarrow> entry" where "out_key out = (t_addr (fst out), t_port (fst out))"

lemma tally_one_effect:
  assumes "tally_one now gone out (ch, st) = (ch', st')" "addr_ok (t_addr (fst out))"
    "get_transpeer (t_addr (fst out)) (t_port (fst out)) st = Some (fst out)"
  shows "failures_of (out_key out) ch' = kept_failures now gone out (failures_of (out_key out) ch)"
    "get_transpeer (t_addr (fst out)) (t_port (fst out)) st' = Some ((fst out)\<lparr>t_unfaithful :=
       verdict out (failures_of (out_key out) ch') (t_unfaithful (fst out))\<rparr>)"
    "key \<noteq> out_key out \<Longrightarrow> failures_of key ch' = failures_of key ch"
    "addr_ok b \<Longrightarrow> (b, q) \<noteq> out_key out \<Longrightarrow> get_transpeer b q st' = get_transpeer b q st"
proof -
  obtain e results where o: "out = (e, results)" by (cases out)
  have tk: "addr_ok b \<Longrightarrow> (b, q) \<noteq> (t_addr e, t_port e) \<Longrightarrow> tkey_of b q \<noteq> tkey_of (t_addr e) (t_port e)"
    using assms(2) o tkey_of_eq by auto
  define kf where "kf = dropWhile (\<lambda>t. t < now - FAIL_WINDOW)
     (failures_of (t_addr e, t_port e) ch @ replicate (failures_in gone results) now)"
  have lim: "FAIL_LIMIT > 0" by (simp add: FAIL_LIMIT_def)
  have same: "e\<lparr>t_unfaithful := t_unfaithful e\<rparr> = e" by simp
  consider (none) "results = []" "ch' = ch" "st' = st"
    | (some) "results \<noteq> []" "ch_failures ch' = dput (t_addr e, t_port e) kf (ch_failures ch)"
        "st' = (if FAIL_LIMIT \<le> length kf then set_unfaithful (t_addr e) (t_port e) True st
                 else if kf = [] \<and> t_unfaithful e then set_unfaithful (t_addr e) (t_port e) False st else st)"
    using assms(1) by (auto simp: tally_one_def o Let_def kf_def [symmetric] split: if_splits)
  note effect = this
  show k: "failures_of (out_key out) ch' = kept_failures now gone out (failures_of (out_key out) ch)"
    using effect by cases (simp_all add: kept_failures_def o out_key_def kf_def failures_of_def)
  show "key \<noteq> out_key out \<Longrightarrow> failures_of key ch' = failures_of key ch"
    using effect by cases (simp_all add: o out_key_def failures_of_def)
  show "get_transpeer (t_addr (fst out)) (t_port (fst out)) st' = Some ((fst out)\<lparr>t_unfaithful :=
       verdict out (failures_of (out_key out) ch') (t_unfaithful (fst out))\<rparr>)"
    using effect
  proof cases
    case none
    then show ?thesis using assms(3) same by (simp add: verdict_def o)
  next
    case some
    have "failures_of (out_key out) ch' = kf" using some by (simp add: failures_of_def out_key_def o)
    then show ?thesis using some assms(3) same lim
      by (cases "t_unfaithful e") (auto simp: verdict_def o get_transpeer_def set_unfaithful_table)
  qed
  show "addr_ok b \<Longrightarrow> (b, q) \<noteq> out_key out \<Longrightarrow> get_transpeer b q st' = get_transpeer b q st"
    using effect by cases (auto simp: get_transpeer_def set_unfaithful_table tk o out_key_def split: option.split)
qed


section \<open>The tally of a round\<close>

definition entry_of :: "outcome \<Rightarrow> store \<Rightarrow> tentry option" where
  "entry_of out st = get_transpeer (t_addr (fst out)) (t_port (fst out)) st"

lemma tally_fold:
  "fold (tally_one now gone) outs (ch, st) = (ch', st') \<Longrightarrow> distinct (map out_key outs) \<Longrightarrow>
     \<forall>out \<in> set outs. addr_ok (t_addr (fst out)) \<and> entry_of out st = Some (fst out) \<Longrightarrow>
     (\<forall>out \<in> set outs. failures_of (out_key out) ch' = kept_failures now gone out (failures_of (out_key out) ch) \<and>
        entry_of out st' = Some ((fst out)\<lparr>t_unfaithful := verdict out (failures_of (out_key out) ch') (t_unfaithful (fst out))\<rparr>)) \<and>
     (\<forall>key. key \<notin> set (map out_key outs) \<longrightarrow> failures_of key ch' = failures_of key ch \<and>
        (addr_ok (fst key) \<longrightarrow> get_transpeer (fst key) (snd key) st' = get_transpeer (fst key) (snd key) st))"
proof (induction outs arbitrary: ch st)
  case (Cons out outs)
  obtain ch1 st1 where o: "tally_one now gone out (ch, st) = (ch1, st1)" by (cases "tally_one now gone out (ch, st)")
  have out: "addr_ok (t_addr (fst out))" "entry_of out st = Some (fst out)" using Cons.prems(3) by simp_all
  note eff = tally_one_effect [OF o out [unfolded entry_of_def]]
  have fresh: "out_key out \<notin> set (map out_key outs)" "distinct (map out_key outs)" using Cons.prems(2) by simp_all
  have rest: "\<forall>x \<in> set outs. addr_ok (t_addr (fst x)) \<and> entry_of x st1 = Some (fst x)"
  proof
    fix x
    assume x: "x \<in> set outs"
    then have "out_key x \<in> set (map out_key outs)" by simp
    then have "out_key x \<noteq> out_key out" using fresh(1) by metis
    then have "entry_of x st1 = entry_of x st"
      using eff(4) [of "t_addr (fst x)" "t_port (fst x)"] x Cons.prems(3) by (auto simp: entry_of_def out_key_def)
    then show "addr_ok (t_addr (fst x)) \<and> entry_of x st1 = Some (fst x)" using x Cons.prems(3) by simp
  qed
  have f: "fold (tally_one now gone) outs (ch1, st1) = (ch', st')" using Cons.prems(1) o by simp
  note ih = Cons.IH [OF f fresh(2) rest]
  have this_one: "failures_of (out_key out) ch' = failures_of (out_key out) ch1" "entry_of out st' = entry_of out st1"
    using ih fresh(1) out(1) by (simp_all add: entry_of_def out_key_def)
  have other: "failures_of (out_key x) ch1 = failures_of (out_key x) ch" if "x \<in> set outs" for x
    using that eff(3) fresh(1) by (metis image_eqI list.set_map)
  show ?case
  proof (intro conjI ballI allI impI)
    fix x
    assume "x \<in> set (out # outs)"
    then show "failures_of (out_key x) ch' = kept_failures now gone x (failures_of (out_key x) ch)"
      using this_one eff(1) ih other by auto
  next
    fix x
    assume "x \<in> set (out # outs)"
    then show "entry_of x st' =
        Some ((fst x)\<lparr>t_unfaithful := verdict x (failures_of (out_key x) ch') (t_unfaithful (fst x))\<rparr>)"
      using this_one eff(2) ih by (auto simp: entry_of_def)
  next
    fix key
    assume k: "key \<notin> set (map out_key (out # outs))"
    then have k': "key \<notin> set (map out_key outs)" "key \<noteq> out_key out" by simp_all
    note rest_key = conjunct2 [OF ih, rule_format, OF k'(1)]
    show "failures_of key ch' = failures_of key ch" using rest_key eff(3) [OF k'(2)] by simp
    assume "addr_ok (fst key)"
    then show "get_transpeer (fst key) (snd key) st' = get_transpeer (fst key) (snd key) st"
      using rest_key eff(4) [of "fst key" "snd key"] k'(2) by simp
  qed
qed simp

lemma dropWhile_old: "sorted xs \<Longrightarrow> dropWhile (\<lambda>t. t < c) xs = filter (\<lambda>t. c \<le> t) (xs :: int list)"
  by (induction xs) (auto intro!: filter_True [symmetric])

text \<open>The failures on record are in the order of their times, and none lies in the future.\<close>

definition failures_ok :: "int \<Rightarrow> challenger \<Rightarrow> bool" where
  "failures_ok now ch \<longleftrightarrow> (\<forall>key. sorted (failures_of key ch) \<and> (\<forall>x \<in> set (failures_of key ch). x \<le> now))"

lemma kept_failures_ok:
  assumes "sorted fs" "\<forall>x \<in> set fs. x \<le> now"
  shows "sorted (kept_failures now gone out fs) \<and> (\<forall>x \<in> set (kept_failures now gone out fs). x \<le> now) \<and>
    length (kept_failures now gone out fs) \<le> length fs + failures_in gone (snd out) \<and>
    (snd out \<noteq> [] \<longrightarrow> (\<forall>x \<in> set (kept_failures now gone out fs). now - FAIL_WINDOW \<le> x))"
proof (cases "snd out = []")
  case True
  then show ?thesis using assms by (simp add: kept_failures_def)
next
  case False
  let ?xs = "fs @ replicate (failures_in gone (snd out)) now"
  have s: "sorted ?xs" using assms by (auto simp: sorted_append)
  have "kept_failures now gone out fs = filter (\<lambda>t. now - FAIL_WINDOW \<le> t) ?xs"
    using False dropWhile_old [OF s] by (simp add: kept_failures_def)
  moreover have "sorted (filter (\<lambda>t. now - FAIL_WINDOW \<le> t) ?xs)" by (rule sorted_wrt_filter) (rule s)
  ultimately show ?thesis using assms length_filter_le [of "\<lambda>t. now - FAIL_WINDOW \<le> t" ?xs] by auto
qed

text \<open>A failure that is tallied is one another transpeer of the round disproved.\<close>

lemma failures_disproved:
  assumes "\<forall>out \<in> set outs. outcome_ok net hour hashes d out" "out \<in> set outs" "distinct hashes"
  shows "failures_in (newly_lost outs) (snd out) \<le> card {h \<in> set hashes. nt_blob net (out_key out) h = None \<and>
     (\<exists>o2 \<in> set outs. nt_blob net (out_key o2) h \<noteq> None)}"
proof -
  let ?S = "{h \<in> set hashes. nt_blob net (out_key out) h = None \<and> (\<exists>o2 \<in> set outs. nt_blob net (out_key o2) h \<noteq> None)}"
  let ?f = "filter (\<lambda>(h, ok). h \<notin> set (newly_lost outs) \<and> \<not> ok) (snd out)"
  obtain e results where o: "out = (e, results)" by (cases out)
  have ok: "distinct (map fst results)" "\<forall>(h, ok) \<in> set results. h \<in> set hashes \<and> (ok \<longleftrightarrow> nt_blob net (out_key out) h \<noteq> None)"
    using bspec [OF assms(1,2)] assms(3) by (auto simp: outcome_ok_def o out_key_def)
  have "h \<in> ?S" if h: "(h, ok) \<in> set ?f" for h ok
  proof -
    from h have m: "(h, ok) \<in> set results" "\<not> ok" "h \<notin> set (newly_lost outs)" by (auto simp: o)
    then have "h \<in> set (map fst (results_of outs))" using assms(2) o by (force simp: results_of_def)
    with m(3) have "\<not> list_all (\<lambda>(h', ok). h' = h \<longrightarrow> \<not> ok) (results_of outs)" by (simp add: newly_lost_def Let_def)
    then obtain o2 ok2 where o2: "o2 \<in> set outs" "(h, ok2) \<in> set (snd o2)" "ok2"
      by (auto simp: list_all_iff results_of_def)
    with assms(1) have "nt_blob net (out_key o2) h \<noteq> None" by (fastforce simp: outcome_ok_def out_key_def)
    with o2 m ok(2) show ?thesis by auto
  qed
  note in_S = this
  have "fst x \<in> ?S" if "x \<in> set ?f" for x
  proof (cases x)
    case (Pair h ok)
    then show ?thesis using in_S [of h ok] that by (simp only: fst_conv)
  qed
  then have sub: "set (map fst ?f) \<subseteq> ?S" by (simp only: set_map image_subset_iff) blast
  have dist: "distinct (map fst ?f)" using ok(1) by (simp add: o distinct_map_filter)
  have "length (map fst ?f) = card (set (map fst ?f))" by (rule distinct_card [OF dist, symmetric])
  also have "\<dots> \<le> card ?S" by (rule card_mono [OF _ sub]) simp
  finally have "length (map fst ?f) \<le> card ?S" .
  then show ?thesis by (simp add: failures_in_def)
qed


section \<open>A round\<close>

lemma verified_hashes_distinct: "dict_ok (db_blobs (rd_blobdb rd)) \<Longrightarrow> distinct (verified_hashes now age rd)"
proof -
  assume d: "dict_ok (db_blobs (rd_blobdb rd))"
  have s: "mset (map fst (sort_key index_key xs)) = mset (map fst xs)" for xs :: "index_row list" by simp
  have "distinct (map fst (index_rows (rd_blobdb rd)))" using d by (simp add: index_rows_def dict_ok_def comp_def case_prod_beta')
  then have "distinct (map fst (sort_key index_key (filter (past_cursor 0 []) (index_rows (rd_blobdb rd)))))"
    using mset_eq_imp_distinct_iff [OF s] distinct_map_filter by blast
  then have "distinct (map fst (index_since 0 (2 ^ 30) [] (rd_blobdb rd)))"
    unfolding index_since_def take_map [symmetric] by (rule distinct_take)
  then show ?thesis unfolding verified_hashes_def by (rule distinct_map_filter)
qed

lemma challengeable_facts:
  assumes "transpeers_ok (s_transpeers st)"
  shows "distinct (map (\<lambda>e. (t_addr e, t_port e)) (challengeable st))"
    "e \<in> set (challengeable st) \<Longrightarrow> addr_ok (t_addr e) \<and> get_transpeer (t_addr e) (t_port e) st = Some e"
proof -
  have k: "(k, t) \<in> set (s_transpeers st) \<Longrightarrow> k = tkey_of (t_addr t) (t_port t) \<and> addr_ok (t_addr t)" for k t
    using assms by (auto simp: transpeers_ok_def tentry_key_def)
  have "map fst (s_transpeers st) = map (\<lambda>e. tkey_of (t_addr e) (t_port e)) (dvals (s_transpeers st))"
    using k by (auto simp: comp_def intro: map_cong)
  then have "distinct (map (\<lambda>e. tkey_of (t_addr e) (t_port e)) (dvals (s_transpeers st)))"
    using assms by (simp only: transpeers_ok_def dict_ok_def)
  then have "distinct (map (\<lambda>(a, p). tkey_of a p) (map (\<lambda>e. (t_addr e, t_port e)) (challengeable st)))"
    unfolding challengeable_def by (simp add: comp_def distinct_map_filter)
  then show "distinct (map (\<lambda>e. (t_addr e, t_port e)) (challengeable st))" by (simp only: distinct_map)
  assume "e \<in> set (challengeable st)"
  then obtain k where "(k, e) \<in> set (s_transpeers st)" by (auto simp: challengeable_def)
  with k assms show "addr_ok (t_addr e) \<and> get_transpeer (t_addr e) (t_port e) st = Some e"
    using dict_ok_dget [of "s_transpeers st" k e] by (auto simp: transpeers_ok_def get_transpeer_def)
qed

definition recent_failures :: "int \<Rightarrow> entry \<Rightarrow> challenger \<Rightarrow> int list" where
  "recent_failures now key ch = filter (\<lambda>x. now - FAIL_WINDOW \<le> x) (failures_of key ch)"

text \<open>The verified hashes the transpeer did not serve and another one of the round did.\<close>

definition disproved :: "network \<Rightarrow> int \<Rightarrow> challenger \<Rightarrow> anchor_reader \<Rightarrow> entry \<Rightarrow> bytes set" where
  "disproved net now ch rd key = {h \<in> set (verified_hashes now MIN_AGE rd). h \<notin> set (ch_lost ch) \<and> nt_blob net key h = None \<and>
     (\<exists>e \<in> set (challengeable (rd_store rd)). nt_blob net (t_addr e, t_port e) h \<noteq> None)}"

lemma disproved_finite: "finite (disproved net now ch rd key)"
  by (simp add: disproved_def)

text \<open>C34. A round of challenges flips the flag of a transpeer only on evidence: to unfaithful when at least three failures of the
  last day are on record, back when none is; nothing else of the entry changes. And a failure goes on record only for a verified
  hash that is not lost, that the transpeer did not serve and that another live transpeer did serve: what nobody serves is held
  against nobody.\<close>

theorem challenge_verdict:
  assumes "transpeers_ok (s_transpeers (rd_store rd))" "dict_ok (db_blobs (rd_blobdb rd))" "failures_ok now ch"
    "challenge_round net now rs ch rd = (ch', rd')" "get_transpeer a p (rd_store rd) = Some t" "addr_ok a"
  shows "failures_ok now ch' \<and>
    (\<exists>u. get_transpeer a p (rd_store rd') = Some (t\<lparr>t_unfaithful := u\<rparr>) \<and>
       (u \<and> \<not> t_unfaithful t \<longrightarrow> FAIL_LIMIT \<le> length (recent_failures now (a, p) ch')) \<and>
       (\<not> u \<and> t_unfaithful t \<longrightarrow> recent_failures now (a, p) ch' = [])) \<and>
    length (failures_of (a, p) ch') \<le> length (failures_of (a, p) ch) + card (disproved net now ch rd (a, p))"
proof -
  let ?vs = "filter (\<lambda>h. h \<notin> set (ch_lost ch)) (verified_hashes now MIN_AGE rd)"
  obtain outs d where q: "ask_round net now rs (verified_hashes now MIN_AGE rd) ch (rd_store rd) = (outs, d)"
    by (cases "ask_round net now rs (verified_hashes now MIN_AGE rd) ch (rd_store rd)")
  note cf = challengeable_facts [OF assms(1)]
  from challenge_all_ok [OF q [unfolded ask_round_def] cf(1)]
  have outs: "map fst outs = challengeable (rd_store rd)" "\<forall>out \<in> set outs. outcome_ok net (hour_of now) ?vs (ch_asked ch) out"
    by auto
  have vs: "distinct ?vs" using verified_hashes_distinct [OF assms(2)] by simp
  have keys: "distinct (map out_key outs)"
    using cf(1) unfolding outs(1) [symmetric] by (simp add: out_key_def [abs_def] comp_def)
  have stored: "\<forall>out \<in> set outs. addr_ok (t_addr (fst out)) \<and> entry_of out (rd_store rd) = Some (fst out)"
    using cf(2) unfolding outs(1) [symmetric] by (auto simp: entry_of_def)
  obtain ch0 where ch0: "tally now outs (ch\<lparr>ch_asked := d\<rparr>, rd_store rd) =
      fold (tally_one now (newly_lost outs)) outs (ch0, rd_store rd)" "ch_failures ch0 = ch_failures ch"
    by (simp add: tally_def Let_def)
  then have old: "failures_of key ch0 = failures_of key ch" for key by (simp add: failures_of_def)
  obtain st' where f: "fold (tally_one now (newly_lost outs)) outs (ch0, rd_store rd) = (ch', st')" "rd_store rd' = st'"
    using assms(4) q ch0(1) by (auto simp: challenge_round_def split: prod.splits)
  note tf = tally_fold [OF f(1) keys stored, unfolded old]
  have okch: "sorted (failures_of key ch)" "\<forall>x \<in> set (failures_of key ch). x \<le> now" for key
    using assms(3) unfolding failures_ok_def by blast+
  have "failures_ok now ch'"
    unfolding failures_ok_def
  proof
    fix key
    show "sorted (failures_of key ch') \<and> (\<forall>x \<in> set (failures_of key ch'). x \<le> now)"
    proof (cases "key \<in> set (map out_key outs)")
      case True
      then obtain out where "out \<in> set outs" "key = out_key out" by auto
      with tf have "failures_of key ch' = kept_failures now (newly_lost outs) out (failures_of key ch)" by simp
      then show ?thesis using kept_failures_ok [OF okch] by simp
    next
      case False
      from conjunct2 [OF tf, rule_format, OF this] show ?thesis using okch [of key] by simp
    qed
  qed
  moreover have "(\<exists>u. get_transpeer a p st' = Some (t\<lparr>t_unfaithful := u\<rparr>) \<and>
       (u \<and> \<not> t_unfaithful t \<longrightarrow> FAIL_LIMIT \<le> length (recent_failures now (a, p) ch')) \<and>
       (\<not> u \<and> t_unfaithful t \<longrightarrow> recent_failures now (a, p) ch' = [])) \<and>
    length (failures_of (a, p) ch') \<le> length (failures_of (a, p) ch) + card (disproved net now ch rd (a, p))"
  proof (cases "(a, p) \<in> set (map out_key outs)")
    case True
    then obtain out where out: "out \<in> set outs" "out_key out = (a, p)" by auto
    then have t: "fst out = t" using stored assms(5) by (auto simp: entry_of_def out_key_def)
    let ?fs = "failures_of (a, p) ch'"
    have fs: "?fs = kept_failures now (newly_lost outs) out (failures_of (a, p) ch)"
      and g: "get_transpeer a p st' = Some (t\<lparr>t_unfaithful := verdict out ?fs (t_unfaithful t)\<rparr>)"
      using tf out t by (auto simp: entry_of_def out_key_def)
    note kept = kept_failures_ok [OF okch [of "(a, p)"], of "newly_lost outs" out, folded fs]
    have r: "snd out \<noteq> [] \<Longrightarrow> recent_failures now (a, p) ch' = ?fs"
      using kept by (simp add: recent_failures_def)
    have "{h \<in> set ?vs. nt_blob net (out_key out) h = None \<and> (\<exists>o2 \<in> set outs. nt_blob net (out_key o2) h \<noteq> None)} \<subseteq>
        disproved net now ch rd (a, p)"
      unfolding disproved_def outs(1) [symmetric] using out by (auto simp: out_key_def)
    then have "failures_in (newly_lost outs) (snd out) \<le> card (disproved net now ch rd (a, p))"
      using failures_disproved [OF outs(2) out(1) vs] by (meson card_mono finite_subset le_trans
          disproved_finite)
    moreover have "(verdict out ?fs (t_unfaithful t) \<and> \<not> t_unfaithful t \<longrightarrow> FAIL_LIMIT \<le> length (recent_failures now (a, p) ch')) \<and>
        (\<not> verdict out ?fs (t_unfaithful t) \<and> t_unfaithful t \<longrightarrow> recent_failures now (a, p) ch' = [])"
      using r by (cases "snd out = []") (simp_all add: verdict_def)
    ultimately show ?thesis using g kept by (intro conjI exI [of _ "verdict out ?fs (t_unfaithful t)"]) auto
  next
    case False
    then have "failures_of (a, p) ch' = failures_of (a, p) ch" "get_transpeer a p st' = Some t"
      using tf assms(5,6) by fastforce+
    moreover have "t\<lparr>t_unfaithful := t_unfaithful t\<rparr> = t" by simp
    ultimately show ?thesis by (intro conjI exI [of _ "t_unfaithful t"]) simp_all
  qed
  ultimately show ?thesis using f(2) by simp
qed


text \<open>Two live transpeers and three verified hashes, which the second serves and the first does not.\<close>

definition chal_net :: network where
  "chal_net = \<lparr> nt_tip = \<lambda>_ _. None, nt_headers = \<lambda>_ _ _ _. [], nt_venues = \<lambda>_. [], nt_block = \<lambda>_ _ _. None,
     nt_share = \<lambda>_ _ _. None, nt_shares = \<lambda>_ _ _ _. [], nt_share_by_root = \<lambda>_ _ _. None,
     nt_blob = \<lambda>src h. if fst src = ''5.6.7.8'' then Some h else None, nt_index = \<lambda>_ _ _. ([], None, None) \<rparr>"

definition chal_entry :: "string \<Rightarrow> tentry" where
  "chal_entry a = (new_tentry a 18080)\<lparr>t_alive := True, t_uptime := 7200\<rparr>"

definition chal_row :: "bytes \<Rightarrow> blob_row" where
  "chal_row h = \<lparr> br_body = h, br_period = 0, br_first_seen = 10, br_commitments = [\<lparr> co_hash = h, co_kind = ''share'',
     co_venue = [], co_ref = [], co_publisher = [], co_difficulty = 1, co_timestamp = 0, co_proof = [], co_path = 0 \<rparr>] \<rparr>"

definition chal_reader :: anchor_reader where
  "chal_reader = \<lparr> rd_store = (empty_store default_config)\<lparr>s_transpeers :=
       map (\<lambda>a. (tentry_key (chal_entry a), chal_entry a)) [''1.2.3.4'', ''5.6.7.8'']\<rparr>,
     rd_blobdb = empty_db\<lparr>db_blobs := map (\<lambda>h. (h, chal_row h)) [[1], [2], [3]]\<rparr>,
     rd_anchor = empty_anchor, rd_shares = [], rd_disk = \<lambda>_. None, rd_state = new_reader_state, rd_discovered = [],
     rd_cursors = [] \<rparr>"

lemma challenge_verdict_witness:
  "\<exists>ch' rd' u. challenge_round chal_net 100000 [0, 0, 0, 0, 0, 0] new_challenger chal_reader = (ch', rd') \<and> failures_ok 100000 ch' \<and>
     get_transpeer ''1.2.3.4'' 18080 (rd_store rd') = Some ((chal_entry ''1.2.3.4'')\<lparr>t_unfaithful := u\<rparr>) \<and>
     (u \<longrightarrow> FAIL_LIMIT \<le> length (recent_failures 100000 (''1.2.3.4'', 18080) ch')) \<and>
     length (failures_of (''1.2.3.4'', 18080) ch') \<le>
       card (disproved chal_net 100000 new_challenger chal_reader (''1.2.3.4'', 18080))"
proof -
  have h: "transpeers_ok (s_transpeers (rd_store chal_reader))" "dict_ok (db_blobs (rd_blobdb chal_reader))"
    "failures_ok 100000 new_challenger"
    "get_transpeer ''1.2.3.4'' 18080 (rd_store chal_reader) = Some (chal_entry ''1.2.3.4'')" "addr_ok ''1.2.3.4''"
    by (simp_all add: chal_reader_def transpeers_ok_def dict_ok_def addr_ok_def chal_entry_def new_tentry_def tentry_key_def
        tkey_of_def failures_ok_def failures_of_def new_challenger_def get_transpeer_def)
  obtain ch' rd' where r: "challenge_round chal_net 100000 [0, 0, 0, 0, 0, 0] new_challenger chal_reader = (ch', rd')"
    by (cases "challenge_round chal_net 100000 [0, 0, 0, 0, 0, 0] new_challenger chal_reader")
  have "failures_of (''1.2.3.4'', 18080) new_challenger = []" "\<not> t_unfaithful (chal_entry ''1.2.3.4'')"
    by (simp_all add: failures_of_def new_challenger_def chal_entry_def new_tentry_def)
  with challenge_verdict [OF h(1-3) r h(4,5)] r show ?thesis by auto
qed

end
