(* ===== verification/Scanner.thy ===== *)
theory Scanner
  imports Client StoreInvariants
begin

text \<open>
  \<open>transpeer/scanner.py\<close>: blind scanning and the probing of candidates, and \<open>transpeer/verifier.py\<close>: the liveness check of the
  stored peers. Probes run at the same time; the order in which their answers are worked on is an argument, as are the
  answers. The generators of addresses are in the theory of the ranges.
\<close>

section \<open>The scanner\<close>

text \<open>\<open>sc_idle\<close> is the mode logged last.\<close>

record scanner =
  sc_exclude :: "(nat \<times> nat) list"
  sc_idle :: "bool option"
  sc_node_id :: string
  sc_interval :: int

definition new_scanner :: "config \<Rightarrow> string \<Rightarrow> scanner result" where
  "new_scanner cfg node_id =
     bindR (if c_scan_legacy cfg then Inr [] else load_exclusions (c_scan_exclude cfg)) (\<lambda>ex.
       Inr \<lparr> sc_exclude = ex, sc_idle = None, sc_node_id = node_id, sc_interval = SCAN_INTERVAL \<rparr>)"

text \<open>What the network answers to a probe, and the draws.\<close>

record probe_env =
  pe_open :: "string \<Rightarrow> bool"
  pe_reply :: "string \<Rightarrow> reply option"
  pe_now :: int
  pe_rand :: "nat \<Rightarrow> rand"
  pe_order :: "string list \<Rightarrow> string list"

definition probe_ip :: "config \<Rightarrow> probe_env \<Rightarrow> string \<Rightarrow> nat \<Rightarrow> string \<Rightarrow> store \<Rightarrow> bool result \<times> store" where
  "probe_ip cfg env node_id i addr st =
     (if \<not> pe_open env addr then (Inr False, st)
      else (case probe_transpeer addr TRANSPEER_PORT (pe_now env) (pe_reply env addr) of
          None \<Rightarrow> (Inr False, st)
        | Some entry \<Rightarrow>
            if t_node_id entry = node_id then (Inr False, st)
            else add_transpeer cfg (pe_now env) entry False (pe_rand env i) st))"

text \<open>An explicit range is the operator's own choice; otherwise \<^const>\<open>None\<close> means that the draws have run out.\<close>

definition generate_ip :: "config \<Rightarrow> scanner \<Rightarrow> rand \<Rightarrow> string result option" where
  "generate_ip cfg sc rs = (case c_scan_range cfg of
     Some r \<Rightarrow> (if r = [] then map_option Inr (random_ip (sc_exclude sc) (\<not> c_scan_legacy cfg) rs)
       else Some (random_ip_in_cidr r rs))
   | None \<Rightarrow> map_option Inr (random_ip (sc_exclude sc) (\<not> c_scan_legacy cfg) rs))"

definition current_rate :: "config \<Rightarrow> bool option \<Rightarrow> store \<Rightarrow> scanner \<Rightarrow> rat \<times> scanner" where
  "current_rate cfg idle_fn st sc =
     (let idle = (case idle_fn of Some b \<Rightarrow> b | None \<Rightarrow> int (live_transpeer_count st) \<ge> c_scan_target_known cfg)
      in (if idle then c_scan_idle_rate cfg else c_scan_rate cfg, sc\<lparr>sc_idle := Some idle\<rparr>))"

definition batch_size :: "config \<Rightarrow> bool option \<Rightarrow> store \<Rightarrow> scanner \<Rightarrow> int result \<times> scanner" where
  "batch_size cfg idle_fn st sc =
     (if c_scan_legacy cfg then
        (case c_scan_range cfg of
           None \<Rightarrow> (Inr SCAN_CONCURRENCY, sc)
         | Some r \<Rightarrow> if r = [] then (Inr SCAN_CONCURRENCY, sc)
             else (case ipv4_network r of
                 None \<Rightarrow> (Inl (ValueError ''not an IPv4 prefix''), sc)
               | Some net \<Rightarrow> (Inr (min SCAN_CONCURRENCY (max 1 ((int (num_addresses net) - 2) div 2))), sc)))
      else (case current_rate cfg idle_fn st sc of (rate, sc) \<Rightarrow>
        if rate \<le> 0 then (Inr 0, sc)
        else (Inr (max 1 (min SCAN_CONCURRENCY (round_even (fmul rate (of_int (sc_interval sc)))))), sc)))"

text \<open>At most \<open>attempts\<close> more addresses are drawn; the set of those found is kept in the order of the draws.\<close>

fun scan_ips :: "config \<Rightarrow> scanner \<Rightarrow> (nat \<Rightarrow> rand) \<Rightarrow> nat \<Rightarrow> int \<Rightarrow> string list \<Rightarrow> string list result option" where
  "scan_ips cfg sc draws 0 ct ips = Some (Inr ips)"
| "scan_ips cfg sc draws (Suc attempts) ct ips =
     (case generate_ip cfg sc (draws attempts) of
        None \<Rightarrow> None
      | Some (Inl e) \<Rightarrow> Some (Inl e)
      | Some (Inr ip) \<Rightarrow>
          (let ips = (if ip \<in> set ips then ips else ips @ [ip]) in
           if int (length ips) \<ge> ct then Some (Inr ips) else scan_ips cfg sc draws attempts ct ips))"

text \<open>The answers are worked on in the order given; an exception ends its own probe only.\<close>

fun scan_probes :: "config \<Rightarrow> probe_env \<Rightarrow> string \<Rightarrow> nat \<Rightarrow> string list \<Rightarrow> store \<Rightarrow> nat \<times> store" where
  "scan_probes cfg env node_id i [] st = (0, st)"
| "scan_probes cfg env node_id i (ip # ips) st =
     (case probe_ip cfg env node_id i ip st of (r, st) \<Rightarrow>
      case scan_probes cfg env node_id (i + 1) ips st of (n, st) \<Rightarrow> (if r = Inr True then n + 1 else n, st))"

definition scan_batch :: "config \<Rightarrow> bool option \<Rightarrow> (nat \<Rightarrow> rand) \<Rightarrow> probe_env \<Rightarrow> scanner \<Rightarrow> store \<Rightarrow> nat result option \<times> scanner \<times> store" where
  "scan_batch cfg idle_fn draws env sc st =
     (case batch_size cfg idle_fn st sc of
        (Inl e, sc) \<Rightarrow> (Some (Inl e), sc, st)
      | (Inr ct, sc) \<Rightarrow>
          if ct \<le> 0 then (Some (Inr 0), sc, st)
          else (case scan_ips cfg sc draws (nat (ct * 2)) ct [] of
              None \<Rightarrow> (None, sc, st)
            | Some (Inl e) \<Rightarrow> (Some (Inl e), sc, st)
            | Some (Inr ips) \<Rightarrow> (case scan_probes cfg env (sc_node_id sc) 0 (pe_order env ips) st of
                (found, st) \<Rightarrow> (Some (Inr found), sc, st))))"

fun add_probed :: "config \<Rightarrow> probe_env \<Rightarrow> nat \<Rightarrow> string list \<Rightarrow> store \<Rightarrow> unit result \<times> store" where
  "add_probed cfg env i [] st = (Inr (), st)"
| "add_probed cfg env i (addr # addrs) st =
     (case probe_transpeer addr TRANSPEER_PORT (pe_now env) (pe_reply env addr) of
        None \<Rightarrow> add_probed cfg env (i + 1) addrs st
      | Some entry \<Rightarrow> (case add_transpeer cfg (pe_now env) entry False (pe_rand env i) st of
            (Inl e, st) \<Rightarrow> (Inl e, st)
          | (Inr b, st) \<Rightarrow> add_probed cfg env (i + 1) addrs st))"

definition probe_candidates :: "config \<Rightarrow> probe_env \<Rightarrow> store \<Rightarrow> unit result \<times> store" where
  "probe_candidates cfg env st = (case pop_candidates 50 st of (addrs, st) \<Rightarrow> add_probed cfg env 0 addrs st)"

section \<open>The verifier\<close>

text \<open>\<open>alive\<close> is the handshake of the network's plugin or the connect check, which may raise.\<close>

definition verify_one :: "config \<Rightarrow> int \<Rightarrow> (string \<Rightarrow> int \<Rightarrow> bool result) \<Rightarrow> peer \<Rightarrow> store \<Rightarrow> store" where
  "verify_one cfg now alive p st =
     (if is_reserved_address (p_addr p) then mark_dead cfg now (p_network p) (p_addr p) (p_port p) st
      else (case alive (p_addr p) (p_port p) of
          Inl e \<Rightarrow> st
        | Inr True \<Rightarrow> mark_verified cfg now (p_network p) (p_addr p) (p_port p) st
        | Inr False \<Rightarrow> mark_dead cfg now (p_network p) (p_addr p) (p_port p) st))"

definition verify_peers :: "config \<Rightarrow> int \<Rightarrow> (peer list \<Rightarrow> peer list) \<Rightarrow> (string \<Rightarrow> int \<Rightarrow> bool result) \<Rightarrow> string \<Rightarrow> store \<Rightarrow> store" where
  "verify_peers cfg now order alive network st =
     fold (verify_one cfg now alive) (order (fst (get_peers cfg network False None [] st))) st"

section \<open>What is probed\<close>

lemma scan_ips_sound:
  "scan_ips cfg sc draws attempts ct ips = Some (Inr out) \<Longrightarrow> distinct ips \<Longrightarrow> int (length ips) < ct \<Longrightarrow>
     distinct out \<and> int (length out) \<le> ct \<and> set ips \<subseteq> set out \<and>
     (\<forall>ip \<in> set out - set ips. \<exists>rs. generate_ip cfg sc rs = Some (Inr ip))"
proof (induction attempts arbitrary: ips)
  case (Suc n)
  from Suc.prems(1) obtain ip where g: "generate_ip cfg sc (draws n) = Some (Inr ip)"
    by (auto split: option.splits sum.splits)
  let ?ips = "if ip \<in> set ips then ips else ips @ [ip]"
  have d: "distinct ?ips" "set ips \<subseteq> set ?ips" "set ?ips - set ips \<subseteq> {ip}" "int (length ?ips) \<le> ct"
    using Suc.prems by auto
  show ?case
  proof (cases "int (length ?ips) \<ge> ct")
    case True
    then have "out = ?ips" using Suc.prems(1) g by (simp add: Let_def split: if_splits)
    then show ?thesis using d g by auto
  next
    case False
    then have "scan_ips cfg sc draws n ct ?ips = Some (Inr out)" using Suc.prems(1) g by (simp add: Let_def split: if_splits)
    from Suc.IH [OF this d(1)] False show ?thesis using d g by (cases "ip \<in> set ips") auto
  qed
qed simp

lemma batch_size_bounds:
  assumes "batch_size cfg idle_fn st sc = (Inr ct, sc')"
  shows "ct \<le> SCAN_CONCURRENCY \<and> sc_exclude sc' = sc_exclude sc \<and>
    (\<not> c_scan_legacy cfg \<longrightarrow> (ct = 0 \<longleftrightarrow> fst (current_rate cfg idle_fn st sc) \<le> 0))"
  using assms by (auto simp: batch_size_def current_rate_def SCAN_CONCURRENCY_def Let_def split: if_splits option.splits)


text \<open>An address blind scanning may contact under the exclusion ranges.\<close>

definition may_probe :: "config \<Rightarrow> scanner \<Rightarrow> string \<Rightarrow> bool" where
  "may_probe cfg sc a \<longleftrightarrow> (\<exists>n. ipv4_of_string a = Some n \<and> scan_target_ok (sc_exclude sc) (\<not> c_scan_legacy cfg) n)"

definition blind :: "config \<Rightarrow> bool" where
  "blind cfg \<longleftrightarrow> c_scan_range cfg = None \<or> c_scan_range cfg = Some []"

lemma generate_ip_allowed: "blind cfg \<Longrightarrow> generate_ip cfg sc rs = Some (Inr ip) \<Longrightarrow> may_probe cfg sc ip"
  using random_ip_Some by (auto simp: generate_ip_def blind_def may_probe_def)

text \<open>Two environments a batch cannot tell apart.\<close>

definition same_world :: "(string \<Rightarrow> bool) \<Rightarrow> probe_env \<Rightarrow> probe_env \<Rightarrow> bool" where
  "same_world ok env env' \<longleftrightarrow> pe_now env' = pe_now env \<and> pe_rand env' = pe_rand env \<and> pe_order env' = pe_order env \<and>
     (\<forall>a. ok a \<longrightarrow> pe_open env' a = pe_open env a \<and> pe_reply env' a = pe_reply env a)"

lemma probe_ip_cong: "same_world ok env env' \<Longrightarrow> ok a \<Longrightarrow> probe_ip cfg env' n i a st = probe_ip cfg env n i a st"
proof -
  assume "same_world ok env env'" "ok a"
  then have "pe_open env' a = pe_open env a" "pe_reply env' a = pe_reply env a" "pe_now env' = pe_now env" "pe_rand env' = pe_rand env"
    by (simp_all add: same_world_def)
  then show ?thesis by (simp only: probe_ip_def)
qed

lemma scan_probes_cong:
  "same_world ok env env' \<Longrightarrow> \<forall>a \<in> set ips. ok a \<Longrightarrow> scan_probes cfg env' n i ips st = scan_probes cfg env n i ips st"
  by (induction ips arbitrary: i st) (simp_all add: probe_ip_cong)

lemma scan_batch_ips:
  assumes "batch_size cfg idle_fn st sc = (Inr ct, sc')" "0 < ct" "blind cfg"
    "scan_ips cfg sc' draws (nat (ct * 2)) ct [] = Some (Inr ips)"
  shows "distinct ips \<and> int (length ips) \<le> SCAN_CONCURRENCY \<and> (\<forall>ip \<in> set ips. may_probe cfg sc ip)"
proof -
  note b = batch_size_bounds [OF assms(1)]
  from scan_ips_sound [OF assms(4)] assms(2) have s: "distinct ips" "int (length ips) \<le> ct"
    "\<forall>ip \<in> set ips. \<exists>rs. generate_ip cfg sc' rs = Some (Inr ip)" by auto
  then have "\<forall>ip \<in> set ips. may_probe cfg sc' ip" using generate_ip_allowed [OF assms(3)] by blast
  then show ?thesis using b s by (auto simp: may_probe_def)
qed


text \<open>A new node that knows nobody, with a file of two exclusions; 6.1.2.3 answers in one world and not in the other.\<close>

definition wit_scan :: config where
  "wit_scan = default_config\<lparr>c_scan_exclude := Some [''# mine'', ''198.18.0.0/15 # lab'']\<rparr>"

definition wit_world :: "string list \<Rightarrow> probe_env" where
  "wit_world up = \<lparr> pe_open = \<lambda>a. a \<in> set up, pe_reply = \<lambda>_. None, pe_now = 0, pe_rand = \<lambda>_. [], pe_order = \<lambda>xs. xs \<rparr>"

lemma wit_target: "ipv4_of_string ''6.1.2.3'' = Some 100729347" "in_ranges 100729347 SENSITIVE_RANGES"
  by (simp_all add: in_ranges_def SENSITIVE_RANGES_def SENSITIVE_CIDRS_def Let_def ipv4_network_def ipv4_of_string_def prefix_of_string_def net_of_def parse_octet_def is_digit_def digits_val_def digit_val_def broadcast_of_def)

lemma wit_lines: "ipv4_network ''198.18.0.0/15'' = Some (3323068416, 15)" "exclusion_line ''# mine'' = []"
  "exclusion_line ''198.18.0.0/15 # lab'' = ''198.18.0.0/15''"
  by (simp_all add: exclusion_line_def strip_def is_space_def ipv4_network_def ipv4_of_string_def prefix_of_string_def net_of_def parse_octet_def is_digit_def digits_val_def digit_val_def broadcast_of_def)


text \<open>Likewise the verifier never probes a reserved address: such a peer is marked dead without a probe.\<close>

lemma verify_stays_out:
  assumes "\<forall>a q. \<not> is_reserved_address a \<longrightarrow> alive' a q = alive a q"
  shows "verify_peers cfg now order alive' network st = verify_peers cfg now order alive network st"
proof -
  have "verify_one cfg now alive' p st = verify_one cfg now alive p st" for p st
    using assms by (simp add: verify_one_def)
  then have "verify_one cfg now alive' = verify_one cfg now alive" by blast
  then show ?thesis by (simp add: verify_peers_def)
qed

end
