(* ===== verification/AuxRpc.thy ===== *)
theory AuxRpc
  imports Publisher Http Weight
begin

text \<open>
  \<open>transpeer/anchor/auxrpc.py\<close>: the JSON-RPC server a local P2Pool polls for the list to commit to and reports solutions to.
  A rejection is an answer, every other exception ends the request. The route table is aiohttp's; the text of a request is
  parsed by the standard library, so the handler starts from the parsed document.
\<close>

section \<open>State\<close>

definition MAX_TEMPLATE_RECORDS :: nat where "MAX_TEMPLATE_RECORDS = 64"

record aux_stats =
  as_get_aux_block :: nat
  as_changed :: nat
  as_submit :: nat
  as_submit_rejected :: nat

record aux_server =
  ax_store :: store
  ax_publisher :: publisher
  ax_db :: blob_db
  ax_stats :: aux_stats

definition new_aux_server :: "store \<Rightarrow> publisher \<Rightarrow> blob_db \<Rightarrow> aux_server" where
  "new_aux_server st pb db = \<lparr> ax_store = st, ax_publisher = pb, ax_db = db,
     ax_stats = \<lparr> as_get_aux_block = 0, as_changed = 0, as_submit = 0, as_submit_rejected = 0 \<rparr> \<rparr>"

text \<open>\<open>_Reject\<close> is caught by the dispatcher.\<close>

datatype aux_error = Reject string | Raised exn

type_synonym aux_step = "(aux_error + json) \<times> aux_server"

definition reject :: "string \<Rightarrow> aux_server \<Rightarrow> aux_step" where
  "reject reason s = (Inl (Reject reason),
     s\<lparr>ax_stats := (ax_stats s)\<lparr>as_submit_rejected := as_submit_rejected (ax_stats s) + 1\<rparr>\<rparr>)"

section \<open>The block to commit to\<close>

definition set_address :: "json \<Rightarrow> aux_server \<Rightarrow> aux_server" where
  "set_address params s = (case obj_get ''address'' params of
     Some (JStr addr) \<Rightarrow> if addr \<noteq> [] then s\<lparr>ax_publisher := (ax_publisher s)\<lparr>pb_address := addr\<rparr>\<rparr> else s
   | _ \<Rightarrow> s)"

definition get_aux_block :: "config \<Rightarrow> rat \<Rightarrow> json \<Rightarrow> aux_server \<Rightarrow> aux_step" where
  "get_aux_block cfg now params s =
     (let s = s\<lparr>ax_stats := (ax_stats s)\<lparr>as_get_aux_block := as_get_aux_block (ax_stats s) + 1\<rparr>\<rparr> in
      if \<not> is_obj params then (Inl (Raised (AttributeError ''get'')), s)
      else (let s = set_address params s in
        case refresh cfg (ax_db s) now (ax_store s, ax_publisher s) of
          (Inl e, st, pb) \<Rightarrow> (Inl (Raised e), s\<lparr>ax_store := st, ax_publisher := pb\<rparr>)
        | (Inr b, st, pb) \<Rightarrow>
            (let s = s\<lparr>ax_store := st, ax_publisher := pb\<rparr> in
             case pb_current now (ax_publisher s) of
               Inl e \<Rightarrow> (Inl (Raised e), s)
             | Inr (None, pb) \<Rightarrow> (Inr (JObj []), s\<lparr>ax_publisher := pb\<rparr>)
             | Inr (Some (h, blob), pb) \<Rightarrow>
                 (let s = s\<lparr>ax_publisher := pb\<rparr> in
                  if obj_get ''aux_hash'' params = Some (JStr (hex_of h)) then (Inr (JObj []), s)
                  else (Inr (JObj [(''aux_blob'', JStr (hex_of blob)), (''aux_diff'', JInt (c_aux_diff cfg)),
                           (''aux_hash'', JStr (hex_of h))]),
                        s\<lparr>ax_stats := (ax_stats s)\<lparr>as_changed := as_changed (ax_stats s) + 1\<rparr>\<rparr>)))))"

section \<open>Solutions\<close>

record aux_solution =
  xs_hash :: bytes
  xs_aux_blob :: bytes
  xs_blob :: bytes
  xs_proof :: "bytes list"
  xs_path :: int
  xs_seed :: bytes

definition solution_params :: "json \<Rightarrow> aux_solution result" where
  "solution_params p =
     bindR (bindR (json_get ''aux_hash'' p) json_hex) (\<lambda>aux_hash.
     bindR (bindR (json_get ''aux_blob'' p) json_hex) (\<lambda>aux_blob.
     bindR (bindR (json_get ''blob'' p) json_hex) (\<lambda>blob.
     bindR (bindR (bindR (json_get ''merkle_proof'' p) py_iter) (mapR json_hex)) (\<lambda>proof.
     bindR (bindR (json_get ''path'' p) json_int) (\<lambda>path.
     bindR (bindR (json_get_or ''seed_hash'' (JStr []) p) json_hex) (\<lambda>seed.
       Inr \<lparr> xs_hash = aux_hash, xs_aux_blob = aux_blob, xs_blob = blob, xs_proof = proof, xs_path = path, xs_seed = seed \<rparr>))))))"

definition template_count :: "bytes \<Rightarrow> blob_db \<Rightarrow> nat" where
  "template_count h db = length (filter (\<lambda>c. co_kind c = ''template'') (db_commitments h db))"

definition solution_of :: "aux_solution \<Rightarrow> block_head \<Rightarrow> mm_tag \<Rightarrow> string \<Rightarrow> int \<Rightarrow> solution" where
  "solution_of x head tag address now = \<lparr> so_aux_hash = xs_hash x, so_height = int (bh_height head), so_prev_id = bh_prev_id head,
     so_timestamp = int (bh_timestamp head), so_root = mt_root tag, so_proof = xs_proof x, so_path = xs_path x,
     so_seed_hash = xs_seed x, so_address = address, so_received = now \<rparr>"

definition template_commitment :: "config \<Rightarrow> aux_solution \<Rightarrow> block_head \<Rightarrow> string \<Rightarrow> commitment" where
  "template_commitment cfg x head address = \<lparr> co_hash = xs_hash x, co_kind = ''template'', co_venue = ''local'',
     co_ref = ''template:'' @ str_nat (bh_height head) @ '':'' @ hex_of (bh_prev_id head), co_publisher = address,
     co_difficulty = c_aux_diff cfg, co_timestamp = int (bh_timestamp head), co_proof = xs_proof x, co_path = xs_path x \<rparr>"

definition accept_solution :: "config \<Rightarrow> rat \<Rightarrow> aux_solution \<Rightarrow> block_head \<Rightarrow> mm_tag \<Rightarrow> aux_server \<Rightarrow> aux_step" where
  "accept_solution cfg now x head tag s =
     (let address = pb_address (ax_publisher s);
          s = s\<lparr>ax_publisher := record_solution (solution_of x head tag address (trunc now)) (ax_publisher s)\<rparr>
      in case db_add (xs_aux_blob x) (template_commitment cfg x head address) (trunc now) (ax_db s) of
           Inl e \<Rightarrow> (Inl (Raised e), s)
         | Inr (ok, db) \<Rightarrow> (Inr (JObj [(''status'', JStr ''accepted'')]), s\<lparr>ax_db := db\<rparr>))"

definition submit_solution :: "config \<Rightarrow> rat \<Rightarrow> json \<Rightarrow> aux_server \<Rightarrow> aux_step" where
  "submit_solution cfg now params s =
     (let s = s\<lparr>ax_stats := (ax_stats s)\<lparr>as_submit := as_submit (ax_stats s) + 1\<rparr>\<rparr> in
      case solution_params params of
        Inl e \<Rightarrow> if load_caught e then reject ''malformed params'' s else (Inl (Raised e), s)
      | Inr x \<Rightarrow>
          if pb_lookup (xs_hash x) (ax_publisher s) \<noteq> Some (xs_aux_blob x) then reject ''unknown aux_hash or blob mismatch'' s
          else (case parse_block_blob (xs_blob x) of
              Inl e \<Rightarrow> if is_value_error e then reject ''bad block blob'' s else (Inl (Raised e), s)
            | Inr head \<Rightarrow> (case parse_tx_extra_mm_tag (bh_tx_extra head) of
                  None \<Rightarrow> reject ''no merge-mining tag in coinbase'' s
                | Some tag \<Rightarrow>
                    if \<not> verify_merkle_proof (xs_hash x) (xs_proof x) (nat (xs_path x mod 2 ^ length (xs_proof x))) (mt_root tag)
                    then reject ''merkle proof does not reach the tag root'' s
                    else if template_count (xs_hash x) (ax_db s) \<ge> MAX_TEMPLATE_RECORDS
                    then reject ''too many template records for this blob'' s
                    else accept_solution cfg now x head tag s)))"

section \<open>The dispatcher\<close>

definition rpc_reply :: "json \<Rightarrow> string \<Rightarrow> json \<Rightarrow> json" where
  "rpc_reply rid k v = JObj [(''jsonrpc'', JStr ''2.0''), (''id'', rid), (k, v)]"

definition rpc_error :: "json \<Rightarrow> int \<Rightarrow> string \<Rightarrow> json" where
  "rpc_error rid code msg = rpc_reply rid ''error'' (JObj [(''code'', JInt code), (''message'', JStr msg)])"

definition rpc_method :: "config \<Rightarrow> rat \<Rightarrow> json \<Rightarrow> aux_server \<Rightarrow> aux_step option" where
  "rpc_method cfg now req s =
     (let params = (case obj_get ''params'' req of Some p \<Rightarrow> if json_truthy p then p else JObj [] | None \<Rightarrow> JObj []) in
      case obj_get ''method'' req of
        Some (JStr m) \<Rightarrow>
          if m = ''merge_mining_get_chain_id''
          then Some (Inr (JObj [(''chain_id'', JStr (hex_of CHAIN_ID)), (''ticker'', JStr ''TPL'')]), s)
          else if m = ''merge_mining_get_aux_block'' then Some (get_aux_block cfg now params s)
          else if m = ''merge_mining_submit_solution'' then Some (submit_solution cfg now params s)
          else None
      | _ \<Rightarrow> None)"

definition rpc_handle :: "config \<Rightarrow> rat \<Rightarrow> json \<Rightarrow> aux_server \<Rightarrow> json result \<times> aux_server" where
  "rpc_handle cfg now req s =
     (let rid = obj_get_or ''id'' (JStr ''0'') req in
      case rpc_method cfg now req s of
        None \<Rightarrow> (Inr (rpc_error rid (- 32601) ''method not found''), s)
      | Some (Inl (Reject m), s) \<Rightarrow> (Inr (rpc_error rid (- 1) m), s)
      | Some (Inl (Raised e), s) \<Rightarrow> (Inl e, s)
      | Some (Inr v, s) \<Rightarrow> (Inr (rpc_reply rid ''result'' v), s))"

definition rpc_http :: "config \<Rightarrow> rat \<Rightarrow> json result \<Rightarrow> aux_server \<Rightarrow> json result \<times> aux_server" where
  "rpc_http cfg now doc s = (case doc of
     Inl e \<Rightarrow> if is_value_error e then (Inr (rpc_error (JStr ''0'') (- 32700) ''parse error''), s) else (Inl e, s)
   | Inr req \<Rightarrow> if is_obj req then rpc_handle cfg now req s
       else (Inr (rpc_error (JStr ''0'') (- 32700) ''parse error''), s))"


section \<open>The bound on template records\<close>

definition templates_bounded :: "blob_db \<Rightarrow> bool" where
  "templates_bounded db \<longleftrightarrow> (\<forall>h. template_count h db \<le> MAX_TEMPLATE_RECORDS)"

lemma db_add_template_count:
  assumes "db_add blob c now db = Inr (ok, db')"
  shows "template_count h db' \<le> (if h = co_hash c then template_count h db + 1 else template_count h db)"
  using db_add_appends [OF assms, of h] by (auto simp: template_count_def)

text \<open>A submission ends in a rejection or an exception with the blob store as it was, or it is accepted.\<close>

lemma reject_db: "reject m s = (r, s') \<Longrightarrow> ax_db s' = ax_db s"
  by (auto simp: reject_def)

lemma submit_cases:
  assumes "submit_solution cfg now params s = (r, s')"
  obtains (kept) "ax_db s' = ax_db s"
  | (accepted) x head tag s1 where "accept_solution cfg now x head tag s1 = (r, s')" "ax_db s1 = ax_db s"
      "template_count (xs_hash x) (ax_db s) < MAX_TEMPLATE_RECORDS"
proof -
  define s1 where "s1 = s\<lparr>ax_stats := (ax_stats s)\<lparr>as_submit := as_submit (ax_stats s) + 1\<rparr>\<rparr>"
  have db: "ax_db s1 = ax_db s" by (simp add: s1_def)
  note sub = assms [unfolded submit_solution_def Let_def, folded s1_def]
  show thesis
  proof (cases "solution_params params")
    case (Inl e)
    then show thesis using sub db kept reject_db by (auto split: if_splits)
  next
    case (Inr x)
    note sub = sub [unfolded Inr sum.case]
    show thesis
    proof (cases "pb_lookup (xs_hash x) (ax_publisher s1) = Some (xs_aux_blob x)")
      case False
      then show thesis using sub db kept reject_db by auto
    next
      case True
      note sub = sub [unfolded True]
      show thesis
      proof (cases "parse_block_blob (xs_blob x)")
        case (Inl e)
        then show thesis using sub db kept reject_db by (auto split: if_splits)
      next
        case (Inr head)
        show thesis
        proof (cases "parse_tx_extra_mm_tag (bh_tx_extra head)")
          case None
          then show thesis using sub Inr db kept reject_db by auto
        next
          case (Some tag)
          then show thesis using sub Inr db kept accepted [of x head tag s1] reject_db by (auto split: if_splits)
        qed
      qed
    qed
  qed
qed

lemma accept_db:
  assumes "accept_solution cfg now x head tag s = (r, s')"
  shows "ax_db s' = ax_db s \<or>
     (\<exists>ok. db_add (xs_aux_blob x) (template_commitment cfg x head (pb_address (ax_publisher s))) (trunc now) (ax_db s) = Inr (ok, ax_db s'))"
proof (cases "db_add (xs_aux_blob x) (template_commitment cfg x head (pb_address (ax_publisher s))) (trunc now) (ax_db s)")
  case (Inl e)
  then have "s' = s\<lparr>ax_publisher := record_solution (solution_of x head tag (pb_address (ax_publisher s)) (trunc now)) (ax_publisher s)\<rparr>"
    using assms by (simp add: accept_solution_def Let_def)
  then show ?thesis by simp
next
  case (Inr p)
  obtain ok db where p: "p = (ok, db)" by (cases p)
  have "ax_db s' = db" using assms Inr p by (auto simp: accept_solution_def Let_def)
  then show ?thesis using Inr p by metis
qed

lemma submit_bounded:
  assumes "templates_bounded (ax_db s)" "submit_solution cfg now params s = (r, s')"
  shows "templates_bounded (ax_db s')"
  using assms(2)
proof (cases rule: submit_cases)
  case (accepted x head tag s1)
  show ?thesis
  proof (cases "ax_db s' = ax_db s")
    case False
    with accept_db [OF accepted(1)] accepted(2) obtain ok where d: "db_add (xs_aux_blob x) (template_commitment cfg x head (pb_address (ax_publisher s1))) (trunc now) (ax_db s)
        = Inr (ok, ax_db s')"
      by auto
    note cnt = db_add_template_count [OF d]
    have ch: "co_hash (template_commitment cfg x head a) = xs_hash x" for a by (simp add: template_commitment_def)
    show ?thesis unfolding templates_bounded_def
    proof
      fix h
      show "template_count h (ax_db s') \<le> MAX_TEMPLATE_RECORDS"
      proof (cases "h = xs_hash x")
        case True
        with cnt [of h] have "template_count h (ax_db s') \<le> template_count h (ax_db s) + 1" by (simp add: ch)
        with accepted(3) True show ?thesis by simp
      next
        case False
        with cnt [of h] have "template_count h (ax_db s') \<le> template_count h (ax_db s)" by (simp add: ch)
        also have "\<dots> \<le> MAX_TEMPLATE_RECORDS" using assms(1) by (simp add: templates_bounded_def)
        finally show ?thesis .
      qed
    qed
  qed (use assms(1) in simp)
qed (use assms(1) in simp)

lemma aux_block_db: "get_aux_block cfg now params s = (r, s') \<Longrightarrow> ax_db s' = ax_db s"
proof -
  assume g: "get_aux_block cfg now params s = (r, s')"
  define s1 where "s1 = set_address params (s\<lparr>ax_stats := (ax_stats s)\<lparr>as_get_aux_block := as_get_aux_block (ax_stats s) + 1\<rparr>\<rparr>)"
  have db: "ax_db s1 = ax_db s" by (auto simp: s1_def set_address_def split: option.split json.split)
  note g = g [unfolded get_aux_block_def Let_def, folded s1_def]
  obtain q st pb where rf: "refresh cfg (ax_db s1) now (ax_store s1, ax_publisher s1) = (q, st, pb)"
    by (metis prod_cases3)
  show ?thesis using g db unfolding rf
    by (cases q; cases "pb_current now pb") (auto split: if_splits option.splits prod.splits)
qed

lemma rpc_bounded:
  assumes "templates_bounded (ax_db s)"
  shows "templates_bounded (ax_db (snd (rpc_http cfg now doc s)))"
proof -
  have m: "templates_bounded (ax_db s')" if "rpc_method cfg now req s = Some (r, s')" for req r s'
    using that assms submit_bounded aux_block_db
    by (auto simp: rpc_method_def Let_def split: option.splits json.splits if_splits)
  have "templates_bounded (ax_db (snd (rpc_handle cfg now req s)))" for req
    using m assms by (auto simp: rpc_handle_def Let_def split: option.split sum.split aux_error.split)
  then show ?thesis using assms by (auto simp: rpc_http_def split: sum.split)
qed

text \<open>C37. However often a P2Pool reports solutions, and whatever it sends, no list blob gets more than 64 template records.\<close>

theorem template_records_bounded:
  "templates_bounded (ax_db (fold (\<lambda>(now, doc) s. snd (rpc_http cfg now doc s)) reqs (new_aux_server st pb empty_db)))"
proof -
  have "templates_bounded (ax_db s) \<Longrightarrow> templates_bounded (ax_db (fold (\<lambda>(now, doc) s. snd (rpc_http cfg now doc s)) reqs s))" for s
    by (induction reqs arbitrary: s) (auto simp: rpc_bounded)
  moreover have "templates_bounded (ax_db (new_aux_server st pb empty_db))"
    by (simp add: templates_bounded_def template_count_def db_commitments_def empty_db_def new_aux_server_def)
  ultimately show ?thesis by blast
qed

section \<open>A block mined for the list\<close>

text \<open>The parameters of a report.\<close>

definition report_params :: "bytes \<Rightarrow> bytes \<Rightarrow> bytes \<Rightarrow> bytes list \<Rightarrow> int \<Rightarrow> bytes \<Rightarrow> json" where
  "report_params h aux_blob blob pf path seed = JObj [(''aux_hash'', JStr (hex_of h)), (''aux_blob'', JStr (hex_of aux_blob)),
     (''blob'', JStr (hex_of blob)), (''merkle_proof'', JList (map (\<lambda>p. JStr (hex_of p)) pf)), (''path'', JInt path),
     (''seed_hash'', JStr (hex_of seed))]"

lemma report_params_read: "solution_params (report_params h aux_blob blob pf path seed) =
  Inr \<lparr> xs_hash = h, xs_aux_blob = aux_blob, xs_blob = blob, xs_proof = pf, xs_path = path, xs_seed = seed \<rparr>"
proof -
  have "mapR json_hex (map (\<lambda>p. JStr (hex_of p)) pf) = Inr pf" by (induction pf) simp_all
  then show ?thesis by (simp add: report_params_def solution_params_def)
qed

lemma refresh_issued: "refresh cfg db now (st, pb) = (r, st', pb') \<Longrightarrow> pb_issued pb' = pb_issued pb"
  by (auto simp: refresh_def Let_def split: sum.splits bool.splits prod.splits if_splits)

lemma job_issued:
  assumes "get_aux_block cfg now params s = (Inr job, s')" "obj_get ''aux_hash'' job = Some (JStr (hex_of h))"
    "obj_get ''aux_blob'' job = Some (JStr (hex_of blob))"
  shows "pb_lookup h (ax_publisher s') = Some (case pb_lookup h (ax_publisher s) of None \<Rightarrow> blob | Some old \<Rightarrow> old)"
proof -
  define s1 where "s1 = set_address params (s\<lparr>ax_stats := (ax_stats s)\<lparr>as_get_aux_block := as_get_aux_block (ax_stats s) + 1\<rparr>\<rparr>)"
  have is1: "pb_issued (ax_publisher s1) = pb_issued (ax_publisher s)"
    by (auto simp: s1_def set_address_def split: option.split json.split)
  note g = assms(1) [unfolded get_aux_block_def Let_def, folded s1_def]
  obtain b st pb where rf: "refresh cfg (ax_db s1) now (ax_store s1, ax_publisher s1) = (Inr b, st, pb)"
    using g by (auto split: if_splits sum.splits prod.splits)
  note g = g [unfolded rf]
  obtain h' blob' pb' where c: "pb_current now pb = Inr (Some (h', blob'), pb')"
    using g assms(2) by (auto split: if_splits sum.splits prod.splits option.splits)
  have j: "job = JObj [(''aux_blob'', JStr (hex_of blob')), (''aux_diff'', JInt (c_aux_diff cfg)), (''aux_hash'', JStr (hex_of h'))]"
    and s': "ax_publisher s' = pb'"
    using g c assms(2) by (auto split: if_splits)
  have hb: "hex_of h' = hex_of h" "hex_of blob' = hex_of blob" using j assms(2,3) by simp_all
  have inj: "hex_of a = hex_of b \<Longrightarrow> a = b" for a b :: bytes by (metis json_hex_hex sum.inject(2))
  from hb inj have "h' = h" "blob' = blob" by blast+
  moreover have "pb_issued pb' = remember h' blob' (pb_issued pb)"
    using c by (auto simp: pb_current_def Let_def bindR_Inr_conv split: option.splits if_splits)
  ultimately show ?thesis using dget_remember [of h blob "pb_issued pb"] refresh_issued [OF rf] is1 s'
    by (simp add: pb_lookup_def)
qed

text \<open>C36. What the server hands out it takes back: when a job gave a hash and a blob (not issued under that hash with another blob
  before), a report of a block whose tag the hash reaches by a Merkle proof is accepted as long as the blob has room for a
  template record; the solution is recorded and the template commitment is in the blob store.\<close>

theorem handed_out_job_accepted:
  assumes "get_aux_block cfg now params s = (Inr job, s')" "obj_get ''aux_hash'' job = Some (JStr (hex_of h))"
    "obj_get ''aux_blob'' job = Some (JStr (hex_of aux_blob))" "pb_lookup h (ax_publisher s) \<in> {None, Some aux_blob}"
    "decode_blob aux_blob = Inr d" "h = blob_hash aux_blob"
    "parse_block_blob blob = Inr head" "parse_tx_extra_mm_tag (bh_tx_extra head) = Some tag"
    "verify_merkle_proof h pf (nat (path mod 2 ^ length pf)) (mt_root tag)" "template_count h (ax_db s') < MAX_TEMPLATE_RECORDS"
  shows "\<exists>s'' sol c. submit_solution cfg later (report_params h aux_blob blob pf path seed) s' =
      (Inr (JObj [(''status'', JStr ''accepted'')]), s'') \<and>
    last (pb_solutions (ax_publisher s'')) = sol \<and> so_aux_hash sol = h \<and> so_height sol = int (bh_height head) \<and>
    c \<in> set (db_commitments h (ax_db s'')) \<and> co_kind c = ''template'' \<and> co_proof c = pf \<and>
    template_count h (ax_db s'') \<le> MAX_TEMPLATE_RECORDS"
proof -
  define x where "x = \<lparr> xs_hash = h, xs_aux_blob = aux_blob, xs_blob = blob, xs_proof = pf, xs_path = path, xs_seed = seed \<rparr>"
  define s1 where "s1 = s'\<lparr>ax_stats := (ax_stats s')\<lparr>as_submit := as_submit (ax_stats s') + 1\<rparr>\<rparr>"
  define c where "c = template_commitment cfg x head (pb_address (ax_publisher s1))"
  have lk: "pb_lookup h (ax_publisher s1) = Some aux_blob"
    using job_issued [OF assms(1-3)] assms(4) by (auto simp: s1_def)
  have sub: "submit_solution cfg later (report_params h aux_blob blob pf path seed) s' = accept_solution cfg later x head tag s1"
    using lk assms(7-10) by (simp add: submit_solution_def Let_def report_params_read s1_def x_def)
  obtain body where body: "list_body aux_blob = Inr body" using decode_with_period [OF assms(5), of 0] by (auto simp: list_body_def)
  have "\<exists>db. db_add aux_blob c (trunc later) (ax_db s') = Inr (True, db) \<and> c \<in> set (db_commitments h db)"
  proof (cases "dget (db_blobs (ax_db s')) h")
    case None
    then show ?thesis using assms(5,6) body
      by (simp add: db_add_def blob_row_for_def c_def template_commitment_def x_def KINDS_def Let_def db_commitments_def)
  next
    case (Some row)
    then show ?thesis using assms(5,6)
      by (simp add: db_add_def blob_row_for_def c_def template_commitment_def x_def KINDS_def Let_def db_commitments_def)
  qed
  then obtain db where db: "db_add aux_blob c (trunc later) (ax_db s') = Inr (True, db)" "c \<in> set (db_commitments h db)" by blast
  let ?s = "s1\<lparr>ax_publisher := record_solution (solution_of x head tag (pb_address (ax_publisher s1)) (trunc later)) (ax_publisher s1),
    ax_db := db\<rparr>"
  have "accept_solution cfg later x head tag s1 = (Inr (JObj [(''status'', JStr ''accepted'')]), ?s)"
    using db(1) by (simp add: accept_solution_def Let_def c_def s1_def x_def)
  moreover have "last (pb_solutions (ax_publisher ?s)) = solution_of x head tag (pb_address (ax_publisher s1)) (trunc later)"
    by (simp add: record_solution_def Let_def MAX_SOLUTIONS_def)
  moreover have "template_count h db \<le> MAX_TEMPLATE_RECORDS"
    using db_add_template_count [OF db(1), of h] assms(10) by (auto split: if_splits)
  ultimately show ?thesis using db(2) sub
    by (intro exI [of _ ?s] exI [of _ "solution_of x head tag (pb_address (ax_publisher s1)) (trunc later)"] exI [of _ c])
      (simp add: solution_of_def c_def template_commitment_def x_def)
qed


text \<open>A publisher with one transpeer, and a block whose only aux chain is this one: the tag's root is the hash itself.\<close>

definition wit_aux :: aux_server where
  "wit_aux = new_aux_server wit_pub_store new_publisher empty_db"

lemma wit_job:
  "\<exists>job s' blob d. get_aux_block default_config 10000000 (JObj []) wit_aux = (Inr job, s') \<and>
     obj_get ''aux_hash'' job = Some (JStr (hex_of (blob_hash blob))) \<and> obj_get ''aux_blob'' job = Some (JStr (hex_of blob)) \<and>
     decode_blob blob = Inr d \<and> ax_db s' = empty_db"
proof -
  obtain pb' where rf: "refresh default_config empty_db 10000000 (wit_pub_store, new_publisher) = (Inr True, wit_pub_after, pb')"
    using wit_refresh by blast
  then obtain es body where b: "make_body (chain_name default_config) es = Inr body" "pb' = new_publisher\<lparr>pb_body := Some body, pb_body_since := 10000000\<rparr>"
    "curate default_config empty_db 10000000 wit_pub_store = (Inr es, wit_pub_after)"
    by (auto simp: refresh_def split: prod.splits sum.splits if_splits bool.splits)
  have "sorted (map entry_key es)" using curate_selection [OF b(3)] by auto
  from make_body_decodes [OF b(1) _ this, of 6666] obtain blob where
    blob: "with_period body 6666 = Inr blob" "\<exists>d. decode_blob blob = Inr d" by auto
  have p: "period_of 10000000 = 6666" by (simp add: period_of_def trunc_def PERIOD_SECONDS_def)
  have "pb_current 10000000 pb' = Inr (Some (blob_hash blob, blob), pb'\<lparr>pb_issued := remember (blob_hash blob) blob (pb_issued pb')\<rparr>)"
    by (simp add: pb_current_def b(2) p blob(1) Let_def)
  then show ?thesis using rf blob(2)
    by (auto simp: get_aux_block_def wit_aux_def new_aux_server_def set_address_def Let_def)
qed

lemma handed_out_job_accepted_witness:
  "\<exists>job s' h blob report s''. get_aux_block default_config 10000000 (JObj []) wit_aux = (Inr job, s') \<and>
     obj_get ''aux_hash'' job = Some (JStr (hex_of h)) \<and> obj_get ''aux_blob'' job = Some (JStr (hex_of blob)) \<and>
     submit_solution default_config 10000060 report s' = (Inr (JObj [(''status'', JStr ''accepted'')]), s'') \<and>
     so_height (last (pb_solutions (ax_publisher s''))) = 3000000"
proof -
  obtain job s' blob d where j: "get_aux_block default_config 10000000 (JObj []) wit_aux = (Inr job, s')"
    "obj_get ''aux_hash'' job = Some (JStr (hex_of (blob_hash blob)))" "obj_get ''aux_blob'' job = Some (JStr (hex_of blob))"
    "decode_blob blob = Inr d" "ax_db s' = empty_db" using wit_job by blast
  let ?h = "blob_hash blob"
  have l: "length ?h = 32" by (simp add: blob_hash_def)
  let ?tag = "\<lparr> mt_n_aux_chains = 1, mt_nonce = 0, mt_root = ?h \<rparr>"
  have t: "parse_tx_extra_mm_tag (build_mm_tag 1 0 ?h) = Some ?tag"
    using walk_extra_tag [of 1 0 ?h 0 "build_mm_tag 1 0 ?h" "[]"] l by (simp add: parse_tx_extra_mm_tag_def)
  have "encode_tree_params 1 0 = 0" by code_simp
  moreover have "write_varint 0 = [0]" by (subst write_varint.simps) simp
  ultimately have lt: "length (build_mm_tag 1 0 ?h) < 2 ^ 70" using l by (simp add: build_mm_tag_def Let_def)
  obtain blk where b: "build_block_blob 16 16 1700000000 (replicate 32 7) 42 3000000 (build_mm_tag 1 0 ?h) [] = Inr blk"
    by (simp add: build_block_blob_def to_bytes_le_def)
  from parse_build(1) [OF _ _ _ _ _ _ lt _ _ b] obtain head where
    head: "parse_block_blob blk = Inr head" "bh_tx_extra head = build_mm_tag 1 0 ?h" "bh_height head = 3000000" by auto
  have "pb_lookup ?h (ax_publisher wit_aux) \<in> {None, Some blob}"
    by (simp add: wit_aux_def new_aux_server_def new_publisher_def pb_lookup_def)
  moreover have "verify_merkle_proof ?h [] (nat (0 mod 2 ^ length ([] :: bytes list))) (mt_root ?tag)"
    by (simp add: verify_merkle_proof_def)
  moreover have "template_count ?h (ax_db s') < MAX_TEMPLATE_RECORDS"
    by (simp add: j(5) template_count_def db_commitments_def empty_db_def MAX_TEMPLATE_RECORDS_def)
  ultimately obtain s'' where "submit_solution default_config 10000060 (report_params ?h blob blk [] 0 []) s' =
      (Inr (JObj [(''status'', JStr ''accepted'')]), s'')" "so_height (last (pb_solutions (ax_publisher s''))) = 3000000"
    using handed_out_job_accepted [OF j(1-3) _ j(4) refl head(1) t [folded head(2)], of "[]" 0 10000060 "[]"] head(3) by auto
  with j(1-3) show ?thesis by blast
qed

end
