(* ===== verification/Networks.thy ===== *)
theory Networks
  imports Client
begin

text \<open>
  \<open>transpeer/networks\<close>: the plugins of the three built-in networks and the generic one, the registry, what a local daemon's
  JSON-RPC answer is read as, and the handshake check. The answers of the daemon and the bytes a remote host sends
  are arguments; \<^const>\<open>None\<close> is a failed connection or a timeout.
\<close>

section \<open>The registry\<close>

datatype net_class = MoneroNetwork | WowneroNetwork | AeonNetwork | GenericNetwork

record plugin =
  pl_class :: net_class
  pl_name :: string
  pl_port :: int
  pl_rpc_port :: int
  pl_white_list :: bool

definition monero_network :: plugin where
  "monero_network = \<lparr> pl_class = MoneroNetwork, pl_name = ''monero'', pl_port = 18080, pl_rpc_port = 18081, pl_white_list = False \<rparr>"

definition wownero_network :: plugin where
  "wownero_network = \<lparr> pl_class = WowneroNetwork, pl_name = ''wownero'', pl_port = 34567, pl_rpc_port = 34568, pl_white_list = False \<rparr>"

definition aeon_network :: plugin where
  "aeon_network = \<lparr> pl_class = AeonNetwork, pl_name = ''aeon'', pl_port = 11180, pl_rpc_port = 11181, pl_white_list = False \<rparr>"

definition generic_network :: "string \<Rightarrow> int \<Rightarrow> int \<Rightarrow> plugin" where
  "generic_network name p2p_port rpc_port = \<lparr> pl_class = GenericNetwork, pl_name = name, pl_port = p2p_port,
     pl_rpc_port = rpc_port, pl_white_list = False \<rparr>"

definition REGISTRY :: "(string, plugin) dict" where
  "REGISTRY = [(''monero'', monero_network), (''wownero'', wownero_network), (''aeon'', aeon_network)]"

definition get_network :: "string \<Rightarrow> plugin result" where
  "get_network name =
     (let registered = (case dget REGISTRY name of None \<Rightarrow> Inl (ValueError ''Unknown network'') | Some pl \<Rightarrow> Inr pl) in
      if CHR '':'' \<in> set name then
        (case split_on CHR '':'' name of
           [net_name, p2p_port, rpc_port] \<Rightarrow>
             bindR (int_of_str p2p_port) (\<lambda>p. bindR (int_of_str rpc_port) (\<lambda>r. Inr (generic_network net_name p r)))
         | _ \<Rightarrow> registered)
      else registered)"

section \<open>Extracting peers from the local daemon\<close>

text \<open>The request: the URL and the method posted to it.\<close>

definition extract_request :: "plugin \<Rightarrow> string \<Rightarrow> string \<times> string" where
  "extract_request pl rpc_host =
     (''http://'' @ rpc_host @ '':'' @ str_int (pl_rpc_port pl) @ ''/json_rpc'',
      if pl_class pl = GenericNetwork \<or> pl_white_list pl then ''get_peer_list'' else ''get_connections'')"

text \<open>A peer as the daemon names it; only the port of a connection is converted.\<close>

type_synonym peer_info = "json \<times> json"

definition connection_info :: "json \<Rightarrow> peer_info option result" where
  "connection_info conn =
     bindR (json_get_or ''host'' (JStr []) conn) (\<lambda>host.
     bindR (if json_truthy host then Inr host else json_get_or ''ip'' (JStr []) conn) (\<lambda>host.
     bindR (json_get_or ''port'' (JStr []) conn) (\<lambda>port.
       if json_truthy host \<and> json_truthy port
       then bindR (json_int port) (\<lambda>p. Inr (Some (host, JInt p))) else Inr None)))"

definition white_info :: "int \<Rightarrow> json \<Rightarrow> peer_info option result" where
  "white_info default_port entry =
     bindR (json_get_or ''host'' (JStr []) entry) (\<lambda>host.
     bindR (json_get_or ''port'' (JInt default_port) entry) (\<lambda>port.
       Inr (if json_truthy host \<and> json_truthy port then Some (host, port) else None)))"

fun collect_infos :: "(json \<Rightarrow> peer_info option result) \<Rightarrow> json list \<Rightarrow> peer_info list result" where
  "collect_infos f [] = Inr []"
| "collect_infos f (v # vs) =
     bindR (f v) (\<lambda>p. bindR (collect_infos f vs) (\<lambda>ps. Inr (case p of None \<Rightarrow> ps | Some p \<Rightarrow> p # ps)))"

definition infos_under :: "string \<Rightarrow> (json \<Rightarrow> peer_info option result) \<Rightarrow> json \<Rightarrow> peer_info list result" where
  "infos_under key f data =
     bindR (json_get_or ''result'' (JObj []) data) (\<lambda>r.
     bindR (json_get_or key (JList []) r) (\<lambda>vs.
     bindR (py_iter vs) (collect_infos f)))"

text \<open>\<open>resp.json()\<close> refuses another content type with a client error, which is caught; any other exception is not.\<close>

definition daemon_json :: "reply option \<Rightarrow> json option result" where
  "daemon_json rp = (case rp of
     None \<Rightarrow> Inr None
   | Some r \<Rightarrow> if rp_status r \<noteq> 200 then Inr None
       else (case rp_json r of
           Inr j \<Rightarrow> Inr (Some j)
         | Inl e \<Rightarrow> if e = ValueError ''unexpected mimetype'' then Inr None else Inl e))"

definition extract_connections :: "reply option \<Rightarrow> peer_info list result" where
  "extract_connections rp = bindR (daemon_json rp) (\<lambda>d. case d of
     None \<Rightarrow> Inr [] | Some data \<Rightarrow> infos_under ''connections'' connection_info data)"

definition extract_white_list :: "int \<Rightarrow> reply option \<Rightarrow> peer_info list result" where
  "extract_white_list default_port rp = bindR (daemon_json rp) (\<lambda>d. case d of
     None \<Rightarrow> Inr [] | Some data \<Rightarrow> infos_under ''white_list'' (white_info default_port) data)"

text \<open>The generic plugin always reads the white list; \<open>share_white_list\<close> is set on it and never read.\<close>

definition extract_generic :: "int \<Rightarrow> reply option \<Rightarrow> peer_info list result" where
  "extract_generic default_port rp = bindR (daemon_json rp) (\<lambda>d. case d of
     None \<Rightarrow> Inr []
   | Some data \<Rightarrow> bindR (json_get_or ''result'' (JObj []) data) (\<lambda>r.
       bindR (json_get_or ''white_list'' (JList []) r) (\<lambda>vs. bindR (py_iter vs) (collect_infos (white_info default_port)))))"

definition extract_peers :: "plugin \<Rightarrow> reply option \<Rightarrow> peer_info list result" where
  "extract_peers pl rp =
     (if pl_class pl = GenericNetwork then extract_generic (pl_port pl) rp
      else if pl_white_list pl then extract_white_list (pl_port pl) rp
      else extract_connections rp)"

section \<open>Verifying a peer\<close>

definition LEVIN_SIGNATURE :: bytes where "LEVIN_SIGNATURE = [1, 0x21, 1, 1, 1, 1, 1, 1]"

text \<open>\<open>connects\<close>: whether the connection opens and closes in time; \<open>first8\<close>: what \<open>reader.read(8)\<close> then returns, if
  anything arrives within the five seconds.\<close>

definition verify_peer :: "plugin \<Rightarrow> bool \<Rightarrow> bytes option \<Rightarrow> bool" where
  "verify_peer pl connects first8 =
     (if pl_class pl = MoneroNetwork then connects \<and> first8 = Some LEVIN_SIGNATURE else connects)"

section \<open>What is extracted\<close>

lemma collect_infos_in: "collect_infos f vs = Inr ps \<Longrightarrow> p \<in> set ps \<Longrightarrow> \<exists>v. f v = Inr (Some p)"
  by (induction vs arbitrary: ps) (auto simp: bindR_Inr_conv split: option.splits)

lemma infos_under_in: "infos_under k f data = Inr ps \<Longrightarrow> p \<in> set ps \<Longrightarrow> \<exists>v. f v = Inr (Some p)"
  by (auto simp: infos_under_def bindR_Inr_conv dest: collect_infos_in)

lemma extract_generic_white: "extract_generic q rp = extract_white_list q rp"
  by (simp add: extract_generic_def extract_white_list_def infos_under_def bindR_def split: sum.split option.split)

text \<open>Whatever the daemon answers, a peer taken from it has a host, and the port of a connection is an integer.\<close>

lemma extracted_infos:
  assumes "extract_peers pl rp = Inr ps" "(host, port) \<in> set ps"
  shows "json_truthy host \<and> (snd (extract_request pl rpc_host) = ''get_connections'' \<longrightarrow> (\<exists>p. port = JInt p))"
proof -
  let ?mode = "if pl_class pl = GenericNetwork \<or> pl_white_list pl then white_info (pl_port pl) else connection_info"
  obtain key d where "infos_under key ?mode d = Inr ps"
    using assms unfolding extract_peers_def extract_generic_white extract_white_list_def extract_connections_def
    by (auto simp: bindR_Inr_conv split: if_splits option.splits)
  then obtain v where "?mode v = Inr (Some (host, port))" using assms(2) by (blast dest: infos_under_in)
  then show ?thesis
    by (auto simp: white_info_def connection_info_def extract_request_def bindR_Inr_conv split: if_splits)
qed

end
