(* ===== verification/Monerod.thy ===== *)
theory Monerod
  imports Reader
begin

text \<open>
  \<open>transpeer/anchor/monerod.py\<close>: the JSON-RPC source of headers and blocks, and one pass of \<open>Node._anchor_source_loop\<close>
  (\<open>transpeer/node.py\<close>) over it. The daemon is a parameter: its answer to a method with its parameters, the same for the
  whole of a pass; \<^const>\<open>None\<close> is a failed connection or a timeout.
\<close>

section \<open>int(s, 16)\<close>

fun hex_us :: "bool \<Rightarrow> string \<Rightarrow> nat \<Rightarrow> nat option" where
  "hex_us p [] acc = (if p then Some acc else None)"
| "hex_us p (c # cs) acc = (case hex_val c of
     Some d \<Rightarrow> hex_us True cs (16 * acc + d)
   | None \<Rightarrow> if c = CHR ''_'' \<and> p then hex_us False cs acc else None)"

definition hex_body :: "string \<Rightarrow> int option" where
  "hex_body s = map_option int
     (case s of
        CHR ''0'' # x # r \<Rightarrow>
          if x = CHR ''x'' \<or> x = CHR ''X''
          then hex_us False (case r of CHR ''_'' # r' \<Rightarrow> r' | _ \<Rightarrow> r) 0
          else hex_us False s 0
      | _ \<Rightarrow> hex_us False s 0)"

definition int_of_hex :: "string \<Rightarrow> int result" where
  "int_of_hex s = (case (case strip s of
       [] \<Rightarrow> None
     | c # r \<Rightarrow> if c = CHR ''-'' then map_option uminus (hex_body r)
                else if c = CHR ''+'' then hex_body r else hex_body (c # r)) of
     None \<Rightarrow> Inl (ValueError ''invalid literal for int()'') | Some i \<Rightarrow> Inr i)"

fun json_int16 :: "json \<Rightarrow> int result" where
  "json_int16 (JStr s) = int_of_hex s"
| "json_int16 v = Inl (TypeError ''can't convert non-string with explicit base'')"

section \<open>The source\<close>

type_synonym monerod = "string \<Rightarrow> json \<Rightarrow> reply option"

definition rpc_result :: "reply option \<Rightarrow> json result" where
  "rpc_result rp = (case rp of
     None \<Rightarrow> Inl (ConnectionError ''client error'')
   | Some r \<Rightarrow>
       if rp_status r \<noteq> 200 then Inl (ValueError ''returned HTTP status'')
       else (case rp_json r of
           Inl e \<Rightarrow> Inl (ValueError ''returned malformed JSON'')
         | Inr data \<Rightarrow>
             if \<not> is_obj data then Inl (ValueError ''returned a non-object reply'')
             else if obj_get ''error'' data \<noteq> None then Inl (ValueError ''error'')
             else (let result = obj_get_or ''result'' JNull data in
               if \<not> is_obj result then Inl (ValueError ''reply missing result'') else Inr result)))"

text \<open>\<open>except (KeyError, TypeError, ValueError) as e: raise ValueError(msg)\<close>.\<close>

definition reraise :: "string \<Rightarrow> 'a result \<Rightarrow> 'a result" where
  "reraise msg r = (case r of Inl e \<Rightarrow> Inl (if load_caught e then ValueError msg else e) | Inr x \<Rightarrow> Inr x)"

definition monerod_height :: "monerod \<Rightarrow> int result" where
  "monerod_height md =
     bindR (rpc_result (md ''get_block_count'' JNull)) (\<lambda>result.
     bindR (reraise ''reply missing count'' (bindR (json_get ''count'' result) json_int)) (\<lambda>n. Inr (n - 1)))"

definition monerod_block :: "monerod \<Rightarrow> int \<Rightarrow> bytes result" where
  "monerod_block md height =
     bindR (rpc_result (md ''get_block'' (JObj [(''height'', JInt height)]))) (\<lambda>result.
       reraise ''reply missing blob'' (bindR (json_get ''blob'' result) json_hex))"

definition headers_range :: "monerod \<Rightarrow> int \<Rightarrow> int \<Rightarrow> json list result" where
  "headers_range md start stop =
     bindR (rpc_result (md ''get_block_headers_range'' (JObj [(''start_height'', JInt start), (''end_height'', JInt stop)])))
       (\<lambda>result. case obj_get_or ''headers'' JNull result of
           JList hs \<Rightarrow> Inr hs | _ \<Rightarrow> Inl (ValueError ''reply missing headers''))"

fun by_height :: "json list \<Rightarrow> (int, json) dict \<Rightarrow> (int, json) dict result" where
  "by_height [] d = Inr d"
| "by_height (h # hs) d =
     bindR (reraise ''served a malformed header'' (bindR (json_get ''height'' h) json_int)) (\<lambda>n. by_height hs (dput n h d))"

definition header_difficulty :: "json \<Rightarrow> int result" where
  "header_difficulty header =
     bindR (json_get_or ''wide_difficulty'' JNull header) (\<lambda>wide.
       reraise ''served a malformed difficulty''
         (if json_truthy wide then json_int16 wide else bindR (json_get ''difficulty'' header) json_int))"

definition monerod_row :: "monerod \<Rightarrow> (int, json) dict \<Rightarrow> int \<Rightarrow> header_row result" where
  "monerod_row md headers height =
     (case dget headers height of
        None \<Rightarrow> Inl (ValueError ''did not serve a header'')
      | Some header \<Rightarrow>
          bindR (monerod_block md height) (\<lambda>blob.
          bindR (hashing_blob blob) (\<lambda>hb.
          bindR (reraise ''served a malformed hash'' (bindR (json_get ''hash'' header) json_hex)) (\<lambda>expected.
            if block_id hb \<noteq> expected then Inl (ValueError ''block hash mismatch'')
            else bindR (header_difficulty header) (\<lambda>difficulty.
              Inr \<lparr> hr_height = height, hr_blob = hb, hr_difficulty = difficulty \<rparr>)))))"

definition monerod_rows :: "monerod \<Rightarrow> int \<Rightarrow> int \<Rightarrow> header_row list result" where
  "monerod_rows md start stop =
     bindR (headers_range md start stop) (\<lambda>hs. bindR (by_height hs []) (\<lambda>d. mapR (monerod_row md d) [start..stop]))"

section \<open>One pass of the anchor source\<close>

record source_env =
  se_cfg :: config
  se_checkpoint :: checkpoint
  se_monerod :: monerod
  se_pow :: pow_backend
  se_now :: int
  se_draws :: "rat list"

definition SOURCE_PAGE :: int where "SOURCE_PAGE = 100"

function fetch_new_rows :: "monerod \<Rightarrow> int \<Rightarrow> int \<Rightarrow> header_row list result" where
  "fetch_new_rows md cur tip =
     (if tip < cur then Inr []
      else (let stop = min (cur + SOURCE_PAGE - 1) tip in
        bindR (monerod_rows md cur stop) (\<lambda>rows.
        bindR (fetch_new_rows md (stop + 1) tip) (\<lambda>rest. Inr (rows @ rest)))))"
  by pat_completeness auto
termination
  by (relation "measure (\<lambda>(md, cur, tip). nat (tip + 1 - cur))") (auto simp: SOURCE_PAGE_def Let_def)

declare fetch_new_rows.simps [simp del]

definition source_start :: "source_env \<Rightarrow> int" where
  "source_start env = max 0 (cp_height (se_checkpoint env) - HEADER_LOOKBACK)"

definition fetch_from :: "source_env \<Rightarrow> anchor_store \<Rightarrow> int" where
  "fetch_from env a =
     (case (as_view a, anchor_tip_height a) of
        (Some v, Some t) \<Rightarrow> max (source_start env) (t + 1) | _ \<Rightarrow> source_start env)"

definition merged_rows :: "source_env \<Rightarrow> anchor_store \<Rightarrow> header_row list \<Rightarrow> header_row list" where
  "merged_rows env a new_rows =
     (let start = source_start env; f = fetch_from env a in
      (if f > start then header_rows start (nat (f - start)) a else []) @ new_rows)"

text \<open>A failed verification is logged and the new rows are dropped; any other exception ends the pass.\<close>

definition take_headers :: "source_env \<Rightarrow> header_row list \<Rightarrow> anchor_store \<Rightarrow> exn option \<times> anchor_store" where
  "take_headers env new_rows a =
     (if new_rows = [] then (None, a)
      else (case verify_headers (merged_rows env a new_rows) (se_checkpoint env) (se_pow env) (se_now env) (se_draws env)
                   POW_SAMPLE POW_RECENT None of
          Inl (HeaderError m) \<Rightarrow> (None, a)
        | Inl e \<Rightarrow> (Some e, a)
        | Inr view \<Rightarrow> (None, (put_headers new_rows a)\<lparr>as_view := Some (stored_of view)\<rparr>)))"

fun fetch_blocks :: "monerod \<Rightarrow> int list \<Rightarrow> anchor_store \<Rightarrow> exn option \<times> anchor_store" where
  "fetch_blocks md [] a = (None, a)"
| "fetch_blocks md (h # hs) a =
     (case block_at h a of
        Some b \<Rightarrow> fetch_blocks md hs a
      | None \<Rightarrow> (case monerod_block md h of
            Inl e \<Rightarrow> (Some e, a) | Inr blob \<Rightarrow> fetch_blocks md hs (put_block h blob a)))"

definition source_pass :: "source_env \<Rightarrow> anchor_store \<Rightarrow> exn option \<times> anchor_store" where
  "source_pass env a =
     (case bindR (monerod_height (se_monerod env)) (fetch_new_rows (se_monerod env) (fetch_from env a)) of
        Inl e \<Rightarrow> (Some e, a)
      | Inr new_rows \<Rightarrow>
          (case take_headers env new_rows a of
             (Some e, a) \<Rightarrow> (Some e, a)
           | (None, a) \<Rightarrow>
               (case anchor_view a of
                  None \<Rightarrow> (None, a)
                | Some view \<Rightarrow> fetch_blocks (se_monerod env)
                    [coverage_from view (c_anchor_window_days (se_cfg env))..tip_height view] a)))"

section \<open>What a pass does to the store\<close>

lemma reraise_Inr [simp]: "reraise msg r = Inr x \<longleftrightarrow> r = Inr x"
  by (auto simp: reraise_def split: sum.splits)

text \<open>A row was served: its blob is the hashing blob of the block the daemon has at the height, and its id the one in the header.\<close>

definition served_row :: "monerod \<Rightarrow> header_row \<Rightarrow> bool" where
  "served_row md row \<longleftrightarrow> (\<exists>blob header. monerod_block md (hr_height row) = Inr blob \<and> hashing_blob blob = Inr (hr_blob row) \<and>
     bindR (json_get ''hash'' header) json_hex = Inr (block_id (hr_blob row)))"

lemma monerod_row_served: "monerod_row md d h = Inr row \<Longrightarrow> hr_height row = h \<and> served_row md row"
  by (force simp: monerod_row_def served_row_def bindR_Inr_conv split: option.splits if_splits)

lemma mapR_served:
  "mapR (monerod_row md d) hs = Inr rows \<Longrightarrow> map hr_height rows = hs \<and> list_all (served_row md) rows"
  by (induction hs arbitrary: rows) (auto simp: bindR_Inr_conv dest: monerod_row_served)

lemma fetch_new_rows_served:
  "fetch_new_rows md cur tip = Inr rows \<Longrightarrow> map hr_height rows = [cur..tip] \<and> list_all (served_row md) rows"
proof (induction md cur tip arbitrary: rows rule: fetch_new_rows.induct)
  case (1 md cur tip)
  show ?case
  proof (cases "tip < cur")
    case True
    with 1(2) show ?thesis by (simp add: fetch_new_rows.simps [of md cur tip])
  next
    case False
    let ?stop = "min (cur + SOURCE_PAGE - 1) tip"
    from 1(2) False obtain r1 r2 where r: "monerod_rows md cur ?stop = Inr r1"
      "fetch_new_rows md (?stop + 1) tip = Inr r2" "rows = r1 @ r2"
      by (auto simp: fetch_new_rows.simps [of md cur tip] Let_def bindR_Inr_conv)
    have "map hr_height r1 = [cur..?stop] \<and> list_all (served_row md) r1"
      using r(1) by (auto simp: monerod_rows_def bindR_Inr_conv dest: mapR_served)
    moreover have "map hr_height r2 = [?stop + 1..tip] \<and> list_all (served_row md) r2"
      by (rule 1(1) [OF False refl r(1) r(2)])
    moreover have "[cur..tip] = [cur..?stop] @ [?stop + 1..tip]"
      by (rule upto_split2) (use False in \<open>auto simp: SOURCE_PAGE_def\<close>)
    ultimately show ?thesis by (simp add: r(3))
  qed
qed

lemma json_ints_JInt [simp]: "json_ints (map JInt is) = Some is"
  by (induction "is") auto

lemma view_of_stored_of [simp]: "view_of_stored (stored_of v) = Some v"
  by (simp add: view_of_stored_def stored_of_def)

lemma header_fold_other:
  "h \<notin> hr_height ` set rows \<Longrightarrow> dget (fold (\<lambda>row. dput (hr_height row) row) rows d) h = dget d h"
  by (induction rows arbitrary: d) auto

lemma put_headers_other: "h \<notin> hr_height ` set rows \<Longrightarrow> dget (as_headers (put_headers rows a)) h = dget (as_headers a) h"
  by (simp add: put_headers_def header_fold_other)

lemma put_headers_get:
  assumes "distinct (map hr_height rows)" "row \<in> set rows"
  shows "dget (as_headers (put_headers rows a)) (hr_height row) = Some row"
proof -
  obtain xs ys where r: "rows = xs @ row # ys" using assms(2) by (auto simp: in_set_conv_decomp)
  then have "hr_height row \<notin> hr_height ` set ys" using assms(1) by auto
  then show ?thesis by (simp add: put_headers_def r header_fold_other)
qed

lemma fetch_blocks_frame:
  assumes "fetch_blocks md hs a = (e, a')"
  shows "as_headers a' = as_headers a" "as_view a' = as_view a"
    "block_at h a' = block_at h a \<or> block_at h a = None \<and> h \<in> set hs \<and> (\<exists>b. block_at h a' = Some b \<and> monerod_block md h = Inr b)"
proof -
  have "as_headers a' = as_headers a \<and> as_view a' = as_view a \<and> (block_at h a' = block_at h a \<or>
      block_at h a = None \<and> h \<in> set hs \<and> (\<exists>b. block_at h a' = Some b \<and> monerod_block md h = Inr b))"
    using assms
  proof (induction hs arbitrary: a)
    case (Cons k hs)
    show ?case
    proof (cases "block_at k a")
      case (Some b)
      then show ?thesis using Cons by (auto split: option.splits)
    next
      case None
      show ?thesis
      proof (cases "monerod_block md k")
        case (Inl x)
        then show ?thesis using Cons(2) None by auto
      next
        case (Inr blob)
        have "fetch_blocks md hs (put_block k blob a) = (e, a')" using Cons(2) None Inr by simp
        from Cons(1) [OF this] Inr None show ?thesis by (auto simp: put_block_def block_at_def split: if_splits)
      qed
    qed
  qed simp
  then show "as_headers a' = as_headers a" "as_view a' = as_view a"
    "block_at h a' = block_at h a \<or> block_at h a = None \<and> h \<in> set hs \<and> (\<exists>b. block_at h a' = Some b \<and> monerod_block md h = Inr b)"
    by blast+
qed

text \<open>The headers after verification: unchanged, or those of the verified rows.\<close>

definition holds_rows :: "anchor_store \<Rightarrow> header_row list \<Rightarrow> bool" where
  "holds_rows a rows \<longleftrightarrow> list_all (\<lambda>row. dget (as_headers a) (hr_height row) = Some row) rows"

lemma merged_held:
  assumes "anchor_ok a" "map hr_height new_rows = [fetch_from env a..tip]"
  shows "holds_rows (put_headers new_rows a) (merged_rows env a new_rows)"
proof -
  let ?d = "nat (fetch_from env a - source_start env)"
  let ?old = "header_rows (source_start env) ?d a"
  have old: "dget (as_headers (put_headers new_rows a)) (hr_height row) = Some row" if "row \<in> set ?old" for row
  proof -
    from that obtain i where i: "i < length ?old" "row = ?old ! i" by (auto simp: in_set_conv_nth)
    then have g: "dget (as_headers a) (source_start env + int i) = Some row" "i < ?d"
      using header_run_facts [of ?d "source_start env" "as_headers a"] by (auto simp: header_rows_def)
    have h: "hr_height row = source_start env + int i"
      using g(1) assms(1) by (auto simp: anchor_ok_def dest!: map_of_SomeD)
    then have "hr_height row < fetch_from env a" using g(2) by linarith
    moreover have "hr_height ` set new_rows = {fetch_from env a..tip}"
      using arg_cong [OF assms(2), of set] by simp
    ultimately have "hr_height row \<notin> hr_height ` set new_rows" by simp
    then show ?thesis using g(1) h by (simp add: put_headers_other)
  qed
  have new: "dget (as_headers (put_headers new_rows a)) (hr_height row) = Some row" if "row \<in> set new_rows" for row
    using put_headers_get [OF _ that] assms(2) by simp
  show ?thesis using old new by (auto simp: holds_rows_def merged_rows_def Let_def list_all_iff split: if_splits)
qed

lemma take_headers_cases:
  assumes "take_headers env new_rows a = (e, a')"
  obtains (kept) "a' = a"
  | (verified) v where "a' = (put_headers new_rows a)\<lparr>as_view := Some (stored_of v)\<rparr>" "e = None" "new_rows \<noteq> []"
      "verify_headers (merged_rows env a new_rows) (se_checkpoint env) (se_pow env) (se_now env) (se_draws env)
         POW_SAMPLE POW_RECENT None = Inr v"
  using assms that unfolding take_headers_def by (auto split: if_splits sum.splits exn.splits)


text \<open>A store whose view is up to date: the pass fetches the block of its window.\<close>

definition wit_monerod :: monerod where
  "wit_monerod meth params = Some \<lparr> rp_status = 200, rp_headers = [],
     rp_json = Inr (JObj [(''result'', JObj [(''count'', JInt 1), (''blob'', JStr ''0a'')])]), rp_bytes = [] \<rparr>"

definition wit_source :: source_env where
  "wit_source = \<lparr> se_cfg = default_config\<lparr>c_anchor_window_days := 0\<rparr>, se_checkpoint = wit_cp, se_monerod = wit_monerod,
     se_pow = wit_pow, se_now = 100, se_draws = [] \<rparr>"

definition wit_anchor :: anchor_store where
  "wit_anchor = \<lparr> as_headers = [(0, wit_row 0 (replicate 32 0))], as_blocks = [], as_view = Some (stored_of wit_view) \<rparr>"

lemma wit_pass: "source_pass wit_source wit_anchor = (None, put_block 0 [10] wit_anchor)"
proof -
  have h: "monerod_height wit_monerod = Inr 0" "monerod_block wit_monerod 0 = Inr [10]"
    by (simp_all add: monerod_height_def monerod_block_def wit_monerod_def rpc_result_def obj_get_or_def reraise_def
        json_hex_def hex_val_def ascii_space_def)
  have f: "fetch_from wit_source wit_anchor = 1" "fetch_new_rows wit_monerod 1 0 = Inr []"
    by (simp_all add: fetch_from_def wit_anchor_def anchor_tip_height_def source_start_def wit_source_def wit_cp_def
        HEADER_LOOKBACK_def fetch_new_rows.simps)
  have v: "anchor_view wit_anchor = Some wit_view" by (simp add: anchor_view_def wit_anchor_def)
  have w: "coverage_from wit_view 0 = 0" "tip_height wit_view = 0"
    by (simp_all add: coverage_from_def wit_view_def tip_height_def fmul_def trunc_def)
  show ?thesis
    using h f v w by (simp add: source_pass_def take_headers_def wit_source_def block_at_def wit_anchor_def)
qed


text \<open>A reorganisation of the stored tip: rows are fetched above it only, so when the daemon's next block does not name the
  stored tip as its parent, no pass ever gets past it and the headers stay as they are.\<close>

lemma orphaned_tip_stays:
  assumes "merged_rows env a new_rows = old @ row # new_rows" "new_rows \<noteq> []"
    "\<And>head. parse_hashing_blob (hr_blob (hd new_rows)) = Inr head \<Longrightarrow> hh_prev_id head \<noteq> block_id (hr_blob row)"
  shows "snd (take_headers env new_rows a) = a"
proof -
  obtain e a' where t: "take_headers env new_rows a = (e, a')" by fastforce
  have "verify_full (old @ row # new_rows) cp pow now rs s n \<noteq> Inr v" for cp pow now rs s n v
  proof
    assume "verify_full (old @ row # new_rows) cp pow now rs s n = Inr v"
    then obtain heads where l: "link_rows (old @ row # new_rows) [] [] = Inr (heads, cv_ids v)" by (rule verify_full_parts)
    obtain r rs' where n: "new_rows = r # rs'" using assms(2) by (cases new_rows) auto
    have "link_rows ((old @ [row]) @ r # rs') [] [] = Inr (heads, cv_ids v)" using l by (simp add: n)
    then obtain hs ids where "link_rows (old @ [row]) [] [] = Inr (hs, ids)" "link_rows (r # rs') hs ids = Inr (heads, cv_ids v)"
      unfolding link_rows_append by (auto simp: bindR_Inr_conv simp del: link_rows.simps)
    moreover from this(1) have "ids \<noteq> []" "last ids = block_id (hr_blob row)"
      using link_rows_ids [of "old @ [row]" "[]" "[]" hs ids] by auto
    ultimately obtain head where "parse_row r = Inr head" "hh_prev_id head = block_id (hr_blob row)"
      by (auto simp: bindR_Inr_conv split: if_splits)
    then show False using assms(3) [of head] n by (auto simp: parse_row_def split: sum.splits)
  qed
  then have nv: "verify_headers (merged_rows env a new_rows) (se_checkpoint env) (se_pow env) (se_now env) (se_draws env)
      POW_SAMPLE POW_RECENT None \<noteq> Inr v" for v
    by (simp add: assms(1) verify_headers_def)
  from t have "a' = a"
  proof (cases rule: take_headers_cases)
    case (verified v)
    with nv [of v] show ?thesis by simp
  qed
  then show ?thesis by (simp add: t)
qed

end
