(* ===== verification/Cli.thy ===== *)
theory Cli
  imports Config Share
begin

text \<open>
  The command line of \<open>transpeer/config.py\<close>: the namespace that argparse fills with the declared types and defaults, the
  checks that follow it, the configuration made of it, and the \<open>--anchor-observe\<close> list. Splitting the words of the command
  line into options is argparse's own; the data directory is the file system's. A value given for a float
  option is a rational number.
\<close>

section \<open>The namespace\<close>

record cli_args =
  a_port :: int
  a_bind :: string
  a_difficulty :: int
  a_networks :: "string list"
  a_scan_range :: "string option"
  a_in_memory :: bool
  a_no_pow :: bool
  a_sim_pow :: bool
  a_share_white_list :: bool
  a_static_peers :: "string option"
  a_no_verify :: bool
  a_subnet_prefix :: int
  a_bucketed :: bool
  a_vouchers :: bool
  a_tried_table :: bool
  a_handoff_reserve :: int
  a_native_vouchers :: bool
  a_sim_daemon_listen :: bool
  a_scan_rate :: rat
  a_no_scan :: bool
  a_anchor_publish :: bool
  a_anchor_chain :: string
  a_aux_rpc_bind :: string
  a_aux_rpc_port :: int
  a_aux_diff :: int
  a_anchor_min_age :: rat
  a_anchor_max_new :: rat
  a_anchor_sim_pow :: bool
  a_anchor_read :: bool
  a_anchor_checkpoint :: string
  a_anchor_venues :: string
  a_anchor_window_days :: rat
  a_anchor_monerod :: string
  a_anchor_observe :: string
  a_scan_idle_rate :: rat
  a_scan_target_known :: int
  a_scan_exclude :: "string option"
  a_scan_legacy :: bool
  a_contact :: string
  a_snapshot_interval :: int

text \<open>The namespace of a command line without options.\<close>

definition default_args :: cli_args where
  "default_args = \<lparr>
     a_port = TRANSPEER_PORT, a_bind = ''0.0.0.0'', a_difficulty = DEFAULT_DIFFICULTY,
     a_networks = [''monero'', ''wownero'', ''aeon''], a_scan_range = None, a_in_memory = False, a_no_pow = False,
     a_sim_pow = False, a_share_white_list = False, a_static_peers = None, a_no_verify = False, a_subnet_prefix = 16,
     a_bucketed = False, a_vouchers = False, a_tried_table = False, a_handoff_reserve = 0, a_native_vouchers = False,
     a_sim_daemon_listen = False, a_scan_rate = 4, a_no_scan = False, a_anchor_publish = False, a_anchor_chain = ''monero'',
     a_aux_rpc_bind = ''127.0.0.1'', a_aux_rpc_port = 7338, a_aux_diff = 100000, a_anchor_min_age = 14,
     a_anchor_max_new = 1 / 4, a_anchor_sim_pow = False, a_anchor_read = False, a_anchor_checkpoint = [],
     a_anchor_venues = [], a_anchor_window_days = 7, a_anchor_monerod = [], a_anchor_observe = [], a_scan_idle_rate = 0,
     a_scan_target_known = 3, a_scan_exclude = None, a_scan_legacy = False, a_contact = [], a_snapshot_interval = 0 \<rparr>"

section \<open>From the namespace to the configuration\<close>

text \<open>What \<open>parser.error\<close> ends the program with, or what parsing the static peers raises.\<close>

datatype cli_error = Usage string | Raised exn

text \<open>\<open>read_file\<close> gives the lines of a file; the configuration of this model holds the lines of the exclusion file, which the
  program reads when the scanner is made.\<close>

definition config_of_args :: "(string \<Rightarrow> string list) \<Rightarrow> cli_args \<Rightarrow> cli_error + config" where
  "config_of_args read_file a =
     (if a_anchor_read a \<and> a_anchor_checkpoint a = [] then Inl (Usage ''--anchor-read requires --anchor-checkpoint'')
      else if (a_anchor_monerod a \<noteq> [] \<or> a_anchor_observe a \<noteq> []) \<and> \<not> a_anchor_read a
      then Inl (Usage ''--anchor-monerod and --anchor-observe require --anchor-read'')
      else (case parse_static_peers (a_static_peers a) of
          Inl e \<Rightarrow> Inl (Raised e)
        | Inr static \<Rightarrow> Inr \<lparr>
            c_port = a_port a, c_bind = a_bind a, c_difficulty = a_difficulty a, c_networks = a_networks a,
            c_scan_range = a_scan_range a, c_in_memory = a_in_memory a, c_no_pow = a_no_pow a, c_sim_pow = a_sim_pow a,
            c_share_white_list = a_share_white_list a, c_static_peers = static, c_no_verify = a_no_verify a,
            c_subnet_prefix = a_subnet_prefix a, c_bucketed = a_bucketed a, c_vouchers = a_vouchers a,
            c_tried_table = a_tried_table a, c_snapshot_interval = a_snapshot_interval a,
            c_handoff_reserve = a_handoff_reserve a, c_native_vouchers = a_native_vouchers a,
            c_sim_daemon_listen = a_sim_daemon_listen a, c_native_ports = [],
            c_scan_rate = (if a_no_scan a then 0 else a_scan_rate a), c_scan_idle_rate = a_scan_idle_rate a,
            c_scan_target_known = a_scan_target_known a,
            c_scan_exclude = (case a_scan_exclude a of None \<Rightarrow> None | Some p \<Rightarrow> if p = [] then None else Some (read_file p)),
            c_scan_legacy = a_scan_legacy a, c_contact = a_contact a, c_anchor_publish = a_anchor_publish a,
            c_anchor_chain = a_anchor_chain a, c_aux_rpc_bind = a_aux_rpc_bind a, c_aux_rpc_port = a_aux_rpc_port a,
            c_aux_diff = a_aux_diff a, c_anchor_min_age = a_anchor_min_age a, c_anchor_max_new = a_anchor_max_new a,
            c_anchor_sim_pow = a_anchor_sim_pow a, c_anchor_read = a_anchor_read a,
            c_anchor_checkpoint = a_anchor_checkpoint a, c_anchor_venues = a_anchor_venues a,
            c_anchor_window_days = a_anchor_window_days a, c_anchor_monerod = a_anchor_monerod a,
            c_anchor_observe = a_anchor_observe a \<rparr>))"

lemma default_command_line: "config_of_args read_file default_args = Inr default_config"
  by (simp add: config_of_args_def default_args_def default_config_def parse_static_peers_def)

text \<open>What the rest of the program may rely on: a reader has a checkpoint, the anchor's sources come with a reader, a node
  told not to scan has rate zero, and every static peer has an address.\<close>

lemma peer_list_addresses: "parse_peer_list ps = Inr l \<Longrightarrow> (addr, port) \<in> set l \<Longrightarrow> addr \<noteq> []"
  by (induction ps arbitrary: l) (auto simp: Let_def bindR_Inr_conv split: if_splits prod.splits)

definition named_peers :: "(string, (string \<times> int) list) dict \<Rightarrow> bool" where
  "named_peers d \<longleftrightarrow> (\<forall>(n, ps) \<in> set d. ps \<noteq> [] \<and> (\<forall>(addr, port) \<in> set ps. addr \<noteq> []))"

lemma named_peers_dput:
  "named_peers d \<Longrightarrow> parse_peer_list xs = Inr ps \<Longrightarrow> named_peers (if ps \<noteq> [] then dput n ps d else d)"
proof (cases "ps = []")
  case False
  assume d: "named_peers d" and ps: "parse_peer_list xs = Inr ps"
  from d have "x \<in> set d \<Longrightarrow> (case x of (n, ps) \<Rightarrow> ps \<noteq> [] \<and> (\<forall>(addr, port) \<in> set ps. addr \<noteq> []))" for x
    by (auto simp: named_peers_def)
  moreover from ps have "\<forall>(addr, port) \<in> set ps. addr \<noteq> []" by (auto dest: peer_list_addresses)
  ultimately have "x = (n, ps) \<or> x \<in> set d \<Longrightarrow> (case x of (n, ps) \<Rightarrow> ps \<noteq> [] \<and> (\<forall>(addr, port) \<in> set ps. addr \<noteq> []))" for x
    using False by blast
  with dput_in [of _ n ps d] have "x \<in> set (dput n ps d) \<Longrightarrow> (case x of (n, ps) \<Rightarrow> ps \<noteq> [] \<and> (\<forall>(addr, port) \<in> set ps. addr \<noteq> []))" for x
    by blast
  then show ?thesis using False by (simp add: named_peers_def)
qed simp

lemma net_specs_addresses: "parse_net_specs specs d = Inr d' \<Longrightarrow> named_peers d \<Longrightarrow> named_peers d'"
proof (induction specs arbitrary: d)
  case (Cons spec rest)
  consider (pair) n s where "spec \<noteq> []" "split1 CHR '':'' spec = [n, s]" | (skip) "spec = [] \<or> split1 CHR '':'' spec = [spec]"
    by (cases "spec = []"; cases "CHR '':'' \<in> set spec") (auto simp: split1_def)
  then show ?case
  proof cases
    case (pair n s)
    obtain ps where ps: "parse_peer_list (split_on CHR '','' s) = Inr ps"
      "parse_net_specs rest (if ps \<noteq> [] then dput n ps d else d) = Inr d'"
      using Cons.prems(1) pair by (simp only: parse_net_specs.simps if_False list.case bindR_Inr_conv) blast
    then show ?thesis using Cons.IH named_peers_dput [OF Cons.prems(2)] by blast
  next
    case skip
    then show ?thesis using Cons by (cases "spec = []") auto
  qed
qed simp

lemma static_peers_named: "parse_static_peers spec = Inr (Some d) \<Longrightarrow> named_peers d"
  by (auto simp: parse_static_peers_def bindR_Inr_conv named_peers_def [of "[]"] dest!: net_specs_addresses
      split: option.splits if_splits)

lemma accepted_command_line:
  assumes "config_of_args read_file a = Inr cfg"
  shows "(c_anchor_read cfg \<longrightarrow> c_anchor_checkpoint cfg \<noteq> []) \<and>
     (c_anchor_monerod cfg \<noteq> [] \<or> c_anchor_observe cfg \<noteq> [] \<longrightarrow> c_anchor_read cfg) \<and>
     (a_no_scan a \<longrightarrow> c_scan_rate cfg = 0) \<and> (\<forall>d. c_static_peers cfg = Some d \<longrightarrow> named_peers d)"
  using assms static_peers_named by (auto simp: config_of_args_def split: if_splits sum.splits)

section \<open>The observed P2Pool nodes\<close>

definition port_to_venue :: "(int, bytes) dict" where
  "port_to_venue = fold (\<lambda>(name, port) d. case dget VENUES name of None \<Rightarrow> d | Some v \<Rightarrow> dput port v d) VENUE_PORTS []"

definition observe_entry :: "string \<Rightarrow> (bytes \<times> string \<times> int) result" where
  "observe_entry entry =
     (let (venue_spec, hostport) = (case split1 CHR ''@'' entry of [v, h] \<Rightarrow> (Some v, h) | _ \<Rightarrow> (None, entry));
          (host, port_s) = rpartition CHR '':'' hostport in
      if host = [] then Inl (ValueError ''invalid --anchor-observe entry'')
      else bindR (int_of_str port_s) (\<lambda>port.
        bindR (case venue_spec of
            None \<Rightarrow> (case dget port_to_venue port of
               None \<Rightarrow> Inl (ValueError ''--anchor-observe: unknown port, name the venue explicitly'') | Some v \<Rightarrow> Inr v)
          | Some v \<Rightarrow> (case dget VENUES v of
               Some c \<Rightarrow> Inr c
             | None \<Rightarrow> if length v = 64 then fromhex v else Inl (ValueError ''--anchor-observe: unknown venue'')))
          (\<lambda>consensus_id. Inr (consensus_id, host, port))))"

fun observe_entries :: "string list \<Rightarrow> (bytes \<times> string \<times> int) list result" where
  "observe_entries [] = Inr []"
| "observe_entries (e # es) =
     (let entry = strip e in
      if entry = [] then observe_entries es
      else bindR (observe_entry entry) (\<lambda>x. bindR (observe_entries es) (\<lambda>xs. Inr (x # xs))))"

definition parse_observe :: "string \<Rightarrow> (bytes \<times> string \<times> int) list result" where
  "parse_observe spec =
     (let spec = strip spec in if spec = [] then Inr [] else observe_entries (split_on CHR '','' spec))"

lemma observe_entries_in: "observe_entries es = Inr xs \<Longrightarrow> x \<in> set xs \<Longrightarrow> \<exists>e. observe_entry e = Inr x"
  by (induction es arbitrary: xs) (auto simp: Let_def bindR_Inr_conv split: if_splits)

lemma observe_entry_shape: "observe_entry e = Inr (cid, host, port) \<Longrightarrow> host \<noteq> []"
  by (auto simp: observe_entry_def Let_def split_beta bindR_Inr_conv split: if_splits)

lemma parse_observe_hosts: "parse_observe spec = Inr xs \<Longrightarrow> (cid, host, port) \<in> set xs \<Longrightarrow> host \<noteq> []"
  using observe_entries_in observe_entry_shape
  by (fastforce simp: parse_observe_def Let_def split: if_splits)

end
