(* ===== verification/Node.thy ===== *)
theory Node
  imports Challenge Scanner Networks Monerod AuxRpc Cli
begin

text \<open>
  \<open>transpeer/node.py\<close>: what the node builds at start and the body of every periodic loop, as a function on the state of the node.
  The loops run in one thread and give way only where they wait; here a body is one step, and what it waits for
  (answers of daemons, of transpeers and of P2Pool nodes, the clock, the draws) is an argument. Sleeping, logging and
  the servers' sockets are not modelled.
\<close>

section \<open>The state of the node\<close>

type_synonym local_proofs = "(string \<times> string \<times> int, bytes \<times> bytes \<times> int) dict"

text \<open>\<open>nd_rd\<close> holds the peer store, the blob database, the anchor store and the share stores; \<open>nd_observed\<close> the stores of the
  observed venues that the reader had no store for at start; the two files are what was last written to the data directory.\<close>

record node =
  nd_id :: string
  nd_start :: rat
  nd_rd :: anchor_reader
  nd_plugins :: "(string, plugin) dict"
  nd_proofs :: local_proofs
  nd_probed :: "(string, int) dict"
  nd_cache :: proof_cache
  nd_scanner :: scanner
  nd_limits :: "(string, rat list) dict"
  nd_load :: load_tracker
  nd_publisher :: "publisher option"
  nd_aux_stats :: aux_stats
  nd_challenger :: challenger
  nd_observed :: "(bytes, share_store) dict"
  nd_anchor_saved :: "nat \<times> nat"
  nd_chain_saved :: "(int option \<times> nat \<times> nat) option"
  nd_blob_file :: "json option"
  nd_chain_file :: "json option"

abbreviation nd_store :: "node \<Rightarrow> store" where "nd_store nd \<equiv> rd_store (nd_rd nd)"

definition put_store :: "store \<Rightarrow> node \<Rightarrow> node" where
  "put_store st nd = nd\<lparr>nd_rd := (nd_rd nd)\<lparr>rd_store := st\<rparr>\<rparr>"

lemma put_store_simps [simp]:
  "nd_store (put_store st nd) = st" "nd_proofs (put_store st nd) = nd_proofs nd" "nd_probed (put_store st nd) = nd_probed nd"
  "nd_plugins (put_store st nd) = nd_plugins nd" "nd_cache (put_store st nd) = nd_cache nd"
  "nd_observed (put_store st nd) = nd_observed nd" "nd_scanner (put_store st nd) = nd_scanner nd"
  by (simp_all add: put_store_def)

section \<open>Start\<close>

text \<open>Unknown networks are skipped with a warning; of two specifications with one name the later one counts.\<close>

fun load_networks :: "bool \<Rightarrow> string list \<Rightarrow> (string, plugin) dict \<Rightarrow> (string, plugin) dict result" where
  "load_networks white [] nets = Inr nets"
| "load_networks white (spec # specs) nets =
     (case get_network spec of
        Inr pl \<Rightarrow> load_networks white specs (dput (pl_name pl) (pl\<lparr>pl_white_list := white\<rparr>) nets)
      | Inl e \<Rightarrow> if is_value_error e then load_networks white specs nets else Inl e)"

definition native_ports :: "(string, plugin) dict \<Rightarrow> (string, int) dict" where
  "native_ports nets = map (\<lambda>(name, pl). (name, pl_port pl)) nets"

text \<open>\<open>Node.__init__\<close>: the networks, the scanner with its exclusion file, and a peer store \<open>st\<close> (\<open>store.init()\<close> has loaded it from
  the database); nothing is published or read yet.\<close>

definition empty_reader :: "store \<Rightarrow> anchor_reader" where
  "empty_reader st = \<lparr> rd_store = st, rd_blobdb = empty_db, rd_anchor = empty_anchor, rd_shares = [], rd_disk = (\<lambda>_. None),
     rd_state = new_reader_state, rd_discovered = [], rd_cursors = [] \<rparr>"

definition new_node :: "config \<Rightarrow> string \<Rightarrow> rat \<Rightarrow> store \<Rightarrow> node result" where
  "new_node cfg node_id start st =
     bindR (new_scanner cfg node_id) (\<lambda>sc.
     bindR (load_networks (c_share_white_list cfg) (c_networks cfg) []) (\<lambda>nets.
       Inr \<lparr> nd_id = node_id, nd_start = start, nd_rd = empty_reader st, nd_plugins = nets, nd_proofs = [], nd_probed = [],
         nd_cache = [], nd_scanner = sc, nd_limits = [], nd_load = new_tracker, nd_publisher = None,
         nd_aux_stats = \<lparr> as_get_aux_block = 0, as_changed = 0, as_submit = 0, as_submit_rejected = 0 \<rparr>,
         nd_challenger = new_challenger, nd_observed = [], nd_anchor_saved = (0, 0), nd_chain_saved = None,
         nd_blob_file = None, nd_chain_file = None \<rparr>))"

text \<open>What the data directory holds: the document of the blob database (nothing when the file is missing, an exception when it is
  no JSON), the parsed document of the anchor store (nothing when it is missing or no JSON), and the files of each
  venue directory in the order they are listed, with their bytes where they can be read.\<close>

record disk =
  dk_blobs :: "json option result"
  dk_chain :: "json option"
  dk_venues :: "bytes \<Rightarrow> (string \<times> bytes option) list option"

definition load_blobs :: "config \<Rightarrow> disk \<Rightarrow> blob_db result" where
  "load_blobs cfg dk =
     (if c_in_memory cfg then Inr empty_db
      else bindR (dk_blobs dk) (\<lambda>doc. case doc of None \<Rightarrow> Inr empty_db | Some d \<Rightarrow> db_from_json d))"

definition load_anchor :: "config \<Rightarrow> disk \<Rightarrow> anchor_store result" where
  "load_anchor cfg dk =
     (if c_in_memory cfg then Inr empty_anchor
      else (case anchor_load (dk_chain dk) empty_anchor of (Some e, a) \<Rightarrow> Inl e | (None, a) \<Rightarrow> Inr a))"

definition load_venue :: "config \<Rightarrow> disk \<Rightarrow> bytes \<Rightarrow> share_store" where
  "load_venue cfg dk venue =
     (if c_in_memory cfg then new_share_store False None
      else (case dk_venues dk venue of
          None \<Rightarrow> new_share_store True None
        | Some files \<Rightarrow> share_load venue files
            (new_share_store True (Some (map (\<lambda>(name, content). (name, case content of None \<Rightarrow> [] | Some d \<Rightarrow> d)) files)))))"

definition load_shares :: "config \<Rightarrow> disk \<Rightarrow> (bytes, share_store) dict" where
  "load_shares cfg dk = map (\<lambda>v. (v, load_venue cfg dk v)) (dkeys (venues_from_config cfg))"

text \<open>The observed venues the reader has no store for.\<close>

fun load_observed :: "config \<Rightarrow> disk \<Rightarrow> (bytes, share_store) dict \<Rightarrow> (bytes \<times> string \<times> int) list \<Rightarrow>
    (bytes, share_store) dict \<Rightarrow> (bytes, share_store) dict" where
  "load_observed cfg dk shares [] d = d"
| "load_observed cfg dk shares ((cid, host, port) # es) d =
     load_observed cfg dk shares es
       (if dget d cid \<noteq> None \<or> (c_anchor_read cfg \<and> dget shares cid \<noteq> None) then d else dput cid (load_venue cfg dk cid) d)"

text \<open>The part of \<open>Node.run\<close> that builds the rest, with the configuration it completes, the proof-of-work backend of the reader and
  the observer, and the observed nodes. A missing RandomX module, which ends the program with status 2, is the backend's exception.\<close>

definition start_node :: "config \<Rightarrow> disk \<Rightarrow> (bytes \<Rightarrow> bytes \<Rightarrow> bytes) option \<Rightarrow> node \<Rightarrow>
    (config \<times> pow_backend option \<times> (bytes \<times> string \<times> int) list \<times> node) result" where
  "start_node cfg dk randomx nd =
     (let cfg = cfg\<lparr>c_native_ports := native_ports (nd_plugins nd)\<rparr>; anchored = c_anchor_publish cfg \<or> c_anchor_read cfg in
      bindR (if anchored then load_blobs cfg dk else Inr empty_db) (\<lambda>db.
      bindR (if c_anchor_read cfg then load_anchor cfg dk else Inr empty_anchor) (\<lambda>a.
      bindR (if c_anchor_read cfg then map_sum id Some (backend_for (c_anchor_sim_pow cfg) randomx) else Inr None) (\<lambda>pow.
      bindR (if c_anchor_observe cfg \<noteq> [] then parse_observe (c_anchor_observe cfg) else Inr []) (\<lambda>observe.
      bindR (if c_anchor_observe cfg \<noteq> [] \<and> pow = None then map_sum id Some (backend_for (c_anchor_sim_pow cfg) randomx) else Inr pow) (\<lambda>pow.
        let shares = (if c_anchor_read cfg then load_shares cfg dk else []) in
        Inr (cfg, pow, observe, nd\<lparr>
          nd_rd := (nd_rd nd)\<lparr>rd_blobdb := db, rd_anchor := a, rd_shares := shares,
            rd_disk := (if c_in_memory cfg then (\<lambda>_. None) else (\<lambda>v. map_option (map (\<lambda>(name, content). (name, case content of None \<Rightarrow> [] | Some d \<Rightarrow> d))) (dk_venues dk v)))\<rparr>,
          nd_publisher := (if c_anchor_publish cfg then Some new_publisher else None),
          nd_observed := load_observed cfg dk shares observe []\<rparr>)))))))"

section \<open>Extracting peers from the local daemons\<close>

record extract_env =
  xe_now :: int
  xe_reply :: "reply option"
  xe_lib :: "equix option"
  xe_clock :: "nat \<Rightarrow> int"
  xe_rand :: "nat \<Rightarrow> nat \<Rightarrow> bytes"
  xe_sim :: "nat \<Rightarrow> bytes \<times> bytes"

definition extract_infos :: "config \<Rightarrow> string \<Rightarrow> plugin \<Rightarrow> reply option \<Rightarrow> peer_info list result" where
  "extract_infos cfg name pl rp =
     (case c_static_peers cfg of
        None \<Rightarrow> extract_peers pl rp
      | Some d \<Rightarrow> (case dget d name of
          None \<Rightarrow> extract_peers pl rp
        | Some ps \<Rightarrow> Inr (map (\<lambda>(a, p). (JStr a, JInt p)) ps)))"

text \<open>The daemon's own fields are not checked; a host that is no string or a port that is no integer is outside of this model.\<close>

fun typed_infos :: "peer_info list \<Rightarrow> (string \<times> int) list option" where
  "typed_infos [] = Some []"
| "typed_infos ((JStr a, JInt p) # infos) = map_option ((#) (a, p)) (typed_infos infos)"
| "typed_infos (info # infos) = None"

text \<open>A proof for the current bucket is reused; otherwise one is made, on the \<open>i\<close>-th clock reading.\<close>

definition fresh_proof :: "config \<Rightarrow> extract_env \<Rightarrow> nat \<Rightarrow> string \<Rightarrow> string \<Rightarrow> int \<Rightarrow> (bytes \<times> bytes \<times> int) result" where
  "fresh_proof cfg env i name addr port =
     (if c_no_pow cfg then Inr (replicate 16 0, replicate 16 0, 0)
      else if c_sim_pow cfg then Inr (solve_simulated (fst (xe_sim env i)) (snd (xe_sim env i)) (xe_clock env i))
      else solve (xe_lib env) name addr port (c_difficulty cfg) (xe_rand env i) (xe_clock env i))"

definition local_proof :: "config \<Rightarrow> extract_env \<Rightarrow> nat \<Rightarrow> string \<Rightarrow> string \<Rightarrow> int \<Rightarrow> local_proofs \<Rightarrow> (bytes \<times> bytes \<times> int) result" where
  "local_proof cfg env i name addr port proofs =
     (case dget proofs (name, addr, port) of
        Some (nonce, sol, bucket) \<Rightarrow>
          if bucket = xe_now env div TIMESTAMP_BUCKET_SECS then Inr (nonce, sol, bucket) else fresh_proof cfg env i name addr port
      | None \<Rightarrow> fresh_proof cfg env i name addr port)"

definition local_peer :: "config \<Rightarrow> int \<Rightarrow> string \<Rightarrow> string \<Rightarrow> int \<Rightarrow> bytes \<times> bytes \<times> int \<Rightarrow> peer" where
  "local_peer cfg now name addr port pf = (case pf of (nonce, sol, bucket) \<Rightarrow>
     (new_peer name addr port)\<lparr> p_last_seen := now, p_sources := 1, p_verified := True, p_nonce := nonce,
        p_effort := c_difficulty cfg, p_solution := sol, p_timestamp_bucket := bucket \<rparr>)"

fun extract_each :: "config \<Rightarrow> extract_env \<Rightarrow> string \<Rightarrow> nat \<Rightarrow> (string \<times> int) list \<Rightarrow> store \<times> local_proofs \<Rightarrow>
    exn option \<times> store \<times> local_proofs" where
  "extract_each cfg env name i [] s = (None, s)"
| "extract_each cfg env name i ((addr, port) # infos) (st, proofs) =
     (case local_proof cfg env i name addr port proofs of
        Inl e \<Rightarrow> (Some e, st, proofs)
      | Inr pf \<Rightarrow> extract_each cfg env name (i + 1) infos
          (snd (add_peer cfg (xe_now env) (local_peer cfg (xe_now env) name addr port pf) [] st), dput (name, addr, port) pf proofs))"

definition DAEMON_PROBE_INTERVAL :: int where "DAEMON_PROBE_INTERVAL = 6 * 3600"

definition queue_daemon_peer :: "int \<Rightarrow> string \<Rightarrow> store \<times> (string, int) dict \<Rightarrow> store \<times> (string, int) dict" where
  "queue_daemon_peer now addr s = (case s of (st, probed) \<Rightarrow>
     let prev = (case dget probed addr of None \<Rightarrow> 0 | Some t \<Rightarrow> t) in
     if now - prev \<ge> DAEMON_PROBE_INTERVAL then (add_candidate now addr st, dput addr now probed) else (st, probed))"

definition queue_daemon_peers :: "int \<Rightarrow> (string \<times> int) list \<Rightarrow> store \<times> (string, int) dict \<Rightarrow> store \<times> (string, int) dict" where
  "queue_daemon_peers now infos s = fold (queue_daemon_peer now) (map fst infos) s"

text \<open>The body of the loop for one network; an exception is logged and ends it where it is.\<close>

definition extract_network :: "config \<Rightarrow> extract_env \<Rightarrow> string \<Rightarrow> plugin \<Rightarrow> node \<Rightarrow> node option" where
  "extract_network cfg env name pl nd =
     (case extract_infos cfg name pl (xe_reply env) of
        Inl e \<Rightarrow> Some nd
      | Inr infos \<Rightarrow>
          (case typed_infos infos of
             None \<Rightarrow> None
           | Some infos \<Rightarrow>
               let (st, probed) = (if c_scan_legacy cfg then (nd_store nd, nd_probed nd)
                                   else queue_daemon_peers (xe_now env) infos (nd_store nd, nd_probed nd));
                   (e, st, proofs) = extract_each cfg env name 0 infos (st, nd_proofs nd)
               in Some ((put_store st nd)\<lparr>nd_probed := probed, nd_proofs := proofs\<rparr>)))"

section \<open>Scanning, querying, verifying, pruning\<close>

text \<open>A batch that raises leaves what it did; \<^const>\<open>None\<close> means that the draws have run out.\<close>

definition scan_pass :: "config \<Rightarrow> (nat \<Rightarrow> rand) \<Rightarrow> probe_env \<Rightarrow> node \<Rightarrow> node" where
  "scan_pass cfg draws env nd =
     (let idle = (if c_anchor_read cfg then Some (st_bootstrapped (rd_state (nd_rd nd))) else None) in
      case scan_batch cfg idle draws env (nd_scanner nd) (nd_store nd) of
        (r, sc, st) \<Rightarrow> (put_store st nd)\<lparr>nd_scanner := sc\<rparr>)"

text \<open>The callback after a query that was answered is the gossip of the reader, whose exceptions stay there.\<close>

definition query_one :: "config \<Rightarrow> equix option \<Rightarrow> query_env \<Rightarrow> reader_env \<Rightarrow> int \<Rightarrow> tentry \<Rightarrow> node \<Rightarrow> node option" where
  "query_one cfg lib env renv now entry nd =
     (case query_transpeer cfg lib (env\<lparr>qe_after := \<lambda>t st. st\<rparr>) entry (nd_store nd) (nd_cache nd) of
        None \<Rightarrow> None
      | Some (r, st, cache) \<Rightarrow>
          let nd = (put_store st nd)\<lparr>nd_cache := cache\<rparr>;
              nd = (if r = Inr True \<and> c_anchor_read cfg then nd\<lparr>nd_rd := snd (gossip_entry renv entry (nd_rd nd))\<rparr> else nd)
          in Some (put_store (mark_queried now (t_addr entry) (t_port entry) (r = Inr True) (nd_store nd)) nd))"

fun query_entries :: "config \<Rightarrow> equix option \<Rightarrow> (tentry \<Rightarrow> query_env \<times> reader_env \<times> int) \<Rightarrow> tentry list \<Rightarrow> node \<Rightarrow> node option" where
  "query_entries cfg lib env [] nd = Some nd"
| "query_entries cfg lib env (t # ts) nd =
     (case env t of (qe, re, now) \<Rightarrow> case query_one cfg lib qe re now t nd of
        None \<Rightarrow> None | Some nd \<Rightarrow> query_entries cfg lib env ts nd)"

definition query_pass :: "config \<Rightarrow> equix option \<Rightarrow> rand \<Rightarrow> (tentry \<Rightarrow> query_env \<times> reader_env \<times> int) \<Rightarrow> node \<Rightarrow> node option" where
  "query_pass cfg lib rs env nd = query_entries cfg lib env (get_transpeers_for_query cfg QUERY_BATCH_SIZE rs (nd_store nd)) nd"

text \<open>Our own networks are checked by their plugins, the others by connecting.\<close>

definition peer_alive :: "(string, plugin) dict \<Rightarrow> (string \<Rightarrow> int \<Rightarrow> bool) \<Rightarrow> (string \<Rightarrow> int \<Rightarrow> bytes option) \<Rightarrow> string \<Rightarrow>
    string \<Rightarrow> int \<Rightarrow> bool result" where
  "peer_alive nets connects first8 network addr port = Inr (case dget nets network of
     None \<Rightarrow> connects addr port | Some pl \<Rightarrow> verify_peer pl (connects addr port) (first8 addr port))"

definition verify_pass :: "config \<Rightarrow> int \<Rightarrow> (peer list \<Rightarrow> peer list) \<Rightarrow> (string \<Rightarrow> int \<Rightarrow> bool) \<Rightarrow>
    (string \<Rightarrow> int \<Rightarrow> bytes option) \<Rightarrow> node \<Rightarrow> node" where
  "verify_pass cfg now order connects first8 nd =
     (if c_no_verify cfg then nd
      else put_store (fold (\<lambda>n. verify_peers cfg now order (peer_alive (nd_plugins nd) connects first8 n) n)
             (get_all_networks (nd_store nd)) (nd_store nd)) nd)"

definition prune_pass :: "int \<Rightarrow> node \<Rightarrow> node" where
  "prune_pass now nd = put_store (snd (prune_stale now (nd_store nd))) nd"

definition candidate_pass :: "config \<Rightarrow> probe_env \<Rightarrow> node \<Rightarrow> node" where
  "candidate_pass cfg env nd = put_store (snd (probe_candidates cfg env (nd_store nd))) nd"

section \<open>The anchor loops\<close>

text \<open>After a change the list is curated once more for the log line.\<close>

definition publish_state :: "config \<Rightarrow> rat \<Rightarrow> publisher \<Rightarrow> node \<Rightarrow> exn option \<times> node" where
  "publish_state cfg now pb nd =
     (case refresh cfg (rd_blobdb (nd_rd nd)) now (nd_store nd, pb) of
        (Inl e, st, pb) \<Rightarrow> (Some e, (put_store st nd)\<lparr>nd_publisher := Some pb\<rparr>)
      | (Inr changed, st, pb) \<Rightarrow>
          let nd = (put_store st nd)\<lparr>nd_publisher := Some pb\<rparr> in
          if \<not> changed then (None, nd)
          else (case curate cfg (rd_blobdb (nd_rd nd)) now (nd_store nd) of
              (Inl e, st) \<Rightarrow> (Some e, put_store st nd)
            | (Inr es, st) \<Rightarrow> (None, put_store st nd)))"

definition anchor_pass :: "config \<Rightarrow> rat \<Rightarrow> node \<Rightarrow> node" where
  "anchor_pass cfg now nd =
     (case nd_publisher nd of
        None \<Rightarrow> nd
      | Some pb \<Rightarrow> (case publish_state cfg now pb nd of
          (Some e, nd) \<Rightarrow> nd
        | (None, nd) \<Rightarrow>
            let db = rd_blobdb (nd_rd nd); state = (blob_count db, commitment_count db) in
            if \<not> c_in_memory cfg \<and> state \<noteq> nd_anchor_saved nd \<and> state \<noteq> (0, 0)
            then nd\<lparr>nd_blob_file := Some (db_to_json db), nd_anchor_saved := state\<rparr> else nd))"

definition reader_sources :: "store \<Rightarrow> entry list" where
  "reader_sources st =
     (let entries = dvals (s_transpeers st) in
      map (\<lambda>t. (t_addr t, t_port t)) (take 5 (filter t_alive entries @ filter (\<lambda>t. \<not> t_alive t) entries)))"

definition chain_state :: "node \<Rightarrow> int option \<times> nat \<times> nat" where
  "chain_state nd = (anchor_tip_height (rd_anchor (nd_rd nd)), blob_count (rd_blobdb (nd_rd nd)), commitment_count (rd_blobdb (nd_rd nd)))"

definition save_anchor_state :: "node \<Rightarrow> node" where
  "save_anchor_state nd =
     (if nd_chain_saved nd = Some (chain_state nd) then nd
      else nd\<lparr>nd_chain_file := Some (anchor_save (rd_anchor (nd_rd nd))),
              nd_blob_file := (if nd_publisher nd = None then Some (db_to_json (rd_blobdb (nd_rd nd))) else nd_blob_file nd),
              nd_chain_saved := Some (chain_state nd)\<rparr>)"

definition reader_pass :: "config \<Rightarrow> reader_env \<Rightarrow> node \<Rightarrow> node" where
  "reader_pass cfg renv nd =
     (if \<not> c_anchor_read cfg then nd
      else (case sync renv (reader_sources (nd_store nd)) (nd_rd nd) of
          (Inl e, rd) \<Rightarrow> nd\<lparr>nd_rd := rd\<rparr>
        | (Inr s, rd) \<Rightarrow> let nd = nd\<lparr>nd_rd := rd\<rparr> in if c_in_memory cfg then nd else save_anchor_state nd))"

text \<open>The exceptions the loop does not catch end the node.\<close>

definition source_caught :: "exn \<Rightarrow> bool" where
  "source_caught e \<longleftrightarrow> is_value_error e \<or> (\<exists>m. e = ConnectionError m)"

definition anchor_source_body :: "config \<Rightarrow> source_env \<Rightarrow> node \<Rightarrow> exn option \<times> node" where
  "anchor_source_body cfg env nd =
     (case source_pass env (rd_anchor (nd_rd nd)) of (e, a) \<Rightarrow>
      let nd = nd\<lparr>nd_rd := (nd_rd nd)\<lparr>rd_anchor := a\<rparr>\<rparr> in
      case e of
        None \<Rightarrow> (None, if c_in_memory cfg then nd else save_anchor_state nd)
      | Some e \<Rightarrow> (if source_caught e then None else Some e, nd))"

definition challenge_pass :: "config \<Rightarrow> network \<Rightarrow> int \<Rightarrow> rand \<Rightarrow> node \<Rightarrow> node" where
  "challenge_pass cfg net now rs nd =
     (if \<not> c_anchor_read cfg then nd
      else (case challenge_round net now rs (nd_challenger nd) (nd_rd nd) of
          (ch, rd) \<Rightarrow> nd\<lparr>nd_challenger := ch, nd_rd := rd\<rparr>))"

section \<open>Observing P2Pool\<close>

text \<open>The seed hash is left at its default of 32 zero bytes.\<close>

definition observe_share :: "pow_backend \<Rightarrow> parsed_share \<Rightarrow> share_store \<Rightarrow> share_store" where
  "observe_share pow sh s = (if verify_share_pow sh pow (replicate 32 0) then snd (share_add sh s) else s)"

text \<open>A share that arrives as a broadcast.\<close>

definition on_share :: "pow_backend \<Rightarrow> bytes \<Rightarrow> bytes \<Rightarrow> share_store \<Rightarrow> exn option \<times> share_store" where
  "on_share pow consensus_id raw s = (case parse_share raw consensus_id of
     Inl e \<Rightarrow> (if is_value_error e then None else Some e, s)
   | Inr sh \<Rightarrow> (None, observe_share pow sh s))"

text \<open>\<open>ask\<close> is the answer to a request for a block by its id: an exception, or a block that may be empty. The first argument is how many
  parents may still be walked.\<close>

fun observe_walk :: "pow_backend \<Rightarrow> bytes \<Rightarrow> (bytes \<Rightarrow> bytes result) \<Rightarrow> nat \<Rightarrow> bytes \<Rightarrow> share_store \<Rightarrow> exn option \<times> share_store" where
  "observe_walk pow cid ask 0 parent s = (None, s)"
| "observe_walk pow cid ask (Suc n) parent s =
     (if parent = replicate 32 0 \<or> share_get parent s \<noteq> None then (None, s)
      else (case ask parent of
          Inl e \<Rightarrow> (Some e, s)
        | Inr raw \<Rightarrow>
            if raw = [] then (None, s)
            else (case parse_share raw cid of
                Inl e \<Rightarrow> (if is_value_error e then None else Some e, s)
              | Inr sh \<Rightarrow>
                  if \<not> verify_share_pow sh pow (replicate 32 0) then (None, s)
                  else observe_walk pow cid ask n (ps_parent sh) (snd (share_add sh s)))))"

definition OBSERVE_WALK :: nat where "OBSERVE_WALK = 64"

definition observe_venue :: "pow_backend \<Rightarrow> bytes \<Rightarrow> (bytes \<Rightarrow> bytes result) \<Rightarrow> share_store \<Rightarrow> exn option \<times> share_store" where
  "observe_venue pow cid ask s =
     (case ask (replicate 32 0) of
        Inl e \<Rightarrow> (Some e, s)
      | Inr raw \<Rightarrow>
          if raw = [] then (None, s)
          else (case parse_share raw cid of
              Inl e \<Rightarrow> (if is_value_error e then None else Some e, s)
            | Inr sh \<Rightarrow> observe_walk pow cid ask OBSERVE_WALK (ps_parent sh) (observe_share pow sh s)))"

text \<open>The store of an observed venue is the reader's own where it had one at start. A failed connection drops the client;
  another exception ends the node.\<close>

definition observed_store :: "node \<Rightarrow> bytes \<Rightarrow> share_store option" where
  "observed_store nd cid = (case dget (nd_observed nd) cid of Some s \<Rightarrow> Some s | None \<Rightarrow> dget (rd_shares (nd_rd nd)) cid)"

definition put_observed :: "bytes \<Rightarrow> share_store \<Rightarrow> node \<Rightarrow> node" where
  "put_observed cid s nd =
     (if dget (nd_observed nd) cid \<noteq> None then nd\<lparr>nd_observed := dput cid s (nd_observed nd)\<rparr>
      else nd\<lparr>nd_rd := (nd_rd nd)\<lparr>rd_shares := dput cid s (rd_shares (nd_rd nd))\<rparr>\<rparr>)"

definition observe_pass :: "pow_backend \<Rightarrow> bytes \<Rightarrow> (bytes \<Rightarrow> bytes result) \<Rightarrow> node \<Rightarrow> exn option \<times> node" where
  "observe_pass pow cid ask nd = (case observed_store nd cid of
     None \<Rightarrow> (Some (KeyError ''consensus id''), nd)
   | Some s \<Rightarrow> (case observe_venue pow cid ask s of
       (e, s) \<Rightarrow> (case e of Some (ConnectionError m) \<Rightarrow> None | _ \<Rightarrow> e, put_observed cid s nd)))"

section \<open>The two servers\<close>

definition node_server :: "config \<Rightarrow> node \<Rightarrow> server" where
  "node_server cfg nd = \<lparr> sv_cfg = cfg, sv_node_id = nd_id nd, sv_start = nd_start nd,
     sv_networks = (if nd_plugins nd \<noteq> [] then dkeys (nd_plugins nd) else c_networks cfg),
     sv_store = nd_store nd, sv_limits = nd_limits nd, sv_load = nd_load nd,
     sv_blobdb = (if c_anchor_publish cfg \<or> c_anchor_read cfg then Some (rd_blobdb (nd_rd nd)) else None),
     sv_publisher = nd_publisher nd,
     sv_anchor = (if c_anchor_read cfg then Some (rd_anchor (nd_rd nd)) else None),
     sv_shares = (if c_anchor_read cfg then rd_shares (nd_rd nd) else []) \<rparr>"

definition serve_request :: "config \<Rightarrow> equix option \<Rightarrow> rat \<Rightarrow> rand \<Rightarrow> request \<Rightarrow> node \<Rightarrow> response \<times> node" where
  "serve_request cfg lib now rs rq nd =
     (case serve lib now rs rq (node_server cfg nd) of
        (r, sv) \<Rightarrow> (r, (put_store (sv_store sv) nd)\<lparr>nd_limits := sv_limits sv, nd_load := sv_load sv\<rparr>))"

definition serve_aux :: "config \<Rightarrow> rat \<Rightarrow> json result \<Rightarrow> node \<Rightarrow> json result option \<times> node" where
  "serve_aux cfg now doc nd = (case nd_publisher nd of
     None \<Rightarrow> (None, nd)
   | Some pb \<Rightarrow>
       (case rpc_http cfg now doc \<lparr> ax_store = nd_store nd, ax_publisher = pb, ax_db = rd_blobdb (nd_rd nd), ax_stats = nd_aux_stats nd \<rparr> of
          (r, ax) \<Rightarrow> (Some r, nd\<lparr>nd_rd := (nd_rd nd)\<lparr>rd_store := ax_store ax, rd_blobdb := ax_db ax\<rparr>,
             nd_publisher := Some (ax_publisher ax), nd_aux_stats := ax_stats ax\<rparr>)))"

end
