(* ===== verification/NodeSound.thy ===== *)
theory NodeSound
  imports ReaderTheorems Node
begin

text \<open>
  Every loop body of \<open>Node.thy\<close> keeps the peer store sound: its capacity limits, its keys and the shape of the queued
  candidates. The store operations are an instance of the shared history locale, each component's pass is a
  sequence of them, and the steps of the reader are split into those that leave the peer store alone and the seeding.
\<close>

section \<open>The peer store through the bodies of the loops\<close>

text \<open>What every body keeps: the limits and keys of the peer store, and that the queued candidates are addresses without a colon.\<close>

definition candidates_ok :: "store \<Rightarrow> bool" where
  "candidates_ok st \<longleftrightarrow> (\<forall>a \<in> set (dkeys (s_candidates st)). addr_ok a)"

definition store_sound :: "config \<Rightarrow> store \<Rightarrow> bool" where
  "store_sound cfg st \<longleftrightarrow> store_inv cfg st \<and> candidates_ok st"

lemma store_sound_frame:
  assumes "store_sound cfg st" "s_peers st' = s_peers st" "s_transpeers st' = s_transpeers st" "s_candidates st' = s_candidates st"
  shows "store_sound cfg st'"
  using assms by (simp add: store_sound_def store_inv_def candidates_ok_def)

lemma delete_rows_candidates [simp]:
  "s_candidates (snd (delete_peer_rows ks st)) = s_candidates st"
  "s_candidates (snd (delete_transpeer_rows ks st)) = s_candidates st"
  by (induction ks arbitrary: st)
    (auto simp: Let_def delete_peer_row_def delete_transpeer_row_def split: sum.splits option.splits)

lemma saved_candidates [simp]:
  "s_candidates (save_peer p st) = s_candidates st" "s_candidates (save_transpeer t st) = s_candidates st"
  by (auto simp: save_peer_def save_transpeer_def split: option.splits)

lemma updated_candidates [simp]:
  "s_candidates (update_entry a p f st) = s_candidates st" "s_candidates (update_saved_entry a p f st) = s_candidates st"
  by (auto simp: update_entry_def update_saved_entry_def split: option.splits)

lemma add_peer_candidates [simp]: "s_candidates (snd (add_peer cfg now p src st)) = s_candidates st"
  by (auto simp: add_peer_def Let_def put_peer_def split: option.splits)

lemma marked_candidates [simp]:
  "s_candidates (mark_verified cfg now n a q st) = s_candidates st" "s_candidates (mark_dead cfg now n a q st) = s_candidates st"
  by (auto simp: mark_verified_def mark_dead_def Let_def delete_peer_row_def split: option.splits)

lemma evict_candidates [simp]: "s_candidates (snd (evict k st)) = s_candidates st"
  by (simp add: evict_def)

lemma add_transpeer_candidates [simp]: "s_candidates (snd (add_transpeer cfg now e g rs st)) = s_candidates st"
proof -
  have "s_candidates st' = s_candidates st" if "evict k st = (e', st')" for k e' st'
    using that evict_candidates [of k st] by simp
  then show ?thesis
    by (auto simp: add_transpeer_def Let_def store_new_transpeer_def split: option.splits prod.splits)
qed

lemma prune_candidates [simp]: "s_candidates (snd (prune_stale now st)) = s_candidates st"
proof -
  have m: "s_candidates (prune_memory now st) = s_candidates st" by (simp add: prune_memory_def)
  have "s_candidates st' = s_candidates (prune_memory now st)"
    if "delete_peer_rows (stale_peer_keys now st) (prune_memory now st) = (e, st')" for e st'
    using that delete_rows_candidates(1) [of "stale_peer_keys now st" "prune_memory now st"] by simp
  then show ?thesis using m by (auto simp: prune_stale_def Let_def split: prod.splits option.splits)
qed

lemma ddel_fold_keys: "set (dkeys (fold ddel ks d)) \<subseteq> set (dkeys d)"
proof (induction ks arbitrary: d)
  case (Cons k ks)
  have "set (dkeys (ddel k d)) \<subseteq> set (dkeys d)" by (induction d) auto
  with Cons [of "ddel k d"] show ?case by auto
qed simp

primrec op_sound :: "store_op \<Rightarrow> bool" where
  "op_sound (AddPeer now p src) = (addr_ok (p_addr p) \<and> unvouched p)"
| "op_sound (MarkVerified now n a q) = addr_ok a"
| "op_sound (MarkDead now n a q) = addr_ok a"
| "op_sound (Prune now) = True"
| "op_sound (AddTranspeer now t g rs) = addr_ok (t_addr t)"
| "op_sound (MarkQueried now a q ok) = addr_ok a"
| "op_sound (SetNative a q n ok) = addr_ok a"
| "op_sound (SetPublished a q f) = addr_ok a"
| "op_sound (SetUnfaithful a q f) = addr_ok a"
| "op_sound (AddCandidate now a) = addr_ok a"
| "op_sound (PopCandidates k) = True"

lemma candidates_step: "op_sound x \<Longrightarrow> candidates_ok st \<Longrightarrow> candidates_ok (apply_op cfg x st)"
proof (cases x)
  case (AddCandidate now a)
  assume "op_sound x" "candidates_ok st"
  then show ?thesis by (auto simp: AddCandidate candidates_ok_def add_candidate_def dest: dput_in)
next
  case (PopCandidates k)
  assume "candidates_ok st"
  then show ?thesis using ddel_fold_keys
    by (fastforce simp: PopCandidates candidates_ok_def pop_candidates_def Let_def)
qed (simp_all add: candidates_ok_def mark_queried_def set_native_def set_published_def set_unfaithful_def)

lemma op_sound_ok: "op_sound x \<Longrightarrow> op_ok x"
  by (cases x) simp_all

lemma store_sound_step: "op_sound x \<Longrightarrow> store_sound cfg st \<Longrightarrow> store_sound cfg (apply_op cfg x st)"
  unfolding store_sound_def by (blast intro: store_inv_step op_sound_ok candidates_step)

interpretation sound_history: history "apply_op cfg" op_sound "store_sound cfg" for cfg
  by unfold_locales (rule store_sound_step)

lemmas sound_add_peer = store_sound_step [of "AddPeer now p src" for now p src, simplified]
lemmas sound_mark_verified = store_sound_step [of "MarkVerified now n a q" for now n a q, simplified]
lemmas sound_mark_dead = store_sound_step [of "MarkDead now n a q" for now n a q, simplified]
lemmas sound_prune = store_sound_step [of "Prune now" for now, simplified]
lemmas sound_add_transpeer = store_sound_step [of "AddTranspeer now t g rs" for now t g rs, simplified]
lemmas sound_mark_queried = store_sound_step [of "MarkQueried now a q ok" for now a q ok, simplified]
lemmas sound_set_native = store_sound_step [of "SetNative a q n ok" for a q n ok, simplified]
lemmas sound_set_published = store_sound_step [of "SetPublished a q f" for a q f, simplified]
lemmas sound_set_unfaithful = store_sound_step [of "SetUnfaithful a q f" for a q f, simplified]
lemmas sound_add_candidate = store_sound_step [of "AddCandidate now a" for now a, simplified]
lemmas sound_pop = store_sound_step [of "PopCandidates k" for k, simplified]

lemma sound_transpeer: "store_sound cfg st \<Longrightarrow> t \<in> set (dvals (s_transpeers st)) \<Longrightarrow> addr_ok (t_addr t)"
  by (fastforce simp: store_sound_def store_inv_def table_inv_def transpeers_ok_def)

lemma sound_peer: "store_sound cfg st \<Longrightarrow> p \<in> set (dvals (s_peers st)) \<Longrightarrow> addr_ok (p_addr p)"
  by (fastforce simp: store_sound_def store_inv_def peers_inv_def peers_ok_def)

lemma sound_empty: "store_sound cfg (empty_store cfg)"
  by (simp add: store_sound_def store_inv_empty) (simp add: candidates_ok_def empty_store_def)

lemma join_with_chars: "set (join_with c ps) \<subseteq> insert c (\<Union> (set ` set ps))"
  by (induction c ps rule: join_with.induct) auto

lemma ipv4_addr_ok: "ipv4_of_string a \<noteq> None \<Longrightarrow> addr_ok a"
proof -
  assume "ipv4_of_string a \<noteq> None"
  then obtain x y z w where p: "map parse_octet (split_on CHR ''.'' a) = [Some x, Some y, Some z, Some w]"
    by (auto simp: ipv4_of_string_def split: list.splits option.splits)
  have "list_all is_digit o8" if "o8 \<in> set (split_on CHR ''.'' a)" for o8
  proof -
    have "parse_octet o8 \<in> set (map parse_octet (split_on CHR ''.'' a))" using that by simp
    then have "parse_octet o8 \<noteq> None" unfolding p by auto
    then show ?thesis by (auto simp: parse_octet_def split: if_splits)
  qed
  then have "CHR '':'' \<notin> \<Union> (set ` set (split_on CHR ''.'' a))" by (fastforce simp: list_all_iff is_digit_def)
  then have "CHR '':'' \<notin> set (join_with CHR ''.'' (split_on CHR ''.'' a))"
    using join_with_chars [of "CHR ''.''" "split_on CHR ''.'' a"] by auto
  then show ?thesis by (simp add: addr_ok_def)
qed

section \<open>Extraction, scanning, verification\<close>

lemma sound_queue:
  "list_all addr_ok as \<Longrightarrow> store_sound cfg (fst s) \<Longrightarrow> store_sound cfg (fst (fold (queue_daemon_peer now) as s))"
proof (induction as arbitrary: s)
  case (Cons a as)
  have "store_sound cfg (fst (queue_daemon_peer now a s))"
    using Cons.prems by (cases s) (simp add: queue_daemon_peer_def Let_def sound_add_candidate)
  then show ?case using Cons by simp
qed simp

lemma local_peer_shape [simp]:
  "p_addr (local_peer cfg now name addr port pf) = addr" "p_network (local_peer cfg now name addr port pf) = name"
  "p_port (local_peer cfg now name addr port pf) = port" "unvouched (local_peer cfg now name addr port pf)"
  by (cases pf; simp add: local_peer_def new_peer_def unvouched_def)+

lemma sound_extract_each:
  "list_all (addr_ok \<circ> fst) infos \<Longrightarrow> store_sound cfg (fst s) \<Longrightarrow>
     store_sound cfg (fst (snd (extract_each cfg env name i infos s)))"
proof (induction infos arbitrary: i s)
  case (Cons info infos)
  obtain addr port where info: "info = (addr, port)" by (cases info)
  obtain st proofs where s: "s = (st, proofs)" by (cases s)
  show ?case
    using Cons by (cases "local_proof cfg env i name addr port proofs") (simp_all add: info s sound_add_peer)
qed simp

definition daemon_addresses_ok :: "config \<Rightarrow> extract_env \<Rightarrow> string \<Rightarrow> plugin \<Rightarrow> bool" where
  "daemon_addresses_ok cfg env name pl \<longleftrightarrow>
     (case extract_infos cfg name pl (xe_reply env) of Inl e \<Rightarrow> True
      | Inr infos \<Rightarrow> list_all (\<lambda>(host, port). case host of JStr a \<Rightarrow> addr_ok a | _ \<Rightarrow> True) infos)"

lemma typed_infos_ok:
  "typed_infos infos = Some l \<Longrightarrow> list_all (\<lambda>(host, port). case host of JStr a \<Rightarrow> addr_ok a | _ \<Rightarrow> True) infos \<Longrightarrow>
     list_all (addr_ok \<circ> fst) l"
  by (induction infos arbitrary: l rule: typed_infos.induct) auto

lemma sound_extract:
  assumes "extract_network cfg env name pl nd = Some nd'" "daemon_addresses_ok cfg env name pl" "store_sound cfg (nd_store nd)"
  shows "store_sound cfg (nd_store nd')"
proof (cases "extract_infos cfg name pl (xe_reply env)")
  case (Inl e)
  then show ?thesis using assms by (simp add: extract_network_def)
next
  case (Inr infos)
  with assms(1) obtain l where l: "typed_infos infos = Some l" by (auto simp: extract_network_def split: option.splits)
  have ok: "list_all (addr_ok \<circ> fst) l" using typed_infos_ok [OF l] assms(2) Inr by (simp add: daemon_addresses_ok_def)
  define q where "q = (if c_scan_legacy cfg then (nd_store nd, nd_probed nd)
      else queue_daemon_peers (xe_now env) l (nd_store nd, nd_probed nd))"
  have q: "store_sound cfg (fst q)"
    using assms(3) sound_queue [of "map fst l" cfg "(nd_store nd, nd_probed nd)" "xe_now env"] ok
    by (simp add: q_def queue_daemon_peers_def list_all_iff)
  have "nd_store nd' = fst (snd (extract_each cfg env name 0 l (fst q, nd_proofs nd)))"
    using assms(1) Inr l by (auto simp: extract_network_def q_def [symmetric] Let_def split: prod.splits)
  then show ?thesis using sound_extract_each [OF ok, of cfg "(fst q, nd_proofs nd)"] q by simp
qed

lemma probe_addr: "probe_transpeer addr port now rp = Some e \<Longrightarrow> t_addr e = addr \<and> t_port e = port"
  by (auto simp: probe_transpeer_def new_tentry_def Let_def split: option.splits if_splits)

lemma sound_probe_ip: "addr_ok addr \<Longrightarrow> store_sound cfg st \<Longrightarrow> store_sound cfg (snd (probe_ip cfg env node_id i addr st))"
  by (auto simp: probe_ip_def probe_addr sound_add_transpeer split: option.split)

lemma sound_scan_probes:
  "list_all addr_ok ips \<Longrightarrow> store_sound cfg st \<Longrightarrow> store_sound cfg (snd (scan_probes cfg env node_id i ips st))"
proof (induction ips arbitrary: i st)
  case (Cons ip ips)
  have "store_sound cfg (snd (probe_ip cfg env node_id i ip st))" using Cons.prems by (simp add: sound_probe_ip)
  with Cons show ?case by (simp add: split_beta)
qed simp

lemma str_nat_addr_ok: "addr_ok (ipv4_to_string n)"
proof -
  have "CHR '':'' \<notin> set (str_nat k)" for k by (simp add: str_nat_no_char)
  then show ?thesis using join_with_chars [of "CHR ''.''"
      "[str_nat (n div 2 ^ 24), str_nat (n div 2 ^ 16 mod 256), str_nat (n div 2 ^ 8 mod 256), str_nat (n mod 256)]"]
    unfolding addr_ok_def ipv4_to_string_def by auto
qed

lemma generated_addr_ok: "generate_ip cfg sc rs = Some (Inr ip) \<Longrightarrow> addr_ok ip"
  using random_ip_Some ipv4_addr_ok str_nat_addr_ok
  by (fastforce simp: generate_ip_def random_ip_in_cidr_def Let_def split: option.splits if_splits)

lemma sound_scan:
  assumes "store_sound cfg (nd_store nd)" "\<forall>xs. set (pe_order env xs) = set xs"
  shows "store_sound cfg (nd_store (scan_pass cfg draws env nd))"
proof -
  have "store_sound cfg (snd (snd (scan_batch cfg idle draws env sc (nd_store nd))))" for idle sc
  proof -
    obtain r sc' where b: "batch_size cfg idle (nd_store nd) sc = (r, sc')" by fastforce
    show ?thesis
    proof (cases "\<exists>ct ips. r = Inr ct \<and> 0 < ct \<and> scan_ips cfg sc' draws (nat (ct * 2)) ct [] = Some (Inr ips)")
      case True
      then obtain ct ips where c: "r = Inr ct" "0 < ct" "scan_ips cfg sc' draws (nat (ct * 2)) ct [] = Some (Inr ips)" by blast
      have "\<forall>ip \<in> set ips. \<exists>rs. generate_ip cfg sc' rs = Some (Inr ip)" using scan_ips_sound [OF c(3)] c(2) by auto
      then have "list_all addr_ok (pe_order env ips)" using generated_addr_ok assms(2) by (auto simp: list_all_iff)
      from sound_scan_probes [OF this assms(1)] show ?thesis using b c by (simp add: scan_batch_def split_beta)
    next
      case False
      then show ?thesis using b assms(1) by (auto simp: scan_batch_def split: sum.split option.split)
    qed
  qed
  then show ?thesis by (simp add: scan_pass_def Let_def split_beta)
qed

lemma sound_add_probed:
  "list_all addr_ok as \<Longrightarrow> store_sound cfg st \<Longrightarrow> store_sound cfg (snd (add_probed cfg env i as st))"
proof (induction as arbitrary: i st)
  case (Cons a as)
  show ?case
  proof (cases "probe_transpeer a TRANSPEER_PORT (pe_now env) (pe_reply env a)")
    case None
    then show ?thesis using Cons by simp
  next
    case (Some e)
    have "store_sound cfg (snd (add_transpeer cfg (pe_now env) e False (pe_rand env i) st))"
      using Cons.prems probe_addr [OF Some] by (simp add: sound_add_transpeer)
    with Cons Some show ?thesis by (auto split: prod.split sum.split)
  qed
qed simp

lemma sound_candidates:
  assumes "store_sound cfg (nd_store nd)"
  shows "store_sound cfg (nd_store (candidate_pass cfg env nd))"
proof -
  have "list_all addr_ok (fst (pop_candidates 50 (nd_store nd)))"
    using assms set_take_subset [of 50 "dkeys (s_candidates (nd_store nd))"]
    by (auto simp: pop_candidates_def Let_def store_sound_def candidates_ok_def list_all_iff)
  from sound_add_probed [OF this sound_pop [OF assms]] show ?thesis
    by (simp add: candidate_pass_def probe_candidates_def split_beta)
qed

lemma sound_verify_fold:
  "\<forall>p \<in> set ps. addr_ok (p_addr p) \<Longrightarrow> store_sound cfg st \<Longrightarrow> store_sound cfg (fold (verify_one cfg now alive) ps st)"
proof (induction ps arbitrary: st)
  case (Cons p ps)
  have "store_sound cfg (verify_one cfg now alive p st)"
    using Cons.prems by (auto simp: verify_one_def sound_mark_dead sound_mark_verified split: sum.split bool.split)
  then show ?case using Cons by simp
qed simp

lemma all_peers_in: "set (fst (get_peers cfg n v None rs st)) \<subseteq> set (dvals (s_peers st))"
  by (auto simp: get_peers_def Let_def rank_sort_def)

lemma sound_verify:
  assumes "store_sound cfg (nd_store nd)" "\<forall>ps. set (order ps) = set ps"
  shows "store_sound cfg (nd_store (verify_pass cfg now order connects first8 nd))"
proof -
  have "store_sound cfg (verify_peers cfg now order alive n st)" if "store_sound cfg st" for alive n st
    unfolding verify_peers_def
  proof (rule sound_verify_fold)
    show "\<forall>p \<in> set (order (fst (get_peers cfg n False None [] st))). addr_ok (p_addr p)"
      using assms(2) all_peers_in [of cfg n False "[]" st] sound_peer [OF that] by blast
  qed (rule that)
  then have "store_sound cfg st \<Longrightarrow> store_sound cfg (fold (\<lambda>n. verify_peers cfg now order (alive n) n) ns st)" for alive ns st
    by (induction ns arbitrary: st) simp_all
  with assms(1) show ?thesis by (simp add: verify_pass_def)
qed

section \<open>Queries\<close>

lemma endpoint_addr_ok: "valid_endpoint (JStr a) (JInt p) \<Longrightarrow> addr_ok a"
  by (simp add: ipv4_addr_ok)

lemma fetched_peers_ok:
  assumes "fetch_peers cfg lib addr network xc cache = (Inr ws, cache')" "typed_peers ws = Some ps"
  shows "\<forall>p \<in> set ps. addr_ok (p_addr p) \<and> unvouched p"
proof -
  have w: "\<forall>w \<in> set ws. \<exists>a. w_addr w = JStr a \<and> ipv4_of_string a \<noteq> None"
    using fetched_checked [OF assms(1)] by (fastforce simp: checked_peer_def)
  have t: "addr_ok (p_addr p) \<and> unvouched p" if "typed_peer w = Some p" "w_addr w = JStr a" "ipv4_of_string a \<noteq> None" for w p a
    using that by (auto simp: typed_peer_def new_peer_def unvouched_def ipv4_addr_ok split: json.splits)
  have "typed_peers ws = Some ps \<Longrightarrow> \<forall>p \<in> set ps. \<exists>w \<in> set ws. typed_peer w = Some p" for ws ps
    by (induction ws arbitrary: ps) (fastforce split: option.splits)+
  with w t assms(2) show ?thesis by metis
qed

lemma sound_merge:
  "\<forall>p \<in> set ps. addr_ok (p_addr p) \<and> unvouched p \<Longrightarrow> store_sound cfg st \<Longrightarrow> store_sound cfg (merge_peers cfg now src ps st)"
  unfolding merge_peers_def by (induction ps arbitrary: st) (simp_all add: sound_add_peer)

lemma sound_query_networks:
  "query_networks cfg lib env entry i ns st cache = Some (e, st', cache') \<Longrightarrow> store_sound cfg st \<Longrightarrow> store_sound cfg st'"
proof (induction ns arbitrary: i st cache)
  case (Cons n ns)
  obtain r c where f: "fetch_peers cfg lib (t_addr entry) n (qe_peers env i) cache = (r, c)" by fastforce
  show ?case
  proof (cases r)
    case (Inl x)
    then show ?thesis using Cons.prems f by simp
  next
    case (Inr ws)
    then obtain ps where t: "typed_peers ws = Some ps" using Cons.prems f by (auto split: option.splits)
    have "store_sound cfg (merge_peers cfg (xc_now (qe_peers env i)) (t_addr entry) ps st)"
      using fetched_peers_ok [OF f [unfolded Inr] t] Cons.prems(2) by (rule sound_merge)
    with Cons.IH Cons.prems f Inr t show ?thesis by auto
  qed
qed simp

lemma sound_add_gossiped:
  "\<forall>t \<in> set tps. addr_ok (t_addr t) \<Longrightarrow> store_sound cfg st \<Longrightarrow> store_sound cfg (snd (add_gossiped cfg now rs i tps st))"
proof (induction tps arbitrary: i st)
  case (Cons t tps)
  have "store_sound cfg (snd (add_transpeer cfg now t True (rs i) st))" using Cons.prems by (simp add: sound_add_transpeer)
  with Cons show ?case by (simp add: split_beta split: sum.split)
qed simp

lemma accepted_transpeer_ok: "accept_transpeer now v = Some t \<Longrightarrow> addr_ok (t_addr t)"
  by (auto simp: accept_transpeer_def new_tentry_def ipv4_addr_ok simp del: valid_endpoint.simps
      dest!: endpoint_addr_ok split: if_splits json.splits)

lemma map_filter_in: "t \<in> set (List.map_filter f xs) \<Longrightarrow> \<exists>x. f x = Some t"
  by (auto simp: List.map_filter_def)

lemma fetched_transpeers_ok:
  "fetch_transpeers cfg lib addr xc cache = (Inr tps, cache') \<Longrightarrow> t \<in> set tps \<Longrightarrow> addr_ok (t_addr t)"
  by (auto simp: fetch_transpeers_def split: prod.splits sum.splits if_splits dest!: map_filter_in dest: accepted_transpeer_ok)

lemma sound_probe_native:
  assumes "addr_ok (t_addr e)" "store_sound cfg st"
  shows "store_sound cfg (probe_native cfg connects e ns st)"
proof -
  have "store_sound cfg st \<Longrightarrow> store_sound cfg (probe_native_one cfg connects e n st)" for n st
    using assms(1) by (auto simp: probe_native_one_def sound_set_native split: option.split)
  then have "store_sound cfg st \<Longrightarrow> store_sound cfg (fold (probe_native_one cfg connects e) ns st)" for st
    by (induction ns arbitrary: st) simp_all
  with assms(2) show ?thesis by (simp add: probe_native_def split: option.split)
qed

lemma sound_query_answered:
  assumes "query_answered cfg lib env entry updated st cache = Some (r, st', cache')"
    "addr_ok (t_addr entry)" "store_sound cfg st" "qe_after env = (\<lambda>t st. st)"
  shows "store_sound cfg st'"
proof -
  define st1 where "st1 = (if c_native_vouchers cfg then probe_native cfg (qe_connects env) entry (t_networks updated) st else st)"
  have s1: "store_sound cfg st1" using assms(2,3) by (simp add: st1_def sound_probe_native)
  obtain e st2 c2 where q: "query_networks cfg lib env entry 0 (t_networks updated) st1 cache = Some (e, st2, c2)"
    using assms(1) by (auto simp: query_answered_def st1_def [symmetric] Let_def split: option.splits)
  note s2 = sound_query_networks [OF q s1]
  show ?thesis
  proof (cases e)
    case (Some x)
    then show ?thesis using assms(1) q s2 by (simp add: query_answered_def st1_def [symmetric])
  next
    case None
    obtain r3 c3 where f: "fetch_transpeers cfg lib (t_addr entry) (qe_transpeers env) c2 = (r3, c3)" by fastforce
    show ?thesis
    proof (cases r3)
      case (Inl x)
      then show ?thesis using assms(1) q s2 None f by (simp add: query_answered_def st1_def [symmetric])
    next
      case (Inr tps)
      have "\<forall>t \<in> set tps. addr_ok (t_addr t)" using fetched_transpeers_ok f Inr by blast
      note sound_add_gossiped [OF this s2, of "xc_now (qe_transpeers env)" "qe_rand env" 1]
      then show ?thesis using assms(1,4) q None f Inr
        by (auto simp: query_answered_def st1_def [symmetric] split_beta split: option.splits)
    qed
  qed
qed

lemma sound_query_transpeer:
  assumes "query_transpeer cfg lib env entry st cache = Some (r, st', cache')"
    "addr_ok (t_addr entry)" "store_sound cfg st" "qe_after env = (\<lambda>t st. st)"
  shows "store_sound cfg st'"
proof (cases "probe_transpeer (t_addr entry) (t_port entry) (qe_probe_now env) (qe_probe env)")
  case None
  then show ?thesis using assms by (simp add: query_transpeer_def)
next
  case (Some u)
  obtain r1 st1 where a: "add_transpeer cfg (qe_probe_now env) u False (qe_rand env 0) st = (r1, st1)" by fastforce
  have "store_sound cfg st1"
    using sound_add_transpeer [of u cfg st "qe_probe_now env" False "qe_rand env 0"] probe_addr [OF Some] assms(2,3) a by simp
  then show ?thesis
    using assms(1) Some a sound_query_answered [OF _ assms(2) _ assms(4), of cfg lib u st1 cache]
    by (auto simp: query_transpeer_def split: sum.splits)
qed

lemma rr_round_in:
  "rr_round b qs p rem = (p', rem') \<Longrightarrow> set p' \<union> \<Union> (set ` set rem') \<subseteq> set p \<union> \<Union> (set ` set qs) \<union> \<Union> (set ` set rem)"
proof (induction b qs p rem arbitrary: p' rem' rule: rr_round.induct)
  case (3 b x q qs p rem)
  then show ?case by (fastforce split: if_splits)
qed (auto split: if_splits)

lemma rr_loop_in: "set (rr_loop b qs p) \<subseteq> set p \<union> \<Union> (set ` set qs)"
proof (induction b qs p rule: rr_loop.induct)
  case (1 b qs p)
  show ?case
  proof (cases "qs \<noteq> [] \<and> \<not> reached b p")
    case True
    obtain p' rem' where r: "rr_round b qs p [] = (p', rem')" by fastforce
    have "set (rr_loop b rem' p') \<subseteq> set p' \<union> \<Union> (set ` set rem')" using 1 True r by simp
    moreover have "set p' \<union> \<Union> (set ` set rem') \<subseteq> set p \<union> \<Union> (set ` set qs)" using rr_round_in [OF r] by simp
    ultimately have "set (rr_loop b rem' p') \<subseteq> set p \<union> \<Union> (set ` set qs)" by blast
    then show ?thesis using True r by (subst rr_loop.simps) simp
  next
    case False
    then show ?thesis by (subst rr_loop.simps) auto
  qed
qed

lemma query_batch_in: "set (get_transpeers_for_query cfg n rs st) \<subseteq> set (dvals (s_transpeers st))"
proof -
  have b: "set m \<subseteq> set (dvals (s_transpeers st))" if "(k, m) \<in> set (transpeers_by_bucket cfg st)" for k m
    using group_by_in that by (fastforce simp: transpeers_by_bucket_def)
  let ?qs = "map (\<lambda>(b, members). sort_key t_last_queried members) (transpeers_by_bucket cfg st)"
  have "set (fst (shuffle ?qs rs)) = set ?qs" by (metis mset_shuffle mset_eq_setD)
  then have q: "set (rr_loop budget (fst (shuffle ?qs rs)) []) \<subseteq> set (dvals (s_transpeers st))" for budget
    using rr_loop_in [of budget "fst (shuffle ?qs rs)" "[]"] b by fastforce
  show ?thesis unfolding get_transpeers_for_query_def Let_def
    by (simp split: if_splits) (intro conjI impI; rule order_trans [OF set_take_subset]; use q in simp)
qed

text \<open>Steps of the reader that leave a field alone. A field that depends on the anchor store only through its view, and on neither
  the blob database nor what the reader itself keeps, is left alone by every step but the first and the last of a sync.\<close>

definition keeps :: "(anchor_reader \<Rightarrow> 'b) \<Rightarrow> 'a rstep \<Rightarrow> bool" where
  "keeps p m \<longleftrightarrow> (\<forall>rd. p (snd (m rd)) = p rd)"

lemma keepsD: "keeps p m \<Longrightarrow> p (snd (m rd)) = p rd"
  by (simp add: keeps_def)

lemma kept_bindS: "keeps p m \<Longrightarrow> (\<And>x. keeps p (f x)) \<Longrightarrow> keeps p (bindS m f)"
  by (simp add: keeps_def bindS_def split_beta split: sum.split)

lemma kept_prod: "(\<And>a b. keeps p (f a b)) \<Longrightarrow> keeps p (case x of (a, b) \<Rightarrow> f a b)"
  by (cases x) simp

lemma kept_option: "keeps p a \<Longrightarrow> (\<And>x. keeps p (f x)) \<Longrightarrow> keeps p (case x of None \<Rightarrow> a | Some x \<Rightarrow> f x)"
  by (cases x) simp_all

lemma kept_sum: "(\<And>e. keeps p (f e)) \<Longrightarrow> (\<And>x. keeps p (g x)) \<Longrightarrow> keeps p (case r of Inl e \<Rightarrow> f e | Inr x \<Rightarrow> g x)"
  by (cases r) simp_all

lemma kept_if: "keeps p a \<Longrightarrow> keeps p b \<Longrightarrow> keeps p (if c then a else b)"
  by simp

lemma kept_basic: "keeps p (retS x)" "keeps p (liftS r)" "keeps p (getS g)"
  by (simp_all add: keeps_def retS_def liftS_def getS_def)

lemma kept_modifyS: "(\<And>rd. p (f rd) = p rd) \<Longrightarrow> keeps p (modifyS f)"
  by (simp add: keeps_def modifyS_def)

lemmas kept = kept_basic kept_prod kept_option kept_sum kept_if kept_bindS

locale reader_field =
  fixes p :: "anchor_reader \<Rightarrow> 'b"
  assumes field_anchor: "as_view a = as_view (rd_anchor rd) \<Longrightarrow> p (rd\<lparr>rd_anchor := a\<rparr>) = p rd"
    and field_blobdb: "p (rd\<lparr>rd_blobdb := db\<rparr>) = p rd"
    and field_shares: "p (rd\<lparr>rd_shares := sh\<rparr>) = p rd"
    and field_disk: "p (rd\<lparr>rd_disk := dk\<rparr>) = p rd"
    and field_state: "p (rd\<lparr>rd_state := rst\<rparr>) = p rd"
    and field_discovered: "p (rd\<lparr>rd_discovered := disc\<rparr>) = p rd"
    and field_cursors: "p (rd\<lparr>rd_cursors := cur\<rparr>) = p rd"
begin

lemma kept_venue: "keeps p (venue_share_store env cid)" "keeps p (put_share_store cid s)"
  by (auto simp: keeps_def venue_share_store_def put_share_store_def modifyS_def Let_def field_shares split: option.split)

lemma kept_blobdb: "keeps p (modifyS (\<lambda>rd. rd\<lparr>rd_blobdb := db\<rparr>))"
  by (rule kept_modifyS) (rule field_blobdb)

lemma kept_add_commitments: "keeps p (add_commitments blob now cs)"
proof (induction cs)
  case (Cons c cs)
  show ?case unfolding add_commitments.simps by (rule kept kept_blobdb Cons.IH)+
qed (simp add: kept)

lemma kept_verified: "keeps p (verified_commitments env src h vs)"
proof -
  have "only_blocks rd rd' \<Longrightarrow> p rd' = p rd" for rd rd'
    unfolding only_blocks_def using field_anchor by force
  then show ?thesis unfolding keeps_def using verified_backed by (metis prod.collapse)
qed

lemma kept_gossip_row: "keeps p (gossip_row env src v)"
  unfolding gossip_row_def Let_def by (rule kept kept_add_commitments kept_verified)+

lemma kept_gossip: "keeps p (gossip env src)"
proof -
  have rows: "p (snd (gossip_rows env src vs acc rd)) = p rd" for vs acc rd
  proof (induction env src vs acc rd rule: gossip_rows.induct)
    case (2 env src v vs ok found rd)
    then show ?case using keepsD [OF kept_gossip_row, of env src v rd]
      by (cases "gossip_row env src v rd") (auto simp: split_beta split: sum.split)
  qed simp_all
  show ?thesis unfolding keeps_def gossip_def using rows by (simp add: split_beta field_cursors split: sum.split option.split)
qed

lemma window_view: "as_view (snd (window_from_heights env view sources hs budget a)) = as_view a"
proof (induction hs arbitrary: budget a)
  case (Cons h hs)
  have "as_view (snd (snd (window_block env view sources h budget a))) = as_view a"
    by (auto simp: window_block_def put_block_def split: option.splits prod.splits)
  then show ?case using Cons.IH by (auto simp: split_beta split: option.split)
qed simp

lemma kept_step2: "keeps p (step2_coverage_window env sources view start)"
  by (simp add: keeps_def step2_coverage_window_def split_beta field_anchor window_view)

lemma field_expire: "p (expire_discovered now rd) = p rd"
proof -
  have "p (fold (\<lambda>v rd. if expired_venue now rd v then forget_venue (fst v) rd else rd) vs rd) = p rd" for vs
  proof (induction vs arbitrary: rd)
    case (Cons v vs)
    have "p (forget_venue (fst v) rd) = p rd"
      unfolding forget_venue_def using field_disk field_shares field_discovered by metis
    with Cons show ?case by simp
  qed simp
  then show ?thesis by (simp add: expire_discovered_def)
qed

lemma kept_candidates: "keeps p (\<lambda>rd. case candidate_venues env sources rd of (v, rd) \<Rightarrow> (Inr v, rd))"
  by (simp add: keeps_def candidate_venues_def Let_def field_expire field_discovered)

lemma kept_leaf_venue: "keeps p (leaf_venue env sources view tag cid lf)"
  unfolding leaf_venue_def Let_def by (rule kept kept_venue)+

lemma kept_leaf_venues: "keeps p (leaf_venues env sources view tag cids lf)"
  by (induction cids arbitrary: lf) (auto intro: kept kept_leaf_venue)

lemma kept_step3: "keeps p (step3_venue_leaves env sources tagged venues view)"
proof -
  have "keeps p (leaf_blocks env sources view vs tags tips budget resolved)" for vs tags tips budget resolved
    by (induction tags arbitrary: tips budget resolved) (auto intro: kept kept_leaf_venues)
  then show ?thesis by (simp add: step3_venue_leaves_def)
qed

lemma kept_step4: "keeps p (step4_canonical_fork env sources tips view)"
proof -
  have "keeps p (fork_of env sources view cid tip)" for cid tip
    unfolding fork_of_def by (rule kept kept_venue)+
  note fork = this
  show ?thesis
  proof (induction tips)
    case (Cons t tips)
    show ?case by (cases t) (simp, (rule kept fork Cons.IH)+)
  qed (simp add: kept)
qed

lemma kept_step5: "keeps p (step5_blobs env sources canonical)"
proof -
  have "keeps p (share_blobs env sources shs)" for shs
  proof (induction shs)
    case (Cons t shs)
    show ?case by (cases t) (simp only: share_blobs.simps, (rule kept kept_blobdb Cons.IH)+)
  qed (simp add: kept)
  then show ?thesis by (simp add: step5_blobs_def)
qed

lemma kept_prune: "keeps p (prune_stores env cp canonical start)"
proof -
  let ?step = "\<lambda>(cid, chain) m. bindS m (\<lambda>_. if chain = [] then retS ()
           else bindS (venue_share_store env cid) (\<lambda>s.
             put_share_store cid (share_prune (int (ps_height (hd chain))) (int VENUE_WINDOW) s)))"
  have step: "keeps p m \<Longrightarrow> keeps p (?step x m)" for x m
    by (cases x) (auto intro!: kept_bindS kept_basic kept_venue)
  have f: "keeps p m \<Longrightarrow> keeps p (fold ?step xs m)" for xs m
  proof (induction xs arbitrary: m)
    case (Cons x xs)
    show ?case unfolding fold_simps by (rule Cons.IH) (rule step [OF Cons.prems])
  qed simp
  have m: "keeps p (modifyS (\<lambda>rd. rd\<lparr>rd_anchor := prune_headers k (prune_blocks l (rd_anchor rd))\<rparr>))" for k l
    by (rule kept_modifyS) (simp add: field_anchor prune_headers_def prune_blocks_def)
  show ?thesis unfolding prune_stores_def by (rule kept_bindS [OF m f [OF kept_basic(1)]])
qed

end

interpretation peer_field: reader_field rd_store
  by unfold_locales simp_all

interpretation view_field: reader_field "\<lambda>rd. as_view (rd_anchor rd)"
  by unfold_locales simp_all

lemma sound_query_one:
  assumes "query_one cfg lib env renv now entry nd = Some nd'" "addr_ok (t_addr entry)" "store_sound cfg (nd_store nd)"
  shows "store_sound cfg (nd_store nd')"
proof -
  obtain r st c where q: "query_transpeer cfg lib (env\<lparr>qe_after := \<lambda>t st. st\<rparr>) entry (nd_store nd) (nd_cache nd) = Some (r, st, c)"
    using assms(1) by (auto simp: query_one_def split: option.splits)
  have "store_sound cfg st" by (rule sound_query_transpeer [OF q assms(2,3)]) simp
  moreover have "nd_store nd' = mark_queried now (t_addr entry) (t_port entry) (r = Inr True) st"
    using assms(1) q by (auto simp: query_one_def Let_def gossip_entry_def keepsD [OF peer_field.kept_gossip] put_store_def)
  ultimately show ?thesis using assms(2) by (simp add: sound_mark_queried)
qed

lemma sound_query:
  assumes "query_pass cfg lib rs env nd = Some nd'" "store_sound cfg (nd_store nd)"
  shows "store_sound cfg (nd_store nd')"
proof -
  have "query_entries cfg lib env ts nd = Some nd' \<Longrightarrow> \<forall>t \<in> set ts. addr_ok (t_addr t) \<Longrightarrow> store_sound cfg (nd_store nd) \<Longrightarrow>
      store_sound cfg (nd_store nd')" for ts
  proof (induction ts arbitrary: nd)
    case (Cons t ts)
    obtain qe re now where e: "env t = (qe, re, now)" by (cases "env t")
    then obtain nd1 where q: "query_one cfg lib qe re now t nd = Some nd1" using Cons.prems(1) by (auto split: option.splits)
    have "store_sound cfg (nd_store nd1)" by (rule sound_query_one [OF q]) (use Cons.prems in simp_all)
    with Cons e q show ?case by simp
  qed simp
  moreover have "\<forall>t \<in> set (get_transpeers_for_query cfg QUERY_BATCH_SIZE rs (nd_store nd)). addr_ok (t_addr t)"
    using query_batch_in sound_transpeer [OF assms(2)] by blast
  ultimately show ?thesis using assms by (simp add: query_pass_def)
qed

section \<open>The anchor loops and the servers\<close>

lemma sound_trust: "store_sound cfg st \<Longrightarrow> store_sound cfg (snd (get_source_trust cfg a st))"
  by (rule store_sound_frame) simp_all

lemma sound_curate: "store_sound cfg st \<Longrightarrow> store_sound cfg (snd (curate cfg db now st))"
proof -
  have one: "store_sound cfg st'" if "candidate_ok cfg now e st = Inr (ok, st')" "store_sound cfg st" for e st ok st'
    using that sound_trust [of cfg st "t_addr e"]
    by (auto simp: candidate_ok_def bindR_Inr_conv split_beta split: if_splits)
  have all: "store_sound cfg st \<Longrightarrow> store_sound cfg (snd (snd (candidates cfg now es st)))" for es st
  proof (induction es arbitrary: st)
    case (Cons e es)
    then show ?case using one by (auto simp: split_beta split: sum.split)
  qed simp
  assume "store_sound cfg st"
  from all [OF this, of "dvals (s_transpeers st)"] show ?thesis
    by (auto simp: curate_def split_beta split: option.split)
qed

lemma sound_refresh: "store_sound cfg st \<Longrightarrow> store_sound cfg (fst (snd (refresh cfg db now (st, pb))))"
  using sound_curate [of cfg st db now] by (auto simp: refresh_def split_beta split: sum.split bool.split)

lemma sound_publish: "store_sound cfg (nd_store nd) \<Longrightarrow> store_sound cfg (nd_store (snd (publish_state cfg now pb nd)))"
proof -
  assume "store_sound cfg (nd_store nd)"
  note r = sound_refresh [OF this, of "rd_blobdb (nd_rd nd)" now pb]
  note c = sound_curate [OF r]
  show ?thesis using r c [of "rd_blobdb (nd_rd nd)" now]
    by (auto simp: publish_state_def Let_def split_beta put_store_def split: sum.split)
qed

lemma sound_anchor: "store_sound cfg (nd_store nd) \<Longrightarrow> store_sound cfg (nd_store (anchor_pass cfg now nd))"
  using sound_publish [of cfg nd now]
  by (auto simp: anchor_pass_def Let_def split_beta split: option.split)

lemma entries_ok_weights:
  assumes "transpeer_weights_from bw db w = Inr w'" "\<forall>k \<in> set (dkeys w). addr_ok (fst k)"
  shows "\<forall>k \<in> set (dkeys w'). addr_ok (fst k)"
  using assms
proof (induction bw arbitrary: w)
  case (Cons hv bw)
  obtain h v where hv: "hv = (h, v)" by (cases hv)
  with Cons.prems obtain es where es: "db_entries_of h db = Inr es" "transpeer_weights_from bw db (add_entries v es w) = Inr w'"
    by (auto simp: bindR_Inr_conv)
  have "\<forall>e \<in> set es. addr_ok (fst e)"
  proof (cases "es = []")
    case False
    then obtain blob b where "decode_blob blob = Inr b" "es = bl_entries b"
      using es(1) by (auto simp: db_entries_of_def bindR_Inr_conv split: option.splits if_splits)
    then have "list_all entry_ok es"
      by (auto elim!: decode_blob_Inr simp: blob_ok_def validate_entries_Inr)
    then show ?thesis by (auto simp: list_all_iff entry_ok_def ipv4_addr_ok)
  qed simp
  moreover have "\<forall>e \<in> set es. addr_ok (fst e) \<Longrightarrow> \<forall>k \<in> set (dkeys w). addr_ok (fst k) \<Longrightarrow>
      \<forall>k \<in> set (dkeys (add_entries v es w)). addr_ok (fst k)" for w
    unfolding add_entries_def by (induction es arbitrary: w) (fastforce simp: bump_def dest: dput_in)+
  ultimately show ?case using Cons es(2) by blast
qed simp

lemma sound_publish_entries:
  "re_cfg env = cfg \<Longrightarrow> \<forall>e \<in> set es. addr_ok (fst e) \<Longrightarrow> store_sound cfg (rd_store rd) \<Longrightarrow>
     store_sound cfg (rd_store (snd (publish_entries env i es rd)))"
proof (induction es arbitrary: i rd)
  case (Cons e es)
  obtain a p where e: "e = (a, p)" by (cases e)
  let ?t = "(new_tentry a p)\<lparr>t_last_seen := re_now env\<rparr>"
  let ?r = "add_transpeer cfg (re_now env) ?t False (re_rand env i) (rd_store rd)"
  have a: "addr_ok a" "store_sound cfg (snd ?r)"
    using Cons.prems e sound_add_transpeer [of ?t cfg "rd_store rd" "re_now env" False "re_rand env i"]
    by (auto simp: new_tentry_def)
  note ih = Cons.IH [OF Cons.prems(1), of "rd\<lparr>rd_store := set_published a p True st\<rparr>" "i + 1" for st]
  show ?case
    using a Cons.prems e ih [of "snd ?r"] ih [of "rd_store rd"]
    by (auto simp: bindS_def modifyS_def split_beta sound_set_published split: sum.split)
qed (simp add: retS_def)

lemma sound_unpublish: "store_sound cfg st \<Longrightarrow> store_sound cfg (unpublish_rest published st)"
proof -
  assume s: "store_sound cfg st"
  have "\<forall>t \<in> set ts. addr_ok (t_addr t) \<Longrightarrow> store_sound cfg st \<Longrightarrow> store_sound cfg (fold (\<lambda>t st.
      if t_published t \<and> (t_addr t, t_port t) \<notin> set published then set_published (t_addr t) (t_port t) False st else st) ts st)" for ts st
    by (induction ts arbitrary: st) (simp_all add: sound_set_published)
  with s sound_transpeer [OF s] show ?thesis unfolding unpublish_rest_def by blast
qed

lemma sound_step7:
  assumes "re_cfg env = cfg" "\<forall>k \<in> set (dkeys w). addr_ok (fst k)" "store_sound cfg (rd_store rd)"
  shows "store_sound cfg (rd_store (snd (step7_seeding env w rd)))"
proof -
  have "\<forall>e \<in> set (top_published w). addr_ok (fst e)"
    using assms(2) set_take_subset [of TOP_N_PUBLISH "sort_key entry_order w"] by (fastforce simp: top_published_def)
  from sound_publish_entries [OF assms(1) this assms(3)] show ?thesis
    by (auto simp: step7_seeding_def Let_def bindS_def modifyS_def retS_def split_beta sound_unpublish split: sum.split)
qed

lemma kept_step1: "keeps rd_store (step1_headers env cp sources)"
proof -
  have m: "keeps rd_store (modifyS (\<lambda>rd. rd\<lparr>rd_anchor := f rd\<rparr>))" for f by (rule kept_modifyS) simp
  show ?thesis unfolding step1_headers_def by (rule kept m)+
qed

text \<open>Steps that keep the peer store sound: those that leave it alone, and the seeding.\<close>

definition keeps_sound :: "config \<Rightarrow> 'a rstep \<Rightarrow> bool" where
  "keeps_sound cfg m \<longleftrightarrow> (\<forall>rd. store_sound cfg (rd_store rd) \<longrightarrow> store_sound cfg (rd_store (snd (m rd))))"

lemma kept_keeps: "keeps rd_store m \<Longrightarrow> keeps_sound cfg m"
  by (simp add: keeps_def keeps_sound_def)

lemma keeps_sound_bind: "keeps_sound cfg m \<Longrightarrow> (\<And>x. keeps_sound cfg (f x)) \<Longrightarrow> keeps_sound cfg (bindS m f)"
  by (simp add: keeps_sound_def bindS_def split_beta split: sum.split)

lemma keeps_sound_prod: "(\<And>a b. keeps_sound cfg (f a b)) \<Longrightarrow> keeps_sound cfg (case p of (a, b) \<Rightarrow> f a b)"
  by (cases p) simp

lemma keeps_sound_option: "keeps_sound cfg a \<Longrightarrow> (\<And>x. keeps_sound cfg (f x)) \<Longrightarrow> keeps_sound cfg (case x of None \<Rightarrow> a | Some x \<Rightarrow> f x)"
  by (cases x) simp_all

lemma keeps_sound_seed:
  assumes "re_cfg env = cfg" "\<And>p w. keeps_sound cfg (f p w)"
  shows "keeps_sound cfg (bindS (step6_weights canonical) (\<lambda>w. bindS (step7_seeding env w) (f w)))"
proof -
  have "store_sound cfg (rd_store (snd (bindS (step7_seeding env w) (f w) rd)))"
    if "step6_weights canonical rd = (Inr w, rd)" "store_sound cfg (rd_store rd)" for rd w
  proof -
    have "\<forall>k \<in> set (dkeys w). addr_ok (fst k)"
      using that(1) entries_ok_weights [of _ _ "[]" w] by (auto simp: step6_weights_def transpeer_weights_def)
    from sound_step7 [OF assms(1) this that(2)] assms(2) [of w] show ?thesis
      by (auto simp: bindS_def keeps_sound_def split_beta split: sum.split)
  qed
  note seed = this
  show ?thesis unfolding keeps_sound_def
  proof (intro allI impI)
    fix rd :: anchor_reader
    assume rd: "store_sound cfg (rd_store rd)"
    show "store_sound cfg (rd_store (snd (bindS (step6_weights canonical) (\<lambda>w. bindS (step7_seeding env w) (f w)) rd)))"
    proof (cases "transpeer_weights (venue_blob_weights canonical) (rd_blobdb rd)")
      case (Inl e)
      then show ?thesis using rd by (simp add: bindS_def step6_weights_def)
    next
      case (Inr w)
      then have "step6_weights canonical rd = (Inr w, rd)" by (simp add: step6_weights_def)
      from seed [OF this rd] this show ?thesis by (simp add: bindS_def [of "step6_weights canonical"])
    qed
  qed
qed

lemma sound_sync_steps: "re_cfg env = cfg \<Longrightarrow> keeps_sound cfg (sync_steps env cp sources)"
  unfolding sync_steps_def Let_def
  by (rule keeps_sound_seed keeps_sound_prod keeps_sound_option keeps_sound_bind
      kept_keeps [OF kept_step1] kept_keeps [OF peer_field.kept_step2] kept_keeps [OF peer_field.kept_candidates] kept_keeps [OF peer_field.kept_step3]
      kept_keeps [OF peer_field.kept_step4] kept_keeps [OF peer_field.kept_step5] kept_keeps [OF kept_basic(1)] | assumption)+

lemma sound_sync:
  assumes "re_cfg env = cfg" "store_sound cfg (rd_store rd)"
  shows "store_sound cfg (rd_store (snd (sync env sources rd)))"
proof (cases "parse_checkpoint (c_anchor_checkpoint (re_cfg env))")
  case (Inl e)
  then show ?thesis using assms(2) by (simp add: sync_def bindS_def liftS_def)
next
  case (Inr cp)
  obtain r rd1 where q: "sync_steps env cp (take MAX_SOURCES sources) rd = (r, rd1)" by fastforce
  have s: "store_sound cfg (rd_store rd1)"
    using sound_sync_steps [OF assms(1), of cp "take MAX_SOURCES sources"] assms(2) q by (metis keeps_sound_def snd_conv)
  have p: "store_sound cfg (rd_store (snd (prune_stores env cp c st rd1)))" for c st
    using keepsD [OF peer_field.kept_prune, of env cp c st rd1] s by simp
  show ?thesis
  proof (cases r)
    case (Inl e)
    then show ?thesis using s Inr q by (simp add: sync_def bindS_def liftS_def Let_def)
  next
    case r: (Inr res)
    show ?thesis
    proof (cases res)
      case None
      then show ?thesis using s Inr q r by (simp add: sync_def bindS_def liftS_def Let_def)
    next
      case (Some x)
      then show ?thesis using p Inr q r
        by (simp add: sync_def bindS_def liftS_def Let_def split_beta split: sum.split)
    qed
  qed
qed

lemma challenge_all_entries: "map fst (fst (challenge_all net hour hashes es rs d)) = es"
  by (induction es arbitrary: rs d) (simp_all add: split_beta challenge_one_def Let_def)

lemma sound_tally:
  "\<forall>out \<in> set outs. addr_ok (t_addr (fst out)) \<Longrightarrow> store_sound cfg (snd cs) \<Longrightarrow>
     store_sound cfg (snd (fold (tally_one now gone) outs cs))"
proof (induction outs arbitrary: cs)
  case (Cons out outs)
  have "store_sound cfg (snd (tally_one now gone out cs))"
    using Cons.prems by (auto simp: tally_one_def Let_def split_beta sound_set_unfaithful)
  with Cons show ?case by simp
qed simp

lemma sound_challenge:
  assumes "store_sound cfg (nd_store nd)"
  shows "store_sound cfg (nd_store (challenge_pass cfg net now rs nd))"
proof -
  let ?rd = "nd_rd nd"
  obtain outs d where q: "ask_round net now rs (verified_hashes now MIN_AGE ?rd) (nd_challenger nd) (rd_store ?rd) = (outs, d)"
    by fastforce
  have "map fst outs = challengeable (rd_store ?rd)"
    using challenge_all_entries q by (metis ask_round_def fst_conv)
  then have "set (map fst outs) \<subseteq> set (dvals (s_transpeers (rd_store ?rd)))" by (auto simp: challengeable_def)
  then have "\<forall>out \<in> set outs. addr_ok (t_addr (fst out))" using sound_transpeer [OF assms] by auto
  from sound_tally [OF this, of cfg "(ch, rd_store ?rd)" for ch] assms show ?thesis
    by (auto simp: challenge_pass_def challenge_round_def q tally_def Let_def split_beta)
qed

lemma sound_source: "store_sound cfg (nd_store nd) \<Longrightarrow> store_sound cfg (nd_store (snd (anchor_source_body cfg env nd)))"
  by (auto simp: anchor_source_body_def save_anchor_state_def Let_def split_beta split: option.split)

lemma sound_reader:
  "re_cfg renv = cfg \<Longrightarrow> store_sound cfg (nd_store nd) \<Longrightarrow> store_sound cfg (nd_store (reader_pass cfg renv nd))"
  using sound_sync [of renv cfg "nd_rd nd" "reader_sources (nd_store nd)"]
  by (auto simp: reader_pass_def save_anchor_state_def Let_def split_beta split: sum.split)

lemma put_observed_store [simp]: "nd_store (put_observed cid s nd) = nd_store nd"
  by (simp add: put_observed_def)

lemma sound_observe: "store_sound cfg (nd_store nd) \<Longrightarrow> store_sound cfg (nd_store (snd (observe_pass pow cid ask nd)))"
  by (auto simp: observe_pass_def split_beta split: option.split)

text \<open>A request changes the peer store only by queueing the address it comes from.\<close>

lemma limit_store [simp]: "sv_store (snd (check_rate_limit now a sv)) = sv_store sv"
  by (simp add: check_rate_limit_def split_beta)

lemma limited_store [simp]: "sv_store (snd (limited now rq sv answer)) = sv_store sv"
  using limit_store [of now "rq_remote rq" sv] by (auto simp: limited_def split_beta split: bool.split)

lemma pow_store [simp]: "sv_store (snd (check_handshake_pow lib now rq sv)) = sv_store sv"
  by (auto simp: check_handshake_pow_def Let_def split_beta split: option.split)

lemma admit_store [simp]: "sv_store (snd (admit lib now rq sv)) = sv_store sv"
  using limit_store [of now "rq_remote rq" sv] pow_store [of lib now rq "snd (check_rate_limit now (rq_remote rq) sv)"]
  by (auto simp: admit_def split_beta split: bool.split sum.split)

lemma peers_store: "sv_store (snd (handle_peers lib now n rq sv)) = sv_store sv"
  "sv_store (snd (handle_transpeers lib now rs rq sv)) = sv_store sv"
  using admit_store [of lib now rq sv]
  by (auto simp: handle_peers_def handle_transpeers_def Let_def split_beta split: sum.split option.split)

lemma transpeer_store: "sv_store (snd (handle_transpeer now rq sv)) = sv_store sv \<or>
    sv_store (snd (handle_transpeer now rq sv)) = add_candidate (trunc now) (rq_remote rq) (sv_store sv)"
  using limit_store [of now "rq_remote rq" sv]
  by (auto simp: handle_transpeer_def Let_def split_beta split: bool.split)

lemma anchored_store:
  "sv_store (snd (handle_venues now rq sv)) = sv_store sv" "sv_store (snd (handle_blob now b rq sv)) = sv_store sv"
  "sv_store (snd (handle_blobs_index now rq sv)) = sv_store sv" "sv_store (snd (handle_anchor_headers now b rq sv)) = sv_store sv"
  "sv_store (snd (handle_venue_shares now b rq sv)) = sv_store sv" "sv_store (snd (handle_anchor_coinbase now b d rq sv)) = sv_store sv"
  "sv_store (snd (handle_venue_share now b d rq sv)) = sv_store sv"
  "sv_store (snd (handle_venue_share_by_root now b d rq sv)) = sv_store sv"
  by (auto simp: handle_venues_def handle_blob_def handle_blobs_index_def handle_anchor_headers_def handle_venue_shares_def
      handle_anchor_coinbase_def handle_venue_share_def handle_venue_share_by_root_def split: option.split)

lemma dispatch_store: "sv_store (snd (dispatch_request lib now rs rq sv)) = sv_store sv \<or>
    sv_store (snd (dispatch_request lib now rs rq sv)) = add_candidate (trunc now) (rq_remote rq) (sv_store sv)"
  unfolding dispatch_request_def Let_def
  using transpeer_store [of now rq sv] by (auto simp: peers_store anchored_store split_beta split: list.split)

lemma sound_serve:
  assumes "addr_ok (rq_remote rq)" "store_sound cfg (nd_store nd)"
  shows "store_sound cfg (nd_store (snd (serve_request cfg lib now rs rq nd)))"
proof -
  have s: "sv_store (node_server cfg nd) = nd_store nd" by (simp add: node_server_def)
  have "store_sound cfg (sv_store (snd (serve lib now rs rq (node_server cfg nd))))"
    using dispatch_store [of lib now rs rq "node_server cfg nd"] assms sound_add_candidate
    by (auto simp: serve_def s split_beta split: sum.split)
  then show ?thesis by (simp add: serve_request_def split_beta put_store_def)
qed

lemma aux_set_address [simp]: "ax_store (set_address params s) = ax_store s"
  by (simp add: set_address_def split: option.split json.split)

lemma sound_get_aux:
  assumes "store_sound cfg (ax_store s)"
  shows "store_sound cfg (ax_store (snd (get_aux_block cfg now params s)))"
proof -
  have r: "store_sound cfg (fst (snd (refresh cfg db now (ax_store s, pb))))" for db pb by (rule sound_refresh [OF assms])
  show ?thesis
    using r assms by (auto simp: get_aux_block_def Let_def split_beta split: sum.split option.split)
qed

lemma submit_store: "ax_store (snd (submit_solution cfg now params s)) = ax_store s"
  by (auto simp: submit_solution_def Let_def reject_def accept_solution_def split: sum.split option.split)

lemma sound_aux:
  assumes "store_sound cfg (nd_store nd)"
  shows "store_sound cfg (nd_store (snd (serve_aux cfg now doc nd)))"
proof -
  have m: "store_sound cfg (ax_store s')" if "rpc_method cfg now req s = Some (r, s')" "store_sound cfg (ax_store s)" for req s r s'
    using that sound_get_aux [of cfg s now] submit_store [of cfg now _ s]
    by (auto simp: rpc_method_def Let_def split: option.splits json.splits if_splits) (metis snd_conv)+
  have h: "store_sound cfg (ax_store (snd (rpc_handle cfg now req s)))" if "store_sound cfg (ax_store s)" for req s
    using m that by (auto simp: rpc_handle_def Let_def split: option.split sum.split aux_error.split)
  have "store_sound cfg (ax_store (snd (rpc_http cfg now doc s)))" if "store_sound cfg (ax_store s)" for s
    using h that by (auto simp: rpc_http_def split: sum.split)
  then show ?thesis using assms by (auto simp: serve_aux_def split_beta split: option.split)
qed

end
