(* ===== verification/NodeViews.thy ===== *)
theory NodeViews
  imports NodeSound
begin

text \<open>
  The chain view a node holds through the steps of the reader and of the anchor source: it stays a linked chain through the
  checkpoint, whatever the sources serve.
\<close>

section \<open>The view a node holds\<close>

text \<open>A chain through the checkpoint: the ids are those of the headers, each header names the id before it, and the checkpoint
  height has the checkpoint's id.\<close>

definition linked_view :: "checkpoint \<Rightarrow> chain_view \<Rightarrow> bool" where
  "linked_view cp v \<longleftrightarrow> view_wf v \<and> cv_first v \<le> cp_height cp \<and> cp_height cp \<le> tip_height v \<and>
     id_at (cp_height cp) v = Inr (cp_hash cp) \<and>
     (\<exists>rows heads. link_rows rows [] [] = Inr (heads, cv_ids v) \<and> cv_blobs v = map hr_blob rows)"

definition held_linked :: "checkpoint \<Rightarrow> stored_view option \<Rightarrow> bool" where
  "held_linked cp sv \<longleftrightarrow> (case sv of None \<Rightarrow> True | Some s \<Rightarrow> (\<forall>v. view_of_stored s = Some v \<longrightarrow> linked_view cp v))"

lemma full_linked:
  assumes "verify_headers rows cp pow now rs s n None = Inr v"
  shows "linked_view cp v"
proof -
  have "verify_full rows cp pow now rs s n = Inr v" using assms by (auto simp: verify_headers_def split: if_splits)
  then obtain heads where F: "rows \<noteq> []" "contiguous rows = Inr ()"
    "hr_height (hd rows) \<le> cp_height cp" "cp_height cp \<le> hr_height (last rows)"
    "link_rows rows [] [] = Inr (heads, cv_ids v)" "cv_ids v ! nat (cp_height cp - hr_height (hd rows)) = cp_hash cp"
    "cv_first v = hr_height (hd rows)" "cv_blobs v = map hr_blob rows" "view_wf v"
    by (rule verify_full_parts)
  have l: "length (cv_ids v) = length rows" "hr_height (last rows) = hr_height (hd rows) + int (length rows) - 1"
    using link_rows_shape [OF F(5)] contiguous_height [OF F(2,1)] by simp_all
  then have "id_at (cp_height cp) v = Inr (cp_hash cp)" "cp_height cp \<le> tip_height v"
    using F(3,4,6,7) by (simp_all add: id_at_def py_index_def tip_height_def)
  with F show ?thesis unfolding linked_view_def by auto
qed

lemma extended_linked:
  assumes "linked_view cp v" "verify_headers new cp pow now rs s n (Some v) = Inr w"
  shows "linked_view cp w"
proof -
  have "extend_view new v cp pow now = Inr w" using assms(2) by (auto simp: verify_headers_def split: if_splits)
  then obtain w' limit where E: "extend_rows cp pow limit new v = Inr w'" "w = w'\<lparr>cv_checkpoint_height := cp_height cp\<rparr>"
    by (auto simp: extend_view_def bindR_Inr_conv split: if_splits)
  obtain rows heads where L: "link_rows rows [] [] = Inr (heads, cv_ids v)" "cv_blobs v = map hr_blob rows" "view_wf v"
    using assms(1) by (auto simp: linked_view_def)
  from extend_rows_checks [OF E(1) L(3), of heads] obtain hs ids where X:
    "link_rows new heads (cv_ids v) = Inr (heads @ hs, cv_ids w')" "cv_ids w' = cv_ids v @ ids"
    "cv_blobs w' = cv_blobs v @ map hr_blob new" "cv_first w' = cv_first v" "view_wf w'" by blast
  have "link_rows (rows @ new) [] [] = Inr (heads @ hs, cv_ids w')" by (simp add: link_rows_append L(1) X(1))
  moreover have "cv_blobs w' = map hr_blob (rows @ new)" by (simp add: X(3) L(2))
  moreover have "id_at (cp_height cp) w = Inr (cp_hash cp)"
    using assms(1) X(2,4) E(2) by (auto simp: linked_view_def id_at_def py_index_def tip_height_def nth_append)
  moreover have "view_wf w" using X(5) E(2) by (simp add: view_wf_def)
  ultimately show ?thesis using assms(1) X(2,4) E(2) by (auto simp: linked_view_def tip_height_def)
qed

lemma source_view_linked:
  assumes "source_view env cp existing src = Inr (Some v)" "\<forall>w. existing = Some w \<longrightarrow> linked_view cp w"
  shows "linked_view cp v"
proof -
  have full: "full_view env cp tip src = Inr (Some v) \<Longrightarrow> linked_view cp v" for tip
    by (auto simp: full_view_def Let_def bindR_Inr_conv full_linked split: if_splits)
  show ?thesis
  proof (cases existing)
    case None
    then show ?thesis using assms(1) full by (auto simp: source_view_def split: option.splits if_splits)
  next
    case (Some w)
    then have w: "linked_view cp w" using assms(2) by simp
    note ext = extended_linked [OF w]
    show ?thesis using assms(1) Some w full ext
      by (auto simp: source_view_def Let_def bindR_Inr_conv split: option.splits if_splits sum.splits exn.splits)
  qed
qed

lemma source_views_linked:
  "source_views env cp existing srcs = Inr vs \<Longrightarrow> \<forall>w. existing = Some w \<longrightarrow> linked_view cp w \<Longrightarrow> \<forall>v \<in> set vs. linked_view cp v"
proof (induction srcs arbitrary: vs)
  case (Cons src srcs)
  then obtain v ws where v: "catchR None (source_view env cp existing src) = Inr v" "source_views env cp existing srcs = Inr ws"
    "vs = (case v of None \<Rightarrow> ws | Some v \<Rightarrow> v # ws)" by (auto simp: bindR_Inr_conv)
  have "\<forall>w. v = Some w \<longrightarrow> linked_view cp w"
    using v(1) source_view_linked [OF _ Cons.prems(2), of env src] by (auto simp: catchR_def split: sum.splits if_splits)
  with Cons v show ?case by (auto split: option.splits)
qed simp

definition keeps_linked :: "checkpoint \<Rightarrow> 'a rstep \<Rightarrow> bool" where
  "keeps_linked cp m \<longleftrightarrow> (\<forall>rd. held_linked cp (as_view (rd_anchor rd)) \<longrightarrow> held_linked cp (as_view (rd_anchor (snd (m rd)))))"

lemma keeps_linked_same: "keeps (\<lambda>rd. as_view (rd_anchor rd)) m \<Longrightarrow> keeps_linked cp m"
  by (simp add: keeps_def keeps_linked_def)

lemma keeps_linked_bind: "keeps_linked cp m \<Longrightarrow> (\<And>x. keeps_linked cp (f x)) \<Longrightarrow> keeps_linked cp (bindS m f)"
  by (simp add: keeps_linked_def bindS_def split_beta split: sum.split)

lemma keeps_linked_prod: "(\<And>a b. keeps_linked cp (f a b)) \<Longrightarrow> keeps_linked cp (case x of (a, b) \<Rightarrow> f a b)"
  by (cases x) simp

lemma keeps_linked_option: "keeps_linked cp a \<Longrightarrow> (\<And>x. keeps_linked cp (f x)) \<Longrightarrow> keeps_linked cp (case x of None \<Rightarrow> a | Some x \<Rightarrow> f x)"
  by (cases x) simp_all

lemma linked_step1: "keeps_linked cp (step1_headers env cp sources)"
  unfolding keeps_linked_def
proof (intro allI impI)
  fix rd :: anchor_reader
  assume h: "held_linked cp (as_view (rd_anchor rd))"
  let ?ex = "anchor_view (rd_anchor rd)"
  have ex: "\<forall>w. ?ex = Some w \<longrightarrow> linked_view cp w"
    using h by (auto simp: held_linked_def anchor_view_def split: option.splits)
  have best: "best_view vs = Some v \<Longrightarrow> v \<in> set vs" for vs v
    by (auto simp: best_view_def dest: min_by_in)
  show "held_linked cp (as_view (rd_anchor (snd (step1_headers env cp sources rd))))"
  proof (cases "source_views env cp ?ex sources")
    case (Inl e)
    then show ?thesis using h by (simp add: step1_headers_def bindS_def getS_def liftS_def)
  next
    case (Inr vs)
    note L = source_views_linked [OF Inr ex]
    show ?thesis
    proof (cases "best_view vs")
      case None
      then show ?thesis using h Inr by (simp add: step1_headers_def bindS_def getS_def liftS_def retS_def)
    next
      case (Some v)
      then have "linked_view cp v" using L best by blast
      then have "held_linked cp (Some (stored_of v))" by (simp add: held_linked_def)
      then show ?thesis using h Inr Some
        by (cases "view_rows v") (simp_all add: step1_headers_def bindS_def getS_def liftS_def retS_def modifyS_def)
    qed
  qed
qed

lemma view_publish_entries: "keeps (\<lambda>rd. as_view (rd_anchor rd)) (publish_entries env i es)"
proof (induction es arbitrary: i)
  case (Cons e es)
  obtain addr port where e: "e = (addr, port)" by (cases e)
  have a: "keeps (\<lambda>rd. as_view (rd_anchor rd)) (\<lambda>rd. if get_transpeer addr port (rd_store rd) = None
         then (case add_transpeer (re_cfg env) (re_now env) ((new_tentry addr port)\<lparr>t_last_seen := re_now env\<rparr>) False (re_rand env i) (rd_store rd) of
             (r, st) \<Rightarrow> (bindR r (\<lambda>_. Inr ()), rd\<lparr>rd_store := st\<rparr>))
         else (Inr (), rd))" by (simp add: keeps_def split_beta)
  have m: "keeps (\<lambda>rd. as_view (rd_anchor rd)) (modifyS (\<lambda>rd. rd\<lparr>rd_store := f rd\<rparr>))" for f by (rule kept_modifyS) simp
  show ?case unfolding e publish_entries.simps by (rule kept_bindS a m Cons.IH)+
qed (simp add: kept)

lemma view_step7: "keeps (\<lambda>rd. as_view (rd_anchor rd)) (step7_seeding env w)"
proof -
  have m: "keeps (\<lambda>rd. as_view (rd_anchor rd)) (modifyS (\<lambda>rd. rd\<lparr>rd_store := f rd\<rparr>))" for f by (rule kept_modifyS) simp
  show ?thesis unfolding step7_seeding_def Let_def by (rule kept_bindS m view_publish_entries kept_basic)+
qed

lemma view_step6: "keeps (\<lambda>rd. as_view (rd_anchor rd)) (step6_weights w)"
  by (simp add: keeps_def step6_weights_def)

lemma linked_sync_steps: "keeps_linked cp (sync_steps env cp sources)"
  unfolding sync_steps_def Let_def
  by (rule keeps_linked_prod keeps_linked_option keeps_linked_bind linked_step1
      keeps_linked_same [OF view_field.kept_step2] keeps_linked_same [OF view_field.kept_candidates]
      keeps_linked_same [OF view_field.kept_step3] keeps_linked_same [OF view_field.kept_step4]
      keeps_linked_same [OF view_field.kept_step5] keeps_linked_same [OF view_step6] keeps_linked_same [OF view_step7]
      keeps_linked_same [OF kept_basic(1)])+

lemma linked_sync:
  assumes "parse_checkpoint (c_anchor_checkpoint (re_cfg env)) = Inr cp" "held_linked cp (as_view (rd_anchor rd))"
  shows "held_linked cp (as_view (rd_anchor (snd (sync env sources rd))))"
proof -
  obtain r rd1 where q: "sync_steps env cp (take MAX_SOURCES sources) rd = (r, rd1)" by fastforce
  have s: "held_linked cp (as_view (rd_anchor rd1))"
    using linked_sync_steps [of cp env "take MAX_SOURCES sources"] assms(2) q by (metis keeps_linked_def snd_conv)
  have p: "as_view (rd_anchor (snd (prune_stores env cp c st rd1))) = as_view (rd_anchor rd1)" for c st
    by (rule keepsD [OF view_field.kept_prune])
  show ?thesis using s p assms(1) q
    by (simp add: sync_def bindS_def liftS_def Let_def split_beta split: sum.split option.split)
qed

text \<open>After a sync the view is the one its first step chose.\<close>

lemma sync_view:
  assumes "parse_checkpoint (c_anchor_checkpoint (re_cfg env)) = Inr cp"
    "step1_headers env cp (take MAX_SOURCES sources) rd = (Inr (Some v), rd1)"
  shows "as_view (rd_anchor (snd (sync env sources rd))) = as_view (rd_anchor rd1)"
proof -
  obtain r rd2 where q: "sync_steps env cp (take MAX_SOURCES sources) rd = (r, rd2)" by fastforce
  let ?view = "\<lambda>rd. as_view (rd_anchor rd)"
  have "?view rd2 = ?view rd1"
  proof -
    define rest where "rest = (let start = coverage_from v (c_anchor_window_days (re_cfg env)); srcs = take MAX_SOURCES sources in
      bindS (step2_coverage_window env srcs v start) (\<lambda>(tagged, missing, fetched).
      bindS (\<lambda>rd. case candidate_venues env srcs rd of (v, rd) \<Rightarrow> (Inr v, rd)) (\<lambda>venues.
      bindS (step3_venue_leaves env srcs tagged venues v) (\<lambda>(tips, resolved).
      bindS (step4_canonical_fork env srcs tips v) (\<lambda>canonical.
      bindS (step5_blobs env srcs canonical) (\<lambda>_.
      bindS (step6_weights canonical) (\<lambda>weights.
      bindS (step7_seeding env weights) (\<lambda>published.
        retS (Some \<lparr> sr_view = v, sr_start = start, sr_tagged = tagged, sr_missing = missing, sr_fetched = fetched,
          sr_tips = tips, sr_resolved = resolved, sr_canonical = canonical, sr_weights = weights,
          sr_published = published \<rparr>)))))))))"
    have k: "keeps ?view rest"
      unfolding rest_def Let_def
      by (rule kept_prod kept_bindS view_field.kept_step2 view_field.kept_candidates view_field.kept_step3
          view_field.kept_step4 view_field.kept_step5 view_step6 view_step7 kept_basic(1))+
    have "(r, rd2) = rest rd1" using q assms(2) by (simp add: sync_steps_def bindS_def [of "step1_headers _ _ _"] rest_def Let_def)
    then show ?thesis using keepsD [OF k, of rd1] by (metis snd_conv)
  qed
  moreover have "?view (snd (prune_stores env cp c st rd2)) = ?view rd2" for c st
    by (rule keepsD [OF view_field.kept_prune])
  ultimately show ?thesis using assms(1) q
    by (simp add: sync_def bindS_def liftS_def Let_def split_beta split: sum.split option.split)
qed

lemma linked_source:
  assumes "source_pass env a = (e, a')" "held_linked (se_checkpoint env) (as_view a)"
  shows "held_linked (se_checkpoint env) (as_view a')"
proof (cases "bindR (monerod_height (se_monerod env)) (fetch_new_rows (se_monerod env) (fetch_from env a))")
  case (Inl x)
  then show ?thesis using assms by (simp add: source_pass_def)
next
  case (Inr new_rows)
  obtain e1 a1 where t: "take_headers env new_rows a = (e1, a1)" by fastforce
  have "held_linked (se_checkpoint env) (as_view a1)"
    using t
  proof (cases rule: take_headers_cases)
    case (verified v)
    then show ?thesis using full_linked by (auto simp: held_linked_def)
  qed (use assms(2) in simp)
  moreover have "as_view a' = as_view a1"
    using assms(1) Inr t by (auto simp: source_pass_def dest: fetch_blocks_frame(2) split: option.splits)
  ultimately show ?thesis by simp
qed

end
