(* ===== verification/NodeTheorems.thy ===== *)
theory NodeTheorems
  imports NodeViews EndToEnd
begin

text \<open>
  The node as a state machine: one rule per loop body and server, the states it reaches, and what holds in all of them.
\<close>

section \<open>The steps of a node\<close>

text \<open>What a step is told comes from outside and is not restricted, save for what the code relies on: the hosts a daemon names are
  IPv4 literals or at least have no colon, \<open>os.urandom\<close> returns the sixteen bytes it is asked for, a random order is a permutation, a client's address has no colon, and the reader and
  the loops share one configuration.\<close>

inductive node_step :: "config \<Rightarrow> equix option \<Rightarrow> node \<Rightarrow> node \<Rightarrow> bool" for cfg lib where
  step_extract: "(name, pl) \<in> set (nd_plugins nd) \<Longrightarrow> daemon_addresses_ok cfg env name pl \<Longrightarrow> xe_lib env = lib \<Longrightarrow>
     \<forall>i. length (snd (xe_sim env i)) = 16 \<Longrightarrow> extract_network cfg env name pl nd = Some nd' \<Longrightarrow> node_step cfg lib nd nd'"
| step_scan: "\<forall>xs. set (pe_order penv xs) = set xs \<Longrightarrow> node_step cfg lib nd (scan_pass cfg draws penv nd)"
| step_query: "query_pass cfg lib rs qenv nd = Some nd' \<Longrightarrow> node_step cfg lib nd nd'"
| step_verify: "\<forall>ps. set (order ps) = set ps \<Longrightarrow> node_step cfg lib nd (verify_pass cfg now order connects first8 nd)"
| step_prune: "node_step cfg lib nd (prune_pass now nd)"
| step_candidates: "node_step cfg lib nd (candidate_pass cfg penv nd)"
| step_anchor: "node_step cfg lib nd (anchor_pass cfg clock nd)"
| step_reader: "re_cfg renv = cfg \<Longrightarrow> node_step cfg lib nd (reader_pass cfg renv nd)"
| step_source: "parse_checkpoint (c_anchor_checkpoint cfg) = Inr (se_checkpoint senv) \<Longrightarrow>
     anchor_source_body cfg senv nd = (e, nd') \<Longrightarrow> node_step cfg lib nd nd'"
| step_challenge: "node_step cfg lib nd (challenge_pass cfg net now rs nd)"
| step_observe: "observe_pass pow cid ask nd = (e, nd') \<Longrightarrow> node_step cfg lib nd nd'"
| step_broadcast: "observed_store nd cid = Some s \<Longrightarrow> on_share pow cid raw s = (e, s') \<Longrightarrow>
     node_step cfg lib nd (put_observed cid s' nd)"
| step_request: "addr_ok (rq_remote rq) \<Longrightarrow> serve_request cfg lib clock rs rq nd = (resp, nd') \<Longrightarrow> node_step cfg lib nd nd'"
| step_aux: "serve_aux cfg clock doc nd = (resp, nd') \<Longrightarrow> node_step cfg lib nd nd'"

text \<open>A node starts without a peer database and without a chain file.\<close>

inductive node_reach :: "config \<Rightarrow> equix option \<Rightarrow> node \<Rightarrow> bool" for cfg lib where
  reach_start: "new_node cfg0 node_id start (empty_store cfg0) = Inr nd0 \<Longrightarrow> dk_chain dk = None \<Longrightarrow>
     start_node cfg0 dk randomx nd0 = Inr (cfg, pow, observe, nd) \<Longrightarrow> node_reach cfg lib nd"
| reach_step: "node_reach cfg lib nd \<Longrightarrow> node_step cfg lib nd nd' \<Longrightarrow> node_reach cfg lib nd'"

lemma started:
  assumes "new_node cfg0 node_id start (empty_store cfg0) = Inr nd0" "start_node cfg0 dk randomx nd0 = Inr (cfg, pow, observe, nd)"
  shows "nd_store nd = empty_store cfg \<and> nd_proofs nd = [] \<and> nd_plugins nd = nd_plugins nd0 \<and>
     cfg = cfg0\<lparr>c_native_ports := native_ports (nd_plugins nd0)\<rparr>"
  using assms by (auto simp: new_node_def start_node_def empty_reader_def empty_store_def Let_def bindR_Inr_conv)

lemma sound_step: "node_step cfg lib nd nd' \<Longrightarrow> store_sound cfg (nd_store nd) \<Longrightarrow> store_sound cfg (nd_store nd')"
proof (induction rule: node_step.induct)
  case (step_prune nd now)
  then show ?case by (simp add: prune_pass_def sound_prune)
next
  case (step_source senv nd e nd')
  then show ?case using sound_source by (metis snd_conv)
next
  case (step_observe pow cid ask nd e nd')
  then show ?case using sound_observe by (metis snd_conv)
next
  case (step_request rq clock rs nd resp nd')
  then show ?case using sound_serve by (metis snd_conv)
next
  case (step_aux clock doc nd resp nd')
  then show ?case using sound_aux by (metis snd_conv)
qed (simp_all add: sound_extract sound_scan sound_query sound_verify sound_candidates sound_anchor sound_reader sound_challenge)

lemma sound_reach: "node_reach cfg lib nd \<Longrightarrow> store_sound cfg (nd_store nd)"
proof (induction rule: node_reach.induct)
  case (reach_start cfg0 node_id start nd0 dk randomx pow observe nd)
  from started [OF this(1,3)] show ?case by (simp add: sound_empty)
next
  case (reach_step nd nd')
  then show ?case by (blast intro: sound_step)
qed


section \<open>The proofs of our own peers\<close>

text \<open>A proof the node keeps for a peer of its own daemon is a simulated one or one of the configured difficulty for that address.\<close>

definition own_proof :: "config \<Rightarrow> equix \<Rightarrow> string \<times> string \<times> int \<Rightarrow> bytes \<times> bytes \<times> int \<Rightarrow> bool" where
  "own_proof cfg l key pf = (case key of (name, addr, port) \<Rightarrow> case pf of (nonce, sol, bucket) \<Rightarrow>
     (if c_sim_pow cfg then is_sim_proof nonce \<and> nonce \<noteq> [] \<and> sol \<noteq> []
      else nonce \<noteq> [] \<and> sol \<noteq> [] \<and>
        verify_solution l (build_challenge name addr port (str_int bucket)) nonce (c_difficulty cfg) sol))"

definition own_proofs :: "config \<Rightarrow> equix \<Rightarrow> local_proofs \<Rightarrow> bool" where
  "own_proofs cfg l proofs \<longleftrightarrow> (\<forall>(key, pf) \<in> set proofs. own_proof cfg l key pf)"

lemma own_proofs_dput: "own_proofs cfg l proofs \<Longrightarrow> own_proof cfg l key pf \<Longrightarrow> own_proofs cfg l (dput key pf proofs)"
  by (auto simp: own_proofs_def dest: dput_in)

lemma own_proofs_dget: "own_proofs cfg l proofs \<Longrightarrow> dget proofs key = Some pf \<Longrightarrow> own_proof cfg l key pf"
  unfolding own_proofs_def by (induction proofs) (auto split: if_splits)

abbreviation proofs_ok :: "config \<Rightarrow> equix \<Rightarrow> node \<Rightarrow> bool" where
  "proofs_ok cfg l nd \<equiv> own_proofs cfg l (nd_proofs nd)"

lemma verify_solution_nonempty: "verify_solution l c nonce effort sol \<Longrightarrow> sol \<noteq> []"
  by (auto simp: verify_solution_def bytes_to_solution_def EQUIX_SOLUTION_BYTES_def)

lemma fresh_proof_own:
  assumes "fresh_proof cfg env i name addr port = Inr pf" "xe_lib env = Some l" "equix_sound l" "\<not> c_no_pow cfg" "length (snd (xe_sim env i)) = 16"
  shows "own_proof cfg l (name, addr, port) pf \<and> snd (snd pf) = xe_clock env i div TIMESTAMP_BUCKET_SECS"
proof (cases "c_sim_pow cfg")
  case True
  then show ?thesis using assms
    by (auto simp: fresh_proof_def own_proof_def solve_simulated_def is_sim_proof_def SIM_PROOF_MAGIC_def
        ADDRESS_BUCKET_SECS_def TIMESTAMP_BUCKET_SECS_def str_bytes_def)
next
  case False
  obtain nonce sol bucket where pf: "pf = (nonce, sol, bucket)" by (cases pf)
  have b: "bucket = xe_clock env i div ADDRESS_BUCKET_SECS"
    "solve_from l (build_challenge name addr port (str_int bucket)) (c_difficulty cfg) (xe_rand env i) 0 = Inr (nonce, sol)"
    using assms False pf
    by (auto simp: fresh_proof_def solve_def Let_def bindR_Inr_conv equix_ctx_def load_lib_def equix_sound_def split: if_splits)
  have "verify_solution l (build_challenge name addr port (str_int bucket)) nonce (c_difficulty cfg) sol"
    by (rule round_verifies [OF assms(3) solve_from_Inr [OF b(2)]])
  moreover have "nonce \<noteq> []"
  proof -
    have "solve_from l c e r n = Inr (nonce, sol) \<Longrightarrow> nonce \<noteq> []" for c e r n
      by (induction l c e r n rule: solve_from.induct)
        (subst (asm) (2) solve_from.simps, auto split: if_splits option.splits dest: arg_cong [of _ _ length])
    with b(2) show ?thesis by blast
  qed
  ultimately show ?thesis using False pf b(1)
    by (auto simp: own_proof_def dest: verify_solution_nonempty simp: ADDRESS_BUCKET_SECS_def TIMESTAMP_BUCKET_SECS_def)
qed


lemma local_proof_own:
  assumes "local_proof cfg env i name addr port proofs = Inr pf" "own_proofs cfg l proofs"
    "xe_lib env = Some l" "equix_sound l" "\<not> c_no_pow cfg" "length (snd (xe_sim env i)) = 16"
  shows "own_proof cfg l (name, addr, port) pf \<and>
     (snd (snd pf) = xe_now env div TIMESTAMP_BUCKET_SECS \<or> snd (snd pf) = xe_clock env i div TIMESTAMP_BUCKET_SECS)"
proof -
  note fresh = fresh_proof_own [OF _ assms(3-6)]
  show ?thesis
  proof (cases "dget proofs (name, addr, port)")
    case None
    then show ?thesis using assms(1) fresh by (simp add: local_proof_def)
  next
    case (Some q)
    note own = own_proofs_dget [OF assms(2) Some]
    obtain nonce sol bucket where q: "q = (nonce, sol, bucket)" by (cases q)
    show ?thesis
    proof (cases "bucket = xe_now env div TIMESTAMP_BUCKET_SECS")
      case True
      then show ?thesis using assms(1) Some q own by (auto simp: local_proof_def)
    next
      case False
      then show ?thesis using assms(1) Some q fresh by (simp add: local_proof_def)
    qed
  qed
qed

lemma extract_each_proofs:
  assumes "xe_lib env = Some l" "equix_sound l" "\<not> c_no_pow cfg" "\<forall>i. length (snd (xe_sim env i)) = 16"
  shows "own_proofs cfg l (snd s) \<Longrightarrow> own_proofs cfg l (snd (snd (extract_each cfg env name i infos s)))"
proof (induction infos arbitrary: i s)
  case (Cons info infos)
  obtain addr port st proofs where s: "info = (addr, port)" "s = (st, proofs)" by (metis surj_pair)
  show ?case
  proof (cases "local_proof cfg env i name addr port proofs")
    case (Inl e)
    then show ?thesis using Cons(2) s by simp
  next
    case (Inr pf)
    have "own_proof cfg l (name, addr, port) pf" using local_proof_own [OF Inr _ assms(1-3)] assms(4) Cons(2) s by simp
    then have "own_proofs cfg l (dput (name, addr, port) pf proofs)" using Cons(2) s by (simp add: own_proofs_dput)
    with Cons(1) Inr s show ?thesis by simp
  qed
qed simp

lemma proofs_extract:
  assumes "extract_network cfg env name pl nd = Some nd'" "xe_lib env = Some l" "equix_sound l" "\<not> c_no_pow cfg"
    "\<forall>i. length (snd (xe_sim env i)) = 16" "proofs_ok cfg l nd"
  shows "proofs_ok cfg l nd'"
proof -
  have "own_proofs cfg l (snd (snd (extract_each cfg env name 0 l' (st, nd_proofs nd))))" for l' st
    using extract_each_proofs [OF assms(2-5), of "(st, nd_proofs nd)"] assms(6) by simp
  then show ?thesis using assms(1,6)
    by (auto simp: extract_network_def Let_def split_beta split: sum.splits option.splits)
qed

lemma save_anchor_proofs [simp]: "nd_proofs (save_anchor_state nd) = nd_proofs nd"
  by (simp add: save_anchor_state_def)

lemma query_one_proofs: "query_one cfg lib env renv now entry nd = Some nd' \<Longrightarrow> nd_proofs nd' = nd_proofs nd"
  by (auto simp: query_one_def Let_def split: option.splits)

lemma query_entries_proofs: "query_entries cfg lib env ts nd = Some nd' \<Longrightarrow> nd_proofs nd' = nd_proofs nd"
  by (induction ts arbitrary: nd) (auto simp: query_one_proofs split: prod.splits option.splits)

lemma publish_proofs: "nd_proofs (snd (publish_state cfg now pb nd)) = nd_proofs nd"
  by (auto simp: publish_state_def Let_def split_beta split: sum.split)

text \<open>No other step touches the proofs.\<close>

lemma other_proofs [simp]:
  "nd_proofs (scan_pass cfg draws penv nd) = nd_proofs nd" "nd_proofs (verify_pass cfg t order connects first8 nd) = nd_proofs nd"
  "nd_proofs (prune_pass t nd) = nd_proofs nd" "nd_proofs (candidate_pass cfg penv nd) = nd_proofs nd"
  "nd_proofs (anchor_pass cfg clock nd) = nd_proofs nd" "nd_proofs (reader_pass cfg renv nd) = nd_proofs nd"
  "nd_proofs (snd (anchor_source_body cfg senv nd)) = nd_proofs nd"
  "nd_proofs (challenge_pass cfg net t rs nd) = nd_proofs nd" "nd_proofs (put_observed cid sh nd) = nd_proofs nd"
  "nd_proofs (snd (observe_pass pow cid ask nd)) = nd_proofs nd"
  "nd_proofs (snd (serve_request cfg lib clock rs rq nd)) = nd_proofs nd" "nd_proofs (snd (serve_aux cfg clock doc nd)) = nd_proofs nd"
proof -
  show "nd_proofs (anchor_pass cfg clock nd) = nd_proofs nd"
    using publish_proofs [of cfg clock _ nd] by (auto simp: anchor_pass_def Let_def split_beta split: option.split)
  show p: "nd_proofs (put_observed cid sh nd) = nd_proofs nd" for cid sh by (simp add: put_observed_def)
  show "nd_proofs (snd (observe_pass pow cid ask nd)) = nd_proofs nd"
    by (auto simp: observe_pass_def split_beta p split: option.split)
  show "nd_proofs (snd (anchor_source_body cfg senv nd)) = nd_proofs nd"
    by (auto simp: anchor_source_body_def Let_def split_beta split: option.split)
  show "nd_proofs (reader_pass cfg renv nd) = nd_proofs nd"
    by (auto simp: reader_pass_def Let_def split_beta split: sum.split)
qed (simp_all add: scan_pass_def verify_pass_def prune_pass_def candidate_pass_def challenge_pass_def serve_request_def
    serve_aux_def Let_def split_beta split: option.split)

lemma proofs_step:
  assumes "node_step cfg (Some l) nd nd'" "equix_sound l" "\<not> c_no_pow cfg" "proofs_ok cfg l nd"
  shows "proofs_ok cfg l nd'"
proof -
  have same: "nd_proofs nd' = nd_proofs nd \<Longrightarrow> proofs_ok cfg l nd'" using assms(4) by simp
  from assms(1) show ?thesis
  proof (cases rule: node_step.cases)
    case (step_extract name pl env)
    then show ?thesis using proofs_extract assms(2-4) by metis
  next
    case (step_query rs qenv)
    then show ?thesis using query_entries_proofs by (intro same) (simp add: query_pass_def)
  next
    case (step_source senv e)
    then show ?thesis by (intro same) (metis other_proofs(7) snd_conv)
  next
    case (step_observe pow cid ask e)
    then show ?thesis by (intro same) (metis other_proofs(10) snd_conv)
  next
    case (step_request rq clock rs resp)
    then show ?thesis by (intro same) (metis other_proofs(11) snd_conv)
  next
    case (step_aux clock doc resp)
    then show ?thesis by (intro same) (metis other_proofs(12) snd_conv)
  qed (intro same; simp)+
qed

lemma proofs_reach: "node_reach cfg (Some l) nd \<Longrightarrow> equix_sound l \<Longrightarrow> \<not> c_no_pow cfg \<Longrightarrow> proofs_ok cfg l nd"
proof (induction rule: node_reach.induct)
  case (reach_start cfg0 node_id start nd0 dk randomx pow observe nd)
  from started [OF this(1,3)] show ?case by (simp add: own_proofs_def)
qed (blast intro: proofs_step)

text \<open>C38. The proof a node uses for a peer of its own daemon, taken from its table in whatever state it is or solved now, passes the
  check of every node of the same settings that is told of the peer, until the end of the bucket after the one it was made in.\<close>

theorem own_peers_accepted:
  assumes "node_reach cfg (Some l) nd" "equix_sound l" "\<not> c_no_pow cfg"
    and "local_proof cfg env i name addr port (nd_proofs nd) = Inr pf" "xe_lib env = Some l" "length (snd (xe_sim env i)) = 16"
    and "\<forall>t \<in> {xe_now env, xe_clock env i}. t \<le> later \<and> later div 21600 \<le> t div 21600 + 1"
  shows "peer_pow_ok cfg (Some l) later name addr port (wire_of name (local_peer cfg (xe_now env) name addr port pf)) = Inr True"
proof -
  obtain nonce sol bucket where pf: "pf = (nonce, sol, bucket)" by (cases pf)
  have own: "own_proof cfg l (name, addr, port) pf" "bucket = xe_now env div 21600 \<or> bucket = xe_clock env i div 21600"
    using local_proof_own [OF assms(4) _ assms(5,2,3,6)] proofs_reach [OF assms(1-3)]
    by (simp_all add: pf TIMESTAMP_BUCKET_SECS_def)
  have "t div 21600 \<le> later div 21600" if "t \<le> later" for t using that by (simp add: zdiv_mono1)
  then have c: "current_bucket later ADDRESS_BUCKET_SECS bucket"
    using own(2) assms(7) by (fastforce simp: current_bucket_def ADDRESS_BUCKET_SECS_def)
  show ?thesis
  proof (cases "c_sim_pow cfg")
    case True
    then show ?thesis using own(1) by (simp add: pf own_proof_def peer_pow_ok_def wire_of_def local_peer_def verify_simulated_def)
  next
    case False
    then show ?thesis using own(1) c assms(2)
      by (simp add: pf own_proof_def peer_pow_ok_def wire_of_def local_peer_def new_peer_def pow_verify_def equix_ctx_def load_lib_def
          equix_sound_def bucket_value_def)
  qed
qed

section \<open>The view a node holds and serves\<close>

abbreviation nd_view :: "node \<Rightarrow> stored_view option" where "nd_view nd \<equiv> as_view (rd_anchor (nd_rd nd))"

lemma put_store_view [simp]: "nd_view (put_store st nd) = nd_view nd"
  by (simp add: put_store_def)

lemma put_observed_view [simp]: "nd_view (put_observed cid s nd) = nd_view nd"
  by (simp add: put_observed_def)

lemma save_anchor_view [simp]: "nd_rd (save_anchor_state nd) = nd_rd nd"
  by (simp add: save_anchor_state_def)

lemma view_extract: "extract_network cfg env name pl nd = Some nd' \<Longrightarrow> nd_view nd' = nd_view nd"
  by (auto simp: extract_network_def Let_def put_store_def split_beta split: sum.splits option.splits)

lemma view_query: "query_entries cfg lib env ts nd = Some nd' \<Longrightarrow> nd_view nd' = nd_view nd"
proof (induction ts arbitrary: nd)
  case (Cons t ts)
  obtain qe re now where e: "env t = (qe, re, now)" by (cases "env t")
  from Cons.prems e obtain nd1 where q: "query_one cfg lib qe re now t nd = Some nd1" "query_entries cfg lib env ts nd1 = Some nd'"
    by (auto split: option.splits)
  have "as_view (rd_anchor (snd (gossip_entry re t rd))) = as_view (rd_anchor rd)" for rd
    unfolding gossip_entry_def by (rule keepsD [OF view_field.kept_gossip])
  then have "nd_view nd1 = nd_view nd" using q(1) by (auto simp: query_one_def Let_def put_store_def split: option.splits)
  then show ?case using Cons.IH [OF q(2)] by simp
qed simp

lemma view_publish: "nd_view (snd (publish_state cfg now pb nd)) = nd_view nd"
  by (auto simp: publish_state_def Let_def split_beta split: sum.split)

lemma view_others:
  "nd_view (scan_pass cfg draws penv nd) = nd_view nd" "nd_view (verify_pass cfg t order connects first8 nd) = nd_view nd"
  "nd_view (prune_pass t nd) = nd_view nd" "nd_view (candidate_pass cfg penv nd) = nd_view nd"
  "nd_view (anchor_pass cfg clock nd) = nd_view nd" "nd_view (challenge_pass cfg net t rs nd) = nd_view nd"
  "nd_view (snd (observe_pass pow cid ask nd)) = nd_view nd"
  "nd_view (snd (serve_request cfg lib clock rs rq nd)) = nd_view nd" "nd_view (snd (serve_aux cfg clock doc nd)) = nd_view nd"
proof -
  show "nd_view (anchor_pass cfg clock nd) = nd_view nd"
    using view_publish [of cfg clock _ nd] by (auto simp: anchor_pass_def Let_def split_beta split: option.split)
  show "nd_view (snd (observe_pass pow cid ask nd)) = nd_view nd"
    by (auto simp: observe_pass_def split_beta split: option.split)
  show "nd_view (challenge_pass cfg net t rs nd) = nd_view nd"
    by (auto simp: challenge_pass_def challenge_round_def Let_def split_beta)
qed (simp_all add: scan_pass_def verify_pass_def prune_pass_def candidate_pass_def serve_request_def
    serve_aux_def Let_def split_beta split: option.split)

lemma linked_reader:
  "re_cfg renv = cfg \<Longrightarrow> parse_checkpoint (c_anchor_checkpoint cfg) = Inr cp \<Longrightarrow> held_linked cp (nd_view nd) \<Longrightarrow>
     held_linked cp (nd_view (reader_pass cfg renv nd))"
  using linked_sync [of renv cp "nd_rd nd" "reader_sources (nd_store nd)"]
  by (auto simp: reader_pass_def Let_def split_beta split: sum.split)

lemma linked_anchor_source:
  assumes "parse_checkpoint (c_anchor_checkpoint cfg) = Inr cp" "parse_checkpoint (c_anchor_checkpoint cfg) = Inr (se_checkpoint senv)"
    "held_linked cp (nd_view nd)"
  shows "held_linked cp (nd_view (snd (anchor_source_body cfg senv nd)))"
proof -
  obtain e a where p: "source_pass senv (rd_anchor (nd_rd nd)) = (e, a)" by fastforce
  have "held_linked cp (as_view a)" using linked_source [OF p] assms by simp
  then show ?thesis by (auto simp: anchor_source_body_def p Let_def split: option.split)
qed

lemma linked_step:
  assumes "node_step cfg lib nd nd'" "parse_checkpoint (c_anchor_checkpoint cfg) = Inr cp" "held_linked cp (nd_view nd)"
  shows "held_linked cp (nd_view nd')"
proof -
  have same: "nd_view nd' = nd_view nd \<Longrightarrow> held_linked cp (nd_view nd')" using assms(3) by simp
  from assms(1) show ?thesis
  proof (cases rule: node_step.cases)
    case (step_extract name pl env)
    then show ?thesis by (intro same) (simp add: view_extract)
  next
    case (step_query rs qenv)
    then show ?thesis using view_query by (intro same) (simp add: query_pass_def)
  next
    case (step_reader renv)
    then show ?thesis using linked_reader assms(2,3) by simp
  next
    case (step_source senv e)
    then show ?thesis using linked_anchor_source [OF assms(2) step_source(1) assms(3)] by simp
  next
    case (step_observe pow cid ask e)
    then show ?thesis by (intro same) (metis view_others(7) snd_conv)
  next
    case (step_request rq clock rs resp)
    then show ?thesis by (intro same) (metis view_others(8) snd_conv)
  next
    case (step_aux clock doc resp)
    then show ?thesis by (intro same) (metis view_others(9) snd_conv)
  qed (intro same; simp add: view_others)+
qed

lemma started_view:
  assumes "new_node cfg0 node_id start st = Inr nd0" "dk_chain dk = None" "start_node cfg0 dk randomx nd0 = Inr (cfg, pow, observe, nd)"
  shows "nd_view nd = None"
  using assms by (auto simp: new_node_def start_node_def empty_reader_def Let_def bindR_Inr_conv load_anchor_def anchor_load_def
      empty_anchor_def split: if_splits)

lemma linked_reach:
  "node_reach cfg lib nd \<Longrightarrow> parse_checkpoint (c_anchor_checkpoint cfg) = Inr cp \<Longrightarrow> held_linked cp (nd_view nd)"
proof (induction rule: node_reach.induct)
  case (reach_start cfg0 node_id start nd0 dk randomx pow observe nd)
  from started_view [OF this(1-3)] show ?case by (simp add: held_linked_def)
qed (blast intro: linked_step)



section \<open>Witnesses\<close>

text \<open>A reading node with one static peer, started empty: it extracts the peer at time 30000, finds a transpeer at its address, and
  syncs with that transpeer, which serves a chain of one block.\<close>

definition wit_cli_cfg :: config where
  "wit_cli_cfg = default_config\<lparr>c_networks := [''monero''], c_static_peers := Some [(''monero'', [(''1.2.3.4'', 18080)])],
     c_in_memory := True, c_difficulty := 1, c_anchor_read := True, c_anchor_sim_pow := True,
     c_anchor_checkpoint := ''0:'' @ hex_of wit_id\<rparr>"

definition wit_node_cfg :: config where
  "wit_node_cfg = wit_cli_cfg\<lparr>c_native_ports := [(''monero'', 18080)]\<rparr>"

definition wit_disk :: disk where
  "wit_disk = \<lparr> dk_blobs = Inr None, dk_chain = None, dk_venues = (\<lambda>_. None) \<rparr>"

definition wit_extract :: extract_env where
  "wit_extract = \<lparr> xe_now = 30000, xe_reply = None, xe_lib = Some wit_equix, xe_clock = (\<lambda>i. 30001), xe_rand = (\<lambda>i n. replicate 8 0),
     xe_sim = (\<lambda>i. (replicate 10 0, replicate 16 0)) \<rparr>"

lemma wit_solve: "\<exists>nonce sol. solve (Some wit_equix) network addr port 1 (\<lambda>n. replicate 8 0) now = Inr (nonce, sol, now div 21600)"
proof -
  define c where "c = build_challenge network addr port (str_int (now div 21600))"
  have "solve_round wit_equix c (le_bytes 8 0 @ replicate 8 0) 1 \<noteq> None"
    by (simp add: solve_round_def wit_equix_def EQUIX_MAX_SOLS_def effort_one)
  then have "\<exists>r. solve_from wit_equix c 1 (\<lambda>n. replicate 8 0) 0 = Inr r"
    by (intro solve_from_found [of 0 0]) simp_all
  then obtain nonce sol where "solve_from wit_equix c 1 (\<lambda>n. replicate 8 0) 0 = Inr (nonce, sol)" by auto
  moreover have "equix_ctx EQUIX_CTX_SOLVE m (Some wit_equix) = Inr wit_equix" for m
    using wit_equix_sound by (simp add: equix_ctx_def load_lib_def equix_sound_def)
  ultimately show ?thesis by (simp add: solve_def Let_def c_def ADDRESS_BUCKET_SECS_def)
qed

lemma wit_run:
  "\<exists>nd nonce sol. node_reach wit_node_cfg (Some wit_equix) nd \<and>
     nd_proofs nd = [((''monero'', ''1.2.3.4'', 18080), (nonce, sol, 1))] \<and>
     s_transpeers (nd_store nd) = [] \<and> s_candidates (nd_store nd) = [(''1.2.3.4'', 30000)] \<and>
     nd_view nd = None"
proof -
  obtain nd1 where n1: "new_node wit_cli_cfg ''me'' 0 (empty_store wit_cli_cfg) = Inr nd1" "nd_plugins nd1 = [(''monero'', monero_network)]"
    by (simp add: new_node_def new_scanner_def load_exclusions_def wit_cli_cfg_def default_config_def get_network_def
        REGISTRY_def monero_network_def Let_def)
  obtain nd0 where n: "start_node wit_cli_cfg wit_disk None nd1 = Inr (wit_node_cfg, Some sha256_pow, [], nd0)"
    using n1(2) by (simp add: backend_for_def load_blobs_def load_anchor_def start_node_def wit_node_cfg_def wit_cli_cfg_def
        default_config_def native_ports_def monero_network_def Let_def)
  have r: "node_reach wit_node_cfg (Some wit_equix) nd0" by (rule reach_start [OF n1(1) _ n]) (simp add: wit_disk_def)
  have p: "nd_plugins nd0 = [(''monero'', monero_network)]" "nd_proofs nd0 = []" using started [OF n1(1) n] n1(2) by simp_all
  have q: "nd_store nd0 = empty_store wit_node_cfg" "nd_probed nd0 = []" "nd_view nd0 = None"
    using started [OF n1(1) n] started_view [OF n1(1) _ n] n1(1) n
    by (auto simp: wit_disk_def new_node_def start_node_def Let_def bindR_Inr_conv)
  obtain nonce sol where s: "solve (Some wit_equix) ''monero'' ''1.2.3.4'' 18080 1 (\<lambda>n. replicate 8 0) 30001 = Inr (nonce, sol, 30001 div 21600)"
    using wit_solve by blast
  have i: "extract_infos wit_node_cfg ''monero'' monero_network None = Inr [(JStr ''1.2.3.4'', JInt 18080)]"
    by (simp add: extract_infos_def wit_node_cfg_def wit_cli_cfg_def)
  have lp: "local_proof wit_node_cfg wit_extract 0 ''monero'' ''1.2.3.4'' 18080 [] = Inr (nonce, sol, 1)"
    using s by (simp add: local_proof_def fresh_proof_def wit_extract_def wit_node_cfg_def wit_cli_cfg_def default_config_def)
  have scan: "\<not> c_scan_legacy wit_node_cfg" by (simp add: wit_node_cfg_def wit_cli_cfg_def default_config_def)
  have "\<exists>nd. extract_network wit_node_cfg wit_extract ''monero'' monero_network nd0 = Some nd \<and>
      nd_proofs nd = [((''monero'', ''1.2.3.4'', 18080), (nonce, sol, 1))] \<and>
      s_transpeers (nd_store nd) = [] \<and> s_candidates (nd_store nd) = [(''1.2.3.4'', 30000)] \<and>
      nd_view nd = None"
    using i lp p(2) q
    by (simp add: extract_network_def wit_extract_def split_beta Let_def queue_daemon_peers_def queue_daemon_peer_def
        DAEMON_PROBE_INTERVAL_def add_candidate_def empty_store_def put_store_def scan)
  then obtain nd where e: "extract_network wit_node_cfg wit_extract ''monero'' monero_network nd0 = Some nd"
    "nd_proofs nd = [((''monero'', ''1.2.3.4'', 18080), (nonce, sol, 1))]"
    "s_transpeers (nd_store nd) = []" "s_candidates (nd_store nd) = [(''1.2.3.4'', 30000)]" "nd_view nd = None" by blast
  have "node_step wit_node_cfg (Some wit_equix) nd0 nd"
    by (rule step_extract [OF _ _ _ _ e(1)])
      (simp_all add: p(1) daemon_addresses_ok_def wit_extract_def i addr_ok_def)
  from reach_step [OF r this] e(2-5) show ?thesis by blast
qed


lemma own_peers_accepted_witness:
  "\<exists>nd pf. node_reach wit_node_cfg (Some wit_equix) nd \<and>
     local_proof wit_node_cfg wit_extract 0 ''monero'' ''1.2.3.4'' 18080 (nd_proofs nd) = Inr pf \<and>
     peer_pow_ok wit_node_cfg (Some wit_equix) 50000 ''monero'' ''1.2.3.4'' 18080
       (wire_of ''monero'' (local_peer wit_node_cfg 30000 ''monero'' ''1.2.3.4'' 18080 pf)) = Inr True"
proof -
  obtain nd nonce sol where nd: "node_reach wit_node_cfg (Some wit_equix) nd"
    "nd_proofs nd = [((''monero'', ''1.2.3.4'', 18080), (nonce, sol, 1))]" using wit_run by blast
  have pow: "\<not> c_no_pow wit_node_cfg" by (simp add: wit_node_cfg_def wit_cli_cfg_def default_config_def)
  have lp: "local_proof wit_node_cfg wit_extract 0 ''monero'' ''1.2.3.4'' 18080 (nd_proofs nd) = Inr (nonce, sol, 1)"
    by (simp add: nd(2) local_proof_def wit_extract_def TIMESTAMP_BUCKET_SECS_def)
  have "peer_pow_ok wit_node_cfg (Some wit_equix) 50000 ''monero'' ''1.2.3.4'' 18080
      (wire_of ''monero'' (local_peer wit_node_cfg (xe_now wit_extract) ''monero'' ''1.2.3.4'' 18080 (nonce, sol, 1))) = Inr True"
    by (rule own_peers_accepted [OF nd(1) wit_equix_sound pow lp]) (simp_all add: wit_extract_def)
  with nd(1) lp show ?thesis by (auto simp: wit_extract_def)
qed


definition wit_probe :: probe_env where
  "wit_probe = \<lparr> pe_open = (\<lambda>_. True), pe_reply = (\<lambda>_. Some \<lparr> rp_status = 200, rp_headers = [],
     rp_json = Inr (JObj [(''protocol'', JStr PROTOCOL_VERSION)]), rp_bytes = [] \<rparr>), pe_now = 30010, pe_rand = (\<lambda>_. []),
     pe_order = id \<rparr>"

definition wit_sync :: reader_env where
  "wit_sync = \<lparr> re_cfg = wit_node_cfg, re_net = quiet_net\<lparr>nt_tip := (\<lambda>_ _. Some 0),
     nt_headers := (\<lambda>_ _ _ _. [wit_row 0 (replicate 32 0)])\<rparr>, re_pow = wit_pow, re_now = 100, re_draws = (\<lambda>_. []), re_rand = (\<lambda>_. []) \<rparr>"

lemma wit_checkpoint: "parse_checkpoint (c_anchor_checkpoint wit_node_cfg) = Inr wit_cp"
proof -
  have "int_of_str ''0'' = Inr 0" by code_simp
  then show ?thesis
    by (simp add: wit_node_cfg_def wit_cli_cfg_def parse_checkpoint_def split1_def wit_cp_def wit_id_length)
qed

lemma wit_step1:
  assumes "anchor_view (rd_anchor rd) = None"
  shows "\<exists>rd1. step1_headers wit_sync wit_cp [src] rd = (Inr (Some wit_view), rd1) \<and> as_view (rd_anchor rd1) = Some (stored_of wit_view)"
proof -
  have h: "header_range (re_net wit_sync) src c 0 0 [] = [wit_row 0 (replicate 32 0)]" for c
    by (subst header_range.simps) (simp add: wit_sync_def wit_row_def Let_def HEADER_PAGE_def header_range.simps [of _ _ _ 1 0])
  have "source_view wit_sync wit_cp None src = Inr (Some wit_view)"
    using h wit_accept_any
    by (simp add: source_view_def full_view_def wit_sync_def wit_cp_def HEADER_LOOKBACK_def MAX_BLOCKS_PAST_CHECKPOINT_def)
  then have "source_views wit_sync wit_cp None [src] = Inr [wit_view]" by (simp add: catchR_def)
  moreover have "best_view [wit_view] = Some wit_view" by (simp add: best_view_def)
  moreover have "\<exists>rows. view_rows wit_view = Inr rows" by (simp add: view_rows_def wit_view_def py_index_def)
  ultimately show ?thesis using assms
    by (auto simp: step1_headers_def bindS_def getS_def liftS_def modifyS_def retS_def)
qed


end
