(* ===== verification/Snapshot.thy ===== *)
theory Snapshot
  imports StoreInvariants Handoff "HOL-Library.List_Lexorder"
begin

text \<open>
  Two remaining parts of \<open>transpeer/peerstore.py\<close>: the table of transpeers at the level of SQL, with the columns that later
  versions of the program added, as \<open>init\<close> and \<open>_load\<close> treat a file of any version; and the composition of the store that
  \<open>snapshot\<close> collects for the log.
\<close>

section \<open>The table of transpeers, column by column\<close>

datatype sql = SInt int | SText string

text \<open>A table: the names of its columns and its rows.\<close>

type_synonym sql_table = "string list \<times> sql list list"

definition BASE_COLUMNS :: "string list" where
  "BASE_COLUMNS = [''addr'', ''port'', ''networks'', ''last_seen'']"

definition ADDED_COLUMNS :: "string list" where
  "ADDED_COLUMNS = [''first_seen'', ''published'', ''unfaithful'']"

definition create_table :: "sql_table option \<Rightarrow> sql_table" where
  "create_table t = (case t of None \<Rightarrow> (BASE_COLUMNS, []) | Some t \<Rightarrow> t)"

text \<open>The columns are read once, before any is added; each missing one is added with the default 0.\<close>

definition add_column :: "string list \<Rightarrow> string \<Rightarrow> sql_table \<Rightarrow> sql_table" where
  "add_column columns c t = (if c \<in> set columns then t else (fst t @ [c], map (\<lambda>row. row @ [SInt 0]) (snd t)))"

definition init_transpeers :: "sql_table option \<Rightarrow> sql_table" where
  "init_transpeers t = (let t = create_table t in fold (add_column (fst t)) ADDED_COLUMNS t)"

text \<open>\<open>SELECT *\<close>, one row; a value of another type than its column's is outside of this model.\<close>

definition entry_of_values :: "sql list \<Rightarrow> tentry option" where
  "entry_of_values row = (case row of
     SText addr # SInt port # SText networks # SInt last_seen # SInt first_seen # rest \<Rightarrow>
       Some ((new_tentry addr port)\<lparr>
         t_networks := (if networks \<noteq> [] then split_on CHR '','' networks else []),
         t_last_seen := last_seen,
         t_first_seen := (if first_seen \<noteq> 0 then first_seen else last_seen),
         t_published := (case rest of SInt b # _ \<Rightarrow> b \<noteq> 0 | _ \<Rightarrow> False),
         t_unfaithful := (case rest of _ # SInt b # _ \<Rightarrow> b \<noteq> 0 | _ \<Rightarrow> False)\<rparr>)
   | _ \<Rightarrow> None)"

text \<open>What \<open>_save_transpeer\<close> writes.\<close>

definition values_of_row :: "tp_row \<Rightarrow> sql list" where
  "values_of_row r = [SText (tr_addr r), SInt (tr_port r), SText (tr_networks r), SInt (tr_last_seen r), SInt (tr_first_seen r),
     SInt (if tr_published r then 1 else 0), SInt (if tr_unfaithful r then 1 else 0)]"

lemma values_read_back: "entry_of_values (values_of_row r) = Some (entry_of_row r)"
  by (simp add: entry_of_values_def values_of_row_def entry_of_row_def)

text \<open>What a row written by a version that knew only the first \<open>k\<close> added columns stands for.\<close>

definition as_of_version :: "nat \<Rightarrow> tp_row \<Rightarrow> tp_row" where
  "as_of_version k r = r\<lparr> tr_first_seen := (if k \<ge> 1 then tr_first_seen r else 0),
     tr_published := (k \<ge> 2 \<and> tr_published r), tr_unfaithful := (k \<ge> 3 \<and> tr_unfaithful r) \<rparr>"

definition table_of_version :: "nat \<Rightarrow> tp_row list \<Rightarrow> sql_table" where
  "table_of_version k rows = (BASE_COLUMNS @ take k ADDED_COLUMNS, map (\<lambda>r. take (4 + k) (values_of_row r)) rows)"

text \<open>C40. A database file of any earlier version, or none, is brought to the columns of this one, and each of its rows is then read as
  the entry it stands for: its first contact is its last when it was not recorded, and it is neither published nor unfaithful
  when the version did not know the flag. Starting again on the result changes nothing.\<close>

theorem any_version_loads:
  assumes "k \<le> 3"
  shows "fst (init_transpeers (Some (table_of_version k rows))) = BASE_COLUMNS @ ADDED_COLUMNS \<and>
     map entry_of_values (snd (init_transpeers (Some (table_of_version k rows)))) =
       map (\<lambda>r. Some (entry_of_row (as_of_version k r))) rows \<and>
     init_transpeers (Some (init_transpeers (Some (table_of_version k rows)))) =
       init_transpeers (Some (table_of_version k rows)) \<and>
     init_transpeers None = (BASE_COLUMNS @ ADDED_COLUMNS, [])"
proof -
  have k: "k = 0 \<or> k = 1 \<or> k = 2 \<or> k = 3" using assms by linarith
  have t: "init_transpeers (Some (table_of_version k rows)) =
      (BASE_COLUMNS @ ADDED_COLUMNS, map (\<lambda>r. values_of_row (as_of_version k r)) rows)"
    using k by (auto simp: init_transpeers_def create_table_def table_of_version_def add_column_def Let_def BASE_COLUMNS_def
        ADDED_COLUMNS_def values_of_row_def as_of_version_def numeral_eq_Suc)
  show ?thesis unfolding t
    by (simp add: values_read_back o_def)
      (simp add: init_transpeers_def create_table_def add_column_def Let_def BASE_COLUMNS_def ADDED_COLUMNS_def)
qed

definition wit_old_row :: tp_row where
  "wit_old_row = \<lparr> tr_addr = ''1.2.3.4'', tr_port = 7337, tr_networks = ''monero,aeon'', tr_last_seen = 50, tr_first_seen = 20,
     tr_published = True, tr_unfaithful = True \<rparr>"

lemma any_version_loads_witness:
  "map entry_of_values (snd (init_transpeers (Some (table_of_version 1 [wit_old_row])))) =
     [Some (entry_of_row (wit_old_row\<lparr>tr_published := False, tr_unfaithful := False\<rparr>))]"
  using any_version_loads [of 1 "[wit_old_row]"] by (simp add: as_of_version_def wit_old_row_def)

section \<open>The snapshot\<close>

definition count_up :: "'k \<Rightarrow> ('k, int) dict \<Rightarrow> ('k, int) dict" where
  "count_up k d = dput k ((case dget d k of None \<Rightarrow> 0 | Some n \<Rightarrow> n) + 1) d"

definition source_label :: "peer \<Rightarrow> string" where
  "source_label p = (if p_source_addr p \<noteq> [] then p_source_addr p else ''local'')"

definition voucher_depth :: "config \<Rightarrow> peer \<Rightarrow> int" where
  "voucher_depth cfg p = (if c_vouchers cfg then int (fcard (p_vouchers p)) else p_sources p)"

definition sort_strings :: "string list \<Rightarrow> string list" where
  "sort_strings = sort_key (map (of_char :: char \<Rightarrow> nat))"

record snapshot =
  sn_transpeers :: nat
  sn_buckets :: nat
  sn_transpeer_addrs :: "string list"
  sn_peers :: nat
  sn_peer_sources :: "(string, int) dict"
  sn_voucher_hist :: "(int, int) dict"
  sn_daemon_view :: "(string, string list) dict"
  sn_tried_addrs :: "string list"
  sn_unrepresented :: "(string, nat) dict"
  sn_native :: nat

fun daemon_views :: "config \<Rightarrow> int \<Rightarrow> store \<Rightarrow> string list \<Rightarrow> rand \<Rightarrow> (string, string list) dict \<Rightarrow>
    (string, string list) dict \<times> rand" where
  "daemon_views cfg topn st [] rs d = (d, rs)"
| "daemon_views cfg topn st (net # nets) rs d =
     (case get_peers cfg net False (Some topn) rs st of (ps, rs) \<Rightarrow>
        daemon_views cfg topn st nets rs
          (dput net (map (\<lambda>p. source_label p @ '':'' @ str_int (voucher_depth cfg p)) (take (nat topn) ps)) d))"

fun unrepresented_counts :: "config \<Rightarrow> int \<Rightarrow> store \<Rightarrow> string list \<Rightarrow> rand \<Rightarrow> (string, nat) dict \<Rightarrow> (string, nat) dict \<times> rand" where
  "unrepresented_counts cfg topn st [] rs d = (d, rs)"
| "unrepresented_counts cfg topn st (net # nets) rs d =
     (case handoff_unrepresented cfg net topn rs st of (n, rs) \<Rightarrow> unrepresented_counts cfg topn st nets rs (dput net n d))"

definition SNAPSHOT_TOP :: int where "SNAPSHOT_TOP = 20"

definition take_snapshot :: "config \<Rightarrow> string list \<Rightarrow> int \<Rightarrow> rand \<Rightarrow> store \<Rightarrow> snapshot" where
  "take_snapshot cfg nets topn rs st =
     (let (view, rs) = daemon_views cfg topn st nets rs [];
          (unrep, rs) = unrepresented_counts cfg topn st nets rs []
      in \<lparr> sn_transpeers = length (s_transpeers st), sn_buckets = transpeer_bucket_count cfg st,
           sn_transpeer_addrs = sort_strings (map t_addr (dvals (s_transpeers st))),
           sn_peers = length (s_peers st),
           sn_peer_sources = fold (\<lambda>p. count_up (source_label p)) (dvals (s_peers st)) [],
           sn_voucher_hist = fold (\<lambda>p. count_up (voucher_depth cfg p)) (dvals (s_peers st)) [],
           sn_daemon_view = view,
           sn_tried_addrs = sort_strings (map t_addr (filter (is_tried cfg) (dvals (s_transpeers st)))),
           sn_unrepresented = unrep, sn_native = native_transpeer_count st \<rparr>)"

text \<open>Both histograms account for every peer.\<close>

lemma count_up_get: "dget (count_up k d) j = (if j = k then Some ((case dget d k of None \<Rightarrow> 0 | Some n \<Rightarrow> n) + 1) else dget d j)"
  by (simp add: count_up_def)

lemma count_up_sum: "sum_list (dvals (count_up k d)) = sum_list (dvals d) + 1"
proof -
  have "sum_list (dvals (dput k v d)) = sum_list (dvals d) + v - (case dget d k of None \<Rightarrow> 0 | Some n \<Rightarrow> n)" for v :: int
    by (induction d) auto
  then show ?thesis by (simp add: count_up_def)
qed

lemma histogram_total: "sum_list (dvals (fold (\<lambda>p. count_up (f p)) ps d)) = sum_list (dvals d) + int (length ps)"
  by (induction ps arbitrary: d) (simp_all add: count_up_sum)

lemma histogram_count:
  "dget (fold (\<lambda>p. count_up (f p)) ps d) k = (if k \<in> f ` set ps
     then Some ((case dget d k of None \<Rightarrow> 0 | Some n \<Rightarrow> n) + int (length (filter (\<lambda>p. f p = k) ps))) else dget d k)"
  by (induction ps arbitrary: d) (auto simp: count_up_get filter_empty_conv image_iff)

lemma snapshot_accounts:
  "sum_list (dvals (sn_peer_sources (take_snapshot cfg nets topn rs st))) = int (sn_peers (take_snapshot cfg nets topn rs st)) \<and>
   sum_list (dvals (sn_voucher_hist (take_snapshot cfg nets topn rs st))) = int (sn_peers (take_snapshot cfg nets topn rs st)) \<and>
   mset (sn_transpeer_addrs (take_snapshot cfg nets topn rs st)) = mset (map t_addr (dvals (s_transpeers st)))"
  by (simp add: take_snapshot_def split_beta Let_def histogram_total sort_strings_def)

end
