(* ===== verification/Spec2Isabelle.thy ===== *)
theory Spec2Isabelle
  imports StoreTheorems HandoffTheorems Ranges Headers Weight P2pClient ShareTypes Stores EndToEnd ReaderTheorems Challenge Scanner AuxRpc NodeTheorems Snapshot
begin

text \<open>
  A verification development of transpeer (\<open>src/transpeer\<close>).

  The program. A transpeer node finds other transpeers and exchanges with them the peers of peer-to-peer networks (Monero and
  others). It extracts peers from local daemons, attaches an EquiX proof of work to each, serves them over HTTP, queries other
  transpeers, checks what they send and keeps it in a bounded store. A publisher commits a curated list of transpeers to the
  Monero chain by merge mining through P2Pool; a reader rebuilds the weights of such lists from verified block headers and
  shares and seeds the store with the heaviest. Everything runs as periodic loops and two HTTP servers in one event loop.

  How the code is modelled. A class is a record of its state, a coroutine a function from the state and what it awaits to a
  result and the new state. It gives way only where it waits, so a body between two waits is one step; coroutines under the
  store's lock are one step each. Exceptions are values (\<open>exn\<close>, \<open>'a result = exn + 'a\<close>), and a raise
  leaves the state as far as it came. Clocks, random draws, answers of other hosts, files and third-party libraries are arguments.
  Python integers are \<open>int\<close>, bytes \<open>8 word list\<close>, floats rationals rounded to binary64 where a rounding can decide
  (\<open>Floats\<close>), dictionaries association lists in insertion order, sets \<open>fset\<close> or \<open>set\<close>, JSON a datatype (\<open>Wire\<close>).

  Theories and the files they model (under \<open>src/transpeer\<close>):
  \<^item> \<open>Prelude\<close>: results, dictionaries, sorting, draws; the locales \<open>keyed_store\<close> (laws of a dictionary) and
    \<open>history\<close> (an invariant over every sequence of operations).
  \<^item> \<open>IpAddr\<close>, \<open>Ranges\<close>: \<open>ipranges.py\<close>, the exclusion file and random addresses of \<open>scanner.py\<close>.
    \<open>Floats\<close>: binary64 rounding. \<open>Config\<close>, \<open>Cli\<close>: \<open>config.py\<close>, its record, parsers and the checks of the command line.
  \<^item> \<open>PeerTypes\<close>, \<open>PeerStore\<close>, \<open>TranspeerTable\<close>, \<open>Handoff\<close>, \<open>Snapshot\<close>: \<open>peerstore.py\<close>. A store is its four
    dictionaries, the trust records and, when there is a database, the two tables. \<open>StoreInvariants\<close>, \<open>StoreTheorems\<close> and
    \<open>HandoffTheorems\<close> prove the limits, the mirroring of memory and database, admission, eviction and the fairness of the hand-off.
  \<^item> \<open>Varint\<close>, \<open>Keccak\<close>, \<open>Blake2b\<close>, \<open>Wire\<close>: codecs and hashes, executable; the locale \<open>byte_codec\<close> is what a
    writer and its reader promise.
  \<^item> \<open>Merkle\<close>, \<open>Monero\<close>, \<open>Headers\<close>: \<open>anchor/merkle.py\<close>, \<open>anchor/monero.py\<close>, \<open>anchor/headers.py\<close>.
  \<^item> \<open>Blob\<close>, \<open>BlobDb\<close>, \<open>Weight\<close>: \<open>anchor/blob.py\<close>, \<open>anchor/blobdb.py\<close>, \<open>anchor/weight.py\<close>; the locale
    \<open>paged_source\<close> is an index read page by page with a cursor.
  \<^item> \<open>P2pWire\<close>, \<open>P2pClient\<close>: \<open>anchor/p2p.py\<close>, the connection as a machine over its events; the locale \<open>framing\<close>
    is a parser that may be fed in pieces.
  \<^item> \<open>Share\<close>, \<open>AuxTree\<close>, \<open>ShareFacts\<close>, \<open>ShareTypes\<close>, \<open>Stores\<close>: \<open>anchor/share.py\<close>, \<open>anchor/powhash.py\<close>,
    \<open>anchor/stores.py\<close>.
  \<^item> \<open>Pow\<close>: \<open>pow.py\<close>. \<open>Publisher\<close>, \<open>AuxRpc\<close>: \<open>anchor/publisher.py\<close>, \<open>anchor/auxrpc.py\<close>.
  \<^item> \<open>Http\<close>, \<open>Server\<close>, \<open>Client\<close>, \<open>Fetch\<close>, \<open>EndToEnd\<close>: \<open>server.py\<close>, \<open>client.py\<close>, \<open>anchor/fetch.py\<close> and
    the two ends together.
  \<^item> \<open>Reader\<close>, \<open>ReaderTheorems\<close>, \<open>Challenge\<close>: \<open>anchor/reader.py\<close>, \<open>anchor/challenge.py\<close>, as state-passing steps
    over the reader (\<open>bindS\<close>).
  \<^item> \<open>Scanner\<close>: \<open>scanner.py\<close>, \<open>verifier.py\<close>. \<open>Networks\<close>: \<open>networks/\<close>. \<open>Monerod\<close>: \<open>anchor/monerod.py\<close> and
    the anchor source of \<open>node.py\<close>.
  \<^item> \<open>Node\<close>: \<open>node.py\<close>, the start of a node and the body of every loop that changes its state. \<open>NodeSound\<close>,
    \<open>NodeViews\<close> and \<open>NodeTheorems\<close>: the bodies as the step relation \<open>node_step\<close>, the states it reaches and what holds
    in all of them; the locale \<open>reader_field\<close> collects what the steps of a sync leave alone.
\<close>

text \<open>
  What is proved. The store's limits and keys over every history and over every run of the whole node; that a restart gives back
  what was stored, from a file of any version; exact conditions of admission, eviction and hand-off. Round trips of every codec (varints
  and Merkle proofs, blobs, hashing blobs, shares, frames, replies), and canonicity where the format promises it. That
  accepted headers are a linked chain through the checkpoint, that extending a view refines verifying all of it, and that the view a
  running node holds is always such a chain. That gossip adds only commitments backed by work or by a verified block,
  that seeding flags exactly the heaviest transpeers, that the coverage counts of a sync are sound, that a challenge marks only on evidence. That a
  request is limited exactly, that a client told to prove work gets its answer on the retry, that the node's own proofs
  are accepted by others, that a job handed out by the auxiliary RPC is taken back, that no request of a P2Pool connection is left
  hanging. Hash functions are computed where a statement is exact and assumed free of collisions only where a theorem says so.

  Bounds and termination. Every loop of the code is a structurally recursive function or has a termination proof: the searches for a salt and
  for a proof end because their counters are bounded (64 bits of a nonce), header pages and the walk of a
  share chain because each round makes progress or uses up its budget (the code's own limits on blocks, leaves and batches).
  Draws are finite lists; a draw loop that has used its list up gives \<open>None\<close>, and the theorems say when a result exists.

  Third-party code as parameters: the EquiX library (\<open>equix\<close>, with \<open>equix_sound\<close> as its documented behaviour), the RandomX module,
  aiohttp (a reply is its status, headers, body and the outcome of reading it as JSON), SQLite (its tables as values) and the sockets.

  Not modelled: the event loop's scheduling inside a body, sleeping, timeouts as time, logging and its formats (also the reader's
  state line), argparse's splitting of words, the environment variables and the keyboard interrupt of \<open>__main__.py\<close>, file systems beyond
  the content of the files read and written, listening sockets and their clean-up, and the plugins' fields of a daemon's reply
  that are neither strings nor integers where the code would store them unchecked (the model of the extraction is undefined there). The
  verification and query coroutines of one batch run at the same time in the program and one after another in the model. \<open>equix/build.py\<close>
  builds a C library, \<open>sim/\<close> and \<open>tests/\<close> hold simulations and tests around the program: they have no part in it.
\<close>

end
